(* ===== verification/Prelude.thy ===== *)
theory Prelude
  imports Complex_Main "HOL-Library.Word"
begin

text \<open>
  Shared vocabulary of the development: the machine integer types of the C++ code, the
  status codes every operation returns, byte-addressed memory, the byte order helpers and
  the small alignment macros of \<^verbatim>\<open>services/utils/defs.h\<close>, with the generic lemmas that the
  component theories use.  A partial operation (a C++ expression with undefined behaviour, or a
  loop that need not end) has an \<open>option\<close> result with \<open>None\<close> for that case; an operation
  that may throw has a sum result with the exception on the left.
\<close>

unbundle bit_operations_syntax

type_synonym u8 = "8 word"
type_synonym u16 = "16 word"
type_synonym u32 = "32 word"
type_synonym u64 = "64 word"

named_theorems mem_simps \<open>reads after writes of byte-addressed memory\<close>
named_theorems word_arith \<open>word operations read as natural-number operations\<close>

section \<open>Status codes\<close>

datatype ReturnStatus =
    success
  | failure
  | success_cli_help
  | signal_received
  | obj_init_success
  | obj_init_failure
  | hw_send_queue_full
  | memory_allocation_failure
  | rmax_version_incompatible
  | rmax_version_unaligned
  | no_free_chunks
  | no_completion
  | frame_send_queue_full

section \<open>Checked operations\<close>

text \<open>A division and an access to an array as C++ has them: dividing by zero and reading out of bounds are undefined.\<close>

definition checked_div :: "'a::len word \<Rightarrow> 'a word \<Rightarrow> 'a word option" where
  "checked_div a b = (if b = 0 then None else Some (a div b))"

lemma checked_div_Some [simp]: "b \<noteq> 0 \<Longrightarrow> checked_div a b = Some (a div b)"
  by (simp add: checked_div_def)

lemma checked_div_zero [simp]: "checked_div a 0 = None"
  by (simp add: checked_div_def)

definition checked_nth :: "'a list \<Rightarrow> nat \<Rightarrow> 'a option" where
  "checked_nth xs i = (if i < length xs then Some (xs ! i) else None)"

lemma checked_nth_Some [simp]: "i < length xs \<Longrightarrow> checked_nth xs i = Some (xs ! i)"
  by (simp add: checked_nth_def)

lemma checked_nth_None [simp]: "length xs \<le> i \<Longrightarrow> checked_nth xs i = None"
  by (simp add: checked_nth_def)

section \<open>Generic facts on lists and arithmetic\<close>

lemma upt_split: "i \<le> j \<Longrightarrow> j \<le> k \<Longrightarrow> [i..<k] = [i..<j] @ [j..<k]"
  by (metis le_Suc_ex upt_add_eq_append)

lemma funpow_add_apply: "(f ^^ (m + n)) x = (f ^^ m) ((f ^^ n) x)"
  by (simp add: funpow_add)

lemma funpow_invariant:
  assumes "P x" and "\<And>y. P y \<Longrightarrow> P (f y)"
  shows "P ((f ^^ n) x)"
  using assms by (induction n) simp_all

lemma mod_Suc_wrap: "0 < (n::nat) \<Longrightarrow> Suc k mod n = (if Suc (k mod n) = n then 0 else Suc (k mod n))"
  by (metis mod_Suc)

lemma div_Suc_wrap: "0 < (n::nat) \<Longrightarrow> Suc k div n = (if Suc (k mod n) = n then Suc (k div n) else k div n)"
  by (simp add: div_Suc mod_Suc)

lemma mod_mod_dvd: "(p::nat) dvd n \<Longrightarrow> k mod n mod p = k mod p"
  by (simp add: mod_mod_cancel)

lemma mult_add_less: "i < (m::nat) \<Longrightarrow> r < n \<Longrightarrow> i * n + r < m * n"
proof -
  assume "i < m" and "r < n"
  then have "i * n + r < Suc i * n" by simp
  also have "\<dots> \<le> m * n" using \<open>i < m\<close> by (intro mult_right_mono) auto
  finally show ?thesis .
qed

section \<open>Words as natural numbers\<close>

lemma unat_add_no_wrap [word_arith]:
  "unat (a :: 'a::len word) + unat b < 2 ^ LENGTH('a) \<Longrightarrow> unat (a + b) = unat a + unat b"
  by (simp add: unat_word_ariths)

lemma unat_mult_no_wrap [word_arith]:
  "unat (a :: 'a::len word) * unat b < 2 ^ LENGTH('a) \<Longrightarrow> unat (a * b) = unat a * unat b"
  by (simp add: unat_word_ariths)

lemma unat_sub_no_wrap [word_arith]:
  "unat (b :: 'a::len word) \<le> unat a \<Longrightarrow> unat (a - b) = unat a - unat b"
  by (simp add: unat_sub word_le_nat_alt)

lemma unat_Suc_no_wrap [word_arith]:
  "unat (a :: 'a::len word) + 1 < 2 ^ LENGTH('a) \<Longrightarrow> unat (a + 1) = Suc (unat a)"
  by (simp add: unat_word_ariths)

lemma unat_div_word [word_arith]: "unat ((a :: 'a::len word) div b) = unat a div unat b"
  by (simp add: unat_div)

lemma unat_mod_word [word_arith]: "unat ((a :: 'a::len word) mod b) = unat a mod unat b"
  by (simp add: unat_mod)

lemma word_eq_unat: "(a :: 'a::len word) = b \<longleftrightarrow> unat a = unat b"
  by (simp add: word_unat_eq_iff)

lemma word_of_nat_div:
  assumes "a < 2 ^ LENGTH('a)" "b < 2 ^ LENGTH('a)"
  shows "(word_of_nat a :: 'a::len word) div word_of_nat b = word_of_nat (a div b)"
  using assms le_less_trans[OF div_le_dividend, of a "2 ^ LENGTH('a)" b]
  by (simp add: word_unat_eq_iff unat_div unat_of_nat)

lemma unat_word_of_nat: "n < 2 ^ LENGTH('a) \<Longrightarrow> unat (word_of_nat n :: 'a::len word) = n"
  by (simp add: unat_of_nat)

lemma ucast_eq_word_of_nat: "(ucast x :: 'b::len word) = word_of_nat (unat (x :: 'a::len word))"
  by (simp add: word_unat_eq_iff unat_of_nat unsigned_ucast_eq take_bit_eq_mod)

lemma unat_ucast_up:
  assumes "LENGTH('a) \<le> LENGTH('b)"
  shows "unat (ucast (x :: 'a::len word) :: 'b::len word) = unat x"
proof -
  have "unat x < 2 ^ LENGTH('a)" by (rule unsigned_less)
  also have "\<dots> \<le> 2 ^ LENGTH('b)" using assms by (intro power_increasing) simp_all
  finally show ?thesis by (simp add: unsigned_ucast_eq take_bit_nat_eq_self)
qed

lemma unat_u8_bound: "unat (x :: u8) < 256"
  by (rule less_le_trans[OF unsigned_less]) simp

lemma unat_u16_bound: "unat (x :: u16) < 65536"
  by (rule less_le_trans[OF unsigned_less]) simp

lemma unat_u32_bound: "unat (x :: u32) < 4294967296"
  by (rule less_le_trans[OF unsigned_less]) simp

lemma unat_u64_bound: "unat (x :: u64) < 18446744073709551616"
  by (rule less_le_trans[OF unsigned_less]) simp

lemmas unat_bounds = unat_u8_bound unat_u16_bound unat_u32_bound unat_u64_bound

lemma unat_sum_list: "sum_list (map unat xs) < 2 ^ 64 \<Longrightarrow> unat (sum_list xs :: u64) = sum_list (map unat xs)"
  by (induction xs) (simp_all add: unat_add_no_wrap)

section \<open>Alignment\<close>

definition INVALID_GPU_ID :: int where "INVALID_GPU_ID = 2 ^ 31 - 1"

definition align_down_pow2 :: "u64 \<Rightarrow> u64 \<Rightarrow> u64" where
  "align_down_pow2 n alignment = n AND NOT (alignment - 1)"

definition align_up_pow2 :: "u64 \<Rightarrow> u64 \<Rightarrow> u64" where
  "align_up_pow2 n alignment = align_down_pow2 (n + alignment - 1) alignment"

lemma align_up_power:
  assumes "c < 64" "unat (n :: u64) + (2 ^ c - 1) < 2 ^ 64"
  shows "unat (align_up_pow2 n (2 ^ c)) = (unat n + (2 ^ c - 1)) div 2 ^ c * 2 ^ c"
proof -
  have m: "(2 ^ c - 1 :: u64) = mask c" by (simp add: mask_eq_exp_minus_1)
  have e: "x AND NOT (mask c) = push_bit c (drop_bit c x)" for x :: u64
    by (rule bit_word_eqI) (auto simp: bit_simps not_less dest!: le_Suc_ex)
  have pc: "unat (2 ^ c :: u64) = 2 ^ c"
  proof -
    have "(2 :: nat) ^ c < 2 ^ 64" using assms(1) by (intro power_strict_increasing) simp_all
    then have "unat (word_of_nat (2 ^ c) :: u64) = 2 ^ c" by (intro unat_word_of_nat) simp
    then show ?thesis by simp
  qed
  have s: "unat (n + (2 ^ c - 1)) = unat n + (2 ^ c - 1)"
  proof -
    have one: "unat (2 ^ c - 1 :: u64) = 2 ^ c - 1" using pc by (simp add: unat_sub word_le_nat_alt unat_minus_one)
    show ?thesis using assms(2) one by (subst unat_add_no_wrap) simp_all
  qed
  have d: "unat (drop_bit c x) = unat x div 2 ^ c" for x :: u64
    by (simp add: drop_bit_eq_div unat_div pc)
  have "unat (drop_bit c (n + (2 ^ c - 1))) * unat (2 ^ c :: u64) < 2 ^ LENGTH(64)"
    using le_less_trans[OF div_times_less_eq_dividend[of "unat (n + (2 ^ c - 1))" "2 ^ c"] unat_u64_bound[of "n + (2 ^ c - 1)"]]
    unfolding pc d by simp
  then have "unat (push_bit c (drop_bit c (n + (2 ^ c - 1)))) = unat (n + (2 ^ c - 1)) div 2 ^ c * 2 ^ c"
    unfolding push_bit_eq_mult by (subst unat_mult_no_wrap) (simp_all only: pc d)
  moreover have "n + 2 ^ c - 1 = n + (2 ^ c - 1)" by (simp add: algebra_simps)
  ultimately show ?thesis unfolding align_up_pow2_def align_down_pow2_def m e
    by (simp only: s[unfolded m] e)
qed

lemma align_up_power_bounds:
  assumes "c < 64" "unat (n :: u64) + (2 ^ c - 1) < 2 ^ 64"
  shows "unat n \<le> unat (align_up_pow2 n (2 ^ c))" "unat (align_up_pow2 n (2 ^ c)) < unat n + 2 ^ c"
proof -
  have p: "(0 :: nat) < 2 ^ c" by simp
  have "unat n < (unat n + (2 ^ c - 1)) div 2 ^ c * 2 ^ c + 1"
    using div_mult_mod_eq[of "unat n + (2 ^ c - 1)" "2 ^ c"] mod_less_divisor[OF p, of "unat n + (2 ^ c - 1)"] by linarith
  then show "unat n \<le> unat (align_up_pow2 n (2 ^ c))" unfolding align_up_power[OF assms] by simp
  show "unat (align_up_pow2 n (2 ^ c)) < unat n + 2 ^ c"
    unfolding align_up_power[OF assms] using div_times_less_eq_dividend[of "unat n + (2 ^ c - 1)" "2 ^ c"] p by linarith
qed

section \<open>Byte order\<close>

text \<open>The hosts the code runs on are little endian: a 16- or 32-bit field is stored with its
  low byte first, and \<open>htons\<close>, \<open>htonl\<close> exchange the bytes.\<close>

definition bytes_le16 :: "u16 \<Rightarrow> u8 list" where
  "bytes_le16 x = [ucast x, ucast (drop_bit 8 x)]"

definition bytes_le32 :: "u32 \<Rightarrow> u8 list" where
  "bytes_le32 x = [ucast x, ucast (drop_bit 8 x), ucast (drop_bit 16 x), ucast (drop_bit 24 x)]"

definition htons :: "u16 \<Rightarrow> u16" where
  "htons x = (push_bit 8 x) OR (drop_bit 8 x)"

definition htonl :: "u32 \<Rightarrow> u32" where
  "htonl x = (push_bit 24 (x AND 0xff)) OR (push_bit 8 (x AND 0xff00))
             OR (drop_bit 8 (x AND 0xff0000)) OR (drop_bit 24 x)"

text \<open>The same fields in network order.\<close>

definition bytes_be16 :: "u16 \<Rightarrow> u8 list" where
  "bytes_be16 x = [ucast (drop_bit 8 x), ucast x]"

definition bytes_be32 :: "u32 \<Rightarrow> u8 list" where
  "bytes_be32 x = [ucast (drop_bit 24 x), ucast (drop_bit 16 x), ucast (drop_bit 8 x), ucast x]"

lemma htons_htons [simp]: "htons (htons x) = x"
  by (rule bit_word_eqI) (auto simp: htons_def bit_simps)

lemma length_bytes_le16 [simp]: "length (bytes_le16 x) = 2"
  by (simp add: bytes_le16_def)

lemma length_bytes_le32 [simp]: "length (bytes_le32 x) = 4"
  by (simp add: bytes_le32_def)

lemma bytes_htons: "bytes_le16 (htons x) = bytes_be16 x"
  by (auto simp: bytes_le16_def bytes_be16_def htons_def bit_simps intro!: bit_word_eqI)

lemma htonl_byte_swap:
  "htonl x = push_bit 24 (x AND mask 8) OR push_bit 8 (x AND push_bit 8 (mask 8))
             OR drop_bit 8 (x AND push_bit 16 (mask 8)) OR drop_bit 24 x"
  by (simp add: htonl_def mask_eq_exp_minus_1)

lemma htonl_htonl [simp]: "htonl (htonl x) = x"
proof (rule bit_word_eqI)
  fix n assume "n < LENGTH(32)"
  then consider "n < 8" | "8 \<le> n" "n < 16" | "16 \<le> n" "n < 24" | "24 \<le> n" "n < 32" by fastforce
  then show "bit (htonl (htonl x)) n = bit x n"
    unfolding htonl_byte_swap by cases (auto simp: bit_simps dest: bit_imp_le_length)
qed

lemma bytes_htonl: "bytes_le32 (htonl x) = bytes_be32 x"
  unfolding htonl_byte_swap by (auto simp: bytes_le32_def bytes_be32_def bit_simps intro!: bit_word_eqI)

lemma length_bytes_be16 [simp]: "length (bytes_be16 x) = 2"
  by (simp add: bytes_be16_def)

lemma length_bytes_be32 [simp]: "length (bytes_be32 x) = 4"
  by (simp add: bytes_be32_def)

section \<open>Byte-addressed memory\<close>

type_synonym mem = "nat \<Rightarrow> u8"

definition mem_write :: "mem \<Rightarrow> nat \<Rightarrow> u8 list \<Rightarrow> mem" where
  "mem_write m a bs = (\<lambda>x. if a \<le> x \<and> x < a + length bs then bs ! (x - a) else m x)"

definition mem_read :: "mem \<Rightarrow> nat \<Rightarrow> nat \<Rightarrow> u8 list" where
  "mem_read m a n = map (\<lambda>i. m (a + i)) [0..<n]"

lemma length_mem_read [simp]: "length (mem_read m a n) = n"
  by (simp add: mem_read_def)

lemma nth_mem_read [simp]: "i < n \<Longrightarrow> mem_read m a n ! i = m (a + i)"
  by (simp add: mem_read_def)

lemma mem_read_write_same [mem_simps]: "n = length bs \<Longrightarrow> mem_read (mem_write m a bs) a n = bs"
  by (simp add: list_eq_iff_nth_eq) (simp add: mem_write_def)

lemma mem_write_outside [mem_simps]:
  "x < a \<or> a + length bs \<le> x \<Longrightarrow> mem_write m a bs x = m x"
  by (auto simp: mem_write_def)

lemma mem_read_write_disjoint [mem_simps]:
  "b + n \<le> a \<or> a + length bs \<le> b \<Longrightarrow> mem_read (mem_write m a bs) b n = mem_read m b n"
  by (auto simp: list_eq_iff_nth_eq mem_write_def)

lemma mem_write_Nil [simp]: "mem_write m a [] = m"
  by (rule ext) (auto simp: mem_write_def)

lemma mem_write_append: "mem_write m a (xs @ ys) = mem_write (mem_write m a xs) (a + length xs) ys"
  by (rule ext) (auto simp: mem_write_def nth_append)

lemma mem_read_append: "mem_read m a (n + k) = mem_read m a n @ mem_read m (a + n) k"
  by (rule nth_equalityI) (auto simp: nth_append)

lemma mem_read_cong: "(\<And>x. a \<le> x \<Longrightarrow> x < a + n \<Longrightarrow> m x = m' x) \<Longrightarrow> mem_read m a n = mem_read m' a n"
  by (simp add: mem_read_def)

section \<open>Stepwise state\<close>

text \<open>The contract between a component that advances a state one item at a time and its clients: in a
  well-formed configuration the step never traps and the state after \<open>k\<close> items is known.\<close>

locale stepwise =
  fixes step :: "'c \<Rightarrow> 's \<Rightarrow> 's option"
    and state_at :: "'c \<Rightarrow> 's \<Rightarrow> nat \<Rightarrow> 's"
    and ok :: "'c \<Rightarrow> bool"
  assumes step_state: "ok c \<Longrightarrow> step c (state_at c s k) = Some (state_at c s (Suc k))"
begin

lemma iterate_state:
  "ok c \<Longrightarrow> ((\<lambda>x. Option.bind x (step c)) ^^ n) (Some (state_at c s k)) = Some (state_at c s (k + n))"
  by (induction n) (simp_all add: step_state)

lemma never_traps: "ok c \<Longrightarrow> ((\<lambda>x. Option.bind x (step c)) ^^ n) (Some (state_at c s k)) \<noteq> None"
  by (simp add: iterate_state)

end

end
