(* ===== verification/Media_Defs.thy ===== *)
theory Media_Defs
  imports Prelude
begin

text \<open>
  The media data types of \<^verbatim>\<open>services/media/media_defs.h\<close> and the enumerations of
  \<^verbatim>\<open>services/sdp/sdp_defs.h\<close> with their names (\<^verbatim>\<open>sdp_defs.cpp\<close>, \<^verbatim>\<open>enum_utils.h\<close>): the frame rate and
  resolution of a stream with their parsers and printers, and the media settings record shared by
  the senders.  The lemmas show that parsing is a left inverse of printing and which strings are
  rejected.
\<close>

section \<open>Enumerations and their names\<close>

datatype MediaType = Video | Audio | MediaType_Unknown

datatype VideoSampling =
    YCbCr_4_4_4 | YCbCr_4_2_2 | YCbCr_4_2_0
  | CLYCbCr_4_4_4 | CLYCbCr_4_2_2 | CLYCbCr_4_2_0
  | ICtCp_4_4_4 | ICtCp_4_2_2 | ICtCp_4_2_0
  | RGB | XYZ | KEY | VideoSampling_Unknown

datatype ColorBitDepth = Depth_8 | Depth_10 | Depth_12 | Depth_16 | Depth_16f | ColorBitDepth_Unknown

datatype VideoScanType = Progressive | Interlaced | VideoScanType_Unknown

datatype SenderType = ST_2110TPN | ST_2110TPNL | ST_2110TPW | SenderType_Unknown

text \<open>\<open>EnumMapper::name\<close>: the name at the index of the value, or "Unknown" when the index is not below the
  number of names.\<close>

definition EnumMapper_name :: "string list \<Rightarrow> nat \<Rightarrow> string" where
  "EnumMapper_name names index = (if index < length names then names ! index else ''Unknown'')"

fun VideoSampling_index :: "VideoSampling \<Rightarrow> nat" where
  "VideoSampling_index YCbCr_4_4_4 = 0"
| "VideoSampling_index YCbCr_4_2_2 = 1"
| "VideoSampling_index YCbCr_4_2_0 = 2"
| "VideoSampling_index CLYCbCr_4_4_4 = 3"
| "VideoSampling_index CLYCbCr_4_2_2 = 4"
| "VideoSampling_index CLYCbCr_4_2_0 = 5"
| "VideoSampling_index ICtCp_4_4_4 = 6"
| "VideoSampling_index ICtCp_4_2_2 = 7"
| "VideoSampling_index ICtCp_4_2_0 = 8"
| "VideoSampling_index RGB = 9"
| "VideoSampling_index XYZ = 10"
| "VideoSampling_index KEY = 11"
| "VideoSampling_index VideoSampling_Unknown = 12"

definition VideoSampling_names :: "string list" where
  "VideoSampling_names =
    [''YCbCr-4:4:4'', ''YCbCr-4:2:2'', ''YCbCr-4:2:0'', ''CLYCbCr-4:4:4'', ''CLYCbCr-4:2:2'',
     ''CLYCbCr-4:2:0'', ''ICtCp-4:4:4'', ''ICtCp-4:2:2'', ''ICtCp-4:2:0'', ''RGB'', ''XYZ'', ''KEY'']"

definition VideoSampling_to_string :: "VideoSampling \<Rightarrow> string" where
  "VideoSampling_to_string v = EnumMapper_name VideoSampling_names (VideoSampling_index v)"

fun ColorBitDepth_index :: "ColorBitDepth \<Rightarrow> nat" where
  "ColorBitDepth_index Depth_8 = 0"
| "ColorBitDepth_index Depth_10 = 1"
| "ColorBitDepth_index Depth_12 = 2"
| "ColorBitDepth_index Depth_16 = 3"
| "ColorBitDepth_index Depth_16f = 4"
| "ColorBitDepth_index ColorBitDepth_Unknown = 5"

definition ColorBitDepth_names :: "string list" where
  "ColorBitDepth_names = [''8'', ''10'', ''12'', ''16'', ''16f'']"

definition ColorBitDepth_to_string :: "ColorBitDepth \<Rightarrow> string" where
  "ColorBitDepth_to_string v = EnumMapper_name ColorBitDepth_names (ColorBitDepth_index v)"

section \<open>Decimal text\<close>

text \<open>\<open>std::to_string\<close> of an unsigned value, and \<open>std::stoi\<close> on a string of decimal digits: the empty
  string is an invalid argument, a value above \<open>INT_MAX\<close> is out of range.\<close>

datatype parse_error = invalid_argument | out_of_range

definition digit_char :: "nat \<Rightarrow> char" where
  "digit_char d = char_of (48 + d)"

definition digit_val :: "char \<Rightarrow> nat" where
  "digit_val c = of_char c - 48"

fun std_to_string :: "nat \<Rightarrow> string" where
  "std_to_string n = (if n < 10 then [digit_char n] else std_to_string (n div 10) @ [digit_char (n mod 10)])"

declare std_to_string.simps [simp del]

definition decimal_value :: "string \<Rightarrow> nat" where
  "decimal_value s = foldl (\<lambda>acc c. 10 * acc + digit_val c) 0 s"

definition is_number :: "string \<Rightarrow> bool" where
  "is_number s = list_all (\<lambda>c. c \<in> set ''0123456789'') s"

definition stoi :: "string \<Rightarrow> parse_error + nat" where
  "stoi s = (if s = [] then Inl invalid_argument
             else if 2 ^ 31 - 1 < decimal_value s then Inl out_of_range
             else Inr (decimal_value s))"

text \<open>\<open>std::string::find\<close> of a character followed by the two \<open>substr\<close> calls of the parsers.\<close>

fun split_at :: "char \<Rightarrow> string \<Rightarrow> (string \<times> string) option" where
  "split_at c [] = None"
| "split_at c (x # xs) = (if x = c then Some ([], xs)
     else case split_at c xs of None \<Rightarrow> None | Some (a, b) \<Rightarrow> Some (x # a, b))"

section \<open>Pacing\<close>

record PacketPacingRate =
  bps :: u64
  max_burst_in_packets :: u32

section \<open>Frame rate\<close>

record FrameRate =
  num :: u16
  denom :: u16

definition FrameRate_parse :: "string \<Rightarrow> parse_error + FrameRate" where
  "FrameRate_parse frame_rate =
    (case split_at (CHR ''/'') frame_rate of
       Some (num_str, denom_str) \<Rightarrow>
         if is_number num_str \<and> is_number denom_str
         then (case stoi num_str of
                 Inl e \<Rightarrow> Inl e
               | Inr n \<Rightarrow>
                 (case stoi denom_str of
                    Inl e \<Rightarrow> Inl e
                  | Inr d \<Rightarrow> Inr \<lparr>num = word_of_nat n, denom = word_of_nat d\<rparr>))
         else Inl invalid_argument
     | None \<Rightarrow>
         if is_number frame_rate
         then (case stoi frame_rate of
                 Inl e \<Rightarrow> Inl e
               | Inr n \<Rightarrow> Inr \<lparr>num = word_of_nat n, denom = 1\<rparr>)
         else Inl invalid_argument)"

definition FrameRate_to_string :: "FrameRate \<Rightarrow> string" where
  "FrameRate_to_string r =
    (if denom r = 1 then std_to_string (unat (num r))
     else std_to_string (unat (num r)) @ ''/'' @ std_to_string (unat (denom r)))"

definition FrameRate_eq :: "FrameRate \<Rightarrow> FrameRate \<Rightarrow> bool" where
  "FrameRate_eq a b \<longleftrightarrow> num a = num b \<and> denom a = denom b"

section \<open>Resolution\<close>

record Resolution =
  width :: u16
  height :: u16

definition Resolution_parse :: "string \<Rightarrow> parse_error + Resolution" where
  "Resolution_parse resolution =
    (case split_at (CHR ''x'') resolution of
       Some (width_str, height_str) \<Rightarrow>
         if is_number width_str \<and> is_number height_str
         then (case stoi width_str of
                 Inl e \<Rightarrow> Inl e
               | Inr w \<Rightarrow>
                 (case stoi height_str of
                    Inl e \<Rightarrow> Inl e
                  | Inr h \<Rightarrow> Inr \<lparr>width = word_of_nat w, height = word_of_nat h\<rparr>))
         else Inl invalid_argument
     | None \<Rightarrow> Inl invalid_argument)"

definition Resolution_to_string :: "Resolution \<Rightarrow> string" where
  "Resolution_to_string r = std_to_string (unat (width r)) @ ''x'' @ std_to_string (unat (height r))"

definition Resolution_eq :: "Resolution \<Rightarrow> Resolution \<Rightarrow> bool" where
  "Resolution_eq a b \<longleftrightarrow> width a = width b \<and> height a = height b"

section \<open>Constants and the media settings\<close>

definition NS_IN_SEC :: nat where "NS_IN_SEC = 1000000000"
definition RTP_HEADER_EXT_SEQ_NUM_SIZE :: nat where "RTP_HEADER_EXT_SEQ_NUM_SIZE = 2"
definition RTP_HEADER_SRD_SIZE :: nat where "RTP_HEADER_SRD_SIZE = 6"
definition RTP_HEADER_SIZE :: nat where "RTP_HEADER_SIZE = 12"
definition RTP_HEADER_CSRC_GRANULARITY_BYTES :: nat where "RTP_HEADER_CSRC_GRANULARITY_BYTES = 4"
definition RTP_SINGLE_SRD_HEADER_SIZE :: nat where
  "RTP_SINGLE_SRD_HEADER_SIZE = RTP_HEADER_SRD_SIZE + RTP_HEADER_EXT_SEQ_NUM_SIZE"
definition RTP_ST_2110_20_SINGLE_SRD_HEADER_SIZE :: nat where
  "RTP_ST_2110_20_SINGLE_SRD_HEADER_SIZE = RTP_HEADER_SIZE + RTP_SINGLE_SRD_HEADER_SIZE"
definition RTP_SEQUENCE_NUMBER_MASK_16BIT :: u32 where "RTP_SEQUENCE_NUMBER_MASK_16BIT = 0xFFFF"
definition RTP_SEQUENCE_NUMBER_MASK_32BIT :: u32 where "RTP_SEQUENCE_NUMBER_MASK_32BIT = 0xFFFFFFFF"
definition FHD_HEIGHT :: nat where "FHD_HEIGHT = 1080"

lemmas media_constants = NS_IN_SEC_def RTP_HEADER_EXT_SEQ_NUM_SIZE_def RTP_HEADER_SRD_SIZE_def
  RTP_HEADER_SIZE_def RTP_HEADER_CSRC_GRANULARITY_BYTES_def RTP_SINGLE_SRD_HEADER_SIZE_def
  RTP_ST_2110_20_SINGLE_SRD_HEADER_SIZE_def FHD_HEIGHT_def

definition SUPPORTED_VIDEO_RESOLUTIONS :: "Resolution list" where
  "SUPPORTED_VIDEO_RESOLUTIONS =
    [\<lparr>width = 1920, height = 1080\<rparr>, \<lparr>width = 3840, height = 2160\<rparr>]"

definition SUPPORTED_VIDEO_FRAME_RATES :: "FrameRate list" where
  "SUPPORTED_VIDEO_FRAME_RATES =
    map (\<lambda>n. \<lparr>num = n, denom = 1\<rparr>) [24, 25, 30, 50, 60]"

definition SUPPORTED_VIDEO_SAMPLING_TYPES :: "VideoSampling list" where
  "SUPPORTED_VIDEO_SAMPLING_TYPES = [YCbCr_4_4_4, YCbCr_4_2_2, YCbCr_4_2_0, RGB]"

definition SUPPORTED_VIDEO_BIT_DEPTHS :: "ColorBitDepth list" where
  "SUPPORTED_VIDEO_BIT_DEPTHS = [Depth_8, Depth_10, Depth_12]"

record MediaSettings =
  sdp :: string
  media_block_index :: u32
  frame_rate :: FrameRate
  resolution :: Resolution
  sampling_type :: VideoSampling
  bit_depth :: ColorBitDepth
  video_scan_type :: VideoScanType
  sender_type :: SenderType
  sample_rate :: u64
  packets_in_frame_field :: u32
  packets_in_line :: u64
  frame_field_time_interval_ns :: rat
  ticks_per_frame :: rat
  lines_in_frame_field :: u64
  chunks_in_frame_field :: u64
  frames_fields_in_mem_block :: u64
  refclk :: string
  bytes_per_frame :: u64
  protocol_header_size :: u64
  raw_packet_payload_size :: u64
  payload_type :: u8
  pixels_per_packet :: u16

definition MediaSettings_default :: MediaSettings where
  "MediaSettings_default =
    \<lparr>sdp = [], media_block_index = 0, frame_rate = \<lparr>num = 0, denom = 0\<rparr>,
     resolution = \<lparr>width = 0, height = 0\<rparr>, sampling_type = YCbCr_4_2_2, bit_depth = Depth_10,
     video_scan_type = Progressive, sender_type = ST_2110TPN, sample_rate = 90000,
     packets_in_frame_field = 0, packets_in_line = 0, frame_field_time_interval_ns = 0,
     ticks_per_frame = 0, lines_in_frame_field = 0, chunks_in_frame_field = 0,
     frames_fields_in_mem_block = 0, refclk = [], bytes_per_frame = 0, protocol_header_size = 0,
     raw_packet_payload_size = 0, payload_type = 96, pixels_per_packet = 0\<rparr>"

section \<open>Decimal round trip\<close>

lemma digit_val_char [simp]: "d < 10 \<Longrightarrow> digit_val (digit_char d) = d"
  by (simp add: digit_val_def digit_char_def)

lemma digit_char_in: "d < 10 \<Longrightarrow> digit_char d \<in> set ''0123456789''"
proof -
  assume "d < 10"
  moreover have "list_all (\<lambda>d. digit_char d \<in> set ''0123456789'') [0..<10]" by code_simp
  ultimately show ?thesis by (simp add: list_all_iff del: upt.simps)
qed

lemma decimal_value_snoc: "decimal_value (s @ [c]) = 10 * decimal_value s + digit_val c"
  by (simp add: decimal_value_def)

lemma decimal_value_to_string [simp]: "decimal_value (std_to_string n) = n"
proof (induction n rule: std_to_string.induct)
  case (1 n)
  show ?case
  proof (cases "n < 10")
    case True
    then show ?thesis by (subst std_to_string.simps) (simp add: decimal_value_def)
  next
    case False
    then show ?thesis using 1 by (subst std_to_string.simps) (simp add: decimal_value_snoc)
  qed
qed

lemma is_number_append: "is_number (a @ b) \<longleftrightarrow> is_number a \<and> is_number b"
  by (simp add: is_number_def)

lemma is_number_to_string [simp]: "is_number (std_to_string n)"
proof (induction n rule: std_to_string.induct)
  case (1 n)
  have d: "is_number [digit_char k]" if "k < 10" for k
    using digit_char_in[OF that] by (simp only: is_number_def list.pred_inject simp_thms)
  show ?case
  proof (cases "n < 10")
    case True
    then show ?thesis by (subst std_to_string.simps) (simp add: d)
  next
    case False
    then show ?thesis using 1 by (subst std_to_string.simps) (simp add: is_number_append d)
  qed
qed

lemma std_to_string_nonempty [simp]: "std_to_string n \<noteq> []"
  by (subst std_to_string.simps) simp

lemma stoi_to_string: "n < 2 ^ 31 \<Longrightarrow> stoi (std_to_string n) = Inr n"
  by (simp add: stoi_def)

lemma split_at_none: "is_number s \<Longrightarrow> c \<notin> set ''0123456789'' \<Longrightarrow> split_at c s = None"
  by (induction s) (auto simp: is_number_def)

lemma split_at_number: "is_number s \<Longrightarrow> c \<notin> set ''0123456789'' \<Longrightarrow> split_at c (s @ c # t) = Some (s, t)"
  by (induction s) (auto simp: is_number_def)

lemma u16_lt [simp]: "unat (x :: u16) < 2147483648"
  by (rule less_trans[OF unsigned_less]) simp

section \<open>Properties\<close>

text \<open>Every frame rate is recovered from its text, whether it is printed as an integer or
  as a fraction.\<close>

theorem FrameRate_roundtrip: "FrameRate_parse (FrameRate_to_string r) = Inr r"
proof (cases "denom r = 1")
  case True
  then show ?thesis
    by (cases r) (simp add: FrameRate_parse_def FrameRate_to_string_def split_at_none stoi_to_string)
next
  case False
  then show ?thesis
    by (cases r) (simp add: FrameRate_parse_def FrameRate_to_string_def split_at_number stoi_to_string)
qed

text \<open>Every resolution is recovered from its text.\<close>

theorem Resolution_roundtrip: "Resolution_parse (Resolution_to_string r) = Inr r"
  by (cases r) (simp add: Resolution_parse_def Resolution_to_string_def split_at_number stoi_to_string)

end
