(* ===== verification/Doubles.thy ===== *)
theory Doubles
  imports Prelude "HOL-Library.Log_Nat"
begin

text \<open>
  The floating point arithmetic of the C++ code, as the language defines it on the hosts the code
  runs on: a \<^verbatim>\<open>double\<close> is a rational number, and every arithmetic operation returns the exact result
  rounded to the nearest multiple of the unit in the last place of a 53-bit significand, ties going
  to the even significand (24 bits for \<^verbatim>\<open>float\<close>).  The exponent range is not bounded here: the values
  of the program (nanosecond clocks, rates, sizes) are far from the overflow and subnormal limits.
\<close>

section \<open>Rounding to a significand of p bits\<close>

definition pow2_rat :: "int \<Rightarrow> rat" where
  "pow2_rat k = (if 0 \<le> k then 2 ^ nat k else 1 / 2 ^ nat (- k))"

definition ilog2_rat :: "rat \<Rightarrow> int" where
  "ilog2_rat x = (let (n, d) = quotient_of x; e = bitlen n - bitlen d
                  in if pow2_rat e \<le> x then e else e - 1)"

definition round_half_even :: "rat \<Rightarrow> int" where
  "round_half_even x = (let f = floor x; r = x - of_int f
     in if r < 1 / 2 then f else if 1 / 2 < r then f + 1 else if even f then f else f + 1)"

definition round_pos :: "nat \<Rightarrow> rat \<Rightarrow> rat" where
  "round_pos p x = (let u = pow2_rat (ilog2_rat x - int p + 1)
                    in of_int (round_half_even (x / u)) * u)"

definition round_prec :: "nat \<Rightarrow> rat \<Rightarrow> rat" where
  "round_prec p x = (if x = 0 then 0 else if 0 < x then round_pos p x else - round_pos p (- x))"

abbreviation dbl :: "rat \<Rightarrow> rat" where "dbl \<equiv> round_prec 53"
abbreviation flt :: "rat \<Rightarrow> rat" where "flt \<equiv> round_prec 24"

definition trunc_rat :: "rat \<Rightarrow> int" where
  "trunc_rat x = (if 0 \<le> x then floor x else - floor (- x))"

definition fmod_rat :: "rat \<Rightarrow> rat \<Rightarrow> rat" where
  "fmod_rat x y = x - of_int (trunc_rat (x / y)) * y"

section \<open>Powers of two and the binary logarithm\<close>

lemma pow2_rat_pos [simp]: "0 < pow2_rat k"
  by (simp add: pow2_rat_def)

lemma pow2_rat_nonzero [simp]: "pow2_rat k \<noteq> 0"
  using pow2_rat_pos[of k] by linarith

lemma pow2_rat_powi: "pow2_rat k = 2 powi k"
  by (simp add: pow2_rat_def power_int_def field_simps)

lemma pow2_rat_add: "pow2_rat (a + b) = pow2_rat a * pow2_rat b"
  by (simp add: pow2_rat_powi power_int_add)

lemma pow2_rat_mono: "a \<le> b \<Longrightarrow> pow2_rat a \<le> pow2_rat b"
  by (simp add: pow2_rat_powi power_int_increasing)

lemma pow2_rat_less_cancel: "pow2_rat a < pow2_rat b \<Longrightarrow> a < b"
  using pow2_rat_mono[of b a] by force

lemma pow2_rat_nat: "pow2_rat (int n) = 2 ^ n"
  by (simp add: pow2_rat_def)

lemma pow2_rat_diff_int: "a \<le> b \<Longrightarrow> pow2_rat b = of_int (2 ^ nat (b - a)) * pow2_rat a"
  using pow2_rat_add[of "b - a" a] by (simp add: pow2_rat_def[of "b - a"])

lemma bitlen_rat_bounds:
  assumes "0 < (n::int)"
  shows "pow2_rat (bitlen n - 1) \<le> of_int n" and "of_int n < pow2_rat (bitlen n)"
proof -
  have b: "1 \<le> bitlen n" using assms by (simp add: bitlen_def floorlog_def)
  have *: "2 ^ nat (bitlen n - 1) \<le> n" "n < 2 ^ nat (bitlen n)"
    using bitlen_bounds[OF assms] by auto
  have "(of_int (2 ^ nat (bitlen n - 1)) :: rat) \<le> of_int n"
    using *(1) by (simp only: of_int_le_iff)
  then show "pow2_rat (bitlen n - 1) \<le> of_int n" using b by (simp add: pow2_rat_def)
  have "(of_int n :: rat) < of_int (2 ^ nat (bitlen n))"
    using *(2) by (simp only: of_int_less_iff)
  then show "of_int n < pow2_rat (bitlen n)" using b by (simp add: pow2_rat_def)
qed

lemma ilog2_rat_bounds:
  assumes "0 < x"
  shows "pow2_rat (ilog2_rat x) \<le> x" and "x < pow2_rat (ilog2_rat x + 1)"
proof -
  obtain n d where q: "quotient_of x = (n, d)" by fastforce
  have d: "0 < d" using quotient_of_denom_pos[OF q] .
  have x: "x = of_int n / of_int d" using quotient_of_div[OF q] .
  have n: "0 < n" using assms d by (simp add: x zero_less_divide_iff)
  define e where "e = bitlen n - bitlen d"
  have up: "x < pow2_rat (e + 1)"
  proof -
    have "of_int n < pow2_rat (e + 1) * pow2_rat (bitlen d - 1)"
      using bitlen_rat_bounds(2)[OF n] by (simp add: e_def flip: pow2_rat_add)
    also have "\<dots> \<le> pow2_rat (e + 1) * of_int d"
      using bitlen_rat_bounds(1)[OF d] by (simp add: mult_left_mono)
    finally show ?thesis using d by (simp add: x field_simps)
  qed
  have lo: "pow2_rat (e - 1) \<le> x"
  proof -
    have "pow2_rat (e - 1) * of_int d \<le> pow2_rat (e - 1) * pow2_rat (bitlen d)"
      using bitlen_rat_bounds(2)[OF d] by (simp add: mult_left_mono less_imp_le)
    also have "\<dots> \<le> of_int n"
      using bitlen_rat_bounds(1)[OF n] by (simp add: e_def flip: pow2_rat_add)
    finally show ?thesis using d by (simp add: x field_simps)
  qed
  have il: "ilog2_rat x = (if pow2_rat e \<le> x then e else e - 1)"
    by (simp add: ilog2_rat_def q e_def)
  show "pow2_rat (ilog2_rat x) \<le> x" using lo by (simp add: il)
  show "x < pow2_rat (ilog2_rat x + 1)" using up by (simp add: il)
qed

section \<open>Rounding\<close>

lemma round_half_even_of_int [simp]: "round_half_even (of_int n) = n"
  by (simp add: round_half_even_def)

lemma round_half_even_le: "x \<le> of_int c \<Longrightarrow> round_half_even x \<le> c"
proof -
  assume a: "x \<le> of_int c"
  show ?thesis
  proof (cases "x = of_int c")
    case False
    then have "x < of_int c" using a by simp
    then have "floor x < c" by (simp add: floor_less_iff)
    then show ?thesis by (simp add: round_half_even_def Let_def)
  qed simp
qed

lemma round_half_even_ge: "of_int c \<le> x \<Longrightarrow> c \<le> round_half_even x"
proof -
  assume "of_int c \<le> x"
  then have "c \<le> floor x" by (simp add: le_floor_iff)
  then show ?thesis by (simp add: round_half_even_def Let_def)
qed

text \<open>A value is representable with p bits when it is an integer below \<open>2 ^ p\<close> scaled by a power of
  two.\<close>

definition representable :: "nat \<Rightarrow> rat \<Rightarrow> bool" where
  "representable p x \<longleftrightarrow> (\<exists>m k. x = of_int m * pow2_rat k \<and> \<bar>m\<bar> < 2 ^ p)"

lemma representable_int: "\<bar>m\<bar> < 2 ^ p \<Longrightarrow> representable p (of_int m)"
  unfolding representable_def by (rule exI[of _ m], rule exI[of _ 0]) (simp add: pow2_rat_def)

lemma representable_unit:
  assumes "representable p c" and "0 < c" and "ilog2_rat x \<le> ilog2_rat c"
  shows "\<exists>i::int. c / pow2_rat (ilog2_rat x - int p + 1) = of_int i"
proof -
  obtain m k where c: "c = of_int m * pow2_rat k" and m: "\<bar>m\<bar> < 2 ^ p"
    using assms(1) by (auto simp: representable_def)
  have "0 < (of_int m :: rat)"
    using assms(2) unfolding c by (rule zero_less_mult_pos2) (rule pow2_rat_pos)
  then have "0 < m" by simp
  have "pow2_rat (ilog2_rat c) \<le> c" using ilog2_rat_bounds(1)[OF assms(2)] .
  also have "c < pow2_rat (int p + k)"
  proof -
    have "(of_int m :: rat) < of_int (2 ^ p)" using m \<open>0 < m\<close> by (simp only: of_int_less_iff)
    then show ?thesis by (simp add: c pow2_rat_add pow2_rat_nat)
  qed
  finally have "ilog2_rat c < int p + k" by (rule pow2_rat_less_cancel)
  then have le: "ilog2_rat x - int p + 1 \<le> k" using assms(3) by simp
  show ?thesis
    by (rule exI[of _ "m * 2 ^ nat (k - (ilog2_rat x - int p + 1))"])
       (simp add: c pow2_rat_diff_int[OF le])
qed

lemma ilog2_rat_mono: "0 < x \<Longrightarrow> x \<le> y \<Longrightarrow> ilog2_rat x \<le> ilog2_rat y"
proof -
  assume a: "0 < x" "x \<le> y"
  have "pow2_rat (ilog2_rat x) \<le> x" using ilog2_rat_bounds(1)[OF a(1)] .
  also have "\<dots> < pow2_rat (ilog2_rat y + 1)" using a ilog2_rat_bounds(2)[of y] by simp
  finally show ?thesis using pow2_rat_less_cancel by force
qed

lemma round_pos_le:
  assumes "0 < x" "x \<le> c" "representable p c"
  shows "round_pos p x \<le> c"
proof -
  let ?u = "pow2_rat (ilog2_rat x - int p + 1)"
  have "0 < c" using assms by simp
  then obtain i where i: "c / ?u = of_int i"
    using representable_unit[OF assms(3) _ ilog2_rat_mono[OF assms(1,2)]] by blast
  have "x / ?u \<le> of_int i" using assms(2) by (simp flip: i add: divide_right_mono less_imp_le)
  then have "round_half_even (x / ?u) \<le> i" by (rule round_half_even_le)
  then have "of_int (round_half_even (x / ?u)) * ?u \<le> of_int i * ?u"
    by (simp add: mult_right_mono less_imp_le)
  then show ?thesis by (simp add: round_pos_def Let_def flip: i)
qed

lemma round_pos_nonneg: "0 < x \<Longrightarrow> 0 \<le> round_pos p x"
  using round_half_even_ge[of 0 "x / pow2_rat (ilog2_rat x - int p + 1)"]
  by (simp add: round_pos_def Let_def less_imp_le)

lemma round_pos_exact:
  assumes "0 < x" and "representable p x"
  shows "round_pos p x = x"
proof -
  let ?u = "pow2_rat (ilog2_rat x - int p + 1)"
  obtain i where i: "x / ?u = of_int i"
    using representable_unit[OF assms(2,1)] by blast
  then have "x = of_int i * ?u" by (simp add: field_simps)
  then show ?thesis by (simp add: round_pos_def Let_def i)
qed

lemma representable_minus: "representable p x \<Longrightarrow> representable p (- x)"
  unfolding representable_def by (metis abs_minus_cancel minus_mult_left of_int_minus)

text \<open>Representable values are computed exactly, and rounding never crosses one.\<close>

lemma round_prec_exact: "representable p x \<Longrightarrow> round_prec p x = x"
  using round_pos_exact[of x p] round_pos_exact[of "- x" p] representable_minus[of p x]
  by (auto simp: round_prec_def)

lemma round_prec_int: "\<bar>m\<bar> < 2 ^ p \<Longrightarrow> round_prec p (of_int m) = of_int m"
  by (rule round_prec_exact) (rule representable_int)

lemma round_prec_nat: "n < 2 ^ p \<Longrightarrow> round_prec p (of_nat n) = of_nat n"
proof -
  assume "n < 2 ^ p"
  then have "\<bar>int n\<bar> < 2 ^ p" by (simp flip: of_nat_less_iff)
  then show ?thesis using round_prec_int[of "int n" p] by simp
qed

lemma round_prec_nonneg: "0 \<le> x \<Longrightarrow> 0 \<le> round_prec p x"
  using round_pos_nonneg[of x p] by (simp add: round_prec_def)

lemma round_prec_le:
  "0 \<le> x \<Longrightarrow> x \<le> c \<Longrightarrow> representable p c \<Longrightarrow> round_prec p x \<le> c"
  using round_pos_le[of x c p] by (auto simp: round_prec_def)

lemma round_prec_nat_bound:
  "0 \<le> x \<Longrightarrow> x \<le> of_nat n \<Longrightarrow> n < 2 ^ p \<Longrightarrow> round_prec p x \<le> of_nat n"
  by (rule round_prec_le) (use representable_int[of "int n" p] in \<open>simp_all flip: of_nat_less_iff\<close>)

lemma dyadic_representable:
  assumes "k < (2::nat) ^ p"
  shows "representable p (of_nat k / 2 ^ j)"
  unfolding representable_def
proof (intro exI conjI)
  show "(of_nat k :: rat) / 2 ^ j = of_int (int k) * pow2_rat (- int j)"
    by (simp add: pow2_rat_powi power_int_minus divide_inverse)
  show "\<bar>int k\<bar> < 2 ^ p" using assms by (simp flip: of_nat_less_iff)
qed

lemma round_pos_ge:
  assumes "0 < c" "c \<le> x" "representable p c" "0 < p"
  shows "c \<le> round_pos p x"
proof -
  let ?u = "pow2_rat (ilog2_rat x - int p + 1)"
  have le: "ilog2_rat c \<le> ilog2_rat x" using assms(1,2) by (rule ilog2_rat_mono)
  have x: "0 < x" using assms by simp
  obtain d i where d: "c \<le> d" "d \<le> x" "d / ?u = of_int i"
  proof (cases "ilog2_rat x \<le> ilog2_rat c")
    case True
    then show ?thesis using that[of c] representable_unit[OF assms(3,1)] assms(2) by blast
  next
    case False
    have "c \<le> pow2_rat (ilog2_rat c + 1)" using ilog2_rat_bounds(2)[OF assms(1)] by simp
    also have "\<dots> \<le> pow2_rat (ilog2_rat x)" using False by (intro pow2_rat_mono) simp
    finally have "c \<le> pow2_rat (ilog2_rat x)" .
    moreover have "pow2_rat (ilog2_rat x) / ?u = of_int (2 ^ nat (int p - 1))"
      using pow2_rat_diff_int[of "ilog2_rat x - int p + 1" "ilog2_rat x"] assms(4) by simp
    ultimately show ?thesis using that ilog2_rat_bounds(1)[OF x] by blast
  qed
  have "of_int i \<le> x / ?u" using d(2) by (simp flip: d(3) add: divide_right_mono less_imp_le)
  then have "i \<le> round_half_even (x / ?u)" by (rule round_half_even_ge)
  then have "of_int i * ?u \<le> of_int (round_half_even (x / ?u)) * ?u"
    by (simp add: mult_right_mono less_imp_le)
  then show ?thesis using d(1) by (simp add: round_pos_def Let_def flip: d(3))
qed

lemma round_prec_ge:
  "0 < c \<Longrightarrow> c \<le> x \<Longrightarrow> representable p c \<Longrightarrow> 0 < p \<Longrightarrow> c \<le> round_prec p x"
  using round_pos_ge[of c x p] by (auto simp: round_prec_def)

lemma power_above: "0 < c \<Longrightarrow> \<exists>j. c \<le> 2 ^ j \<and> (2::nat) ^ j < 2 * c"
proof (induction c rule: nat_induct_non_zero)
  case 1
  show ?case by (rule exI[of _ 0]) simp
next
  case (Suc n)
  then obtain j where "n \<le> 2 ^ j" "(2::nat) ^ j < 2 * n" by blast
  then show ?case
    by (cases "n = 2 ^ j") (rule exI[of _ "Suc j"], simp, rule exI[of _ j], simp)
qed

text \<open>The ceiling of a rounded quotient is the ceiling of the quotient, when both operands are exact
  and the dividend leaves 20 bits to spare.\<close>

lemma ceiling_dbl_div:
  assumes p: "p < 2 ^ 32" and c: "0 < c"
  shows "ceiling (dbl (of_nat p / of_nat c)) = int ((p + c - 1) div c)"
proof (cases "p = 0")
  case True
  then show ?thesis using c by (simp add: round_prec_def)
next
  case False
  define n where "n = (p + c - 1) div c - 1"
  have n1: "(p + c - 1) div c = Suc n"
    using c False by (simp add: n_def div_greater_zero_iff)
  have lo: "n * c < p"
  proof -
    have "Suc n * c \<le> p + c - 1" unfolding n1[symmetric] by simp
    then show ?thesis using c by simp
  qed
  have hi: "p \<le> Suc n * c"
  proof -
    have "p + c - 1 < Suc (Suc n) * c" unfolding n1[symmetric] using c
      by (metis dividend_less_div_times div_mult_mod_eq mult_Suc add.commute)
    then show ?thesis using c by simp
  qed
  have up: "dbl (of_nat p / of_nat c) \<le> of_nat (Suc n)"
  proof (rule round_prec_nat_bound)
    have "(of_nat p :: rat) \<le> of_nat (Suc n * c)" using hi by (simp only: of_nat_le_iff)
    then have "(of_nat p :: rat) \<le> of_nat (Suc n) * of_nat c" by (simp only: of_nat_mult)
    then show "(of_nat p :: rat) / of_nat c \<le> of_nat (Suc n)"
      using c by (simp add: pos_divide_le_eq)
    have "n \<le> n * c" using c by simp
    then have "n < 2 ^ 32" using lo p by linarith
    then show "Suc n < 2 ^ 53" by simp
  qed simp
  obtain j where j: "c \<le> 2 ^ j" "(2::nat) ^ j < 2 * c" using power_above[OF c] by blast
  define r :: rat where "r = of_nat (n * 2 ^ j + 1) / 2 ^ j"
  have "n * 2 ^ j + 1 < 2 ^ 53"
  proof -
    have "n * 2 ^ j \<le> n * (2 * c)" using j by (intro mult_left_mono) auto
    then have "n * 2 ^ j \<le> 2 * (n * c)" by (simp only: mult_ac)
    moreover have "n * c < 4294967296" using lo p by simp
    ultimately have "n * 2 ^ j < 8589934592" by linarith
    then show ?thesis by simp
  qed
  then have rep: "representable 53 r" unfolding r_def by (rule dyadic_representable)
  have "r \<le> of_nat p / of_nat c"
  proof -
    have "(n * 2 ^ j + 1) * c \<le> p * 2 ^ j"
    proof -
      have "(n * 2 ^ j + 1) * c = n * c * 2 ^ j + c" by (simp add: algebra_simps)
      also have "\<dots> \<le> n * c * 2 ^ j + 2 ^ j" using j by simp
      also have "\<dots> = Suc (n * c) * 2 ^ j" by simp
      also have "\<dots> \<le> p * 2 ^ j" using lo by (intro mult_right_mono) auto
      finally show ?thesis .
    qed
    then have "(of_nat ((n * 2 ^ j + 1) * c) :: rat) \<le> of_nat (p * 2 ^ j)" by (simp only: of_nat_le_iff)
    then show ?thesis using c by (simp add: r_def field_simps)
  qed
  moreover have "0 < r" unfolding r_def by (intro divide_pos_pos) (simp_all add: add_pos_nonneg)
  ultimately have "r \<le> dbl (of_nat p / of_nat c)" using rep by (intro round_prec_ge) simp_all
  moreover have "of_nat n < r" by (simp add: r_def field_simps)
  ultimately have gt: "of_nat n < dbl (of_nat p / of_nat c)" by simp
  have "ceiling (dbl (of_nat p / of_nat c)) = int (Suc n)"
    using up gt by (intro ceiling_unique) simp_all
  then show ?thesis by (simp only: n1)
qed
section \<open>The remainder\<close>

lemma fmod_rat_bounds: "0 \<le> x \<Longrightarrow> 0 < y \<Longrightarrow> 0 \<le> fmod_rat x y \<and> fmod_rat x y < y"
proof -
  assume a: "0 \<le> x" "0 < y"
  have f: "trunc_rat (x / y) = floor (x / y)" using a by (simp add: trunc_rat_def)
  have "of_int (floor (x / y)) \<le> x / y" and "x / y < of_int (floor (x / y)) + 1"
    by linarith+
  then have "of_int (floor (x / y)) * y \<le> x" and "x < (of_int (floor (x / y)) + 1) * y"
    using a by (simp_all only: pos_le_divide_eq pos_divide_less_eq)
  then show ?thesis by (simp add: fmod_rat_def f algebra_simps)
qed

section \<open>Conversions\<close>

text \<open>\<open>static_cast\<close> from a non-negative floating point value to an unsigned type of \<open>w\<close> bits:
  truncation, undefined when the truncated value does not fit.\<close>

definition to_unsigned :: "nat \<Rightarrow> rat \<Rightarrow> nat option" where
  "to_unsigned w x = (if 0 \<le> x \<and> x < 2 ^ w then Some (nat (floor x)) else None)"

lemma to_unsigned_div:
  "n div d < 2 ^ w \<Longrightarrow> 0 < d \<Longrightarrow> to_unsigned w (of_nat n / of_nat d) = Some (n div d)"
proof -
  assume a: "n div d < 2 ^ w" "0 < d"
  have "floor ((of_nat n :: rat) / of_nat d) = int (n div d)"
    by (simp add: floor_divide_of_nat_eq)
  moreover have "(of_nat n :: rat) / of_nat d < 2 ^ w"
  proof -
    have "n < 2 ^ w * d" using a by (simp add: div_less_iff_less_mult)
    then have "(of_nat n :: rat) < of_nat (2 ^ w * d)" by (simp only: of_nat_less_iff)
    then show ?thesis using a by (simp add: field_simps)
  qed
  ultimately show ?thesis using a by (simp add: to_unsigned_def)
qed

end
