(* ===== verification/Rtp_Writer.thy ===== *)
theory Rtp_Writer
  imports Media_Defs Doubles
begin

text \<open>
  The RTP packet writers of \<^verbatim>\<open>services/buffer_wr\<close> (\<^verbatim>\<open>rtp_media_buffer_writer.cpp\<close>,
  \<^verbatim>\<open>rtp_video_buffer_writer.cpp\<close>): the RTP and SMPTE ST 2110-20 headers as the bytes their bit-field
  structures lay out, the per-frame state of a stream and its update after every packet, and the
  loop of \<open>write_buffer\<close> that fills a buffer of strides with headers and frame data, in one block or
  with headers and payloads split.  Buffers live in byte-addressed memory.  The lemmas give the
  state after any number of packets in closed form, and show that \<open>write_buffer\<close> places exactly the
  headers of consecutive packets and the consecutive slices of the frame, and touches nothing else.
\<close>

section \<open>Stream state and headers\<close>

record RTPStreamSendStats =
  packet_counter :: u32
  rtp_sequence :: u32
  rtp_timestamp :: u32
  rtp_interlace_field_indicator :: u8
  line_number :: u16
  srd_offset :: u16

definition DEFAULT_SSRC :: u32 where "DEFAULT_SSRC = 0x0eb51dbd"

text \<open>The bit-field structures, and the bytes they occupy: a bit field is allocated from the low
  bits of its byte upwards.\<close>

record RTPHeader =
  cc :: "4 word"
  extension :: "1 word"
  padding :: "1 word"
  version :: "2 word"
  hdr_payload_type :: "7 word"
  marker :: "1 word"
  sequence_number :: u16
  timestamp :: u32
  ssrc :: u32

definition RTPHeader_bytes :: "RTPHeader \<Rightarrow> u8 list" where
  "RTPHeader_bytes h =
    [ucast (cc h) OR push_bit 4 (ucast (extension h)) OR push_bit 5 (ucast (padding h))
       OR push_bit 6 (ucast (version h)),
     ucast (hdr_payload_type h) OR push_bit 7 (ucast (marker h))]
    @ bytes_le16 (sequence_number h) @ bytes_le32 (timestamp h) @ bytes_le32 (ssrc h)"

record SRDHeader =
  srd_length :: u16
  srd_row_number_8_to_14_7bit :: "7 word"
  srd_f :: "1 word"
  srd_row_number_0_to_7_8bit :: u8
  srd_offset_8_to_14_7bit :: "7 word"
  srd_c :: "1 word"
  srd_offset_0_to_7_8bit :: u8

definition SRDHeader_bytes :: "SRDHeader \<Rightarrow> u8 list" where
  "SRDHeader_bytes h = bytes_le16 (srd_length h) @
    [ucast (srd_row_number_8_to_14_7bit h) OR push_bit 7 (ucast (srd_f h)), srd_row_number_0_to_7_8bit h,
     ucast (srd_offset_8_to_14_7bit h) OR push_bit 7 (ucast (srd_c h)), srd_offset_0_to_7_8bit h]"

definition set_srd_row_number :: "u16 \<Rightarrow> SRDHeader \<Rightarrow> SRDHeader" where
  "set_srd_row_number n h = h\<lparr>srd_row_number_0_to_7_8bit := ucast n,
                              srd_row_number_8_to_14_7bit := ucast (ucast (drop_bit 8 n) :: u8)\<rparr>"

definition set_srd_offset :: "u16 \<Rightarrow> SRDHeader \<Rightarrow> SRDHeader" where
  "set_srd_offset n h = h\<lparr>srd_offset_0_to_7_8bit := ucast n,
                          srd_offset_8_to_14_7bit := ucast (ucast (drop_bit 8 n) :: u8)\<rparr>"

section \<open>The writers\<close>

datatype WriterClass = RTPVideoMockBufferWriter | RTPVideoBufferWriter

record Writer =
  writer_class :: WriterClass
  m_media_settings :: MediaSettings
  m_app_header_stride_size :: u64
  m_data_stride_size :: u64
  m_packet_payload_size :: u16
  m_ssrc :: u32
  m_send_data :: RTPStreamSendStats
  m_payload_mem_utils :: bool
  m_data_left_in_frame :: u64
  m_current_frame :: "u8 list option"

definition RTPMediaBufferWriter ::
  "WriterClass \<Rightarrow> MediaSettings \<Rightarrow> u64 \<Rightarrow> u64 \<Rightarrow> u16 \<Rightarrow> bool \<Rightarrow> Writer" where
  "RTPMediaBufferWriter cls settings app_header_stride data_stride payload_size has_mem_utils =
    \<lparr>writer_class = cls, m_media_settings = settings,
     m_app_header_stride_size = app_header_stride, m_data_stride_size = data_stride,
     m_packet_payload_size = payload_size, m_ssrc = DEFAULT_SSRC,
     m_send_data = \<lparr>packet_counter = 0, rtp_sequence = 0, rtp_timestamp = 0,
                    rtp_interlace_field_indicator = 0, line_number = 0, srd_offset = 0\<rparr>,
     m_payload_mem_utils = has_mem_utils, m_data_left_in_frame = 0, m_current_frame = None\<rparr>"

definition s_rtp_media_buffer_writer_factory :: "MediaType \<times> bool \<rightharpoonup> WriterClass" where
  "s_rtp_media_buffer_writer_factory =
    [(Video, False) \<mapsto> RTPVideoMockBufferWriter, (Video, True) \<mapsto> RTPVideoBufferWriter]"

definition get_rtp_media_buffer_writer ::
  "MediaType \<Rightarrow> bool \<Rightarrow> MediaSettings \<Rightarrow> u64 \<Rightarrow> u64 \<Rightarrow> u16 \<Rightarrow> bool \<Rightarrow> Writer option" where
  "get_rtp_media_buffer_writer type contains_payload settings app_header_stride data_stride payload_size has_mem_utils =
    (case s_rtp_media_buffer_writer_factory (type, contains_payload) of
       Some cls \<Rightarrow> Some (RTPMediaBufferWriter cls settings app_header_stride data_stride payload_size has_mem_utils)
     | None \<Rightarrow> None)"

section \<open>The in-frame state\<close>

definition reset_in_frame_state :: "RTPStreamSendStats \<Rightarrow> RTPStreamSendStats" where
  "reset_in_frame_state d = d\<lparr>packet_counter := 0, line_number := 0, srd_offset := 0,
                              rtp_interlace_field_indicator := 0\<rparr>"

text \<open>\<open>None\<close> is a division by zero, or a tick count outside 32 bits.\<close>

definition update_in_frame_state :: "MediaSettings \<Rightarrow> RTPStreamSendStats \<Rightarrow> RTPStreamSendStats option" where
  "update_in_frame_state ms d0 =
    (if width (resolution ms) = 0 \<or> packets_in_line ms = 0 then None
     else
       let d1 = d0\<lparr>srd_offset := word_of_nat ((unat (srd_offset d0) + unat (pixels_per_packet ms))
                                               mod unat (width (resolution ms)))\<rparr>;
           line_done = (ucast (packet_counter d1 + 1) mod packets_in_line ms = 0)
       in if line_done \<and> lines_in_frame_field ms = 0 then None
          else
            let d2 = (if line_done
                      then d1\<lparr>line_number := word_of_nat ((unat (line_number d1) + 1)
                                                           mod unat (lines_in_frame_field ms))\<rparr>
                      else d1);
                d3 = d2\<lparr>packet_counter := packet_counter d2 + 1\<rparr>
            in if packet_counter d3 = packets_in_frame_field ms
               then (case to_unsigned 32 (ticks_per_frame ms) of
                       None \<Rightarrow> None
                     | Some ticks \<Rightarrow>
                       let d4 = d3\<lparr>rtp_timestamp := rtp_timestamp d3 + word_of_nat ticks, packet_counter := 0\<rparr>;
                           d5 = (if video_scan_type ms = Interlaced
                                 then d4\<lparr>rtp_interlace_field_indicator :=
                                          (if rtp_interlace_field_indicator d4 = 0 then 1 else 0)\<rparr>
                                 else d4)
                       in Some (d5\<lparr>rtp_sequence := rtp_sequence d5 + 1\<rparr>))
               else Some (d3\<lparr>rtp_sequence := rtp_sequence d3 + 1\<rparr>))"

section \<open>Building the headers\<close>

definition build_rtp_header_common :: "Writer \<Rightarrow> nat \<Rightarrow> mem \<Rightarrow> nat \<times> mem" where
  "build_rtp_header_common w buffer m =
    (let d = m_send_data w;
         h = \<lparr>cc = 0, extension = 0, padding = 0, version = 2,
              hdr_payload_type = ucast (payload_type (m_media_settings w)),
              marker = (if packet_counter d = packets_in_frame_field (m_media_settings w) - 1 then 1 else 0),
              sequence_number = htons (ucast (rtp_sequence d)),
              timestamp = htonl (rtp_timestamp d),
              ssrc = htonl (m_ssrc w)\<rparr>
     in (12, mem_write m buffer (RTPHeader_bytes h)))"

definition build_rtp_header_2110_20_extension :: "Writer \<Rightarrow> nat \<Rightarrow> mem \<Rightarrow> (nat \<times> mem) option" where
  "build_rtp_header_2110_20_extension w buffer m =
    (let d = m_send_data w; ms = m_media_settings w
     in if lines_in_frame_field ms = 0 then None
        else
          let ext = bytes_le16 (htons (ucast (drop_bit 16 (rtp_sequence d))));
              srd = \<lparr>srd_length = htons (ucast (raw_packet_payload_size ms)),
                     srd_row_number_8_to_14_7bit = 0, srd_f = ucast (rtp_interlace_field_indicator d),
                     srd_row_number_0_to_7_8bit = 0, srd_offset_8_to_14_7bit = 0, srd_c = 0,
                     srd_offset_0_to_7_8bit = 0\<rparr>;
              srd = set_srd_row_number (word_of_nat (unat (line_number d) mod unat (lines_in_frame_field ms))) srd;
              srd = set_srd_offset (srd_offset d) srd
          in Some (RTP_HEADER_EXT_SEQ_NUM_SIZE + 6,
                   mem_write (mem_write m buffer ext) (buffer + RTP_HEADER_EXT_SEQ_NUM_SIZE) (SRDHeader_bytes srd)))"

definition build_rtp_header :: "Writer \<Rightarrow> nat \<Rightarrow> mem \<Rightarrow> (nat \<times> mem) option" where
  "build_rtp_header w buffer m =
    (let (rtp_header_size, m1) = build_rtp_header_common w buffer m
     in case build_rtp_header_2110_20_extension w (buffer + rtp_header_size) m1 of
          None \<Rightarrow> None
        | Some (extension_size, m2) \<Rightarrow> Some (rtp_header_size + extension_size, m2))"

section \<open>Frames and payload\<close>

definition set_next_frame :: "u8 list \<Rightarrow> Writer \<Rightarrow> ReturnStatus \<times> Writer" where
  "set_next_frame frame w =
    (let w1 = w\<lparr>m_send_data := reset_in_frame_state (m_send_data w)\<rparr>
     in case writer_class w of
          RTPVideoMockBufferWriter \<Rightarrow> (success, w1)
        | RTPVideoBufferWriter \<Rightarrow>
            (success, w1\<lparr>m_current_frame := Some frame,
                         m_data_left_in_frame := word_of_nat (length frame)\<rparr>))"

definition fill_packet :: "Writer \<Rightarrow> nat \<Rightarrow> mem \<Rightarrow> nat \<times> Writer \<times> mem" where
  "fill_packet w buffer m =
    (case writer_class w of
       RTPVideoMockBufferWriter \<Rightarrow> (0, w, m)
     | RTPVideoBufferWriter \<Rightarrow>
         (case m_current_frame w of
            None \<Rightarrow> (0, w, m)
          | Some frame \<Rightarrow>
              if \<not> m_payload_mem_utils w then (0, w, m)
              else
                let left = m_data_left_in_frame w;
                    raw = raw_packet_payload_size (m_media_settings w);
                    size = (if left < raw then left else raw);
                    frame_ptr = length frame - unat left;
                    m' = mem_write m buffer (take (unat size) (drop frame_ptr frame));
                    w' = w\<lparr>m_data_left_in_frame := left - size\<rparr>
                in (unat size, (if m_data_left_in_frame w' = 0 then w'\<lparr>m_current_frame := None\<rparr> else w'), m')))"

section \<open>Writing a buffer of packets\<close>

text \<open>The loop body, and the loop with the number of strides still allowed; \<open>hdr\<close> and \<open>pay\<close> give the
  addresses of a stride's header and payload.\<close>

definition write_packet :: "nat \<Rightarrow> nat \<Rightarrow> Writer \<times> mem \<Rightarrow> (Writer \<times> mem) option" where
  "write_packet hdr pay = (\<lambda>(w, m).
    (case build_rtp_header w hdr m of
       None \<Rightarrow> None
     | Some (_, m1) \<Rightarrow>
       let (_, w1, m2) = fill_packet w pay m1
       in case update_in_frame_state (m_media_settings w1) (m_send_data w1) of
            None \<Rightarrow> None
          | Some d \<Rightarrow> Some (w1\<lparr>m_send_data := d\<rparr>, m2)))"

fun write_loop :: "(nat \<Rightarrow> nat) \<Rightarrow> (nat \<Rightarrow> nat) \<Rightarrow> nat \<Rightarrow> nat \<Rightarrow> Writer \<times> mem \<Rightarrow> (Writer \<times> mem) option" where
  "write_loop hdr pay stride 0 st = Some st"
| "write_loop hdr pay stride (Suc n) (w, m) =
    (if packet_counter (m_send_data w) < packets_in_frame_field (m_media_settings w)
     then (case write_packet (hdr stride) (pay stride) (w, m) of
             None \<Rightarrow> None
           | Some st \<Rightarrow> write_loop hdr pay (stride + 1) n st)
     else Some (w, m))"

definition write_buffer :: "nat \<Rightarrow> nat \<Rightarrow> Writer \<times> mem \<Rightarrow> (ReturnStatus \<times> Writer \<times> mem) option" where
  "write_buffer payload_ptr length_in_strides st =
    (let stride_size = unat (m_data_stride_size (fst st));
         header = unat (protocol_header_size (m_media_settings (fst st)))
     in map_option (\<lambda>st. (success, st))
          (write_loop (\<lambda>s. payload_ptr + s * stride_size) (\<lambda>s. payload_ptr + s * stride_size + header)
             0 length_in_strides st))"

definition write_buffer_hds :: "nat \<Rightarrow> nat \<Rightarrow> nat \<Rightarrow> Writer \<times> mem \<Rightarrow> (ReturnStatus \<times> Writer \<times> mem) option" where
  "write_buffer_hds header_ptr payload_ptr length_in_strides st =
    (let hdr_stride = unat (m_app_header_stride_size (fst st));
         data_stride = unat (m_data_stride_size (fst st))
     in map_option (\<lambda>st. (success, st))
          (write_loop (\<lambda>s. header_ptr + s * hdr_stride) (\<lambda>s. payload_ptr + s * data_stride)
             0 length_in_strides st))"

text \<open>The timestamp of the first packet (\<open>set_first_packet_timestamp\<close> with
  \<open>time_to_rtp_timestamp\<close> of \<^verbatim>\<open>legacy_util/rt_threads.cpp\<close>); a negative or oversized value cannot be
  converted.\<close>

definition time_to_rtp_timestamp :: "rat \<Rightarrow> int \<Rightarrow> rat" where
  "time_to_rtp_timestamp time_ns rate_hz =
    (let time_sec = dbl (time_ns / 1000000000);
         timestamp = dbl (time_sec * of_int rate_hz);
         timestamp = dbl (timestamp - 5)
     in fmod_rat timestamp 4294967296)"

definition set_first_packet_timestamp :: "u64 \<Rightarrow> Writer \<Rightarrow> Writer option" where
  "set_first_packet_timestamp packet_time_ns w =
    map_option (\<lambda>t. w\<lparr>m_send_data := (m_send_data w)\<lparr>rtp_timestamp := word_of_nat t\<rparr>\<rparr>)
      (to_unsigned 32 (time_to_rtp_timestamp (dbl (of_nat (unat packet_time_ns)))
                         (sint (ucast (sample_rate (m_media_settings w)) :: u32))))"

section \<open>The closed form of the in-frame state\<close>

text \<open>Lines and frames are cut without remainder, and rows fit the 15-bit field of the SRD header.\<close>

definition wf_media :: "MediaSettings \<Rightarrow> bool" where
  "wf_media ms \<longleftrightarrow> 0 < unat (pixels_per_packet ms) \<and> 0 < unat (packets_in_line ms) \<and> 0 < unat (lines_in_frame_field ms)
     \<and> unat (packets_in_line ms) * unat (pixels_per_packet ms) = unat (width (resolution ms))
     \<and> unat (packets_in_line ms) * unat (lines_in_frame_field ms) = unat (packets_in_frame_field ms)
     \<and> unat (lines_in_frame_field ms) < 2 ^ 15
     \<and> to_unsigned 32 (ticks_per_frame ms) \<noteq> None"

text \<open>The state of a stream that started a frame in state \<open>d\<close>, after \<open>k\<close> packets.\<close>

definition stream_state :: "MediaSettings \<Rightarrow> RTPStreamSendStats \<Rightarrow> nat \<Rightarrow> RTPStreamSendStats" where
  "stream_state ms d k =
    (let pif = unat (packets_in_frame_field ms); pil = unat (packets_in_line ms) in
     d\<lparr>packet_counter := word_of_nat (k mod pif),
       rtp_sequence := rtp_sequence d + word_of_nat k,
       rtp_timestamp := rtp_timestamp d + word_of_nat (k div pif) * word_of_nat (the (to_unsigned 32 (ticks_per_frame ms))),
       rtp_interlace_field_indicator :=
         (if video_scan_type ms = Interlaced \<and> odd (k div pif) then 1 else 0),
       line_number := word_of_nat (k div pil mod unat (lines_in_frame_field ms)),
       srd_offset := word_of_nat (k mod pil * unat (pixels_per_packet ms))\<rparr>)"

lemma update_stream_state:
  assumes wf: "wf_media ms"
  shows "update_in_frame_state ms (stream_state ms d k) = Some (stream_state ms d (Suc k))"
proof -
  let ?pif = "unat (packets_in_frame_field ms)" and ?pil = "unat (packets_in_line ms)"
    and ?w = "unat (width (resolution ms))" and ?ppp = "unat (pixels_per_packet ms)"
    and ?l = "unat (lines_in_frame_field ms)"
  have p: "0 < ?ppp" "0 < ?pil" "0 < ?l" "?pil * ?ppp = ?w" "?pil * ?l = ?pif" "?l < 2 ^ 15"
    using wf by (auto simp: wf_media_def)
  obtain tk where tk: "to_unsigned 32 (ticks_per_frame ms) = Some tk" using wf by (auto simp: wf_media_def)
  have pif0: "0 < ?pif" using p(2,3) unfolding p(5)[symmetric] by simp
  have w0: "0 < ?w" using p(1,2) unfolding p(4)[symmetric] by simp
  have nz: "width (resolution ms) \<noteq> 0" "packets_in_line ms \<noteq> 0" "lines_in_frame_field ms \<noteq> 0"
    using w0 p(2,3) by auto
  have dvd: "?pil dvd ?pif" unfolding p(5)[symmetric] by simp
  have offset: "unat (word_of_nat (k mod ?pil * ?ppp) :: u16) = k mod ?pil * ?ppp"
  proof (rule unat_word_of_nat)
    have "k mod ?pil * ?ppp \<le> ?pil * ?ppp" using p(2) by (intro mult_right_mono) (auto intro: less_imp_le)
    then show "k mod ?pil * ?ppp < 2 ^ LENGTH(16)" using p(4) unat_u16_bound[of "width (resolution ms)"] by simp
  qed
  have srd: "(k mod ?pil * ?ppp + ?ppp) mod ?w = Suc k mod ?pil * ?ppp"
  proof (cases "Suc (k mod ?pil) = ?pil")
    case True
    then have "k mod ?pil * ?ppp + ?ppp = ?w" using p(4) by (metis mult_Suc add.commute)
    then show ?thesis using True p(2) by (simp add: mod_Suc_wrap)
  next
    case False
    then have "Suc (k mod ?pil) < ?pil" using p(2) by (simp add: Suc_lessI)
    then have "Suc (k mod ?pil) * ?ppp < ?w" using p(1,4) by (metis mult_less_mono1)
    then show ?thesis using False p(2) by (simp add: mod_Suc_wrap add.commute)
  qed
  have kpif: "k mod ?pif < ?pif" using pif0 by simp
  have pifb: "?pif < 2 ^ 32" using unat_u32_bound[of "packets_in_frame_field ms"] by simp
  have cnt: "unat (word_of_nat (k mod ?pif) :: u32) = k mod ?pif"
    using kpif pifb by (intro unat_word_of_nat) simp
  have line_done: "ucast ((word_of_nat (k mod ?pif) :: u32) + 1) mod packets_in_line ms = (0 :: u64) \<longleftrightarrow> Suc (k mod ?pil) = ?pil"
  proof (cases "?pif = 2 ^ 32 - 1 + 1")
    case True
    then show ?thesis using pifb by simp
  next
    case False
    have "unat ((word_of_nat (k mod ?pif) :: u32) + 1) = Suc (k mod ?pif)"
      using kpif pifb by (subst unat_Suc_no_wrap) (simp_all add: cnt)
    then have "unat (ucast ((word_of_nat (k mod ?pif) :: u32) + 1) mod packets_in_line ms) = Suc (k mod ?pif) mod ?pil"
      by (simp add: unat_mod unat_ucast_up)
    also have "\<dots> = Suc k mod ?pil" using mod_mod_dvd[OF dvd] by (metis mod_Suc_eq)
    finally show ?thesis using p(2) by (simp add: word_eq_unat[of _ 0] mod_Suc_wrap)
  qed
  have lnum: "unat (word_of_nat (k div ?pil mod ?l) :: u16) = k div ?pil mod ?l"
    using p(6) less_trans[OF mod_less_divisor[OF p(3), of "k div ?pil"]] by (intro unat_word_of_nat) simp
  have wrap: "(word_of_nat (k mod ?pif) :: u32) + 1 = packets_in_frame_field ms \<longleftrightarrow> Suc (k mod ?pif) = ?pif"
    using kpif pifb by (simp add: word_eq_unat unat_Suc_no_wrap cnt)
  define O0 O1 where "O0 = (word_of_nat (k mod ?pil * ?ppp) :: u16)" and "O1 = (word_of_nat (Suc k mod ?pil * ?ppp) :: u16)"
  define C0 where "C0 = (word_of_nat (k mod ?pif) :: u32)"
  define L0 L1 where "L0 = (word_of_nat (k div ?pil mod ?l) :: u16)" and "L1 = (word_of_nat (Suc k div ?pil mod ?l) :: u16)"
  define T0 T1 where "T0 = rtp_timestamp d + word_of_nat (k div ?pif) * word_of_nat tk"
    and "T1 = rtp_timestamp d + word_of_nat (Suc k div ?pif) * word_of_nat tk"
  define I0 I1 where "I0 = (if video_scan_type ms = Interlaced \<and> odd (k div ?pif) then 1 else (0 :: u8))"
    and "I1 = (if video_scan_type ms = Interlaced \<and> odd (Suc k div ?pif) then 1 else (0 :: u8))"
  have s0: "stream_state ms d k = d\<lparr>packet_counter := C0, rtp_sequence := rtp_sequence d + word_of_nat k,
      rtp_timestamp := T0, rtp_interlace_field_indicator := I0, line_number := L0, srd_offset := O0\<rparr>"
    by (simp only: stream_state_def Let_def tk option.sel C0_def T0_def I0_def L0_def O0_def)
  have s1: "stream_state ms d (Suc k) = d\<lparr>packet_counter := (if Suc (k mod ?pif) = ?pif then 0 else C0 + 1),
      rtp_sequence := rtp_sequence d + word_of_nat k + 1,
      rtp_timestamp := T1, rtp_interlace_field_indicator := I1, line_number := L1, srd_offset := O1\<rparr>"
  proof -
    have "(word_of_nat (Suc k mod ?pif) :: u32) = (if Suc (k mod ?pif) = ?pif then 0 else C0 + 1)"
      using pif0 by (simp add: mod_Suc_wrap C0_def add.commute)
    moreover have "rtp_sequence d + word_of_nat (Suc k) = rtp_sequence d + word_of_nat k + 1" by simp
    ultimately show ?thesis by (simp only: stream_state_def Let_def tk option.sel T1_def I1_def L1_def O1_def)
  qed
  have o: "word_of_nat ((unat O0 + ?ppp) mod ?w) = O1" unfolding O0_def O1_def offset srd by (rule refl)
  have l: "word_of_nat (Suc (unat L0) mod ?l) = (word_of_nat (Suc (k div ?pil) mod ?l) :: u16)"
    unfolding L0_def lnum by (simp only: mod_Suc_eq)
  have l1: "L1 = (if Suc (k mod ?pil) = ?pil then word_of_nat (Suc (k div ?pil) mod ?l) else L0)"
    using p(2) by (simp add: L1_def L0_def div_Suc_wrap)
  have t1: "T1 = (if Suc (k mod ?pif) = ?pif then T0 + word_of_nat tk else T0)"
    using pif0 by (simp add: T1_def T0_def div_Suc_wrap algebra_simps)
  have i1: "I1 = (if Suc (k mod ?pif) = ?pif \<and> video_scan_type ms = Interlaced then (if I0 = 0 then 1 else 0) else I0)"
    using pif0 by (simp add: I1_def I0_def div_Suc_wrap)
  note line_done = line_done[folded C0_def] and wrap = wrap[folded C0_def]
  show ?thesis
    unfolding s0 s1 l1 t1 i1 update_in_frame_state_def Let_def
    using nz by (simp add: o l line_done wrap tk)
qed

section \<open>The bytes of a packet header\<close>

definition packet_header :: "MediaSettings \<Rightarrow> u32 \<Rightarrow> RTPStreamSendStats \<Rightarrow> u8 list" where
  "packet_header ms ssrc_id d =
    [0x80, (payload_type ms AND 0x7f) OR
           (if packet_counter d = packets_in_frame_field ms - 1 then 0x80 else 0)]
    @ bytes_be16 (ucast (rtp_sequence d)) @ bytes_be32 (rtp_timestamp d) @ bytes_be32 ssrc_id
    @ bytes_be16 (ucast (drop_bit 16 (rtp_sequence d))) @ bytes_be16 (ucast (raw_packet_payload_size ms))
    @ [(ucast (drop_bit 8 (line_number d)) AND 0x7f) OR
         (if odd (rtp_interlace_field_indicator d) then 0x80 else 0), ucast (line_number d),
       ucast (drop_bit 8 (srd_offset d)) AND 0x7f, ucast (srd_offset d)]"

lemma length_packet_header [simp]: "length (packet_header ms ssrc_id d) = 20"
  by (simp add: packet_header_def)

lemma seven_bits: "ucast (ucast (x :: u8) :: 7 word) = x AND (0x7f :: u8)"
proof -
  have e: "(0x7f :: u8) = mask 7" by (simp add: mask_eq_exp_minus_1)
  show ?thesis unfolding e by (rule bit_word_eqI) (auto simp: bit_simps)
qed

lemma common_header_bytes:
  "RTPHeader_bytes \<lparr>cc = 0, extension = 0, padding = 0, version = 2, hdr_payload_type = ucast (pt :: u8),
      marker = (if last_packet then 1 else 0), sequence_number = htons sn, timestamp = htonl ts, ssrc = htonl sid\<rparr>
   = [0x80, (pt AND 0x7f) OR (if last_packet then 0x80 else 0)] @ bytes_be16 sn @ bytes_be32 ts @ bytes_be32 sid"
  by (simp add: RTPHeader_bytes_def bytes_htons bytes_htonl seven_bits)

lemma one_bit: "push_bit 7 (ucast (ucast (x :: u8) :: 1 word)) = (if odd x then (0x80 :: u8) else 0)"
proof -
  have "(ucast x :: 1 word) = (if odd x then 1 else 0)"
    by (intro bit_word_eqI) (auto simp: bit_simps bit_0[symmetric] simp del: bit_0)
  then show ?thesis by simp
qed

lemma mem_write_three:
  "length P1 = n1 \<Longrightarrow> length P2 = n2 \<Longrightarrow>
   mem_write (mem_write (mem_write m b P1) (b + n1) P2) (b + n1 + n2) P3 = mem_write m b (P1 @ P2 @ P3)"
  by (simp add: mem_write_append add.assoc)

lemma build_rtp_header_bytes:
  assumes "lines_in_frame_field (m_media_settings w) \<noteq> 0"
    and "unat (line_number (m_send_data w)) < unat (lines_in_frame_field (m_media_settings w))"
  shows "build_rtp_header w buffer m =
    Some (20, mem_write m buffer (packet_header (m_media_settings w) (m_ssrc w) (m_send_data w)))"
proof -
  let ?d = "m_send_data w" and ?ms = "m_media_settings w"
  let ?P1 = "[0x80, (payload_type ?ms AND 0x7f) OR
           (if packet_counter ?d = packets_in_frame_field ?ms - 1 then 0x80 else 0)]
    @ bytes_be16 (ucast (rtp_sequence ?d)) @ bytes_be32 (rtp_timestamp ?d) @ bytes_be32 (m_ssrc w)"
  let ?P2 = "bytes_be16 (ucast (drop_bit 16 (rtp_sequence ?d)))"
  let ?P3 = "bytes_be16 (ucast (raw_packet_payload_size ?ms))
    @ [(ucast (drop_bit 8 (line_number ?d)) AND 0x7f) OR
         (if odd (rtp_interlace_field_indicator ?d) then 0x80 else 0), ucast (line_number ?d),
       ucast (drop_bit 8 (srd_offset ?d)) AND 0x7f, ucast (srd_offset ?d)]"
  have h: "packet_header ?ms (m_ssrc w) ?d = ?P1 @ ?P2 @ ?P3" by (simp add: packet_header_def)
  have c: "build_rtp_header_common w buffer m = (12, mem_write m buffer ?P1)" for m
    unfolding build_rtp_header_common_def Let_def common_header_bytes by (rule refl)
  have e: "build_rtp_header_2110_20_extension w b m = Some (8, mem_write (mem_write m b ?P2) (b + 2) ?P3)" for b m
    using assms
    by (simp add: build_rtp_header_2110_20_extension_def Let_def SRDHeader_bytes_def set_srd_row_number_def
        set_srd_offset_def bytes_htons seven_bits one_bit RTP_HEADER_EXT_SEQ_NUM_SIZE_def)
  show ?thesis
    unfolding build_rtp_header_def h c
    by (simp only: prod.case e option.case Let_def, subst mem_write_three) simp_all
qed

section \<open>Filling a buffer\<close>

text \<open>The part of the current frame that has not been sent.\<close>

definition frame_left :: "Writer \<Rightarrow> u8 list" where
  "frame_left w = (case m_current_frame w of None \<Rightarrow> []
     | Some frame \<Rightarrow> drop (length frame - unat (m_data_left_in_frame w)) frame)"

definition wf_writer :: "Writer \<Rightarrow> bool" where
  "wf_writer w \<longleftrightarrow> writer_class w = RTPVideoBufferWriter \<and> m_payload_mem_utils w \<and> wf_media (m_media_settings w)
     \<and> (case m_current_frame w of None \<Rightarrow> True | Some frame \<Rightarrow> unat (m_data_left_in_frame w) \<le> length frame)"

abbreviation payload_size :: "Writer \<Rightarrow> nat" where
  "payload_size w \<equiv> unat (raw_packet_payload_size (m_media_settings w))"

lemma fill_packet_frame:
  assumes "wf_writer w"
  shows "\<exists>n w'. fill_packet w buffer m = (n, w', mem_write m buffer (take (payload_size w) (frame_left w)))
    \<and> frame_left w' = drop (payload_size w) (frame_left w) \<and> wf_writer w'
    \<and> m_media_settings w' = m_media_settings w \<and> m_send_data w' = m_send_data w \<and> m_ssrc w' = m_ssrc w"
proof (cases "m_current_frame w")
  case None
  then show ?thesis using assms by (simp add: fill_packet_def wf_writer_def frame_left_def)
next
  case (Some frame)
  let ?left = "m_data_left_in_frame w" and ?raw = "raw_packet_payload_size (m_media_settings w)"
  define size where "size = (if ?left < ?raw then ?left else ?raw)"
  have le: "unat ?left \<le> length frame" using assms Some by (simp add: wf_writer_def)
  have us: "unat size = min (unat ?left) (unat ?raw)" by (simp add: size_def word_less_nat_alt min_def)
  have ul: "unat (?left - size) = unat ?left - unat size" using us by (intro unat_sub_no_wrap) simp
  have tk: "take (unat size) (drop (length frame - unat ?left) frame) = take (unat ?raw) (drop (length frame - unat ?left) frame)"
    using le by (simp add: us min_def)
  have nz: "?left - size = 0 \<longleftrightarrow> unat ?left \<le> unat ?raw" using ul us by (auto simp: word_eq_unat)
  have lf: "frame_left w = drop (length frame - unat ?left) frame" by (simp add: frame_left_def Some)
  define w1 where "w1 = w\<lparr>m_data_left_in_frame := ?left - size\<rparr>"
  have cls: "writer_class w = RTPVideoBufferWriter" "m_payload_mem_utils w" "wf_media (m_media_settings w)"
    using assms by (simp_all add: wf_writer_def)
  have fp: "fill_packet w buffer m = (unat size, (if ?left - size = 0 then w1\<lparr>m_current_frame := None\<rparr> else w1),
      mem_write m buffer (take (unat ?raw) (frame_left w)))"
    unfolding fill_packet_def Let_def size_def[symmetric] lf tk[symmetric] by (simp add: cls Some w1_def)
  show ?thesis
  proof (cases "unat ?left \<le> unat ?raw")
    case True
    then have eq: "size = ?left" using nz by simp
    show ?thesis
      using le True by (simp add: fp lf eq) (simp add: w1_def frame_left_def wf_writer_def cls)
  next
    case False
    then have eq: "length frame - (unat ?left - unat size) = length frame - unat ?left + unat ?raw"
      using le us by simp
    have "frame_left w1 = drop (unat ?raw) (frame_left w)"
      unfolding lf by (simp add: w1_def frame_left_def Some ul eq add.commute)
    moreover have "wf_writer w1" using le by (simp add: w1_def wf_writer_def cls Some ul)
    moreover have "?left \<noteq> size" using False nz by auto
    ultimately show ?thesis by (simp add: fp) (simp add: w1_def)
  qed
qed

lemma send_data_irrelevant [simp]:
  "frame_left (w\<lparr>m_send_data := d\<rparr>) = frame_left w" "wf_writer (w\<lparr>m_send_data := d\<rparr>) = wf_writer w"
  by (simp_all add: frame_left_def wf_writer_def split: option.split)

lemma stream_state_line:
  assumes "wf_media ms"
  shows "unat (line_number (stream_state ms d k)) < unat (lines_in_frame_field ms)"
proof -
  let ?l = "unat (lines_in_frame_field ms)"
  have "0 < ?l" "?l < 2 ^ 15" using assms by (auto simp: wf_media_def)
  then have "k div unat (packets_in_line ms) mod ?l < ?l" "k div unat (packets_in_line ms) mod ?l < 2 ^ 16"
    by (auto intro: less_trans[OF mod_less_divisor])
  then show ?thesis by (simp add: stream_state_def Let_def unat_word_of_nat)
qed

lemma stream_state_counter:
  assumes "wf_media ms"
  shows "packet_counter (stream_state ms d k) < packets_in_frame_field ms"
proof -
  let ?pif = "unat (packets_in_frame_field ms)"
  have e: "unat (packets_in_line ms) * unat (lines_in_frame_field ms) = ?pif"
    and z: "0 < unat (packets_in_line ms)" "0 < unat (lines_in_frame_field ms)"
    using assms by (simp_all add: wf_media_def)
  have "0 < ?pif" unfolding e[symmetric] using z by simp
  then have "k mod ?pif < ?pif" by simp
  moreover have "?pif < 2 ^ 32" using unat_u32_bound[of "packets_in_frame_field ms"] by simp
  ultimately show ?thesis by (simp add: stream_state_def Let_def word_less_nat_alt unat_word_of_nat)
qed

lemma write_packet_step:
  assumes "wf_writer w" and "m_send_data w = stream_state (m_media_settings w) d k"
  shows "\<exists>w'. write_packet hdr pay (w, m) =
      Some (w', mem_write (mem_write m hdr (packet_header (m_media_settings w) (m_ssrc w) (m_send_data w)))
                  pay (take (payload_size w) (frame_left w)))
    \<and> wf_writer w' \<and> m_media_settings w' = m_media_settings w \<and> m_ssrc w' = m_ssrc w
    \<and> m_send_data w' = stream_state (m_media_settings w) d (Suc k)
    \<and> frame_left w' = drop (payload_size w) (frame_left w)"
proof -
  have wfm: "wf_media (m_media_settings w)" using assms(1) by (simp add: wf_writer_def)
  have nz: "lines_in_frame_field (m_media_settings w) \<noteq> 0" using wfm by (auto simp: wf_media_def)
  note bh = build_rtp_header_bytes[OF nz, of hdr m, unfolded assms(2), OF stream_state_line[OF wfm], folded assms(2)]
  obtain n w1 where f: "fill_packet w pay (mem_write m hdr (packet_header (m_media_settings w) (m_ssrc w) (m_send_data w)))
      = (n, w1, mem_write (mem_write m hdr (packet_header (m_media_settings w) (m_ssrc w) (m_send_data w)))
                  pay (take (payload_size w) (frame_left w)))"
    and w1: "frame_left w1 = drop (payload_size w) (frame_left w)" "wf_writer w1"
      "m_media_settings w1 = m_media_settings w" "m_send_data w1 = m_send_data w" "m_ssrc w1 = m_ssrc w"
    using fill_packet_frame[OF assms(1)] by blast
  show ?thesis
    by (rule exI[of _ "w1\<lparr>m_send_data := stream_state (m_media_settings w) d (Suc k)\<rparr>"])
       (use w1 f update_stream_state[OF wfm, of d k] in \<open>simp add: write_packet_def bh assms(2)\<close>)
qed

text \<open>The regions a buffer of \<open>n\<close> strides is made of: headers and payloads of different strides, and a
  header and a payload, never overlap.\<close>

definition separate :: "nat \<Rightarrow> nat \<Rightarrow> nat \<Rightarrow> nat \<Rightarrow> bool" where
  "separate a n b k \<longleftrightarrow> a + n \<le> b \<or> b + k \<le> a"

definition stride_layout :: "(nat \<Rightarrow> nat) \<Rightarrow> (nat \<Rightarrow> nat) \<Rightarrow> nat \<Rightarrow> nat \<Rightarrow> bool" where
  "stride_layout hdr pay sz n \<longleftrightarrow>
    (\<forall>i<n. \<forall>j<n. i \<noteq> j \<longrightarrow> separate (hdr i) 20 (hdr j) 20 \<and> separate (pay i) sz (pay j) sz)
    \<and> (\<forall>i<n. \<forall>j<n. separate (hdr i) 20 (pay j) sz)"

definition slice :: "nat \<Rightarrow> nat \<Rightarrow> u8 list \<Rightarrow> u8 list" where
  "slice sz i bs = take sz (drop (i * sz) bs)"

lemma slice_drop: "slice sz i (drop sz bs) = slice sz (Suc i) bs"
  by (simp add: slice_def add.commute)

lemma length_slice: "length (slice sz i bs) \<le> sz"
  by (simp add: slice_def)

lemma write_loop_strides:
  assumes "wf_writer w" and "m_send_data w = stream_state (m_media_settings w) d k"
    and layout: "stride_layout hdr pay (payload_size w) N" and "s0 + n \<le> N"
  shows "\<exists>w' m'. write_loop hdr pay s0 n (w, m) = Some (w', m')
    \<and> wf_writer w' \<and> m_media_settings w' = m_media_settings w \<and> m_ssrc w' = m_ssrc w
    \<and> m_send_data w' = stream_state (m_media_settings w) d (k + n)
    \<and> frame_left w' = drop (n * payload_size w) (frame_left w)
    \<and> (\<forall>i<n. mem_read m' (hdr (s0 + i)) 20
               = packet_header (m_media_settings w) (m_ssrc w) (stream_state (m_media_settings w) d (k + i))
            \<and> mem_read m' (pay (s0 + i)) (length (slice (payload_size w) i (frame_left w)))
               = slice (payload_size w) i (frame_left w))
    \<and> (\<forall>x. (\<forall>i<n. (x < hdr (s0 + i) \<or> hdr (s0 + i) + 20 \<le> x)
               \<and> (x < pay (s0 + i) \<or> pay (s0 + i) + payload_size w \<le> x)) \<longrightarrow> m' x = m x)"
  using assms
proof (induction n arbitrary: w k s0 m)
  case 0
  then show ?case by simp
next
  case (Suc n)
  let ?ms = "m_media_settings w" and ?size = "payload_size w"
  define m1 where "m1 = mem_write (mem_write m (hdr s0) (packet_header ?ms (m_ssrc w) (m_send_data w)))
                  (pay s0) (slice ?size 0 (frame_left w))"
  obtain w1 where wp: "write_packet (hdr s0) (pay s0) (w, m) = Some (w1, m1)"
    and w1: "wf_writer w1" "m_media_settings w1 = ?ms" "m_ssrc w1 = m_ssrc w"
      "m_send_data w1 = stream_state ?ms d (Suc k)" "frame_left w1 = drop ?size (frame_left w)"
    using write_packet_step[OF Suc.prems(1,2), of "hdr s0" "pay s0" m] by (auto simp: m1_def slice_def)
  have guard: "packet_counter (m_send_data w) < packets_in_frame_field ?ms"
    using stream_state_counter Suc.prems(1,2) by (simp add: wf_writer_def)
  obtain w' m' where wl: "write_loop hdr pay (Suc s0) n (w1, m1) = Some (w', m')"
    and w': "wf_writer w'" "m_media_settings w' = ?ms" "m_ssrc w' = m_ssrc w"
      "m_send_data w' = stream_state ?ms d (Suc k + n)"
      "frame_left w' = drop (n * ?size) (drop ?size (frame_left w))"
    and rd: "\<And>i. i < n \<Longrightarrow> mem_read m' (hdr (Suc s0 + i)) 20
               = packet_header ?ms (m_ssrc w) (stream_state ?ms d (Suc k + i))"
      "\<And>i. i < n \<Longrightarrow> mem_read m' (pay (Suc s0 + i)) (length (slice ?size i (drop ?size (frame_left w))))
               = slice ?size i (drop ?size (frame_left w))"
    and fr: "\<And>x. (\<forall>i<n. (x < hdr (Suc s0 + i) \<or> hdr (Suc s0 + i) + 20 \<le> x)
               \<and> (x < pay (Suc s0 + i) \<or> pay (Suc s0 + i) + ?size \<le> x)) \<Longrightarrow> m' x = m1 x"
    using Suc.IH[of w1 "Suc k" "Suc s0" m1] w1 Suc.prems(3,4) by auto
  have lay: "\<And>i j. i < N \<Longrightarrow> j < N \<Longrightarrow> i \<noteq> j \<Longrightarrow> separate (hdr i) 20 (hdr j) 20"
    "\<And>i j. i < N \<Longrightarrow> j < N \<Longrightarrow> i \<noteq> j \<Longrightarrow> separate (pay i) ?size (pay j) ?size"
    "\<And>i j. i < N \<Longrightarrow> j < N \<Longrightarrow> separate (hdr i) 20 (pay j) ?size"
    using Suc.prems(3) by (auto simp: stride_layout_def)
  have sN: "s0 < N" "\<And>i. i < n \<Longrightarrow> Suc s0 + i < N" using Suc.prems(4) by auto
  have keep: "mem_read m' a l = mem_read m1 a l"
    if "\<And>i. i < n \<Longrightarrow> separate a l (hdr (Suc s0 + i)) 20 \<and> separate a l (pay (Suc s0 + i)) ?size" for a l
    by (rule mem_read_cong, rule fr) (use that in \<open>force simp: separate_def\<close>)
  have len0: "length (slice ?size 0 (frame_left w)) \<le> ?size" by (rule length_slice)
  have h0: "mem_read m' (hdr s0) 20 = packet_header ?ms (m_ssrc w) (stream_state ?ms d k)"
  proof -
    have "mem_read m' (hdr s0) 20 = mem_read m1 (hdr s0) 20"
      by (rule keep) (use lay(1)[OF sN(1) sN(2)] lay(3)[OF sN(1) sN(2)] in auto)
    also have "\<dots> = packet_header ?ms (m_ssrc w) (m_send_data w)"
      using lay(3)[OF sN(1) sN(1)] len0 unfolding m1_def
      by (subst mem_read_write_disjoint) (auto simp: separate_def mem_simps)
    finally show ?thesis using Suc.prems(2) by simp
  qed
  have p0: "mem_read m' (pay s0) (length (slice ?size 0 (frame_left w))) = slice ?size 0 (frame_left w)"
  proof -
    have "mem_read m' (pay s0) (length (slice ?size 0 (frame_left w)))
        = mem_read m1 (pay s0) (length (slice ?size 0 (frame_left w)))"
    proof (rule keep)
      fix i assume i: "i < n"
      show "separate (pay s0) (length (slice ?size 0 (frame_left w))) (hdr (Suc s0 + i)) 20
          \<and> separate (pay s0) (length (slice ?size 0 (frame_left w))) (pay (Suc s0 + i)) ?size"
        using lay(2)[OF sN(1) sN(2)[OF i]] lay(3)[OF sN(2)[OF i] sN(1)] len0 by (auto simp: separate_def)
    qed
    then show ?thesis by (simp add: m1_def mem_simps)
  qed
  show ?case
  proof (intro exI conjI allI impI)
    show "write_loop hdr pay s0 (Suc n) (w, m) = Some (w', m')" using guard wp wl by simp
    show "m_send_data w' = stream_state ?ms d (k + Suc n)" using w' by simp
    show "frame_left w' = drop (Suc n * ?size) (frame_left w)" using w' by (simp add: add.commute)
    fix i assume i: "i < Suc n"
    show "mem_read m' (hdr (s0 + i)) 20 = packet_header ?ms (m_ssrc w) (stream_state ?ms d (k + i))"
      using i h0 rd(1) by (cases i) auto
    show "mem_read m' (pay (s0 + i)) (length (slice ?size i (frame_left w))) = slice ?size i (frame_left w)"
      using i p0 rd(2) by (cases i) (auto simp: slice_drop)
  next
    fix x assume out: "\<forall>i<Suc n. (x < hdr (s0 + i) \<or> hdr (s0 + i) + 20 \<le> x)
               \<and> (x < pay (s0 + i) \<or> pay (s0 + i) + ?size \<le> x)"
    have "m' x = m1 x" by (rule fr) (use out in auto)
    also have "m1 x = m x" using out[rule_format, of 0] len0 unfolding m1_def by (auto simp: mem_write_outside)
    finally show "m' x = m x" .
  qed (use w' in auto)
qed

lemma reset_stream_state: "reset_in_frame_state d = stream_state ms d 0"
  by (simp add: reset_in_frame_state_def stream_state_def)

lemma stride_next: "i < j \<Longrightarrow> i * st + st \<le> j * (st :: nat)"
proof -
  assume "i < j"
  then have "Suc i * st \<le> j * st" by (intro mult_right_mono) auto
  then show ?thesis by simp
qed

lemma separate_strides:
  assumes "sz \<le> st" and "i \<noteq> j"
  shows "separate (a + i * st) sz (a + j * st) sz"
proof (cases "i < j")
  case True
  then show ?thesis using stride_next[OF True, of st] assms(1) by (simp add: separate_def)
next
  case False
  then have "j < i" using assms(2) by simp
  then show ?thesis using stride_next[of j i st] assms(1) by (simp add: separate_def)
qed

lemma contiguous_layout:
  assumes "20 + sz \<le> stride"
  shows "stride_layout (\<lambda>s. p + s * stride) (\<lambda>s. p + s * stride + 20) sz n"
proof -
  have "separate (p + i * stride) 20 (p + j * stride) 20" if "i \<noteq> j" for i j
    using that assms by (intro separate_strides) simp_all
  moreover have "separate (p + i * stride + 20) sz (p + j * stride + 20) sz" if "i \<noteq> j" for i j
    using separate_strides[of sz stride i j "p + 20"] that assms by (simp add: ac_simps)
  moreover have "separate (p + i * stride) 20 (p + j * stride + 20) sz" for i j
  proof (cases "i \<le> j")
    case True
    then have "i * stride \<le> j * stride" by (rule mult_right_mono) simp
    then show ?thesis by (simp add: separate_def)
  next
    case False
    then show ?thesis using stride_next[of j i stride] assms by (simp add: separate_def)
  qed
  ultimately show ?thesis by (simp add: stride_layout_def)
qed

lemma split_layout:
  assumes "20 \<le> hstride" "sz \<le> dstride" "hp + n * hstride \<le> pp \<or> pp + n * dstride \<le> hp"
  shows "stride_layout (\<lambda>s. hp + s * hstride) (\<lambda>s. pp + s * dstride) sz n"
proof -
  have "separate (hp + i * hstride) 20 (pp + j * dstride) sz" if "i < n" "j < n" for i j
    using stride_next[OF that(1), of hstride] stride_next[OF that(2), of dstride] assms
    unfolding separate_def by linarith
  then show ?thesis using assms(1,2) separate_strides by (simp add: stride_layout_def)
qed

lemma concat_slices: "concat (map (\<lambda>i. slice sz i bs) [0..<n]) = take (n * sz) bs"
  by (induction n) (simp_all add: slice_def take_add add.commute flip: take_add)

lemma write_buffer_strides:
  assumes "wf_writer w" and "m_send_data w = stream_state (m_media_settings w) d k"
    and "unat (protocol_header_size (m_media_settings w)) = 20"
    and "20 + payload_size w \<le> unat (m_data_stride_size w)"
  shows "\<exists>w' m'. write_buffer p n (w, m) = Some (success, w', m')
    \<and> m_send_data w' = stream_state (m_media_settings w) d (k + n)
    \<and> frame_left w' = drop (n * payload_size w) (frame_left w)
    \<and> (\<forall>i<n. let packet = p + i * unat (m_data_stride_size w) in
           mem_read m' packet 20
             = packet_header (m_media_settings w) (m_ssrc w) (stream_state (m_media_settings w) d (k + i))
         \<and> mem_read m' (packet + 20) (length (slice (payload_size w) i (frame_left w)))
             = slice (payload_size w) i (frame_left w))
    \<and> (\<forall>x. x < p \<or> p + n * unat (m_data_stride_size w) \<le> x \<longrightarrow> m' x = m x)"
proof -
  let ?st = "unat (m_data_stride_size w)"
  have step: "p + i * ?st + 20 + payload_size w \<le> p + n * ?st" if "i < n" for i
  proof -
    have "Suc i * ?st \<le> n * ?st" using that by (intro mult_right_mono) auto
    then show ?thesis using assms(4) by simp
  qed
  have le: "p \<le> p + i * ?st" for i by simp
  obtain w' m' where wl: "write_loop (\<lambda>s. p + s * ?st) (\<lambda>s. p + s * ?st + 20) 0 n (w, m) = Some (w', m')"
    and st: "m_send_data w' = stream_state (m_media_settings w) d (k + n)"
      "frame_left w' = drop (n * payload_size w) (frame_left w)"
    and rd: "\<forall>i<n. mem_read m' (p + i * ?st) 20
               = packet_header (m_media_settings w) (m_ssrc w) (stream_state (m_media_settings w) d (k + i))
            \<and> mem_read m' (p + i * ?st + 20) (length (slice (payload_size w) i (frame_left w)))
               = slice (payload_size w) i (frame_left w)"
    and fr: "\<And>x. (\<forall>i<n. (x < p + i * ?st \<or> p + i * ?st + 20 \<le> x)
               \<and> (x < p + i * ?st + 20 \<or> p + i * ?st + 20 + payload_size w \<le> x)) \<Longrightarrow> m' x = m x"
    using write_loop_strides[OF assms(1,2) contiguous_layout[OF assms(4)], of 0 n n p m] by auto
  have out: "m' x = m x" if "x < p \<or> p + n * ?st \<le> x" for x
    by (rule fr) (use that step in fastforce)
  have wb: "write_buffer p n (w, m) = Some (success, w', m')"
    using wl assms(3) by (simp add: write_buffer_def Let_def)
  show ?thesis using wb st rd out unfolding Let_def by blast
qed

section \<open>Properties\<close>

interpretation in_frame: stepwise update_in_frame_state stream_state wf_media
  by unfold_locales (rule update_stream_state)

text \<open>C5: after \<open>k\<close> packets of a stream whose lines and frame are cut without
  remainder, the packet counter is \<open>k\<close> modulo the packets of a field, the 32-bit sequence has advanced
  by \<open>k\<close>, the timestamp by the ticks of every finished field, the field bit flips with every finished
  field of interlaced video only, and row and offset are those of packet \<open>k\<close> in its line.\<close>

theorem in_frame_closed_form:
  assumes "wf_media ms" and "to_unsigned 32 (ticks_per_frame ms) = Some ticks"
  shows "\<exists>d'. ((\<lambda>x. Option.bind x (update_in_frame_state ms)) ^^ k) (Some (reset_in_frame_state d)) = Some d'
    \<and> unat (packet_counter d') = k mod unat (packets_in_frame_field ms)
    \<and> rtp_sequence d' = rtp_sequence d + word_of_nat k
    \<and> rtp_timestamp d' = rtp_timestamp d + word_of_nat (k div unat (packets_in_frame_field ms) * ticks)
    \<and> (rtp_interlace_field_indicator d' \<noteq> 0 \<longleftrightarrow>
         video_scan_type ms = Interlaced \<and> odd (k div unat (packets_in_frame_field ms)))
    \<and> unat (line_number d') = k div unat (packets_in_line ms) mod unat (lines_in_frame_field ms)
    \<and> unat (srd_offset d') = k mod unat (packets_in_line ms) * unat (pixels_per_packet ms)"
proof (intro exI conjI)
  show "((\<lambda>x. Option.bind x (update_in_frame_state ms)) ^^ k) (Some (reset_in_frame_state d))
      = Some (stream_state ms d k)"
    using in_frame.iterate_state[OF assms(1), of k d 0] by (simp only: reset_stream_state[of d ms] add_0)
  let ?pif = "unat (packets_in_frame_field ms)" and ?l = "unat (lines_in_frame_field ms)"
  have p: "0 < unat (packets_in_line ms)" "0 < ?l" "?l < 2 ^ 15"
    "unat (packets_in_line ms) * ?l = ?pif"
    "unat (packets_in_line ms) * unat (pixels_per_packet ms) = unat (width (resolution ms))"
    using assms(1) by (simp_all add: wf_media_def)
  have "0 < ?pif" using p(1,2) unfolding p(4)[symmetric] by simp
  then have "k mod ?pif < 2 ^ 32" using less_trans[OF mod_less_divisor unat_u32_bound] by simp
  then show "unat (packet_counter (stream_state ms d k)) = k mod ?pif"
    by (simp add: stream_state_def Let_def unat_word_of_nat)
  have "k div unat (packets_in_line ms) mod ?l < 2 ^ 16"
    using p(3) less_trans[OF mod_less_divisor[OF p(2)]] by simp
  then show "unat (line_number (stream_state ms d k)) = k div unat (packets_in_line ms) mod ?l"
    by (simp add: stream_state_def Let_def unat_word_of_nat)
  have "k mod unat (packets_in_line ms) * unat (pixels_per_packet ms)
      \<le> unat (packets_in_line ms) * unat (pixels_per_packet ms)"
    using p(1) by (intro mult_right_mono) (auto intro: less_imp_le)
  then have "k mod unat (packets_in_line ms) * unat (pixels_per_packet ms) < 2 ^ 16"
    using p(5) unat_u16_bound[of "width (resolution ms)"] by simp
  then show "unat (srd_offset (stream_state ms d k)) = k mod unat (packets_in_line ms) * unat (pixels_per_packet ms)"
    by (simp add: stream_state_def Let_def unat_word_of_nat del: of_nat_mult)
qed (simp_all add: stream_state_def Let_def assms(2))

definition example_media :: MediaSettings where
  "example_media = MediaSettings_default\<lparr>resolution := \<lparr>width = 4, height = 2\<rparr>,
     packets_in_frame_field := 4, packets_in_line := 2, pixels_per_packet := 2,
     lines_in_frame_field := 2, ticks_per_frame := 1500, protocol_header_size := 20,
     raw_packet_payload_size := 3\<rparr>"

lemma example_media_wf: "wf_media example_media" "to_unsigned 32 (ticks_per_frame example_media) = Some 1500"
  by (simp_all add: wf_media_def example_media_def MediaSettings_default_def to_unsigned_def)

theorem in_frame_closed_form_witness:
  "\<exists>d'. ((\<lambda>x. Option.bind x (update_in_frame_state example_media)) ^^ 7)
       (Some (reset_in_frame_state \<lparr>packet_counter = 0, rtp_sequence = 9, rtp_timestamp = 5,
          rtp_interlace_field_indicator = 0, line_number = 0, srd_offset = 0\<rparr>)) = Some d'
     \<and> unat (packet_counter d') = 3 \<and> rtp_timestamp d' = 1505 \<and> unat (line_number d') = 1 \<and> unat (srd_offset d') = 2"
  using in_frame_closed_form[OF example_media_wf, of 7
      "\<lparr>packet_counter = 0, rtp_sequence = 9, rtp_timestamp = 5,
          rtp_interlace_field_indicator = 0, line_number = 0, srd_offset = 0\<rparr>"]
  by (auto simp: example_media_def MediaSettings_default_def)

definition example_writer :: Writer where
  "example_writer = RTPMediaBufferWriter RTPVideoBufferWriter example_media 32 64 23 True"

lemma example_writer_wf:
  "wf_writer example_writer" "m_media_settings example_writer = example_media"
  "m_send_data example_writer = stream_state example_media (m_send_data example_writer) 0"
  "m_data_stride_size example_writer = 64" "m_app_header_stride_size example_writer = 32"
  "unat (protocol_header_size example_media) = 20" "unat (raw_packet_payload_size example_media) = 3"
  "unat (packets_in_frame_field example_media) = 4"
  using example_media_wf
  by (simp_all add: wf_writer_def example_writer_def RTPMediaBufferWriter_def stream_state_def)
     (simp_all add: example_media_def MediaSettings_default_def)

text \<open>C4: writing \<open>n\<close> strides in one block puts at stride \<open>i\<close> the 20-byte header of
  packet \<open>k + i\<close> followed by the \<open>i\<close>-th slice of the rest of the frame, changes no byte outside the
  buffer, and leaves the writer at packet \<open>k + n\<close> with those slices consumed.\<close>

theorem write_buffer_content:
  assumes "wf_writer w" and "m_send_data w = stream_state (m_media_settings w) d k"
    and "unat (protocol_header_size (m_media_settings w)) = 20"
    and "20 + payload_size w \<le> unat (m_data_stride_size w)"
  shows "\<exists>w' m'. write_buffer p n (w, m) = Some (success, w', m')
    \<and> m_send_data w' = stream_state (m_media_settings w) d (k + n)
    \<and> frame_left w' = drop (n * payload_size w) (frame_left w)
    \<and> (\<forall>i<n. let packet = p + i * unat (m_data_stride_size w) in
           mem_read m' packet 20
             = packet_header (m_media_settings w) (m_ssrc w) (stream_state (m_media_settings w) d (k + i))
         \<and> mem_read m' (packet + 20) (length (slice (payload_size w) i (frame_left w)))
             = slice (payload_size w) i (frame_left w))
    \<and> (\<forall>x. x < p \<or> p + n * unat (m_data_stride_size w) \<le> x \<longrightarrow> m' x = m x)"
  using assms by (rule write_buffer_strides)

theorem write_buffer_content_witness:
  "\<exists>w' m'. write_buffer 1000 3 (example_writer, \<lambda>_. 0) = Some (success, w', m')
     \<and> m_send_data w' = stream_state example_media (m_send_data example_writer) 3"
  using write_buffer_content[OF example_writer_wf(1), of "m_send_data example_writer" 0 1000 3 "\<lambda>_. 0"]
    example_writer_wf
  by auto

text \<open>With header-data split, the headers of consecutive packets land in
  the header strides and the slices of the frame in the payload strides, when the two blocks do not
  overlap.\<close>

theorem write_buffer_hds_content:
  assumes "wf_writer w" and "m_send_data w = stream_state (m_media_settings w) d k"
    and "20 \<le> unat (m_app_header_stride_size w)" and "payload_size w \<le> unat (m_data_stride_size w)"
    and "hp + n * unat (m_app_header_stride_size w) \<le> pp \<or> pp + n * unat (m_data_stride_size w) \<le> hp"
  shows "\<exists>w' m'. write_buffer_hds hp pp n (w, m) = Some (success, w', m')
    \<and> m_send_data w' = stream_state (m_media_settings w) d (k + n)
    \<and> frame_left w' = drop (n * payload_size w) (frame_left w)
    \<and> (\<forall>i<n. mem_read m' (hp + i * unat (m_app_header_stride_size w)) 20
             = packet_header (m_media_settings w) (m_ssrc w) (stream_state (m_media_settings w) d (k + i))
         \<and> mem_read m' (pp + i * unat (m_data_stride_size w)) (length (slice (payload_size w) i (frame_left w)))
             = slice (payload_size w) i (frame_left w))"
  using write_loop_strides[OF assms(1,2) split_layout[OF assms(3,4,5)], of 0 n m]
  by (auto simp: write_buffer_hds_def Let_def)

theorem write_buffer_hds_content_witness:
  "\<exists>w' m'. write_buffer_hds 0 4096 3 (example_writer, \<lambda>_. 0) = Some (success, w', m')
     \<and> m_send_data w' = stream_state example_media (m_send_data example_writer) 3"
  using write_buffer_hds_content[OF example_writer_wf(1), of "m_send_data example_writer" 0 0 3 4096 "\<lambda>_. 0"]
    example_writer_wf
  by auto

text \<open>C10: after \<open>set_next_frame\<close>, writing the packets of one field places in the payload
  areas, read in order, exactly the bytes of the frame, and none are left.\<close>

theorem write_buffer_frame:
  assumes "wf_writer w" and "unat (protocol_header_size (m_media_settings w)) = 20"
    and "20 + payload_size w \<le> unat (m_data_stride_size w)"
    and "length frame = unat (packets_in_frame_field (m_media_settings w)) * payload_size w"
    and "length frame < 2 ^ 64"
  shows "\<exists>w' m'. write_buffer p (unat (packets_in_frame_field (m_media_settings w)))
                    (snd (set_next_frame frame w), m) = Some (success, w', m')
    \<and> concat (map (\<lambda>i. mem_read m' (p + i * unat (m_data_stride_size w) + 20) (payload_size w))
                [0..<unat (packets_in_frame_field (m_media_settings w))]) = frame
    \<and> frame_left w' = []"
proof -
  let ?n = "unat (packets_in_frame_field (m_media_settings w))"
  define w0 where "w0 = snd (set_next_frame frame w)"
  have w0: "wf_writer w0" "m_media_settings w0 = m_media_settings w" "frame_left w0 = frame"
      "m_data_stride_size w0 = m_data_stride_size w"
      "m_send_data w0 = stream_state (m_media_settings w0) (m_send_data w) 0"
    using assms(1,5)
    by (simp_all add: w0_def set_next_frame_def wf_writer_def frame_left_def unat_word_of_nat
        flip: reset_stream_state)
  have full: "length (slice (payload_size w) i frame) = payload_size w" if "i < ?n" for i
  proof -
    have "i * payload_size w + payload_size w \<le> ?n * payload_size w" using that by (rule stride_next)
    then show ?thesis using assms(4) by (simp add: slice_def)
  qed
  obtain w' m' where wb: "write_buffer p ?n (w0, m) = Some (success, w', m')"
    and left: "frame_left w' = drop (?n * payload_size w) frame"
    and rd: "\<And>i. i < ?n \<Longrightarrow> mem_read m' (p + i * unat (m_data_stride_size w) + 20) (length (slice (payload_size w) i frame))
             = slice (payload_size w) i frame"
    using write_buffer_strides[OF w0(1,5), of p ?n m] assms(2,3) unfolding w0(2-4) Let_def by auto
  have "concat (map (\<lambda>i. mem_read m' (p + i * unat (m_data_stride_size w) + 20) (payload_size w)) [0..<?n])
      = concat (map (\<lambda>i. slice (payload_size w) i frame) [0..<?n])"
    using rd full by (intro arg_cong[where f = concat] map_cong) auto
  then show ?thesis using wb left assms(4) by (simp add: concat_slices w0_def)
qed
theorem write_buffer_frame_witness:
  "\<exists>w' m'. write_buffer 0 4 (snd (set_next_frame [1,2,3,4,5,6,7,8,9,10,11,12] example_writer), \<lambda>_. 0)
        = Some (success, w', m') \<and> frame_left w' = []"
  using write_buffer_frame[OF example_writer_wf(1), of "[1,2,3,4,5,6,7,8,9,10,11,12]" 0 "\<lambda>_. 0"]
    example_writer_wf
  by auto

end
