(* ===== verification/Media_Settings.thy ===== *)
theory Media_Settings
  imports Media_Defs Doubles
begin

text \<open>
  The derivation of the media settings of \<^verbatim>\<open>services/media/media_utils.cpp\<close>: the format tables, and the
  packet, line and chunk geometry of a frame computed by \<^verbatim>\<open>initialize_common_media_settings\<close> (its sibling
  \<^verbatim>\<open>calculate_tro_trs\<close> is in theory \<open>Rtp_Send_Stream\<close>).  The floating point steps are those of the code
  (theory \<open>Doubles\<close>); a division by zero, an overflow of a signed product and an out-of-range
  conversion are undefined in C++ and give \<open>None\<close>.  The lemmas show that the floating point
  detours compute the exact integers, and that every supported format gives a frame of its size that is cut
  into packets without remainder.
\<close>

section \<open>The application settings\<close>

datatype AllocatorTypeUI =
  Auto | Malloc | HugePageDefault | HugePage2MB | HugePage512MB | HugePage1GB | Gpu

record AppSettings =
  sleep_between_operations_us :: int
  sleep_between_operations :: bool
  local_ip :: string
  local_mac :: string
  local_ips :: "string list"
  source_ip :: string
  source_ips :: "string list"
  source_port :: u16
  destination_ip :: string
  destination_ips :: "string list"
  destination_port :: u16
  destination_ports :: "u16 list"
  num_of_total_streams :: u16
  num_of_total_flows :: u64
  num_of_threads :: u64
  internal_thread_core :: int
  app_threads_cores :: "int list"
  print_parameters :: bool
  rate :: PacketPacingRate
  num_of_memory_blocks :: u64
  num_of_chunks_in_mem_block :: u64
  num_of_chunks :: u64
  num_of_packets_in_chunk :: u64
  num_of_packets_in_chunk_specified :: bool
  num_of_packets_in_mem_block :: u64
  packet_payload_size :: u16
  packet_app_header_size :: u16
  use_checksum_header :: bool
  hw_queue_full_sleep_us :: u32
  app_gpu_id :: int
  lock_gpu_clocks :: bool
  allocator_type :: AllocatorTypeUI
  media :: MediaSettings
  ref_clk_is_ptp :: bool
  session_id_stats :: u32
  app_register_memory :: bool
  header_data_split :: bool
  app_memory_alloc :: bool
  enable_statistics_reader :: bool
  statistics_reader_core :: int
  stats_report_interval_ms :: u32
  video_file :: string
  dynamic_video_file_load :: bool

definition CPU_NONE :: int where "CPU_NONE = - 1"

definition INVALID_CORE_NUMBER :: int where "INVALID_CORE_NUMBER = - 1"

text \<open>The value a settings object has before its defaults are set.\<close>

definition AppSettings_new :: AppSettings where
  "AppSettings_new =
    \<lparr>sleep_between_operations_us = 0, sleep_between_operations = False, local_ip = [], local_mac = [], local_ips = [],
     source_ip = [], source_ips = [], source_port = 0, destination_ip = [], destination_ips = [], destination_port = 0,
     destination_ports = [], num_of_total_streams = 0, num_of_total_flows = 0, num_of_threads = 0, internal_thread_core = 0,
     app_threads_cores = [], print_parameters = False, rate = \<lparr>bps = 0, max_burst_in_packets = 0\<rparr>, num_of_memory_blocks = 0,
     num_of_chunks_in_mem_block = 0, num_of_chunks = 0, num_of_packets_in_chunk = 0, num_of_packets_in_chunk_specified = False,
     num_of_packets_in_mem_block = 0, packet_payload_size = 0, packet_app_header_size = 0, use_checksum_header = False,
     hw_queue_full_sleep_us = 0, app_gpu_id = 0, lock_gpu_clocks = False, allocator_type = Auto, media = MediaSettings_default,
     ref_clk_is_ptp = False, session_id_stats = 0, app_register_memory = False, header_data_split = False,
     app_memory_alloc = False, enable_statistics_reader = False, statistics_reader_core = 0, stats_report_interval_ms = 0,
     video_file = [], dynamic_video_file_load = False\<rparr>"

definition AppSettings_init_default_values :: "AppSettings \<Rightarrow> AppSettings" where
  "AppSettings_init_default_values s = s\<lparr>
     destination_ip := ''234.5.6.7'', destination_port := 50000, num_of_threads := 1,
     num_of_total_streams := 1, num_of_total_flows := 1, internal_thread_core := CPU_NONE,
     app_threads_cores := [CPU_NONE], rate := \<lparr>bps = 0, max_burst_in_packets = 0\<rparr>,
     num_of_chunks := 1, num_of_packets_in_chunk := 4096, packet_payload_size := 1460,
     packet_app_header_size := 0, sleep_between_operations_us := 0, sleep_between_operations := False,
     print_parameters := False, use_checksum_header := False, hw_queue_full_sleep_us := 0,
     app_gpu_id := INVALID_GPU_ID, lock_gpu_clocks := True, allocator_type := Auto, session_id_stats := 0xffffffff,
     ref_clk_is_ptp := True, app_register_memory := False, header_data_split := False, app_memory_alloc := False,
     enable_statistics_reader := False, statistics_reader_core := INVALID_CORE_NUMBER, stats_report_interval_ms := 1000,
     dynamic_video_file_load := False\<rparr>"

section \<open>The format tables\<close>

fun COLOR_DEPTH_TO_PIXEL_RATIO :: "VideoSampling \<Rightarrow> (ColorBitDepth \<rightharpoonup> nat \<times> nat) option" where
  "COLOR_DEPTH_TO_PIXEL_RATIO RGB = Some [Depth_8 \<mapsto> (3, 1), Depth_10 \<mapsto> (15, 4), Depth_12 \<mapsto> (9, 2)]"
| "COLOR_DEPTH_TO_PIXEL_RATIO YCbCr_4_4_4 = Some [Depth_8 \<mapsto> (3, 1), Depth_10 \<mapsto> (15, 4), Depth_12 \<mapsto> (9, 2)]"
| "COLOR_DEPTH_TO_PIXEL_RATIO YCbCr_4_2_2 = Some [Depth_8 \<mapsto> (4, 2), Depth_10 \<mapsto> (5, 2), Depth_12 \<mapsto> (6, 2)]"
| "COLOR_DEPTH_TO_PIXEL_RATIO YCbCr_4_2_0 = Some [Depth_8 \<mapsto> (6, 4), Depth_10 \<mapsto> (15, 8), Depth_12 \<mapsto> (9, 4)]"
| "COLOR_DEPTH_TO_PIXEL_RATIO _ = None"

fun COLOR_DEPTH_TO_PAYLOAD_SIZE :: "VideoSampling \<Rightarrow> (ColorBitDepth \<rightharpoonup> nat) option" where
  "COLOR_DEPTH_TO_PAYLOAD_SIZE RGB = Some [Depth_8 \<mapsto> 1440 + 20, Depth_10 \<mapsto> 1440 + 20, Depth_12 \<mapsto> 1440 + 20]"
| "COLOR_DEPTH_TO_PAYLOAD_SIZE YCbCr_4_4_4 = Some [Depth_8 \<mapsto> 1440 + 20, Depth_10 \<mapsto> 1440 + 20, Depth_12 \<mapsto> 1440 + 20]"
| "COLOR_DEPTH_TO_PAYLOAD_SIZE YCbCr_4_2_2 = Some [Depth_8 \<mapsto> 1280 + 20, Depth_10 \<mapsto> 1200 + 20, Depth_12 \<mapsto> 1080 + 20]"
| "COLOR_DEPTH_TO_PAYLOAD_SIZE YCbCr_4_2_0 = Some [Depth_8 \<mapsto> 1440 + 20, Depth_10 \<mapsto> 1200 + 20, Depth_12 \<mapsto> 1080 + 20]"
| "COLOR_DEPTH_TO_PAYLOAD_SIZE _ = None"

definition is_bit_depth_supported :: "VideoSampling \<Rightarrow> ColorBitDepth \<Rightarrow> bool" where
  "is_bit_depth_supported sampling depth =
    (case COLOR_DEPTH_TO_PIXEL_RATIO sampling of None \<Rightarrow> False | Some m \<Rightarrow> m depth \<noteq> None)"

definition table_at :: "('a \<rightharpoonup> 'b) option \<Rightarrow> 'a \<Rightarrow> 'b" where
  "table_at t k = the (the t k)"

section \<open>The frame geometry\<close>

text \<open>Lines 104 to 130: the frame size, the payload of a packet and the packets of a frame.\<close>

definition init_frame_geometry :: "AppSettings \<Rightarrow> nat \<Rightarrow> nat \<Rightarrow> AppSettings option" where
  "init_frame_geometry s bytes pixels =
    (let m = media s;
         w = unat (width (resolution m)); h = unat (height (resolution m));
         payload = the (the (COLOR_DEPTH_TO_PAYLOAD_SIZE (sampling_type m)) (bit_depth m));
         raw = payload - RTP_ST_2110_20_SINGLE_SRD_HEADER_SIZE;
         bytes_per_pixel = flt (of_nat bytes / of_nat pixels)
     in if 2 ^ 31 \<le> w * h \<or> h = 0 then None
        else
          (case to_unsigned 32 (dbl (of_nat (w * h) * dbl (of_nat bytes / of_nat pixels))) of
             None \<Rightarrow> None
           | Some frame_bytes \<Rightarrow>
             (case to_unsigned 16 (flt (flt (of_nat raw) / bytes_per_pixel)) of
                None \<Rightarrow> None
              | Some pixels_packet \<Rightarrow>
                Some (s\<lparr>packet_payload_size :=
                          (if header_data_split s
                           then word_of_nat payload - word_of_nat RTP_ST_2110_20_SINGLE_SRD_HEADER_SIZE
                           else word_of_nat payload),
                        packet_app_header_size :=
                          (if header_data_split s
                           then word_of_nat RTP_ST_2110_20_SINGLE_SRD_HEADER_SIZE
                           else packet_app_header_size s),
                        media := m\<lparr>
                          bytes_per_frame := word_of_nat frame_bytes,
                          protocol_header_size := word_of_nat RTP_ST_2110_20_SINGLE_SRD_HEADER_SIZE,
                          raw_packet_payload_size := word_of_nat raw,
                          pixels_per_packet := word_of_nat pixels_packet,
                          packets_in_frame_field := word_of_nat (frame_bytes div raw),
                          packets_in_line := word_of_nat (frame_bytes div raw) div word_of_nat h\<rparr>\<rparr>))))"

text \<open>Lines 132 to 148: the chunk size asked for is kept when it divides the packets of the frame.\<close>

definition init_chunk_size :: "AppSettings \<Rightarrow> AppSettings option" where
  "init_chunk_size s =
    (let m = media s
     in if num_of_packets_in_chunk_specified s \<and> num_of_packets_in_chunk s = 0 then None
        else if num_of_packets_in_chunk_specified s \<and>
                ucast (packets_in_frame_field m) mod num_of_packets_in_chunk s = 0
        then Some s
        else Some (s\<lparr>num_of_packets_in_chunk := 4 * packets_in_line m\<rparr>))"

text \<open>Lines 150 to 162: the frame interval, the RTP ticks of a frame, and the halving of interlaced
  video.\<close>

definition init_frame_times :: "AppSettings \<Rightarrow> AppSettings option" where
  "init_frame_times s =
    (let m = media s;
         n = of_nat (unat (num (frame_rate m))); d = of_nat (unat (denom (frame_rate m)))
     in if num (frame_rate m) = 0 \<or> denom (frame_rate m) = 0 then None
        else
          let m1 = m\<lparr>frame_field_time_interval_ns := dbl (dbl (of_nat NS_IN_SEC / n) / d),
                      lines_in_frame_field := ucast (height (resolution m)),
                      ticks_per_frame := dbl (dbl (of_nat (unat (sample_rate m))) / dbl (n / d))\<rparr>;
              m2 = (if video_scan_type m1 = Interlaced
                    then m1\<lparr>packets_in_frame_field := packets_in_frame_field m1 div 2,
                            lines_in_frame_field := lines_in_frame_field m1 div 2,
                            frame_field_time_interval_ns := dbl (frame_field_time_interval_ns m1 / 2),
                            ticks_per_frame := dbl (ticks_per_frame m1 / 2)\<rparr>
                    else m1)
          in Some (s\<lparr>media := m2\<rparr>))"

text \<open>Lines 164 to 167: the chunks of a frame and of the memory block.\<close>

definition init_block_layout :: "AppSettings \<Rightarrow> AppSettings option" where
  "init_block_layout s =
    (let m = media s
     in if num_of_packets_in_chunk s = 0 then None
        else
          (case to_unsigned 64 (of_int (ceiling
                  (dbl (of_nat (unat (packets_in_frame_field m)) /
                        dbl (of_nat (unat (num_of_packets_in_chunk s))))))) of
             None \<Rightarrow> None
           | Some chunks \<Rightarrow>
               let in_block = frames_fields_in_mem_block m * word_of_nat chunks
               in Some (s\<lparr>media := m\<lparr>chunks_in_frame_field := word_of_nat chunks\<rparr>,
                          num_of_chunks_in_mem_block := in_block,
                          num_of_packets_in_mem_block := in_block * num_of_packets_in_chunk s\<rparr>)))"

definition initialize_common_media_settings :: "AppSettings \<Rightarrow> (ReturnStatus \<times> AppSettings) option" where
  "initialize_common_media_settings settings =
    (let s = settings\<lparr>num_of_total_flows := ucast (num_of_total_streams settings),
                      num_of_memory_blocks := 1\<rparr>
     in if is_bit_depth_supported (sampling_type (media s)) (bit_depth (media s))
        then
          (let (bytes, pixels) = table_at (COLOR_DEPTH_TO_PIXEL_RATIO (sampling_type (media s)))
                                          (bit_depth (media s))
           in map_option (\<lambda>s. (success, s))
                (Option.bind (init_frame_geometry s bytes pixels)
                  (\<lambda>s. Option.bind (init_chunk_size s)
                  (\<lambda>s. Option.bind (init_frame_times s) init_block_layout))))
        else if 2 ^ 31 \<le> unat (width (resolution (media s))) * unat (height (resolution (media s)))
        then None
        else Some (failure, s))"

section \<open>The floating point steps are exact\<close>

lemma frame_bytes_exact:
  assumes "n * bytes < 2 ^ 53" and "bytes < 2 ^ 53" and "n * bytes div 2 ^ j < 2 ^ 32"
  shows "to_unsigned 32 (dbl (of_nat n * dbl (of_nat bytes / of_nat (2 ^ j)))) = Some (n * bytes div 2 ^ j)"
proof -
  have "dbl (of_nat bytes / of_nat (2 ^ j)) = of_nat bytes / of_nat (2 ^ j)"
    using dyadic_representable[OF assms(2), of j] by (simp add: round_prec_exact)
  moreover have "dbl (of_nat (n * bytes) / of_nat (2 ^ j)) = of_nat (n * bytes) / of_nat (2 ^ j)"
    using dyadic_representable[OF assms(1), of j] by (simp add: round_prec_exact)
  ultimately show ?thesis
    using to_unsigned_div[OF assms(3)] by simp
qed


lemma pixels_packet_exact:
  assumes "r < 2 ^ 24" and "b < 2 ^ 24" and "0 < b" and "r * 2 ^ j = k * b" and "k < 2 ^ 16"
  shows "to_unsigned 16 (flt (flt (of_nat r) / flt (of_nat b / of_nat (2 ^ j)))) = Some k"
proof -
  have "flt (of_nat b / of_nat (2 ^ j)) = of_nat b / of_nat (2 ^ j)"
    using dyadic_representable[OF assms(2), of j] by (simp add: round_prec_exact)
  moreover have "(of_nat r :: rat) / (of_nat b / of_nat (2 ^ j)) = of_nat k"
  proof -
    have "(of_nat (r * 2 ^ j) :: rat) = of_nat (k * b)" using assms(4) by (simp only:)
    then show ?thesis using assms(3) by (simp add: field_simps)
  qed
  moreover have "flt (of_nat k) = of_nat k" using assms(5) by (intro round_prec_nat) simp
  ultimately show ?thesis
    using to_unsigned_div[of k 1 16] assms(1,5) by (simp add: round_prec_nat)
qed

lemma geometry_step:
  assumes tab: "COLOR_DEPTH_TO_PAYLOAD_SIZE (sampling_type (media s)) = Some f" "f (bit_depth (media s)) = Some (raw + 20)"
    and wh: "unat (width (resolution (media s))) = w" "unat (height (resolution (media s))) = h"
    and h: "0 < h" and wh31: "w * h < 2 ^ 31" and b: "0 < bytes" "bytes < 16" and raw: "raw < 2 ^ 16"
    and frame: "w * h * bytes = raw * pk * 2 ^ j"
    and line: "raw * 2 ^ j = k * bytes" and k: "k < 2 ^ 16" and fit: "raw * pk < 2 ^ 32" and r0: "0 < raw"
  shows "init_frame_geometry s bytes (2 ^ j) = Some (s\<lparr>packet_payload_size :=
                          (if header_data_split s then word_of_nat raw else word_of_nat (raw + 20)),
                        packet_app_header_size :=
                          (if header_data_split s then 20 else packet_app_header_size s),
                        media := (media s)\<lparr>
                          bytes_per_frame := word_of_nat (raw * pk),
                          protocol_header_size := 20,
                          raw_packet_payload_size := word_of_nat raw,
                          pixels_per_packet := word_of_nat k,
                          packets_in_frame_field := word_of_nat pk,
                          packets_in_line := word_of_nat (pk div h)\<rparr>\<rparr>)"
proof -
  have "w * h * bytes < 2 ^ 31 * 16"
    using wh31 b by (intro mult_strict_mono) auto
  then have e53: "w * h * bytes < 2 ^ 53" by simp
  have fb: "w * h * bytes div 2 ^ j = raw * pk" by (simp only: frame) simp
  have g1: "to_unsigned 32 (dbl (of_nat (w * h) * dbl (of_nat bytes / of_nat (2 ^ j)))) = Some (raw * pk)"
    using frame_bytes_exact[OF e53, of j] b fit unfolding fb by simp
  have g2: "to_unsigned 16 (flt (flt (of_nat raw) / flt (of_nat bytes / of_nat (2 ^ j)))) = Some k"
    by (rule pixels_packet_exact) (use raw b line k in auto)
  have "1 * pk \<le> raw * pk" using r0 by (intro mult_right_mono) auto
  then have "pk \<le> raw * pk" by (simp only: mult_1)
  then have "pk < 2 ^ 32" using fit by (rule le_less_trans)
  moreover have "h < 2 ^ 32" using wh(2) unat_u16_bound[of "height (resolution (media s))"] by simp
  ultimately have q: "(word_of_nat pk :: u64) div word_of_nat h = word_of_nat (pk div h)"
    by (intro word_of_nat_div) simp_all
  show ?thesis
    using tab wh h wh31 g1 g2 r0 q
    by (simp add: init_frame_geometry_def media_constants)
qed

text \<open>Per sampling and depth: the bytes and (the binary logarithm of) the pixels of a pixel group, the payload of a
  packet, its pixels, and for 1920 by 1080 the packets of a line and an eighth of the lines they fill.\<close>

definition format_rows :: "(nat \<times> nat \<times> nat \<times> nat \<times> nat \<times> nat) list" where
  "format_rows = [(3, 0, 1440, 480, 4, 135), (15, 2, 1440, 384, 5, 135), (9, 1, 1440, 320, 6, 135), (4, 1, 1280, 640, 3, 135),
     (5, 1, 1200, 480, 4, 135), (6, 1, 1080, 360, 5, 144), (6, 2, 1440, 960, 2, 135), (15, 3, 1200, 640, 3, 135),
     (9, 2, 1080, 480, 4, 135)]"

lemma supported_format_row:
  assumes "samp \<in> set SUPPORTED_VIDEO_SAMPLING_TYPES" and "dep \<in> set SUPPORTED_VIDEO_BIT_DEPTHS"
  shows "\<exists>bytes j raw k p r f. (bytes, j, raw, k, p, r) \<in> set format_rows \<and> is_bit_depth_supported samp dep
    \<and> table_at (COLOR_DEPTH_TO_PIXEL_RATIO samp) dep = (bytes, 2 ^ j)
    \<and> COLOR_DEPTH_TO_PAYLOAD_SIZE samp = Some f \<and> f dep = Some (raw + 20)
    \<and> (r \<noteq> 135) = (samp = YCbCr_4_2_2 \<and> dep = Depth_12)"
  using assms
  by (auto simp: SUPPORTED_VIDEO_SAMPLING_TYPES_def SUPPORTED_VIDEO_BIT_DEPTHS_def format_rows_def table_at_def
      is_bit_depth_supported_def intro: exI[of _ 0] exI[of _ 1] exI[of _ 2] exI[of _ 3])

lemma format_row_values:
  assumes "(bytes, j, raw, k, p, r) \<in> set format_rows" "n = 1 \<or> n = 2"
  shows "0 < bytes \<and> bytes < 16 \<and> 0 < raw \<and> raw < 2 ^ 12 \<and> 0 < k \<and> k < 2 ^ 12 \<and> 0 < p * n \<and> p * n < 2 ^ 12 \<and> 0 < r * n
      \<and> 8 * (r * n) < 2 ^ 12"
    and "1920 * n * (8 * (135 * n)) * bytes = raw * (p * n * (8 * (r * n))) * 2 ^ j" "raw * 2 ^ j = k * bytes"
    and "raw * (p * n * (8 * (r * n))) < 2 ^ 26" "p * n * (8 * (r * n)) div (8 * (135 * n)) = p * n"
    and "if r = 135 then p * n * k = 1920 * n else 16 * (p * n * k) = 15 * (1920 * n)"
  using assms by (auto simp: format_rows_def)

lemma supported_format_parameters:
  assumes "samp \<in> set SUPPORTED_VIDEO_SAMPLING_TYPES" and "dep \<in> set SUPPORTED_VIDEO_BIT_DEPTHS"
    and "res \<in> set SUPPORTED_VIDEO_RESOLUTIONS"
  obtains bytes j raw ppl k w h r f where
    "is_bit_depth_supported samp dep"
    "table_at (COLOR_DEPTH_TO_PIXEL_RATIO samp) dep = (bytes, 2 ^ j)"
    "COLOR_DEPTH_TO_PAYLOAD_SIZE samp = Some f" "f dep = Some (raw + 20)"
    "unat (width res) = w" "unat (height res) = 8 * h" "0 < h" "8 * h < 2 ^ 12" "w < 2 ^ 12"
    "0 < bytes" "bytes < 16" "0 < raw" "raw < 2 ^ 12" "0 < k" "k < 2 ^ 12" "0 < ppl" "ppl < 2 ^ 12" "0 < r" "8 * r < 2 ^ 12"
    "w * (8 * h) * bytes = raw * (ppl * (8 * r)) * 2 ^ j" "raw * 2 ^ j = k * bytes"
    "raw * (ppl * (8 * r)) < 2 ^ 26" "ppl * (8 * r) div (8 * h) = ppl"
    "if samp = YCbCr_4_2_2 \<and> dep = Depth_12 then 16 * (ppl * k) = 15 * w else ppl * k = w \<and> r = h"
proof -
  obtain bytes j raw k p r f where row: "(bytes, j, raw, k, p, r) \<in> set format_rows" "is_bit_depth_supported samp dep"
    "table_at (COLOR_DEPTH_TO_PIXEL_RATIO samp) dep = (bytes, 2 ^ j)"
    "COLOR_DEPTH_TO_PAYLOAD_SIZE samp = Some f" "f dep = Some (raw + 20)"
    "(r \<noteq> 135) = (samp = YCbCr_4_2_2 \<and> dep = Depth_12)"
    using supported_format_row[OF assms(1,2)] by blast
  obtain n where n: "n = 1 \<or> n = (2 :: nat)" "unat (width res) = 1920 * n" "unat (height res) = 8 * (135 * n)"
  proof (cases "res = \<lparr>width = 1920, height = 1080\<rparr>")
    case True
    then show ?thesis by (intro that[of 1]) simp_all
  next
    case False
    then show ?thesis using assms(3) by (intro that[of 2]) (auto simp: SUPPORTED_VIDEO_RESOLUTIONS_def)
  qed
  note v = format_row_values[OF row(1) n(1)]
  show thesis
    by (rule that[of bytes j f raw "1920 * n" "135 * n" k "p * n" "r * n", OF row(2-5) n(2,3)])
      (use v row(6) n(1) in \<open>auto simp: mult.commute[of k p]\<close>)
qed

lemma rounded_up_multiple:
  fixes c p :: nat
  assumes "0 < c"
  shows "p \<le> (p + c - 1) div c * c" "(p + c - 1) div c * c < p + c" "(p + c - 1) div c < p + c"
    "c dvd p \<Longrightarrow> (p + c - 1) div c * c = p"
proof -
  let ?m = "(p + c - 1) div c"
  have split: "?m * c + (p + c - 1) mod c = p + c - 1" "(p + c - 1) mod c < c" using assms by simp_all
  then show b: "p \<le> ?m * c" "?m * c < p + c" using assms by linarith+
  have "?m \<le> ?m * c" using assms by simp
  then show "?m < p + c" using b(2) by linarith
  assume "c dvd p"
  then obtain d where d: "p = d * c" by (metis dvd_div_mult_self)
  then have "?m < d + 1" using b(2) by (metis add_mult_distrib mult_1 mult_less_cancel2)
  then show "?m * c = p" using b(1) d by (metis Suc_eq_plus1 le_antisym less_Suc_eq_le mult_le_mono1)
qed

text \<open>The settings of a supported format.\<close>

lemma supported_format_settings:
  assumes fmt: "sampling_type (media s) \<in> set SUPPORTED_VIDEO_SAMPLING_TYPES"
      "bit_depth (media s) \<in> set SUPPORTED_VIDEO_BIT_DEPTHS"
      "resolution (media s) \<in> set SUPPORTED_VIDEO_RESOLUTIONS"
    and fr: "num (frame_rate (media s)) \<noteq> 0" "denom (frame_rate (media s)) \<noteq> 0"
    and chunk: "num_of_packets_in_chunk_specified s \<longrightarrow> num_of_packets_in_chunk s \<noteq> 0"
  shows "\<exists>s' fields bytes pixels. initialize_common_media_settings s = Some (success, s')
    \<and> fields = (if video_scan_type (media s) = Interlaced then 2 else 1)
    \<and> table_at (COLOR_DEPTH_TO_PIXEL_RATIO (sampling_type (media s))) (bit_depth (media s)) = (bytes, pixels)
    \<and> unat (raw_packet_payload_size (media s')) + 20
        = table_at (COLOR_DEPTH_TO_PAYLOAD_SIZE (sampling_type (media s))) (bit_depth (media s))
    \<and> unat (bytes_per_frame (media s')) * pixels
        = unat (width (resolution (media s))) * unat (height (resolution (media s))) * bytes
    \<and> unat (pixels_per_packet (media s')) * bytes = unat (raw_packet_payload_size (media s')) * pixels
    \<and> unat (packets_in_frame_field (media s')) * fields * unat (raw_packet_payload_size (media s'))
        = unat (bytes_per_frame (media s'))
    \<and> unat (lines_in_frame_field (media s')) * fields = unat (height (resolution (media s)))
    \<and> (if sampling_type (media s) = YCbCr_4_2_2 \<and> bit_depth (media s) = Depth_12
       then 16 * (unat (packets_in_line (media s')) * unat (pixels_per_packet (media s')))
          = 15 * unat (width (resolution (media s)))
       else unat (packets_in_line (media s')) * unat (pixels_per_packet (media s')) = unat (width (resolution (media s)))
        \<and> unat (packets_in_line (media s')) * unat (lines_in_frame_field (media s')) = unat (packets_in_frame_field (media s')))
    \<and> unat (num_of_packets_in_chunk s')
        = (if num_of_packets_in_chunk_specified s
              \<and> unat (packets_in_frame_field (media s')) * fields mod unat (num_of_packets_in_chunk s) = 0
           then unat (num_of_packets_in_chunk s) else 4 * unat (packets_in_line (media s')))
    \<and> unat (packets_in_frame_field (media s')) \<le> unat (chunks_in_frame_field (media s')) * unat (num_of_packets_in_chunk s')
    \<and> unat (chunks_in_frame_field (media s')) * unat (num_of_packets_in_chunk s')
        < unat (packets_in_frame_field (media s')) + unat (num_of_packets_in_chunk s')
    \<and> (fields = 1 \<or> \<not> num_of_packets_in_chunk_specified s \<longrightarrow>
        unat (chunks_in_frame_field (media s')) * unat (num_of_packets_in_chunk s') = unat (packets_in_frame_field (media s')))
    \<and> unat (raw_packet_payload_size (media s')) < 2 ^ 12 \<and> 0 < unat (raw_packet_payload_size (media s'))
    \<and> unat (packets_in_frame_field (media s')) < 2 ^ 24 \<and> unat (num_of_packets_in_chunk s') < 2 ^ 24
    \<and> unat (packet_payload_size s') = unat (raw_packet_payload_size (media s')) + (if header_data_split s then 0 else 20)
    \<and> packet_app_header_size s' = (if header_data_split s then 20 else packet_app_header_size s)
    \<and> protocol_header_size (media s') = 20 \<and> frames_fields_in_mem_block (media s') = frames_fields_in_mem_block (media s)
    \<and> num_of_chunks_in_mem_block s' = frames_fields_in_mem_block (media s) * chunks_in_frame_field (media s')
    \<and> app_gpu_id s' = app_gpu_id s \<and> unat (bytes_per_frame (media s')) < 2 ^ 26
    \<and> 0 < unat (packets_in_frame_field (media s')) \<and> resolution (media s') = resolution (media s)"
proof -
  obtain bytes j raw ppl k w h r f where p:
    "is_bit_depth_supported (sampling_type (media s)) (bit_depth (media s))"
    "table_at (COLOR_DEPTH_TO_PIXEL_RATIO (sampling_type (media s))) (bit_depth (media s)) = (bytes, 2 ^ j)"
    "COLOR_DEPTH_TO_PAYLOAD_SIZE (sampling_type (media s)) = Some f" "f (bit_depth (media s)) = Some (raw + 20)"
    "unat (width (resolution (media s))) = w" "unat (height (resolution (media s))) = 8 * h"
    "0 < h" "8 * h < 2 ^ 12" "w < 2 ^ 12"
    "0 < bytes" "bytes < 16" "0 < raw" "raw < 2 ^ 12" "0 < k" "k < 2 ^ 12" "0 < ppl" "ppl < 2 ^ 12" "0 < r" "8 * r < 2 ^ 12"
    "w * (8 * h) * bytes = raw * (ppl * (8 * r)) * 2 ^ j" "raw * 2 ^ j = k * bytes"
    "raw * (ppl * (8 * r)) < 2 ^ 26" "ppl * (8 * r) div (8 * h) = ppl"
    "if sampling_type (media s) = YCbCr_4_2_2 \<and> bit_depth (media s) = Depth_12 then 16 * (ppl * k) = 15 * w else ppl * k = w \<and> r = h"
    by (rule supported_format_parameters[OF fmt])
  define s0 where "s0 = s\<lparr>num_of_total_flows := ucast (num_of_total_streams s), num_of_memory_blocks := 1\<rparr>"
  define pk where "pk = ppl * (8 * r)"
  have w24: "w * (8 * h) < 2 ^ 31"
    using mult_strict_mono[OF p(9) p(8)] p(7) by simp
  have pk: "0 < pk" "pk < 2 ^ 24" "pk div (8 * h) = ppl"
    using mult_strict_mono[OF p(17) p(19)] p(16,18,23) by (simp_all add: pk_def)
  define s1 where "s1 = s0\<lparr>packet_payload_size :=
                          (if header_data_split s0 then word_of_nat raw else word_of_nat (raw + 20)),
                        packet_app_header_size :=
                          (if header_data_split s0 then 20 else packet_app_header_size s0),
                        media := (media s0)\<lparr>
                          bytes_per_frame := word_of_nat (raw * pk),
                          protocol_header_size := 20,
                          raw_packet_payload_size := word_of_nat raw,
                          pixels_per_packet := word_of_nat k,
                          packets_in_frame_field := word_of_nat pk,
                          packets_in_line := word_of_nat ppl\<rparr>\<rparr>"
  have g: "init_frame_geometry s0 bytes (2 ^ j) = Some s1"
    unfolding s1_def
    using geometry_step[of s0 f raw w "8 * h" bytes pk j k] p w24 pk(3)
    by (simp add: s0_def pk_def)
  have upk: "unat (word_of_nat pk :: u32) = pk" using pk(2) by (intro unat_word_of_nat) simp
  define c where "c = (if num_of_packets_in_chunk_specified s \<and> pk mod unat (num_of_packets_in_chunk s) = 0
    then unat (num_of_packets_in_chunk s) else 4 * ppl)"
  have dvd_pk: "c dvd pk" by (auto simp: c_def pk_def)
  then have c: "0 < c" "c < 2 ^ 24"
    using pk(1,2) dvd_imp_le[OF dvd_pk] by (auto intro: Nat.gr0I)
  define s2 where "s2 = s1\<lparr>num_of_packets_in_chunk := word_of_nat c\<rparr>"
  have "init_chunk_size s1 = Some s2"
  proof (cases "num_of_packets_in_chunk_specified s")
    case True
    have "((ucast (word_of_nat pk :: u32) :: u64) mod num_of_packets_in_chunk s = 0) = (pk mod unat (num_of_packets_in_chunk s) = 0)"
      using upk by (simp add: unat_eq_zero[symmetric] unat_mod_word unat_ucast_up del: unat_eq_zero)
    then show ?thesis
      using True chunk by (auto simp: init_chunk_size_def s2_def s1_def s0_def c_def)
  qed (simp add: init_chunk_size_def s2_def s1_def s0_def c_def)
  note chunk_size = this
  define fields :: nat where "fields = (if video_scan_type (media s) = Interlaced then 2 else 1)"
  define q where "q = (if video_scan_type (media s) = Interlaced then r else 2 * r)"
  define lines where "lines = (if video_scan_type (media s) = Interlaced then 4 * h else 8 * h)"
  have q: "q < 2 ^ 12" "0 < q" "lines < 2 ^ 12" "4 * ppl * q * fields = pk" "lines * fields = 8 * h" "4 * ppl * q \<le> pk"
    using p(8,18,19) by (auto simp: q_def lines_def fields_def pk_def)
  obtain s3 where t: "init_frame_times s2 = Some s3"
    and s3: "packets_in_frame_field (media s3) = word_of_nat (4 * ppl * q)"
      "lines_in_frame_field (media s3) = word_of_nat lines"
      "num_of_packets_in_chunk s3 = word_of_nat c"
      "packets_in_line (media s3) = word_of_nat ppl"
      "pixels_per_packet (media s3) = word_of_nat k"
      "raw_packet_payload_size (media s3) = word_of_nat raw"
      "bytes_per_frame (media s3) = word_of_nat (raw * pk)"
      "resolution (media s3) = resolution (media s)" "packet_payload_size s3 = packet_payload_size s1"
      "packet_app_header_size s3 = packet_app_header_size s1" "protocol_header_size (media s3) = 20"
      "frames_fields_in_mem_block (media s3) = frames_fields_in_mem_block (media s)" "app_gpu_id s3 = app_gpu_id s"
  proof -
    have hw: "(ucast (height (resolution (media s))) :: u64) = word_of_nat (8 * h)"
      using p(6) by (simp add: ucast_eq_word_of_nat)
    have d1: "(word_of_nat pk :: u32) div 2 = word_of_nat (4 * ppl * r)"
      using word_of_nat_div[of pk 2, where 'a=32] pk(2) by (simp add: pk_def mult_ac del: of_nat_mult)
    have d2: "(word_of_nat (8 * h) :: u64) div 2 = word_of_nat (4 * h)"
      using word_of_nat_div[of "8 * h" 2, where 'a=64] p(8) by (simp add: mult_ac del: of_nat_mult)
    show ?thesis
    proof (cases "video_scan_type (media s) = Interlaced")
      case True
      show ?thesis
        by (rule that[of "the (init_frame_times s2)"])
           (use True fr hw d1 d2 in \<open>simp_all add: init_frame_times_def Let_def s2_def s1_def s0_def q_def lines_def
              del: of_nat_mult\<close>)
    next
      case False
      have "pk = 4 * ppl * q" using False by (simp add: pk_def q_def)
      then show ?thesis
        by (intro that[of "the (init_frame_times s2)"])
           (use False fr hw in \<open>simp_all add: init_frame_times_def Let_def s2_def s1_def s0_def lines_def
              del: of_nat_mult\<close>)
    qed
  qed
  define chunks where "chunks = (4 * ppl * q + c - 1) div c"
  have pb: "4 * ppl * q < 2 ^ 24" using q(6) pk(2) by linarith
  have ch: "4 * ppl * q \<le> chunks * c" "chunks * c < 4 * ppl * q + c" "chunks < 2 ^ 25"
    using rounded_up_multiple[OF c(1), of "4 * ppl * q"] pb c by (simp_all add: chunks_def)
  have ceil: "ceiling (dbl (of_nat (4 * ppl * q) / of_nat c)) = int chunks"
    using ceiling_dbl_div[of "4 * ppl * q" c] pb c(1) by (simp add: chunks_def)
  have dc: "dbl (of_nat c) = of_nat c" using c(2) by (intro round_prec_nat) simp
  have cn: "unat (num_of_packets_in_chunk s3) = c"
    unfolding s3 using c(2) by (intro unat_word_of_nat) simp
  have pn: "unat (packets_in_frame_field (media s3)) = 4 * ppl * q"
    unfolding s3 using pb by (intro unat_word_of_nat) simp
  have u: "to_unsigned 64 (of_int (int chunks)) = Some chunks"
    using to_unsigned_div[of chunks 1 64] ch(3) by simp
  have cnz: "num_of_packets_in_chunk s3 \<noteq> 0" using cn c(1) by auto
  define s4 where "s4 = s3\<lparr>media := media s3\<lparr>chunks_in_frame_field := word_of_nat chunks\<rparr>,
                          num_of_chunks_in_mem_block := frames_fields_in_mem_block (media s3) * word_of_nat chunks,
                          num_of_packets_in_mem_block := frames_fields_in_mem_block (media s3) * word_of_nat chunks * num_of_packets_in_chunk s3\<rparr>"
  have b: "init_block_layout s3 = Some s4"
    using cnz unfolding init_block_layout_def Let_def cn pn dc ceil u by (simp add: s4_def)
  have init: "initialize_common_media_settings s = Some (success, s4)"
    using p(1,2) g chunk_size t b by (simp add: initialize_common_media_settings_def s0_def)
  have us: "unat (packets_in_line (media s4)) = ppl" "unat (pixels_per_packet (media s4)) = k"
     "unat (raw_packet_payload_size (media s4)) = raw" "unat (lines_in_frame_field (media s4)) = lines"
     "unat (bytes_per_frame (media s4)) = raw * pk" "unat (packets_in_frame_field (media s4)) = 4 * ppl * q"
     "unat (num_of_packets_in_chunk s4) = c" "unat (chunks_in_frame_field (media s4)) = chunks"
    using p(13,15,17,22) q(3) pb c(2) ch(3) unfolding s4_def
    by (simp_all add: s3 unat_word_of_nat pk_def del: of_nat_mult)
  have whole: "chunks * c = 4 * ppl * q" if "fields = 1 \<or> \<not> num_of_packets_in_chunk_specified s"
  proof -
    have "c dvd 4 * ppl * q" using that dvd_pk q(4) by (auto simp: c_def)
    then show ?thesis using rounded_up_multiple(4)[OF c(1)] by (simp add: chunks_def)
  qed
  have rest: "unat (packet_payload_size s4) = raw + (if header_data_split s then 0 else 20)"
    "packet_app_header_size s4 = (if header_data_split s then 20 else packet_app_header_size s)"
    "protocol_header_size (media s4) = 20" "frames_fields_in_mem_block (media s4) = frames_fields_in_mem_block (media s)"
    "num_of_chunks_in_mem_block s4 = frames_fields_in_mem_block (media s) * chunks_in_frame_field (media s4)"
    "app_gpu_id s4 = app_gpu_id s" "resolution (media s4) = resolution (media s)"
    using p(13) by (simp_all add: s4_def s3(8-13) s1_def s0_def unat_word_of_nat del: of_nat_add)
  have frame: "raw * pk * 2 ^ j = w * (8 * h) * bytes" "k * bytes = raw * 2 ^ j"
    using p(20,21) by (simp_all add: pk_def)
  have packets: "4 * ppl * q * fields * raw = raw * pk" by (subst q(4)) (rule mult.commute)
  have line: "if sampling_type (media s) = YCbCr_4_2_2 \<and> bit_depth (media s) = Depth_12 then 16 * (ppl * k) = 15 * w
    else ppl * k = w \<and> ppl * lines = 4 * ppl * q"
    using p(24) by (auto simp: lines_def q_def)
  have size: "num_of_packets_in_chunk_specified s \<and> 4 * ppl * q * fields mod unat (num_of_packets_in_chunk s) = 0
      \<longrightarrow> c = unat (num_of_packets_in_chunk s)"
    "(num_of_packets_in_chunk_specified s \<longrightarrow> 0 < 4 * ppl * q * fields mod unat (num_of_packets_in_chunk s)) \<longrightarrow> c = 4 * ppl"
    unfolding q(4) by (auto simp: c_def)
  show ?thesis
    by (rule exI[of _ s4], rule exI[of _ fields], rule exI[of _ bytes], rule exI[of _ "2 ^ j"])
       (use init p(2,3,4,5,6,12,13,22) pb c ch(1,2) whole q(2,5) frame packets line in
         \<open>simp add: us rest size fields_def[symmetric] table_at_def p(16) pk_def\<close>)
qed

text \<open>C19: for every sampling, depth and resolution the applications accept, any frame rate with
  non-zero terms and any chunk size asked for, the settings initialise successfully and follow from the tables: a frame
  has the bytes of its width times its height at the bytes per pixel of the format, a packet carries the table's payload
  and the pixels that fill it exactly, and the packets of the frame (both fields when interlaced) carry exactly its
  bytes.  A chunk has the size asked for when that divides the packets of a frame and four lines otherwise; the chunks of
  a field hold its packets with less than one chunk to spare, and none to spare for progressive video or the default
  size.  The packets of a line carry exactly its pixels and the lines of a field its packets, except for 12-bit 4:2:2,
  where the packets counted per line carry 15 of every 16 pixels.\<close>

theorem supported_format_geometry:
  assumes fmt: "sampling_type (media s) \<in> set SUPPORTED_VIDEO_SAMPLING_TYPES"
      "bit_depth (media s) \<in> set SUPPORTED_VIDEO_BIT_DEPTHS"
      "resolution (media s) \<in> set SUPPORTED_VIDEO_RESOLUTIONS"
    and fr: "num (frame_rate (media s)) \<noteq> 0" "denom (frame_rate (media s)) \<noteq> 0"
    and chunk: "num_of_packets_in_chunk_specified s \<longrightarrow> num_of_packets_in_chunk s \<noteq> 0"
  shows "\<exists>s' fields bytes pixels. initialize_common_media_settings s = Some (success, s')
    \<and> fields = (if video_scan_type (media s) = Interlaced then 2 else 1)
    \<and> table_at (COLOR_DEPTH_TO_PIXEL_RATIO (sampling_type (media s))) (bit_depth (media s)) = (bytes, pixels)
    \<and> unat (raw_packet_payload_size (media s')) + 20
        = table_at (COLOR_DEPTH_TO_PAYLOAD_SIZE (sampling_type (media s))) (bit_depth (media s))
    \<and> unat (bytes_per_frame (media s')) * pixels
        = unat (width (resolution (media s))) * unat (height (resolution (media s))) * bytes
    \<and> unat (pixels_per_packet (media s')) * bytes = unat (raw_packet_payload_size (media s')) * pixels
    \<and> unat (packets_in_frame_field (media s')) * fields * unat (raw_packet_payload_size (media s'))
        = unat (bytes_per_frame (media s'))
    \<and> unat (lines_in_frame_field (media s')) * fields = unat (height (resolution (media s)))
    \<and> (if sampling_type (media s) = YCbCr_4_2_2 \<and> bit_depth (media s) = Depth_12
       then 16 * (unat (packets_in_line (media s')) * unat (pixels_per_packet (media s')))
          = 15 * unat (width (resolution (media s)))
       else unat (packets_in_line (media s')) * unat (pixels_per_packet (media s')) = unat (width (resolution (media s)))
        \<and> unat (packets_in_line (media s')) * unat (lines_in_frame_field (media s')) = unat (packets_in_frame_field (media s')))
    \<and> unat (num_of_packets_in_chunk s')
        = (if num_of_packets_in_chunk_specified s
              \<and> unat (packets_in_frame_field (media s')) * fields mod unat (num_of_packets_in_chunk s) = 0
           then unat (num_of_packets_in_chunk s) else 4 * unat (packets_in_line (media s')))
    \<and> unat (packets_in_frame_field (media s')) \<le> unat (chunks_in_frame_field (media s')) * unat (num_of_packets_in_chunk s')
    \<and> unat (chunks_in_frame_field (media s')) * unat (num_of_packets_in_chunk s')
        < unat (packets_in_frame_field (media s')) + unat (num_of_packets_in_chunk s')
    \<and> (fields = 1 \<or> \<not> num_of_packets_in_chunk_specified s \<longrightarrow>
        unat (chunks_in_frame_field (media s')) * unat (num_of_packets_in_chunk s') = unat (packets_in_frame_field (media s')))"
  using supported_format_settings[OF assms] by blast

definition example_settings :: AppSettings where
  "example_settings =
    AppSettings_new\<lparr>destination_port := 50000, num_of_threads := 1, num_of_total_streams := 1,
     num_of_total_flows := 1, internal_thread_core := CPU_NONE, num_of_chunks := 1, num_of_packets_in_chunk := 4096,
     packet_payload_size := 1460,
     media := MediaSettings_default\<lparr>resolution := \<lparr>width = 1920, height = 1080\<rparr>,
       frame_rate := \<lparr>num = 50, denom = 1\<rparr>, frames_fields_in_mem_block := 2\<rparr>\<rparr>"

text \<open>10-bit 4:2:2 at 1920 by 1080 in chunks of 45 packets, as asked for.\<close>

theorem supported_format_geometry_witness:
  "\<exists>s'. initialize_common_media_settings
        (example_settings\<lparr>num_of_packets_in_chunk_specified := True, num_of_packets_in_chunk := 45\<rparr>) = Some (success, s')
    \<and> unat (bytes_per_frame (media s')) = 5184000 \<and> unat (packets_in_frame_field (media s')) = 4320
    \<and> unat (raw_packet_payload_size (media s')) = 1200 \<and> unat (pixels_per_packet (media s')) = 480
    \<and> unat (num_of_packets_in_chunk s') = 45 \<and> unat (chunks_in_frame_field (media s')) = 96"
proof -
  let ?s = "example_settings\<lparr>num_of_packets_in_chunk_specified := True, num_of_packets_in_chunk := 45\<rparr>"
  note eval = example_settings_def AppSettings_new_def MediaSettings_default_def SUPPORTED_VIDEO_SAMPLING_TYPES_def
      SUPPORTED_VIDEO_BIT_DEPTHS_def SUPPORTED_VIDEO_RESOLUTIONS_def table_at_def
  obtain s' where s': "initialize_common_media_settings ?s = Some (success, s')"
    "unat (raw_packet_payload_size (media s')) = 1200" "unat (bytes_per_frame (media s')) * 2 = 1920 * 1080 * 5"
    "unat (pixels_per_packet (media s')) * 5 = unat (raw_packet_payload_size (media s')) * 2"
    "unat (packets_in_frame_field (media s')) * unat (raw_packet_payload_size (media s')) = unat (bytes_per_frame (media s'))"
    "unat (num_of_packets_in_chunk s') = (if unat (packets_in_frame_field (media s')) mod 45 = 0 then 45
      else 4 * unat (packets_in_line (media s')))"
    "unat (chunks_in_frame_field (media s')) * unat (num_of_packets_in_chunk s') = unat (packets_in_frame_field (media s'))"
    using supported_format_geometry[of ?s] by (auto simp: eval)
  have "unat (bytes_per_frame (media s')) = 5184000" using s'(3) by simp
  moreover from this have "unat (packets_in_frame_field (media s')) = 4320" using s'(2,5) by simp
  ultimately show ?thesis using s' by simp
qed

section \<open>Two departures from the intended arithmetic\<close>

text \<open>The 12-bit 4:2:2 payload of the table does not divide the 5760 bytes of a line: the 5 packets
  counted per line carry 1800 of its 1920 pixels.\<close>

lemma format_422_12bit_lines_not_whole:
  assumes "sampling_type (media s) = YCbCr_4_2_2" "bit_depth (media s) = Depth_12"
    and "resolution (media s) = \<lparr>width = 1920, height = 1080\<rparr>"
  shows "\<exists>s'. init_frame_geometry s 6 2 = Some s'
    \<and> unat (packets_in_frame_field (media s')) = 5760
    \<and> unat (packets_in_line (media s')) * unat (pixels_per_packet (media s')) = 1800"
proof -
  have "init_frame_geometry s 6 (2 ^ 1) = Some (s\<lparr>packet_payload_size :=
                          (if header_data_split s then word_of_nat 1080 else word_of_nat (1080 + 20)),
                        packet_app_header_size :=
                          (if header_data_split s then 20 else packet_app_header_size s),
                        media := (media s)\<lparr>
                          bytes_per_frame := word_of_nat (1080 * 5760),
                          protocol_header_size := 20,
                          raw_packet_payload_size := word_of_nat 1080,
                          pixels_per_packet := word_of_nat 360,
                          packets_in_frame_field := word_of_nat 5760,
                          packets_in_line := word_of_nat (5760 div 1080)\<rparr>\<rparr>)"
    by (rule geometry_step[where w = 1920 and h = 1080 and f = "the (COLOR_DEPTH_TO_PAYLOAD_SIZE YCbCr_4_2_2)"])
       (simp_all add: assms)
  then show ?thesis by simp
qed

text \<open>The frame interval divides by the denominator of the frame rate instead of multiplying: at
  60000/1001 frames per second it comes out below 17 ns.\<close>

lemma frame_interval_fractional_rate:
  assumes "frame_rate (media s) = \<lparr>num = 60000, denom = 1001\<rparr>" "video_scan_type (media s) = Progressive"
  shows "\<exists>s'. init_frame_times s = Some s' \<and> frame_field_time_interval_ns (media s') \<le> 17"
proof -
  have "dbl (1000000000 / 60000) \<le> of_nat 16667" by (rule round_prec_nat_bound) simp_all
  then have "dbl (dbl (1000000000 / 60000) / 1001) \<le> of_nat 17"
    by (intro round_prec_nat_bound) (simp_all add: round_prec_nonneg)
  then show ?thesis using assms by (simp add: init_frame_times_def Let_def NS_IN_SEC_def)
qed
end
