(* ===== verification/Rtp_Receive.thy ===== *)
theory Rtp_Receive
  imports Media_Defs
begin

text \<open>
  The RTP receiver of \<^verbatim>\<open>io_node/receivers/rtp_receiver_io_node.cpp\<close> on top of the receive loop of
  \<^verbatim>\<open>receiver_io_node_base.cpp\<close>: the statistics of a stream, the processing of the RTP headers of a
  chunk (sequence numbers, losses, frame starts), the distribution of flows over streams, and one
  pass of the receive loop over its streams.  Chunks and the results of the Rivermax calls come from
  outside and are inputs.  The lemmas show that losses are counted exactly across wrap-arounds, that
  interval and total statistics agree, that a frame start is reported for the first packet of every
  frame, and that the flows are split into one consecutive share per stream.
\<close>

section \<open>Statistics\<close>

record RXStatistics =
  rx_count :: u64
  rx_dropped :: u64
  rx_corrupt_header :: u64
  received_bytes :: u64
  consumed_packets :: u64
  unconsumed_packets :: u64

definition RXStatistics_zero :: RXStatistics where
  "RXStatistics_zero = \<lparr>rx_count = 0, rx_dropped = 0, rx_corrupt_header = 0, received_bytes = 0,
                        consumed_packets = 0, unconsumed_packets = 0\<rparr>"

definition get_total_packets :: "RXStatistics \<Rightarrow> u64" where
  "get_total_packets s = rx_count s + rx_dropped s"

section \<open>Chunks of received packets\<close>

text \<open>What a completed chunk tells about each packet: the sizes of its sub-blocks and its
  timestamp; and where its headers and payloads are.\<close>

record ReceivePacketInfo =
  sub_block_size_0 :: u64
  sub_block_size_1 :: u64
  packet_timestamp :: u64

record ReceiveChunk =
  chunk_header_ptr :: nat
  chunk_payload_ptr :: nat
  chunk_packets :: "ReceivePacketInfo list"

section \<open>The stream\<close>

record AppRTPReceiveStream =
  m_is_extended_sequence_number :: bool
  m_sequence_number_mask :: u32
  m_is_header_data_split :: bool
  m_is_header_processing_enabled :: bool
  m_header_stride_size :: nat
  m_payload_stride_size :: nat
  m_statistic :: RXStatistics
  m_statistic_totals :: RXStatistics
  m_initialized :: bool
  m_last_sequence_number :: u32
  m_last_mbit :: bool
  m_frame_notifier :: bool
  rtp_events :: "(u32 \<times> u64) list"

definition AppRTPReceiveStream_new :: "bool \<Rightarrow> bool \<Rightarrow> bool \<Rightarrow> nat \<Rightarrow> nat \<Rightarrow> AppRTPReceiveStream" where
  "AppRTPReceiveStream_new is_extended hds process_headers hdr_stride pay_stride =
    \<lparr>m_is_extended_sequence_number = is_extended,
     m_sequence_number_mask = (if is_extended then RTP_SEQUENCE_NUMBER_MASK_32BIT
                               else RTP_SEQUENCE_NUMBER_MASK_16BIT),
     m_is_header_data_split = hds, m_is_header_processing_enabled = process_headers,
     m_header_stride_size = hdr_stride, m_payload_stride_size = pay_stride,
     m_statistic = RXStatistics_zero, m_statistic_totals = RXStatistics_zero, m_initialized = False,
     m_last_sequence_number = 0, m_last_mbit = True, m_frame_notifier = False, rtp_events = []\<rparr>"

definition set_frame_start_handler :: "AppRTPReceiveStream \<Rightarrow> AppRTPReceiveStream" where
  "set_frame_start_handler s = s\<lparr>m_frame_notifier := True\<rparr>"

definition reset_statistics :: "AppRTPReceiveStream \<Rightarrow> AppRTPReceiveStream" where
  "reset_statistics s = s\<lparr>m_statistic := RXStatistics_zero\<rparr>"

definition reset_statistics_totals :: "AppRTPReceiveStream \<Rightarrow> AppRTPReceiveStream" where
  "reset_statistics_totals s = s\<lparr>m_statistic_totals := RXStatistics_zero\<rparr>"

text \<open>The code updates the interval and the total statistics side by side.\<close>

definition update_both :: "(RXStatistics \<Rightarrow> RXStatistics) \<Rightarrow> AppRTPReceiveStream \<Rightarrow> AppRTPReceiveStream" where
  "update_both upd s = s\<lparr>m_statistic := upd (m_statistic s), m_statistic_totals := upd (m_statistic_totals s)\<rparr>"

definition update_consumed_packets_stats :: "u64 \<Rightarrow> u64 \<Rightarrow> AppRTPReceiveStream \<Rightarrow> AppRTPReceiveStream" where
  "update_consumed_packets_stats consumed unconsumed s =
    update_both (\<lambda>st. st\<lparr>consumed_packets := consumed_packets st + consumed,
                         unconsumed_packets := unconsumed_packets st + unconsumed\<rparr>) s"

section \<open>Header processing\<close>

definition get_sequence_number :: "bool \<Rightarrow> mem \<Rightarrow> nat \<Rightarrow> u64 \<Rightarrow> u32 option" where
  "get_sequence_number is_extended m header len =
    (if len < 4 \<or> m header AND 0xC0 \<noteq> 0x80 then None
     else
       let sn = ucast (m (header + 3)) OR push_bit 8 (ucast (m (header + 2)));
           cc = 0x0F AND m header;
           offset = unat (cc * word_of_nat RTP_HEADER_CSRC_GRANULARITY_BYTES)
       in if is_extended
          then Some (sn OR (push_bit 24 (ucast (m (header + offset + 12)))
                            OR push_bit 16 (ucast (m (header + offset + 13)))))
          else Some sn)"

definition header_mbit :: "mem \<Rightarrow> nat \<Rightarrow> bool" where
  "header_mbit m header \<longleftrightarrow> m (header + 1) AND 0x80 \<noteq> 0"

definition header_rtp_timestamp :: "mem \<Rightarrow> nat \<Rightarrow> u32" where
  "header_rtp_timestamp m header =
    ucast (m (header + 7)) OR push_bit 8 (ucast (m (header + 6)))
    OR push_bit 16 (ucast (m (header + 5))) OR push_bit 24 (ucast (m (header + 4)))"

definition process_packet_header ::
  "mem \<Rightarrow> nat \<Rightarrow> u64 \<Rightarrow> ReceivePacketInfo \<Rightarrow> AppRTPReceiveStream \<Rightarrow> AppRTPReceiveStream" where
  "process_packet_header m header len info s =
    (case get_sequence_number (m_is_extended_sequence_number s) m header len of
       None \<Rightarrow> update_both (\<lambda>st. st\<lparr>rx_corrupt_header := rx_corrupt_header st + 1\<rparr>) s
     | Some sn \<Rightarrow>
       let s1 = (if m_initialized s
                 then let expected = m_last_sequence_number s + 1;
                          num_dropped = (sn - expected) AND m_sequence_number_mask s
                      in update_both (\<lambda>st. st\<lparr>rx_dropped := rx_dropped st + ucast num_dropped\<rparr>) s
                 else s);
           s2 = s1\<lparr>m_initialized := True, m_last_sequence_number := sn\<rparr>
       in if m_frame_notifier s2
          then let mbit = header_mbit m header;
                   s3 = (if \<not> mbit \<and> m_last_mbit s2
                         then s2\<lparr>rtp_events := rtp_events s2 @ [(header_rtp_timestamp m header, packet_timestamp info)]\<rparr>
                         else s2)
               in s3\<lparr>m_last_mbit := mbit\<rparr>
          else s2)"

text \<open>The body of the loop over the strides of a chunk, and the loop.\<close>

definition process_stride :: "mem \<Rightarrow> nat \<Rightarrow> ReceivePacketInfo \<Rightarrow> AppRTPReceiveStream \<Rightarrow> AppRTPReceiveStream" where
  "process_stride m header info s =
    (let len0 = sub_block_size_0 info;
         s1 = update_both (\<lambda>st. st\<lparr>received_bytes := received_bytes st + len0\<rparr>) s;
         (len, s2) = (if m_is_header_data_split s
                      then (sub_block_size_1 info,
                            update_both (\<lambda>st. st\<lparr>received_bytes := received_bytes st + sub_block_size_1 info\<rparr>) s1)
                      else (len0, s1))
     in if m_is_header_processing_enabled s then process_packet_header m header len info s2 else s2)"

fun process_strides :: "mem \<Rightarrow> nat \<Rightarrow> nat \<Rightarrow> ReceivePacketInfo list \<Rightarrow> AppRTPReceiveStream \<Rightarrow> AppRTPReceiveStream" where
  "process_strides m stride header [] s = s"
| "process_strides m stride header (info # infos) s =
    process_strides m stride (header + stride) infos (process_stride m header info s)"

definition get_next_chunk ::
  "mem \<Rightarrow> ReturnStatus \<Rightarrow> ReceiveChunk \<Rightarrow> AppRTPReceiveStream \<Rightarrow> ReturnStatus \<times> AppRTPReceiveStream" where
  "get_next_chunk m status chunk s =
    (if status \<noteq> success then (status, s)
     else
       let n = word_of_nat (length (chunk_packets chunk));
           s1 = update_both (\<lambda>st. st\<lparr>rx_count := rx_count st + n\<rparr>) s;
           (header, stride) = (if m_is_header_data_split s
                               then (chunk_header_ptr chunk, m_header_stride_size s)
                               else (chunk_payload_ptr chunk, m_payload_stride_size s))
       in (status, process_strides m stride header (chunk_packets chunk) s1))"

section \<open>Consumers and flows\<close>

text \<open>A data consumer reports a status and how many packets it took; the receiver node drops that
  number and books every packet of a chunk as unconsumed.\<close>

type_synonym consumer = "ReceiveChunk \<Rightarrow> ReturnStatus \<times> u64"

definition NullReceiveDataConsumer :: consumer where
  "NullReceiveDataConsumer chunk = (success, word_of_nat (length (chunk_packets chunk)))"

definition consume_chunk :: "consumer \<Rightarrow> ReceiveChunk \<Rightarrow> AppRTPReceiveStream \<Rightarrow> ReturnStatus \<times> AppRTPReceiveStream" where
  "consume_chunk consumer chunk s =
    (let consumed = 0; rc = fst (consumer chunk)
     in if rc \<noteq> success then (rc, s)
        else (success, update_consumed_packets_stats consumed
                         (word_of_nat (length (chunk_packets chunk)) - consumed) s))"

text \<open>\<open>process_flows\<close>: attaching (or detaching) through the stream operation \<open>op\<close>, with the calls made
  so far.\<close>

fun process_stream_flows ::
  "(nat \<Rightarrow> 'flow \<Rightarrow> ReturnStatus) \<Rightarrow> nat \<Rightarrow> 'flow list \<Rightarrow> (nat \<times> 'flow) list \<Rightarrow> ReturnStatus \<times> (nat \<times> 'flow) list" where
  "process_stream_flows op stream [] calls = (success, calls)"
| "process_stream_flows op stream (flow # flows) calls =
    (if op stream flow \<noteq> success then (op stream flow, calls @ [(stream, flow)])
     else process_stream_flows op stream flows (calls @ [(stream, flow)]))"

fun process_streams ::
  "(nat \<Rightarrow> 'flow \<Rightarrow> ReturnStatus) \<Rightarrow> nat \<Rightarrow> nat \<Rightarrow> nat \<Rightarrow> nat \<Rightarrow> 'flow list \<Rightarrow> (nat \<times> 'flow) list
    \<Rightarrow> ReturnStatus \<times> (nat \<times> 'flow) list" where
  "process_streams op per_stream remainder 0 stream flows calls = (success, calls)"
| "process_streams op per_stream remainder (Suc n) stream flows calls =
    (let count = per_stream + (if stream < remainder then 1 else 0);
         (rc, calls') = process_stream_flows op stream (take count flows) calls
     in if rc \<noteq> success then (rc, calls')
        else process_streams op per_stream remainder n (stream + 1) (drop count flows) calls')"

definition process_flows ::
  "(nat \<Rightarrow> 'flow \<Rightarrow> ReturnStatus) \<Rightarrow> nat \<Rightarrow> 'flow list \<Rightarrow> ReturnStatus \<times> (nat \<times> 'flow) list" where
  "process_flows op streams flows =
    (if flows = [] \<or> streams = 0 then (failure, [])
     else if length flows < streams then (failure, [])
     else process_streams op (length flows div streams) (length flows mod streams) streams 0 flows [])"

section \<open>A pass of the receive loop\<close>

text \<open>The body of the \<open>while\<close> loop of \<open>operator()\<close> over the streams, with the results of this pass's
  \<open>get_next_chunk\<close> calls; \<open>rc\<close> is the status left for the loop test.\<close>

fun receive_pass ::
  "mem \<Rightarrow> (ReturnStatus \<times> ReceiveChunk) list \<Rightarrow> consumer list \<Rightarrow> AppRTPReceiveStream list \<Rightarrow> ReturnStatus
    \<Rightarrow> ReturnStatus \<times> AppRTPReceiveStream list" where
  "receive_pass m ((status, chunk) # results) (consumer # consumers) (s # streams) rc =
    (let (rc, s1) = get_next_chunk m status chunk s
     in if rc \<noteq> success then (rc, s1 # streams)
        else if chunk_packets chunk = []
        then (let (rc', rest) = receive_pass m results consumers streams rc in (rc', s1 # rest))
        else let (rc, s2) = consume_chunk consumer chunk s1;
                 (rc', rest) = receive_pass m results consumers streams rc
             in (rc', s2 # rest))"
| "receive_pass m _ _ streams rc = (rc, streams)"

section \<open>The effect of one packet\<close>

definition wf_stream :: "AppRTPReceiveStream \<Rightarrow> bool" where
  "wf_stream s \<longleftrightarrow> m_is_header_processing_enabled s
    \<and> m_sequence_number_mask s = mask (if m_is_extended_sequence_number s then 32 else 16)"

abbreviation seq_bits :: "AppRTPReceiveStream \<Rightarrow> nat" where
  "seq_bits s \<equiv> (if m_is_extended_sequence_number s then 32 else 16)"

text \<open>The length that reaches the header check: that of the last sub-block.\<close>

definition header_check_length :: "AppRTPReceiveStream \<Rightarrow> ReceivePacketInfo \<Rightarrow> u64" where
  "header_check_length s info = (if m_is_header_data_split s then sub_block_size_1 info else sub_block_size_0 info)"

definition packet_bytes :: "AppRTPReceiveStream \<Rightarrow> ReceivePacketInfo \<Rightarrow> u64" where
  "packet_bytes s info = sub_block_size_0 info + (if m_is_header_data_split s then sub_block_size_1 info else 0)"

lemma update_both_simps [simp]:
  "m_is_extended_sequence_number (update_both f s) = m_is_extended_sequence_number s"
  "m_sequence_number_mask (update_both f s) = m_sequence_number_mask s"
  "m_is_header_data_split (update_both f s) = m_is_header_data_split s"
  "m_is_header_processing_enabled (update_both f s) = m_is_header_processing_enabled s"
  "m_header_stride_size (update_both f s) = m_header_stride_size s"
  "m_payload_stride_size (update_both f s) = m_payload_stride_size s"
  "m_statistic (update_both f s) = f (m_statistic s)"
  "m_statistic_totals (update_both f s) = f (m_statistic_totals s)"
  "m_initialized (update_both f s) = m_initialized s"
  "m_last_sequence_number (update_both f s) = m_last_sequence_number s"
  "m_last_mbit (update_both f s) = m_last_mbit s"
  "m_frame_notifier (update_both f s) = m_frame_notifier s"
  "rtp_events (update_both f s) = rtp_events s"
  by (simp_all add: update_both_def)

text \<open>What the handling of one packet does, as one update of both statistics and the stream fields.\<close>

definition stride_stats :: "AppRTPReceiveStream \<Rightarrow> ReceivePacketInfo \<Rightarrow> u32 option \<Rightarrow> RXStatistics \<Rightarrow> RXStatistics" where
  "stride_stats s info sn st = st\<lparr>received_bytes := received_bytes st + packet_bytes s info,
     rx_corrupt_header := rx_corrupt_header st + (if sn = None then 1 else 0),
     rx_dropped := rx_dropped st +
       (if m_initialized s then (case sn of None \<Rightarrow> 0
          | Some n \<Rightarrow> ucast ((n - (m_last_sequence_number s + 1)) AND m_sequence_number_mask s)) else 0)\<rparr>"

lemma process_stride_effect:
  fixes s header info m
  defines "sn \<equiv> get_sequence_number (m_is_extended_sequence_number s) m header (header_check_length s info)"
    and "s' \<equiv> process_stride m header info s"
  assumes "m_is_header_processing_enabled s"
  shows "m_is_extended_sequence_number s' = m_is_extended_sequence_number s"
    "m_sequence_number_mask s' = m_sequence_number_mask s"
    "m_is_header_data_split s' = m_is_header_data_split s"
    "m_is_header_processing_enabled s'"
    "m_frame_notifier s' = m_frame_notifier s"
    "m_statistic s' = stride_stats s info sn (m_statistic s)"
    "m_statistic_totals s' = stride_stats s info sn (m_statistic_totals s)"
    "m_initialized s' \<longleftrightarrow> m_initialized s \<or> sn \<noteq> None"
    "m_last_sequence_number s' = (case sn of None \<Rightarrow> m_last_sequence_number s | Some n \<Rightarrow> n)"
    "m_last_mbit s' = (if sn \<noteq> None \<and> m_frame_notifier s then header_mbit m header else m_last_mbit s)"
    "rtp_events s' = rtp_events s @ (if sn \<noteq> None \<and> m_frame_notifier s \<and> \<not> header_mbit m header \<and> m_last_mbit s
       then [(header_rtp_timestamp m header, packet_timestamp info)] else [])"
  using assms(3) unfolding s'_def sn_def
  by (cases "get_sequence_number (m_is_extended_sequence_number s) m header (header_check_length s info)";
      simp add: process_stride_def process_packet_header_def header_check_length_def packet_bytes_def
        stride_stats_def Let_def split: if_splits)+

text \<open>The position of a packet in the sender's stream, as the sequence number the header carries; a
  gap of at most the sequence range can be told from the next packet's number.\<close>

fun gaps_ok :: "nat \<Rightarrow> nat \<Rightarrow> nat list \<Rightarrow> bool" where
  "gaps_ok k p [] = True"
| "gaps_ok k p (q # qs) = (p < q \<and> q - p \<le> 2 ^ k \<and> gaps_ok k q qs)"

definition seq_of :: "nat \<Rightarrow> nat \<Rightarrow> u32" where
  "seq_of k p = take_bit k (word_of_nat p)"

lemma take_bit_word_of_int: "k \<le> LENGTH('a) \<Longrightarrow> take_bit k (word_of_int z :: 'a::len word) = word_of_int (take_bit k z)"
  by (rule bit_word_eqI) (auto simp: bit_simps)

lemma mod_sub_succ: "(a mod n - (b mod n + 1)) mod n = (a - b - 1) mod (n :: int)"
proof -
  have "(a mod n - (b mod n + 1)) mod n = ((a mod n - 1) - b mod n) mod n" by (simp add: algebra_simps)
  also have "\<dots> = ((a mod n - 1) - b) mod n" by (rule mod_diff_right_eq)
  also have "\<dots> = (a mod n - (b + 1)) mod n" by (simp add: algebra_simps)
  also have "\<dots> = (a - (b + 1)) mod n" by (rule mod_diff_left_eq)
  finally show ?thesis by (simp add: algebra_simps)
qed

lemma gap_distance:
  assumes "p < q" and "q - p \<le> 2 ^ k" and "k \<le> 32"
  shows "(seq_of k q - (seq_of k p + 1)) AND mask k = word_of_nat (q - p - 1)"
proof -
  have s: "seq_of k n = word_of_int (take_bit k (int n))" for n
    using take_bit_word_of_int[of k "int n", where 'a=32] assms(3) by (simp add: seq_of_def)
  have "(seq_of k q - (seq_of k p + 1)) AND mask k
      = word_of_int (take_bit k (take_bit k (int q) - (take_bit k (int p) + 1)))"
    using take_bit_word_of_int[of k "take_bit k (int q) - (take_bit k (int p) + 1)", where 'a=32] assms(3)
    by (simp add: s take_bit_eq_mask[symmetric])
  also have "take_bit k (take_bit k (int q) - (take_bit k (int p) + 1)) = take_bit k (int q - int p - 1)"
    by (simp only: take_bit_eq_mod mod_sub_succ)
  also have "\<dots> = int (q - p - 1)"
  proof -
    have "q - p - 1 < 2 ^ k" using assms(1,2) by linarith
    then have "int (q - p - 1) < 2 ^ k" by (simp only: of_nat_less_numeral_power_cancel_iff)
    moreover have "int q - int p - 1 = int (q - p - 1)" using assms(1) by simp
    ultimately show ?thesis by (simp add: take_bit_int_eq_self)
  qed
  finally show ?thesis by simp
qed

lemma gaps_ok_last: "gaps_ok k p ps \<Longrightarrow> p + length ps \<le> last (p # ps)"
  by (induction ps arbitrary: p) fastforce+

text \<open>Every header of a run of packets is valid and carries the sequence number of its packet's
  position.\<close>

definition headers_carry :: "AppRTPReceiveStream \<Rightarrow> mem \<Rightarrow> nat \<Rightarrow> nat \<Rightarrow> ReceivePacketInfo list \<Rightarrow> nat list \<Rightarrow> bool" where
  "headers_carry s m stride header infos ps \<longleftrightarrow> length infos = length ps \<and>
    (\<forall>i<length ps. get_sequence_number (m_is_extended_sequence_number s) m (header + i * stride)
        (header_check_length s (infos ! i)) = Some (seq_of (seq_bits s) (ps ! i)))"

lemma headers_carry_Cons:
  "headers_carry s m stride header (info # infos) (p # ps) \<longleftrightarrow>
    get_sequence_number (m_is_extended_sequence_number s) m header (header_check_length s info)
      = Some (seq_of (seq_bits s) p)
    \<and> headers_carry s m stride (header + stride) infos ps"
  by (auto simp: headers_carry_def nth_Cons' less_Suc_eq_0_disj add.assoc split: if_splits)

lemma process_strides_losses:
  assumes "wf_stream s" and "m_initialized s" and "m_last_sequence_number s = seq_of (seq_bits s) p"
    and "gaps_ok (seq_bits s) p ps" and "headers_carry s m stride header infos ps"
  shows "let s' = process_strides m stride header infos s; lost = last (p # ps) - p - length ps in
    rx_dropped (m_statistic s') = rx_dropped (m_statistic s) + word_of_nat lost
    \<and> rx_dropped (m_statistic_totals s') = rx_dropped (m_statistic_totals s) + word_of_nat lost
    \<and> rx_corrupt_header (m_statistic s') = rx_corrupt_header (m_statistic s)
    \<and> rx_corrupt_header (m_statistic_totals s') = rx_corrupt_header (m_statistic_totals s)
    \<and> m_last_sequence_number s' = seq_of (seq_bits s) (last (p # ps))
    \<and> rx_count (m_statistic s') = rx_count (m_statistic s)"
  using assms
proof (induction ps arbitrary: s p header infos)
  case Nil
  then have "infos = []" by (simp add: headers_carry_def)
  then show ?case using Nil by simp
next
  case (Cons q qs)
  then obtain info infos' where i: "infos = info # infos'" by (cases infos) (auto simp: headers_carry_def)
  define s1 where "s1 = process_stride m header info s"
  have en: "m_is_header_processing_enabled s" and mk: "m_sequence_number_mask s = mask (seq_bits s)"
    using Cons.prems(1) by (auto simp: wf_stream_def)
  have sn: "get_sequence_number (m_is_extended_sequence_number s) m header (header_check_length s info)
      = Some (seq_of (seq_bits s) q)"
    and rest: "headers_carry s m stride (header + stride) infos' qs"
    using Cons.prems(5) unfolding i headers_carry_Cons by auto
  note eff = process_stride_effect[OF en, of m header info, unfolded sn, folded s1_def]
  have g: "p < q" "q - p \<le> 2 ^ seq_bits s" "gaps_ok (seq_bits s) q qs" using Cons.prems(4) by auto
  have d: "(seq_of (seq_bits s) q - (m_last_sequence_number s + 1)) AND m_sequence_number_mask s = word_of_nat (q - p - 1)"
    unfolding mk Cons.prems(3) by (rule gap_distance[OF g(1,2)]) simp
  have lt: "q - p - 1 < 2 ^ 32"
  proof -
    have "(2::nat) ^ seq_bits s \<le> 2 ^ 32" by (intro power_increasing) simp_all
    then show ?thesis using g(1,2) by linarith
  qed
  have "(ucast (word_of_nat (q - p - 1) :: u32) :: u64) = word_of_nat (q - p - 1)"
    using lt by (simp add: ucast_eq_word_of_nat unat_word_of_nat)
  then have st: "(ucast (word_of_nat (q - Suc p) :: u32) :: u64) = word_of_nat (q - Suc p)" by simp
  have ih: "let s' = process_strides m stride (header + stride) infos' s1; lost = last (q # qs) - q - length qs in
    rx_dropped (m_statistic s') = rx_dropped (m_statistic s1) + word_of_nat lost
    \<and> rx_dropped (m_statistic_totals s') = rx_dropped (m_statistic_totals s1) + word_of_nat lost
    \<and> rx_corrupt_header (m_statistic s') = rx_corrupt_header (m_statistic s1)
    \<and> rx_corrupt_header (m_statistic_totals s') = rx_corrupt_header (m_statistic_totals s1)
    \<and> m_last_sequence_number s' = seq_of (seq_bits s1) (last (q # qs))
    \<and> rx_count (m_statistic s') = rx_count (m_statistic s1)"
  proof (rule Cons.IH)
    show "wf_stream s1" using Cons.prems(1) by (simp add: wf_stream_def eff)
    show "headers_carry s1 m stride (header + stride) infos' qs"
      using rest by (simp add: headers_carry_def eff header_check_length_def)
  qed (use g(3) in \<open>simp_all add: eff\<close>)
  have "last (q # qs) - p - Suc (length qs) = (q - p - 1) + (last (q # qs) - q - length qs)"
    using gaps_ok_last[OF g(3)] g(1) by simp
  then have sum: "word_of_nat (last (p # q # qs) - p - length (q # qs))
      = (word_of_nat (q - p - 1) + word_of_nat (last (q # qs) - q - length qs) :: u64)"
    by (simp del: of_nat_diff)
  show ?case
    using ih Cons.prems(2) unfolding i process_strides.simps s1_def[symmetric] Let_def sum
    by (simp add: eff stride_stats_def d st)
qed

text \<open>The bookkeeping of a chunk of any packets.\<close>

lemma process_strides_counts:
  assumes "m_is_header_processing_enabled s"
  shows "\<exists>upd. m_statistic (process_strides m stride header infos s) = upd (m_statistic s)
    \<and> m_statistic_totals (process_strides m stride header infos s) = upd (m_statistic_totals s)
    \<and> (\<forall>st. received_bytes (upd st) = received_bytes st + (\<Sum>info\<leftarrow>infos. packet_bytes s info)
         \<and> rx_count (upd st) = rx_count st
         \<and> consumed_packets (upd st) = consumed_packets st
         \<and> unconsumed_packets (upd st) = unconsumed_packets st)"
  using assms
proof (induction infos arbitrary: s header)
  case Nil
  show ?case by (rule exI[of _ id]) simp
next
  case (Cons info infos)
  note eff = process_stride_effect[OF Cons.prems, of m header info]
  have pb: "packet_bytes (process_stride m header info s) = packet_bytes s"
    by (rule ext) (simp add: packet_bytes_def eff)
  obtain upd where u: "m_statistic (process_strides m stride (header + stride) infos (process_stride m header info s))
      = upd (m_statistic (process_stride m header info s))"
    "m_statistic_totals (process_strides m stride (header + stride) infos (process_stride m header info s))
      = upd (m_statistic_totals (process_stride m header info s))"
    "\<And>st. received_bytes (upd st) = received_bytes st + (\<Sum>info\<leftarrow>infos. packet_bytes s info)
         \<and> rx_count (upd st) = rx_count st
         \<and> consumed_packets (upd st) = consumed_packets st
         \<and> unconsumed_packets (upd st) = unconsumed_packets st"
    using Cons.IH[OF eff(4), of "header + stride"] unfolding pb by blast
  show ?case
    by (rule exI[of _ "\<lambda>st. upd (stride_stats s info
          (get_sequence_number (m_is_extended_sequence_number s) m header (header_check_length s info)) st)"])
       (simp add: u eff stride_stats_def add.assoc)
qed

text \<open>Frame starts.\<close>

definition packet_view :: "mem \<Rightarrow> nat \<Rightarrow> nat \<Rightarrow> ReceivePacketInfo list \<Rightarrow> nat \<Rightarrow> bool \<times> u32 \<times> u64" where
  "packet_view m stride header infos i =
    (header_mbit m (header + i * stride), header_rtp_timestamp m (header + i * stride), packet_timestamp (infos ! i))"

fun frame_starts :: "bool \<Rightarrow> (bool \<times> u32 \<times> u64) list \<Rightarrow> (u32 \<times> u64) list" where
  "frame_starts prev [] = []"
| "frame_starts prev ((mbit, ev) # ps) = (if \<not> mbit \<and> prev then [ev] else []) @ frame_starts mbit ps"

lemma process_strides_frame_starts:
  assumes "m_is_header_processing_enabled s" and "m_frame_notifier s"
    and "\<forall>i<length infos. get_sequence_number (m_is_extended_sequence_number s) m (header + i * stride)
        (header_check_length s (infos ! i)) \<noteq> None"
  shows "rtp_events (process_strides m stride header infos s)
      = rtp_events s @ frame_starts (m_last_mbit s) (map (packet_view m stride header infos) [0..<length infos])
    \<and> m_last_mbit (process_strides m stride header infos s)
      = (if infos = [] then m_last_mbit s else header_mbit m (header + (length infos - 1) * stride))"
  using assms
proof (induction infos arbitrary: s header)
  case Nil
  then show ?case by simp
next
  case (Cons info infos)
  define s1 where "s1 = process_stride m header info s"
  note eff = process_stride_effect[OF Cons.prems(1), of m header info, folded s1_def]
  have ok: "get_sequence_number (m_is_extended_sequence_number s) m header (header_check_length s info) \<noteq> None"
    using Cons.prems(3)[rule_format, of 0] by simp
  have hl: "header_check_length s1 = header_check_length s"
    by (rule ext) (simp add: header_check_length_def eff)
  have "rtp_events (process_strides m stride (header + stride) infos s1)
      = rtp_events s1 @ frame_starts (m_last_mbit s1) (map (packet_view m stride (header + stride) infos) [0..<length infos])
    \<and> m_last_mbit (process_strides m stride (header + stride) infos s1)
      = (if infos = [] then m_last_mbit s1 else header_mbit m (header + stride + (length infos - 1) * stride))"
  proof (rule Cons.IH)
    show "\<forall>i<length infos. get_sequence_number (m_is_extended_sequence_number s1) m (header + stride + i * stride)
        (header_check_length s1 (infos ! i)) \<noteq> None"
    proof (intro allI impI)
      fix i assume "i < length infos"
      then show "get_sequence_number (m_is_extended_sequence_number s1) m (header + stride + i * stride)
        (header_check_length s1 (infos ! i)) \<noteq> None"
        using Cons.prems(3)[rule_format, of "Suc i"] by (simp add: eff hl add.assoc)
    qed
  qed (use Cons.prems in \<open>simp_all add: eff\<close>)
  moreover have "map (packet_view m stride header (info # infos)) [0..<length (info # infos)]
      = (header_mbit m header, header_rtp_timestamp m header, packet_timestamp info)
        # map (packet_view m stride (header + stride) infos) [0..<length infos]"
    by (simp add: upt_conv_Cons map_Suc_upt[symmetric] packet_view_def add.assoc del: upt_Suc)
  moreover have "header + stride + (length infos - 1) * stride = header + length infos * stride" if "infos \<noteq> []"
    using that by (cases infos) simp_all
  ultimately show ?case
    using Cons.prems(2) ok by (cases infos) (simp_all add: eff s1_def[symmetric] ac_simps del: upt_Suc)
qed

lemma frame_starts_frame:
  "frame_starts prev (map (Pair False) (e # es) @ [(True, e')] @ rest)
    = (if prev then [e] else []) @ frame_starts True rest"
proof -
  have "frame_starts False (map (Pair False) es @ [(True, e')] @ rest) = frame_starts True rest"
    by (induction es) simp_all
  then show ?thesis by simp
qed

lemma frame_starts_frames:
  assumes "\<forall>(es, e') \<in> set frames. es \<noteq> []"
  shows "frame_starts True (concat (map (\<lambda>(es, e'). map (Pair False) es @ [(True, e')]) frames))
    = map (\<lambda>(es, e'). hd es) frames"
  using assms
proof (induction frames)
  case (Cons fr frames)
  obtain es e' where fr: "fr = (es, e')" by (cases fr) auto
  then obtain e es' where es: "es = e # es'" using Cons.prems by (cases es) auto
  show ?case
    using Cons frame_starts_frame[of True e es' e'] by (auto simp: fr es)
qed simp

section \<open>Flows\<close>

text \<open>The calls in order, and running them until one fails.\<close>

fun run_calls :: "(nat \<Rightarrow> 'flow \<Rightarrow> ReturnStatus) \<Rightarrow> (nat \<times> 'flow) list \<Rightarrow> (nat \<times> 'flow) list \<Rightarrow> ReturnStatus \<times> (nat \<times> 'flow) list" where
  "run_calls op [] calls = (success, calls)"
| "run_calls op ((i, flow) # cs) calls =
    (if op i flow \<noteq> success then (op i flow, calls @ [(i, flow)]) else run_calls op cs (calls @ [(i, flow)]))"

fun flow_assignment :: "nat \<Rightarrow> nat \<Rightarrow> nat \<Rightarrow> nat \<Rightarrow> 'flow list \<Rightarrow> (nat \<times> 'flow) list" where
  "flow_assignment per_stream remainder 0 stream flows = []"
| "flow_assignment per_stream remainder (Suc n) stream flows =
    (let count = per_stream + (if stream < remainder then 1 else 0)
     in map (Pair stream) (take count flows) @ flow_assignment per_stream remainder n (stream + 1) (drop count flows))"

lemma run_calls_append:
  "run_calls op (xs @ ys) calls = (let (rc, calls') = run_calls op xs calls
     in if rc \<noteq> success then (rc, calls') else run_calls op ys calls')"
  by (induction op xs calls rule: run_calls.induct) auto

lemma process_stream_flows_run: "process_stream_flows op i flows calls = run_calls op (map (Pair i) flows) calls"
  by (induction op i flows calls rule: process_stream_flows.induct) auto

lemma process_streams_run:
  "process_streams op per_stream remainder n stream flows calls
    = run_calls op (flow_assignment per_stream remainder n stream flows) calls"
  by (induction op per_stream remainder n stream flows calls rule: process_streams.induct)
     (auto simp: Let_def run_calls_append process_stream_flows_run split: prod.splits)

lemma run_calls_ok: "\<forall>(i, flow) \<in> set cs. op i flow = success \<Longrightarrow> run_calls op cs calls = (success, calls @ cs)"
  by (induction op cs calls rule: run_calls.induct) auto

lemma run_calls_fail:
  assumes "\<forall>(i, flow) \<in> set cs. op i flow = success" and "op j flow \<noteq> success"
  shows "run_calls op (cs @ (j, flow) # rest) calls = (op j flow, calls @ cs @ [(j, flow)])"
  using assms by (simp add: run_calls_append run_calls_ok)

lemma flow_assignment_streams:
  "(i, fl) \<in> set (flow_assignment a b n stream flows) \<Longrightarrow> stream \<le> i \<and> i < stream + n"
  by (induction a b n stream flows rule: flow_assignment.induct) (fastforce simp: Let_def)+

lemma flow_assignment_sorted: "sorted (map fst (flow_assignment a b n stream flows))"
proof (induction a b n stream flows rule: flow_assignment.induct)
  case (2 a b n stream flows)
  have c: "map (fst \<circ> Pair stream) xs = replicate (length xs) stream" for xs :: "'a list"
    by (induction xs) simp_all
  show ?case
    using 2[OF refl] flow_assignment_streams[of _ _ a b n "Suc stream"]
    by (fastforce simp: Let_def sorted_append c)
qed simp

lemma flow_assignment_flows:
  "map snd (flow_assignment a b n stream flows) = take (n * a + (min b (stream + n) - min b stream)) flows"
proof (induction a b n stream flows rule: flow_assignment.induct)
  case (2 a b n stream flows)
  have "map snd (map (Pair stream) xs) = xs" for xs :: "'a list" by (simp add: comp_def)
  moreover have "Suc n * a + (min b (stream + Suc n) - min b stream)
      = (a + (if stream < b then 1 else 0)) + (n * a + (min b (stream + 1 + n) - min b (stream + 1)))"
    by auto
  ultimately show ?case
    using 2[OF refl] by (simp only: flow_assignment.simps Let_def map_append take_add)
qed simp

lemma flow_assignment_share:
  assumes "stream \<le> i" "i < stream + n" "n * a + (min b (stream + n) - min b stream) \<le> length flows"
  shows "length (filter (\<lambda>c. fst c = i) (flow_assignment a b n stream flows)) = a + (if i < b then 1 else 0)"
  using assms
proof (induction a b n stream flows rule: flow_assignment.induct)
  case (2 a b n stream flows)
  let ?count = "a + (if stream < b then 1 else 0)"
  have len: "?count + (n * a + (min b (stream + 1 + n) - min b (stream + 1))) \<le> length flows"
    using 2(4) by (auto split: if_splits)
  show ?case
  proof (cases "i = stream")
    case True
    have "filter (\<lambda>c. fst c = i) (flow_assignment a b n (stream + 1) (drop ?count flows)) = []"
      using flow_assignment_streams[of _ _ a b n "stream + 1"] True by (fastforce simp: filter_empty_conv)
    then show ?thesis using len True by (simp add: Let_def filter_map comp_def)
  next
    case False
    have "length (filter (\<lambda>c. fst c = i) (flow_assignment a b n (stream + 1) (drop ?count flows))) = a + (if i < b then 1 else 0)"
      using 2(1)[OF refl] 2(2,3) False len by simp
    then show ?thesis using False by (simp add: Let_def filter_map comp_def)
  qed
qed simp

section \<open>Interval and total statistics\<close>

definition stat_add :: "RXStatistics \<Rightarrow> RXStatistics \<Rightarrow> RXStatistics" where
  "stat_add a b = \<lparr>rx_count = rx_count a + rx_count b, rx_dropped = rx_dropped a + rx_dropped b,
     rx_corrupt_header = rx_corrupt_header a + rx_corrupt_header b,
     received_bytes = received_bytes a + received_bytes b,
     consumed_packets = consumed_packets a + consumed_packets b,
     unconsumed_packets = unconsumed_packets a + unconsumed_packets b\<rparr>"

lemma stat_add_assoc: "stat_add (stat_add a b) c = stat_add a (stat_add b c)"
  by (simp add: stat_add_def add.assoc)

lemma stat_add_zero [simp]: "stat_add a RXStatistics_zero = a" "stat_add RXStatistics_zero a = a"
  by (simp_all add: stat_add_def RXStatistics_zero_def)

text \<open>An operation adds the same amounts to both statistics.\<close>

definition adds_to_both :: "AppRTPReceiveStream \<Rightarrow> AppRTPReceiveStream \<Rightarrow> bool" where
  "adds_to_both s s' \<longleftrightarrow> (\<exists>d. m_statistic s' = stat_add (m_statistic s) d
     \<and> m_statistic_totals s' = stat_add (m_statistic_totals s) d)"

lemma adds_to_both_refl: "adds_to_both s s"
  unfolding adds_to_both_def by (rule exI[of _ RXStatistics_zero]) simp

lemma adds_to_both_trans: "adds_to_both s s' \<Longrightarrow> adds_to_both s' s'' \<Longrightarrow> adds_to_both s s''"
  unfolding adds_to_both_def by (auto simp: stat_add_assoc)

lemma adds_to_both_update:
  assumes "\<And>st. f st = stat_add st d"
  shows "adds_to_both s (update_both f s)"
  unfolding adds_to_both_def by (rule exI[of _ d]) (simp add: assms)

lemma adds_to_both_process_header: "adds_to_both s (process_packet_header m header len info s)"
proof (cases "get_sequence_number (m_is_extended_sequence_number s) m header len")
  case None
  then show ?thesis
    by (simp add: process_packet_header_def)
       (rule adds_to_both_update[where d = "RXStatistics_zero\<lparr>rx_corrupt_header := 1\<rparr>"],
        simp add: stat_add_def RXStatistics_zero_def)
next
  case (Some sn)
  define d where "d = RXStatistics_zero\<lparr>rx_dropped := (if m_initialized s
    then ucast ((sn - (m_last_sequence_number s + 1)) AND m_sequence_number_mask s) else 0)\<rparr>"
  show ?thesis
    unfolding adds_to_both_def
    by (rule exI[of _ d])
       (simp add: Some process_packet_header_def Let_def d_def stat_add_def RXStatistics_zero_def)
qed

lemma adds_to_both_process_stride: "adds_to_both s (process_stride m header info s)"
proof -
  let ?u = "\<lambda>n. update_both (\<lambda>st. st\<lparr>received_bytes := received_bytes st + n\<rparr>)"
  have u: "adds_to_both s (?u n s)" for n s
    by (rule adds_to_both_update[where d = "RXStatistics_zero\<lparr>received_bytes := n\<rparr>"])
       (simp add: stat_add_def RXStatistics_zero_def)
  show ?thesis
    unfolding process_stride_def Let_def
    by (auto intro: u adds_to_both_trans[OF u] adds_to_both_trans[OF adds_to_both_trans[OF u u]]
        adds_to_both_process_header)
qed

lemma adds_to_both_process_strides: "adds_to_both s (process_strides m stride header infos s)"
  by (induction m stride header infos s rule: process_strides.induct)
     (auto intro: adds_to_both_refl adds_to_both_trans[OF adds_to_both_process_stride])

lemma adds_to_both_get_next_chunk: "adds_to_both s (snd (get_next_chunk m status chunk s))"
proof -
  have u: "adds_to_both s (update_both (\<lambda>st. st\<lparr>rx_count := rx_count st + n\<rparr>) s)" for n
    by (rule adds_to_both_update[where d = "RXStatistics_zero\<lparr>rx_count := n\<rparr>"])
       (simp add: stat_add_def RXStatistics_zero_def)
  show ?thesis
    by (auto simp: get_next_chunk_def Let_def intro: adds_to_both_refl
        adds_to_both_trans[OF u] adds_to_both_process_strides)
qed

lemma adds_to_both_consume_chunk: "adds_to_both s (snd (consume_chunk consumer chunk s))"
proof -
  have u: "adds_to_both s (update_consumed_packets_stats a b s)" for a b
    unfolding update_consumed_packets_stats_def
    by (rule adds_to_both_update[where d = "RXStatistics_zero\<lparr>consumed_packets := a, unconsumed_packets := b\<rparr>"])
       (simp add: stat_add_def RXStatistics_zero_def)
  show ?thesis by (simp add: consume_chunk_def Let_def adds_to_both_refl u)
qed

text \<open>What happens to one stream of a running receiver: chunks are fetched and consumed, and its
  interval statistics are reported and reset.\<close>

datatype rx_event =
    Fetch ReturnStatus ReceiveChunk
  | Consume consumer ReceiveChunk
  | Report

fun rx_step :: "mem \<Rightarrow> rx_event \<Rightarrow> AppRTPReceiveStream \<times> RXStatistics list \<Rightarrow> AppRTPReceiveStream \<times> RXStatistics list" where
  "rx_step m (Fetch status chunk) (s, reports) = (snd (get_next_chunk m status chunk s), reports)"
| "rx_step m (Consume consumer chunk) (s, reports) = (snd (consume_chunk consumer chunk s), reports)"
| "rx_step m Report (s, reports) = (reset_statistics s, reports @ [m_statistic s])"

lemma stat_add_left_cancel: "stat_add a b = stat_add a c \<Longrightarrow> b = c"
  by (cases b; cases c) (simp add: stat_add_def)

lemma foldr_stat_snoc: "foldr stat_add (xs @ [x]) RXStatistics_zero = stat_add (foldr stat_add xs RXStatistics_zero) x"
  by (induction xs) (simp_all add: stat_add_assoc)

lemma rx_step_totals:
  assumes "m_statistic_totals s = stat_add (foldr stat_add reports RXStatistics_zero) (m_statistic s)"
    and "rx_step m e (s, reports) = (s', reports')"
  shows "m_statistic_totals s' = stat_add (foldr stat_add reports' RXStatistics_zero) (m_statistic s')"
proof (cases e)
  case (Fetch status chunk)
  then show ?thesis
    using assms adds_to_both_get_next_chunk[of s m status chunk]
    by (auto simp: adds_to_both_def stat_add_assoc)
next
  case (Consume consumer chunk)
  then show ?thesis
    using assms adds_to_both_consume_chunk[of s consumer chunk]
    by (auto simp: adds_to_both_def stat_add_assoc)
next
  case Report
  then show ?thesis using assms by (auto simp: reset_statistics_def foldr_stat_snoc simp del: foldr_append)
qed

lemma rx_run_totals:
  assumes "m_statistic_totals s = stat_add (foldr stat_add reports RXStatistics_zero) (m_statistic s)"
    and "fold (rx_step m) es (s, reports) = (s', reports')"
  shows "m_statistic_totals s' = stat_add (foldr stat_add reports' RXStatistics_zero) (m_statistic s')"
  using assms
proof (induction es arbitrary: s reports)
  case (Cons e es)
  obtain s1 r1 where e: "rx_step m e (s, reports) = (s1, r1)"
    by (cases "rx_step m e (s, reports)") auto
  show ?case using Cons.IH[OF rx_step_totals[OF Cons.prems(1) e]] Cons.prems(2) e by simp
qed simp

section \<open>Properties\<close>

text \<open>Where the headers of a chunk start, and their stride.\<close>

definition chunk_headers :: "AppRTPReceiveStream \<Rightarrow> ReceiveChunk \<Rightarrow> nat" where
  "chunk_headers s chunk = (if m_is_header_data_split s then chunk_header_ptr chunk else chunk_payload_ptr chunk)"

definition header_stride :: "AppRTPReceiveStream \<Rightarrow> nat" where
  "header_stride s = (if m_is_header_data_split s then m_header_stride_size s else m_payload_stride_size s)"

lemma get_next_chunk_success:
  "get_next_chunk m success chunk s = (success, process_strides m (header_stride s) (chunk_headers s chunk)
     (chunk_packets chunk) (update_both (\<lambda>st. st\<lparr>rx_count := rx_count st + word_of_nat (length (chunk_packets chunk))\<rparr>) s))"
  by (simp add: get_next_chunk_def chunk_headers_def header_stride_def)

lemma update_both_fields [simp]:
  "header_check_length (update_both f s) = header_check_length s"
  "headers_carry (update_both f s) m stride header infos ps = headers_carry s m stride header infos ps"
  "wf_stream (update_both f s) = wf_stream s"
  by (simp_all add: header_check_length_def headers_carry_def wf_stream_def fun_eq_iff)

text \<open>C6: when the valid headers of a chunk carry (in 16 or 32 bits) the positions of
  their packets in the sender's stream, in order and with gaps below the range of the sequence number,
  exactly the packets missing since the last one seen are added to the dropped packets of both
  statistics, also across wrap-arounds, and the received packets are added to the interval count.\<close>

theorem get_next_chunk_losses:
  assumes "wf_stream s" and "m_initialized s" and "m_last_sequence_number s = seq_of (seq_bits s) p"
    and "gaps_ok (seq_bits s) p ps"
    and "headers_carry s m (header_stride s) (chunk_headers s chunk) (chunk_packets chunk) ps"
  shows "\<exists>s'. get_next_chunk m success chunk s = (success, s')
    \<and> rx_dropped (m_statistic s') = rx_dropped (m_statistic s) + word_of_nat (last (p # ps) - p - length ps)
    \<and> rx_dropped (m_statistic_totals s') = rx_dropped (m_statistic_totals s) + word_of_nat (last (p # ps) - p - length ps)
    \<and> rx_corrupt_header (m_statistic s') = rx_corrupt_header (m_statistic s)
    \<and> rx_count (m_statistic s') = rx_count (m_statistic s) + word_of_nat (length ps)
    \<and> m_last_sequence_number s' = seq_of (seq_bits s) (last (p # ps))"
proof -
  let ?s1 = "update_both (\<lambda>st. st\<lparr>rx_count := rx_count st + word_of_nat (length (chunk_packets chunk))\<rparr>) s"
  have len: "length (chunk_packets chunk) = length ps" using assms(5) by (simp add: headers_carry_def)
  show ?thesis
    using process_strides_losses[of ?s1 p ps m "header_stride s" "chunk_headers s chunk" "chunk_packets chunk"] assms
    by (simp add: get_next_chunk_success Let_def len)
qed

definition example_stream :: AppRTPReceiveStream where
  "example_stream = (AppRTPReceiveStream_new False False True 0 32)\<lparr>m_initialized := True,
     m_last_sequence_number := 65534, m_frame_notifier := True\<rparr>"

definition example_chunk :: ReceiveChunk where
  "example_chunk = \<lparr>chunk_header_ptr = 0, chunk_payload_ptr = 0,
     chunk_packets = [\<lparr>sub_block_size_0 = 32, sub_block_size_1 = 0, packet_timestamp = 7\<rparr>,
                      \<lparr>sub_block_size_0 = 32, sub_block_size_1 = 0, packet_timestamp = 8\<rparr>]\<rparr>"

definition example_mem :: mem where
  "example_mem x = (if x = 0 \<or> x = 32 then 0x80 else if x = 2 \<or> x = 3 then 0xff
                    else if x = 33 then 0x80 else if x = 35 then 1 else 0)"

theorem get_next_chunk_losses_witness:
  "\<exists>s'. get_next_chunk example_mem success example_chunk example_stream = (success, s')
    \<and> rx_dropped (m_statistic s') = 1 \<and> rx_count (m_statistic s') = 2"
proof -
  have "\<exists>s'. get_next_chunk example_mem success example_chunk example_stream = (success, s')
    \<and> rx_dropped (m_statistic s') = rx_dropped (m_statistic example_stream)
        + word_of_nat (last (65534 # [65535, 65537]) - 65534 - length [65535, 65537 :: nat])
    \<and> rx_dropped (m_statistic_totals s') = rx_dropped (m_statistic_totals example_stream)
        + word_of_nat (last (65534 # [65535, 65537]) - 65534 - length [65535, 65537 :: nat])
    \<and> rx_corrupt_header (m_statistic s') = rx_corrupt_header (m_statistic example_stream)
    \<and> rx_count (m_statistic s') = rx_count (m_statistic example_stream) + word_of_nat (length [65535, 65537 :: nat])
    \<and> m_last_sequence_number s' = seq_of (seq_bits example_stream) (last (65534 # [65535, 65537]))"
    by (rule get_next_chunk_losses)
       (simp_all add: wf_stream_def example_stream_def AppRTPReceiveStream_new_def seq_of_def
          RTP_SEQUENCE_NUMBER_MASK_16BIT_def mask_eq_exp_minus_1 headers_carry_def example_chunk_def
          less_Suc_eq get_sequence_number_def header_check_length_def header_stride_def chunk_headers_def
          example_mem_def)
  then show ?thesis by (auto simp: example_stream_def AppRTPReceiveStream_new_def RXStatistics_zero_def)
qed

text \<open>Over any history of fetched chunks, consumed chunks and reports of a new
  stream, the total statistics are, field by field, the sum of the reported interval statistics and
  the current interval.\<close>

theorem rx_totals_match_reports:
  assumes "fold (rx_step m) es (AppRTPReceiveStream_new is_extended hds headers hdr_stride pay_stride, []) = (s, reports)"
  shows "m_statistic_totals s = stat_add (foldr stat_add reports RXStatistics_zero) (m_statistic s)"
  by (rule rx_run_totals[OF _ assms]) (simp add: AppRTPReceiveStream_new_def)

theorem rx_totals_match_reports_witness:
  "\<exists>s reports. fold (rx_step example_mem)
      [Fetch success example_chunk, Report, Consume NullReceiveDataConsumer example_chunk]
      (AppRTPReceiveStream_new False False True 0 32, []) = (s, reports)
    \<and> m_statistic_totals s = stat_add (foldr stat_add reports RXStatistics_zero) (m_statistic s)"
proof -
  let ?r = "fold (rx_step example_mem)
      [Fetch success example_chunk, Report, Consume NullReceiveDataConsumer example_chunk]
      (AppRTPReceiveStream_new False False True 0 32, [])"
  have "?r = (fst ?r, snd ?r)" by simp
  then show ?thesis using rx_totals_match_reports by blast
qed

text \<open>C16: for a stream that has just seen the end of a frame, a chunk made of whole frames
  with valid headers, each with at least one packet before its marked last packet, yields exactly one
  frame start per frame, with the RTP timestamp and arrival time of the first packet of the frame.\<close>

theorem frame_start_events:
  assumes "wf_stream s" and "m_frame_notifier s" and "m_last_mbit s"
    and "\<forall>i<length (chunk_packets chunk). get_sequence_number (m_is_extended_sequence_number s) m
        (chunk_headers s chunk + i * header_stride s) (header_check_length s (chunk_packets chunk ! i)) \<noteq> None"
    and "map (packet_view m (header_stride s) (chunk_headers s chunk) (chunk_packets chunk))
        [0..<length (chunk_packets chunk)]
      = concat (map (\<lambda>(firsts, marked). map (Pair False) firsts @ [(True, marked)]) frames)"
    and "\<forall>(firsts, marked) \<in> set frames. firsts \<noteq> []"
  shows "rtp_events (snd (get_next_chunk m success chunk s))
      = rtp_events s @ map (\<lambda>(firsts, marked). hd firsts) frames"
proof -
  let ?s1 = "update_both (\<lambda>st. st\<lparr>rx_count := rx_count st + word_of_nat (length (chunk_packets chunk))\<rparr>) s"
  have "rtp_events (process_strides m (header_stride s) (chunk_headers s chunk) (chunk_packets chunk) ?s1)
      = rtp_events ?s1 @ frame_starts (m_last_mbit ?s1)
          (map (packet_view m (header_stride s) (chunk_headers s chunk) (chunk_packets chunk))
             [0..<length (chunk_packets chunk)])"
    using process_strides_frame_starts[of ?s1 "chunk_packets chunk" m "chunk_headers s chunk" "header_stride s"] assms(1,2,4)
    by (simp add: wf_stream_def)
  then show ?thesis
    using assms(3,5) frame_starts_frames[OF assms(6)] by (simp add: get_next_chunk_success)
qed

theorem frame_start_events_witness:
  "rtp_events (snd (get_next_chunk example_mem success example_chunk (example_stream\<lparr>m_last_mbit := True\<rparr>))) = [(0, 7)]"
proof -
  have "rtp_events (snd (get_next_chunk example_mem success example_chunk (example_stream\<lparr>m_last_mbit := True\<rparr>)))
      = rtp_events (example_stream\<lparr>m_last_mbit := True\<rparr>) @ map (\<lambda>(firsts, marked). hd firsts) [([(0 :: u32, 7 :: u64)], (0 :: u32, 8 :: u64))]"
    by (rule frame_start_events)
       (simp_all add: wf_stream_def example_stream_def AppRTPReceiveStream_new_def
          RTP_SEQUENCE_NUMBER_MASK_16BIT_def mask_eq_exp_minus_1 example_chunk_def
          less_Suc_eq get_sequence_number_def header_check_length_def header_stride_def chunk_headers_def
          example_mem_def packet_view_def header_mbit_def header_rtp_timestamp_def)
  then show ?thesis by (simp add: example_stream_def AppRTPReceiveStream_new_def)
qed

text \<open>C17: when every call succeeds, all flows are attached in order, the streams get
  consecutive shares whose sizes differ by at most one, and every stream gets its share.\<close>

theorem process_flows_partition:
  assumes "0 < streams" and "streams \<le> length flows" and "\<forall>i flow. op i flow = success"
  shows "\<exists>calls. process_flows op streams flows = (success, calls)
    \<and> map snd calls = flows \<and> sorted (map fst calls)
    \<and> (\<forall>i < streams. length (filter (\<lambda>c. fst c = i) calls)
          = length flows div streams + (if i < length flows mod streams then 1 else 0))"
proof -
  let ?a = "length flows div streams" and ?b = "length flows mod streams"
  let ?calls = "flow_assignment ?a ?b streams 0 flows"
  have b: "min ?b streams = ?b" using assms(1) by (simp add: min_def)
  have total: "streams * ?a + ?b = length flows" by simp
  have "process_flows op streams flows = (success, ?calls)"
    using assms run_calls_ok[of ?calls op "[]"] by (auto simp: process_flows_def process_streams_run)
  moreover have "map snd ?calls = flows" using total b by (simp add: flow_assignment_flows)
  moreover have "length (filter (\<lambda>c. fst c = i) ?calls) = ?a + (if i < ?b then 1 else 0)" if "i < streams" for i
    using flow_assignment_share[of 0 i streams ?a ?b flows] that total b by simp
  ultimately show ?thesis using flow_assignment_sorted by blast
qed

theorem process_flows_partition_witness:
  "\<exists>calls. process_flows (\<lambda>_ _. success) 2 [''a'', ''b'', ''c''] = (success, calls)
    \<and> map snd calls = [''a'', ''b'', ''c''] \<and> length (filter (\<lambda>c. fst c = 0) calls) = 2"
  using process_flows_partition[of 2 "[''a'', ''b'', ''c'']" "\<lambda>_ _. success"] by fastforce

text \<open>C18: the first call that fails ends the assignment with its status, after
  exactly the calls that precede it in the order of the flows.\<close>

theorem process_flows_first_failure:
  assumes "0 < streams" and "streams \<le> length flows"
    and "flow_assignment (length flows div streams) (length flows mod streams) streams 0 flows
      = before @ (i, flow) # after"
    and "\<forall>(j, fl) \<in> set before. op j fl = success" and "op i flow \<noteq> success"
  shows "process_flows op streams flows = (op i flow, before @ [(i, flow)])"
  using assms run_calls_fail[OF assms(4,5), of after "[]"]
  by (auto simp: process_flows_def process_streams_run)

theorem process_flows_first_failure_witness:
  "process_flows (\<lambda>i fl. if fl = ''b'' then failure else success) 2 [''a'', ''b'', ''c'']
    = (failure, [(0, ''a''), (0, ''b'')])"
proof -
  have "flow_assignment 1 1 (Suc (Suc 0)) 0 [''a'', ''b'', ''c''] = [(0, ''a'')] @ (0, ''b'') # [(1, ''c'')]"
    by simp
  then have "flow_assignment (length [''a'', ''b'', ''c''] div 2) (length [''a'', ''b'', ''c''] mod 2) 2 0 [''a'', ''b'', ''c'']
      = [(0, ''a'')] @ (0, ''b'') # [(1, ''c'')]"
    by (simp add: numeral_2_eq_2[symmetric] del: flow_assignment.simps)
  from process_flows_first_failure[OF _ _ this, of "\<lambda>i fl. if fl = ''b'' then failure else success"]
  show ?thesis by simp
qed

section \<open>Departures from the documented behaviour\<close>

text \<open>The number of consumed packets a consumer reports never reaches the statistics.\<close>

lemma consumed_packets_never_counted:
  "consumed_packets (m_statistic (snd (consume_chunk consumer chunk s))) = consumed_packets (m_statistic s)"
  by (simp add: consume_chunk_def Let_def update_consumed_packets_stats_def)

text \<open>With header-data split the header check is given the length of the payload: a packet with a full
  header and an empty payload counts as corrupt.\<close>

lemma hds_header_only_packet_is_corrupt:
  assumes "m_is_header_data_split s" "m_is_header_processing_enabled s" "sub_block_size_1 info = 0"
  shows "rx_corrupt_header (m_statistic (process_stride m header info s)) = rx_corrupt_header (m_statistic s) + 1"
  using process_stride_effect(6)[OF assms(2), of m header info] assms(1,3)
  by (simp add: get_sequence_number_def header_check_length_def stride_stats_def)

text \<open>A packet that repeats the last sequence number counts as a loss of the whole range.\<close>

lemma duplicate_counts_as_range_lost:
  assumes "wf_stream s" "m_initialized s"
    and "get_sequence_number (m_is_extended_sequence_number s) m header (header_check_length s info)
      = Some (m_last_sequence_number s)"
  shows "rx_dropped (m_statistic (process_stride m header info s))
      = rx_dropped (m_statistic s) + (mask (seq_bits s) :: u64)"
proof -
  have "(- 1 :: u32) AND mask n = mask n" for n by simp
  then show ?thesis
    using process_stride_effect(6)[of s m header info] assms
    by (simp add: wf_stream_def stride_stats_def mask_eq_exp_minus_1)
qed

end
