(* ===== verification/Ipo_Receive.thy ===== *)
theory Ipo_Receive
  imports Rtp_Receive
begin

text \<open>
  The redundant ("in-packet-order") receive stream of \<^verbatim>\<open>core/stream/receive/ipo_receive_stream.cpp\<close>
  and its statistics-keeping subclass in \<^verbatim>\<open>io_node/receivers/ipo_receiver_io_node.cpp\<close>.  Several paths
  deliver copies of one RTP stream; the hardware places every packet in a ring by sequence number,
  and the stream hands contiguous runs of packets to the caller, each only after it has been held for
  the maximal path differential.  The virtual functions of the class are a record of handlers over
  the extensible state, so that the base class and its subclass are two instances of the same code;
  time is in nanoseconds and is an input of every call.
\<close>

section \<open>State\<close>

datatype State = NotStarted | WaitFirstPacket | Running | Waiting

record ext_packet_info =
  info_sequence_number :: u32
  is_valid :: bool
  info_timestamp :: int
  hw_timestamp :: u64

record IPOReceiveStream =
  m_header_data_split :: bool
  m_pkt_info_enabled :: bool
  m_num_of_packets_in_chunk :: u32
  m_max_path_differential :: int
  m_sender_restart_threshold :: int
  m_last_processed_sequence_number :: u32
  m_sequence_number_wrap_around :: u32
  m_sequence_number_msb_mask :: u32
  m_sequence_number_init_offset :: u32
  m_state :: State
  m_header_buffer :: nat
  m_payload_buffer :: nat
  m_ext_packet_info_arr :: "ext_packet_info list"
  m_packet_info_arr :: "ReceivePacketInfo list"
  m_ring_header_stride :: nat
  m_ring_payload_stride :: nat
  m_index :: nat
  m_next_packet_time :: int
  m_start_time :: int
  m_now :: int
  m_stream_created :: bool

text \<open>The chunk handed to the caller; the packet information is given by the ring slot it starts at.\<close>

record IPOReceiveChunk =
  completion_chunk_size :: nat
  completion_seqn_first :: u32
  completion_timestamp_first :: u64
  completion_timestamp_last :: u64
  completion_header_ptr :: nat
  completion_payload_ptr :: nat
  completion_info_slot :: "nat option"

text \<open>The virtual functions of the class: the RTP header parser with the sequence number mask, and the
  packet handlers, which get the path and the packet.\<close>

record 'x handlers =
  h_get_sequence_number :: "mem \<Rightarrow> nat \<Rightarrow> u64 \<Rightarrow> u32 option"
  h_sequence_number_mask :: u32
  handle_corrupted_packet :: "nat \<Rightarrow> ReceivePacketInfo \<Rightarrow> 'x IPOReceiveStream_scheme \<Rightarrow> 'x IPOReceiveStream_scheme"
  handle_late_packet :: "nat \<Rightarrow> u32 \<Rightarrow> ReceivePacketInfo \<Rightarrow> 'x IPOReceiveStream_scheme \<Rightarrow> 'x IPOReceiveStream_scheme"
  handle_packet :: "nat \<Rightarrow> u32 \<Rightarrow> ReceivePacketInfo \<Rightarrow> 'x IPOReceiveStream_scheme \<Rightarrow> 'x IPOReceiveStream_scheme"
  handle_redundant_packet :: "nat \<Rightarrow> u32 \<Rightarrow> ReceivePacketInfo \<Rightarrow> 'x IPOReceiveStream_scheme \<Rightarrow> 'x IPOReceiveStream_scheme"
  complete_packet :: "u32 \<Rightarrow> 'x IPOReceiveStream_scheme \<Rightarrow> 'x IPOReceiveStream_scheme"
  handle_sender_restart :: "'x IPOReceiveStream_scheme \<Rightarrow> 'x IPOReceiveStream_scheme"

section \<open>Creation and start\<close>

definition ext_packet_info_default :: ext_packet_info where
  "ext_packet_info_default =
    \<lparr>info_sequence_number = 0, is_valid = False, info_timestamp = 0, hw_timestamp = 0\<rparr>"

definition IPOReceiveStream_new :: "nat \<Rightarrow> bool \<Rightarrow> bool \<Rightarrow> int \<Rightarrow> nat \<Rightarrow> nat \<Rightarrow> IPOReceiveStream" where
  "IPOReceiveStream_new packets_in_chunk hds pkt_info max_path_differential_us hdr_stride pay_stride =
    \<lparr>m_header_data_split = hds, m_pkt_info_enabled = pkt_info,
     m_num_of_packets_in_chunk = word_of_nat packets_in_chunk,
     m_max_path_differential = max_path_differential_us * 1000,
     m_sender_restart_threshold = 100000000,
     m_last_processed_sequence_number = 0, m_sequence_number_wrap_around = 0,
     m_sequence_number_msb_mask = 0, m_sequence_number_init_offset = 0, m_state = NotStarted,
     m_header_buffer = 0, m_payload_buffer = 0,
     m_ext_packet_info_arr = replicate packets_in_chunk ext_packet_info_default,
     m_packet_info_arr = replicate packets_in_chunk
       \<lparr>sub_block_size_0 = 0, sub_block_size_1 = 0, packet_timestamp = 0\<rparr>,
     m_ring_header_stride = hdr_stride, m_ring_payload_stride = pay_stride, m_index = 0,
     m_next_packet_time = 0, m_start_time = 0, m_now = 0, m_stream_created = False\<rparr>"

definition get_sequence_number_wrap_around :: "u32 \<Rightarrow> u32 \<Rightarrow> u32" where
  "get_sequence_number_wrap_around seq_mask buffer_elements =
    (if seq_mask \<ge> buffer_elements then buffer_elements else seq_mask + 1)"

text \<open>\<open>create_stream\<close> with the results of creating the streams of the paths.\<close>

definition create_stream :: "'x handlers \<Rightarrow> ReturnStatus list \<Rightarrow> 'x IPOReceiveStream_scheme
    \<Rightarrow> ReturnStatus \<times> 'x IPOReceiveStream_scheme" where
  "create_stream h results s =
    (let seq_mask = h_sequence_number_mask h;
         s1 = s\<lparr>m_sequence_number_wrap_around := get_sequence_number_wrap_around seq_mask (m_num_of_packets_in_chunk s),
                m_sequence_number_msb_mask := drop_bit 1 seq_mask + 1,
                m_sequence_number_init_offset := ucast (((ucast seq_mask :: u64) + 1) div 4)\<rparr>
     in case List.find (\<lambda>r. r \<noteq> success) results of
          Some r \<Rightarrow> (r, s1)
        | None \<Rightarrow> (success, s1\<lparr>m_stream_created := True\<rparr>))"

definition start :: "int \<Rightarrow> 'x IPOReceiveStream_scheme \<Rightarrow> 'x IPOReceiveStream_scheme" where
  "start now s = s\<lparr>m_state := WaitFirstPacket, m_start_time := now + m_max_path_differential s\<rparr>"

text \<open>Attaching stops at the first failing path; detaching and destroying go through all paths.\<close>

definition attach_flows :: "ReturnStatus list \<Rightarrow> 'x IPOReceiveStream_scheme \<Rightarrow> ReturnStatus" where
  "attach_flows results s =
    (if \<not> m_stream_created s then failure
     else case List.find (\<lambda>r. r \<noteq> success) results of Some r \<Rightarrow> r | None \<Rightarrow> success)"

definition detach_flows :: "ReturnStatus list \<Rightarrow> 'x IPOReceiveStream_scheme \<Rightarrow> ReturnStatus" where
  "detach_flows results s =
    (if \<not> m_stream_created s then failure
     else if list_all (\<lambda>r. r = success) results then success else failure)"

definition destroy_stream :: "ReturnStatus list \<Rightarrow> 'x IPOReceiveStream_scheme
    \<Rightarrow> ReturnStatus \<times> 'x IPOReceiveStream_scheme" where
  "destroy_stream results s =
    (if \<not> m_stream_created s then (failure, s)
     else (if list_all (\<lambda>r. r = success) results then success else failure,
           s\<lparr>m_stream_created := False\<rparr>))"

section \<open>Receiving packets\<close>

definition ring_slot :: "'x IPOReceiveStream_scheme \<Rightarrow> u32 \<Rightarrow> nat" where
  "ring_slot s sequence_number = unat (sequence_number mod m_sequence_number_wrap_around s)"

text \<open>The switch over the state before a packet is filed (lines 508 to 532); \<open>NotStarted\<close> is excluded by
  an assertion.\<close>

definition prepare_state :: "'x handlers \<Rightarrow> u32 \<Rightarrow> 'x IPOReceiveStream_scheme \<Rightarrow> 'x IPOReceiveStream_scheme" where
  "prepare_state h sequence_number s =
    (let idx = ring_slot s sequence_number;
         last = (sequence_number - m_sequence_number_init_offset s) AND h_sequence_number_mask h
     in case m_state s of
          NotStarted \<Rightarrow> s
        | Running \<Rightarrow> s
        | WaitFirstPacket \<Rightarrow>
            s\<lparr>m_index := idx, m_last_processed_sequence_number := last, m_state := Running,
              m_next_packet_time := m_now s\<rparr>
        | Waiting \<Rightarrow>
            (let s1 = (if m_now s - m_next_packet_time s > m_sender_restart_threshold s
                       then (handle_sender_restart h s)
                              \<lparr>m_index := idx, m_last_processed_sequence_number := last,
                               m_start_time := m_now s + m_max_path_differential s\<rparr>
                       else s)
             in s1\<lparr>m_state := Running, m_next_packet_time := m_now s\<rparr>))"

text \<open>Filing one packet (lines 533 to 543).\<close>

definition file_packet :: "'x handlers \<Rightarrow> nat \<Rightarrow> u32 \<Rightarrow> ReceivePacketInfo \<Rightarrow> 'x IPOReceiveStream_scheme
    \<Rightarrow> 'x IPOReceiveStream_scheme" where
  "file_packet h path sequence_number info s =
    (let ext_info = m_ext_packet_info_arr s ! ring_slot s sequence_number;
         seq_delta = (sequence_number - m_last_processed_sequence_number s) AND h_sequence_number_mask h
     in if seq_delta = 0 \<or> seq_delta AND m_sequence_number_msb_mask s \<noteq> 0
        then handle_late_packet h path sequence_number info s
        else if \<not> is_valid ext_info \<or> info_sequence_number ext_info \<noteq> sequence_number
        then handle_packet h path sequence_number info s
        else handle_redundant_packet h path sequence_number info s)"

definition process_packet :: "'x handlers \<Rightarrow> mem \<Rightarrow> nat \<Rightarrow> nat \<Rightarrow> ReceivePacketInfo \<Rightarrow> 'x IPOReceiveStream_scheme
    \<Rightarrow> 'x IPOReceiveStream_scheme" where
  "process_packet h m path ptr info s =
    (case h_get_sequence_number h m ptr (sub_block_size_0 info) of
       None \<Rightarrow> handle_corrupted_packet h path info s
     | Some sequence_number \<Rightarrow>
         file_packet h path sequence_number info (prepare_state h sequence_number s))"

fun process_packets :: "'x handlers \<Rightarrow> mem \<Rightarrow> nat \<Rightarrow> nat \<Rightarrow> nat \<Rightarrow> ReceivePacketInfo list
    \<Rightarrow> 'x IPOReceiveStream_scheme \<Rightarrow> 'x IPOReceiveStream_scheme" where
  "process_packets h m path stride ptr [] s = s"
| "process_packets h m path stride ptr (info # infos) s =
    process_packets h m path stride (ptr + stride) infos (process_packet h m path ptr info s)"

text \<open>A null header pointer is address 0; the strides of the paths are those of the ring.\<close>

definition process_completion :: "'x handlers \<Rightarrow> mem \<Rightarrow> nat \<Rightarrow> ReceiveChunk \<Rightarrow> 'x IPOReceiveStream_scheme
    \<Rightarrow> 'x IPOReceiveStream_scheme" where
  "process_completion h m path chunk s =
    (let (ptr, stride) = (if chunk_header_ptr chunk \<noteq> 0 then (chunk_header_ptr chunk, m_ring_header_stride s)
                          else (chunk_payload_ptr chunk, m_ring_payload_stride s))
     in process_packets h m path stride ptr (chunk_packets chunk) s)"

section \<open>The default handlers\<close>

definition base_handle_packet :: "u32 \<Rightarrow> ReceivePacketInfo \<Rightarrow> 'x IPOReceiveStream_scheme \<Rightarrow> 'x IPOReceiveStream_scheme" where
  "base_handle_packet sequence_number info s =
    (let idx = ring_slot s sequence_number;
         s1 = (if m_pkt_info_enabled s then s\<lparr>m_packet_info_arr := (m_packet_info_arr s)[idx := info]\<rparr> else s)
     in s1\<lparr>m_ext_packet_info_arr := (m_ext_packet_info_arr s)[idx :=
            \<lparr>info_sequence_number = sequence_number, is_valid = True, info_timestamp = m_now s,
             hw_timestamp = packet_timestamp info\<rparr>]\<rparr>)"

definition base_complete_packet :: "u32 \<Rightarrow> 'x IPOReceiveStream_scheme \<Rightarrow> 'x IPOReceiveStream_scheme" where
  "base_complete_packet sequence_number s = s\<lparr>m_last_processed_sequence_number := sequence_number\<rparr>"

definition base_handlers :: "(mem \<Rightarrow> nat \<Rightarrow> u64 \<Rightarrow> u32 option) \<Rightarrow> u32 \<Rightarrow> 'x handlers" where
  "base_handlers parse seq_mask =
    \<lparr>h_get_sequence_number = parse, h_sequence_number_mask = seq_mask,
     handle_corrupted_packet = (\<lambda>_ _ s. s), handle_late_packet = (\<lambda>_ _ _ s. s),
     handle_packet = (\<lambda>_. base_handle_packet), handle_redundant_packet = (\<lambda>_ _ _ s. s),
     complete_packet = base_complete_packet, handle_sender_restart = (\<lambda>s. s)\<rparr>"

section \<open>Handing over a chunk\<close>

definition next_slot :: "nat \<Rightarrow> nat \<Rightarrow> nat" where
  "next_slot wa idx = (if idx + 1 \<ge> wa then 0 else idx + 1)"

text \<open>The search for the end of an interval of missing packets (lines 398 to 408), with the number of
  further slots that may be tried; \<open>None\<close> is the switch to \<open>Waiting\<close>.\<close>

fun search_valid :: "ext_packet_info list \<Rightarrow> nat \<Rightarrow> nat \<Rightarrow> nat \<Rightarrow> nat option" where
  "search_valid arr wa idx n =
    (if is_valid (arr ! idx) then Some idx
     else case n of 0 \<Rightarrow> None | Suc n' \<Rightarrow> search_valid arr wa (next_slot wa idx) n')"

declare search_valid.simps [simp del]

text \<open>The loop that drops the packets of the initial synchronisation (lines 422 to 438).  It ends when
  a slot is empty (\<open>False\<close>: nothing to hand over) or holds a packet that arrived after the start
  (\<open>True\<close>); every round empties a slot, so it does end.\<close>

definition invalidate :: "nat \<Rightarrow> ext_packet_info list \<Rightarrow> ext_packet_info list" where
  "invalidate idx arr = arr[idx := (arr ! idx)\<lparr>is_valid := False\<rparr>]"

lemma invalidate_decreases:
  "idx < length arr \<Longrightarrow> is_valid (arr ! idx) \<Longrightarrow>
   length (filter is_valid (invalidate idx arr)) < length (filter is_valid arr)"
proof (induction arr arbitrary: idx)
  case (Cons a arr)
  then show ?case
    by (cases idx) (fastforce simp: invalidate_def)+
qed simp

function skip_initial :: "'x IPOReceiveStream_scheme \<Rightarrow> 'x IPOReceiveStream_scheme \<times> bool" where
  "skip_initial s =
    (let idx = m_index s; info = m_ext_packet_info_arr s ! idx
     in if length (m_ext_packet_info_arr s) \<le> idx \<or> \<not> is_valid info then (s, False)
        else if info_timestamp info \<ge> m_start_time s then (s, True)
        else skip_initial (s\<lparr>m_next_packet_time := info_timestamp info,
                             m_ext_packet_info_arr := invalidate idx (m_ext_packet_info_arr s),
                             m_index := next_slot (unat (m_sequence_number_wrap_around s)) idx\<rparr>))"
  by pat_completeness auto
termination
  by (relation "measure (\<lambda>s. length (filter is_valid (m_ext_packet_info_arr s)))")
     (auto intro: invalidate_decreases)

declare skip_initial.simps [simp del]

text \<open>The loop that collects the run of packets to hand over (lines 447 to 469), with the number of
  slots left before the end of the ring; the result counts the packets.\<close>

fun collect_packets :: "'x handlers \<Rightarrow> nat \<Rightarrow> IPOReceiveChunk \<Rightarrow> nat \<Rightarrow> 'x IPOReceiveStream_scheme
    \<Rightarrow> 'x IPOReceiveStream_scheme \<times> IPOReceiveChunk \<times> nat" where
  "collect_packets h 0 chunk count s = (s, chunk, count)"
| "collect_packets h (Suc n) chunk count s =
    (let idx = m_index s; info = m_ext_packet_info_arr s ! idx
     in if \<not> is_valid info then (s, chunk, count)
        else if info_timestamp info + m_max_path_differential s \<ge> m_now s then (s, chunk, count)
        else
          let s1 = complete_packet h (info_sequence_number info)
                     (s\<lparr>m_ext_packet_info_arr := invalidate idx (m_ext_packet_info_arr s)\<rparr>);
              chunk1 = chunk\<lparr>completion_timestamp_last := hw_timestamp info\<rparr>
          in if idx + 1 \<ge> unat (m_sequence_number_wrap_around s1)
             then (s1\<lparr>m_index := 0\<rparr>, chunk1, count + 1)
             else collect_packets h n chunk1 (count + 1) (s1\<lparr>m_index := idx + 1\<rparr>))"

text \<open>Lines 386 to 481.\<close>

definition hand_over :: "'x handlers \<Rightarrow> IPOReceiveChunk \<Rightarrow> 'x IPOReceiveStream_scheme
    \<Rightarrow> 'x IPOReceiveStream_scheme \<times> IPOReceiveChunk" where
  "hand_over h chunk0 s =
    (let chunk = chunk0\<lparr>completion_chunk_size := 0\<rparr>;
         wa = unat (m_sequence_number_wrap_around s)
     in if m_state s \<noteq> Running then (s, chunk)
        else if m_next_packet_time s + m_max_path_differential s \<ge> m_now s then (s, chunk)
        else
          (case search_valid (m_ext_packet_info_arr s) wa (m_index s) (wa - 1) of
             None \<Rightarrow> (s\<lparr>m_state := Waiting\<rparr>, chunk)
           | Some start_idx \<Rightarrow>
             let info = m_ext_packet_info_arr s ! start_idx
             in if info_timestamp info + m_max_path_differential s \<ge> m_now s
                then (s\<lparr>m_next_packet_time := info_timestamp info\<rparr>, chunk)
                else
                  (case skip_initial (s\<lparr>m_index := start_idx\<rparr>) of
                     (s1, False) \<Rightarrow> (s1, chunk)
                   | (s1, True) \<Rightarrow>
                     let first = m_index s1;
                         info1 = m_ext_packet_info_arr s1 ! first;
                         chunk1 = chunk\<lparr>completion_seqn_first := info_sequence_number info1,
                                        completion_timestamp_first := hw_timestamp info1\<rparr>;
                         (s2, chunk2, count) = collect_packets h (wa - first) chunk1 0 s1;
                         chunk3 = chunk2\<lparr>completion_chunk_size := count,
                           completion_payload_ptr := m_payload_buffer s2 + first * m_ring_payload_stride s2\<rparr>;
                         chunk4 = (if m_header_data_split s2
                           then chunk3\<lparr>completion_header_ptr := m_header_buffer s2 + first * m_ring_header_stride s2\<rparr>
                           else chunk3);
                         chunk5 = (if m_pkt_info_enabled s2
                           then chunk4\<lparr>completion_info_slot := Some first\<rparr> else chunk4)
                     in (s2, chunk5))))"

text \<open>The whole call: the clock is read, the chunks of the paths are fetched in order, and a chunk is
  handed over.\<close>

fun process_paths :: "'x handlers \<Rightarrow> mem \<Rightarrow> nat \<Rightarrow> (ReturnStatus \<times> ReceiveChunk) list \<Rightarrow> 'x IPOReceiveStream_scheme
    \<Rightarrow> ReturnStatus \<times> 'x IPOReceiveStream_scheme" where
  "process_paths h m path [] s = (success, s)"
| "process_paths h m path ((status, chunk) # results) s =
    (if status \<noteq> success then (status, s)
     else process_paths h m (path + 1) results (process_completion h m path chunk s))"

definition ipo_get_next_chunk :: "'x handlers \<Rightarrow> mem \<Rightarrow> int \<Rightarrow> (ReturnStatus \<times> ReceiveChunk) list \<Rightarrow> IPOReceiveChunk
    \<Rightarrow> 'x IPOReceiveStream_scheme \<Rightarrow> ReturnStatus \<times> 'x IPOReceiveStream_scheme \<times> IPOReceiveChunk" where
  "ipo_get_next_chunk h m now results chunk s =
    (let s0 = s\<lparr>m_now := now\<rparr>;
         s1 = (if m_state s0 = NotStarted
               then s0\<lparr>m_state := WaitFirstPacket, m_start_time := now + m_max_path_differential s0\<rparr>
               else s0);
         (status, s2) = process_paths h m 0 results s1
     in if status \<noteq> success then (status, s2, chunk)
        else let (s3, chunk3) = hand_over h chunk s2 in (success, s3, chunk3))"

section \<open>The subclass with statistics\<close>

record IPOPathStatistics =
  path_rx_count :: u32
  path_rx_dropped :: u32

record IPORXStatistics = RXStatistics +
  rx_exceed_md :: u64
  path_stats :: "IPOPathStatistics list"

record AppIPOReceiveStream = IPOReceiveStream +
  app_is_extended_sequence_number :: bool
  app_statistic :: IPORXStatistics
  app_statistic_totals :: IPORXStatistics
  m_path_packets :: "u8 list list"
  app_initialized :: bool
  app_last_sequence_number :: u32

definition app_update_both :: "(IPORXStatistics \<Rightarrow> IPORXStatistics) \<Rightarrow> AppIPOReceiveStream \<Rightarrow> AppIPOReceiveStream" where
  "app_update_both upd s = s\<lparr>app_statistic := upd (app_statistic s), app_statistic_totals := upd (app_statistic_totals s)\<rparr>"

definition app_handle_corrupted_packet :: "nat \<Rightarrow> ReceivePacketInfo \<Rightarrow> AppIPOReceiveStream \<Rightarrow> AppIPOReceiveStream" where
  "app_handle_corrupted_packet path info s =
    app_update_both (\<lambda>st. st\<lparr>rx_corrupt_header := rx_corrupt_header st + 1\<rparr>) s"

definition app_handle_late_packet :: "nat \<Rightarrow> u32 \<Rightarrow> ReceivePacketInfo \<Rightarrow> AppIPOReceiveStream \<Rightarrow> AppIPOReceiveStream" where
  "app_handle_late_packet path sequence_number info s =
    app_update_both (\<lambda>st. st\<lparr>rx_exceed_md := rx_exceed_md st + 1\<rparr>) s"

definition app_handle_packet :: "nat \<Rightarrow> u32 \<Rightarrow> ReceivePacketInfo \<Rightarrow> AppIPOReceiveStream \<Rightarrow> AppIPOReceiveStream" where
  "app_handle_packet path sequence_number info s0 =
    (let s = base_handle_packet sequence_number info s0;
         slot = ring_slot s sequence_number;
         by_paths = m_path_packets s ! slot
     in s\<lparr>m_path_packets := (m_path_packets s)[slot :=
           map (\<lambda>i. if i = path then 1 else 0) [0..<length by_paths]]\<rparr>)"

definition app_handle_redundant_packet :: "nat \<Rightarrow> u32 \<Rightarrow> ReceivePacketInfo \<Rightarrow> AppIPOReceiveStream \<Rightarrow> AppIPOReceiveStream" where
  "app_handle_redundant_packet path sequence_number info s =
    (let slot = ring_slot s sequence_number
     in s\<lparr>m_path_packets := (m_path_packets s)[slot := (m_path_packets s ! slot)[path := 1]]\<rparr>)"

definition count_path :: "u8 \<Rightarrow> IPOPathStatistics \<Rightarrow> IPOPathStatistics" where
  "count_path got st = st\<lparr>path_rx_count := path_rx_count st + ucast got,
                          path_rx_dropped := path_rx_dropped st + (1 - ucast got)\<rparr>"

definition app_complete_packet :: "u32 \<Rightarrow> u32 \<Rightarrow> AppIPOReceiveStream \<Rightarrow> AppIPOReceiveStream" where
  "app_complete_packet seq_mask sequence_number s0 =
    (let s = base_complete_packet sequence_number s0;
         by_paths = m_path_packets s ! ring_slot s sequence_number;
         s1 = app_update_both (\<lambda>st. st\<lparr>path_stats :=
                map (\<lambda>(got, st). count_path got st) (zip by_paths (path_stats st))
                  @ drop (length by_paths) (path_stats st)\<rparr>) s;
         s2 = (if app_initialized s1
               then let expected = app_last_sequence_number s1 + 1;
                        num_dropped = (sequence_number - expected) AND seq_mask
                    in app_update_both (\<lambda>st. st\<lparr>rx_dropped := rx_dropped st + ucast num_dropped\<rparr>) s1
               else s1)
     in s2\<lparr>app_initialized := True, app_last_sequence_number := sequence_number\<rparr>)"

definition app_handle_sender_restart :: "AppIPOReceiveStream \<Rightarrow> AppIPOReceiveStream" where
  "app_handle_sender_restart s = s\<lparr>app_initialized := False\<rparr>"

definition app_sequence_number_mask :: "bool \<Rightarrow> u32" where
  "app_sequence_number_mask is_extended =
    (if is_extended then RTP_SEQUENCE_NUMBER_MASK_32BIT else RTP_SEQUENCE_NUMBER_MASK_16BIT)"

definition app_get_sequence_number :: "bool \<Rightarrow> mem \<Rightarrow> nat \<Rightarrow> u64 \<Rightarrow> u32 option" where
  "app_get_sequence_number is_extended m header len =
    (if len < 4 \<or> m header AND 0xC0 \<noteq> 0x80 then None
     else
       let sn = ucast (m (header + 3)) OR push_bit 8 (ucast (m (header + 2)));
           cc = 0x0F AND m header;
           offset = unat (cc * word_of_nat RTP_HEADER_CSRC_GRANULARITY_BYTES)
       in if is_extended
          then Some (sn OR (push_bit 24 (ucast (m (header + offset + 12)))
                            OR push_bit 16 (ucast (m (header + offset + 13)))))
          else Some sn)"

definition app_handlers where
  "app_handlers is_extended =
    \<lparr>h_get_sequence_number = app_get_sequence_number is_extended,
     h_sequence_number_mask = app_sequence_number_mask is_extended,
     handle_corrupted_packet = app_handle_corrupted_packet,
     handle_late_packet = app_handle_late_packet, handle_packet = app_handle_packet,
     handle_redundant_packet = app_handle_redundant_packet,
     complete_packet = app_complete_packet (app_sequence_number_mask is_extended),
     handle_sender_restart = app_handle_sender_restart\<rparr>"

definition AppIPOReceiveStream_new :: "nat \<Rightarrow> bool \<Rightarrow> bool \<Rightarrow> bool \<Rightarrow> int \<Rightarrow> nat \<Rightarrow> nat \<Rightarrow> nat \<Rightarrow> AppIPOReceiveStream" where
  "AppIPOReceiveStream_new packets_in_chunk hds pkt_info is_extended max_path_differential_us hdr_stride pay_stride paths =
    (let st = RXStatistics.extend RXStatistics_zero
           (IPORXStatistics.fields 0 (replicate paths \<lparr>path_rx_count = 0, path_rx_dropped = 0\<rparr>))
     in IPOReceiveStream.extend
          (IPOReceiveStream_new packets_in_chunk hds pkt_info max_path_differential_us hdr_stride pay_stride)
          (AppIPOReceiveStream.fields is_extended st st
             (replicate packets_in_chunk (replicate paths 0)) False 0))"

text \<open>The overridden \<open>get_next_chunk\<close>: the packets handed over are added to both statistics.  Their sizes are
  read from the information of the ring slots, which the receiver node always requests.\<close>

definition app_get_next_chunk :: "mem \<Rightarrow> int \<Rightarrow> (ReturnStatus \<times> ReceiveChunk) list \<Rightarrow> IPOReceiveChunk
    \<Rightarrow> AppIPOReceiveStream \<Rightarrow> ReturnStatus \<times> AppIPOReceiveStream \<times> IPOReceiveChunk" where
  "app_get_next_chunk m now results chunk s =
    (let (status, s1, chunk1) = ipo_get_next_chunk (app_handlers (app_is_extended_sequence_number s)) m now results chunk s
     in if status \<noteq> success then (status, s1, chunk1)
        else
          let n = completion_chunk_size chunk1;
              infos = (case completion_info_slot chunk1 of None \<Rightarrow> []
                       | Some slot \<Rightarrow> take n (drop slot (m_packet_info_arr s1)));
              bytes = (\<Sum>info\<leftarrow>infos. sub_block_size_0 info + (if m_header_data_split s1 then sub_block_size_1 info else 0));
              s2 = app_update_both (\<lambda>st. st\<lparr>rx_count := rx_count st + word_of_nat n,
                                             received_bytes := received_bytes st + bytes\<rparr>) s1
          in (status, s2, chunk1))"

section \<open>Sequence numbers and positions\<close>

lemma unat_seq_of: "k \<le> 32 \<Longrightarrow> unat (seq_of k p) = p mod 2 ^ k"
proof -
  assume k: "k \<le> 32"
  have "unat (seq_of k p) = take_bit k (take_bit 32 p)"
    by (simp add: seq_of_def unsigned_take_bit_eq unsigned_of_nat)
  also have "\<dots> = take_bit k p" using k by (simp add: min_def)
  also have "\<dots> = p mod 2 ^ k" by (rule take_bit_eq_mod)
  finally show ?thesis .
qed

lemma seq_of_inj:
  assumes "k \<le> 32" "seq_of k p = seq_of k q" "p \<le> q" "q < p + 2 ^ k"
  shows "p = q"
proof -
  have "p mod 2 ^ k = q mod 2 ^ k" using assms(1,2) by (metis unat_seq_of)
  then have "2 ^ k dvd q - p" using assms(3) by (metis mod_eq_dvd_iff_nat)
  then show ?thesis using assms(3,4) by (auto dest: dvd_imp_le simp: nat_dvd_not_less)
qed

lemma unat_seq_delta:
  assumes "k \<le> 32" "l \<le> p" "p - l < 2 ^ k"
  shows "unat ((seq_of k p - seq_of k l) AND mask k) = p - l"
proof -
  have s: "seq_of k n = word_of_int (take_bit k (int n))" for n
    using take_bit_word_of_int[of k "int n", where 'a=32] assms(1) by (simp add: seq_of_def)
  have "(seq_of k p - seq_of k l) AND mask k
      = word_of_int (take_bit k (take_bit k (int p) - take_bit k (int l)))"
    using take_bit_word_of_int[of k "take_bit k (int p) - take_bit k (int l)", where 'a=32] assms(1)
    by (simp add: s take_bit_eq_mask[symmetric])
  also have "take_bit k (take_bit k (int p) - take_bit k (int l)) = int (take_bit k (p - l))"
    using assms(2) by (simp add: take_bit_diff of_nat_take_bit of_nat_diff)
  also have "take_bit k (p - l) = p - l" using assms(3) by (simp add: take_bit_nat_eq_self)
  finally have "(seq_of k p - seq_of k l) AND mask k = word_of_nat (p - l)" by simp
  moreover have "p - l < 2 ^ 32" using assms(1,3) power_increasing[of k 32 "2::nat"] by linarith
  ultimately show ?thesis by (simp add: unat_word_of_nat del: of_nat_diff)
qed

lemma msb_test:
  assumes "k \<le> 32" "0 < k" "unat (x :: u32) < 2 ^ k"
  shows "x AND 2 ^ (k - 1) \<noteq> 0 \<longleftrightarrow> 2 ^ (k - 1) \<le> unat x"
proof -
  have "x AND 2 ^ (k - 1) \<noteq> 0 \<longleftrightarrow> bit x (k - 1)"
    by (simp add: and_exp_eq_0_iff_not_bit)
  also have "\<dots> \<longleftrightarrow> bit (unat x) (k - 1)" using assms(1,2) by (simp add: bit_unsigned_iff)
  also have "\<dots> \<longleftrightarrow> odd (unat x div 2 ^ (k - 1))" by (simp add: bit_iff_odd)
  also have "\<dots> \<longleftrightarrow> 2 ^ (k - 1) \<le> unat x"
  proof -
    have "unat x < 2 * 2 ^ (k - 1)" using assms(2,3) by (cases k) simp_all
    then have "unat x div 2 ^ (k - 1) < 2" by (simp add: div_less_iff_less_mult mult.commute)
    moreover have "unat x div 2 ^ (k - 1) = 0 \<longleftrightarrow> unat x < 2 ^ (k - 1)" by (simp add: div_eq_0_iff)
    ultimately show ?thesis by (cases "unat x div 2 ^ (k - 1)") auto
  qed
  finally show ?thesis .
qed

text \<open>A packet is late exactly when its position is not after the last one processed, within half the
  sequence range either way.\<close>

lemma late_test_ahead:
  assumes "k \<le> 32" "0 < k" "l < p" "p - l < 2 ^ (k - 1)"
  shows "\<not> ((seq_of k p - seq_of k l) AND mask k = 0 \<or> ((seq_of k p - seq_of k l) AND mask k) AND 2 ^ (k - 1) \<noteq> 0)"
proof -
  have k1: "(2::nat) ^ (k - 1) < 2 ^ k" using assms(2) by (intro power_strict_increasing) auto
  have d: "unat ((seq_of k p - seq_of k l) AND mask k) = p - l"
    by (rule unat_seq_delta) (use assms k1 in linarith)+
  have "((seq_of k p - seq_of k l) AND mask k) \<noteq> 0" using d assms(3) by (auto simp: word_eq_unat)
  moreover have "((seq_of k p - seq_of k l) AND mask k) AND 2 ^ (k - 1) = 0"
    using msb_test[of k "(seq_of k p - seq_of k l) AND mask k"] d assms k1 by auto
  ultimately show ?thesis by simp
qed

lemma late_test_behind:
  assumes "k \<le> 32" "0 < k" "p \<le> l" "l - p < 2 ^ (k - 1)"
  shows "(seq_of k p - seq_of k l) AND mask k = 0 \<or> ((seq_of k p - seq_of k l) AND mask k) AND 2 ^ (k - 1) \<noteq> 0"
proof (cases "p = l")
  case False
  have k1: "2 * (2::nat) ^ (k - 1) = 2 ^ k" using assms(2) by (cases k) simp_all
  have per: "seq_of k (p + 2 ^ k) = seq_of k p"
    using assms(1) by (simp add: word_eq_unat unat_seq_of)
  have d: "unat ((seq_of k (p + 2 ^ k) - seq_of k l) AND mask k) = p + 2 ^ k - l"
    by (rule unat_seq_delta) (use assms k1 False in auto)
  have "2 ^ (k - 1) \<le> p + 2 ^ k - l" "p + 2 ^ k - l < 2 ^ k" using assms k1 False by auto
  then have "((seq_of k p - seq_of k l) AND mask k) AND 2 ^ (k - 1) \<noteq> 0"
    using msb_test[of k "(seq_of k p - seq_of k l) AND mask k"] d assms(1,2) unfolding per by auto
  then show ?thesis by simp
qed simp


section \<open>The reorder buffer a stream implements\<close>

record reorder =
  r_next :: nat
  r_last :: nat
  r_buf :: "nat \<Rightarrow> int option"

definition ring_ok :: "nat \<Rightarrow> 'x IPOReceiveStream_scheme \<Rightarrow> bool" where
  "ring_ok k s \<longleftrightarrow> k \<le> 32 \<and> 0 < k \<and> 0 < unat (m_sequence_number_wrap_around s)
     \<and> unat (m_sequence_number_wrap_around s) dvd 2 ^ k
     \<and> unat (m_sequence_number_wrap_around s) \<le> length (m_ext_packet_info_arr s)
     \<and> m_sequence_number_msb_mask s = 2 ^ (k - 1)"

abbreviation ring_size :: "'x IPOReceiveStream_scheme \<Rightarrow> nat" where
  "ring_size s \<equiv> unat (m_sequence_number_wrap_around s)"

text \<open>The slot of a position holds exactly what the buffer has there.\<close>

definition slot_agrees :: "nat \<Rightarrow> ext_packet_info \<Rightarrow> nat \<Rightarrow> int option \<Rightarrow> bool" where
  "slot_agrees k info q v = (case v of None \<Rightarrow> \<not> is_valid info
     | Some t \<Rightarrow> is_valid info \<and> info_sequence_number info = seq_of k q \<and> info_timestamp info = t)"

definition implements :: "nat \<Rightarrow> 'x IPOReceiveStream_scheme \<Rightarrow> reorder \<Rightarrow> bool" where
  "implements k s r \<longleftrightarrow> ring_ok k s \<and> r_last r < r_next r
     \<and> m_index s = r_next r mod ring_size s
     \<and> m_last_processed_sequence_number s = seq_of k (r_last r)
     \<and> dom (r_buf r) \<subseteq> {r_next r..<r_next r + ring_size s}
     \<and> (\<forall>q\<in>{r_next r..<r_next r + ring_size s}.
          slot_agrees k (m_ext_packet_info_arr s ! (q mod ring_size s)) q (r_buf r q))"

definition receive :: "nat \<Rightarrow> int \<Rightarrow> reorder \<Rightarrow> reorder" where
  "receive p now r = (if p \<le> r_last r \<or> r_buf r p \<noteq> None then r else r\<lparr>r_buf := (r_buf r)(p \<mapsto> now)\<rparr>)"

text \<open>Positions the code can place: in the window the ring covers and less than half the sequence range
  ahead, or late by less than half the range.\<close>

definition placeable :: "nat \<Rightarrow> nat \<Rightarrow> nat \<Rightarrow> reorder \<Rightarrow> bool" where
  "placeable k wa p r \<longleftrightarrow> (r_next r \<le> p \<and> p < r_next r + wa \<and> p - r_last r < 2 ^ (k - 1))
     \<or> (p \<le> r_last r \<and> r_last r - p < 2 ^ (k - 1))"

lemma window_mod_inj:
  assumes "q \<in> {n..<n + wa}" "q' \<in> {n..<n + wa}" "q mod wa = q' mod (wa::nat)"
  shows "q = q'"
proof -
  have "q = q'" if "q \<le> q'" "q \<in> {n..<n + wa}" "q' \<in> {n..<n + wa}" "q mod wa = q' mod wa" for q q' :: nat
  proof -
    have "wa dvd q' - q" using that(1,4) by (metis mod_eq_dvd_iff_nat)
    then show ?thesis using that by (auto dest: dvd_imp_le simp: nat_dvd_not_less)
  qed
  then show ?thesis using assms by (metis nat_le_linear)
qed

lemma ring_slot_seq_of: "ring_ok k s \<Longrightarrow> ring_slot s (seq_of k p) = p mod ring_size s"
  by (simp add: ring_slot_def ring_ok_def unat_mod unat_seq_of mod_mod_cancel)

lemma file_packet_receive:
  assumes imp: "implements k s r" and pl: "placeable k (ring_size s) p r"
  shows "\<exists>s'. file_packet (base_handlers parse (mask k)) path (seq_of k p) info s = s'
    \<and> implements k s' (receive p (m_now s) r)
    \<and> (p \<le> r_last r \<or> r_buf r p \<noteq> None \<longrightarrow> s' = s)
    \<and> m_state s' = m_state s \<and> m_now s' = m_now s \<and> ring_size s' = ring_size s"
proof -
  let ?wa = "ring_size s" and ?arr = "m_ext_packet_info_arr s"
  have ok: "ring_ok k s" and lp: "m_last_processed_sequence_number s = seq_of k (r_last r)"
    and ln: "r_last r < r_next r"
    and slots: "\<forall>q\<in>{r_next r..<r_next r + ?wa}. slot_agrees k (?arr ! (q mod ?wa)) q (r_buf r q)"
    and dom: "dom (r_buf r) \<subseteq> {r_next r..<r_next r + ?wa}"
    using imp by (auto simp: implements_def)
  have k: "k \<le> 32" "0 < k" and msb: "m_sequence_number_msb_mask s = 2 ^ (k - 1)"
    and wa0: "0 < ?wa" and wal: "?wa \<le> length ?arr"
    using ok by (auto simp: ring_ok_def)
  note sl = ring_slot_seq_of[OF ok, of p]
  consider (late) "p \<le> r_last r" "r_last r - p < 2 ^ (k - 1)"
    | (ahead) "r_next r \<le> p" "p < r_next r + ?wa" "p - r_last r < 2 ^ (k - 1)"
    using pl by (auto simp: placeable_def)
  then show ?thesis
  proof cases
    case late
    then show ?thesis
      using late_test_behind[OF k late] imp
      by (simp add: file_packet_def base_handlers_def Let_def lp msb receive_def)
  next
    case ahead
    then have pw: "p \<in> {r_next r..<r_next r + ?wa}" by simp
    have na: "\<not> p \<le> r_last r" using ahead ln by simp
    note late = late_test_ahead[OF k _ ahead(3)]
    have sa: "slot_agrees k (?arr ! (p mod ?wa)) p (r_buf r p)" using slots pw by blast
    show ?thesis
    proof (cases "r_buf r p")
      case (Some t)
      then show ?thesis
        using late na sa imp
        by (simp add: file_packet_def base_handlers_def Let_def lp msb sl slot_agrees_def receive_def)
    next
      case None
      define s' where "s' = base_handle_packet (seq_of k p) info s"
      have f: "file_packet (base_handlers parse (mask k)) path (seq_of k p) info s = s'"
        using late na sa None
        by (simp add: file_packet_def base_handlers_def Let_def lp msb sl slot_agrees_def s'_def)
      have arr': "m_ext_packet_info_arr s' = ?arr[p mod ?wa :=
            \<lparr>info_sequence_number = seq_of k p, is_valid = True, info_timestamp = m_now s,
             hw_timestamp = packet_timestamp info\<rparr>]"
        and same: "ring_size s' = ?wa" "m_index s' = m_index s" "m_sequence_number_wrap_around s' = m_sequence_number_wrap_around s"
          "m_last_processed_sequence_number s' = m_last_processed_sequence_number s"
          "m_sequence_number_msb_mask s' = m_sequence_number_msb_mask s"
          "m_state s' = m_state s" "m_now s' = m_now s"
        by (simp_all add: s'_def base_handle_packet_def Let_def sl)
      have pl: "p mod ?wa < length ?arr" using wa0 wal by (meson less_le_trans mod_less_divisor)
      have r': "receive p (m_now s) r = r\<lparr>r_buf := (r_buf r)(p \<mapsto> m_now s)\<rparr>" using None na by (simp add: receive_def)
      have "slot_agrees k (m_ext_packet_info_arr s' ! (q mod ?wa)) q (((r_buf r)(p \<mapsto> m_now s)) q)"
        if q: "q \<in> {r_next r..<r_next r + ?wa}" for q
      proof (cases "q = p")
        case True
        then show ?thesis using pl by (simp add: arr' slot_agrees_def)
      next
        case False
        then have "q mod ?wa \<noteq> p mod ?wa" using window_mod_inj[OF q pw] by blast
        then show ?thesis using slots q False by (simp add: arr')
      qed
      then have "implements k s' (receive p (m_now s) r)"
        using imp pw unfolding r' implements_def by (auto simp: same ring_ok_def arr')
      then show ?thesis using f None na same by auto
    qed
  qed
qed

text \<open>What handing over does to the buffer: the missing positions before the first one held are given up
  when that one is due; held packets that arrived before the start are dropped; then the due packets
  up to the end of the ring are delivered.\<close>

definition due :: "int \<Rightarrow> int \<Rightarrow> (nat \<Rightarrow> int option) \<Rightarrow> nat \<Rightarrow> bool" where
  "due mpd now B q = (case B q of None \<Rightarrow> False | Some t \<Rightarrow> t + mpd < now)"

definition before_start :: "int \<Rightarrow> (nat \<Rightarrow> int option) \<Rightarrow> nat \<Rightarrow> bool" where
  "before_start t0 B q = (case B q of None \<Rightarrow> False | Some t \<Rightarrow> t < t0)"

definition first_held :: "nat \<Rightarrow> reorder \<Rightarrow> nat option" where
  "first_held wa r = List.find (\<lambda>q. r_buf r q \<noteq> None) [r_next r..<r_next r + wa]"

definition advance :: "nat \<Rightarrow> reorder \<Rightarrow> reorder" where
  "advance q r = r\<lparr>r_next := q, r_buf := r_buf r |` {q..}\<rparr>"

definition deliver :: "nat \<Rightarrow> int \<Rightarrow> int \<Rightarrow> int \<Rightarrow> reorder \<Rightarrow> reorder \<times> nat list" where
  "deliver wa mpd now t0 r =
    (case first_held wa r of
       None \<Rightarrow> (r, [])
     | Some first \<Rightarrow>
       if \<not> due mpd now (r_buf r) first then (r, [])
       else
         let m = first + length (takeWhile (before_start t0 (r_buf r)) [first..<r_next r + wa])
         in if r_buf r m = None then (advance m r, [])
            else let c = length (takeWhile (due mpd now (r_buf r)) [m..<m + (wa - m mod wa)])
                 in ((advance (m + c) r)\<lparr>r_last := (if c = 0 then r_last r else m + c - 1)\<rparr>, [m..<m + c]))"

lemma next_slot_mod: "0 < wa \<Longrightarrow> next_slot wa (q mod wa) = Suc q mod wa"
proof -
  assume wa: "0 < wa"
  show ?thesis
  proof (cases "Suc (q mod wa) = wa")
    case True
    then show ?thesis using wa by (simp add: next_slot_def mod_Suc_wrap)
  next
    case False
    then have "Suc (q mod wa) < wa" using wa by (simp add: Suc_lessI)
    then show ?thesis using wa by (simp add: next_slot_def mod_Suc_wrap)
  qed
qed

lemma search_window:
  assumes "0 < wa" "q \<le> e" "e < q + Suc n"
    and "\<And>j. q \<le> j \<Longrightarrow> j < e \<Longrightarrow> \<not> is_valid (arr ! (j mod wa))" and "is_valid (arr ! (e mod wa))"
  shows "search_valid arr wa (q mod wa) n = Some (e mod wa)"
  using assms
proof (induction n arbitrary: q)
  case 0
  then have "q = e" by simp
  then show ?case using 0(5) by (simp add: search_valid.simps)
next
  case (Suc n)
  show ?case
  proof (cases "q = e")
    case True
    then show ?thesis using Suc.prems by (simp add: search_valid.simps)
  next
    case False
    then have "\<not> is_valid (arr ! (q mod wa))" using Suc.prems by simp
    then show ?thesis
      using False Suc.prems Suc.IH[of "Suc q"] by (subst search_valid.simps) (simp add: next_slot_mod)
  qed
qed

lemma search_window_none:
  assumes "0 < wa" and "\<And>j. q \<le> j \<Longrightarrow> j < q + Suc n \<Longrightarrow> \<not> is_valid (arr ! (j mod wa))"
  shows "search_valid arr wa (q mod wa) n = None"
  using assms
proof (induction n arbitrary: q)
  case 0
  then show ?case by (simp add: search_valid.simps)
next
  case (Suc n)
  then have "\<not> is_valid (arr ! (q mod wa))" by simp
  then show ?case
    using Suc.prems Suc.IH[of "Suc q"] by (subst search_valid.simps) (simp add: next_slot_mod)
qed

lemma find_upt:
  assumes "List.find P [a..<b] = Some e"
  shows "a \<le> e" "e < b" "P e" "\<And>j. a \<le> j \<Longrightarrow> j < e \<Longrightarrow> \<not> P j"
proof -
  obtain i where i: "i < length [a..<b]" "P ([a..<b] ! i)" "e = [a..<b] ! i" "\<forall>j<i. \<not> P ([a..<b] ! j)"
    using assms unfolding find_Some_iff by blast
  then show "a \<le> e" "e < b" "P e" by simp_all
  fix j assume "a \<le> j" "j < e"
  then have "j - a < i" "[a..<b] ! (j - a) = j" using i by simp_all
  then show "\<not> P j" using i(4) by metis
qed

lemma find_upt_None: "List.find P [a..<b] = None \<longleftrightarrow> (\<forall>j. a \<le> j \<and> j < b \<longrightarrow> \<not> P j)"
  by (auto simp: find_None_iff)

lemma takeWhile_upt:
  fixes a b P
  defines "n \<equiv> length (takeWhile P [a..<b])"
  shows "\<And>j. a \<le> j \<Longrightarrow> j < a + n \<Longrightarrow> P j" and "a + n < b \<Longrightarrow> \<not> P (a + n)" and "a \<le> b \<Longrightarrow> a + n \<le> b"
proof -
  have le: "n \<le> length [a..<b]" unfolding n_def by (rule length_takeWhile_le)
  show "a \<le> b \<Longrightarrow> a + n \<le> b" using le by simp
  show "P j" if "a \<le> j" "j < a + n" for j
  proof -
    have lt: "j - a < n" using that by simp
    have "takeWhile P [a..<b] ! (j - a) = [a..<b] ! (j - a)" using lt by (simp add: takeWhile_nth n_def)
    moreover have "P (takeWhile P [a..<b] ! (j - a))" using lt n_def set_takeWhileD nth_mem by metis
    ultimately show ?thesis using that lt le by simp
  qed
  assume "a + n < b"
  then have "n < length [a..<b]" by simp
  then have "\<not> P ([a..<b] ! n)" unfolding n_def by (rule nth_length_takeWhile)
  then show "\<not> P (a + n)" using \<open>a + n < b\<close> by simp
qed

text \<open>A maximal run determines the length of \<open>takeWhile\<close>, whatever the bound of the list.\<close>

lemma run_unique:
  assumes "a \<le> m" "m \<le> b" "\<And>j. a \<le> j \<Longrightarrow> j < m \<Longrightarrow> P j" "m < b \<Longrightarrow> \<not> P m"
  shows "a + length (takeWhile P [a..<b]) = m"
proof (rule ccontr)
  let ?n = "length (takeWhile P [a..<b])"
  assume ne: "a + ?n \<noteq> m"
  have "a \<le> b" using assms(1,2) by simp
  then have le: "a + ?n \<le> b" by (rule takeWhile_upt(3))
  consider "a + ?n < m" | "m < a + ?n" using ne by linarith
  then show False
  proof cases
    case 1
    then have "\<not> P (a + ?n)" by (intro takeWhile_upt(2)) (use assms(2) in linarith)
    moreover have "P (a + ?n)" using 1 assms(3) by simp
    ultimately show False by simp
  next
    case 2
    then have "P m" by (intro takeWhile_upt(1)[of a m P b]) (use assms(1) in simp)
    moreover have "\<not> P m" using 2 le assms(4) by linarith
    ultimately show False by simp
  qed
qed

section \<open>Handing over implements the reorder buffer\<close>

definition same_config :: "'x IPOReceiveStream_scheme \<Rightarrow> 'x IPOReceiveStream_scheme \<Rightarrow> bool" where
  "same_config s s' \<longleftrightarrow> m_sequence_number_wrap_around s' = m_sequence_number_wrap_around s
     \<and> m_sequence_number_msb_mask s' = m_sequence_number_msb_mask s
     \<and> m_sequence_number_init_offset s' = m_sequence_number_init_offset s
     \<and> m_max_path_differential s' = m_max_path_differential s
     \<and> m_start_time s' = m_start_time s \<and> m_now s' = m_now s
     \<and> m_header_data_split s' = m_header_data_split s \<and> m_pkt_info_enabled s' = m_pkt_info_enabled s
     \<and> m_payload_buffer s' = m_payload_buffer s \<and> m_header_buffer s' = m_header_buffer s
     \<and> m_ring_payload_stride s' = m_ring_payload_stride s \<and> m_ring_header_stride s' = m_ring_header_stride s"

lemma same_config_refl [simp]: "same_config s s"
  by (simp add: same_config_def)

lemma same_config_trans: "same_config s s' \<Longrightarrow> same_config s' s'' \<Longrightarrow> same_config s s''"
  by (simp add: same_config_def)

lemma advance_advance [simp]: "q \<le> q' \<Longrightarrow> advance q' (advance q r) = advance q' r"
  by (auto simp: advance_def restrict_map_def fun_eq_iff)

lemma advance_sel [simp]:
  "r_next (advance q r) = q" "r_last (advance q r) = r_last r" "r_buf (advance q r) = r_buf r |` {q..}"
  by (simp_all add: advance_def)

lemma implements_ring: "implements k s r \<Longrightarrow> 0 < ring_size s"
  by (simp add: implements_def ring_ok_def)

lemma implements_slot:
  "implements k s r \<Longrightarrow> r_next r \<le> q \<Longrightarrow> q < r_next r + ring_size s \<Longrightarrow>
   slot_agrees k (m_ext_packet_info_arr s ! (q mod ring_size s)) q (r_buf r q)"
  by (simp add: implements_def)

lemma implements_valid:
  assumes "implements k s r" "r_next r \<le> q" "q < r_next r + ring_size s"
  shows "is_valid (m_ext_packet_info_arr s ! (q mod ring_size s)) \<longleftrightarrow> r_buf r q \<noteq> None"
  using implements_slot[OF assms] by (cases "r_buf r q") (auto simp: slot_agrees_def)

lemma implements_next:
  assumes "implements k s r"
  shows "slot_agrees k (m_ext_packet_info_arr s ! m_index s) (r_next r) (r_buf r (r_next r))"
    and "m_index s = r_next r mod ring_size s" "m_index s < length (m_ext_packet_info_arr s)"
proof -
  show i: "m_index s = r_next r mod ring_size s" using assms by (simp add: implements_def)
  show "slot_agrees k (m_ext_packet_info_arr s ! m_index s) (r_next r) (r_buf r (r_next r))"
    using implements_slot[OF assms, of "r_next r"] implements_ring[OF assms] i by simp
  have "r_next r mod ring_size s < ring_size s" using implements_ring[OF assms] by simp
  then show "m_index s < length (m_ext_packet_info_arr s)"
    using assms unfolding i by (simp add: implements_def ring_ok_def)
qed

lemma window_dom: "implements k s r \<Longrightarrow> r_buf r q = Some t \<Longrightarrow> r_next r \<le> q \<and> q < r_next r + ring_size s"
  by (auto simp: implements_def)

lemma outside_window: "implements k s r \<Longrightarrow> r_next r + ring_size s \<le> q \<Longrightarrow> r_buf r q = None"
  using window_dom by fastforce

lemma restrict_window: "implements k s r \<Longrightarrow> r_buf r |` {r_next r..} = r_buf r"
proof (rule ext)
  fix q
  assume "implements k s r"
  then show "(r_buf r |` {r_next r..}) q = r_buf r q"
    using window_dom[of k s r q] by (cases "r_buf r q") (simp_all add: restrict_map_def)
qed

lemma dom_restrict_window:
  "implements k s r \<Longrightarrow> r_next r \<le> q \<Longrightarrow> dom (r_buf r |` {q..}) \<subseteq> {q..<q + ring_size s}"
  using window_dom[of k s r] by (fastforce simp: restrict_map_def split: if_splits)

text \<open>Emptying the slot at the index and moving on to the next one.\<close>

lemma implements_pop:
  assumes imp: "implements k s r" and s': "same_config s s'"
    and arr: "m_ext_packet_info_arr s' = invalidate (m_index s) (m_ext_packet_info_arr s)"
    and idx: "m_index s' = next_slot (ring_size s) (m_index s)"
    and last: "m_last_processed_sequence_number s' = seq_of k l" "l \<le> r_next r"
  shows "implements k s' ((advance (Suc (r_next r)) r)\<lparr>r_last := l\<rparr>)"
proof -
  let ?wa = "ring_size s" and ?n = "r_next r"
  have wa: "0 < ?wa" using imp by (rule implements_ring)
  have same: "ring_size s' = ?wa" "m_sequence_number_msb_mask s' = m_sequence_number_msb_mask s"
    "m_sequence_number_wrap_around s' = m_sequence_number_wrap_around s"
    using s' by (simp_all add: same_config_def)
  have i: "m_index s = ?n mod ?wa" using imp by (simp add: implements_def)
  have li: "?n mod ?wa < length (m_ext_packet_info_arr s)" using implements_next(3)[OF imp] i by simp
  have "slot_agrees k (m_ext_packet_info_arr s' ! (q mod ?wa)) q ((r_buf r |` {Suc ?n..}) q)"
    if q: "Suc ?n \<le> q" "q < Suc ?n + ?wa" for q
  proof (cases "q < ?n + ?wa")
    case True
    have "q mod ?wa \<noteq> ?n mod ?wa" using window_mod_inj[of q ?n ?wa ?n] True q wa by auto
    then show ?thesis
      using implements_slot[OF imp, of q] True q by (simp add: arr i invalidate_def restrict_map_def)
  next
    case False
    then have qe: "q = ?n + ?wa" using q by simp
    then have "r_buf r q = None" using outside_window[OF imp, of q] by simp
    then show ?thesis using li by (simp add: qe arr i invalidate_def slot_agrees_def restrict_map_def)
  qed
  moreover have "dom (r_buf r |` {Suc ?n..}) \<subseteq> {Suc ?n..<Suc ?n + ?wa}"
    by (rule dom_restrict_window[OF imp]) simp
  moreover have "ring_ok k s'" using imp by (simp add: implements_def ring_ok_def same arr invalidate_def)
  ultimately show ?thesis
    using last by (simp add: implements_def same idx i next_slot_mod[OF wa])
qed

text \<open>Moving the index over missing packets.\<close>

lemma implements_skip:
  assumes imp: "implements k s r" and e: "r_next r \<le> e" "e < r_next r + ring_size s"
    and miss: "\<And>j. r_next r \<le> j \<Longrightarrow> j < e \<Longrightarrow> r_buf r j = None"
  shows "implements k (s\<lparr>m_index := e mod ring_size s\<rparr>) (advance e r)"
proof -
  let ?wa = "ring_size s" and ?n = "r_next r"
  have "slot_agrees k (m_ext_packet_info_arr s ! (q mod ?wa)) q ((r_buf r |` {e..}) q)"
    if q: "e \<le> q" "q < e + ?wa" for q
  proof (cases "q < ?n + ?wa")
    case True
    then show ?thesis using implements_slot[OF imp, of q] q e by (simp add: restrict_map_def)
  next
    case False
    then have w: "?n \<le> q - ?wa" "q - ?wa < e" using q e by auto
    have m: "q mod ?wa = (q - ?wa) mod ?wa" using False by (simp add: le_mod_geq)
    have "r_buf r (q - ?wa) = None" using miss w by simp
    then have "\<not> is_valid (m_ext_packet_info_arr s ! (q mod ?wa))"
      using implements_valid[OF imp, of "q - ?wa"] w e m by simp
    moreover have "r_buf r q = None" using outside_window[OF imp] False by simp
    ultimately show ?thesis by (simp add: slot_agrees_def restrict_map_def)
  qed
  moreover have "dom (r_buf r |` {e..}) \<subseteq> {e..<e + ?wa}"
    by (rule dom_restrict_window[OF imp e(1)])
  ultimately show ?thesis using imp e by (auto simp: implements_def ring_ok_def)
qed

lemma search_first_held:
  assumes imp: "implements k s r"
  shows "search_valid (m_ext_packet_info_arr s) (ring_size s) (m_index s) (ring_size s - 1)
       = map_option (\<lambda>e. e mod ring_size s) (first_held (ring_size s) r)"
proof -
  let ?wa = "ring_size s"
  have wa: "0 < ?wa" using imp by (rule implements_ring)
  note i = implements_next(2)[OF imp]
  show ?thesis
  proof (cases "first_held ?wa r")
    case None
    then have "\<forall>j. r_next r \<le> j \<and> j < r_next r + ?wa \<longrightarrow> r_buf r j = None"
      unfolding first_held_def find_upt_None by simp
    then have "search_valid (m_ext_packet_info_arr s) ?wa (r_next r mod ?wa) (?wa - 1) = None"
      using wa by (intro search_window_none) (use implements_valid[OF imp] in auto)
    then show ?thesis using None i by simp
  next
    case (Some e)
    note e = find_upt[OF Some[unfolded first_held_def]]
    have "search_valid (m_ext_packet_info_arr s) ?wa (r_next r mod ?wa) (?wa - 1) = Some (e mod ?wa)"
      by (rule search_window) (use wa e implements_valid[OF imp] in auto)
    then show ?thesis using Some i by simp
  qed
qed

lemma skip_initial_advance:
  assumes "implements k s r"
  shows "\<exists>m s'. r_next r \<le> m \<and> m \<le> r_next r + ring_size s
    \<and> (\<forall>j. r_next r \<le> j \<and> j < m \<longrightarrow> before_start (m_start_time s) (r_buf r) j)
    \<and> \<not> before_start (m_start_time s) (r_buf r) m
    \<and> skip_initial s = (s', r_buf r m \<noteq> None)
    \<and> implements k s' (advance m r) \<and> same_config s s' \<and> m_state s' = m_state s"
  using assms
proof (induction s arbitrary: r rule: skip_initial.induct)
  case (1 s)
  let ?n = "r_next r" and ?info = "m_ext_packet_info_arr s ! m_index s"
  note nxt = implements_next[OF "1.prems"]
  have restrict: "r_buf r |` {?n..} = r_buf r"
    by (rule restrict_window[OF "1.prems"])
  have adv: "advance ?n r = r" by (simp add: advance_def restrict)
  show ?case
  proof (cases "r_buf r ?n")
    case None
    then have "skip_initial s = (s, False)"
      using nxt by (subst skip_initial.simps) (simp add: slot_agrees_def Let_def)
    then show ?thesis using None "1.prems" adv by (intro exI[of _ ?n] exI[of _ s]) (auto simp: before_start_def)
  next
    case (Some t)
    then have v: "is_valid ?info" "info_timestamp ?info = t" using nxt by (simp_all add: slot_agrees_def)
    show ?thesis
    proof (cases "m_start_time s \<le> t")
      case True
      then have "skip_initial s = (s, True)"
        using nxt v by (subst skip_initial.simps) (simp add: Let_def)
      then show ?thesis using Some True "1.prems" adv
        by (intro exI[of _ ?n] exI[of _ s]) (auto simp: before_start_def)
    next
      case False
      let ?s1 = "s\<lparr>m_next_packet_time := info_timestamp ?info,
          m_ext_packet_info_arr := invalidate (m_index s) (m_ext_packet_info_arr s),
          m_index := next_slot (ring_size s) (m_index s)\<rparr>"
      let ?r1 = "advance (Suc ?n) r"
      have st: "skip_initial s = skip_initial ?s1"
        using nxt v False by (subst skip_initial.simps) (simp add: Let_def)
      have "implements k ?s1 (?r1\<lparr>r_last := r_last r\<rparr>)"
        by (rule implements_pop[OF "1.prems"])
           (use "1.prems" in \<open>auto simp: same_config_def implements_def\<close>)
      then have i1: "implements k ?s1 ?r1" by (simp add: advance_def)
      have "\<exists>m s'. r_next ?r1 \<le> m \<and> m \<le> r_next ?r1 + ring_size ?s1
        \<and> (\<forall>j. r_next ?r1 \<le> j \<and> j < m \<longrightarrow> before_start (m_start_time ?s1) (r_buf ?r1) j)
        \<and> \<not> before_start (m_start_time ?s1) (r_buf ?r1) m
        \<and> skip_initial ?s1 = (s', r_buf ?r1 m \<noteq> None)
        \<and> implements k s' (advance m ?r1) \<and> same_config ?s1 s' \<and> m_state s' = m_state ?s1"
        by (rule "1.IH"[OF refl refl]) (use nxt v False i1 in simp_all)
      then obtain m s' where m: "Suc ?n \<le> m" "m \<le> Suc ?n + ring_size s"
        "\<forall>j. Suc ?n \<le> j \<and> j < m \<longrightarrow> before_start (m_start_time s) (r_buf ?r1) j"
        "\<not> before_start (m_start_time s) (r_buf ?r1) m"
        "skip_initial ?s1 = (s', r_buf ?r1 m \<noteq> None)"
        "implements k s' (advance m ?r1)" "same_config ?s1 s'" "m_state s' = m_state s" by auto
      have b: "r_buf ?r1 j = r_buf r j" if "Suc ?n \<le> j" for j using that by (simp add: restrict_map_def)
      have run: "before_start (m_start_time s) (r_buf r) j" if "?n \<le> j" "j < m" for j
      proof (cases "j = ?n")
        case True
        then show ?thesis using Some False by (simp add: before_start_def)
      next
        case False
        then have "before_start (m_start_time s) (r_buf ?r1) j" using that m(3) by simp
        then show ?thesis using b[of j] that False by (simp add: before_start_def)
      qed
      have "m \<le> ?n + ring_size s"
      proof (rule ccontr)
        assume "\<not> m \<le> ?n + ring_size s"
        then have "before_start (m_start_time s) (r_buf r) (?n + ring_size s)" using run by simp
        then show False using outside_window[OF "1.prems"] by (simp add: before_start_def)
      qed
      moreover have "\<not> before_start (m_start_time s) (r_buf r) m"
        using m(4) b[OF m(1)] by (simp add: before_start_def)
      moreover have "same_config s s'" using m(7) by (simp add: same_config_def)
      moreover have "skip_initial s = (s', r_buf r m \<noteq> None)" using st m(5) b[OF m(1)] by simp
      ultimately show ?thesis using run m by (intro exI[of _ m] exI[of _ s']) auto
    qed
  qed
qed

lemma collect_packets_deliver:
  assumes "implements k s r" and "n = ring_size s - m_index s"
  shows "\<exists>c s' chunk'. c \<le> n
    \<and> (\<forall>j. r_next r \<le> j \<and> j < r_next r + c \<longrightarrow> due (m_max_path_differential s) (m_now s) (r_buf r) j)
    \<and> (c < n \<longrightarrow> \<not> due (m_max_path_differential s) (m_now s) (r_buf r) (r_next r + c))
    \<and> collect_packets (base_handlers parse (mask k)) n chunk count s = (s', chunk', count + c)
    \<and> implements k s' ((advance (r_next r + c) r)\<lparr>r_last := (if c = 0 then r_last r else r_next r + c - 1)\<rparr>)
    \<and> same_config s s' \<and> m_state s' = m_state s
    \<and> completion_seqn_first chunk' = completion_seqn_first chunk"
  using assms
proof (induction n arbitrary: s r chunk count)
  case 0
  have "r_next r mod ring_size s < ring_size s" using implements_ring[OF 0(1)] by simp
  then show ?case using 0 implements_next(2)[OF 0(1)] by simp
next
  case (Suc n)
  let ?h = "base_handlers parse (mask k)"
  let ?n = "r_next r" and ?info = "m_ext_packet_info_arr s ! m_index s" and ?d = "due (m_max_path_differential s) (m_now s) (r_buf r)"
  note nxt = implements_next[OF Suc.prems(1)]
  have restrict: "r_buf r |` {?n..} = r_buf r"
    by (rule restrict_window[OF Suc.prems(1)])
  have adv: "advance ?n r = r" by (simp add: advance_def restrict)
  have d: "?d ?n \<longleftrightarrow> is_valid ?info \<and> info_timestamp ?info + m_max_path_differential s < m_now s"
    using nxt(1) by (cases "r_buf r ?n") (auto simp: slot_agrees_def due_def)
  show ?case
  proof (cases "?d ?n")
    case False
    then have "collect_packets ?h (Suc n) chunk count s = (s, chunk, count)"
      using d by (auto simp: Let_def)
    then show ?thesis using False Suc.prems adv by (intro exI[of _ 0] exI[of _ s] exI[of _ chunk]) auto
  next
    case True
    let ?s1 = "base_complete_packet (info_sequence_number ?info)
        (s\<lparr>m_ext_packet_info_arr := invalidate (m_index s) (m_ext_packet_info_arr s)\<rparr>)"
    let ?s2 = "?s1\<lparr>m_index := next_slot (ring_size s) (m_index s)\<rparr>"
    define r1 where "r1 = (advance (Suc ?n) r)\<lparr>r_last := ?n\<rparr>"
    have r1: "r_next r1 = Suc ?n" "r_last r1 = ?n" "r_buf r1 = r_buf r |` {Suc ?n..}"
      by (simp_all add: r1_def advance_def)
    let ?chunk1 = "chunk\<lparr>completion_timestamp_last := hw_timestamp ?info\<rparr>"
    obtain t where t: "r_buf r ?n = Some t" using True by (cases "r_buf r ?n") (auto simp: due_def)
    have sq: "info_sequence_number ?info = seq_of k ?n" using nxt(1) t by (simp add: slot_agrees_def)
    have i1: "implements k ?s2 r1"
      unfolding r1_def by (rule implements_pop[OF Suc.prems(1)])
         (simp_all add: same_config_def base_complete_packet_def sq)
    have lt: "m_index s < ring_size s" using nxt(2) implements_ring[OF Suc.prems(1)] by simp
    show ?thesis
    proof (cases "m_index s + 1 \<ge> ring_size s")
      case end_ring: True
      then have n0: "n = 0" using Suc.prems(2) lt by simp
      have "collect_packets ?h (Suc n) chunk count s = (?s2, ?chunk1, count + 1)"
        using True d end_ring by (simp add: Let_def base_handlers_def base_complete_packet_def next_slot_def)
      then show ?thesis using i1[unfolded r1_def] True n0
        by (intro exI[of _ 1] exI[of _ ?s2] exI[of _ ?chunk1])
           (auto simp: same_config_def base_complete_packet_def le_less_Suc_eq)
    next
      case inside: False
      have st: "collect_packets ?h (Suc n) chunk count s = collect_packets ?h n ?chunk1 (count + 1) ?s2"
        using True d inside by (simp add: Let_def base_handlers_def base_complete_packet_def next_slot_def)
      have "n = ring_size ?s2 - m_index ?s2"
        using Suc.prems(2) inside by (simp add: base_complete_packet_def next_slot_def)
      note ih = Suc.IH[OF i1 this, of ?chunk1 "count + 1", unfolded r1(1,2)]
      have cfg: "m_max_path_differential ?s2 = m_max_path_differential s" "m_now ?s2 = m_now s" "m_state ?s2 = m_state s"
        by (simp_all add: base_complete_packet_def)
      obtain c s' chunk' where c: "c \<le> n"
        "\<forall>j. Suc ?n \<le> j \<and> j < Suc ?n + c \<longrightarrow> due (m_max_path_differential s) (m_now s) (r_buf r1) j"
        "c < n \<longrightarrow> \<not> due (m_max_path_differential s) (m_now s) (r_buf r1) (Suc ?n + c)"
        "collect_packets ?h n ?chunk1 (count + 1) ?s2 = (s', chunk', count + 1 + c)"
        "implements k s' ((advance (Suc ?n + c) r1)\<lparr>r_last := (if c = 0 then ?n else Suc ?n + c - 1)\<rparr>)"
        "same_config ?s2 s'" "m_state s' = m_state s"
        "completion_seqn_first chunk' = completion_seqn_first ?chunk1"
        using ih unfolding cfg by (elim exE conjE) (rule that)
      have b: "due x y (r_buf r1) j = due x y (r_buf r) j" if "Suc ?n \<le> j" for j x y
        using that by (simp add: due_def r1(3) restrict_map_def)
      have run: "?d j" if "?n \<le> j" "j < ?n + Suc c" for j
      proof (cases "j = ?n")
        case False
        then have "Suc ?n \<le> j" "j < Suc ?n + c" using that by simp_all
        then show ?thesis using c(2) b[of j] by blast
      qed (use True in simp)
      have stop: "Suc c < Suc n \<longrightarrow> \<not> ?d (?n + Suc c)" using c(3) b[of "Suc ?n + c"] by simp
      have r': "(advance (Suc ?n + c) r1)\<lparr>r_last := (if c = 0 then ?n else Suc ?n + c - 1)\<rparr>
          = (advance (?n + Suc c) r)\<lparr>r_last := (if Suc c = 0 then r_last r else ?n + Suc c - 1)\<rparr>"
        by (simp add: r1_def advance_def fun_eq_iff restrict_map_def)
      have "same_config s s'" using c(6) by (simp add: same_config_def base_complete_packet_def)
      then show ?thesis using c(1,4,7,8) run stop st c(5)[unfolded r']
        by (intro exI[of _ "Suc c"] exI[of _ s'] exI[of _ chunk']) auto
    qed
  qed
qed


text \<open>The guard of the whole hand-over: the stream runs, and the packet the index waits for is due.\<close>

definition hand_over_spec :: "nat \<Rightarrow> 'x IPOReceiveStream_scheme \<Rightarrow> reorder \<Rightarrow> reorder \<times> nat list" where
  "hand_over_spec k s r =
    (if m_state s = Running \<and> m_next_packet_time s + m_max_path_differential s < m_now s
     then deliver (ring_size s) (m_max_path_differential s) (m_now s) (m_start_time s) r
     else (r, []))"

definition chunk_carries :: "nat \<Rightarrow> 'x IPOReceiveStream_scheme \<Rightarrow> IPOReceiveChunk \<Rightarrow> nat list \<Rightarrow> bool" where
  "chunk_carries k s chunk ds \<longleftrightarrow> completion_chunk_size chunk = length ds
     \<and> (ds \<noteq> [] \<longrightarrow> completion_seqn_first chunk = seq_of k (hd ds)
          \<and> completion_payload_ptr chunk = m_payload_buffer s + (hd ds mod ring_size s) * m_ring_payload_stride s
          \<and> (m_header_data_split s \<longrightarrow>
               completion_header_ptr chunk = m_header_buffer s + (hd ds mod ring_size s) * m_ring_header_stride s)
          \<and> (m_pkt_info_enabled s \<longrightarrow> completion_info_slot chunk = Some (hd ds mod ring_size s)))"

lemma hand_over_implements:
  assumes imp: "implements k s r" and spec: "hand_over_spec k s r = (r', ds)"
    and run: "hand_over (base_handlers parse (mask k)) chunk s = (s', chunk')"
  shows "implements k s' r' \<and> chunk_carries k s chunk' ds \<and> same_config s s'"
proof -
  let ?wa = "ring_size s" and ?mpd = "m_max_path_differential s" and ?arr = "m_ext_packet_info_arr s"
  let ?h = "base_handlers parse (mask k) :: 'a handlers"
  have wa: "0 < ?wa" using imp by (rule implements_ring)
  note search = search_first_held[OF imp]
  show ?thesis
  proof (cases "m_state s = Running \<and> m_next_packet_time s + ?mpd < m_now s")
    case False
    then have "s' = s" "completion_chunk_size chunk' = 0" "r' = r" "ds = []"
      using spec run by (auto simp: hand_over_def hand_over_spec_def Let_def split: if_splits)
    then show ?thesis using imp by (simp add: chunk_carries_def)
  next
    case gate: True
    then have D: "deliver ?wa ?mpd (m_now s) (m_start_time s) r = (r', ds)"
      using spec by (simp add: hand_over_spec_def)
    show ?thesis
    proof (cases "first_held ?wa r")
      case None
      then have "s' = s\<lparr>m_state := Waiting\<rparr>" "completion_chunk_size chunk' = 0"
        using run gate search by (auto simp: hand_over_def Let_def)
      moreover have "r' = r" "ds = []" using D None by (simp_all add: deliver_def)
      ultimately show ?thesis using imp by (simp add: chunk_carries_def same_config_def implements_def ring_ok_def)
    next
      case (Some e)
      note e = find_upt[OF Some[unfolded first_held_def]]
      have sv: "search_valid ?arr ?wa (m_index s) (?wa - 1) = Some (e mod ?wa)" using search Some by simp
      obtain t where t: "r_buf r e = Some t" using e(3) by auto
      have info: "info_timestamp (?arr ! (e mod ?wa)) = t"
        using implements_slot[OF imp e(1,2)] t by (simp add: slot_agrees_def)
      have due_e: "due ?mpd (m_now s) (r_buf r) e \<longleftrightarrow> t + ?mpd < m_now s" using t by (simp add: due_def)
      show ?thesis
      proof (cases "t + ?mpd < m_now s")
        case False
        then have "s' = s\<lparr>m_next_packet_time := t\<rparr>" "completion_chunk_size chunk' = 0"
          using run gate sv info by (auto simp: hand_over_def Let_def)
        moreover have "r' = r" "ds = []" using D Some False due_e by (simp_all add: deliver_def)
        ultimately show ?thesis using imp by (simp add: chunk_carries_def same_config_def implements_def ring_ok_def)
      next
        case due: True
        let ?s0 = "s\<lparr>m_index := e mod ?wa\<rparr>"
        have i0: "implements k ?s0 (advance e r)"
          by (rule implements_skip[OF imp e(1,2)]) (use e(4) in simp)
        from skip_initial_advance[OF i0] obtain m s1 where m: "e \<le> m" "m \<le> e + ?wa"
          "\<forall>j. e \<le> j \<and> j < m \<longrightarrow> before_start (m_start_time s) (r_buf r |` {e..}) j"
          "\<not> before_start (m_start_time s) (r_buf r |` {e..}) m"
          "skip_initial ?s0 = (s1, (r_buf r |` {e..}) m \<noteq> None)"
          "implements k s1 (advance m (advance e r))" "same_config ?s0 s1" "m_state s1 = m_state s" by auto
        have b: "before_start x (r_buf r |` {e..}) j = before_start x (r_buf r) j" if "e \<le> j" for x j
          using that by (simp add: before_start_def restrict_map_def)
        have bm: "(r_buf r |` {e..}) m = r_buf r m" using m(1) by (simp add: restrict_map_def)
        have skip: "skip_initial ?s0 = (s1, r_buf r m \<noteq> None)" using m(5) bm by simp
        have im: "implements k s1 (advance m r)" using m(1,6) by simp
        have ss1: "same_config s s1" using m(7) by (simp add: same_config_def)
        have runm: "before_start (m_start_time s) (r_buf r) j" if "e \<le> j" "j < m" for j
          using m(3) b[of j] that by blast
        have mle: "m \<le> r_next r + ?wa"
        proof (rule ccontr)
          assume "\<not> m \<le> r_next r + ?wa"
          then have "before_start (m_start_time s) (r_buf r) (r_next r + ?wa)" using runm e by simp
          then show False using outside_window[OF imp] by (simp add: before_start_def)
        qed
        have mt: "e + length (takeWhile (before_start (m_start_time s) (r_buf r)) [e..<r_next r + ?wa]) = m"
          by (rule run_unique) (use m(1) mle runm m(4) b[OF m(1)] in auto)
        show ?thesis
        proof (cases "r_buf r m")
          case None
          then have "s' = s1" "completion_chunk_size chunk' = 0"
            using run gate sv info due skip by (auto simp: hand_over_def Let_def)
          moreover have "r' = advance m r" "ds = []"
            using D Some due due_e mt None by (simp_all add: deliver_def Let_def)
          ultimately show ?thesis using im ss1 by (simp add: chunk_carries_def)
        next
          case (Some tm)
          let ?B = "r_buf r |` {m..}"
          have cfg: "ring_size s1 = ?wa" "m_max_path_differential s1 = ?mpd" "m_now s1 = m_now s"
            using ss1 by (simp_all add: same_config_def)
          have idx: "m_index s1 = m mod ?wa" using implements_next(2)[OF im] cfg by simp
          let ?info = "m_ext_packet_info_arr s1 ! (m mod ?wa)"
          have sq: "info_sequence_number ?info = seq_of k m"
            using implements_next(1)[OF im] idx Some by (simp add: slot_agrees_def restrict_map_def)
          let ?c1 = "chunk\<lparr>completion_chunk_size := 0, completion_seqn_first := seq_of k m,
              completion_timestamp_first := hw_timestamp ?info\<rparr>"
          let ?n = "?wa - m mod ?wa"
          have n: "?n = ring_size s1 - m_index s1" using idx cfg by simp
          note cp = collect_packets_deliver[OF im n, of parse ?c1 0]
          obtain c s2 chunk2 where c: "c \<le> ?n"
            "\<forall>j. m \<le> j \<and> j < m + c \<longrightarrow> due ?mpd (m_now s) ?B j"
            "c < ?n \<longrightarrow> \<not> due ?mpd (m_now s) ?B (m + c)"
            "collect_packets ?h ?n ?c1 0 s1 = (s2, chunk2, 0 + c)"
            "implements k s2 ((advance (m + c) (advance m r))\<lparr>r_last := (if c = 0 then r_last r else m + c - 1)\<rparr>)"
            "same_config s1 s2" "m_state s2 = m_state s1"
            "completion_seqn_first chunk2 = completion_seqn_first ?c1"
            using cp unfolding cfg advance_sel by (elim exE conjE) (rule that)
          have ss2: "same_config s s2" using ss1 c(6) by (rule same_config_trans)
          have db: "due ?mpd (m_now s) ?B j = due ?mpd (m_now s) (r_buf r) j" if "m \<le> j" for j
            using that by (simp add: due_def restrict_map_def)
          have cl: "m + length (takeWhile (due ?mpd (m_now s) (r_buf r)) [m..<m + ?n]) = m + c"
            by (rule run_unique) (use c(1,2,3) db in auto)
          then have ds: "ds = [m..<m + c]"
            and r': "r' = (advance (m + c) r)\<lparr>r_last := (if c = 0 then r_last r else m + c - 1)\<rparr>"
            using D \<open>first_held ?wa r = Some e\<close> due due_e mt Some by (simp_all add: deliver_def Let_def)
          let ?c3 = "chunk2\<lparr>completion_chunk_size := c,
              completion_payload_ptr := m_payload_buffer s2 + (m mod ?wa) * m_ring_payload_stride s2\<rparr>"
          let ?c4 = "if m_header_data_split s2
              then ?c3\<lparr>completion_header_ptr := m_header_buffer s2 + (m mod ?wa) * m_ring_header_stride s2\<rparr> else ?c3"
          let ?c5 = "if m_pkt_info_enabled s2 then ?c4\<lparr>completion_info_slot := Some (m mod ?wa)\<rparr> else ?c4"
          have g: "m_state s = Running" "\<not> m_now s \<le> m_next_packet_time s + ?mpd" "\<not> m_now s \<le> t + ?mpd"
            using gate due by simp_all
          have sk: "skip_initial ?s0 = (s1, True)" using skip Some by simp
          have cp: "collect_packets ?h ?n ?c1 0 s1 = (s2, chunk2, c)" using c(4) by simp
          have "hand_over ?h chunk s = (s2, ?c5)"
            unfolding hand_over_def Let_def by (simp add: g sv[unfolded One_nat_def] info sk idx sq cp)
          then have "s' = s2" and ch: "chunk' = ?c5" using run by simp_all
          moreover have "chunk_carries k s chunk' ds"
            unfolding ch ds chunk_carries_def using c(8) ss2 by (simp add: same_config_def)
          ultimately show ?thesis using c(5) ss2 r' by simp
        qed
      qed
    qed
  qed
qed

section \<open>One call implements receiving and delivering\<close>

text \<open>The headers of a completion carry the sequence numbers of the listed positions; \<open>None\<close> is a
  packet whose header the parser rejects.\<close>

fun packets_carry :: "(mem \<Rightarrow> nat \<Rightarrow> u64 \<Rightarrow> u32 option) \<Rightarrow> nat \<Rightarrow> mem \<Rightarrow> nat \<Rightarrow> nat \<Rightarrow> ReceivePacketInfo list
    \<Rightarrow> nat option list \<Rightarrow> bool" where
  "packets_carry parse k m stride ptr [] [] = True"
| "packets_carry parse k m stride ptr (info # infos) (p # ps) =
    (parse m ptr (sub_block_size_0 info) = map_option (seq_of k) p
     \<and> packets_carry parse k m stride (ptr + stride) infos ps)"
| "packets_carry parse k m stride ptr _ _ = False"

definition completion_carries :: "(mem \<Rightarrow> nat \<Rightarrow> u64 \<Rightarrow> u32 option) \<Rightarrow> nat \<Rightarrow> mem \<Rightarrow> 'x IPOReceiveStream_scheme
    \<Rightarrow> ReceiveChunk \<Rightarrow> nat option list \<Rightarrow> bool" where
  "completion_carries parse k m s chunk ps =
    packets_carry parse k m (if chunk_header_ptr chunk \<noteq> 0 then m_ring_header_stride s else m_ring_payload_stride s)
      (if chunk_header_ptr chunk \<noteq> 0 then chunk_header_ptr chunk else chunk_payload_ptr chunk) (chunk_packets chunk) ps"

definition received :: "nat option list \<Rightarrow> int \<Rightarrow> reorder \<Rightarrow> reorder" where
  "received ps now = fold (\<lambda>p r. case p of None \<Rightarrow> r | Some q \<Rightarrow> receive q now r) ps"

lemma received_simps [simp]:
  "received [] now r = r"
  "received (None # ps) now r = received ps now r"
  "received (Some q # ps) now r = received ps now (receive q now r)"
  "received (ps @ ps') now r = received ps' now (received ps now r)"
  by (simp_all add: received_def)

lemma receive_sel [simp]: "r_next (receive p now r) = r_next r" "r_last (receive p now r) = r_last r"
  by (simp_all add: receive_def)

lemma received_sel [simp]: "r_next (received ps now r) = r_next r" "r_last (received ps now r) = r_last r"
  by (induction ps arbitrary: r) (simp_all add: received_def split: option.splits)

definition placeable_all :: "nat \<Rightarrow> nat \<Rightarrow> nat option list \<Rightarrow> reorder \<Rightarrow> bool" where
  "placeable_all k wa ps r \<longleftrightarrow> (\<forall>p. Some p \<in> set ps \<longrightarrow> placeable k wa p r)"

lemma placeable_cong:
  "r_next r' = r_next r \<Longrightarrow> r_last r' = r_last r \<Longrightarrow> placeable_all k wa ps r' = placeable_all k wa ps r"
  by (simp add: placeable_all_def placeable_def)

definition running_like :: "'x IPOReceiveStream_scheme \<Rightarrow> 'x IPOReceiveStream_scheme \<Rightarrow> bool" where
  "running_like s s' \<longleftrightarrow> same_config s s' \<and> m_state s' = m_state s \<and> m_next_packet_time s' = m_next_packet_time s"

lemma process_packets_receive:
  assumes "implements k s r" "m_state s = Running" "packets_carry parse k m stride ptr infos ps"
    "placeable_all k (ring_size s) ps r"
  shows "implements k (process_packets (base_handlers parse (mask k)) m path stride ptr infos s) (received ps (m_now s) r)
    \<and> running_like s (process_packets (base_handlers parse (mask k)) m path stride ptr infos s)"
  using assms
proof (induction parse k m stride ptr infos ps arbitrary: s r rule: packets_carry.induct)
  case (2 parse k m stride ptr info infos p ps)
  let ?h = "base_handlers parse (mask k) :: 'a handlers"
  let ?s1 = "process_packet ?h m path ptr info s"
  have parse: "parse m ptr (sub_block_size_0 info) = map_option (seq_of k) p"
    and carry: "packets_carry parse k m stride (ptr + stride) infos ps" using "2.prems"(3) by simp_all
  have pa: "placeable_all k (ring_size s) ps r" using "2.prems"(4) by (simp add: placeable_all_def)
  have "\<exists>r1. implements k ?s1 r1 \<and> running_like s ?s1 \<and> r_next r1 = r_next r \<and> r_last r1 = r_last r
      \<and> received (p # ps) (m_now s) r = received ps (m_now s) r1"
  proof (cases p)
    case None
    then show ?thesis using parse "2.prems"(1)
      by (intro exI[of _ r]) (simp add: process_packet_def base_handlers_def running_like_def)
  next
    case (Some q)
    have "placeable k (ring_size s) q r" using "2.prems"(4) Some by (simp add: placeable_all_def)
    note f = file_packet_receive[OF "2.prems"(1) this, of parse path info]
    have s1: "?s1 = file_packet ?h path (seq_of k q) info s"
      using parse Some "2.prems"(2) by (simp add: process_packet_def base_handlers_def prepare_state_def Let_def)
    have "running_like s ?s1"
      unfolding s1 by (simp add: file_packet_def base_handlers_def base_handle_packet_def Let_def
          running_like_def same_config_def)
    then show ?thesis using f Some unfolding s1
      by (intro exI[of _ "receive q (m_now s) r"]) auto
  qed
  then obtain r1 where r1: "implements k ?s1 r1" "running_like s ?s1" "r_next r1 = r_next r" "r_last r1 = r_last r"
    "received (p # ps) (m_now s) r = received ps (m_now s) r1" by blast
  have eq: "m_state ?s1 = Running" "m_now ?s1 = m_now s" "ring_size ?s1 = ring_size s"
    using r1(2) "2.prems"(2) by (simp_all add: running_like_def same_config_def)
  have "placeable_all k (ring_size ?s1) ps r1" using pa placeable_cong[OF r1(3,4)] eq by simp
  from "2.IH"[OF r1(1) eq(1) carry this]
  have "implements k (process_packets ?h m path stride (ptr + stride) infos ?s1) (received ps (m_now s) r1)"
    "running_like ?s1 (process_packets ?h m path stride (ptr + stride) infos ?s1)" by (simp_all add: eq)
  then show ?case using r1(2,5) unfolding process_packets.simps
    by (auto simp: running_like_def intro: same_config_trans)
qed (simp_all add: running_like_def)

lemma process_completion_receive:
  assumes "implements k s r" "m_state s = Running" "completion_carries parse k m s chunk ps"
    "placeable_all k (ring_size s) ps r"
  shows "implements k (process_completion (base_handlers parse (mask k)) m path chunk s) (received ps (m_now s) r)
    \<and> running_like s (process_completion (base_handlers parse (mask k)) m path chunk s)"
  using process_packets_receive[OF assms(1,2) _ assms(4), of parse m _ _ "chunk_packets chunk" path] assms(3)
  by (cases "chunk_header_ptr chunk = 0") (simp_all add: process_completion_def completion_carries_def)

lemma completion_carries_cong:
  "same_config s s' \<Longrightarrow> completion_carries parse k m s' = completion_carries parse k m s"
  by (simp add: completion_carries_def same_config_def fun_eq_iff)

lemma completion_carries_now [simp]: "completion_carries parse k m (s\<lparr>m_now := now\<rparr>) = completion_carries parse k m s"
  by (simp add: completion_carries_def fun_eq_iff)

lemma process_paths_receive:
  assumes "implements k s r" "m_state s = Running"
    "list_all2 (completion_carries parse k m s) chunks pss" "placeable_all k (ring_size s) (concat pss) r"
  shows "\<exists>s'. process_paths (base_handlers parse (mask k)) m path (map (Pair success) chunks) s = (success, s')
    \<and> implements k s' (received (concat pss) (m_now s) r) \<and> running_like s s'"
  using assms
proof (induction chunks arbitrary: s r path pss)
  case Nil
  then show ?case by (simp add: running_like_def)
next
  case (Cons chunk chunks)
  obtain ps pss' where pss: "pss = ps # pss'" using Cons.prems(3) by (cases pss) auto
  let ?h = "base_handlers parse (mask k) :: 'a handlers"
  let ?s1 = "process_completion ?h m path chunk s" and ?r1 = "received ps (m_now s) r"
  have pl: "placeable_all k (ring_size s) ps r" "placeable_all k (ring_size s) (concat pss') r"
    using Cons.prems(4) by (simp_all add: placeable_all_def pss)
  have carry: "completion_carries parse k m s chunk ps" "list_all2 (completion_carries parse k m s) chunks pss'"
    using Cons.prems(3) pss by simp_all
  have i1: "implements k ?s1 ?r1" and run1: "running_like s ?s1"
    using process_completion_receive[OF Cons.prems(1,2) carry(1) pl(1)] by simp_all
  then have eq: "m_state ?s1 = Running" "m_now ?s1 = m_now s" "ring_size ?s1 = ring_size s" "same_config s ?s1"
    using Cons.prems(2) by (simp_all add: running_like_def same_config_def)
  have carry1: "list_all2 (completion_carries parse k m ?s1) chunks pss'"
    using carry(2) completion_carries_cong[OF eq(4)] by simp
  have pl1: "placeable_all k (ring_size ?s1) (concat pss') ?r1"
    using pl(2) eq(3) placeable_cong[of ?r1 r] by simp
  from Cons.IH[OF i1 eq(1) carry1 pl1, of "path + 1"]
  obtain s' where s': "process_paths ?h m (path + 1) (map (Pair success) chunks) ?s1 = (success, s')"
    "implements k s' (received (concat pss') (m_now s) ?r1)" "running_like ?s1 s'" by (auto simp: eq)
  then show ?case using run1 by (auto simp: pss running_like_def intro: same_config_trans)
qed

text \<open>The abstract call: the packets of all paths are received, then the gate decides about delivering.\<close>

definition call_spec :: "'x IPOReceiveStream_scheme \<Rightarrow> int \<Rightarrow> nat option list \<Rightarrow> reorder \<Rightarrow> reorder \<times> nat list" where
  "call_spec s now ps r =
    (if m_next_packet_time s + m_max_path_differential s < now
     then deliver (ring_size s) (m_max_path_differential s) now (m_start_time s) (received ps now r)
     else (received ps now r, []))"

lemma ipo_call_implements:
  assumes "implements k s r" "m_state s = Running"
    and "list_all2 (completion_carries parse k m s) chunks pss"
    and "placeable_all k (ring_size s) (concat pss) r"
    and "call_spec s now (concat pss) r = (r', ds)"
  shows "\<exists>s' chunk'. ipo_get_next_chunk (base_handlers parse (mask k)) m now (map (Pair success) chunks) chunk s
      = (success, s', chunk') \<and> implements k s' r' \<and> chunk_carries k s chunk' ds \<and> same_config (s\<lparr>m_now := now\<rparr>) s'"
proof -
  let ?h = "base_handlers parse (mask k) :: 'a handlers"
  let ?s0 = "s\<lparr>m_now := now\<rparr>"
  have i0: "implements k ?s0 r" and run0: "m_state ?s0 = Running"
    and carry0: "list_all2 (completion_carries parse k m ?s0) chunks pss"
    using assms(1,2,3) by (simp_all add: implements_def ring_ok_def)
  have pl0: "placeable_all k (ring_size ?s0) (concat pss) r" using assms(4) by simp
  from process_paths_receive[OF i0 run0 carry0 pl0]
  obtain s2 where s2: "process_paths ?h m 0 (map (Pair success) chunks) ?s0 = (success, s2)"
    "implements k s2 (received (concat pss) now r)" "running_like ?s0 s2" by auto
  obtain s' chunk' where ho: "hand_over ?h chunk s2 = (s', chunk')" by (cases "hand_over ?h chunk s2") auto
  have "hand_over_spec k s2 (received (concat pss) now r) = (r', ds)"
    using assms(5) s2(3) run0
    by (simp add: hand_over_spec_def call_spec_def running_like_def same_config_def split: if_splits)
  from hand_over_implements[OF s2(2) this ho]
  have "implements k s' r'" "chunk_carries k s2 chunk' ds" "same_config ?s0 s'"
    using s2(3) by (auto simp: running_like_def intro: same_config_trans)
  moreover have "chunk_carries k s chunk' ds"
    using calculation(2) s2(3) by (simp add: chunk_carries_def running_like_def same_config_def)
  moreover have "ipo_get_next_chunk ?h m now (map (Pair success) chunks) chunk s = (success, s', chunk')"
    using s2(1) ho assms(2) by (simp add: ipo_get_next_chunk_def Let_def)
  ultimately show ?thesis by blast
qed

section \<open>What the reorder buffer promises\<close>

lemma deliver_effect:
  assumes "deliver wa mpd now t0 r = (r', ds)" "r_last r < r_next r"
  shows "r_next r \<le> r_next r'" "r_last r' < r_next r'" "dom (r_buf r) \<subseteq> {r_next r..} \<Longrightarrow> r_buf r' = r_buf r |` {r_next r'..}"
    and "\<exists>m c. r_next r \<le> m \<and> m + c \<le> r_next r' \<and> ds = [m..<m + c] \<and> (ds \<noteq> [] \<longrightarrow> m mod wa + c \<le> wa)
      \<and> (\<forall>q. m \<le> q \<and> q < m + c \<longrightarrow> due mpd now (r_buf r) q)
      \<and> (\<forall>q t. r_next r \<le> q \<and> q < r_next r' \<and> r_buf r q = Some t \<longrightarrow> m \<le> q \<and> q < m + c \<or> t < t0)"
proof -
  let ?B = "r_buf r" and ?n = "r_next r"
  have "?n \<le> r_next r' \<and> r_last r' < r_next r' \<and> (dom ?B \<subseteq> {?n..} \<longrightarrow> r_buf r' = ?B |` {r_next r'..})
    \<and> (\<exists>m c. ?n \<le> m \<and> m + c \<le> r_next r' \<and> ds = [m..<m + c] \<and> (ds \<noteq> [] \<longrightarrow> m mod wa + c \<le> wa)
      \<and> (\<forall>q. m \<le> q \<and> q < m + c \<longrightarrow> due mpd now ?B q)
      \<and> (\<forall>q t. ?n \<le> q \<and> q < r_next r' \<and> ?B q = Some t \<longrightarrow> m \<le> q \<and> q < m + c \<or> t < t0))"
  proof (cases "\<exists>e. first_held wa r = Some e \<and> due mpd now ?B e")
    case False
    then have "r' = r" "ds = []" using assms(1) by (auto simp: deliver_def split: option.splits)
    moreover have "?B |` {?n..} = ?B" if "dom ?B \<subseteq> {?n..}"
      using that by (auto simp: restrict_map_def fun_eq_iff domIff subset_iff) (metis not_None_eq)
    ultimately show ?thesis using assms(2) by (intro conjI exI[of _ ?n] exI[of _ 0]) auto
  next
    case True
    then obtain e where fh: "first_held wa r = Some e" and de: "due mpd now ?B e" by blast
    note e = find_upt[OF fh[unfolded first_held_def]]
    define m where "m = e + length (takeWhile (before_start t0 ?B) [e..<?n + wa])"
    have em: "e \<le> m" by (simp add: m_def)
    have run: "before_start t0 ?B j" if "e \<le> j" "j < m" for j
      using takeWhile_upt(1)[of e j "before_start t0 ?B" "?n + wa"] that by (simp add: m_def)
    have skipped: "t < t0" if "?n \<le> q" "q < m" "?B q = Some t" for q t
    proof (cases "q < e")
      case True
      then show ?thesis using e(4)[of q] that by simp
    next
      case False
      then show ?thesis using run[of q] that by (simp add: before_start_def)
    qed
    have D: "(r', ds) = (if ?B m = None then (advance m r, [])
            else let c = length (takeWhile (due mpd now ?B) [m..<m + (wa - m mod wa)])
                 in ((advance (m + c) r)\<lparr>r_last := (if c = 0 then r_last r else m + c - 1)\<rparr>, [m..<m + c]))"
      using assms(1) fh de by (simp add: deliver_def m_def[symmetric] Let_def)
    show ?thesis
    proof (cases "?B m")
      case None
      then have "r' = advance m r" "ds = []" using D by simp_all
      then show ?thesis using e em skipped assms(2) by (intro conjI exI[of _ m] exI[of _ 0]) auto
    next
      case (Some tm)
      define c where "c = length (takeWhile (due mpd now ?B) [m..<m + (wa - m mod wa)])"
      have r': "r' = (advance (m + c) r)\<lparr>r_last := (if c = 0 then r_last r else m + c - 1)\<rparr>" and ds: "ds = [m..<m + c]"
        using D Some by (simp_all add: c_def Let_def)
      have "c \<le> wa - m mod wa" using length_takeWhile_le[of "due mpd now ?B" "[m..<m + (wa - m mod wa)]"] by (simp add: c_def)
      then have cw: "ds \<noteq> [] \<longrightarrow> m mod wa + c \<le> wa" by (auto simp: ds)
      have d: "due mpd now ?B q" if "m \<le> q" "q < m + c" for q
        using takeWhile_upt(1)[of m q "due mpd now ?B" "m + (wa - m mod wa)"] that by (simp add: c_def)
      have s: "m \<le> q \<and> q < m + c \<or> t < t0" if "?n \<le> q" "q < m + c" "?B q = Some t" for q t
        using skipped[of q t] that by linarith
      have "r_next r' = m + c" "r_last r' < m + c" "r_buf r' = ?B |` {m + c..}"
        using r' e em assms(2) by (auto simp: advance_def)
      then show ?thesis using e em ds cw d s by (intro conjI exI[of _ m] exI[of _ c]) auto
    qed
  qed
  then show "?n \<le> r_next r'" "r_last r' < r_next r'" "dom ?B \<subseteq> {?n..} \<Longrightarrow> r_buf r' = ?B |` {r_next r'..}"
    "\<exists>m c. ?n \<le> m \<and> m + c \<le> r_next r' \<and> ds = [m..<m + c] \<and> (ds \<noteq> [] \<longrightarrow> m mod wa + c \<le> wa)
      \<and> (\<forall>q. m \<le> q \<and> q < m + c \<longrightarrow> due mpd now ?B q)
      \<and> (\<forall>q t. ?n \<le> q \<and> q < r_next r' \<and> ?B q = Some t \<longrightarrow> m \<le> q \<and> q < m + c \<or> t < t0)"
    by blast+
qed

text \<open>The runs of the buffer: packets are received at some time, and chunks are delivered.  \<open>rcv\<close> logs the
  packets that were accepted, \<open>dlv\<close> the positions delivered with the time of the call.\<close>

inductive reorder_run :: "nat \<Rightarrow> int \<Rightarrow> int \<Rightarrow> (nat \<times> int) list \<Rightarrow> (nat \<times> int) list \<Rightarrow> reorder \<Rightarrow> bool"
  for wa mpd t0 where
  run_start: "r_last r < r_next r \<Longrightarrow> r_buf r = Map.empty \<Longrightarrow> reorder_run wa mpd t0 [] [] r"
| run_ignore: "reorder_run wa mpd t0 rcv dlv r \<Longrightarrow> p \<le> r_last r \<or> r_buf r p \<noteq> None \<Longrightarrow>
    reorder_run wa mpd t0 rcv dlv (receive p now r)"
| run_accept: "reorder_run wa mpd t0 rcv dlv r \<Longrightarrow> r_next r \<le> p \<Longrightarrow> r_buf r p = None \<Longrightarrow>
    reorder_run wa mpd t0 ((p, now) # rcv) dlv (receive p now r)"
| run_deliver: "reorder_run wa mpd t0 rcv dlv r \<Longrightarrow> deliver wa mpd now t0 r = (r', ds) \<Longrightarrow>
    reorder_run wa mpd t0 rcv (dlv @ map (\<lambda>p. (p, now)) ds) r'"

definition run_inv :: "int \<Rightarrow> int \<Rightarrow> (nat \<times> int) list \<Rightarrow> (nat \<times> int) list \<Rightarrow> reorder \<Rightarrow> bool" where
  "run_inv mpd t0 rcv dlv r \<longleftrightarrow> r_last r < r_next r \<and> dom (r_buf r) \<subseteq> {r_next r..}
     \<and> (\<forall>p t. r_buf r p = Some t \<longrightarrow> (p, t) \<in> set rcv)
     \<and> sorted_wrt (<) (map fst dlv) \<and> (\<forall>(p, now)\<in>set dlv. p < r_next r \<and> (\<exists>t. (p, t) \<in> set rcv \<and> t + mpd < now))
     \<and> (\<forall>(p, t)\<in>set rcv. r_buf r p = Some t \<or> p \<in> fst ` set dlv \<or> t < t0)
     \<and> distinct (map fst rcv) \<and> (\<forall>(p, t)\<in>set rcv. p < r_next r \<or> r_buf r p \<noteq> None)"

lemma run_inv: "reorder_run wa mpd t0 rcv dlv r \<Longrightarrow> run_inv mpd t0 rcv dlv r"
proof (induction rule: reorder_run.induct)
  case (run_start r)
  then show ?case by (simp add: run_inv_def)
next
  case (run_ignore rcv dlv r p now)
  then show ?case by (auto simp: receive_def)
next
  case (run_accept rcv dlv r p now)
  then have "\<not> p \<le> r_last r" by (simp add: run_inv_def)
  then have r: "receive p now r = r\<lparr>r_buf := (r_buf r)(p \<mapsto> now)\<rparr>" using run_accept by (simp add: receive_def)
  have inv: "run_inv mpd t0 rcv dlv r" by (rule run_accept.IH)
  have np: "p \<notin> fst ` set rcv"
  proof
    assume "p \<in> fst ` set rcv"
    then obtain t where "(p, t) \<in> set rcv" by auto
    then have "p < r_next r \<or> r_buf r p \<noteq> None" using inv unfolding run_inv_def by blast
    then show False using run_accept by simp
  qed
  have old: "q \<noteq> p" if "(q, t) \<in> set rcv" for q t using np that by force
  show ?case
    unfolding run_inv_def r
  proof (intro conjI)
    show "\<forall>(q, t)\<in>set ((p, now) # rcv). r_buf (r\<lparr>r_buf := (r_buf r)(p \<mapsto> now)\<rparr>) q = Some t \<or> q \<in> fst ` set dlv \<or> t < t0"
      using inv old by (auto simp: run_inv_def)
    show "\<forall>(q, t)\<in>set ((p, now) # rcv). q < r_next (r\<lparr>r_buf := (r_buf r)(p \<mapsto> now)\<rparr>) \<or> r_buf (r\<lparr>r_buf := (r_buf r)(p \<mapsto> now)\<rparr>) q \<noteq> None"
      using inv old by (auto simp: run_inv_def)
    show "\<forall>(q, nw)\<in>set dlv. q < r_next (r\<lparr>r_buf := (r_buf r)(p \<mapsto> now)\<rparr>) \<and> (\<exists>t. (q, t) \<in> set ((p, now) # rcv) \<and> t + mpd < nw)"
      using inv by (fastforce simp: run_inv_def)
    show "distinct (map fst ((p, now) # rcv))" using inv np by (simp add: run_inv_def)
    show "dom (r_buf (r\<lparr>r_buf := (r_buf r)(p \<mapsto> now)\<rparr>)) \<subseteq> {r_next (r\<lparr>r_buf := (r_buf r)(p \<mapsto> now)\<rparr>)..}"
      using inv run_accept(2) by (auto simp: run_inv_def)
  qed (use inv in \<open>auto simp: run_inv_def\<close>)
next
  case (run_deliver rcv dlv r now r' ds)
  have inv: "run_inv mpd t0 rcv dlv r" by (rule run_deliver.IH)
  then have last: "r_last r < r_next r" and dom: "dom (r_buf r) \<subseteq> {r_next r..}" by (simp_all add: run_inv_def)
  note eff = deliver_effect[OF run_deliver.hyps(2) last]
  have B: "r_buf r' = r_buf r |` {r_next r'..}" by (rule eff(3)[OF dom])
  obtain m c where m: "r_next r \<le> m" "m + c \<le> r_next r'" "ds = [m..<m + c]"
    "\<And>q. m \<le> q \<Longrightarrow> q < m + c \<Longrightarrow> due mpd now (r_buf r) q"
    "\<And>q t. r_next r \<le> q \<Longrightarrow> q < r_next r' \<Longrightarrow> r_buf r q = Some t \<Longrightarrow> m \<le> q \<and> q < m + c \<or> t < t0"
    using eff(4) by blast
  let ?dlv = "dlv @ map (\<lambda>p. (p, now)) ds"
  have fst_ds: "map fst ?dlv = map fst dlv @ ds" by (simp add: comp_def)
  have before: "p < r_next r" if "(p, t) \<in> set dlv" for p t using inv that by (auto simp: run_inv_def)
  show ?case
    unfolding run_inv_def
  proof (intro conjI)
    show "sorted_wrt (<) (map fst ?dlv)"
      unfolding fst_ds sorted_wrt_append using inv before m(1,3) by (fastforce simp: run_inv_def)
    show "\<forall>(p, nw)\<in>set ?dlv. p < r_next r' \<and> (\<exists>t. (p, t) \<in> set rcv \<and> t + mpd < nw)"
    proof (clarify)
      fix p nw assume "(p, nw) \<in> set ?dlv"
      then consider "(p, nw) \<in> set dlv" | "nw = now" "m \<le> p" "p < m + c" using m(3) by auto
      then show "p < r_next r' \<and> (\<exists>t. (p, t) \<in> set rcv \<and> t + mpd < nw)"
      proof cases
        case 1
        then show ?thesis using inv eff(1) by (fastforce simp: run_inv_def)
      next
        case 2
        then obtain t where "r_buf r p = Some t" "t + mpd < now"
          using m(4)[of p] by (auto simp: due_def split: option.splits)
        then show ?thesis using 2 inv m(2) by (auto simp: run_inv_def)
      qed
    qed
    show "\<forall>(p, t)\<in>set rcv. r_buf r' p = Some t \<or> p \<in> fst ` set ?dlv \<or> t < t0"
    proof -
      have "r_buf r' p = Some t"
        if pt: "(p, t) \<in> set rcv" "p \<notin> fst ` set ?dlv" "\<not> t < t0" for p t
      proof -
        have "(p, t) \<in> set rcv \<Longrightarrow> r_buf r p = Some t \<or> p \<in> fst ` set dlv \<or> t < t0"
          using inv unfolding run_inv_def by blast
        then have b: "r_buf r p = Some t" using pt by auto
        then have "r_next r \<le> p" using dom by blast
        moreover have "\<not> (m \<le> p \<and> p < m + c)" using pt(2) m(3) by force
        ultimately have "r_next r' \<le> p" using m(5)[of p t] b pt(3) by force
        then show ?thesis using b by (simp add: B)
      qed
      then show ?thesis by blast
    qed
    show "\<forall>(p, t)\<in>set rcv. p < r_next r' \<or> r_buf r' p \<noteq> None"
    proof (clarify)
      fix p t assume pt: "(p, t) \<in> set rcv" "\<not> p < r_next r'"
      then have "r_buf r p \<noteq> None" using inv eff(1) by (fastforce simp: run_inv_def)
      then show "\<exists>y. r_buf r' p = Some y" using pt by (auto simp: B)
    qed
    show "\<forall>p t. r_buf r' p = Some t \<longrightarrow> (p, t) \<in> set rcv"
      using inv by (auto simp: B restrict_map_def run_inv_def split: if_splits)
    show "dom (r_buf r') \<subseteq> {r_next r'..}" by (auto simp: B)
    show "distinct (map fst rcv)" using inv by (simp add: run_inv_def)
  qed (rule eff(2))
qed


definition example_buffer :: reorder where
  "example_buffer = \<lparr>r_next = 5, r_last = 3, r_buf = Map.empty\<rparr>"

lemma received_run:
  assumes "reorder_run wa mpd t0 rcv dlv r" "placeable_all k wa ps r"
  shows "\<exists>rcv'. reorder_run wa mpd t0 (rcv' @ rcv) dlv (received ps now r)"
  using assms
proof (induction ps arbitrary: rcv r)
  case Nil
  then show ?case by (intro exI[of _ "[]"]) simp
next
  case (Cons p ps)
  have pl: "placeable_all k wa ps r" using Cons.prems(2) by (simp add: placeable_all_def)
  show ?case
  proof (cases p)
    case None
    then show ?thesis using Cons pl by simp
  next
    case (Some q)
    have "placeable k wa q r" using Cons.prems(2) Some by (simp add: placeable_all_def)
    moreover have pl': "placeable_all k wa ps (receive q now r)" using pl placeable_cong by (metis receive_sel)
    ultimately consider "q \<le> r_last r \<or> r_buf r q \<noteq> None" | "r_next r \<le> q" "r_buf r q = None"
      by (auto simp: placeable_def)
    then show ?thesis
    proof cases
      case 1
      then show ?thesis using Cons.IH[OF run_ignore[OF Cons.prems(1) 1] pl'] Some by simp
    next
      case 2
      from Cons.IH[OF run_accept[OF Cons.prems(1) 2] pl']
      obtain rcv' where "reorder_run wa mpd t0 (rcv' @ (q, now) # rcv) dlv (received ps now (receive q now r))" by blast
      then show ?thesis using Some by (intro exI[of _ "rcv' @ [(q, now)]"]) simp
    qed
  qed
qed

text \<open>C1: a call of the redundant receive stream implements the abstract reorder buffer.
  The stream runs and represents the buffer \<open>r\<close> of some run; the completions of its paths carry packets at
  the positions \<open>concat pss\<close> (rejected headers included), each within the window of the ring.  Then the
  call succeeds; the new state represents the buffer \<open>r'\<close> after receiving these packets and, if the time
  of the next packet has come, delivering; the chunk carries exactly the delivered positions \<open>ds\<close>, its
  size, its first sequence number and its place in the ring; and the run of the buffer extends to \<open>r'\<close>
  with these deliveries.\<close>

theorem get_next_chunk_refines:
  assumes "reorder_run (ring_size s) (m_max_path_differential s) (m_start_time s) rcv dlv r"
    and "implements k s r" "m_state s = Running"
    and "list_all2 (completion_carries parse k m s) chunks pss"
    and "placeable_all k (ring_size s) (concat pss) r"
    and "call_spec s now (concat pss) r = (r', ds)"
  shows "\<exists>s' chunk' rcv'. ipo_get_next_chunk (base_handlers parse (mask k)) m now (map (Pair success) chunks) chunk s
      = (success, s', chunk') \<and> implements k s' r' \<and> chunk_carries k s chunk' ds
    \<and> reorder_run (ring_size s) (m_max_path_differential s) (m_start_time s) (rcv' @ rcv)
        (dlv @ map (\<lambda>p. (p, now)) ds) r'"
proof -
  from received_run[OF assms(1,5), of now] obtain rcv' where
    run: "reorder_run (ring_size s) (m_max_path_differential s) (m_start_time s) (rcv' @ rcv) dlv (received (concat pss) now r)" ..
  have "reorder_run (ring_size s) (m_max_path_differential s) (m_start_time s) (rcv' @ rcv)
      (dlv @ map (\<lambda>p. (p, now)) ds) r'"
  proof (cases "m_next_packet_time s + m_max_path_differential s < now")
    case True
    then show ?thesis using assms(6) by (intro run_deliver[OF run]) (simp add: call_spec_def)
  next
    case False
    then show ?thesis using assms(6) run by (simp add: call_spec_def)
  qed
  then show ?thesis using ipo_call_implements[OF assms(2-6), of chunk] by blast
qed

definition example_ipo_stream :: IPOReceiveStream where
  "example_ipo_stream = (IPOReceiveStream_new 4 False False 0 0 64)
     \<lparr>m_state := Running, m_sequence_number_wrap_around := 4, m_sequence_number_msb_mask := 2 ^ 15,
      m_max_path_differential := 10, m_index := 1, m_last_processed_sequence_number := 3,
      m_ext_packet_info_arr := (replicate 4 ext_packet_info_default)
        [1 := \<lparr>info_sequence_number = 5, is_valid = True, info_timestamp = 2, hw_timestamp = 0\<rparr>]\<rparr>"

definition example_ipo_chunk :: IPOReceiveChunk where
  "example_ipo_chunk = \<lparr>completion_chunk_size = 0, completion_seqn_first = 0, completion_timestamp_first = 0,
     completion_timestamp_last = 0, completion_header_ptr = 0, completion_payload_ptr = 0, completion_info_slot = None\<rparr>"

definition example_held :: reorder where
  "example_held = receive 5 2 example_buffer"

definition example_wire :: mem where
  "example_wire a = (if a = 0 then 0x80 else if a = 3 then 6 else 0)"

definition example_completion :: ReceiveChunk where
  "example_completion = \<lparr>chunk_header_ptr = 0, chunk_payload_ptr = 0,
     chunk_packets = [\<lparr>sub_block_size_0 = 64, sub_block_size_1 = 0, packet_timestamp = 0\<rparr>]\<rparr>"

lemma example_ipo_stream_implements: "implements 16 example_ipo_stream example_held"
proof -
  have "slot_agrees 16 (m_ext_packet_info_arr example_ipo_stream ! (q mod 4)) q (r_buf example_held q)"
    if "q \<in> {5..<9}" for q
  proof -
    have "q = 5 \<or> q = 6 \<or> q = 7 \<or> q = 8" using that by auto
    then show ?thesis
      by (auto simp: slot_agrees_def example_ipo_stream_def example_held_def example_buffer_def receive_def
          IPOReceiveStream_new_def ext_packet_info_default_def seq_of_def nth_list_update)
  qed
  then show ?thesis
    by (simp add: implements_def ring_ok_def example_ipo_stream_def example_held_def example_buffer_def receive_def
        IPOReceiveStream_new_def seq_of_def)
qed

theorem get_next_chunk_refines_witness:
  "\<exists>s' chunk'. ipo_get_next_chunk (base_handlers (app_get_sequence_number False) (mask 16)) example_wire 20
      [(success, example_completion)] example_ipo_chunk example_ipo_stream = (success, s', chunk')
    \<and> completion_chunk_size chunk' = 1 \<and> completion_seqn_first chunk' = 5"
proof -
  have run: "reorder_run 4 10 0 [(5, 2)] [] example_held"
    unfolding example_held_def
    by (rule run_accept[OF run_start]) (simp_all add: example_buffer_def)
  have cfg: "ring_size example_ipo_stream = 4" "m_max_path_differential example_ipo_stream = 10"
    "m_start_time example_ipo_stream = 0" "m_state example_ipo_stream = Running" "m_next_packet_time example_ipo_stream = 0"
    by (simp_all add: example_ipo_stream_def IPOReceiveStream_new_def)
  have carry: "list_all2 (completion_carries (app_get_sequence_number False) 16 example_wire example_ipo_stream)
      [example_completion] [[Some 6]]"
    by (simp add: completion_carries_def example_ipo_stream_def IPOReceiveStream_new_def example_completion_def
        app_get_sequence_number_def example_wire_def seq_of_def)
  have pl: "placeable_all 16 (ring_size example_ipo_stream) (concat [[Some 6]]) example_held"
    unfolding cfg by (simp add: placeable_all_def placeable_def example_held_def example_buffer_def receive_def)
  have "snd (call_spec example_ipo_stream 20 (concat [[Some 6]]) example_held) = [5]"
    by (simp add: call_spec_def cfg example_held_def example_buffer_def receive_def deliver_def first_held_def
        due_def before_start_def upt_rec Let_def)
  then obtain r' where spec: "call_spec example_ipo_stream 20 (concat [[Some 6]]) example_held = (r', [5])"
    by (cases "call_spec example_ipo_stream 20 (concat [[Some 6]]) example_held") auto
  show ?thesis
    using get_next_chunk_refines[OF run[folded cfg] example_ipo_stream_implements cfg(4) carry pl spec, of example_ipo_chunk]
    by (auto simp: chunk_carries_def seq_of_def)
qed

section \<open>The first packet and the restart of a sender\<close>

definition no_packets :: "'x IPOReceiveStream_scheme \<Rightarrow> bool" where
  "no_packets s \<longleftrightarrow> (\<forall>info\<in>set (m_ext_packet_info_arr s). \<not> is_valid info)"

definition awaits_first :: "'x IPOReceiveStream_scheme \<Rightarrow> bool" where
  "awaits_first s \<longleftrightarrow> m_state s = WaitFirstPacket
     \<or> m_state s = Waiting \<and> m_now s - m_next_packet_time s > m_sender_restart_threshold s"

lemma seq_of_diff:
  assumes "k \<le> 32" "l \<le> p"
  shows "(seq_of k p - seq_of k l) AND mask k = seq_of k (p - l)"
proof -
  have s: "seq_of k n = word_of_int (take_bit k (int n))" for n
    using take_bit_word_of_int[of k "int n", where 'a=32] assms(1) by (simp add: seq_of_def)
  have "(seq_of k p - seq_of k l) AND mask k
      = word_of_int (take_bit k (take_bit k (int p) - take_bit k (int l)))"
    using take_bit_word_of_int[of k "take_bit k (int p) - take_bit k (int l)", where 'a=32] assms(1)
    by (simp add: s take_bit_eq_mask[symmetric])
  then show ?thesis using assms(2) by (simp add: s take_bit_diff of_nat_diff)
qed

lemma create_stream_config:
  assumes "create_stream (base_handlers parse (mask k)) results s = (st, s')" "k = 16 \<or> k = 32"
    "m_num_of_packets_in_chunk s = 2 ^ j" "j < 32"
  shows "ring_size s' dvd 2 ^ k" "0 < ring_size s'" "ring_size s' \<le> 2 ^ j" "m_sequence_number_msb_mask s' = 2 ^ (k - 1)"
    and "m_sequence_number_init_offset s' = 2 ^ (k - 2)"
proof -
  have w: "m_sequence_number_wrap_around s' = (if mask k \<ge> (2 ^ j :: u32) then 2 ^ j else mask k + 1)"
    "m_sequence_number_msb_mask s' = drop_bit 1 (mask k) + 1"
    "m_sequence_number_init_offset s' = ucast (((ucast (mask k :: u32) :: u64) + 1) div 4)"
    using assms(1,3) by (auto simp: create_stream_def base_handlers_def get_sequence_number_wrap_around_def Let_def
        split: option.splits)
  have "(2::nat) ^ j < 2 ^ 32" using assms(4) by (intro power_strict_increasing) auto
  then have u: "unat (2 ^ j :: u32) = 2 ^ j" using unat_word_of_nat[of "2 ^ j", where 'a=32] by simp
  show "m_sequence_number_msb_mask s' = 2 ^ (k - 1)" "m_sequence_number_init_offset s' = 2 ^ (k - 2)"
    using assms(2) by (auto simp: w mask_eq_exp_minus_1 drop_bit_eq_div)
  have le_pred: "0 < b \<Longrightarrow> a \<le> b - 1 \<longleftrightarrow> a < b" for a b :: nat by linarith
  have "unat (mask k :: u32) = 2 ^ k - 1" using assms(2) by (auto simp: mask_eq_exp_minus_1)
  then have "(2 ^ j :: u32) \<le> mask k \<longleftrightarrow> (2::nat) ^ j < 2 ^ k" 
    using le_pred[of "2 ^ k" "2 ^ j"] by (simp add: word_le_nat_alt u)
  then have "(2 ^ j :: u32) \<le> mask k \<longleftrightarrow> j < k" by simp
  moreover have "unat (mask k + 1 :: u32) = 2 ^ k" if "\<not> j < k"
    using assms(2,4) that by (auto simp: mask_eq_exp_minus_1)
  ultimately have "ring_size s' = (if j < k then 2 ^ j else 2 ^ k)" using u by (simp add: w)
  moreover have "(2::nat) ^ j dvd 2 ^ k" if "j < k" using that by (simp add: le_imp_power_dvd)
  moreover have "(2::nat) ^ k \<le> 2 ^ j" if "\<not> j < k" using that by simp
  ultimately show "ring_size s' dvd 2 ^ k" "0 < ring_size s'" "ring_size s' \<le> 2 ^ j" by auto
qed

text \<open>C9: the first packet of a stream, and the first one after a sender restart, starts an
  empty reorder buffer.  For a stream created with the sequence number mask of 16 or 32 bits and a ring
  whose size is a power of two, in which no packet is held, the state the code prepares for a packet at
  position \<open>p\<close> represents the buffer that waits for \<open>p\<close>, with the last processed position a quarter of
  the sequence range behind.\<close>

theorem first_packet_represents:
  fixes s0 :: "'x IPOReceiveStream_scheme"
  assumes "create_stream (base_handlers parse (mask k)) results s0 = (st, s1)" "k = 16 \<or> k = 32"
    and "m_num_of_packets_in_chunk s0 = 2 ^ j" "j < 32" "length (m_ext_packet_info_arr s) = 2 ^ j"
    and "m_sequence_number_wrap_around s = m_sequence_number_wrap_around s1"
    and "m_sequence_number_msb_mask s = m_sequence_number_msb_mask s1"
    and "m_sequence_number_init_offset s = m_sequence_number_init_offset s1"
    and "awaits_first s" "no_packets s" "2 ^ (k - 2) \<le> p"
  shows "implements k (prepare_state (base_handlers parse (mask k)) (seq_of k p) s)
      \<lparr>r_next = p, r_last = p - 2 ^ (k - 2), r_buf = Map.empty\<rparr>
    \<and> m_state (prepare_state (base_handlers parse (mask k)) (seq_of k p) s) = Running
    \<and> m_next_packet_time (prepare_state (base_handlers parse (mask k)) (seq_of k p) s) = m_now s"
proof -
  let ?s' = "prepare_state (base_handlers parse (mask k)) (seq_of k p) s"
  note cfg = create_stream_config[OF assms(1-4), folded assms(6-8)]
  have ok: "ring_ok k s" using cfg assms(2,5) by (auto simp: ring_ok_def)
  have k2: "k \<le> 32" "2 \<le> k" using assms(2) by auto
  have "seq_of k (2 ^ (k - 2)) = 2 ^ (k - 2)" using assms(2) by (auto simp: seq_of_def)
  then have "(seq_of k p - 2 ^ (k - 2)) AND mask k = seq_of k (p - 2 ^ (k - 2))"
    using seq_of_diff[of k "2 ^ (k - 2)" p] k2 assms(11) by simp
  then have "m_index ?s' = p mod ring_size s" "m_last_processed_sequence_number ?s' = seq_of k (p - 2 ^ (k - 2))"
    "m_state ?s' = Running" "m_next_packet_time ?s' = m_now s" "m_sequence_number_wrap_around ?s' = m_sequence_number_wrap_around s"
    "m_sequence_number_msb_mask ?s' = m_sequence_number_msb_mask s" "m_ext_packet_info_arr ?s' = m_ext_packet_info_arr s"
    using assms(9) cfg(5) ring_slot_seq_of[OF ok, of p]
    by (auto simp: prepare_state_def Let_def awaits_first_def base_handlers_def)
  moreover have "\<not> is_valid (m_ext_packet_info_arr s ! (q mod ring_size s))" for q
  proof -
    have "q mod ring_size s < length (m_ext_packet_info_arr s)"
      using cfg(2,3) assms(5) by (metis less_le_trans mod_less_divisor)
    then show ?thesis using assms(10) by (simp add: no_packets_def)
  qed
  moreover have "p - 2 ^ (k - 2) < p" using assms(11) zero_less_power[of "2::nat" "k - 2"] by linarith
  ultimately show ?thesis using ok assms(11) by (simp add: implements_def ring_ok_def slot_agrees_def)
qed


theorem first_packet_represents_witness:
  "\<exists>s r. implements 16 (prepare_state (base_handlers (app_get_sequence_number False) (mask 16)) (seq_of 16 65540) (s :: IPOReceiveStream)) r
    \<and> r_next r = 65540"
proof -
  let ?h = "base_handlers (app_get_sequence_number False) (mask 16) :: unit handlers"
  let ?s0 = "IPOReceiveStream_new 8 False False 100 0 64"
  let ?s = "start 5 (snd (create_stream ?h [success, success] ?s0))"
  have arr: "m_ext_packet_info_arr ?s = replicate 8 ext_packet_info_default"
    by (simp add: start_def create_stream_def Let_def IPOReceiveStream_new_def)
  show ?thesis
    using first_packet_represents[of "app_get_sequence_number False" 16 "[success, success]" ?s0
        "fst (create_stream ?h [success, success] ?s0)" "snd (create_stream ?h [success, success] ?s0)" 3 ?s 65540]
    by (intro exI[of _ ?s] exI[of _ "\<lparr>r_next = 65540, r_last = 65540 - 2 ^ 14, r_buf = Map.empty\<rparr>"])
       (simp add: arr no_packets_def ext_packet_info_default_def start_def awaits_first_def
         create_stream_def Let_def IPOReceiveStream_new_def)
qed

section \<open>Subclasses of the stream\<close>

text \<open>The contract between the base class and a subclass: the overridden handlers act on the base part of
  the object as the base class' own handlers do.\<close>

abbreviation base_part :: "'x IPOReceiveStream_scheme \<Rightarrow> IPOReceiveStream" where
  "base_part \<equiv> IPOReceiveStream.truncate"

lemma base_part_sel:
  "m_header_data_split (base_part s) = m_header_data_split s" "m_pkt_info_enabled (base_part s) = m_pkt_info_enabled s"
  "m_num_of_packets_in_chunk (base_part s) = m_num_of_packets_in_chunk s"
  "m_max_path_differential (base_part s) = m_max_path_differential s"
  "m_sender_restart_threshold (base_part s) = m_sender_restart_threshold s"
  "m_last_processed_sequence_number (base_part s) = m_last_processed_sequence_number s"
  "m_sequence_number_wrap_around (base_part s) = m_sequence_number_wrap_around s"
  "m_sequence_number_msb_mask (base_part s) = m_sequence_number_msb_mask s"
  "m_sequence_number_init_offset (base_part s) = m_sequence_number_init_offset s"
  "m_state (base_part s) = m_state s" "m_header_buffer (base_part s) = m_header_buffer s"
  "m_payload_buffer (base_part s) = m_payload_buffer s"
  "m_ext_packet_info_arr (base_part s) = m_ext_packet_info_arr s" "m_packet_info_arr (base_part s) = m_packet_info_arr s"
  "m_ring_header_stride (base_part s) = m_ring_header_stride s" "m_ring_payload_stride (base_part s) = m_ring_payload_stride s"
  "m_index (base_part s) = m_index s" "m_next_packet_time (base_part s) = m_next_packet_time s"
  "m_start_time (base_part s) = m_start_time s" "m_now (base_part s) = m_now s"
  by (simp_all add: IPOReceiveStream.truncate_def)

lemma base_part_upd:
  "base_part (s\<lparr>m_index := i\<rparr>) = (base_part s)\<lparr>m_index := i\<rparr>"
  "base_part (s\<lparr>m_state := st\<rparr>) = (base_part s)\<lparr>m_state := st\<rparr>"
  "base_part (s\<lparr>m_now := t\<rparr>) = (base_part s)\<lparr>m_now := t\<rparr>"
  "base_part (s\<lparr>m_start_time := t\<rparr>) = (base_part s)\<lparr>m_start_time := t\<rparr>"
  "base_part (s\<lparr>m_next_packet_time := t\<rparr>) = (base_part s)\<lparr>m_next_packet_time := t\<rparr>"
  "base_part (s\<lparr>m_last_processed_sequence_number := n\<rparr>) = (base_part s)\<lparr>m_last_processed_sequence_number := n\<rparr>"
  "base_part (s\<lparr>m_ext_packet_info_arr := a\<rparr>) = (base_part s)\<lparr>m_ext_packet_info_arr := a\<rparr>"
  "base_part (s\<lparr>m_packet_info_arr := pa\<rparr>) = (base_part s)\<lparr>m_packet_info_arr := pa\<rparr>"
  by (simp_all add: IPOReceiveStream.truncate_def)

lemmas base_part_simps = base_part_sel base_part_upd

definition as_base :: "'x handlers \<Rightarrow> unit handlers" where
  "as_base h = base_handlers (h_get_sequence_number h) (h_sequence_number_mask h)"

lemma as_base_sel:
  "h_get_sequence_number (as_base h) = h_get_sequence_number h" "h_sequence_number_mask (as_base h) = h_sequence_number_mask h"
  "handle_corrupted_packet (as_base h) path info s = s" "handle_late_packet (as_base h) path sn info s = s"
  "handle_packet (as_base h) path sn info s = base_handle_packet sn info s"
  "handle_redundant_packet (as_base h) path sn info s = s" "complete_packet (as_base h) sn s = base_complete_packet sn s"
  "handle_sender_restart (as_base h) s = s"
  by (simp_all add: as_base_def base_handlers_def)

lemma ring_slot_base_part: "ring_slot (base_part s) n = ring_slot s n"
  by (simp add: ring_slot_def base_part_sel)

locale stream_handlers =
  fixes h :: "'x handlers"
  assumes corrupted_base: "base_part (handle_corrupted_packet h path info s) = base_part s"
    and late_base: "base_part (handle_late_packet h path sn info s) = base_part s"
    and packet_base: "base_part (handle_packet h path sn info s) = base_handle_packet sn info (base_part s)"
    and redundant_base: "base_part (handle_redundant_packet h path sn info s) = base_part s"
    and complete_base: "base_part (complete_packet h sn s) = base_complete_packet sn (base_part s)"
    and restart_base: "base_part (handle_sender_restart h s) = base_part s"
begin

lemmas handlers_base = corrupted_base late_base packet_base redundant_base complete_base restart_base

lemma prepare_state_base: "base_part (prepare_state h sn s) = prepare_state (as_base h) sn (base_part s)"
  by (cases "m_state s")
     (simp_all add: prepare_state_def Let_def base_part_simps ring_slot_base_part as_base_sel handlers_base)

lemma file_packet_base: "base_part (file_packet h path sn info s) = file_packet (as_base h) path sn info (base_part s)"
  by (simp add: file_packet_def Let_def base_part_simps ring_slot_base_part as_base_sel handlers_base)

lemma process_packet_base:
  "base_part (process_packet h m path ptr info s) = process_packet (as_base h) m path ptr info (base_part s)"
  by (simp add: process_packet_def as_base_sel handlers_base file_packet_base prepare_state_base split: option.split)

lemma process_packets_base:
  "base_part (process_packets h m path stride ptr infos s) = process_packets (as_base h) m path stride ptr infos (base_part s)"
  by (induction infos arbitrary: ptr s) (simp_all add: process_packet_base)

lemma process_completion_base:
  "base_part (process_completion h m path chunk s) = process_completion (as_base h) m path chunk (base_part s)"
  by (simp add: process_completion_def base_part_sel process_packets_base)

lemma process_paths_base:
  "process_paths (as_base h) m path results (base_part s)
    = map_prod id base_part (process_paths h m path results s)"
  by (induction results arbitrary: path s) (auto simp: process_completion_base[symmetric])

lemma skip_initial_base: "skip_initial (base_part s) = map_prod base_part id (skip_initial (s :: 'x IPOReceiveStream_scheme))"
proof (induction s rule: skip_initial.induct)
  case (1 s)
  show ?case
    using "1.IH"[OF refl refl]
    by (subst (1 2) skip_initial.simps) (auto simp: Let_def base_part_simps id_def)
qed

lemma collect_packets_base:
  "collect_packets (as_base h) n chunk count (base_part s)
    = map_prod base_part id (collect_packets h n chunk count s)"
proof (induction n arbitrary: chunk count s)
  case (Suc n)
  have wa: "m_sequence_number_wrap_around (complete_packet h sn s) = m_sequence_number_wrap_around s" for sn s
  proof -
    have "m_sequence_number_wrap_around (base_part (complete_packet h sn s)) = m_sequence_number_wrap_around s"
      unfolding complete_base by (simp add: base_complete_packet_def base_part_sel)
    then show ?thesis by (simp add: base_part_sel)
  qed
  have wb: "m_sequence_number_wrap_around (base_complete_packet sn s) = m_sequence_number_wrap_around s" for sn s
    by (simp add: base_complete_packet_def)
  have st: "(base_complete_packet sn ((base_part s)\<lparr>m_ext_packet_info_arr := a\<rparr>))\<lparr>m_index := j\<rparr>
      = base_part ((complete_packet h sn (s\<lparr>m_ext_packet_info_arr := a\<rparr>))\<lparr>m_index := j\<rparr>)" for sn a j
    by (simp add: complete_base base_part_upd)
  show ?case
    by (simp add: Let_def base_part_sel as_base_sel wa wb st Suc.IH)
qed simp

lemma hand_over_base: "hand_over (as_base h) chunk (base_part s) = map_prod base_part id (hand_over h chunk s)"
  unfolding hand_over_def Let_def
  by (simp add: base_part_sel base_part_upd[symmetric] skip_initial_base collect_packets_base
        split: option.split prod.split bool.split)

lemma get_next_chunk_base:
  "ipo_get_next_chunk (as_base h) m now results chunk (base_part s)
    = map_prod id (map_prod base_part id) (ipo_get_next_chunk h m now results chunk s)"
  unfolding ipo_get_next_chunk_def Let_def
  by (simp add: base_part_sel base_part_upd[symmetric] process_paths_base hand_over_base split: prod.split)
end


interpretation base: stream_handlers "base_handlers parse seq_mask" for parse seq_mask
  by unfold_locales
     (simp_all add: base_handlers_def base_handle_packet_def base_complete_packet_def Let_def base_part_simps
       ring_slot_base_part)

lemma base_part_app: "base_part (s\<lparr>app_statistic := a\<rparr>) = base_part s" "base_part (s\<lparr>app_statistic_totals := a\<rparr>) = base_part s"
  "base_part (s\<lparr>m_path_packets := pp\<rparr>) = base_part s" "base_part (s\<lparr>app_initialized := i\<rparr>) = base_part s"
  "base_part (s\<lparr>app_last_sequence_number := n\<rparr>) = base_part s"
  by (simp_all add: IPOReceiveStream.truncate_def)

interpretation app: stream_handlers "app_handlers is_extended" for is_extended
proof
  fix path sn info and s :: AppIPOReceiveStream
  show "base_part (handle_packet (app_handlers is_extended) path sn info s) = base_handle_packet sn info (base_part s)"
    by (simp add: app_handlers_def app_handle_packet_def Let_def base_part_app base.packet_base[unfolded base_handlers_def, simplified])
  show "base_part (complete_packet (app_handlers is_extended) sn s) = base_complete_packet sn (base_part s)"
    by (simp add: app_handlers_def app_complete_packet_def app_update_both_def Let_def base_part_app
        base_complete_packet_def base_part_upd)
qed (simp_all add: app_handlers_def app_handle_corrupted_packet_def app_handle_late_packet_def
      app_handle_redundant_packet_def app_handle_sender_restart_def app_update_both_def Let_def base_part_app)

section \<open>Invariants of the statistics\<close>

text \<open>A predicate that neither the stream's own updates nor the handlers break survives whole calls.\<close>

locale handler_invariant =
  fixes h :: "'x handlers" and P :: "'x IPOReceiveStream_scheme \<Rightarrow> bool"
  assumes own: "P s \<Longrightarrow> P (s\<lparr>m_index := i\<rparr>)" "P s \<Longrightarrow> P (s\<lparr>m_state := st\<rparr>)" "P s \<Longrightarrow> P (s\<lparr>m_now := t\<rparr>)"
      "P s \<Longrightarrow> P (s\<lparr>m_start_time := t\<rparr>)" "P s \<Longrightarrow> P (s\<lparr>m_next_packet_time := t\<rparr>)"
      "P s \<Longrightarrow> P (s\<lparr>m_last_processed_sequence_number := n\<rparr>)" "P s \<Longrightarrow> P (s\<lparr>m_ext_packet_info_arr := a\<rparr>)"
    and corrupted: "P s \<Longrightarrow> P (handle_corrupted_packet h path info s)"
    and late: "P s \<Longrightarrow> P (handle_late_packet h path sn info s)"
    and packet: "P s \<Longrightarrow> P (handle_packet h path sn info s)"
    and redundant: "P s \<Longrightarrow> P (handle_redundant_packet h path sn info s)"
    and complete: "P s \<Longrightarrow> P (complete_packet h sn s)"
    and restart: "P s \<Longrightarrow> P (handle_sender_restart h s)"
begin

lemmas steps = own corrupted late packet redundant complete restart

lemma process_packet_inv: "P s \<Longrightarrow> P (process_packet h m path ptr info s)"
proof -
  have "P s \<Longrightarrow> P (prepare_state h sn s)" for sn
    by (cases "m_state s") (simp_all add: prepare_state_def Let_def steps)
  moreover have "P s \<Longrightarrow> P (file_packet h path sn info s)" for sn s
    by (simp add: file_packet_def Let_def steps)
  ultimately show "P s \<Longrightarrow> P (process_packet h m path ptr info s)"
    by (simp add: process_packet_def steps split: option.split)
qed

lemma process_packets_inv: "P s \<Longrightarrow> P (process_packets h m path stride ptr infos s)"
  by (induction infos arbitrary: ptr s) (simp_all add: process_packet_inv)

lemma process_paths_inv: "P s \<Longrightarrow> P (snd (process_paths h m path results s))"
proof (induction results arbitrary: path s)
  case (Cons result results)
  have "P s \<Longrightarrow> P (process_completion h m path chunk s)" for chunk s
    by (simp add: process_completion_def process_packets_inv)
  then show ?case using Cons by (cases result) simp
qed simp

lemma skip_initial_inv: "P s \<Longrightarrow> P (fst (skip_initial s))"
proof (induction s rule: skip_initial.induct)
  case (1 s)
  then show ?case by (subst skip_initial.simps) (simp add: Let_def steps)
qed

lemma collect_packets_inv: "P s \<Longrightarrow> P (fst (collect_packets h n chunk count s))"
  by (induction n arbitrary: chunk count s) (simp_all add: Let_def steps)

lemma hand_over_inv: "P s \<Longrightarrow> P (fst (hand_over h chunk s))"
proof -
  assume P: "P s"
  have sk: "skip_initial (s\<lparr>m_index := i\<rparr>) = (s1, x) \<Longrightarrow> P s1" for i s1 x
    using skip_initial_inv[of "s\<lparr>m_index := i\<rparr>"] steps(1)[OF P] by simp
  have co: "P s1 \<Longrightarrow> collect_packets h n c k s1 = (s2, y) \<Longrightarrow> P s2" for n c k s1 s2 y
    using collect_packets_inv[of s1 n c k] by simp
  show ?thesis
    using P by (auto simp: hand_over_def Let_def steps sk split: option.split prod.split bool.split elim: co[rotated])
qed

lemma get_next_chunk_inv:
  "P s \<Longrightarrow> ipo_get_next_chunk h m now results chunk s = (st, s', chunk') \<Longrightarrow> P s'"
proof -
  assume P: "P s" and run: "ipo_get_next_chunk h m now results chunk s = (st, s', chunk')"
  let ?s1 = "if m_state s = NotStarted then s\<lparr>m_now := now, m_state := WaitFirstPacket,
      m_start_time := now + m_max_path_differential s\<rparr> else s\<lparr>m_now := now\<rparr>"
  have "P ?s1" using P by (simp add: steps)
  then have p: "P (snd (process_paths h m 0 results ?s1))" by (rule process_paths_inv)
  obtain st2 s2 where s2: "process_paths h m 0 results ?s1 = (st2, s2)" by (cases "process_paths h m 0 results ?s1") auto
  have "s' = s2 \<or> s' = fst (hand_over h chunk s2)"
    using run s2 by (auto simp: ipo_get_next_chunk_def Let_def split: if_splits prod.splits)
  then show "P s'" using p s2 hand_over_inv[of s2 chunk] by auto
qed

end

section \<open>The statistics of a run\<close>

definition path_reset :: "IPOPathStatistics \<Rightarrow> IPOPathStatistics" where
  "path_reset st = \<lparr>path_rx_count = 0, path_rx_dropped = 0\<rparr>"

definition IPORXStatistics_reset :: "IPORXStatistics \<Rightarrow> IPORXStatistics" where
  "IPORXStatistics_reset st =
    st\<lparr>rx_count := 0, rx_dropped := 0, rx_corrupt_header := 0, received_bytes := 0, consumed_packets := 0,
       unconsumed_packets := 0, rx_exceed_md := 0, path_stats := map path_reset (path_stats st)\<rparr>"

definition app_reset_statistics :: "AppIPOReceiveStream \<Rightarrow> AppIPOReceiveStream" where
  "app_reset_statistics s = s\<lparr>app_statistic := IPORXStatistics_reset (app_statistic s)\<rparr>"

definition app_reset_statistics_totals :: "AppIPOReceiveStream \<Rightarrow> AppIPOReceiveStream" where
  "app_reset_statistics_totals s = s\<lparr>app_statistic_totals := IPORXStatistics_reset (app_statistic_totals s)\<rparr>"

definition app_update_consumed_packets_stats :: "u64 \<Rightarrow> u64 \<Rightarrow> AppIPOReceiveStream \<Rightarrow> AppIPOReceiveStream" where
  "app_update_consumed_packets_stats consumed unconsumed s =
    app_update_both (\<lambda>st. st\<lparr>consumed_packets := consumed_packets st + consumed,
                             unconsumed_packets := unconsumed_packets st + unconsumed\<rparr>) s"

interpretation counts: handler_invariant "app_handlers is_extended"
    "\<lambda>s. rx_count (app_statistic s) = n \<and> rx_count (app_statistic_totals s) = n'" for is_extended n n'
  by unfold_locales
     (auto simp: app_handlers_def app_handle_corrupted_packet_def app_handle_late_packet_def app_handle_packet_def
       app_handle_redundant_packet_def app_complete_packet_def app_handle_sender_restart_def app_update_both_def
       base_handle_packet_def base_complete_packet_def Let_def)

text \<open>C7: the subclass of the redundant receive stream delivers what its base class
  does.  On the base part of the object a successful call of \<open>AppIPOReceiveStream::get_next_chunk\<close> is the
  base class' call, with the same chunk; and both packet counters grow by the packets of that chunk.\<close>

theorem app_get_next_chunk_simulates:
  assumes "app_get_next_chunk m now results chunk s = (success, s', chunk')"
  shows "ipo_get_next_chunk (as_base (app_handlers (app_is_extended_sequence_number s))) m now results chunk (base_part s)
      = (success, base_part s', chunk')
    \<and> rx_count (app_statistic s') = rx_count (app_statistic s) + word_of_nat (completion_chunk_size chunk')
    \<and> rx_count (app_statistic_totals s') = rx_count (app_statistic_totals s) + word_of_nat (completion_chunk_size chunk')"
proof -
  let ?h = "app_handlers (app_is_extended_sequence_number s)"
  obtain st s1 chunk1 where run: "ipo_get_next_chunk ?h m now results chunk s = (st, s1, chunk1)"
    by (cases "ipo_get_next_chunk ?h m now results chunk s") auto
  have st: "st = success" "chunk' = chunk1" and bp: "base_part s' = base_part s1"
    and cnt: "rx_count (app_statistic s') = rx_count (app_statistic s1) + word_of_nat (completion_chunk_size chunk1)"
      "rx_count (app_statistic_totals s') = rx_count (app_statistic_totals s1) + word_of_nat (completion_chunk_size chunk1)"
    using assms run by (auto simp: app_get_next_chunk_def Let_def app_update_both_def base_part_app split: if_splits)
  then show ?thesis
    using app.get_next_chunk_base[of _ m now results chunk s] run
      counts.get_next_chunk_inv[of s "rx_count (app_statistic s)" "rx_count (app_statistic_totals s)", OF _ run]
    by simp
qed

theorem app_get_next_chunk_simulates_witness:
  "let s0 = AppIPOReceiveStream_new 4 False True False 0 0 64 1;
       s = snd (create_stream (app_handlers False) [success] s0);
       (st, s', chunk') = app_get_next_chunk example_wire 5 [(success, example_completion)] example_ipo_chunk s
   in st = success \<and> ipo_get_next_chunk (as_base (app_handlers False)) example_wire 5 [(success, example_completion)] example_ipo_chunk
        (base_part s) = (success, base_part s', chunk')"
proof -
  let ?s = "snd (create_stream (app_handlers False) [success] (AppIPOReceiveStream_new 4 False True False 0 0 64 1))"
  obtain st s' chunk' where run: "app_get_next_chunk example_wire 5 [(success, example_completion)] example_ipo_chunk ?s = (st, s', chunk')"
    by (cases "app_get_next_chunk example_wire 5 [(success, example_completion)] example_ipo_chunk ?s") auto
  have ext: "app_is_extended_sequence_number ?s = False"
    by (simp add: create_stream_def Let_def AppIPOReceiveStream_new_def IPOReceiveStream_new_def
        IPOReceiveStream.defs AppIPOReceiveStream.defs)
  have "st = success"
    using run by (auto simp: app_get_next_chunk_def ipo_get_next_chunk_def Let_def split: prod.splits if_splits)
  then show ?thesis using app_get_next_chunk_simulates[of example_wire 5 "[(success, example_completion)]" example_ipo_chunk ?s s' chunk'] run ext
    by (simp add: Let_def)
qed

section \<open>Synchronising the paths\<close>

text \<open>\<open>sync_paths\<close> drains the streams of the paths: every round asks the paths in order for a chunk, giving a
  status and the "more" flag of its completion, until none has more or the time is over.  The list gives
  the rounds, each with whether time is left after it; \<open>None\<close> is a list that is too short.\<close>

fun sync_round :: "(ReturnStatus \<times> bool) list \<Rightarrow> ReturnStatus + bool" where
  "sync_round [] = Inr True"
| "sync_round ((status, pending) # results) =
    (if status \<noteq> success then Inl status else if pending then Inr False else sync_round results)"

fun sync_rounds :: "((ReturnStatus \<times> bool) list \<times> bool) list \<Rightarrow> ReturnStatus option" where
  "sync_rounds [] = None"
| "sync_rounds ((results, time_left) # rounds) =
    (case sync_round results of
       Inl status \<Rightarrow> Some status
     | Inr ready \<Rightarrow> if \<not> ready \<and> time_left then sync_rounds rounds else Some success)"

definition sync_paths :: "((ReturnStatus \<times> bool) list \<times> bool) list \<Rightarrow> 'x IPOReceiveStream_scheme \<Rightarrow> ReturnStatus option" where
  "sync_paths rounds s = (if \<not> m_stream_created s then Some failure else sync_rounds rounds)"

text \<open>Running out of time is reported as success, although the code prints that the synchronisation failed
  and its caller tests for a failure.\<close>

lemma sync_timeout_is_success:
  "m_stream_created s \<Longrightarrow> sync_paths [([(success, True)], False)] s = Some success"
  by (simp add: sync_paths_def)

lemma app_parser_is_rtp_parser: "app_get_sequence_number = get_sequence_number"
  by (simp add: fun_eq_iff app_get_sequence_number_def get_sequence_number_def)

end
