(* ===== verification/Ipo_Runs.thy ===== *)
theory Ipo_Runs
  imports Ipo_Receive
begin

text \<open>
  The runs of a redundant receive stream, call by call, from its first packet until the sender restarts: the order of
  the packets it hands over and what becomes of each packet received, and the statistics of its paths.
\<close>

section \<open>The runs of a stream\<close>

text \<open>The calls of a stream between two restarts of its sender, over the chunks the library returns for the paths.
  The first call that brings a packet starts the stream; \<open>awake\<close> is the state in which the packets of a call are
  filed.  Every call is annotated with the buffer it leaves; \<open>rcv\<close> logs the packets on time with the call that
  brought them, \<open>out\<close> the sequence numbers handed over with the time of the call.\<close>

definition first_position :: "nat option list \<Rightarrow> nat option" where
  "first_position ps = (case dropWhile (\<lambda>p. p = None) ps of [] \<Rightarrow> None | p # _ \<Rightarrow> p)"

lemma first_position_simps [simp]:
  "first_position [] = None" "first_position (None # ps) = first_position ps" "first_position (Some p # ps) = Some p"
  by (simp_all add: first_position_def)

lemma first_position_append: "first_position (ps @ qs) = (case first_position ps of None \<Rightarrow> first_position qs | Some p \<Rightarrow> Some p)"
proof (induction ps)
  case (Cons p ps)
  then show ?case by (cases p) simp_all
qed simp

definition awake :: "'x handlers \<Rightarrow> nat \<Rightarrow> nat option list \<Rightarrow> 'x IPOReceiveStream_scheme \<Rightarrow> 'x IPOReceiveStream_scheme" where
  "awake h k ps s = (case first_position ps of None \<Rightarrow> s | Some p \<Rightarrow> prepare_state h (seq_of k p) s)"

lemma awake_simps [simp]: "awake h k [] s = s" "awake h k (None # ps) s = awake h k ps s"
  "awake h k (Some p # ps) s = prepare_state h (seq_of k p) s"
  by (simp_all add: awake_def)

lemma prepare_running: "m_state s = Running \<Longrightarrow> prepare_state h n s = s"
  by (simp add: prepare_state_def Let_def)

lemma prepare_runs: "m_state s \<noteq> NotStarted \<Longrightarrow> m_state (prepare_state h n s) = Running"
  by (cases "m_state s") (simp_all add: prepare_state_def Let_def)

lemma awake_running: "m_state s = Running \<Longrightarrow> awake h k ps s = s"
  by (simp add: awake_def prepare_running split: option.split)

lemma process_packets_awake:
  assumes "m_state s \<noteq> NotStarted" "packets_carry parse k m stride ptr infos ps"
  shows "process_packets (base_handlers parse (mask k)) m path stride ptr infos s
    = process_packets (base_handlers parse (mask k)) m path stride ptr infos (awake (base_handlers parse (mask k)) k ps s)"
  using assms
proof (induction parse k m stride ptr infos ps arbitrary: s rule: packets_carry.induct)
  case (2 parse k m stride ptr info infos p ps)
  let ?h = "base_handlers parse (mask k) :: 'a handlers"
  have carry: "parse m ptr (sub_block_size_0 info) = map_option (seq_of k) p" "packets_carry parse k m stride (ptr + stride) infos ps"
    using "2.prems"(2) by simp_all
  show ?case
  proof (cases p)
    case None
    then have "process_packet ?h m path ptr info t = t" for t
      using carry(1) by (simp add: process_packet_def base_handlers_def)
    then show ?thesis using "2.IH"[OF "2.prems"(1) carry(2)] None by simp
  next
    case (Some q)
    then have "process_packet ?h m path ptr info t = file_packet ?h path (seq_of k q) info (prepare_state ?h (seq_of k q) t)" for t
      using carry(1) by (simp add: process_packet_def base_handlers_def)
    then show ?thesis using prepare_running[OF prepare_runs[OF "2.prems"(1)]] Some by simp
  qed
qed simp_all

lemma prepare_base:
  "m_ring_header_stride (prepare_state (base_handlers parse (mask k)) n s) = m_ring_header_stride s"
  "m_ring_payload_stride (prepare_state (base_handlers parse (mask k)) n s) = m_ring_payload_stride s"
  "m_now (prepare_state (base_handlers parse (mask k)) n s) = m_now s"
  "m_sequence_number_wrap_around (prepare_state (base_handlers parse (mask k)) n s) = m_sequence_number_wrap_around s"
  "m_max_path_differential (prepare_state (base_handlers parse (mask k)) n s) = m_max_path_differential s"
  "m_payload_buffer (prepare_state (base_handlers parse (mask k)) n s) = m_payload_buffer s"
  "m_header_buffer (prepare_state (base_handlers parse (mask k)) n s) = m_header_buffer s"
  "m_header_data_split (prepare_state (base_handlers parse (mask k)) n s) = m_header_data_split s"
  "m_pkt_info_enabled (prepare_state (base_handlers parse (mask k)) n s) = m_pkt_info_enabled s"
  by (cases "m_state s"; simp add: prepare_state_def base_handlers_def Let_def)+

lemma process_packets_corrupt:
  assumes "packets_carry parse k m stride ptr infos ps" "first_position ps = None"
  shows "process_packets (base_handlers parse (mask k)) m path stride ptr infos s = s"
  using assms
proof (induction parse k m stride ptr infos ps arbitrary: s rule: packets_carry.induct)
  case (2 parse k m stride ptr info infos p ps)
  then have "p = None" by (cases p) simp_all
  then show ?case using 2 by (simp add: process_packet_def base_handlers_def)
qed simp_all

lemma process_completion_awake:
  assumes "m_state s \<noteq> NotStarted" "completion_carries parse k m s chunk ps"
  shows "process_completion (base_handlers parse (mask k)) m path chunk s
    = process_completion (base_handlers parse (mask k)) m path chunk (awake (base_handlers parse (mask k)) k ps s)"
    and "first_position ps = None \<Longrightarrow> process_completion (base_handlers parse (mask k)) m path chunk s = s"
proof -
  have "m_ring_header_stride (awake (base_handlers parse (mask k)) k ps s) = m_ring_header_stride s"
    "m_ring_payload_stride (awake (base_handlers parse (mask k)) k ps s) = m_ring_payload_stride s"
    by (cases "m_state s"; simp add: awake_def prepare_state_def base_handlers_def Let_def split: option.split)+
  then show "process_completion (base_handlers parse (mask k)) m path chunk s
    = process_completion (base_handlers parse (mask k)) m path chunk (awake (base_handlers parse (mask k)) k ps s)"
    using process_packets_awake[OF assms(1), of parse k m _ _ "chunk_packets chunk" ps path] assms(2)
    by (cases "chunk_header_ptr chunk = 0") (simp_all add: process_completion_def completion_carries_def)
  show "first_position ps = None \<Longrightarrow> process_completion (base_handlers parse (mask k)) m path chunk s = s"
    using process_packets_corrupt[of parse k m _ _ "chunk_packets chunk" ps path s] assms(2)
    by (cases "chunk_header_ptr chunk = 0") (simp_all add: process_completion_def completion_carries_def)
qed

lemma process_paths_awake:
  assumes "m_state s \<noteq> NotStarted" "list_all2 (completion_carries parse k m s) chunks pss"
  shows "process_paths (base_handlers parse (mask k)) m path (map (Pair success) chunks) s
    = process_paths (base_handlers parse (mask k)) m path (map (Pair success) chunks)
        (awake (base_handlers parse (mask k)) k (concat pss) s)"
    and "first_position (concat pss) = None \<Longrightarrow>
      process_paths (base_handlers parse (mask k)) m path (map (Pair success) chunks) s = (success, s)"
proof -
  let ?h = "base_handlers parse (mask k) :: 'a handlers"
  have "process_paths ?h m path (map (Pair success) chunks) s
      = process_paths ?h m path (map (Pair success) chunks) (awake ?h k (concat pss) s)
    \<and> (first_position (concat pss) = None \<longrightarrow> process_paths ?h m path (map (Pair success) chunks) s = (success, s))"
    using assms(2)
  proof (induction chunks arbitrary: path pss)
    case (Cons chunk chunks)
    obtain ps pss' where pss: "pss = ps # pss'" "completion_carries parse k m s chunk ps"
      "list_all2 (completion_carries parse k m s) chunks pss'" using Cons.prems by (cases pss) auto
    note c = process_completion_awake[OF assms(1) pss(2), of path]
    show ?case
    proof (cases "first_position ps")
      case None
      have "process_completion ?h m path chunk (prepare_state ?h n s) = prepare_state ?h n s" for n
        using process_completion_awake(2)[OF _ _ None, of "prepare_state ?h n s" parse k m chunk path] pss(2) prepare_runs[OF assms(1)]
        by (simp add: completion_carries_def prepare_base cong: if_cong)
      then show ?thesis using Cons.IH[OF pss(3), of "path + 1"] c(2) None
        by (cases "first_position (concat pss')") (simp_all add: pss(1) first_position_append awake_def)
    next
      case (Some p)
      then have "awake ?h k (concat pss) s = awake ?h k ps s" by (simp add: pss(1) first_position_append awake_def)
      then show ?thesis using c(1) Some by (simp add: pss(1) first_position_append)
    qed
  qed (simp add: awake_def)
  then show "process_paths ?h m path (map (Pair success) chunks) s
      = process_paths ?h m path (map (Pair success) chunks) (awake ?h k (concat pss) s)"
    "first_position (concat pss) = None \<Longrightarrow> process_paths ?h m path (map (Pair success) chunks) s = (success, s)" by blast+
qed

text \<open>What a call does to the buffer.\<close>

definition call_effect :: "'x IPOReceiveStream_scheme \<Rightarrow> int \<Rightarrow> nat option list \<Rightarrow> reorder \<Rightarrow> reorder \<times> nat list" where
  "call_effect s now ps r = (if m_state s = Running then call_spec s now ps r else (r, []))"

text \<open>A call on a stream that has been started, whatever its state.\<close>

lemma stream_call:
  fixes s :: "'x IPOReceiveStream_scheme" and parse :: "mem \<Rightarrow> nat \<Rightarrow> u64 \<Rightarrow> u32 option"
    and k :: nat and pss :: "nat option list list" and now :: int
  defines "h \<equiv> base_handlers parse (mask k)"
  defines "sa \<equiv> awake h k (concat pss) (s\<lparr>m_now := now\<rparr>)"
  assumes "m_state s \<noteq> NotStarted" "list_all2 (completion_carries parse k m s) chunks pss"
    and "implements k sa r" "placeable_all k (ring_size s) (concat pss) r"
    and "call_effect sa now (concat pss) r = (r', ds)"
  shows "\<exists>s' chunk'. ipo_get_next_chunk h m now (map (Pair success) chunks) chunk s = (success, s', chunk')
    \<and> implements k s' r' \<and> chunk_carries k s chunk' ds \<and> same_config sa s'"
proof (cases "first_position (concat pss)")
  case None
  have sa: "sa = s\<lparr>m_now := now\<rparr>" using None by (simp add: sa_def awake_def)
  show ?thesis
  proof (cases "m_state s = Running")
    case True
    have i: "implements k s r" using assms(5) by (simp add: sa implements_def ring_ok_def)
    have sp: "call_spec s now (concat pss) r = (r', ds)"
      using assms(7) True by (simp add: sa call_effect_def call_spec_def cong: if_cong)
    show ?thesis using ipo_call_implements[OF i True assms(4,6) sp, of chunk] unfolding h_def sa by blast
  next
    case False
    have rs: "r' = r" "ds = []" using assms(7) False by (simp_all add: sa call_effect_def)
    have carry: "list_all2 (completion_carries parse k m (s\<lparr>m_now := now\<rparr>)) chunks pss" using assms(4) by simp
    have ns: "m_state (s\<lparr>m_now := now\<rparr>) \<noteq> NotStarted" using assms(3) by simp
    have "ipo_get_next_chunk h m now (map (Pair success) chunks) chunk s
        = (success, s\<lparr>m_now := now\<rparr>, chunk\<lparr>completion_chunk_size := 0\<rparr>)"
      using process_paths_awake(2)[OF ns carry None, of 0] assms(3) False
      by (simp add: ipo_get_next_chunk_def Let_def h_def hand_over_def)
    then show ?thesis using assms(5) by (simp add: rs sa chunk_carries_def)
  qed
next
  case (Some p)
  have sa: "sa = prepare_state h (seq_of k p) (s\<lparr>m_now := now\<rparr>)" using Some by (simp add: sa_def awake_def)
  have run: "m_state sa = Running" unfolding sa by (rule prepare_runs) (use assms(3) in simp)
  have now: "sa\<lparr>m_now := now\<rparr> = sa"
  proof -
    have "m_now sa = now" by (simp add: sa h_def prepare_base)
    then show ?thesis by simp
  qed
  have carry: "list_all2 (completion_carries parse k m (s\<lparr>m_now := now\<rparr>)) chunks pss" using assms(4) by simp
  have carry_a: "list_all2 (completion_carries parse k m sa) chunks pss"
  proof -
    have "completion_carries parse k m sa = completion_carries parse k m s"
      by (simp add: fun_eq_iff completion_carries_def sa h_def prepare_base cong: if_cong)
    then show ?thesis using assms(4) by simp
  qed
  have ns: "m_state (s\<lparr>m_now := now\<rparr>) \<noteq> NotStarted" using assms(3) by simp
  have pl: "placeable_all k (ring_size sa) (concat pss) r" using assms(6) by (simp add: sa h_def prepare_base)
  have sp: "call_spec sa now (concat pss) r = (r', ds)" using assms(7) run by (simp add: call_effect_def)
  have eq: "ipo_get_next_chunk h m now (map (Pair success) chunks) chunk s
      = ipo_get_next_chunk h m now (map (Pair success) chunks) chunk sa"
    using process_paths_awake(1)[OF ns carry, of 0] assms(3) run now
    by (simp add: ipo_get_next_chunk_def Let_def h_def sa_def)
  obtain s' chunk' where c: "ipo_get_next_chunk h m now (map (Pair success) chunks) chunk sa = (success, s', chunk')"
    "implements k s' r'" "chunk_carries k sa chunk' ds" "same_config (sa\<lparr>m_now := now\<rparr>) s'"
    using ipo_call_implements[OF assms(5) run carry_a pl sp, of chunk] unfolding h_def by blast
  have "chunk_carries k s chunk' ds" using c(3) by (simp add: chunk_carries_def sa h_def prepare_base)
  then show ?thesis using c eq now by auto
qed


text \<open>The packets of a call that come on time and are not held yet, the last one first.\<close>

fun accepted :: "nat option list \<Rightarrow> int \<Rightarrow> reorder \<Rightarrow> (nat \<times> int) list" where
  "accepted [] now r = []"
| "accepted (None # ps) now r = accepted ps now r"
| "accepted (Some p # ps) now r =
    (if p \<le> r_last r \<or> r_buf r p \<noteq> None then accepted ps now r
     else accepted ps now (receive p now r) @ [(p, now)])"

lemma accepted_run:
  assumes "reorder_run wa mpd t0 rcv dlv r" "placeable_all k wa ps r"
  shows "reorder_run wa mpd t0 (accepted ps now r @ rcv) dlv (received ps now r)"
  using assms
proof (induction ps now r arbitrary: rcv rule: accepted.induct)
  case (3 p ps now r)
  have pl: "placeable k wa p r" "placeable_all k wa ps r" using "3.prems"(2) by (simp_all add: placeable_all_def)
  have pl': "placeable_all k wa ps (receive p now r)" using pl(2) placeable_cong by (metis receive_sel)
  show ?case
  proof (cases "p \<le> r_last r \<or> r_buf r p \<noteq> None")
    case True
    then have same: "receive p now r = r" by (simp add: receive_def)
    show ?thesis using "3.IH"(1)[OF True "3.prems"(1) pl(2)] True unfolding received_simps same by simp
  next
    case False
    then have "r_next r \<le> p" "r_buf r p = None" using pl(1) by (auto simp: placeable_def)
    from "3.IH"(2)[OF False run_accept[OF "3.prems"(1) this] pl'] show ?thesis
      using False unfolding received_simps by simp
  qed
qed (simp_all add: placeable_all_def)

definition chunk_numbers :: "nat \<Rightarrow> IPOReceiveChunk \<Rightarrow> u32 list" where
  "chunk_numbers k chunk = map (\<lambda>i. (completion_seqn_first chunk + word_of_nat i) AND mask k) [0..<completion_chunk_size chunk]"

lemma seq_of_plus:
  assumes "k \<le> 32"
  shows "(seq_of k p + word_of_nat i) AND mask k = seq_of k (p + i)"
proof -
  have s: "seq_of k n = word_of_int (take_bit k (int n))" for n
    using take_bit_word_of_int[of k "int n", where 'a=32] assms by (simp add: seq_of_def)
  have "(seq_of k p + word_of_nat i) AND mask k = word_of_int (take_bit k (take_bit k (int p) + int i))"
    using take_bit_word_of_int[of k "take_bit k (int p) + int i", where 'a=32] assms
    by (simp add: s take_bit_eq_mask[symmetric])
  also have "take_bit k (take_bit k (int p) + int i) = take_bit k (int (p + i))"
    by (simp add: take_bit_eq_mod mod_simps)
  finally show ?thesis by (simp only: s)
qed

lemma chunk_numbers_carried:
  "k \<le> 32 \<Longrightarrow> chunk_carries k s chunk [m..<m + c] \<Longrightarrow> chunk_numbers k chunk = map (seq_of k) [m..<m + c]"
  by (rule nth_equalityI) (auto simp: chunk_numbers_def chunk_carries_def seq_of_plus)

definition buffer_before :: "nat \<Rightarrow> nat \<Rightarrow> reorder" where
  "buffer_before k p = \<lparr>r_next = p, r_last = p - 2 ^ (k - 2), r_buf = Map.empty\<rparr>"

text \<open>A stream as \<open>create_stream\<close> leaves it, in which no packet is held.\<close>

definition created_stream :: "(mem \<Rightarrow> nat \<Rightarrow> u64 \<Rightarrow> u32 option) \<Rightarrow> nat \<Rightarrow> 'x IPOReceiveStream_scheme \<Rightarrow> bool" where
  "created_stream parse k s \<longleftrightarrow> (k = 16 \<or> k = 32) \<and> no_packets s
     \<and> (\<exists>j (s0 :: 'x IPOReceiveStream_scheme) results st s1. create_stream (base_handlers parse (mask k)) results s0 = (st, s1)
          \<and> m_num_of_packets_in_chunk s0 = 2 ^ j \<and> j < 32 \<and> length (m_ext_packet_info_arr s) = 2 ^ j
          \<and> m_sequence_number_wrap_around s = m_sequence_number_wrap_around s1
          \<and> m_sequence_number_msb_mask s = m_sequence_number_msb_mask s1
          \<and> m_sequence_number_init_offset s = m_sequence_number_init_offset s1)"

inductive stream_run :: "(mem \<Rightarrow> nat \<Rightarrow> u64 \<Rightarrow> u32 option) \<Rightarrow> nat \<Rightarrow> 'x IPOReceiveStream_scheme \<Rightarrow> reorder
    \<Rightarrow> (nat \<times> int) list \<Rightarrow> (u32 \<times> int) list \<Rightarrow> bool" for parse k where
  run_first: "created_stream parse k s \<Longrightarrow> awaits_first (s\<lparr>m_now := now\<rparr>) \<Longrightarrow>
    list_all2 (completion_carries parse k m s) chunks pss \<Longrightarrow>
    first_position (concat pss) = Some p \<Longrightarrow> 2 ^ (k - 2) \<le> p \<Longrightarrow> r = buffer_before k p \<Longrightarrow>
    placeable_all k (ring_size s) (concat pss) r \<Longrightarrow>
    call_effect (awake (base_handlers parse (mask k)) k (concat pss) (s\<lparr>m_now := now\<rparr>)) now (concat pss) r = (r', ds) \<Longrightarrow>
    ipo_get_next_chunk (base_handlers parse (mask k)) m now (map (Pair success) chunks) chunk s = (st, s', chunk') \<Longrightarrow>
    stream_run parse k s' r' (accepted (concat pss) now r) (map (\<lambda>n. (n, now)) (chunk_numbers k chunk'))"
| run_call: "stream_run parse k s r rcv out \<Longrightarrow>
    m_state s = Running \<or> m_state s = Waiting \<and> now - m_next_packet_time s \<le> m_sender_restart_threshold s \<Longrightarrow>
    list_all2 (completion_carries parse k m s) chunks pss \<Longrightarrow> placeable_all k (ring_size s) (concat pss) r \<Longrightarrow>
    call_effect (awake (base_handlers parse (mask k)) k (concat pss) (s\<lparr>m_now := now\<rparr>)) now (concat pss) r = (r', ds) \<Longrightarrow>
    ipo_get_next_chunk (base_handlers parse (mask k)) m now (map (Pair success) chunks) chunk s = (st, s', chunk') \<Longrightarrow>
    stream_run parse k s' r' (accepted (concat pss) now r @ rcv) (out @ map (\<lambda>n. (n, now)) (chunk_numbers k chunk'))"

definition run_represents :: "nat \<Rightarrow> 'x IPOReceiveStream_scheme \<Rightarrow> reorder \<Rightarrow> (nat \<times> int) list \<Rightarrow> (u32 \<times> int) list \<Rightarrow> bool" where
  "run_represents k s r rcv out \<longleftrightarrow> implements k s r
     \<and> (\<exists>dlv. reorder_run (ring_size s) (m_max_path_differential s) (m_start_time s) rcv dlv r
            \<and> out = map (\<lambda>(p, t). (seq_of k p, t)) dlv)"

lemma effect_run:
  assumes "reorder_run (ring_size s) (m_max_path_differential s) (m_start_time s) rcv dlv r"
    and "placeable_all k (ring_size s) ps r" "call_effect s now ps r = (r', ds)" "m_state s \<noteq> Running \<Longrightarrow> first_position ps = None"
  shows "reorder_run (ring_size s) (m_max_path_differential s) (m_start_time s) (accepted ps now r @ rcv)
      (dlv @ map (\<lambda>p. (p, now)) ds) r' \<and> (\<exists>m c. ds = [m..<m + c])"
proof -
  note run = accepted_run[OF assms(1,2), of now]
  consider (deliver) "m_state s = Running" "m_next_packet_time s + m_max_path_differential s < now"
    | (wait) "m_state s = Running" "\<not> m_next_packet_time s + m_max_path_differential s < now" | (idle) "m_state s \<noteq> Running" by blast
  then show ?thesis
  proof cases
    case deliver
    then have d: "deliver (ring_size s) (m_max_path_differential s) now (m_start_time s) (received ps now r) = (r', ds)"
      using assms(3) by (simp add: call_effect_def call_spec_def)
    have "r_last (received ps now r) < r_next (received ps now r)" using run_inv[OF run] by (simp add: run_inv_def)
    then have "\<exists>m c. ds = [m..<m + c]" using deliver_effect(4)[OF d] by blast
    then show ?thesis using run_deliver[OF run d] by blast
  next
    case wait
    then have "ds = [0..<0 + 0]" using assms(3) by (simp add: call_effect_def call_spec_def)
    moreover have "r' = received ps now r" using wait assms(3) by (simp add: call_effect_def call_spec_def)
    ultimately show ?thesis using run by (metis append_Nil2 list.simps(8) plus_nat.add_0 upt_0)
  next
    case idle
    have none: "first_position qs = None \<Longrightarrow> accepted qs now r = []" for qs
    proof (induction qs)
      case (Cons q qs)
      then show ?case by (cases q) simp_all
    qed simp
    have "ds = [0..<0 + 0]" "r' = r" using idle assms(3) by (simp_all add: call_effect_def)
    then show ?thesis using none[OF assms(4)[OF idle]] assms(1) by (metis append_Nil append_Nil2 list.simps(8) plus_nat.add_0 upt_0)
  qed
qed

lemma call_represents:
  fixes s :: "'x IPOReceiveStream_scheme" and parse :: "mem \<Rightarrow> nat \<Rightarrow> u64 \<Rightarrow> u32 option"
    and k :: nat and pss :: "nat option list list" and now :: int
  defines "sa \<equiv> awake (base_handlers parse (mask k)) k (concat pss) (s\<lparr>m_now := now\<rparr>)"
  assumes "m_state s \<noteq> NotStarted" "list_all2 (completion_carries parse k m s) chunks pss"
    and "placeable_all k (ring_size s) (concat pss) r" "run_represents k sa r rcv out"
    and "call_effect sa now (concat pss) r = (r', ds)"
    and "ipo_get_next_chunk (base_handlers parse (mask k)) m now (map (Pair success) chunks) chunk s = (st, s', chunk')"
  shows "run_represents k s' r' (accepted (concat pss) now r @ rcv) (out @ map (\<lambda>n. (n, now)) (chunk_numbers k chunk'))"
proof -
  obtain dlv where imp: "implements k sa r"
    and run: "reorder_run (ring_size sa) (m_max_path_differential sa) (m_start_time sa) rcv dlv r"
    and out: "out = map (\<lambda>(p, t). (seq_of k p, t)) dlv" using assms(5) by (auto simp: run_represents_def)
  have c: "implements k s' r'" "chunk_carries k s chunk' ds" "same_config sa s'"
    using stream_call[OF assms(2,3) imp[unfolded sa_def] assms(4) assms(6)[unfolded sa_def], of chunk] assms(7)
    by (auto simp: sa_def)
  have ring: "ring_size sa = ring_size s" by (simp add: sa_def awake_def prepare_base split: option.split)
  have awake: "first_position (concat pss) = None" if "m_state sa \<noteq> Running"
  proof (rule ccontr)
    assume "first_position (concat pss) \<noteq> None"
    then have "m_state sa = Running" using assms(2) by (auto simp: sa_def awake_def prepare_runs)
    then show False using that by simp
  qed
  have pl: "placeable_all k (ring_size sa) (concat pss) r" using assms(4) ring by simp
  obtain i n where ds: "ds = [i..<i + n]"
    and run': "reorder_run (ring_size sa) (m_max_path_differential sa) (m_start_time sa) (accepted (concat pss) now r @ rcv)
      (dlv @ map (\<lambda>p. (p, now)) ds) r'"
    using effect_run[OF run pl assms(6) awake] by blast
  have "chunk_numbers k chunk' = map (seq_of k) ds" using chunk_numbers_carried[of k s chunk' i n] c ds by (simp add: implements_def ring_ok_def)
  then have "out @ map (\<lambda>n. (n, now)) (chunk_numbers k chunk') = map (\<lambda>(p, t). (seq_of k p, t)) (dlv @ map (\<lambda>p. (p, now)) ds)"
    by (simp add: out comp_def)
  then show ?thesis using c(1,3) run' unfolding run_represents_def same_config_def by metis
qed

lemma stream_run_represents: "stream_run parse k s r rcv out \<Longrightarrow> run_represents k s r rcv out"
proof (induction rule: stream_run.induct)
  case (run_first s now m chunks pss p r r' ds chunk st s' chunk')
  let ?sn = "s\<lparr>m_now := now\<rparr>"
  let ?sa = "awake (base_handlers parse (mask k)) k (concat pss) ?sn"
  have ns: "m_state s \<noteq> NotStarted" using run_first(2) by (auto simp: awaits_first_def)
  obtain j results st1 s1 and s0 :: "'a IPOReceiveStream_scheme" where c: "k = 16 \<or> k = 32" "no_packets s"
    "create_stream (base_handlers parse (mask k)) results s0 = (st1, s1)"
    "m_num_of_packets_in_chunk s0 = 2 ^ j" "j < 32" "length (m_ext_packet_info_arr s) = 2 ^ j"
    "m_sequence_number_wrap_around s = m_sequence_number_wrap_around s1" "m_sequence_number_msb_mask s = m_sequence_number_msb_mask s1"
    "m_sequence_number_init_offset s = m_sequence_number_init_offset s1"
    using run_first(1) unfolding created_stream_def by blast
  have np: "no_packets ?sn" using c(2) by (simp add: no_packets_def)
  have "implements k ?sa r"
    using first_packet_represents[OF c(3,1,4,5), of ?sn p] c(6-9) run_first(2,4,5,6) np
    by (simp add: awake_def buffer_before_def)
  moreover have "p - 2 ^ (k - 2) < p" using run_first(5) zero_less_power[of "2::nat" "k - 2"] by linarith
  then have "reorder_run (ring_size ?sa) (m_max_path_differential ?sa) (m_start_time ?sa) [] [] r"
    by (intro run_start) (simp_all add: run_first(6) buffer_before_def)
  ultimately have "run_represents k ?sa r [] []" unfolding run_represents_def by auto
  from call_represents[OF ns run_first(3) run_first(7) this run_first(8,9)] show ?case by simp
next
  case (run_call s r rcv out now m chunks pss r' ds chunk st s' chunk')
  let ?h = "base_handlers parse (mask k) :: 'a handlers"
  let ?sa = "awake ?h k (concat pss) (s\<lparr>m_now := now\<rparr>)"
  have ns: "m_state s \<noteq> NotStarted" using run_call(2) by auto
  have "ring_size ?sa = ring_size s \<and> m_sequence_number_msb_mask ?sa = m_sequence_number_msb_mask s \<and> m_index ?sa = m_index s
    \<and> m_last_processed_sequence_number ?sa = m_last_processed_sequence_number s \<and> m_ext_packet_info_arr ?sa = m_ext_packet_info_arr s
    \<and> m_max_path_differential ?sa = m_max_path_differential s \<and> m_start_time ?sa = m_start_time s"
    using run_call(2) by (auto simp: awake_def prepare_state_def base_handlers_def Let_def split: option.split)
  then have "run_represents k ?sa r rcv out"
    using run_call.IH by (simp add: run_represents_def implements_def ring_ok_def)
  from call_represents[OF ns run_call(3,4) this run_call(5,6)] show ?case .
qed



text \<open>Two calls: the first brings packet 16389 at time 2000, the second hands it over at time 4000.\<close>

definition example_run_wire :: mem where
  "example_run_wire a = (if a = 64 then 0x80 else if a = 66 then 0x40 else if a = 67 then 5 else 0)"

definition example_run_completion :: ReceiveChunk where
  "example_run_completion = \<lparr>chunk_header_ptr = 0, chunk_payload_ptr = 64,
     chunk_packets = [\<lparr>sub_block_size_0 = 64, sub_block_size_1 = 0, packet_timestamp = 7\<rparr>]\<rparr>"

definition example_run_start :: IPOReceiveStream where
  "example_run_start = start 0 (snd (create_stream (base_handlers (app_get_sequence_number False) (mask 16)) [success]
     (IPOReceiveStream_new 4 False False 1 0 64)))"

definition example_run_one :: IPOReceiveStream where
  "example_run_one = example_run_start\<lparr>m_now := 2000, m_state := Running, m_index := 1, m_last_processed_sequence_number := 5,
     m_next_packet_time := 2000, m_ext_packet_info_arr := (replicate 4 ext_packet_info_default)
       [1 := \<lparr>info_sequence_number = 16389, is_valid = True, info_timestamp = 2000, hw_timestamp = 7\<rparr>]\<rparr>"

lemmas example_run_defs = example_run_start_def start_def create_stream_def IPOReceiveStream_new_def base_handlers_def
  get_sequence_number_wrap_around_def mask_eq_exp_minus_1 drop_bit_eq_div

lemma example_run_call:
  "ipo_get_next_chunk (base_handlers (app_get_sequence_number False) (mask 16)) example_run_wire 2000
     (map (Pair success) [example_run_completion]) example_ipo_chunk example_run_start = (success, example_run_one, example_ipo_chunk)"
  by (simp add: ipo_get_next_chunk_def Let_def process_completion_def process_packet_def example_run_defs
      example_run_completion_def example_ipo_chunk_def example_run_one_def app_get_sequence_number_def example_run_wire_def
      prepare_state_def file_packet_def base_handle_packet_def ring_slot_def hand_over_def ext_packet_info_default_def)

lemma example_run_sel:
  "m_state example_run_one = Running" "m_next_packet_time example_run_one = 2000" "m_max_path_differential example_run_one = 1000"
  "m_start_time example_run_one = 1000" "ring_size example_run_one = 4" "ring_size example_run_start = 4"
  by (simp_all add: example_run_one_def example_run_defs Let_def)

definition example_run_buffer :: reorder where
  "example_run_buffer = \<lparr>r_next = 16389, r_last = 5, r_buf = [16389 \<mapsto> 2000]\<rparr>"

lemma example_run_first:
  "stream_run (app_get_sequence_number False) 16 example_run_one example_run_buffer [(16389, 2000)] []"
proof -
  let ?h = "base_handlers (app_get_sequence_number False) (mask 16) :: unit handlers"
  have before: "buffer_before 16 16389 = \<lparr>r_next = 16389, r_last = 5, r_buf = Map.empty\<rparr>" by (simp add: buffer_before_def)
  have carry: "list_all2 (completion_carries (app_get_sequence_number False) 16 example_run_wire example_run_start)
      [example_run_completion] [[Some 16389]]"
    by (simp add: completion_carries_def example_run_defs Let_def example_run_completion_def app_get_sequence_number_def
        example_run_wire_def seq_of_def)
  have created: "created_stream (app_get_sequence_number False) 16 example_run_start"
    unfolding created_stream_def
    by (intro conjI exI[of _ 2] exI[of _ "IPOReceiveStream_new 4 False False 1 0 64"] exI[of _ "[success]"] exI[of _ success]
        exI[of _ "snd (create_stream ?h [success] (IPOReceiveStream_new 4 False False 1 0 64))"])
      (simp_all add: example_run_defs Let_def no_packets_def ext_packet_info_default_def)
  have waits: "awaits_first (example_run_start\<lparr>m_now := 2000\<rparr>)" by (simp add: awaits_first_def example_run_defs Let_def)
  have effect: "call_effect (awake ?h 16 (concat [[Some 16389]]) (example_run_start\<lparr>m_now := 2000\<rparr>)) 2000 (concat [[Some 16389]])
      (buffer_before 16 16389) = (example_run_buffer, [])"
    by (simp add: call_effect_def call_spec_def prepare_state_def example_run_defs Let_def before receive_def example_run_buffer_def)
  have pl: "placeable_all 16 (ring_size example_run_start) (concat [[Some 16389]]) (buffer_before 16 16389)"
    unfolding example_run_sel before by (simp add: placeable_all_def placeable_def)
  have "first_position (concat [[Some 16389]]) = Some (16389 :: nat)" "(2::nat) ^ (16 - 2) \<le> 16389" by simp_all
  from stream_run.run_first[OF created waits carry this refl pl effect example_run_call]
  show ?thesis by (simp add: before chunk_numbers_def example_ipo_chunk_def)
qed

lemma example_run_second:
  "\<exists>(s :: IPOReceiveStream) r. stream_run (app_get_sequence_number False) 16 s r [(16389, 2000)] [(16389, 4000)] \<and> m_max_path_differential s = 1000"
proof -
  let ?h = "base_handlers (app_get_sequence_number False) (mask 16) :: unit handlers"
  let ?sa = "awake ?h 16 (concat []) (example_run_one\<lparr>m_now := 4000\<rparr>)"
  have imp: "implements 16 ?sa example_run_buffer"
    using stream_run_represents[OF example_run_first] by (simp add: run_represents_def implements_def ring_ok_def)
  have "snd (call_effect ?sa 4000 (concat []) example_run_buffer) = [16389..<16389 + 1]"
    by (simp add: call_effect_def call_spec_def example_run_sel example_run_buffer_def deliver_def first_held_def due_def
        before_start_def upt_rec Let_def)
  then obtain r' where effect: "call_effect ?sa 4000 (concat []) example_run_buffer = (r', [16389..<16389 + 1])"
    by (metis surjective_pairing)
  have ns: "m_state example_run_one \<noteq> NotStarted" by (simp add: example_run_sel)
  have pl: "placeable_all 16 (ring_size example_run_one) (concat []) example_run_buffer" by (simp add: placeable_all_def)
  obtain s' chunk' where c: "ipo_get_next_chunk ?h example_run_wire 4000 (map (Pair success) []) example_ipo_chunk example_run_one
      = (success, s', chunk')" "chunk_carries 16 example_run_one chunk' [16389..<16389 + 1]" "same_config ?sa s'"
    using stream_call[OF ns list_all2_Nil[THEN iffD2, OF refl] imp pl effect] by blast
  have "m_state example_run_one = Running \<or> m_state example_run_one = Waiting
      \<and> 4000 - m_next_packet_time example_run_one \<le> m_sender_restart_threshold example_run_one" by (simp add: example_run_sel)
  from stream_run.run_call[OF example_run_first this list_all2_Nil[THEN iffD2, OF refl] pl effect c(1)]
  have "stream_run (app_get_sequence_number False) 16 s' r' [(16389, 2000)] [(16389, 4000)]"
    using chunk_numbers_carried[OF _ c(2)] by (simp add: seq_of_def)
  moreover have "m_max_path_differential s' = 1000" using c(3) by (simp add: same_config_def example_run_sel)
  ultimately show ?thesis by blast
qed


section \<open>The statistics of the paths\<close>

text \<open>The paths that brought each packet before it was handed over.\<close>

definition heard_from :: "nat \<Rightarrow> reorder \<Rightarrow> nat option list \<Rightarrow> (nat \<times> nat) set" where
  "heard_from path r ps = {(path, p) | p. Some p \<in> set ps \<and> r_last r < p}"

fun heard_of :: "nat \<Rightarrow> reorder \<Rightarrow> nat option list list \<Rightarrow> (nat \<times> nat) set" where
  "heard_of path r [] = {}"
| "heard_of path r (ps # pss) = heard_from path r ps \<union> heard_of (path + 1) r pss"

definition path_flags :: "nat \<Rightarrow> (nat \<times> nat) set \<Rightarrow> nat \<Rightarrow> u8 list" where
  "path_flags paths heard p = map (\<lambda>i. if (i, p) \<in> heard then 1 else 0) [0..<paths]"

text \<open>The flags of the slots, for the packets that are held.\<close>

definition flags_agree :: "nat \<Rightarrow> AppIPOReceiveStream \<Rightarrow> reorder \<Rightarrow> (nat \<times> nat) set \<Rightarrow> bool" where
  "flags_agree paths s r heard \<longleftrightarrow> ring_size s \<le> length (m_path_packets s) \<and> (\<forall>by_paths \<in> set (m_path_packets s). length by_paths = paths)
     \<and> (\<forall>p. r_buf r p \<noteq> None \<longrightarrow> m_path_packets s ! (p mod ring_size s) = path_flags paths heard p)
     \<and> (\<forall>i p. (i, p) \<in> heard \<longrightarrow> i < paths \<and> (r_next r \<le> p \<longrightarrow> r_buf r p \<noteq> None))"

lemma file_packet_cases:
  fixes s :: "'x IPOReceiveStream_scheme"
  assumes "implements k s r" "placeable k (ring_size s) p r" "h_sequence_number_mask h = mask k"
  shows "file_packet h path (seq_of k p) info s =
    (if p \<le> r_last r then handle_late_packet h path (seq_of k p) info s
     else if r_buf r p = None then handle_packet h path (seq_of k p) info s
     else handle_redundant_packet h path (seq_of k p) info s)"
    and "\<not> p \<le> r_last r \<Longrightarrow> r_next r \<le> p \<and> p < r_next r + ring_size s"
proof -
  have ok: "ring_ok k s" and lp: "m_last_processed_sequence_number s = seq_of k (r_last r)" and ln: "r_last r < r_next r"
    using assms(1) by (auto simp: implements_def)
  have k: "k \<le> 32" "0 < k" and msb: "m_sequence_number_msb_mask s = 2 ^ (k - 1)" using ok by (auto simp: ring_ok_def)
  note sl = ring_slot_seq_of[OF ok, of p]
  show window: "\<not> p \<le> r_last r \<Longrightarrow> r_next r \<le> p \<and> p < r_next r + ring_size s"
    using assms(2) by (auto simp: placeable_def)
  show "file_packet h path (seq_of k p) info s =
    (if p \<le> r_last r then handle_late_packet h path (seq_of k p) info s
     else if r_buf r p = None then handle_packet h path (seq_of k p) info s
     else handle_redundant_packet h path (seq_of k p) info s)"
  proof (cases "p \<le> r_last r")
    case True
    then have "r_last r - p < 2 ^ (k - 1)" using assms(2) ln by (auto simp: placeable_def)
    then show ?thesis using late_test_behind[OF k True] True by (simp add: file_packet_def Let_def lp msb assms(3))
  next
    case False
    then have "r_last r < p" "p - r_last r < 2 ^ (k - 1)" using assms(2) by (auto simp: placeable_def)
    note late = late_test_ahead[OF k this]
    have "slot_agrees k (m_ext_packet_info_arr s ! (p mod ring_size s)) p (r_buf r p)"
      using implements_slot[OF assms(1)] window[OF False] by blast
    then show ?thesis
      using late False by (cases "r_buf r p") (simp_all add: file_packet_def Let_def lp msb assms(3) sl slot_agrees_def)
  qed
qed

definition same_counts :: "AppIPOReceiveStream \<Rightarrow> AppIPOReceiveStream \<Rightarrow> bool" where
  "same_counts s s' \<longleftrightarrow> path_stats (app_statistic s') = path_stats (app_statistic s)
     \<and> path_stats (app_statistic_totals s') = path_stats (app_statistic_totals s)
     \<and> rx_count (app_statistic s') = rx_count (app_statistic s) \<and> rx_count (app_statistic_totals s') = rx_count (app_statistic_totals s)
     \<and> app_is_extended_sequence_number s' = app_is_extended_sequence_number s"

lemma same_counts_refl [simp]: "same_counts s s"
  by (simp add: same_counts_def)

lemma same_counts_trans: "same_counts s s' \<Longrightarrow> same_counts s' s'' \<Longrightarrow> same_counts s s''"
  by (simp add: same_counts_def)

lemma implements_cong_window:
  "implements k s r \<Longrightarrow> r_buf r p \<noteq> None \<Longrightarrow> p \<in> {r_next r..<r_next r + ring_size s}"
  using window_dom by force

lemma path_flags_insert:
  "path_flags paths (insert (i, p) heard) p = (path_flags paths heard p)[i := 1]"
  "q \<noteq> p \<Longrightarrow> path_flags paths (insert (i, p) heard) q = path_flags paths heard q"
proof -
  show "path_flags paths (insert (i, p) heard) p = (path_flags paths heard p)[i := 1]"
  proof (rule nth_equalityI)
    fix j assume "j < length (path_flags paths (insert (i, p) heard) p)"
    then show "path_flags paths (insert (i, p) heard) p ! j = (path_flags paths heard p)[i := 1] ! j"
      by (cases "j = i") (simp_all add: path_flags_def)
  qed (simp add: path_flags_def)
  show "q \<noteq> p \<Longrightarrow> path_flags paths (insert (i, p) heard) q = path_flags paths heard q" by (simp add: path_flags_def)
qed

lemma lengths_update:
  "\<forall>x \<in> set xs. length x = n \<Longrightarrow> length y = n \<Longrightarrow> x \<in> set (xs[i := y]) \<Longrightarrow> length x = n"
  using set_update_subset_insert[of xs i y] by blast

lemma length_path_flags [simp]: "length (path_flags paths heard p) = paths"
  by (simp add: path_flags_def)

lemma app_file_packet:
  assumes "implements k s r" "placeable k (ring_size s) p r" "app_sequence_number_mask e = mask k" "path < paths"
    and "flags_agree paths s r heard"
  shows "flags_agree paths (file_packet (app_handlers e) path (seq_of k p) info s) (receive p (m_now s) r)
      (if r_last r < p then insert (path, p) heard else heard)
    \<and> same_counts s (file_packet (app_handlers e) path (seq_of k p) info s)"
proof -
  let ?h = "app_handlers e" and ?wa = "ring_size s"
  have mask: "h_sequence_number_mask ?h = mask k" using assms(3) by (simp add: app_handlers_def)
  note f = file_packet_cases(1)[OF assms(1,2) mask, of path info] file_packet_cases(2)[OF assms(1,2) mask]
  have ok: "ring_ok k s" using assms(1) by (simp add: implements_def)
  note sl = ring_slot_seq_of[OF ok, of p]
  have wa: "0 < ?wa" by (rule implements_ring[OF assms(1)])
  have len: "p mod ?wa < length (m_path_packets s)" "length (m_path_packets s ! (p mod ?wa)) = paths"
    using assms(5) mod_less_divisor[OF wa, of p] by (auto simp: flags_agree_def)
  have win: "q \<in> {r_next r..<r_next r + ?wa}" if "r_buf r q \<noteq> None" for q
    by (rule implements_cong_window[OF assms(1) that])
  consider (late) "p \<le> r_last r" | (new) "r_last r < p" "r_buf r p = None" | (again) t where "r_last r < p" "r_buf r p = Some t"
    by fastforce
  then show ?thesis
  proof cases
    case late
    then show ?thesis using f(1) assms(5)
      by (simp add: app_handlers_def app_handle_late_packet_def app_update_both_def receive_def flags_agree_def same_counts_def)
  next
    case new
    then have pw: "p \<in> {r_next r..<r_next r + ?wa}" using f(2) by simp
    have none: "(i, p) \<notin> heard" for i
    proof
      assume "(i, p) \<in> heard"
      then have "r_buf r p \<noteq> None" using assms(5) pw unfolding flags_agree_def by (metis atLeastLessThan_iff)
      then show False using new(2) by simp
    qed
    let ?s' = "app_handle_packet path (seq_of k p) info s"
    have s': "file_packet ?h path (seq_of k p) info s = ?s'" using f(1) new by (simp add: app_handlers_def)
    have pp: "m_path_packets ?s' = (m_path_packets s)[p mod ?wa := path_flags paths (insert (path, p) heard) p]"
      and same: "ring_size ?s' = ?wa" "same_counts s ?s'"
      using len none
      by (simp_all add: app_handle_packet_def base_handle_packet_def Let_def ring_slot_def sl[unfolded ring_slot_def]
          same_counts_def path_flags_def cong: map_cong)
    have "length by_paths = paths" if "by_paths \<in> set (m_path_packets ?s')" for by_paths
      by (rule lengths_update[OF _ length_path_flags that[unfolded pp]]) (use assms(5) in \<open>simp add: flags_agree_def\<close>)
    moreover have "m_path_packets ?s' ! (q mod ?wa) = path_flags paths (insert (path, p) heard) q"
      if "r_buf (receive p (m_now s) r) q \<noteq> None" for q
    proof (cases "q = p")
      case True
      then show ?thesis using len(1) by (simp add: pp)
    next
      case False
      then have b: "r_buf r q \<noteq> None" using that new by (simp add: receive_def split: if_splits)
      have "q mod ?wa \<noteq> p mod ?wa" using window_mod_inj[OF win[OF b] pw] False by blast
      then show ?thesis using assms(5) b False by (simp add: pp flags_agree_def path_flags_insert(2))
    qed
    ultimately show ?thesis
      using assms(4,5) len new pw unfolding s' flags_agree_def same(1)
      by (auto simp: pp same(2) receive_def)
  next
    case again
    then have pw: "p \<in> {r_next r..<r_next r + ?wa}" using f(2) by simp
    let ?s' = "app_handle_redundant_packet path (seq_of k p) info s"
    have s': "file_packet ?h path (seq_of k p) info s = ?s'" using f(1) again by (simp add: app_handlers_def)
    have r: "receive p (m_now s) r = r" using again by (simp add: receive_def)
    have pp: "m_path_packets ?s' = (m_path_packets s)[p mod ?wa := path_flags paths (insert (path, p) heard) p]"
      and same: "ring_size ?s' = ?wa" "same_counts s ?s'"
      using again assms(5)
      by (simp_all add: app_handle_redundant_packet_def Let_def sl same_counts_def flags_agree_def path_flags_insert)
    have "length by_paths = paths" if "by_paths \<in> set (m_path_packets ?s')" for by_paths
      by (rule lengths_update[OF _ length_path_flags that[unfolded pp]]) (use assms(5) in \<open>simp add: flags_agree_def\<close>)
    moreover have "m_path_packets ?s' ! (q mod ?wa) = path_flags paths (insert (path, p) heard) q" if b: "r_buf r q \<noteq> None" for q
    proof (cases "q = p")
      case True
      then show ?thesis using len(1) by (simp add: pp)
    next
      case False
      have "q mod ?wa \<noteq> p mod ?wa" using window_mod_inj[OF win[OF b] pw] False by blast
      then show ?thesis using assms(5) b False by (simp add: pp flags_agree_def path_flags_insert(2))
    qed
    ultimately show ?thesis
      using assms(4,5) len again pw unfolding s' r flags_agree_def same(1)
      by (auto simp: pp same(2))
  qed
qed


text \<open>The state in which the packets of a call are filed represents the buffer; the packets of one path, and of all.\<close>

lemma heard_from_simps [simp]:
  "heard_from path r [] = {}" "heard_from path r (None # ps) = heard_from path r ps"
  "heard_from path r (Some p # ps) = (if r_last r < p then insert (path, p) (heard_from path r ps) else heard_from path r ps)"
  by (auto simp: heard_from_def)

lemma heard_from_cong: "r_last r' = r_last r \<Longrightarrow> heard_from path r' ps = heard_from path r ps"
  by (simp add: heard_from_def)

lemma implements_base_part: "implements k (base_part s) r \<longleftrightarrow> implements k s r"
  by (simp add: implements_def ring_ok_def base_part_sel)

lemma app_as_base: "app_sequence_number_mask e = mask k \<Longrightarrow> as_base (app_handlers e) = base_handlers (app_get_sequence_number e) (mask k)"
  by (simp add: as_base_def app_handlers_def)

lemma app_awake_base:
  "app_sequence_number_mask e = mask k \<Longrightarrow> base_part (awake (app_handlers e) k ps s)
    = awake (base_handlers (app_get_sequence_number e) (mask k)) k ps (base_part s)"
  by (simp add: awake_def app.prepare_state_base app_as_base split: option.split)

lemma app_prepare:
  "m_path_packets (prepare_state (app_handlers e) n s) = m_path_packets s" "same_counts s (prepare_state (app_handlers e) n s)"
  "m_sequence_number_wrap_around (prepare_state (app_handlers e) n s) = m_sequence_number_wrap_around s"
  "m_now (prepare_state (app_handlers e) n s) = m_now s"
  "m_ring_header_stride (prepare_state (app_handlers e) n s) = m_ring_header_stride s"
  "m_ring_payload_stride (prepare_state (app_handlers e) n s) = m_ring_payload_stride s"
  by (cases "m_state s"; simp add: prepare_state_def app_handlers_def app_handle_sender_restart_def Let_def same_counts_def)+

lemma flags_agree_cong:
  "m_path_packets s' = m_path_packets s \<Longrightarrow> ring_size s' = ring_size s \<Longrightarrow> flags_agree paths s' r heard = flags_agree paths s r heard"
  by (simp add: flags_agree_def)

lemma app_process_packets:
  assumes "m_state s \<noteq> NotStarted" "packets_carry (app_get_sequence_number e) k m stride ptr infos ps"
    and "implements k (awake (app_handlers e) k (ps @ qs) s) r" "placeable_all k (ring_size s) ps r"
    and "app_sequence_number_mask e = mask k" "path < paths" "flags_agree paths s r heard"
  shows "flags_agree paths (process_packets (app_handlers e) m path stride ptr infos s) (received ps (m_now s) r)
      (heard_from path r ps \<union> heard)
    \<and> same_counts s (process_packets (app_handlers e) m path stride ptr infos s)"
  using assms
proof (induction "app_get_sequence_number e" k m stride ptr infos ps arbitrary: s r heard rule: packets_carry.induct)
  case (2 k m stride ptr info infos p ps)
  let ?h = "app_handlers e"
  let ?s1 = "process_packet ?h m path ptr info s"
  have parse: "app_get_sequence_number e m ptr (sub_block_size_0 info) = map_option (seq_of k) p"
    and carry: "packets_carry (app_get_sequence_number e) k m stride (ptr + stride) infos ps" using "2.prems"(2) by simp_all
  have pa: "placeable_all k (ring_size s) ps r" using "2.prems"(4) by (simp add: placeable_all_def)
  show ?case
  proof (cases p)
    case None
    then have s1: "?s1 = app_handle_corrupted_packet path info s"
      using parse by (simp add: process_packet_def app_handlers_def)
    have same: "m_path_packets ?s1 = m_path_packets s" "ring_size ?s1 = ring_size s" "same_counts s ?s1" "m_now ?s1 = m_now s"
      "m_state ?s1 = m_state s" "base_part ?s1 = base_part s"
      by (simp_all add: s1 app_handle_corrupted_packet_def app_update_both_def same_counts_def base_part_app)
    have imp: "implements k (awake ?h k (ps @ qs) ?s1) r"
    proof -
      have "base_part (awake ?h k (ps @ qs) ?s1) = base_part (awake ?h k ((p # ps) @ qs) s)"
        using None same(6) by (simp add: app_awake_base[OF "2.prems"(5)])
      then show ?thesis using "2.prems"(3) implements_base_part by metis
    qed
    have "flags_agree paths ?s1 r heard" using "2.prems"(7) flags_agree_cong[OF same(1,2)] by simp
    from "2.hyps"[OF _ carry imp _ "2.prems"(5,6) this] show ?thesis
      using "2.prems"(1) pa None same by (auto intro: same_counts_trans)
  next
    case (Some q)
    let ?sa = "prepare_state ?h (seq_of k q) s"
    have sa: "implements k ?sa r" using "2.prems"(3) Some by simp
    have run: "m_state ?sa = Running" by (rule prepare_runs[OF "2.prems"(1)])
    have s1: "?s1 = file_packet ?h path (seq_of k q) info ?sa"
      using parse Some by (simp add: process_packet_def app_handlers_def)
    have pl: "placeable k (ring_size ?sa) q r" using "2.prems"(4) Some by (simp add: placeable_all_def app_prepare)
    have fa: "flags_agree paths ?sa r heard" using "2.prems"(7) flags_agree_cong[of ?sa s] by (simp add: app_prepare)
    note one = app_file_packet[OF sa pl "2.prems"(5,6) fa, of info, folded s1, unfolded app_prepare]
    have base: "base_part ?s1 = file_packet (base_handlers (app_get_sequence_number e) (mask k)) path (seq_of k q) info (base_part ?sa)"
      unfolding s1 by (simp add: app.file_packet_base app_as_base[OF "2.prems"(5)])
    have "implements k (base_part ?sa) r" "placeable k (ring_size (base_part ?sa)) q r"
      using sa pl by (simp_all add: implements_base_part base_part_sel)
    from file_packet_receive[OF this, of "app_get_sequence_number e" path info, folded base]
    have st: "implements k ?s1 (receive q (m_now s) r)" "m_state ?s1 = Running" "m_now ?s1 = m_now s" "ring_size ?s1 = ring_size s"
      using run by (simp_all add: base_part_sel implements_base_part app_prepare)
    have imp: "implements k (awake ?h k (ps @ qs) ?s1) (receive q (m_now s) r)" using st(1) awake_running[OF st(2)] by metis
    have pl1: "placeable_all k (ring_size ?s1) ps (receive q (m_now s) r)"
      using pa st(4) placeable_cong[of "receive q (m_now s) r" r] by simp
    have eq: "heard_from path (receive q (m_now s) r) ps = heard_from path r ps" by (rule heard_from_cong) simp
    from "2.hyps"[OF _ carry imp pl1 "2.prems"(5,6) one[THEN conjunct1], unfolded eq st(3)]
    show ?thesis using st(2) one Some by (auto intro: same_counts_trans same_counts_trans[OF app_prepare(2)] split: if_splits)
  qed
qed simp_all


lemma app_process_completion:
  assumes "m_state s \<noteq> NotStarted" "completion_carries (app_get_sequence_number e) k m s chunk ps"
    and "implements k (awake (app_handlers e) k (ps @ qs) s) r" "placeable_all k (ring_size s) ps r"
    and "app_sequence_number_mask e = mask k" "path < paths" "flags_agree paths s r heard"
  shows "flags_agree paths (process_completion (app_handlers e) m path chunk s) (received ps (m_now s) r)
      (heard_from path r ps \<union> heard)
    \<and> same_counts s (process_completion (app_handlers e) m path chunk s)"
  using assms(2) app_process_packets[OF assms(1) _ assms(3-7), of m _ _ "chunk_packets chunk"]
  by (cases "chunk_header_ptr chunk = 0") (simp_all add: process_completion_def completion_carries_def)

lemma completion_carries_base_part [simp]: "completion_carries parse k m (base_part s) = completion_carries parse k m s"
  by (simp add: fun_eq_iff completion_carries_def base_part_sel)

text \<open>The base part of the state after a completion.\<close>

lemma app_completion_base:
  assumes "m_state s \<noteq> NotStarted" "completion_carries (app_get_sequence_number e) k m s chunk ps"
    and "implements k (awake (app_handlers e) k (ps @ qs) s) r" "placeable_all k (ring_size s) ps r"
    and "app_sequence_number_mask e = mask k"
  shows "implements k (awake (app_handlers e) k qs (process_completion (app_handlers e) m path chunk s)) (received ps (m_now s) r)"
    and "m_now (process_completion (app_handlers e) m path chunk s) = m_now s"
    and "ring_size (process_completion (app_handlers e) m path chunk s) = ring_size s"
    and "m_state (process_completion (app_handlers e) m path chunk s) \<noteq> NotStarted"
    and "completion_carries (app_get_sequence_number e) k m (process_completion (app_handlers e) m path chunk s)
      = completion_carries (app_get_sequence_number e) k m s"
proof -
  let ?h = "app_handlers e" and ?b = "base_handlers (app_get_sequence_number e) (mask k) :: unit handlers"
  let ?s1 = "process_completion ?h m path chunk s"
  have nb: "m_state (base_part s) \<noteq> NotStarted" using assms(1) by (simp add: base_part_sel)
  have cb: "completion_carries (app_get_sequence_number e) k m (base_part s) chunk ps" using assms(2) by simp
  note aw = process_completion_awake[OF nb cb, of path]
  have base: "base_part ?s1 = process_completion ?b m path chunk (base_part s)"
    by (simp add: app.process_completion_base app_as_base[OF assms(5)])
  have "implements k (awake ?h k qs ?s1) (received ps (m_now s) r) \<and> m_now ?s1 = m_now s \<and> ring_size ?s1 = ring_size s
    \<and> m_state ?s1 \<noteq> NotStarted
    \<and> completion_carries (app_get_sequence_number e) k m ?s1 = completion_carries (app_get_sequence_number e) k m s"
  proof (cases "first_position ps")
    case None
    then have same: "base_part ?s1 = base_part s" using base aw(2) by simp
    have "m_now (base_part ?s1) = m_now (base_part s)" "ring_size (base_part ?s1) = ring_size (base_part s)"
      "m_state (base_part ?s1) = m_state (base_part s)"
      "completion_carries (app_get_sequence_number e) k m (base_part ?s1) = completion_carries (app_get_sequence_number e) k m (base_part s)"
      by (simp_all only: same)
    then have eqs: "m_now ?s1 = m_now s" "ring_size ?s1 = ring_size s" "m_state ?s1 = m_state s"
      "completion_carries (app_get_sequence_number e) k m ?s1 = completion_carries (app_get_sequence_number e) k m s"
      by (simp_all add: base_part_sel)
    have "awake ?b k (ps @ qs) (base_part s) = awake ?b k qs (base_part s)" using None by (simp add: awake_def first_position_append)
    then have "base_part (awake ?h k qs ?s1) = base_part (awake ?h k (ps @ qs) s)"
      by (simp only: app_awake_base[OF assms(5)] same)
    then have "implements k (awake ?h k qs ?s1) r" using assms(3) implements_base_part by metis
    moreover have "received ps now r = r" for now using None
    proof (induction ps)
      case (Cons p ps)
      then show ?case by (cases p) simp_all
    qed simp
    ultimately show ?thesis using eqs assms(1) by simp
  next
    case (Some p)
    let ?sa = "prepare_state ?b (seq_of k p) (base_part s)"
    have run: "m_state ?sa = Running" by (rule prepare_runs[OF nb])
    have ia: "implements k ?sa r"
      using assms(3) Some app_awake_base[OF assms(5), of "ps @ qs" s] implements_base_part[of k "awake ?h k (ps @ qs) s" r]
      by (simp add: awake_def first_position_append)
    have ca: "completion_carries (app_get_sequence_number e) k m ?sa chunk ps"
      using cb by (simp add: completion_carries_def prepare_base base_part_sel cong: if_cong)
    have pa: "placeable_all k (ring_size ?sa) ps r" using assms(4) by (simp add: prepare_base base_part_sel)
    have s1: "base_part ?s1 = process_completion ?b m path chunk ?sa" using base aw(1) Some by (simp add: awake_def)
    note r = process_completion_receive[OF ia run ca pa, of path, folded s1]
    then have eqs: "m_now ?s1 = m_now s" "ring_size ?s1 = ring_size s" "m_state ?s1 = Running"
      using run by (auto simp: running_like_def same_config_def prepare_base base_part_sel)
    have "completion_carries (app_get_sequence_number e) k m (base_part ?s1)
        = completion_carries (app_get_sequence_number e) k m ?sa"
      using r by (intro completion_carries_cong) (simp add: running_like_def)
    also have "\<dots> = completion_carries (app_get_sequence_number e) k m s"
      by (simp add: fun_eq_iff completion_carries_def prepare_base base_part_sel cong: if_cong)
    finally have c: "completion_carries (app_get_sequence_number e) k m ?s1 = completion_carries (app_get_sequence_number e) k m s" by simp
    have "implements k ?s1 (received ps (m_now s) r)"
      using r by (simp add: implements_base_part prepare_base base_part_sel)
    then show ?thesis using eqs c by (simp add: awake_running)
  qed
  then show "implements k (awake ?h k qs ?s1) (received ps (m_now s) r)" "m_now ?s1 = m_now s" "ring_size ?s1 = ring_size s"
    "m_state ?s1 \<noteq> NotStarted"
    "completion_carries (app_get_sequence_number e) k m ?s1 = completion_carries (app_get_sequence_number e) k m s" by simp_all
qed

lemma heard_of_cong: "r_last r' = r_last r \<Longrightarrow> heard_of path r' pss = heard_of path r pss"
  by (induction pss arbitrary: path) (simp_all add: heard_from_cong[of r' r])

lemma app_process_paths:
  assumes "m_state s \<noteq> NotStarted" "list_all2 (completion_carries (app_get_sequence_number e) k m s) chunks pss"
    and "implements k (awake (app_handlers e) k (concat pss) s) r" "placeable_all k (ring_size s) (concat pss) r"
    and "app_sequence_number_mask e = mask k" "path + length pss \<le> paths" "flags_agree paths s r heard"
  shows "\<exists>s'. process_paths (app_handlers e) m path (map (Pair success) chunks) s = (success, s')
    \<and> flags_agree paths s' (received (concat pss) (m_now s) r) (heard_of path r pss \<union> heard) \<and> same_counts s s'
    \<and> implements k s' (received (concat pss) (m_now s) r)"
  using assms
proof (induction chunks arbitrary: s r heard path pss)
  case Nil
  then show ?case by simp
next
  case (Cons chunk chunks)
  obtain ps pss' where pss: "pss = ps # pss'" using Cons.prems(2) by (cases pss) auto
  let ?h = "app_handlers e"
  let ?s1 = "process_completion ?h m path chunk s" and ?r1 = "received ps (m_now s) r"
  have carry: "completion_carries (app_get_sequence_number e) k m s chunk ps"
    "list_all2 (completion_carries (app_get_sequence_number e) k m s) chunks pss'" using Cons.prems(2) pss by simp_all
  have pl: "placeable_all k (ring_size s) ps r" "placeable_all k (ring_size s) (concat pss') r"
    using Cons.prems(4) by (simp_all add: placeable_all_def pss)
  have imp: "implements k (awake ?h k (ps @ concat pss') s) r" using Cons.prems(3) pss by simp
  note b = app_completion_base[OF Cons.prems(1) carry(1) imp pl(1) Cons.prems(5), of path]
  have "path < paths" "path + 1 + length pss' \<le> paths" using Cons.prems(6) pss by simp_all
  note c = app_process_completion[OF Cons.prems(1) carry(1) imp pl(1) Cons.prems(5) this(1) Cons.prems(7)] this(2)
  have carry1: "list_all2 (completion_carries (app_get_sequence_number e) k m ?s1) chunks pss'" using carry(2) b(5) by simp
  have pl1: "placeable_all k (ring_size ?s1) (concat pss') ?r1" using pl(2) b(3) placeable_cong[of ?r1 r] by simp
  obtain s' where s': "process_paths ?h m (path + 1) (map (Pair success) chunks) ?s1 = (success, s')"
    "flags_agree paths s' (received (concat pss') (m_now s) ?r1) (heard_of (path + 1) ?r1 pss' \<union> (heard_from path r ps \<union> heard))"
    "same_counts ?s1 s'" "implements k s' (received (concat pss') (m_now s) ?r1)"
    using Cons.IH[OF b(4) carry1 b(1) pl1 Cons.prems(5) c(2) c(1)[THEN conjunct1]] unfolding b(2) by blast
  have "heard_of (path + 1) ?r1 pss' = heard_of (path + 1) r pss'" by (rule heard_of_cong) simp
  then have "heard_of (path + 1) ?r1 pss' \<union> (heard_from path r ps \<union> heard) = heard_of path r pss \<union> heard" by (auto simp: pss)
  then show ?case using s' c(1) by (auto simp: pss intro: same_counts_trans)
qed


text \<open>Handing over counts the flags of the slots handed over.\<close>

definition count_flags :: "u8 list \<Rightarrow> IPOPathStatistics list \<Rightarrow> IPOPathStatistics list" where
  "count_flags by_paths sts = map (\<lambda>(got, st). count_path got st) (zip by_paths sts) @ drop (length by_paths) sts"

lemma skip_initial_app:
  "skip_initial s = (s', b) \<Longrightarrow> m_path_packets s' = m_path_packets s \<and> same_counts s s' \<and> ring_size s' = ring_size s
    \<and> (\<forall>j. j < length (m_ext_packet_info_arr s) \<longrightarrow> is_valid (m_ext_packet_info_arr s' ! j)
         \<longrightarrow> m_ext_packet_info_arr s' ! j = m_ext_packet_info_arr s ! j)
    \<and> length (m_ext_packet_info_arr s') = length (m_ext_packet_info_arr s)"
proof (induction s rule: skip_initial.induct)
  case (1 s)
  let ?idx = "m_index s" and ?arr = "m_ext_packet_info_arr s"
  let ?s1 = "s\<lparr>m_next_packet_time := info_timestamp (?arr ! ?idx), m_ext_packet_info_arr := invalidate ?idx ?arr,
     m_index := next_slot (ring_size s) ?idx\<rparr>"
  show ?case
  proof (cases "length ?arr \<le> ?idx \<or> \<not> is_valid (?arr ! ?idx) \<or> info_timestamp (?arr ! ?idx) \<ge> m_start_time s")
    case True
    then have "s' = s" using "1.prems" by (subst (asm) skip_initial.simps) (auto simp: Let_def split: if_splits)
    then show ?thesis by simp
  next
    case False
    then have "skip_initial ?s1 = (s', b)" using "1.prems" by (subst (asm) skip_initial.simps) (simp add: Let_def)
    note r = "1.IH"[OF refl refl _ _ this]
    have inv: "is_valid (invalidate ?idx ?arr ! j) \<Longrightarrow> invalidate ?idx ?arr ! j = ?arr ! j" if "j < length ?arr" for j
      using that False by (cases "j = ?idx") (auto simp: invalidate_def)
    have "m_path_packets s' = m_path_packets s \<and> same_counts ?s1 s' \<and> ring_size s' = ring_size s
      \<and> (\<forall>j. j < length ?arr \<longrightarrow> is_valid (m_ext_packet_info_arr s' ! j) \<longrightarrow> m_ext_packet_info_arr s' ! j = invalidate ?idx ?arr ! j)
      \<and> length (m_ext_packet_info_arr s') = length ?arr"
      using r False by (simp add: invalidate_def)
    then show ?thesis using inv by (auto simp: same_counts_def)
  qed
qed

text \<open>Every valid slot of the ring holds a packet whose sequence number belongs there.\<close>

definition slots_match :: "'x IPOReceiveStream_scheme \<Rightarrow> bool" where
  "slots_match s \<longleftrightarrow> ring_size s \<le> length (m_ext_packet_info_arr s) \<and> (\<forall>j < ring_size s. is_valid (m_ext_packet_info_arr s ! j) \<longrightarrow>
     ring_slot s (info_sequence_number (m_ext_packet_info_arr s ! j)) = j)"

lemma slots_match_shrink:
  assumes "slots_match s" "m_sequence_number_wrap_around s' = m_sequence_number_wrap_around s"
    and "length (m_ext_packet_info_arr s') = length (m_ext_packet_info_arr s)"
    and "\<And>j. j < length (m_ext_packet_info_arr s) \<Longrightarrow> is_valid (m_ext_packet_info_arr s' ! j)
      \<Longrightarrow> m_ext_packet_info_arr s' ! j = m_ext_packet_info_arr s ! j"
  shows "slots_match s'"
  using assms unfolding slots_match_def ring_slot_def by (metis (no_types, lifting) less_le_trans)

lemma implements_slots_match:
  assumes "implements k s r"
  shows "slots_match s"
proof -
  have ok: "ring_ok k s" and wa: "0 < ring_size s" using assms by (auto simp: implements_def ring_ok_def)
  have "ring_slot s (info_sequence_number (m_ext_packet_info_arr s ! j)) = j"
    if "j < ring_size s" "is_valid (m_ext_packet_info_arr s ! j)" for j
  proof -
    let ?q = "r_next r + (j + ring_size s - r_next r mod ring_size s) mod ring_size s"
    have q: "r_next r \<le> ?q" "?q < r_next r + ring_size s" using wa by simp_all
    have m: "r_next r mod ring_size s < ring_size s" using wa by simp
    have "?q mod ring_size s = (r_next r mod ring_size s + (j + ring_size s - r_next r mod ring_size s)) mod ring_size s"
      by (simp only: mod_add_left_eq mod_add_right_eq)
    also have "r_next r mod ring_size s + (j + ring_size s - r_next r mod ring_size s) = j + ring_size s" using m by simp
    also have "(j + ring_size s) mod ring_size s = j" using that(1) by simp
    finally have j: "?q mod ring_size s = j" .
    then have "slot_agrees k (m_ext_packet_info_arr s ! j) ?q (r_buf r ?q)" using implements_slot[OF assms q] by simp
    then have "info_sequence_number (m_ext_packet_info_arr s ! j) = seq_of k ?q"
      using that(2) by (auto simp: slot_agrees_def split: option.splits)
    then show ?thesis using ring_slot_seq_of[OF ok, of ?q] j by simp
  qed
  then show ?thesis using ok by (simp add: slots_match_def ring_ok_def)
qed

lemma app_complete_counts:
  assumes "ring_slot s sn = j"
  shows "m_path_packets (app_complete_packet msk sn s) = m_path_packets s"
    "m_ext_packet_info_arr (app_complete_packet msk sn s) = m_ext_packet_info_arr s"
    "m_sequence_number_wrap_around (app_complete_packet msk sn s) = m_sequence_number_wrap_around s"
    "m_index (app_complete_packet msk sn s) = m_index s" "m_now (app_complete_packet msk sn s) = m_now s"
    "path_stats (app_statistic (app_complete_packet msk sn s)) = count_flags (m_path_packets s ! j) (path_stats (app_statistic s))"
    "path_stats (app_statistic_totals (app_complete_packet msk sn s)) = count_flags (m_path_packets s ! j) (path_stats (app_statistic_totals s))"
    "rx_count (app_statistic (app_complete_packet msk sn s)) = rx_count (app_statistic s)"
    "rx_count (app_statistic_totals (app_complete_packet msk sn s)) = rx_count (app_statistic_totals s)"
    "app_is_extended_sequence_number (app_complete_packet msk sn s) = app_is_extended_sequence_number s"
  using assms
  by (simp_all add: app_complete_packet_def base_complete_packet_def app_update_both_def Let_def count_flags_def ring_slot_def)

definition counted :: "AppIPOReceiveStream \<Rightarrow> nat \<Rightarrow> nat \<Rightarrow> AppIPOReceiveStream \<Rightarrow> bool" where
  "counted s first n s' \<longleftrightarrow> m_path_packets s' = m_path_packets s
     \<and> path_stats (app_statistic s') = fold (\<lambda>j. count_flags (m_path_packets s ! j)) [first..<first + n] (path_stats (app_statistic s))
     \<and> path_stats (app_statistic_totals s')
         = fold (\<lambda>j. count_flags (m_path_packets s ! j)) [first..<first + n] (path_stats (app_statistic_totals s))
     \<and> rx_count (app_statistic s') = rx_count (app_statistic s) \<and> rx_count (app_statistic_totals s') = rx_count (app_statistic_totals s)
     \<and> app_is_extended_sequence_number s' = app_is_extended_sequence_number s"

lemma counted_zero: "m_path_packets s' = m_path_packets s \<Longrightarrow> same_counts s s' \<Longrightarrow> counted s first 0 s'"
  by (simp add: counted_def same_counts_def)

lemma collect_packets_app:
  assumes "collect_packets (app_handlers e) n chunk count s = (s', chunk', count')" "slots_match s" "m_index s + n = ring_size s"
  shows "\<exists>c. count' = count + c \<and> counted s (m_index s) c s' \<and> completion_seqn_first chunk' = completion_seqn_first chunk
    \<and> (c \<noteq> 0 \<longrightarrow> is_valid (m_ext_packet_info_arr s ! m_index s) \<and> m_index s < ring_size s)"
  using assms
proof (induction n arbitrary: chunk count s)
  case 0
  then show ?case by (auto simp: counted_def)
next
  case (Suc n)
  let ?idx = "m_index s" and ?arr = "m_ext_packet_info_arr s"
  let ?info = "?arr ! ?idx"
  show ?case
  proof (cases "\<not> is_valid ?info \<or> info_timestamp ?info + m_max_path_differential s \<ge> m_now s")
    case True
    then have "s' = s" "chunk' = chunk" "count' = count" using Suc.prems(1) by (auto simp: Let_def split: if_splits)
    then show ?thesis by (intro exI[of _ 0]) (simp add: counted_def)
  next
    case False
    let ?t = "s\<lparr>m_ext_packet_info_arr := invalidate ?idx ?arr\<rparr>"
    let ?s1 = "app_complete_packet (app_sequence_number_mask e) (info_sequence_number ?info) ?t"
    let ?chunk1 = "chunk\<lparr>completion_timestamp_last := hw_timestamp ?info\<rparr>"
    have idx: "?idx < ring_size s" using Suc.prems(3) by simp
    have "ring_slot s (info_sequence_number ?info) = ?idx" using Suc.prems(2) idx False by (simp add: slots_match_def)
    then have "ring_slot ?t (info_sequence_number ?info) = ?idx" by (simp add: ring_slot_def)
    note c = app_complete_counts[OF this, of "app_sequence_number_mask e"]
    have one: "counted s ?idx 1 ?s1" using c by (simp add: counted_def)
    have seq: "completion_seqn_first ?chunk1 = completion_seqn_first chunk" by simp
    have arr1: "m_ext_packet_info_arr ?s1 = invalidate ?idx ?arr" "ring_size ?s1 = ring_size s" using c by simp_all
    show ?thesis
    proof (cases "?idx + 1 \<ge> ring_size s")
      case True
      then have "s' = ?s1\<lparr>m_index := 0\<rparr>" "chunk' = ?chunk1" "count' = count + 1"
        using Suc.prems(1) False arr1 by (auto simp: Let_def app_handlers_def)
      then show ?thesis using one False idx by (intro exI[of _ 1]) (simp add: counted_def)
    next
      case more: False
      let ?s2 = "?s1\<lparr>m_index := ?idx + 1\<rparr>"
      have rest: "collect_packets (app_handlers e) n ?chunk1 (count + 1) ?s2 = (s', chunk', count')"
        using Suc.prems(1) False more arr1 by (simp add: Let_def app_handlers_def)
      have match: "slots_match ?s2"
      proof (rule slots_match_shrink[OF Suc.prems(2)])
        fix j assume "j < length ?arr" "is_valid (m_ext_packet_info_arr ?s2 ! j)"
        then show "m_ext_packet_info_arr ?s2 ! j = ?arr ! j"
          using arr1(1) by (cases "j = ?idx") (auto simp: invalidate_def)
      qed (use c in \<open>simp_all add: invalidate_def\<close>)
      have idx2: "m_index ?s2 + n = ring_size ?s2" using Suc.prems(3) arr1 by simp
      from Suc.IH[OF rest match idx2]
      obtain d where d: "count' = count + 1 + d" "counted ?s2 (?idx + 1) d s'" "completion_seqn_first chunk' = completion_seqn_first ?chunk1"
        by auto
      have split: "[?idx..<?idx + (1 + d)] = ?idx # [?idx + 1..<?idx + 1 + d]" by (simp add: upt_rec)
      have "counted s ?idx (1 + d) s'" using d(2) one unfolding counted_def split by simp
      then show ?thesis using d seq False idx by (intro exI[of _ "1 + d"]) simp
    qed
  qed
qed


lemma hand_over_app_counts:
  assumes "hand_over (app_handlers e) chunk s = (s', chunk')" "slots_match s"
  shows "\<exists>first. counted s first (completion_chunk_size chunk') s'
    \<and> (completion_chunk_size chunk' \<noteq> 0 \<longrightarrow> ring_slot s (completion_seqn_first chunk') = first)"
proof -
  let ?wa = "ring_size s" and ?c0 = "chunk\<lparr>completion_chunk_size := 0\<rparr>"
  consider (none) "m_path_packets s' = m_path_packets s" "same_counts s s'" "completion_chunk_size chunk' = 0"
    | (some) start s1 c1 s2 c2 count where "skip_initial (s\<lparr>m_index := start\<rparr>) = (s1, True)"
      "completion_seqn_first c1 = info_sequence_number (m_ext_packet_info_arr s1 ! m_index s1)"
      "collect_packets (app_handlers e) (?wa - m_index s1) c1 0 s1 = (s2, c2, count)"
      "s' = s2" "completion_chunk_size chunk' = count" "completion_seqn_first chunk' = completion_seqn_first c2"
  proof (cases "m_state s \<noteq> Running \<or> m_next_packet_time s + m_max_path_differential s \<ge> m_now s")
    case True
    then have "s' = s" "chunk' = ?c0" using assms(1) by (auto simp: hand_over_def Let_def split: if_splits)
    then show ?thesis using none by simp
  next
    case go: False
    show ?thesis
    proof (cases "search_valid (m_ext_packet_info_arr s) ?wa (m_index s) (?wa - 1)")
      case None
      then have "s' = s\<lparr>m_state := Waiting\<rparr>" "chunk' = ?c0" using assms(1) go by (auto simp: hand_over_def Let_def)
      then show ?thesis using none by (simp add: same_counts_def)
    next
      case (Some start)
      let ?info = "m_ext_packet_info_arr s ! start"
      show ?thesis
      proof (cases "info_timestamp ?info + m_max_path_differential s \<ge> m_now s")
        case True
        then have "s' = s\<lparr>m_next_packet_time := info_timestamp ?info\<rparr>" "chunk' = ?c0"
          using assms(1) go Some by (auto simp: hand_over_def Let_def)
        then show ?thesis using none by (simp add: same_counts_def)
      next
        case due: False
        obtain s1 b where sk: "skip_initial (s\<lparr>m_index := start\<rparr>) = (s1, b)" by fastforce
        show ?thesis
        proof (cases b)
          case False
          then have "s' = s1" "chunk' = ?c0" using assms(1) go Some due sk by (auto simp: hand_over_def Let_def)
          then show ?thesis using none skip_initial_app[OF sk] by (simp add: same_counts_def)
        next
          case True
          let ?i1 = "m_ext_packet_info_arr s1 ! m_index s1"
          define c1 where "c1 = ?c0\<lparr>completion_seqn_first := info_sequence_number ?i1, completion_timestamp_first := hw_timestamp ?i1\<rparr>"
          obtain s2 c2 count where co: "collect_packets (app_handlers e) (?wa - m_index s1) c1 0 s1 = (s2, c2, count)"
            by (metis prod_cases3)
          have "s' = s2" "completion_chunk_size chunk' = count" "completion_seqn_first chunk' = completion_seqn_first c2"
            using assms(1) go Some due sk True co by (auto simp: hand_over_def Let_def c1_def)
          then show ?thesis using some[of start s1 c1 s2 c2 count] sk True co by (simp add: c1_def)
        qed
      qed
    qed
  qed
  then show ?thesis
  proof cases
    case none
    then show ?thesis using counted_zero[of s' s] by auto
  next
    case some
    note sk = skip_initial_app[OF some(1)]
    have rs: "ring_size s1 = ?wa" "m_path_packets s1 = m_path_packets s" "same_counts s s1" using sk by (simp_all add: same_counts_def)
    have wrap: "m_sequence_number_wrap_around s1 = m_sequence_number_wrap_around s" using rs(1) by (simp add: word_eq_unat)
    have match: "slots_match s1" by (rule slots_match_shrink[OF assms(2)]) (use sk wrap in simp_all)
    have "\<exists>c. count = 0 + c \<and> counted s1 (m_index s1) c s2 \<and> completion_seqn_first c2 = completion_seqn_first c1
      \<and> (c \<noteq> 0 \<longrightarrow> is_valid (m_ext_packet_info_arr s1 ! m_index s1) \<and> m_index s1 < ring_size s1)"
    proof (cases "m_index s1 \<le> ?wa")
      case True
      then show ?thesis using collect_packets_app[OF some(3) match] rs(1) by simp
    next
      case False
      then show ?thesis using some(3) by (intro exI[of _ 0]) (auto simp: counted_def)
    qed
    then have c: "counted s1 (m_index s1) count s2" "completion_seqn_first c2 = completion_seqn_first c1"
      "count \<noteq> 0 \<Longrightarrow> is_valid (m_ext_packet_info_arr s1 ! m_index s1) \<and> m_index s1 < ring_size s1" by auto
    have "ring_slot s (completion_seqn_first chunk') = m_index s1" if "count \<noteq> 0"
      using match c(3)[OF that] some(2,6) c(2) wrap by (simp add: slots_match_def ring_slot_def)
    moreover have "counted s (m_index s1) count s2" using c(1) rs(2,3) by (simp add: counted_def same_counts_def)
    ultimately show ?thesis using some(4,5) by auto
  qed
qed

lemma mod_run: "m mod wa + i < (wa :: nat) \<Longrightarrow> (m + i) mod wa = m mod wa + i"
  by (metis mod_add_left_eq mod_less)

lemma fold_over_slots:
  assumes "m mod wa + c \<le> wa" "\<And>p. p \<in> set [m..<m + c] \<Longrightarrow> f (p mod wa) = g p"
  shows "fold f [m mod wa..<m mod wa + c] x = fold g [m..<m + c] x"
proof -
  have "[m mod wa..<m mod wa + c] = map (\<lambda>p. p mod wa) [m..<m + c]"
    using assms(1) by (intro nth_equalityI) (simp_all add: mod_run)
  then have "fold f [m mod wa..<m mod wa + c] x = fold (f \<circ> (\<lambda>p. p mod wa)) [m..<m + c] x" by (simp add: fold_map)
  also have "\<dots> = fold g [m..<m + c] x" using assms(2) by (intro fold_cong) auto
  finally show ?thesis .
qed

lemma app_hand_over:
  assumes "implements k s r" "flags_agree paths s r heard" "hand_over_spec k s r = (r', ds)"
    and "hand_over (app_handlers e) chunk s = (s', chunk')" "app_sequence_number_mask e = mask k"
  shows "implements k s' r' \<and> chunk_carries k s chunk' ds \<and> same_config s s' \<and> flags_agree paths s' r' heard
    \<and> path_stats (app_statistic s') = fold (\<lambda>p. count_flags (path_flags paths heard p)) ds (path_stats (app_statistic s))
    \<and> path_stats (app_statistic_totals s') = fold (\<lambda>p. count_flags (path_flags paths heard p)) ds (path_stats (app_statistic_totals s))
    \<and> rx_count (app_statistic s') = rx_count (app_statistic s) \<and> rx_count (app_statistic_totals s') = rx_count (app_statistic_totals s)
    \<and> app_is_extended_sequence_number s' = app_is_extended_sequence_number s"
proof -
  let ?b = "base_handlers (app_get_sequence_number e) (mask k) :: unit handlers"
  have ib: "implements k (base_part s) r" using assms(1) by (simp add: implements_base_part)
  have sb: "hand_over_spec k (base_part s) r = (r', ds)" using assms(3) by (simp add: hand_over_spec_def base_part_sel cong: if_cong)
  have hb: "hand_over ?b chunk (base_part s) = (base_part s', chunk')"
    using app.hand_over_base[of e chunk s] assms(4) by (simp add: app_as_base[OF assms(5)])
  have base: "implements k s' r'" "chunk_carries k s chunk' ds" "same_config s s'"
    using hand_over_implements[OF ib sb hb] by (simp_all add: implements_base_part chunk_carries_def same_config_def base_part_sel)
  obtain first where cnt: "counted s first (completion_chunk_size chunk') s'"
    and first: "completion_chunk_size chunk' \<noteq> 0 \<Longrightarrow> ring_slot s (completion_seqn_first chunk') = first"
    using hand_over_app_counts[OF assms(4) implements_slots_match[OF assms(1)]] by blast
  have size: "completion_chunk_size chunk' = length ds" using base(2) by (simp add: chunk_carries_def)
  have ln: "r_last r < r_next r" and dom: "dom (r_buf r) \<subseteq> {r_next r..}" using assms(1) by (auto simp: implements_def)
  have "\<exists>m c. ds = [m..<m + c] \<and> (ds \<noteq> [] \<longrightarrow> m mod ring_size s + c \<le> ring_size s) \<and> (\<forall>q \<in> set ds. r_buf r q \<noteq> None)
    \<and> r_next r \<le> r_next r' \<and> r_buf r' = r_buf r |` {r_next r'..}"
  proof (cases "m_state s = Running \<and> m_next_packet_time s + m_max_path_differential s < m_now s")
    case True
    then have d: "deliver (ring_size s) (m_max_path_differential s) (m_now s) (m_start_time s) r = (r', ds)"
      using assms(3) by (simp add: hand_over_spec_def)
    have "due mpd now B q \<Longrightarrow> B q \<noteq> None" for mpd now B q by (cases "B q") (simp_all add: due_def)
    obtain i c where e: "ds = [i..<i + c]" "ds \<noteq> [] \<longrightarrow> i mod ring_size s + c \<le> ring_size s"
      "\<forall>q. i \<le> q \<and> q < i + c \<longrightarrow> due (m_max_path_differential s) (m_now s) (r_buf r) q"
      using deliver_effect(4)[OF d ln] by blast
    then have "\<forall>q \<in> set ds. r_buf r q \<noteq> None" using \<open>\<And>q now mpd B. due mpd now B q \<Longrightarrow> B q \<noteq> None\<close> by (metis atLeastLessThan_iff set_upt)
    then show ?thesis using e(1,2) deliver_effect(1)[OF d ln] deliver_effect(3)[OF d ln dom] by blast
  next
    case False
    then have "r' = r" "ds = [0..<0 + 0]" using assms(3) by (auto simp: hand_over_spec_def split: if_splits)
    moreover have "r_buf r |` {r_next r..} = r_buf r" using restrict_window[OF assms(1)] .
    ultimately show ?thesis by (intro exI[of _ 0]) simp
  qed
  then obtain i c where ds: "ds = [i..<i + c]" "ds \<noteq> [] \<Longrightarrow> i mod ring_size s + c \<le> ring_size s" "\<And>q. q \<in> set ds \<Longrightarrow> r_buf r q \<noteq> None"
    and r': "r_next r \<le> r_next r'" "r_buf r' = r_buf r |` {r_next r'..}" by blast
  have fo: "fold (\<lambda>j. count_flags (m_path_packets s ! j)) [first..<first + length ds] x
      = fold (\<lambda>p. count_flags (path_flags paths heard p)) ds x" for x
  proof (cases "ds = []")
    case False
    have hd: "hd ds = i" using False ds(1) by (auto simp: hd_upt)
    have "completion_seqn_first chunk' = seq_of k i" using base(2) False hd by (simp add: chunk_carries_def)
    then have f: "first = i mod ring_size s"
      using first size False ring_slot_seq_of[of k s i] assms(1) by (simp add: implements_def)
    have flags: "m_path_packets s ! (p mod ring_size s) = path_flags paths heard p" if "p \<in> set [i..<i + c]" for p
      using assms(2) ds(1,3) that by (simp add: flags_agree_def)
    have "length ds = c" using ds(1) by simp
    then show ?thesis
      using fold_over_slots[of i "ring_size s" c "\<lambda>j. count_flags (m_path_packets s ! j)" "\<lambda>p. count_flags (path_flags paths heard p)" x]
        ds(2)[OF False] flags by (simp add: f ds(1) del: upt_Suc)
  qed simp
  have "flags_agree paths s' r' heard"
  proof -
    have "ring_size s' = ring_size s" "m_path_packets s' = m_path_packets s"
      using base(3) cnt by (simp_all add: same_config_def counted_def)
    then show ?thesis using assms(2) r' unfolding flags_agree_def by (auto simp: restrict_map_def)
  qed
  then show ?thesis using base cnt unfolding counted_def size fo by simp
qed


lemma base_paths_like:
  assumes "m_state s \<noteq> NotStarted" "list_all2 (completion_carries parse k m s) chunks pss"
    and "implements k (awake (base_handlers parse (mask k)) k (concat pss) s) r" "placeable_all k (ring_size s) (concat pss) r"
  shows "\<exists>s'. process_paths (base_handlers parse (mask k)) m path (map (Pair success) chunks) s = (success, s')
    \<and> running_like (awake (base_handlers parse (mask k)) k (concat pss) s) s'"
proof (cases "first_position (concat pss)")
  case None
  then show ?thesis using process_paths_awake(2)[OF assms(1,2) None, of path] by (simp add: awake_def running_like_def)
next
  case (Some p)
  let ?sa = "prepare_state (base_handlers parse (mask k)) (seq_of k p) s"
  have "completion_carries parse k m ?sa = completion_carries parse k m s"
    by (simp add: fun_eq_iff completion_carries_def prepare_base cong: if_cong)
  then have "list_all2 (completion_carries parse k m ?sa) chunks pss" "placeable_all k (ring_size ?sa) (concat pss) r"
    using assms(2,4) by (simp_all add: prepare_base)
  from process_paths_receive[OF _ prepare_runs[OF assms(1)] this, of path] show ?thesis
    using process_paths_awake(1)[OF assms(1,2), of path] assms(3) Some by (auto simp: awake_def)
qed

lemma received_none: "first_position ps = None \<Longrightarrow> received ps now r = r"
proof (induction ps)
  case (Cons p ps)
  then show ?case by (cases p) simp_all
qed simp

lemma app_call:
  fixes s :: AppIPOReceiveStream and e k pss and now :: int
  defines "sa \<equiv> awake (app_handlers e) k (concat pss) (s\<lparr>m_now := now\<rparr>)"
  assumes "m_state s \<noteq> NotStarted" "list_all2 (completion_carries (app_get_sequence_number e) k m s) chunks pss"
    and "implements k sa r" "placeable_all k (ring_size s) (concat pss) r"
    and "call_effect sa now (concat pss) r = (r', ds)"
    and "app_sequence_number_mask e = mask k" "length pss \<le> paths" "flags_agree paths s r heard"
    and "app_is_extended_sequence_number s = e"
  shows "\<exists>s' chunk'. app_get_next_chunk m now (map (Pair success) chunks) chunk s = (success, s', chunk')
    \<and> implements k s' r' \<and> flags_agree paths s' r' (heard_of 0 r pss \<union> heard) \<and> same_config sa s'
    \<and> path_stats (app_statistic s') = fold (\<lambda>p. count_flags (path_flags paths (heard_of 0 r pss \<union> heard) p)) ds (path_stats (app_statistic s))
    \<and> path_stats (app_statistic_totals s')
        = fold (\<lambda>p. count_flags (path_flags paths (heard_of 0 r pss \<union> heard) p)) ds (path_stats (app_statistic_totals s))
    \<and> rx_count (app_statistic s') = rx_count (app_statistic s) + word_of_nat (length ds)
    \<and> rx_count (app_statistic_totals s') = rx_count (app_statistic_totals s) + word_of_nat (length ds)
    \<and> app_is_extended_sequence_number s' = e"
proof -
  let ?h = "app_handlers e" and ?b = "base_handlers (app_get_sequence_number e) (mask k) :: unit handlers"
  let ?s0 = "s\<lparr>m_now := now\<rparr>" and ?heard = "heard_of 0 r pss \<union> heard"
  have ns: "m_state ?s0 \<noteq> NotStarted" "m_state (base_part ?s0) \<noteq> NotStarted" using assms(2) by (simp_all add: base_part_sel)
  have carry: "list_all2 (completion_carries (app_get_sequence_number e) k m ?s0) chunks pss" using assms(3) by simp
  have fa: "flags_agree paths ?s0 r heard" using assms(9) flags_agree_cong[of ?s0 s] by simp
  obtain s2 where s2: "process_paths ?h m 0 (map (Pair success) chunks) ?s0 = (success, s2)"
    "flags_agree paths s2 (received (concat pss) now r) ?heard" "same_counts ?s0 s2" "implements k s2 (received (concat pss) now r)"
    using app_process_paths[OF ns(1) carry assms(4)[unfolded sa_def] _ assms(7) _ fa, of 0] assms(5,8) by auto
  have ba: "base_part sa = awake ?b k (concat pss) (base_part ?s0)" by (simp add: sa_def app_awake_base[OF assms(7)])
  obtain t where t: "process_paths ?b m 0 (map (Pair success) chunks) (base_part ?s0) = (success, t)" "running_like (base_part sa) t"
    using base_paths_like[OF ns(2), of "app_get_sequence_number e" k m chunks pss r 0] carry assms(4,5) ba implements_base_part[of k sa r]
    by (auto simp: base_part_sel)
  have "t = base_part s2"
    using app.process_paths_base[of e m 0 "map (Pair success) chunks" ?s0] s2(1) t(1) by (simp add: app_as_base[OF assms(7)])
  then have like: "running_like sa s2" using t(2) by (simp add: running_like_def same_config_def base_part_sel)
  have now: "m_now sa = now" by (simp add: sa_def awake_def app_prepare split: option.split)
  have none: "m_state sa \<noteq> Running \<Longrightarrow> first_position (concat pss) = None"
    using prepare_runs[OF ns(1)] by (auto simp: sa_def awake_def split: option.splits)
  have spec: "hand_over_spec k s2 (received (concat pss) now r) = (r', ds)"
  proof (cases "m_state sa = Running")
    case True
    then show ?thesis using assms(6) like now
      by (simp add: hand_over_spec_def call_effect_def call_spec_def running_like_def same_config_def split: if_splits)
  next
    case False
    then show ?thesis using assms(6) like received_none[OF none[OF False]]
      by (simp add: hand_over_spec_def call_effect_def running_like_def)
  qed
  obtain s3 chunk' where ho: "hand_over ?h chunk s2 = (s3, chunk')" by fastforce
  note r = app_hand_over[OF s2(4,2) spec ho assms(7)]
  have call: "ipo_get_next_chunk ?h m now (map (Pair success) chunks) chunk s = (success, s3, chunk')"
    using s2(1) ho assms(2) by (simp add: ipo_get_next_chunk_def Let_def)
  have size: "completion_chunk_size chunk' = length ds" using r by (simp add: chunk_carries_def)
  obtain s' where s': "app_get_next_chunk m now (map (Pair success) chunks) chunk s = (success, s', chunk')"
    and bp: "base_part s' = base_part s3" "m_path_packets s' = m_path_packets s3"
    and st: "path_stats (app_statistic s') = path_stats (app_statistic s3)"
      "path_stats (app_statistic_totals s') = path_stats (app_statistic_totals s3)"
      "rx_count (app_statistic s') = rx_count (app_statistic s3) + word_of_nat (length ds)"
      "rx_count (app_statistic_totals s') = rx_count (app_statistic_totals s3) + word_of_nat (length ds)"
      "app_is_extended_sequence_number s' = app_is_extended_sequence_number s3"
    using call by (simp add: app_get_next_chunk_def assms(10) Let_def app_update_both_def base_part_app size)
  have "implements k s' r'" using r bp(1) implements_base_part by metis
  moreover have ring: "m_sequence_number_wrap_around (base_part s') = m_sequence_number_wrap_around (base_part s3)" using bp(1) by simp
  then have "flags_agree paths s' r' ?heard" using r flags_agree_cong[OF bp(2)] by (simp add: base_part_sel)
  moreover have "same_config sa s'"
  proof -
    have "same_config sa s3" using r like by (auto simp: running_like_def intro: same_config_trans)
    then have "same_config (base_part sa) (base_part s3)" by (simp add: same_config_def base_part_sel)
    then show ?thesis unfolding bp(1)[symmetric] by (simp add: same_config_def base_part_sel)
  qed
  ultimately show ?thesis using s' st r s2(3) assms(10) by (auto simp: same_counts_def)
qed

text \<open>The life of a stream of \<open>paths\<close> paths: created, started, called with the chunks of its paths, with its statistics
  printed and reset in between.  \<open>heard\<close> are the paths that brought each packet on time, \<open>dlv\<close> and \<open>dlv_total\<close> the
  positions handed over since the statistics and the totals were reset.\<close>

inductive app_run :: "bool \<Rightarrow> nat \<Rightarrow> AppIPOReceiveStream \<Rightarrow> reorder \<Rightarrow> (nat \<times> nat) set \<Rightarrow> nat list \<Rightarrow> nat list \<Rightarrow> bool"
  for e paths where
  app_first: "create_stream (app_handlers e) results
      (AppIPOReceiveStream_new (2 ^ j) hds pkt_info e mpd hdr_stride pay_stride paths) = (success, s0) \<Longrightarrow> j < 32 \<Longrightarrow>
    s = start t0 s0 \<Longrightarrow> k = (if e then 32 else 16) \<Longrightarrow>
    list_all2 (completion_carries (app_get_sequence_number e) k m s) chunks pss \<Longrightarrow> length pss = paths \<Longrightarrow>
    first_position (concat pss) = Some p \<Longrightarrow> 2 ^ (k - 2) \<le> p \<Longrightarrow> r = buffer_before k p \<Longrightarrow>
    placeable_all k (ring_size s) (concat pss) r \<Longrightarrow>
    call_effect (awake (app_handlers e) k (concat pss) (s\<lparr>m_now := now\<rparr>)) now (concat pss) r = (r', ds) \<Longrightarrow>
    app_get_next_chunk m now (map (Pair success) chunks) chunk s = (st, s', chunk') \<Longrightarrow>
    app_run e paths s' r' (heard_of 0 r pss) ds ds"
| app_next: "app_run e paths s r heard dlv dlv_total \<Longrightarrow>
    m_state s = Running \<or> m_state s = Waiting \<and> now - m_next_packet_time s \<le> m_sender_restart_threshold s \<Longrightarrow>
    k = (if e then 32 else 16) \<Longrightarrow>
    list_all2 (completion_carries (app_get_sequence_number e) k m s) chunks pss \<Longrightarrow> length pss = paths \<Longrightarrow>
    placeable_all k (ring_size s) (concat pss) r \<Longrightarrow>
    call_effect (awake (app_handlers e) k (concat pss) (s\<lparr>m_now := now\<rparr>)) now (concat pss) r = (r', ds) \<Longrightarrow>
    app_get_next_chunk m now (map (Pair success) chunks) chunk s = (st, s', chunk') \<Longrightarrow>
    app_run e paths s' r' (heard_of 0 r pss \<union> heard) (dlv @ ds) (dlv_total @ ds)"
| app_reset: "app_run e paths s r heard dlv dlv_total \<Longrightarrow> app_run e paths (app_reset_statistics s) r heard [] dlv_total"
| app_reset_totals: "app_run e paths s r heard dlv dlv_total \<Longrightarrow> app_run e paths (app_reset_statistics_totals s) r heard dlv []"
| app_consumed: "app_run e paths s r heard dlv dlv_total \<Longrightarrow>
    app_run e paths (app_update_consumed_packets_stats x y s) r heard dlv dlv_total"

definition path_counts :: "nat \<Rightarrow> (nat \<times> nat) set \<Rightarrow> nat list \<Rightarrow> IPORXStatistics \<Rightarrow> bool" where
  "path_counts paths heard dlv st \<longleftrightarrow> length (path_stats st) = paths \<and> rx_count st = word_of_nat (length dlv)
     \<and> (\<forall>i < paths. path_rx_count (path_stats st ! i) = word_of_nat (length (filter (\<lambda>p. (i, p) \<in> heard) dlv))
          \<and> path_rx_dropped (path_stats st ! i) = word_of_nat (length (filter (\<lambda>p. (i, p) \<notin> heard) dlv)))"

lemma count_flags_nth:
  assumes "length sts = paths" "i < paths"
  shows "length (count_flags (path_flags paths heard p) sts) = paths"
    "count_flags (path_flags paths heard p) sts ! i = count_path (if (i, p) \<in> heard then 1 else 0) (sts ! i)"
  using assms by (simp_all add: count_flags_def path_flags_def)

lemma fold_count_flags:
  assumes "length sts = paths"
  shows "length (fold (\<lambda>p. count_flags (path_flags paths heard p)) ds sts) = paths \<and> (\<forall>i < paths.
    path_rx_count (fold (\<lambda>p. count_flags (path_flags paths heard p)) ds sts ! i)
      = path_rx_count (sts ! i) + word_of_nat (length (filter (\<lambda>p. (i, p) \<in> heard) ds))
    \<and> path_rx_dropped (fold (\<lambda>p. count_flags (path_flags paths heard p)) ds sts ! i)
      = path_rx_dropped (sts ! i) + word_of_nat (length (filter (\<lambda>p. (i, p) \<notin> heard) ds)))"
  using assms
proof (induction ds arbitrary: sts)
  case (Cons p ds)
  have len: "length (count_flags (path_flags paths heard p) sts) = paths"
    using Cons.prems by (simp add: count_flags_def)
  show ?case
    using Cons.IH[OF len] count_flags_nth(2)[OF Cons.prems] len by (simp add: count_path_def)
qed simp

lemma path_counts_add:
  assumes "path_counts paths heard dlv st" "heard \<subseteq> heard'" "\<And>i p. p \<in> set dlv \<Longrightarrow> (i, p) \<in> heard' \<Longrightarrow> (i, p) \<in> heard"
    and "path_stats st' = fold (\<lambda>p. count_flags (path_flags paths heard' p)) ds (path_stats st)"
    and "rx_count st' = rx_count st + word_of_nat (length ds)"
  shows "path_counts paths heard' (dlv @ ds) st'"
proof -
  have len: "length (path_stats st) = paths" using assms(1) by (simp add: path_counts_def)
  have same: "filter (\<lambda>p. (i, p) \<in> heard') dlv = filter (\<lambda>p. (i, p) \<in> heard) dlv"
    "filter (\<lambda>p. (i, p) \<notin> heard') dlv = filter (\<lambda>p. (i, p) \<notin> heard) dlv" for i
    using assms(2,3) by (auto intro!: filter_cong)
  show ?thesis
    using fold_count_flags[OF len, of heard' ds] assms(1,5) unfolding path_counts_def assms(4) by (simp add: same)
qed

lemma heard_of_bounds:
  "(i, p) \<in> heard_of path r pss \<Longrightarrow> Some p \<in> set (concat pss) \<and> r_last r < p \<and> i < path + length pss"
  by (induction pss arbitrary: path) (fastforce simp: heard_from_def)+

lemma effect_bounds:
  assumes "call_effect s now ps r = (r', ds)" "r_last r < r_next r"
  shows "r_next r \<le> r_next r'" "\<forall>q \<in> set ds. q < r_next r'"
proof -
  have ln: "r_last (received ps now r) < r_next (received ps now r)" using assms(2) by simp
  have "r_next r \<le> r_next r' \<and> (\<forall>q \<in> set ds. q < r_next r')"
  proof (cases "m_state s = Running \<and> m_next_packet_time s + m_max_path_differential s < now")
    case True
    then have d: "deliver (ring_size s) (m_max_path_differential s) now (m_start_time s) (received ps now r) = (r', ds)"
      using assms(1) by (simp add: call_effect_def call_spec_def)
    obtain i c where "i + c \<le> r_next r'" "ds = [i..<i + c]" using deliver_effect(4)[OF d ln] by blast
    then show ?thesis using deliver_effect(1)[OF d ln] by auto
  next
    case False
    then show ?thesis using assms(1) by (auto simp: call_effect_def call_spec_def split: if_splits)
  qed
  then show "r_next r \<le> r_next r'" "\<forall>q \<in> set ds. q < r_next r'" by simp_all
qed

definition app_run_inv :: "bool \<Rightarrow> nat \<Rightarrow> AppIPOReceiveStream \<Rightarrow> reorder \<Rightarrow> (nat \<times> nat) set \<Rightarrow> nat list \<Rightarrow> nat list \<Rightarrow> bool" where
  "app_run_inv e paths s r heard dlv dlv_total \<longleftrightarrow> implements (if e then 32 else 16) s r \<and> flags_agree paths s r heard
     \<and> app_is_extended_sequence_number s = e \<and> (\<forall>q \<in> set dlv \<union> set dlv_total. q < r_next r)
     \<and> path_counts paths heard dlv (app_statistic s) \<and> path_counts paths heard dlv_total (app_statistic_totals s)"

lemma app_mask: "app_sequence_number_mask e = mask (if e then 32 else 16)"
  by (simp add: app_sequence_number_mask_def RTP_SEQUENCE_NUMBER_MASK_16BIT_def RTP_SEQUENCE_NUMBER_MASK_32BIT_def mask_eq_exp_minus_1)

lemma app_call_inv:
  assumes "k = (if e then 32 else 16)" "m_state s \<noteq> NotStarted"
    and "list_all2 (completion_carries (app_get_sequence_number e) k m s) chunks pss"
    and "implements k (awake (app_handlers e) k (concat pss) (s\<lparr>m_now := now\<rparr>)) r" "placeable_all k (ring_size s) (concat pss) r"
    and "call_effect (awake (app_handlers e) k (concat pss) (s\<lparr>m_now := now\<rparr>)) now (concat pss) r = (r', ds)"
    and "length pss = paths" "flags_agree paths s r heard" "app_is_extended_sequence_number s = e"
    and "\<forall>q \<in> set dlv \<union> set dlv_total. q < r_next r"
    and "path_counts paths heard dlv (app_statistic s)" "path_counts paths heard dlv_total (app_statistic_totals s)"
    and "app_get_next_chunk m now (map (Pair success) chunks) chunk s = (st, s', chunk')"
  shows "app_run_inv e paths s' r' (heard_of 0 r pss \<union> heard) (dlv @ ds) (dlv_total @ ds)"
proof -
  let ?heard = "heard_of 0 r pss \<union> heard" and ?k = "if e then 32 else 16"
  have msk: "app_sequence_number_mask e = mask k" by (simp add: assms(1) app_mask)
  have le: "length pss \<le> paths" using assms(7) by simp
  note c = app_call[OF assms(2-6) msk le assms(8,9), of chunk, unfolded assms(13)]
  have ln: "r_last r < r_next r" using assms(4) by (simp add: implements_def)
  note eb = effect_bounds[OF assms(6) ln]
  have new: "(i, p) \<in> heard" if "p \<in> set d" "(i, p) \<in> ?heard" "set d \<subseteq> set dlv \<union> set dlv_total" for i p d
  proof (rule ccontr)
    assume "(i, p) \<notin> heard"
    then have "Some p \<in> set (concat pss)" "r_last r < p" using that(2) heard_of_bounds by blast+
    then have "r_next r \<le> p" using assms(5) by (auto simp: placeable_all_def placeable_def)
    have "p \<in> set dlv \<union> set dlv_total" using that(1,3) by blast
    then have "p < r_next r" using assms(10) by blast
    then show False using \<open>r_next r \<le> p\<close> by simp
  qed
  have sub: "heard \<subseteq> ?heard" by blast
  have "path_counts paths ?heard (dlv @ ds) (app_statistic s')"
    by (rule path_counts_add[OF assms(11) sub new]) (use c in auto)
  moreover have "path_counts paths ?heard (dlv_total @ ds) (app_statistic_totals s')"
    by (rule path_counts_add[OF assms(12) sub new]) (use c in auto)
  moreover have "\<forall>q \<in> set (dlv @ ds) \<union> set (dlv_total @ ds). q < r_next r'"
    using assms(10) eb by (auto intro: less_le_trans)
  ultimately show ?thesis using c unfolding app_run_inv_def assms(1) by blast
qed

lemma app_created:
  fixes k :: nat
  assumes "create_stream (app_handlers e) results
      (AppIPOReceiveStream_new (2 ^ j) hds pkt_info e mpd hdr_stride pay_stride paths) = (success, s0)" "j < 32"
    and "k = (if e then 32 else 16)"
  shows "app_is_extended_sequence_number s0 = e" "path_counts paths {} [] (app_statistic s0)"
    "path_counts paths {} [] (app_statistic_totals s0)" "ring_size s0 \<le> length (m_path_packets s0)"
    "\<forall>by_paths \<in> set (m_path_packets s0). length by_paths = paths"
proof -
  let ?n = "AppIPOReceiveStream_new (2 ^ j) hds pkt_info e mpd hdr_stride pay_stride paths"
  have mask: "app_sequence_number_mask e = mask k" using app_mask assms(3) by simp
  have s0: "m_path_packets s0 = replicate (2 ^ j) (replicate paths 0)" "app_is_extended_sequence_number s0 = e"
    "path_counts paths {} [] (app_statistic s0)" "path_counts paths {} [] (app_statistic_totals s0)"
    using assms(1)
    by (auto simp: create_stream_def AppIPOReceiveStream_new_def IPOReceiveStream_new_def Let_def path_counts_def
        app_handlers_def IPOReceiveStream.defs AppIPOReceiveStream.defs RXStatistics.defs IPORXStatistics.defs RXStatistics_zero_def
        split: option.splits)
  have n: "m_num_of_packets_in_chunk ?n = 2 ^ j"
    by (simp add: AppIPOReceiveStream_new_def IPOReceiveStream_new_def Let_def IPOReceiveStream.defs AppIPOReceiveStream.defs)
  have "create_stream (base_handlers (app_get_sequence_number e) (mask k)) results ?n = (success, s0)"
    using assms(1) mask by (simp add: create_stream_def app_handlers_def base_handlers_def)
  from create_stream_config(3)[OF this _ n assms(2)] show "ring_size s0 \<le> length (m_path_packets s0)"
    using assms(3) s0(1) by (auto split: if_splits)
  show "app_is_extended_sequence_number s0 = e" "path_counts paths {} [] (app_statistic s0)"
    "path_counts paths {} [] (app_statistic_totals s0)" by (rule s0)+
  show "\<forall>by_paths \<in> set (m_path_packets s0). length by_paths = paths" using s0(1) by simp
qed

lemma app_first_represents:
  assumes "create_stream (app_handlers e) results
      (AppIPOReceiveStream_new (2 ^ j) hds pkt_info e mpd hdr_stride pay_stride paths) = (success, s0)" "j < 32"
    and "k = (if e then 32 else 16)" "first_position ps = Some p" "2 ^ (k - 2) \<le> p"
  shows "implements k (awake (app_handlers e) k ps ((start ts s0)\<lparr>m_now := now\<rparr>)) (buffer_before k p)"
proof -
  let ?n = "AppIPOReceiveStream_new (2 ^ j) hds pkt_info e mpd hdr_stride pay_stride paths"
  let ?b = "base_handlers (app_get_sequence_number e) (mask k)" and ?sn = "(start ts s0)\<lparr>m_now := now\<rparr>"
  have mask: "app_sequence_number_mask e = mask k" using app_mask assms(3) by simp
  have "create_stream (base_handlers (app_get_sequence_number e) (mask k)) results ?n = (success, s0)"
    using assms(1) mask by (simp add: create_stream_def app_handlers_def base_handlers_def)
  then have c: "create_stream (base_handlers (app_get_sequence_number e) (mask k)) results (base_part ?n) = (success, base_part s0)"
    by (auto simp: create_stream_def base_handlers_def Let_def IPOReceiveStream.truncate_def split: option.splits)
  have n: "m_num_of_packets_in_chunk (base_part ?n) = 2 ^ j"
    by (simp add: base_part_sel AppIPOReceiveStream_new_def IPOReceiveStream_new_def Let_def IPOReceiveStream.defs AppIPOReceiveStream.defs)
  have arr: "m_ext_packet_info_arr s0 = replicate (2 ^ j) ext_packet_info_default"
    using assms(1) by (auto simp: create_stream_def AppIPOReceiveStream_new_def IPOReceiveStream_new_def Let_def
        IPOReceiveStream.defs AppIPOReceiveStream.defs split: option.splits)
  have "implements k (prepare_state (base_handlers (app_get_sequence_number e) (mask k)) (seq_of k p) (base_part ?sn))
      (buffer_before k p)"
    using first_packet_represents[OF c _ n assms(2), of "base_part ?sn" p] arr assms(3,5)
    by (simp add: base_part_sel start_def awaits_first_def no_packets_def ext_packet_info_default_def buffer_before_def split: if_splits)
  then have "implements k (base_part (awake (app_handlers e) k ps ?sn)) (buffer_before k p)"
    using assms(4) app_awake_base[OF mask, of ps ?sn] by (simp add: awake_def)
  then show ?thesis by (simp only: implements_base_part)
qed

lemma path_counts_reset: "path_counts paths heard dlv st \<Longrightarrow> path_counts paths heard [] (IPORXStatistics_reset st)"
  by (simp add: path_counts_def IPORXStatistics_reset_def path_reset_def)

lemma app_run_inv_cong:
  assumes "app_run_inv e paths s r heard dlv dlv_total" "base_part s' = base_part s" "m_path_packets s' = m_path_packets s"
    and "app_is_extended_sequence_number s' = app_is_extended_sequence_number s"
    and "path_counts paths heard dlv' (app_statistic s')" "path_counts paths heard dlv_total' (app_statistic_totals s')"
    and "set dlv' \<subseteq> set dlv" "set dlv_total' \<subseteq> set dlv_total"
  shows "app_run_inv e paths s' r heard dlv' dlv_total'"
proof -
  have "m_sequence_number_wrap_around (base_part s') = m_sequence_number_wrap_around (base_part s)" using assms(2) by simp
  then have "flags_agree paths s' r heard" using assms(1,3) flags_agree_cong[of s' s] by (simp add: base_part_sel app_run_inv_def)
  moreover have "implements (if e then 32 else 16) s' r"
    using assms(1,2) implements_base_part unfolding app_run_inv_def by metis
  ultimately show ?thesis using assms(1,4-8) unfolding app_run_inv_def by (metis Un_iff subsetD)
qed

lemma app_run_inv: "app_run e paths s r heard dlv dlv_total \<Longrightarrow> app_run_inv e paths s r heard dlv dlv_total"
proof (induction rule: app_run.induct)
  case (app_first results j hds pkt_info mpd hdr_stride pay_stride s0 s t0 k m chunks pss p r now r' ds chunk st s' chunk')
  note c = app_created[OF app_first(1,2,4)]
  have imp: "implements k (awake (app_handlers e) k (concat pss) (s\<lparr>m_now := now\<rparr>)) r"
    using app_first_represents[OF app_first(1,2,4,7,8), where ts=t0 and now=now] app_first(3,9) by simp
  have fa: "flags_agree paths s r {}"
    using c(4,5) app_first(3,9) by (simp add: flags_agree_def start_def buffer_before_def)
  have ns: "m_state s \<noteq> NotStarted" using app_first(3) by (simp add: start_def)
  have sel: "app_is_extended_sequence_number s = e" "path_counts paths {} [] (app_statistic s)" "path_counts paths {} [] (app_statistic_totals s)"
    using c(1-3) app_first(3) by (simp_all add: start_def)
  show ?case
    using app_call_inv[OF app_first(4) ns app_first(5) imp app_first(10,11,6) fa sel(1) _ sel(2,3) app_first(12)] by simp
next
  case (app_next s r heard dlv dlv_total now k m chunks pss r' ds chunk st s' chunk')
  let ?sa = "awake (app_handlers e) k (concat pss) (s\<lparr>m_now := now\<rparr>)"
  have ns: "m_state s \<noteq> NotStarted" using app_next(2) by auto
  have inv: "implements k s r" "flags_agree paths s r heard" "app_is_extended_sequence_number s = e"
    "\<forall>q \<in> set dlv \<union> set dlv_total. q < r_next r" "path_counts paths heard dlv (app_statistic s)"
    "path_counts paths heard dlv_total (app_statistic_totals s)"
    using app_next.IH app_next(3) by (simp_all add: app_run_inv_def)
  have "ring_size ?sa = ring_size s \<and> m_sequence_number_msb_mask ?sa = m_sequence_number_msb_mask s \<and> m_index ?sa = m_index s
    \<and> m_last_processed_sequence_number ?sa = m_last_processed_sequence_number s \<and> m_ext_packet_info_arr ?sa = m_ext_packet_info_arr s"
    using app_next(2) by (auto simp: awake_def prepare_state_def app_handlers_def app_handle_sender_restart_def Let_def split: option.split)
  then have imp: "implements k ?sa r" using inv(1) by (simp add: implements_def ring_ok_def)
  show ?case by (rule app_call_inv[OF app_next(3) ns app_next(4) imp app_next(6,7,5) inv(2-6) app_next(8)])
next
  case (app_reset s r heard dlv dlv_total)
  show ?case
    by (rule app_run_inv_cong[OF app_reset.IH]) (use app_reset.IH in \<open>auto simp: app_reset_statistics_def app_run_inv_def base_part_app path_counts_reset\<close>)
next
  case (app_reset_totals s r heard dlv dlv_total)
  show ?case
    by (rule app_run_inv_cong[OF app_reset_totals.IH]) (use app_reset_totals.IH in \<open>auto simp: app_reset_statistics_totals_def app_run_inv_def base_part_app path_counts_reset\<close>)
next
  case (app_consumed s r heard dlv dlv_total x y)
  show ?case
    by (rule app_run_inv_cong[OF app_consumed.IH]) (use app_consumed.IH in \<open>auto simp: app_update_consumed_packets_stats_def app_update_both_def app_run_inv_def base_part_app path_counts_def\<close>)
qed


text \<open>The same two calls on a stream of two paths: the packet comes on the first path only.\<close>

definition example_no_packets :: ReceiveChunk where
  "example_no_packets = \<lparr>chunk_header_ptr = 0, chunk_payload_ptr = 64, chunk_packets = []\<rparr>"

definition example_two_paths :: AppIPOReceiveStream where
  "example_two_paths = snd (create_stream (app_handlers False) [success, success]
     (AppIPOReceiveStream_new (2 ^ 2) False False False 1 0 64 2))"

lemmas example_two_defs = create_stream_def AppIPOReceiveStream_new_def Let_def
  IPOReceiveStream.defs AppIPOReceiveStream.defs

lemma example_two_base: "base_part (start 0 example_two_paths) = example_run_start"
  by (simp add: example_two_paths_def example_run_start_def start_def example_two_defs app_handlers_def base_handlers_def app_mask mask_eq_exp_minus_1
      IPOReceiveStream_new_def IPOReceiveStream.truncate_def)

lemma example_two_sel [simp]:
  "m_sequence_number_wrap_around example_two_paths = 4" "m_max_path_differential example_two_paths = 1000"
  "m_ring_header_stride example_two_paths = 0" "m_ring_payload_stride example_two_paths = 64" "m_header_data_split example_two_paths = False"
  "app_is_extended_sequence_number example_two_paths = False"
  by (simp_all add: example_two_paths_def example_two_defs IPOReceiveStream_new_def app_handlers_def
      app_sequence_number_mask_def RTP_SEQUENCE_NUMBER_MASK_16BIT_def get_sequence_number_wrap_around_def)

lemma example_carry:
  assumes "m_header_data_split s = False" "m_ring_payload_stride s = 64"
  shows "completion_carries (app_get_sequence_number False) 16 example_run_wire (s :: AppIPOReceiveStream) example_no_packets []"
    "completion_carries (app_get_sequence_number False) 16 example_run_wire s example_run_completion [Some 16389]"
  using assms by (simp_all add: completion_carries_def example_no_packets_def example_run_completion_def app_get_sequence_number_def
        example_run_wire_def seq_of_def)

lemma example_base_call:
  "ipo_get_next_chunk (base_handlers (app_get_sequence_number False) (mask 16)) example_run_wire 2000
     (map (Pair success) [example_run_completion, example_no_packets]) example_ipo_chunk example_run_start
   = (success, example_run_one, example_ipo_chunk)"
  by (simp add: ipo_get_next_chunk_def Let_def process_completion_def process_packet_def example_run_defs example_no_packets_def
      example_run_completion_def example_ipo_chunk_def example_run_one_def app_get_sequence_number_def example_run_wire_def
      prepare_state_def file_packet_def base_handle_packet_def ring_slot_def hand_over_def ext_packet_info_default_def)

lemma example_two_first:
  "\<exists>s. app_run False 2 s example_run_buffer {(0, 16389)} [] [] \<and> base_part s = example_run_one \<and> app_is_extended_sequence_number s = False"
proof -
  let ?s = "start 0 example_two_paths" and ?n = "AppIPOReceiveStream_new (2 ^ 2) False False False 1 0 64 2"
  let ?sa = "awake (app_handlers False) 16 (concat [[Some 16389], []]) (?s\<lparr>m_now := 2000\<rparr>)"
  let ?b = "base_handlers (app_get_sequence_number False) (mask 16) :: unit handlers"
  have created: "create_stream (app_handlers False) [success, success] ?n = (success, example_two_paths)"
    by (simp add: example_two_paths_def create_stream_def Let_def)
  have carry: "list_all2 (completion_carries (app_get_sequence_number False) 16 example_run_wire ?s)
      [example_run_completion, example_no_packets] [[Some 16389], []]"
    by (simp add: example_carry start_def)
  have before: "buffer_before 16 16389 = \<lparr>r_next = 16389, r_last = 5, r_buf = Map.empty\<rparr>" by (simp add: buffer_before_def)
  have imp: "implements 16 ?sa (buffer_before 16 16389)"
    using app_first_represents[OF created, of 16 "concat [[Some 16389], []]" 16389 2000 0] by simp
  have run: "m_state ?sa = Running" by (simp add: prepare_runs start_def)
  have "m_next_packet_time ?sa = 2000 \<and> m_max_path_differential ?sa = 1000 \<and> ring_size ?sa = 4"
    by (simp add: prepare_state_def start_def app_handlers_def Let_def)
  then have effect: "call_effect ?sa 2000 (concat [[Some 16389], []]) (buffer_before 16 16389) = (example_run_buffer, [])"
    using run by (simp add: call_effect_def call_spec_def before receive_def example_run_buffer_def del: awake_simps)
  have pl: "placeable_all 16 (ring_size ?s) (concat [[Some 16389], []]) (buffer_before 16 16389)"
    unfolding before by (simp add: placeable_all_def placeable_def start_def)
  have fa: "flags_agree 2 ?s (buffer_before 16 16389) {}"
    using app_created(4,5)[OF created] by (simp add: flags_agree_def start_def before)
  have ns: "m_state ?s \<noteq> NotStarted" by (simp add: start_def)
  have ext: "app_is_extended_sequence_number ?s = False" by (simp add: start_def)
  have msk: "app_sequence_number_mask False = mask 16" by (simp add: app_mask)
  obtain s' chunk' where c: "app_get_next_chunk example_run_wire 2000 (map (Pair success) [example_run_completion, example_no_packets])
      example_ipo_chunk ?s = (success, s', chunk')" "app_is_extended_sequence_number s' = False"
  proof -
    have two: "length [[Some 16389], []] \<le> 2" by simp
    show ?thesis using app_call[OF ns carry imp pl effect msk two fa ext, of example_ipo_chunk] that by blast
  qed
  have "app_run False 2 s' example_run_buffer (heard_of 0 (buffer_before 16 16389) [[Some 16389], []]) [] []"
    by (rule app_first[OF created _ refl _ carry _ _ _ refl pl effect c(1)]) simp_all
  moreover have "heard_of 0 (buffer_before 16 16389) [[Some 16389], []] = {(0, 16389)}" by (simp add: before)
  moreover have "ipo_get_next_chunk ?b example_run_wire 2000 (map (Pair success) [example_run_completion, example_no_packets])
      example_ipo_chunk (base_part ?s) = (success, base_part s', chunk')"
  proof -
    have sim: "app_get_next_chunk m now results chunk s = (success, s', chunk') \<Longrightarrow>
        ipo_get_next_chunk (as_base (app_handlers (app_is_extended_sequence_number s))) m now results chunk (base_part s)
        = (success, base_part s', chunk')" for m now results chunk s s' chunk'
      using app.get_next_chunk_base[of _ m now results chunk s]
      by (auto simp: app_get_next_chunk_def Let_def app_update_both_def base_part_app split: prod.splits if_splits)
    show ?thesis using sim[OF c(1)] by (simp add: ext app_as_base[OF msk])
  qed
  ultimately show ?thesis using example_base_call c(2) by (auto simp: example_two_base)
qed

lemma example_two_second: "\<exists>s r. app_run False 2 s r {(0, 16389)} [16389] [16389]"
proof -
  obtain s where s: "app_run False 2 s example_run_buffer {(0, 16389)} [] []" "base_part s = example_run_one"
    using example_two_first by blast
  let ?sa = "awake (app_handlers False) 16 (concat [[], []]) (s\<lparr>m_now := 4000\<rparr>)"
  have "m_state (base_part s) = Running" "m_next_packet_time (base_part s) = 2000" "m_max_path_differential (base_part s) = 1000"
    "m_start_time (base_part s) = 1000" "ring_size (base_part s) = 4" "m_header_data_split (base_part s) = False"
    "m_ring_payload_stride (base_part s) = 64"
    unfolding s(2) by (rule example_run_sel)+ (simp_all add: example_run_one_def example_run_defs Let_def)
  then have sel: "m_state s = Running" "m_next_packet_time s = 2000" "m_max_path_differential s = 1000" "m_start_time s = 1000"
    "ring_size s = 4" "m_header_data_split s = False" "m_ring_payload_stride s = 64" by (simp_all add: base_part_sel)
  note inv = app_run_inv[OF s(1), unfolded app_run_inv_def]
  have imp: "implements 16 ?sa example_run_buffer" using inv by (simp add: implements_def ring_ok_def)
  have "snd (call_effect ?sa 4000 (concat [[], []]) example_run_buffer) = [16389]"
    by (simp add: call_effect_def call_spec_def sel example_run_buffer_def deliver_def first_held_def due_def
        before_start_def upt_rec Let_def)
  then obtain r' where effect: "call_effect ?sa 4000 (concat [[], []]) example_run_buffer = (r', [16389])"
    by (metis surjective_pairing)
  have carry: "list_all2 (completion_carries (app_get_sequence_number False) 16 example_run_wire s)
      [example_no_packets, example_no_packets] [[], []]" by (simp add: example_carry sel)
  have pl: "placeable_all 16 (ring_size s) (concat [[], []]) example_run_buffer" by (simp add: placeable_all_def)
  have ns: "m_state s \<noteq> NotStarted" using sel by simp
  have msk: "app_sequence_number_mask False = mask 16" by (simp add: app_mask)
  obtain s' chunk' where c: "app_get_next_chunk example_run_wire 4000 (map (Pair success) [example_no_packets, example_no_packets])
      example_ipo_chunk s = (success, s', chunk')"
  proof -
    have two: "length [[], []] \<le> 2" by simp
    have fa: "flags_agree 2 s example_run_buffer {(0, 16389)}" "app_is_extended_sequence_number s = False" using inv by simp_all
    show ?thesis using app_call[OF ns carry imp pl effect msk two fa, of example_ipo_chunk] that by blast
  qed
  have "app_run False 2 s' r' (heard_of 0 example_run_buffer [[], []] \<union> {(0, 16389)}) ([] @ [16389]) ([] @ [16389])"
    by (rule app_next[OF s(1) _ _ carry _ pl effect c]) (simp_all add: sel)
  then show ?thesis by auto
qed


end
