(* ===== verification/Rational_Arith.thy ===== *)
theory Rational_Arith
  imports Prelude Complex_Main "HOL-Library.Monad_Syntax"
begin

text \<open>
  The mixed fractions of \<^verbatim>\<open>services/legacy_util/rational.cpp\<close> and \<^verbatim>\<open>rational.h\<close>: an integer part and a proper
  fraction, all unsigned 64-bit, kept reduced.  The arithmetic wraps as the code's does; an exception
  is \<open>Inl\<close>, and \<open>None\<close> is a division by zero (undefined in C++) or a loop that does not end.  The first lemmas give the loops their meaning over the natural numbers; the operations
  are then shown to compute on the rational values, within the bounds each needs.
\<close>

section \<open>The class\<close>

datatype RationalE = denominator_zero | division_by_zero | negative_result

record Rational =
  m_integer :: u64
  m_numerator :: u64
  m_denominator :: u64

function gcd_loop :: "u64 \<Rightarrow> u64 \<Rightarrow> u64" where
  "gcd_loop a b = (if b = 0 then a else gcd_loop b (a mod b))"
  by pat_completeness auto
termination
  by (relation "measure (\<lambda>(a, b). unat b)")
     (auto simp: unat_mod word_eq_unat intro: mod_less_divisor)

declare gcd_loop.simps [simp del]

definition Rational_gcd :: "u64 \<Rightarrow> u64 \<Rightarrow> u64" where
  "Rational_gcd a b = (if a < b then gcd_loop b a else gcd_loop a b)"

definition Rational_lcd :: "u64 \<Rightarrow> u64 \<Rightarrow> u64 option" where
  "Rational_lcd d1 d2 = do {
     q \<leftarrow> checked_div d1 (Rational_gcd d1 d2);
     Some (q * d2)
   }"

text \<open>The loop that halves both numbers; on two zeros it does not end.\<close>

partial_function (option) reduce_two :: "u64 \<Rightarrow> u64 \<Rightarrow> u64 \<Rightarrow> (u64 \<times> u64 \<times> u64) option" where
  "reduce_two i1 i2 i =
    (if \<not> (i1 OR i2) AND 1 = 0 then Some (i1, i2, i)
     else reduce_two (drop_bit 1 i1) (drop_bit 1 i2) (i + 1))"

definition reduce :: "u64 \<Rightarrow> u64 \<Rightarrow> (RationalE + u64 \<times> u64) option" where
  "reduce i1 i2 =
    (if i1 = 0 then Some (Inr (i1, i2))
     else if i2 = 0 then Some (Inl division_by_zero)
     else do {
       (i1', i2', _) \<leftarrow> reduce_two i1 i2 0;
       let r = Rational_gcd i1' i2';
       n \<leftarrow> checked_div i1' r;
       d \<leftarrow> checked_div i2' r;
       Some (Inr (n, d))
     })"


definition Rational_init :: "u64 \<Rightarrow> u64 \<Rightarrow> u64 \<Rightarrow> (RationalE + Rational) option" where
  "Rational_init integer numerator denominator =
    (if denominator = 0 then Some (Inl denominator_zero)
     else do {
       reduced \<leftarrow> reduce numerator denominator;
       (case reduced of
          Inl e \<Rightarrow> Some (Inl e)
        | Inr (numer, denom) \<Rightarrow> do {
            quotient \<leftarrow> checked_div numer denom;
            Some (Inr \<lparr>m_integer = integer + quotient, m_numerator = numer - quotient * denom, m_denominator = denom\<rparr>)
          })
     })"

definition Rational_of :: "u64 \<Rightarrow> Rational" where
  "Rational_of n = \<lparr>m_integer = n, m_numerator = 0, m_denominator = 1\<rparr>"

section \<open>Arithmetic\<close>

definition add_sub :: "Rational \<Rightarrow> Rational \<Rightarrow> bool \<Rightarrow> (RationalE + Rational) option" where
  "add_sub num1 num2 is_add = do {
     denom \<leftarrow> Rational_lcd (m_denominator num1) (m_denominator num2);
     multiplier1 \<leftarrow> checked_div denom (m_denominator num1);
     multiplier2 \<leftarrow> checked_div denom (m_denominator num2);
     let numerator1 = m_numerator num1 * multiplier1;
         numerator2 = m_numerator num2 * multiplier2
     in if is_add
        then Rational_init (m_integer num1 + m_integer num2) (numerator1 + numerator2) denom
        else if m_integer num1 < m_integer num2 then Some (Inl negative_result)
        else
          let integer = m_integer num1 - m_integer num2
          in if numerator1 < numerator2
             then (if integer < 1 then Some (Inl negative_result)
                   else Rational_init (integer - 1) (numerator1 + denom - numerator2) denom)
             else Rational_init integer (numerator1 - numerator2) denom
   }"

definition mul_div :: "Rational \<Rightarrow> Rational \<Rightarrow> bool \<Rightarrow> (RationalE + Rational) option" where
  "mul_div num1 num2 is_multiply =
    (let numerator1 = m_integer num1 * m_denominator num1 + m_numerator num1;
         denominator1 = m_denominator num1;
         numerator2 = m_integer num2 * m_denominator num2 + m_numerator num2;
         denominator2 = m_denominator num2
     in if is_multiply
        then do {
          first \<leftarrow> reduce numerator1 denominator2;
          second \<leftarrow> reduce numerator2 denominator1;
          (case (first, second) of
             (Inr (n1, d2), Inr (n2, d1)) \<Rightarrow> Rational_init 0 (n1 * n2) (d1 * d2)
           | (Inl e, _) \<Rightarrow> Some (Inl e)
           | (_, Inl e) \<Rightarrow> Some (Inl e))
        }
        else do {
          first \<leftarrow> reduce numerator1 numerator2;
          second \<leftarrow> reduce denominator1 denominator2;
          (case (first, second) of
             (Inr (n1, n2), Inr (d1, d2)) \<Rightarrow> Rational_init 0 (n1 * d2) (d1 * n2)
           | (Inl e, _) \<Rightarrow> Some (Inl e)
           | (_, Inl e) \<Rightarrow> Some (Inl e))
        })"

definition Rational_plus :: "Rational \<Rightarrow> Rational \<Rightarrow> (RationalE + Rational) option" where
  "Rational_plus a b = add_sub a b True"

definition Rational_minus :: "Rational \<Rightarrow> Rational \<Rightarrow> (RationalE + Rational) option" where
  "Rational_minus a b = add_sub a b False"

definition Rational_times :: "Rational \<Rightarrow> Rational \<Rightarrow> (RationalE + Rational) option" where
  "Rational_times a b = mul_div a b True"

definition Rational_divide :: "Rational \<Rightarrow> Rational \<Rightarrow> (RationalE + Rational) option" where
  "Rational_divide a b = mul_div a b False"

section \<open>Comparison\<close>

definition Rational_eq :: "Rational \<Rightarrow> Rational \<Rightarrow> bool" where
  "Rational_eq a b \<longleftrightarrow> m_integer a = m_integer b \<and> m_numerator a = m_numerator b \<and> m_denominator a = m_denominator b"

definition Rational_less :: "Rational \<Rightarrow> Rational \<Rightarrow> bool option" where
  "Rational_less a b =
    (if m_integer a = m_integer b
     then do {
       r \<leftarrow> Rational_lcd (m_denominator a) (m_denominator b);
       multiplier1 \<leftarrow> checked_div r (m_denominator a);
       multiplier2 \<leftarrow> checked_div r (m_denominator b);
       Some (multiplier1 * m_numerator a < multiplier2 * m_numerator b)
     }
     else Some (m_integer a < m_integer b))"

definition Rational_greater :: "Rational \<Rightarrow> Rational \<Rightarrow> bool option" where
  "Rational_greater a b = Rational_less b a"

definition Rational_less_eq :: "Rational \<Rightarrow> Rational \<Rightarrow> bool option" where
  "Rational_less_eq a b = map_option Not (Rational_less b a)"

definition Rational_greater_eq :: "Rational \<Rightarrow> Rational \<Rightarrow> bool option" where
  "Rational_greater_eq a b = Rational_less_eq b a"

text \<open>The comparisons with an unsigned integer.\<close>

definition Rational_eq_int :: "Rational \<Rightarrow> u64 \<Rightarrow> bool" where
  "Rational_eq_int a n \<longleftrightarrow> m_integer a = n \<and> m_numerator a = 0"

definition Rational_less_int :: "Rational \<Rightarrow> u64 \<Rightarrow> bool" where
  "Rational_less_int a n \<longleftrightarrow> m_integer a < n"

definition Rational_less_eq_int :: "Rational \<Rightarrow> u64 \<Rightarrow> bool" where
  "Rational_less_eq_int a n \<longleftrightarrow> (if n < m_integer a then False else m_integer a < n \<or> m_numerator a = 0)"

definition Rational_greater_int :: "Rational \<Rightarrow> u64 \<Rightarrow> bool" where
  "Rational_greater_int a n \<longleftrightarrow> (if m_integer a < n then False else m_integer a > n \<or> m_numerator a \<noteq> 0)"

definition Rational_greater_eq_int :: "Rational \<Rightarrow> u64 \<Rightarrow> bool" where
  "Rational_greater_eq_int a n \<longleftrightarrow> m_integer a \<ge> n"

definition Rational_bool :: "Rational \<Rightarrow> bool" where
  "Rational_bool a \<longleftrightarrow> m_integer a \<noteq> 0 \<or> m_numerator a \<noteq> 0"

section \<open>The loops\<close>

lemma unat_gcd_loop: "unat (gcd_loop a b) = gcd (unat a) (unat b)"
proof (induction a b rule: gcd_loop.induct)
  case (1 a b)
  show ?case
  proof (cases "b = 0")
    case True
    then show ?thesis by (simp add: gcd_loop.simps)
  next
    case False
    then have "unat (gcd_loop a b) = gcd (unat b) (unat a mod unat b)"
      using 1[OF False] by (subst gcd_loop.simps) (simp add: unat_mod)
    then show ?thesis by (metis gcd.commute gcd_red_nat)
  qed
qed

lemma unat_Rational_gcd: "unat (Rational_gcd a b) = gcd (unat a) (unat b)"
  by (simp add: Rational_gcd_def unat_gcd_loop gcd.commute)

text \<open>Halving ends as soon as one of the numbers is odd, and keeps their ratio.\<close>

lemma reduce_two_terminates:
  assumes "i1 \<noteq> 0"
  shows "\<exists>k j1 j2 i'. reduce_two i1 i2 i = Some (j1, j2, i') \<and> unat i1 = 2 ^ k * unat j1 \<and> unat i2 = 2 ^ k * unat j2"
  using assms
proof (induction "unat i1" arbitrary: i1 i2 i rule: less_induct)
  case less
  show ?case
  proof (cases "(i1 OR i2) AND 1 = 0")
    case False
    then have "reduce_two i1 i2 i = Some (i1, i2, i)" by (subst reduce_two.simps) simp
    then show ?thesis by - (rule exI[of _ 0], simp)
  next
    case True
    then have e: "even i1" "even i2" by (simp_all add: and_one_eq even_or_iff mod_2_eq_odd)
    have h: "unat (drop_bit 1 x) = unat x div 2" for x :: u64 by (simp add: drop_bit_eq_div unat_div)
    have ev: "even x \<Longrightarrow> unat x = 2 * (unat x div 2)" for x :: u64
      by (simp add: even_iff_mod_2_eq_zero word_eq_unat unat_mod_word)
    have nz: "drop_bit 1 i1 \<noteq> 0" using ev[OF e(1)] less.prems h[of i1] by (auto simp: word_eq_unat)
    have lt: "unat (drop_bit 1 i1) < unat i1" using less.prems h[of i1] by (simp add: word_eq_unat)
    from less.hyps[OF lt nz, of "drop_bit 1 i2" "i + 1"]
    obtain k j1 j2 i' where "reduce_two (drop_bit 1 i1) (drop_bit 1 i2) (i + 1) = Some (j1, j2, i')"
      "unat (drop_bit 1 i1) = 2 ^ k * unat j1" "unat (drop_bit 1 i2) = 2 ^ k * unat j2" by blast
    then show ?thesis using True ev[OF e(1)] ev[OF e(2)] h[of i1] h[of i2]
      by (subst reduce_two.simps) (intro exI[of _ "Suc k"], simp)
  qed
qed


lemma gcd_pos_u64: "a \<noteq> 0 \<or> b \<noteq> 0 \<Longrightarrow> 0 < unat (Rational_gcd a b)"
  by (auto simp: unat_Rational_gcd word_eq_unat)

lemma reduce_spec:
  assumes "d \<noteq> 0"
  shows "\<exists>n' d' g. reduce n d = Some (Inr (n', d')) \<and> 0 < g \<and> unat n = g * unat n' \<and> unat d = g * unat d'
    \<and> d' \<noteq> 0 \<and> (n \<noteq> 0 \<longrightarrow> coprime (unat n') (unat d'))"
proof (cases "n = 0")
  case True
  then show ?thesis using assms by (intro exI[of _ n] exI[of _ d] exI[of _ 1]) (simp add: reduce_def)
next
  case False
  obtain k j1 j2 i' where r2: "reduce_two n d 0 = Some (j1, j2, i')"
    and nk: "unat n = 2 ^ k * unat j1" and dk: "unat d = 2 ^ k * unat j2"
    using reduce_two_terminates[OF False] by blast
  let ?g = "Rational_gcd j1 j2"
  have j0: "unat j1 \<noteq> 0" "unat j2 \<noteq> 0" using False assms nk dk by (auto simp: word_eq_unat)
  have gu: "unat ?g = gcd (unat j1) (unat j2)" by (rule unat_Rational_gcd)
  have "?g \<noteq> 0" using gcd_pos_u64[of j1 j2] j0 by (auto simp: word_eq_unat)
  then have run: "reduce n d = Some (Inr (j1 div ?g, j2 div ?g))" using False assms r2 by (simp add: reduce_def Let_def)
  have dv: "unat j1 = unat ?g * unat (j1 div ?g)" "unat j2 = unat ?g * unat (j2 div ?g)"
    by (simp_all add: unat_div_word gu)
  have "coprime (unat (j1 div ?g)) (unat (j2 div ?g))"
    using j0 by (simp add: unat_div_word gu div_gcd_coprime)
  moreover have "j2 div ?g \<noteq> 0" using dv(2) j0(2) by (auto simp: word_eq_unat)
  moreover have "0 < 2 ^ k * unat ?g" using j0 gu by simp
  moreover have "unat n = (2 ^ k * unat ?g) * unat (j1 div ?g)" "unat d = (2 ^ k * unat ?g) * unat (j2 div ?g)"
    using nk dk dv by (metis mult.assoc)+
  ultimately show ?thesis using run by blast
qed

text \<open>The common denominator at 64 bits; the operations on fractions whose denominator is not zero.\<close>

definition lcd_word :: "u64 \<Rightarrow> u64 \<Rightarrow> u64" where
  "lcd_word d1 d2 = d1 div Rational_gcd d1 d2 * d2"

lemma Rational_lcd_valid: "d1 \<noteq> 0 \<Longrightarrow> Rational_lcd d1 d2 = Some (lcd_word d1 d2)"
proof -
  assume "d1 \<noteq> 0"
  then have "Rational_gcd d1 d2 \<noteq> 0" using gcd_pos_u64[of d1 d2] by fastforce
  then show ?thesis by (simp add: Rational_lcd_def lcd_word_def)
qed

lemma add_sub_valid:
  assumes "m_denominator a \<noteq> 0" "m_denominator b \<noteq> 0"
  shows "add_sub a b is_add =
    (let denom = lcd_word (m_denominator a) (m_denominator b);
         numerator1 = m_numerator a * (denom div m_denominator a);
         numerator2 = m_numerator b * (denom div m_denominator b)
     in if is_add
        then Rational_init (m_integer a + m_integer b) (numerator1 + numerator2) denom
        else if m_integer a < m_integer b then Some (Inl negative_result)
        else
          let integer = m_integer a - m_integer b
          in if numerator1 < numerator2
             then (if integer < 1 then Some (Inl negative_result)
                   else Rational_init (integer - 1) (numerator1 + denom - numerator2) denom)
             else Rational_init integer (numerator1 - numerator2) denom)"
  using assms by (simp add: add_sub_def Rational_lcd_valid Let_def)

lemma less_valid:
  assumes "m_denominator a \<noteq> 0" "m_denominator b \<noteq> 0"
  shows "Rational_less a b = Some
    (if m_integer a = m_integer b
     then m_numerator a * (lcd_word (m_denominator a) (m_denominator b) div m_denominator a)
        < m_numerator b * (lcd_word (m_denominator a) (m_denominator b) div m_denominator b)
     else m_integer a < m_integer b)"
  using assms by (simp add: Rational_less_def Rational_lcd_valid mult.commute)

lemma lcd_word_mod: "unat (lcd_word d1 d2) = lcm (unat d1) (unat d2) mod 2 ^ 64"
proof -
  have e: "unat d1 div gcd (unat d1) (unat d2) * unat d2 = lcm (unat d1) (unat d2)"
    by (simp add: lcm_nat_def div_mult_swap mult.commute)
  have q: "unat (d1 div Rational_gcd d1 d2) = unat d1 div gcd (unat d1) (unat d2)"
    by (simp only: unat_div_word unat_Rational_gcd)
  show ?thesis unfolding lcd_word_def unat_word_ariths(2) q e by simp
qed

text \<open>The constructor throws on a zero denominator and only then; otherwise its fraction is proper.\<close>

lemma Rational_init_result:
  "Rational_init i n 0 = Some (Inl denominator_zero)"
  "d \<noteq> 0 \<Longrightarrow> \<exists>r. Rational_init i n d = Some (Inr r) \<and> m_numerator r < m_denominator r"
proof -
  assume d: "d \<noteq> 0"
  obtain n' d' where r: "reduce n d = Some (Inr (n', d'))" "d' \<noteq> 0" using reduce_spec[OF d, of n] by blast
  have "n' - n' div d' * d' = n' mod d'" by (simp add: minus_div_mult_eq_mod)
  moreover have "n' mod d' < d'" using r(2) by (simp add: word_less_nat_alt unat_mod_word word_eq_unat)
  ultimately show "\<exists>r. Rational_init i n d = Some (Inr r) \<and> m_numerator r < m_denominator r"
    using d r by (simp add: Rational_init_def)
qed (simp add: Rational_init_def)

definition Rational_top_word :: "Rational \<Rightarrow> u64" where
  "Rational_top_word r = m_integer r * m_denominator r + m_numerator r"

text \<open>Multiplying and dividing, by the reduced parts.\<close>

lemma mul_div_result:
  assumes "m_denominator a \<noteq> 0" "m_denominator b \<noteq> 0"
  shows "\<exists>n d. mul_div a b True = Rational_init 0 n d \<and> (unat (m_denominator a) * unat (m_denominator b) < 2 ^ 64 \<longrightarrow> d \<noteq> 0)"
    and "Rational_top_word b \<noteq> 0 \<Longrightarrow> \<exists>n d. mul_div a b False = Rational_init 0 n d
      \<and> (unat (m_denominator a) * unat (Rational_top_word b) < 2 ^ 64 \<longrightarrow> d \<noteq> 0)"
    and "Rational_top_word b = 0 \<Longrightarrow>
      mul_div a b False = Some (Inl (if Rational_top_word a = 0 then denominator_zero else division_by_zero))"
proof -
  have product: "p * q \<noteq> (0 :: u64)"
    if "unat x = g * unat p" "unat y = h * unat q" "p \<noteq> 0" "q \<noteq> 0" "0 < g" "0 < h" "unat x * unat y < 2 ^ 64" for x y p q :: u64 and g h
  proof -
    have "unat p * unat q \<le> (g * h) * (unat p * unat q)" using that(5,6) by simp
    also have "\<dots> = unat x * unat y" unfolding that(1,2) by (simp only: ac_simps)
    finally have "unat (p * q) = unat p * unat q" using that(7) by (intro unat_mult_no_wrap) simp
    then show ?thesis using that(3,4) by (simp add: word_eq_unat)
  qed
  have z: "x \<noteq> 0 \<Longrightarrow> unat x = g * unat y \<Longrightarrow> y \<noteq> (0 :: u64)" for x y :: u64 and g by (auto simp: word_eq_unat)
  obtain n1 d2 g where 1: "reduce (Rational_top_word a) (m_denominator b) = Some (Inr (n1, d2))" "0 < g"
    "unat (m_denominator b) = g * unat d2" using reduce_spec[OF assms(2)] by blast
  obtain n2 d1 h where 2: "reduce (Rational_top_word b) (m_denominator a) = Some (Inr (n2, d1))" "0 < h"
    "unat (m_denominator a) = h * unat d1" using reduce_spec[OF assms(1)] by blast
  have "mul_div a b True = Rational_init 0 (n1 * n2) (d1 * d2)"
    using 1(1) 2(1) by (simp add: mul_div_def Let_def Rational_top_word_def)
  then show "\<exists>n d. mul_div a b True = Rational_init 0 n d \<and> (unat (m_denominator a) * unat (m_denominator b) < 2 ^ 64 \<longrightarrow> d \<noteq> 0)"
    using product[OF 2(3) 1(3) z[OF assms(1) 2(3)] z[OF assms(2) 1(3)] 2(2) 1(2)] by blast
  obtain e1 e2 l where 3: "reduce (m_denominator a) (m_denominator b) = Some (Inr (e1, e2))" "0 < l" "unat (m_denominator a) = l * unat e1"
    using reduce_spec[OF assms(2)] by blast
  show "\<exists>n d. mul_div a b False = Rational_init 0 n d
      \<and> (unat (m_denominator a) * unat (Rational_top_word b) < 2 ^ 64 \<longrightarrow> d \<noteq> 0)" if b: "Rational_top_word b \<noteq> 0"
  proof -
    obtain m1 m2 k where 4: "reduce (Rational_top_word a) (Rational_top_word b) = Some (Inr (m1, m2))" "0 < k"
      "unat (Rational_top_word b) = k * unat m2" using reduce_spec[OF b] by blast
    have "mul_div a b False = Rational_init 0 (m1 * e2) (e1 * m2)"
      using 3(1) 4(1) by (simp add: mul_div_def Let_def Rational_top_word_def)
    then show ?thesis using product[OF 3(3) 4(3) z[OF assms(1) 3(3)] z[OF b 4(3)] 3(2) 4(2)] by blast
  qed
  show "mul_div a b False = Some (Inl (if Rational_top_word a = 0 then denominator_zero else division_by_zero))"
    if "Rational_top_word b = 0"
    using that 3(1) by (simp add: mul_div_def Let_def Rational_top_word_def reduce_def Rational_init_def)
qed




section \<open>The value of a fraction\<close>

definition frac_value :: "u64 \<Rightarrow> u64 \<Rightarrow> rat" where
  "frac_value n d = rat_of_nat (unat n) / rat_of_nat (unat d)"

definition Rational_value :: "Rational \<Rightarrow> rat" where
  "Rational_value r = rat_of_nat (unat (m_integer r)) + frac_value (m_numerator r) (m_denominator r)"

definition Rational_proper :: "Rational \<Rightarrow> bool" where
  "Rational_proper r \<longleftrightarrow> m_numerator r < m_denominator r
     \<and> (m_numerator r \<noteq> 0 \<longrightarrow> coprime (unat (m_numerator r)) (unat (m_denominator r)))"

lemma proper_valid: "Rational_proper r \<Longrightarrow> m_denominator r \<noteq> 0"
  by (auto simp: Rational_proper_def)

lemma Rational_properD:
  assumes "Rational_proper r"
  shows "unat (m_numerator r) < unat (m_denominator r)" "0 < unat (m_denominator r)"
  using assms by (auto simp: Rational_proper_def word_less_nat_alt)

lemma div_mod_value:
  "0 < d \<Longrightarrow> rat_of_nat n / rat_of_nat d = rat_of_nat (n div d) + rat_of_nat (n mod d) / rat_of_nat d"
proof -
  assume d: "0 < d"
  have "rat_of_nat n = rat_of_nat (n div d) * rat_of_nat d + rat_of_nat (n mod d)"
    by (metis div_mult_mod_eq of_nat_add of_nat_mult)
  then show ?thesis using d by (simp add: add_divide_distrib)
qed

lemma Rational_init_value:
  assumes "d \<noteq> 0" "unat i + unat n div unat d < 2 ^ 64"
  shows "\<exists>r. Rational_init i n d = Some (Inr r) \<and> Rational_proper r
    \<and> Rational_value r = rat_of_nat (unat i) + frac_value n d"
proof -
  obtain n' d' g where red: "reduce n d = Some (Inr (n', d'))" and g: "0 < g"
    and n: "unat n = g * unat n'" and d: "unat d = g * unat d'" and d0: "d' \<noteq> 0"
    and cop: "n \<noteq> 0 \<longrightarrow> coprime (unat n') (unat d')"
    using reduce_spec[OF assms(1), of n] by blast
  let ?q = "n' div d'"
  let ?r = "\<lparr>m_integer = i + ?q, m_numerator = n' - ?q * d', m_denominator = d'\<rparr>"
  have d'0: "0 < unat d'" using d0 by (simp add: word_eq_unat)
  have q: "unat ?q = unat n div unat d" using g by (simp add: unat_div_word n d)
  have num: "n' - ?q * d' = n' mod d'" by (simp add: minus_div_mult_eq_mod)
  have i: "unat (i + ?q) = unat i + unat n div unat d" using assms(2) q by (simp add: unat_add_no_wrap)
  have run: "Rational_init i n d = Some (Inr ?r)"
    using assms(1) red d0 by (simp add: Rational_init_def)
  have fr: "frac_value n d = frac_value n' d'" using g d'0 by (simp add: frac_value_def n d)
  note div_mod_value[OF d'0, of "unat n'"]
  then have "Rational_value ?r = rat_of_nat (unat i) + frac_value n d"
    unfolding fr using g by (simp add: Rational_value_def num i frac_value_def unat_mod_word n d)
  moreover have "Rational_proper ?r"
  proof -
    have "unat (n' mod d') < unat d'" using d'0 by (simp add: unat_mod_word)
    moreover have "coprime (unat (n' mod d')) (unat d')" if "n' mod d' \<noteq> 0"
    proof -
      have "unat n' \<noteq> 0" using that by (cases "unat n' = 0") (auto simp: word_eq_unat unat_mod_word)
      then have "n \<noteq> 0" using n g by (simp add: word_eq_unat)
      then show ?thesis using cop by (simp add: unat_mod_word coprime_mod_left_iff d'0)
    qed
    ultimately show ?thesis by (simp add: Rational_proper_def num word_less_nat_alt)
  qed
  ultimately show ?thesis using run by blast
qed


section \<open>The operations compute on the values\<close>

lemma unat_lcd_word:
  assumes "lcm (unat d1) (unat d2) < 2 ^ 64"
  shows "unat (lcd_word d1 d2) = lcm (unat d1) (unat d2)"
proof -
  have e: "unat d1 div gcd (unat d1) (unat d2) * unat d2 = lcm (unat d1) (unat d2)"
    by (simp add: lcm_nat_def div_mult_swap mult.commute)
  have "unat (d1 div Rational_gcd d1 d2) * unat d2 < 2 ^ LENGTH(64)"
    using assms by (simp add: unat_div_word unat_Rational_gcd e)
  then show ?thesis by (simp add: lcd_word_def unat_mult_no_wrap unat_div_word unat_Rational_gcd e)
qed

text \<open>A numerator brought to the common denominator.\<close>

lemma common_denominator:
  assumes "L = lcd_word d1 d2 \<or> L = lcd_word d2 d1" "lcm (unat d1) (unat d2) < 2 ^ 64" "d1 \<noteq> 0" "d2 \<noteq> 0" "n < d1"
  shows "unat (n * (L div d1)) < unat L" "frac_value (n * (L div d1)) L = frac_value n d1" "0 < unat L"
    "unat L = lcm (unat d1) (unat d2)"
proof -
  have d: "0 < unat d1" "0 < unat d2" using assms(3,4) by (simp_all add: word_eq_unat)
  show L: "unat L = lcm (unat d1) (unat d2)"
    using assms(1,2) unat_lcd_word[of d1 d2] unat_lcd_word[of d2 d1] by (auto simp: lcm.commute)
  then obtain k where k: "unat L = unat d1 * k" by (metis dvd_def dvd_lcm1)
  show L0: "0 < unat L" using L d by (simp add: lcm_pos_nat)
  have k0: "0 < k" using L0 k by (cases k) auto
  have q: "unat (L div d1) = k" using k d by (simp add: unat_div_word)
  have nd: "unat n < unat d1" using assms(5) by (simp add: word_less_nat_alt)
  then have lt: "unat n * k < unat L" using k k0 by simp
  have nw: "unat n * unat (L div d1) < 2 ^ LENGTH(64)" using lt unat_u64_bound[of L] q by simp
  have m: "unat (n * (L div d1)) = unat n * k" using unat_mult_no_wrap[OF nw] q by simp
  show "unat (n * (L div d1)) < unat L" using m lt by simp
  show "frac_value (n * (L div d1)) L = frac_value n d1"
    using d k0 unfolding frac_value_def m k by simp
qed

lemma frac_value_less: "n < d \<Longrightarrow> 0 \<le> frac_value n d \<and> frac_value n d < 1"
  by (auto simp: frac_value_def word_less_nat_alt divide_simps simp del: of_nat_unat)

lemma frac_value_less_iff: "d \<noteq> 0 \<Longrightarrow> frac_value x d < frac_value y d \<longleftrightarrow> x < y"
  by (simp add: frac_value_def word_less_nat_alt divide_less_cancel word_eq_unat del: of_nat_unat)

lemma frac_value_diff: "y \<le> x \<Longrightarrow> frac_value (x - y) d = frac_value x d - frac_value y d"
  by (simp add: frac_value_def unat_sub_no_wrap word_le_nat_alt of_nat_diff diff_divide_distrib del: of_nat_unat)

text \<open>Two proper fractions over one denominator.\<close>

lemma common_form:
  assumes "Rational_proper a" "Rational_proper b"
    and "2 * lcm (unat (m_denominator a)) (unat (m_denominator b)) \<le> 2 ^ 64"
  obtains L n1 n2 where "L = lcd_word (m_denominator a) (m_denominator b)"
    "n1 = m_numerator a * (L div m_denominator a)" "n2 = m_numerator b * (L div m_denominator b)"
    "L \<noteq> 0" "unat n1 < unat L" "unat n2 < unat L" "2 * unat L \<le> 2 ^ 64"
    "Rational_value a = rat_of_nat (unat (m_integer a)) + frac_value n1 L"
    "Rational_value b = rat_of_nat (unat (m_integer b)) + frac_value n2 L"
proof
  let ?L = "lcd_word (m_denominator a) (m_denominator b)"
  have fa: "m_numerator a < m_denominator a" "m_denominator a \<noteq> 0"
    and fb: "m_numerator b < m_denominator b" "m_denominator b \<noteq> 0"
    using assms(1,2) by (auto simp: Rational_proper_def)
  have l: "lcm (unat (m_denominator a)) (unat (m_denominator b)) < 2 ^ 64" using assms(3) by simp
  then have l': "lcm (unat (m_denominator b)) (unat (m_denominator a)) < 2 ^ 64" by (simp add: lcm.commute)
  note c1 = common_denominator[OF disjI1[OF refl] l fa(2) fb(2) fa(1)]
  note c2 = common_denominator[OF disjI2[OF refl] l' fb(2) fa(2) fb(1)]
  show "?L \<noteq> 0" using c1(3) by (auto simp: word_eq_unat)
  show "2 * unat ?L \<le> 2 ^ 64" using assms(3) c1(4) by simp
  show "unat (m_numerator a * (?L div m_denominator a)) < unat ?L" by (rule c1(1))
  show "unat (m_numerator b * (?L div m_denominator b)) < unat ?L" by (rule c2(1))
  show "Rational_value a = rat_of_nat (unat (m_integer a)) + frac_value (m_numerator a * (?L div m_denominator a)) ?L"
    "Rational_value b = rat_of_nat (unat (m_integer b)) + frac_value (m_numerator b * (?L div m_denominator b)) ?L"
    unfolding Rational_value_def c1(2) c2(2) by (rule refl)+
qed (rule refl)+

lemma Rational_plus_value:
  assumes "Rational_proper a" "Rational_proper b"
    and "2 * lcm (unat (m_denominator a)) (unat (m_denominator b)) \<le> 2 ^ 64"
    and "unat (m_integer a) + unat (m_integer b) + 1 < 2 ^ 64"
  shows "\<exists>r. Rational_plus a b = Some (Inr r) \<and> Rational_proper r \<and> Rational_value r = Rational_value a + Rational_value b"
proof -
  obtain L n1 n2 where L: "L = lcd_word (m_denominator a) (m_denominator b)"
    and n: "n1 = m_numerator a * (L div m_denominator a)" "n2 = m_numerator b * (L div m_denominator b)"
    and b: "L \<noteq> 0" "unat n1 < unat L" "unat n2 < unat L" "2 * unat L \<le> 2 ^ 64"
    and v: "Rational_value a = rat_of_nat (unat (m_integer a)) + frac_value n1 L"
      "Rational_value b = rat_of_nat (unat (m_integer b)) + frac_value n2 L"
    by (rule common_form[OF assms(1-3)])
  have s: "unat (n1 + n2) = unat n1 + unat n2" using b by (intro unat_add_no_wrap) simp
  have i: "unat (m_integer a + m_integer b) = unat (m_integer a) + unat (m_integer b)"
    using assms(4) by (intro unat_add_no_wrap) simp
  have "unat (n1 + n2) div unat L < 2" using b s by (simp add: div_less_iff_less_mult)
  then have "unat (m_integer a + m_integer b) + unat (n1 + n2) div unat L < 2 ^ 64" using assms(4) i by simp
  from Rational_init_value[OF b(1) this] obtain r where
    r: "Rational_init (m_integer a + m_integer b) (n1 + n2) L = Some (Inr r)" "Rational_proper r"
    "Rational_value r = rat_of_nat (unat (m_integer a + m_integer b)) + frac_value (n1 + n2) L" by blast
  have "frac_value (n1 + n2) L = frac_value n1 L + frac_value n2 L"
    unfolding frac_value_def s of_nat_add by (rule add_divide_distrib)
  then have "Rational_value r = Rational_value a + Rational_value b" unfolding v r(3) i by simp
  then show ?thesis using r by (simp add: Rational_plus_def add_sub_valid[OF proper_valid[OF assms(1)] proper_valid[OF assms(2)]] Let_def L n)
qed

text \<open>Borrowing one from the integer part.\<close>

lemma frac_value_borrow:
  assumes "unat n1 < unat n2" "unat n2 < unat L" "2 * unat L \<le> 2 ^ 64"
  shows "unat (n1 + L - n2) < unat L" "frac_value (n1 + L - n2) L = frac_value n1 L + 1 - frac_value n2 L"
proof -
  have sm: "unat (n1 + L) = unat n1 + unat L" using assms by (intro unat_add_no_wrap) simp
  then have e: "unat (n1 + L - n2) = unat n1 + unat L - unat n2" using assms by (simp add: unat_sub_no_wrap)
  then show "unat (n1 + L - n2) < unat L" using assms by simp
  have "rat_of_nat (unat (n1 + L - n2)) = rat_of_nat (unat n1) + rat_of_nat (unat L) - rat_of_nat (unat n2)"
    using assms(2) unfolding e by (simp add: of_nat_diff del: of_nat_unat)
  then show "frac_value (n1 + L - n2) L = frac_value n1 L + 1 - frac_value n2 L"
    using assms unfolding frac_value_def by (simp add: add_divide_distrib diff_divide_distrib del: of_nat_unat)
qed

lemma Rational_value_nonneg: "0 \<le> Rational_value r"
  by (simp add: Rational_value_def frac_value_def del: of_nat_unat)

lemma Rational_minus_value:
  assumes "Rational_proper a" "Rational_proper b"
    and "2 * lcm (unat (m_denominator a)) (unat (m_denominator b)) \<le> 2 ^ 64"
  shows "(\<exists>r. Rational_minus a b = Some (Inr r) \<and> Rational_proper r \<and> Rational_value r = Rational_value a - Rational_value b)
    \<or> (Rational_value a < Rational_value b \<and> Rational_minus a b = Some (Inl negative_result))"
proof -
  let ?minus = "Rational_minus a b" and ?va = "Rational_value a" and ?vb = "Rational_value b"
  let ?i = "m_integer a - m_integer b"
  obtain L n1 n2 where L: "L = lcd_word (m_denominator a) (m_denominator b)"
    and n: "n1 = m_numerator a * (L div m_denominator a)" "n2 = m_numerator b * (L div m_denominator b)"
    and b: "L \<noteq> 0" "unat n1 < unat L" "unat n2 < unat L" "2 * unat L \<le> 2 ^ 64"
    and v: "?va = rat_of_nat (unat (m_integer a)) + frac_value n1 L" "?vb = rat_of_nat (unat (m_integer b)) + frac_value n2 L"
    by (rule common_form[OF assms])
  have fr: "0 \<le> frac_value n1 L \<and> frac_value n1 L < 1" "0 \<le> frac_value n2 L \<and> frac_value n2 L < 1"
    using frac_value_less b by (simp_all add: word_less_nat_alt)
  have code: "?minus = (if m_integer a < m_integer b then Some (Inl negative_result)
      else if n1 < n2 then (if ?i < 1 then Some (Inl negative_result) else Rational_init (?i - 1) (n1 + L - n2) L)
      else Rational_init ?i (n1 - n2) L)"
    by (simp add: Rational_minus_def add_sub_valid[OF proper_valid[OF assms(1)] proper_valid[OF assms(2)]] Let_def L n)
  show ?thesis
  proof (cases "m_integer a < m_integer b")
    case True
    then have "rat_of_nat (unat (m_integer a)) + 1 \<le> rat_of_nat (unat (m_integer b))"
      by (simp add: word_less_nat_alt del: of_nat_unat flip: of_nat_Suc)
    then have "?va < ?vb" using v fr by linarith
    then show ?thesis using True code by simp
  next
    case False
    then have ri: "rat_of_nat (unat ?i) = rat_of_nat (unat (m_integer a)) - rat_of_nat (unat (m_integer b))"
      by (simp add: unat_sub_no_wrap word_less_nat_alt not_less of_nat_diff del: of_nat_unat)
    consider "n1 < n2" "?i < 1" | "n1 < n2" "\<not> ?i < 1" | "\<not> n1 < n2" by blast
    then show ?thesis
    proof cases
      case 1
      then have "unat ?i = 0" by (simp add: word_less_nat_alt)
      then have "?va < ?vb" using ri frac_value_less_iff[OF b(1)] 1(1) v by simp
      then show ?thesis using False 1 code by simp
    next
      case 2
      then have i1: "unat (?i - 1) = unat ?i - 1" "1 \<le> unat ?i" by (simp_all add: unat_sub_no_wrap word_less_nat_alt)
      have lt: "unat n1 < unat n2" using 2(1) by (simp add: word_less_nat_alt)
      note bo = frac_value_borrow[OF lt b(3,4)]
      have "unat (?i - 1) + unat (n1 + L - n2) div unat L < 2 ^ 64" using bo(1) unat_u64_bound[of "?i - 1"] by simp
      from Rational_init_value[OF b(1) this] obtain r where
        r: "Rational_init (?i - 1) (n1 + L - n2) L = Some (Inr r)" "Rational_proper r"
        "Rational_value r = rat_of_nat (unat (?i - 1)) + frac_value (n1 + L - n2) L" by blast
      have "rat_of_nat (unat (?i - 1)) = rat_of_nat (unat ?i) - 1" using i1 by (simp add: of_nat_diff del: of_nat_unat)
      then have "Rational_value r = ?va - ?vb" unfolding r(3) v bo(2) using ri by linarith
      then show ?thesis using False 2 code r by simp
    next
      case 3
      then have le: "n2 \<le> n1" by simp
      then have "unat (n1 - n2) < unat L" using b(2) by (simp add: unat_sub_no_wrap word_le_nat_alt)
      then have "unat ?i + unat (n1 - n2) div unat L < 2 ^ 64" using unat_u64_bound[of ?i] by simp
      from Rational_init_value[OF b(1) this] obtain r where
        r: "Rational_init ?i (n1 - n2) L = Some (Inr r)" "Rational_proper r"
        "Rational_value r = rat_of_nat (unat ?i) + frac_value (n1 - n2) L" by blast
      have "Rational_value r = ?va - ?vb" unfolding r(3) v ri frac_value_diff[OF le] by simp
      then show ?thesis using False 3 code r by simp
    qed
  qed
qed

text \<open>Sums and differences are exact.  For reduced fractions whose common denominator
  leaves a bit to spare and whose integer parts do not overflow, the sum is the reduced fraction of the
  sum of the values; the difference that of the difference, and an exception exactly when it would be
  negative.\<close>

theorem Rational_add_sub_value:
  assumes "Rational_proper a" "Rational_proper b"
    and "2 * lcm (unat (m_denominator a)) (unat (m_denominator b)) \<le> 2 ^ 64"
    and "unat (m_integer a) + unat (m_integer b) + 1 < 2 ^ 64"
  shows "(\<exists>r. Rational_plus a b = Some (Inr r) \<and> Rational_proper r \<and> Rational_value r = Rational_value a + Rational_value b)
    \<and> (Rational_value b \<le> Rational_value a \<longrightarrow>
        (\<exists>r. Rational_minus a b = Some (Inr r) \<and> Rational_proper r \<and> Rational_value r = Rational_value a - Rational_value b))
    \<and> (Rational_value a < Rational_value b \<longrightarrow> Rational_minus a b = Some (Inl negative_result))"
  using Rational_plus_value[OF assms] Rational_minus_value[OF assms(1-3)] Rational_value_nonneg
  by (metis diff_ge_0_iff_ge linorder_not_less)

theorem Rational_add_sub_value_witness:
  "let a = \<lparr>m_integer = 1, m_numerator = 1, m_denominator = 6\<rparr>; b = \<lparr>m_integer = 0, m_numerator = 3, m_denominator = 4\<rparr>
   in (\<exists>r. Rational_minus a b = Some (Inr r) \<and> Rational_value r = 5 / 12) \<and> Rational_minus b a = Some (Inl negative_result)"
proof -
  let ?a = "\<lparr>m_integer = 1, m_numerator = 1, m_denominator = 6\<rparr>" and ?b = "\<lparr>m_integer = 0, m_numerator = 3, m_denominator = 4\<rparr>"
  have l: "lcm (6 :: nat) 4 = 12" "lcm (4 :: nat) 6 = 12" by (simp_all add: lcm_nat_def gcd_non_0_nat)
  have "coprime (3 :: nat) 4" by (simp add: coprime_iff_gcd_eq_1 gcd_non_0_nat)
  then have p: "Rational_proper ?a" "Rational_proper ?b" by (simp_all add: Rational_proper_def)
  have v: "Rational_value ?a = 7 / 6" "Rational_value ?b = 3 / 4" by (simp_all add: Rational_value_def frac_value_def)
  show ?thesis
    using Rational_add_sub_value[OF p] Rational_add_sub_value[OF p(2,1)] v l by auto
qed

lemma integer_parts_decide:
  assumes "0 \<le> f" "f < 1" "0 \<le> g" "g < (1 :: rat)" "i \<noteq> j"
  shows "rat_of_nat (unat i) + f < rat_of_nat (unat j) + g \<longleftrightarrow> i < (j :: u64)"
    and "rat_of_nat (unat i) + f \<noteq> rat_of_nat (unat j) + g"
proof -
  consider "unat i + 1 \<le> unat j" "i < j" | "unat j + 1 \<le> unat i" "\<not> i < j"
    using assms(5) by (cases "unat i < unat j") (auto simp: word_less_nat_alt word_eq_unat)
  then have "(i < j \<and> rat_of_nat (unat i) + 1 \<le> rat_of_nat (unat j)) \<or> (\<not> i < j \<and> rat_of_nat (unat j) + 1 \<le> rat_of_nat (unat i))"
    by cases (simp_all del: of_nat_unat flip: of_nat_Suc)
  then show "rat_of_nat (unat i) + f < rat_of_nat (unat j) + g \<longleftrightarrow> i < j" "rat_of_nat (unat i) + f \<noteq> rat_of_nat (unat j) + g"
    using assms by linarith+
qed

lemma Rational_less_iff:
  assumes "Rational_proper a" "Rational_proper b"
    and "2 * lcm (unat (m_denominator a)) (unat (m_denominator b)) \<le> 2 ^ 64"
  shows "Rational_less a b = Some (Rational_value a < Rational_value b)"
proof -
  obtain L n1 n2 where L: "L = lcd_word (m_denominator a) (m_denominator b)"
    and n: "n1 = m_numerator a * (L div m_denominator a)" "n2 = m_numerator b * (L div m_denominator b)"
    and b: "L \<noteq> 0" "unat n1 < unat L" "unat n2 < unat L"
    and v: "Rational_value a = rat_of_nat (unat (m_integer a)) + frac_value n1 L"
      "Rational_value b = rat_of_nat (unat (m_integer b)) + frac_value n2 L"
    by (rule common_form[OF assms])
  have fr: "0 \<le> frac_value n1 L" "frac_value n1 L < 1" "0 \<le> frac_value n2 L" "frac_value n2 L < 1"
    using frac_value_less b by (simp_all add: word_less_nat_alt)
  have code: "Rational_less a b = Some (if m_integer a = m_integer b then n1 < n2 else m_integer a < m_integer b)"
    by (simp add: less_valid[OF proper_valid[OF assms(1)] proper_valid[OF assms(2)]] L n)
  show ?thesis
  proof (cases "m_integer a = m_integer b")
    case True
    then show ?thesis using code v frac_value_less_iff[OF b(1)] by simp
  next
    case False
    then show ?thesis using code v integer_parts_decide(1)[OF fr False] by simp
  qed
qed

lemma Rational_eq_iff:
  assumes "Rational_proper a" "Rational_proper b" "m_numerator a \<noteq> 0"
  shows "Rational_eq a b \<longleftrightarrow> Rational_value a = Rational_value b"
proof
  assume v: "Rational_value a = Rational_value b"
  have lt: "m_numerator a < m_denominator a" "m_numerator b < m_denominator b"
    using assms(1,2) by (simp_all add: Rational_proper_def)
  note fa = frac_value_less[OF lt(1)] and fb = frac_value_less[OF lt(2)]
  have i: "m_integer a = m_integer b"
    using integer_parts_decide(2)[of "frac_value (m_numerator a) (m_denominator a)" "frac_value (m_numerator b) (m_denominator b)"] fa fb v
    unfolding Rational_value_def by blast
  then have f: "frac_value (m_numerator a) (m_denominator a) = frac_value (m_numerator b) (m_denominator b)"
    using v by (simp add: Rational_value_def)
  let ?na = "unat (m_numerator a)" and ?da = "unat (m_denominator a)" and ?nb = "unat (m_numerator b)" and ?db = "unat (m_denominator b)"
  have d: "0 < ?da" "0 < ?db" using Rational_properD assms(1,2) by blast+
  have "rat_of_nat ?na * rat_of_nat ?db = rat_of_nat ?nb * rat_of_nat ?da"
    using f d unfolding frac_value_def by (simp add: frac_eq_eq del: of_nat_unat)
  then have x: "?na * ?db = ?nb * ?da" by (simp only: of_nat_mult[symmetric] of_nat_eq_iff)
  have na: "0 < ?na" using assms(3) by (simp add: word_eq_unat)
  then have "0 < ?nb" using x d by (metis mult_is_0 neq0_conv)
  then have "coprime ?na ?da" "coprime ?nb ?db"
    using assms na by (simp_all add: Rational_proper_def word_eq_unat)
  then have "?na = ?nb \<and> ?db = ?da" using coprime_crossproduct_nat[of ?na ?da ?nb ?db] x by (simp add: coprime_commute)
  then show "Rational_eq a b" using i by (simp add: Rational_eq_def word_eq_unat)
qed (simp add: Rational_eq_def Rational_value_def)

text \<open>Products and quotients.\<close>

definition Rational_top :: "Rational \<Rightarrow> nat" where
  "Rational_top r = unat (m_integer r) * unat (m_denominator r) + unat (m_numerator r)"

lemma Rational_top_value:
  "Rational_proper r \<Longrightarrow> Rational_value r = rat_of_nat (Rational_top r) / rat_of_nat (unat (m_denominator r))"
  using Rational_properD(2)[of r]
  by (simp add: Rational_value_def frac_value_def Rational_top_def add_divide_distrib del: of_nat_unat)

lemma Rational_top_word:
  assumes "Rational_top r < 2 ^ 64"
  shows "unat (m_integer r * m_denominator r + m_numerator r) = Rational_top r"
proof -
  have "unat (m_integer r) * unat (m_denominator r) < 2 ^ LENGTH(64)" using assms by (simp add: Rational_top_def)
  from unat_mult_no_wrap[OF this] show ?thesis
    using assms by (simp add: Rational_top_def unat_add_no_wrap)
qed

text \<open>A fraction of two products from which common factors were removed.\<close>

lemma reduced_products:
  assumes "unat x * unat y = g * (unat p * unat q)" "unat u * unat v = g * (unat r * unat s)" "0 < g"
    and "unat x * unat y < 2 ^ 64" "unat u * unat v < 2 ^ 64" "r \<noteq> 0" "s \<noteq> 0"
  shows "\<exists>z. Rational_init 0 (p * q) (r * s) = Some (Inr z) \<and> Rational_proper z
    \<and> Rational_value z = (rat_of_nat (unat x) * rat_of_nat (unat y)) / (rat_of_nat (unat u) * rat_of_nat (unat v))"
proof -
  have le: "n \<le> g * n" for n using assms(3) by (cases g) simp_all
  have "unat p * unat q < 2 ^ LENGTH(64)" by (rule le_less_trans[OF le]) (use assms(1,4) in simp)
  moreover have "unat r * unat s < 2 ^ LENGTH(64)" by (rule le_less_trans[OF le]) (use assms(2,5) in simp)
  ultimately have "unat p * unat q < 2 ^ LENGTH(64)" "unat r * unat s < 2 ^ LENGTH(64)" .
  note m = this[THEN unat_mult_no_wrap]
  have rs: "r * s \<noteq> 0" using m(2) assms(6,7) by (auto simp: word_eq_unat)
  have "unat (0 :: u64) + unat (p * q) div unat (r * s) < 2 ^ 64"
    using unat_u64_bound[of "p * q div (r * s)"] by (simp add: unat_div_word)
  from Rational_init_value[OF rs this] obtain z where
    z: "Rational_init 0 (p * q) (r * s) = Some (Inr z)" "Rational_proper z" "Rational_value z = frac_value (p * q) (r * s)" by auto
  have "frac_value (p * q) (r * s) = rat_of_nat (g * (unat p * unat q)) / rat_of_nat (g * (unat r * unat s))"
    using assms(3) unfolding frac_value_def m by (simp del: of_nat_unat)
  then show ?thesis using z unfolding assms(1,2)[symmetric] by (simp del: of_nat_unat)
qed

lemma Rational_parts:
  assumes "Rational_proper r" "Rational_top r < 2 ^ 64"
  shows "m_denominator r \<noteq> 0"
    and "Rational_value r = rat_of_nat (unat (m_integer r * m_denominator r + m_numerator r)) / rat_of_nat (unat (m_denominator r))"
    and "Rational_value r = 0 \<longleftrightarrow> m_integer r * m_denominator r + m_numerator r = 0"
proof -
  have d: "0 < unat (m_denominator r)" using Rational_properD(2)[OF assms(1)] .
  then show "m_denominator r \<noteq> 0" by (auto simp: word_eq_unat)
  show v: "Rational_value r = rat_of_nat (unat (m_integer r * m_denominator r + m_numerator r)) / rat_of_nat (unat (m_denominator r))"
    unfolding Rational_top_word[OF assms(2)] by (rule Rational_top_value[OF assms(1)])
  show "Rational_value r = 0 \<longleftrightarrow> m_integer r * m_denominator r + m_numerator r = 0"
    unfolding v using d by (simp add: word_eq_unat del: of_nat_unat)
qed

lemma Rational_times_value:
  assumes "Rational_proper a" "Rational_proper b" "Rational_top a < 2 ^ 64" "Rational_top b < 2 ^ 64"
    and "Rational_top a * Rational_top b < 2 ^ 64" "unat (m_denominator a) * unat (m_denominator b) < 2 ^ 64"
  shows "\<exists>r. Rational_times a b = Some (Inr r) \<and> Rational_proper r \<and> Rational_value r = Rational_value a * Rational_value b"
proof -
  let ?n1 = "m_integer a * m_denominator a + m_numerator a" and ?d1 = "m_denominator a"
  let ?n2 = "m_integer b * m_denominator b + m_numerator b" and ?d2 = "m_denominator b"
  note A = Rational_parts[OF assms(1,3)] and B = Rational_parts[OF assms(2,4)]
  note n = Rational_top_word[OF assms(3)] Rational_top_word[OF assms(4)]
  obtain p1 q2 g where x: "reduce ?n1 ?d2 = Some (Inr (p1, q2))" "0 < g" "unat ?n1 = g * unat p1" "unat ?d2 = g * unat q2" "q2 \<noteq> 0"
    using reduce_spec[OF B(1), of ?n1] by blast
  obtain p2 q1 h where y: "reduce ?n2 ?d1 = Some (Inr (p2, q1))" "0 < h" "unat ?n2 = h * unat p2" "unat ?d1 = h * unat q1" "q1 \<noteq> 0"
    using reduce_spec[OF A(1), of ?n2] by blast
  have e: "unat ?n1 * unat ?n2 = g * h * (unat p1 * unat p2)" "unat ?d1 * unat ?d2 = g * h * (unat q1 * unat q2)" "0 < g * h"
    using x(2) y(2) unfolding x(3,4) y(3,4) by (simp_all only: ac_simps nat_0_less_mult_iff)
  have bounds: "unat ?n1 * unat ?n2 < 2 ^ 64" "unat ?d1 * unat ?d2 < 2 ^ 64" unfolding n by (rule assms(5,6))+
  obtain r where r: "Rational_init 0 (p1 * p2) (q1 * q2) = Some (Inr r)" "Rational_proper r"
    "Rational_value r = (rat_of_nat (unat ?n1) * rat_of_nat (unat ?n2)) / (rat_of_nat (unat ?d1) * rat_of_nat (unat ?d2))"
    using reduced_products[OF e bounds y(5) x(5)] by blast
  have "Rational_value r = Rational_value a * Rational_value b" unfolding A(2) B(2) r(3) by simp
  moreover have "Rational_times a b = Some (Inr r)" using x(1) y(1) r(1) by (simp add: Rational_times_def mul_div_def Let_def)
  ultimately show ?thesis using r(2) by blast
qed

lemma Rational_divide_value:
  assumes "Rational_proper a" "Rational_proper b" "Rational_top a < 2 ^ 64" "Rational_top b < 2 ^ 64" "Rational_value b \<noteq> 0"
    and "Rational_top a * unat (m_denominator b) < 2 ^ 64" "unat (m_denominator a) * Rational_top b < 2 ^ 64"
  shows "\<exists>r. Rational_divide a b = Some (Inr r) \<and> Rational_proper r \<and> Rational_value r = Rational_value a / Rational_value b"
proof -
  let ?n1 = "m_integer a * m_denominator a + m_numerator a" and ?d1 = "m_denominator a"
  let ?n2 = "m_integer b * m_denominator b + m_numerator b" and ?d2 = "m_denominator b"
  note A = Rational_parts[OF assms(1,3)] and B = Rational_parts[OF assms(2,4)]
  note n = Rational_top_word[OF assms(3)] Rational_top_word[OF assms(4)]
  have n2: "?n2 \<noteq> 0" using assms(5) B(3) by simp
  obtain p1 p2 g where x: "reduce ?n1 ?n2 = Some (Inr (p1, p2))" "0 < g" "unat ?n1 = g * unat p1" "unat ?n2 = g * unat p2" "p2 \<noteq> 0"
    using reduce_spec[OF n2, of ?n1] by blast
  obtain q1 q2 h where y: "reduce ?d1 ?d2 = Some (Inr (q1, q2))" "0 < h" "unat ?d1 = h * unat q1" "unat ?d2 = h * unat q2"
    using reduce_spec[OF B(1), of ?d1] by blast
  have q1: "q1 \<noteq> 0" using y(3) A(1) by (auto simp: word_eq_unat)
  have e: "unat ?n1 * unat ?d2 = g * h * (unat p1 * unat q2)" "unat ?d1 * unat ?n2 = g * h * (unat q1 * unat p2)" "0 < g * h"
    using x(2) y(2) unfolding x(3,4) y(3,4) by (simp_all only: ac_simps nat_0_less_mult_iff)
  have bounds: "unat ?n1 * unat ?d2 < 2 ^ 64" "unat ?d1 * unat ?n2 < 2 ^ 64" unfolding n by (rule assms(6,7))+
  obtain r where r: "Rational_init 0 (p1 * q2) (q1 * p2) = Some (Inr r)" "Rational_proper r"
    "Rational_value r = (rat_of_nat (unat ?n1) * rat_of_nat (unat ?d2)) / (rat_of_nat (unat ?d1) * rat_of_nat (unat ?n2))"
    using reduced_products[OF e bounds q1 x(5)] by blast
  have "Rational_value r = Rational_value a / Rational_value b" unfolding A(2) B(2) r(3) by simp
  moreover have "Rational_divide a b = Some (Inr r)" using x(1) y(1) r(1) by (simp add: Rational_divide_def mul_div_def Let_def)
  ultimately show ?thesis using r(2) by blast
qed

lemma Rational_divide_by_zero:
  assumes "Rational_proper a" "Rational_proper b" "Rational_top a < 2 ^ 64" "Rational_top b < 2 ^ 64" "Rational_value b = 0"
  shows "\<exists>e. Rational_divide a b = Some (Inl e)"
proof -
  note B = Rational_parts[OF assms(2,4)]
  obtain q1 q2 where y: "reduce (m_denominator a) (m_denominator b) = Some (Inr (q1, q2))"
    using reduce_spec[OF B(1)] by blast
  have "m_integer b * m_denominator b + m_numerator b = 0" using assms(5) B(3) by simp
  then show ?thesis
    using y by (auto simp: Rational_divide_def mul_div_def Let_def reduce_def Rational_init_def split: if_splits)
qed

text \<open>Products and quotients are exact.  For reduced fractions whose improper numerators
  and products fit into 64 bits, the product is the reduced fraction of the product of the values, the
  quotient that of the quotient; and dividing by zero is an exception.\<close>

theorem Rational_mul_div_value:
  assumes "Rational_proper a" "Rational_proper b" "Rational_top a < 2 ^ 64" "Rational_top b < 2 ^ 64"
  shows "(Rational_top a * Rational_top b < 2 ^ 64 \<and> unat (m_denominator a) * unat (m_denominator b) < 2 ^ 64 \<longrightarrow>
      (\<exists>r. Rational_times a b = Some (Inr r) \<and> Rational_proper r \<and> Rational_value r = Rational_value a * Rational_value b))
    \<and> (Rational_value b \<noteq> 0 \<and> Rational_top a * unat (m_denominator b) < 2 ^ 64
        \<and> unat (m_denominator a) * Rational_top b < 2 ^ 64 \<longrightarrow>
      (\<exists>r. Rational_divide a b = Some (Inr r) \<and> Rational_proper r \<and> Rational_value r = Rational_value a / Rational_value b))
    \<and> (Rational_value b = 0 \<longrightarrow> (\<exists>e. Rational_divide a b = Some (Inl e)))"
  using Rational_times_value[OF assms] Rational_divide_value[OF assms] Rational_divide_by_zero[OF assms] by blast

theorem Rational_mul_div_value_witness:
  "let a = \<lparr>m_integer = 1, m_numerator = 1, m_denominator = 6\<rparr>; b = \<lparr>m_integer = 0, m_numerator = 3, m_denominator = 4\<rparr>
   in (\<exists>r. Rational_times a b = Some (Inr r) \<and> Rational_value r = 7 / 8)
    \<and> (\<exists>r. Rational_divide a b = Some (Inr r) \<and> Rational_value r = 14 / 9)"
proof -
  let ?a = "\<lparr>m_integer = 1, m_numerator = 1, m_denominator = 6\<rparr>" and ?b = "\<lparr>m_integer = 0, m_numerator = 3, m_denominator = 4\<rparr>"
  have "coprime (3 :: nat) 4" by (simp add: coprime_iff_gcd_eq_1 gcd_non_0_nat)
  then have p: "Rational_proper ?a" "Rational_proper ?b" by (simp_all add: Rational_proper_def)
  have v: "Rational_value ?a = 7 / 6" "Rational_value ?b = 3 / 4" by (simp_all add: Rational_value_def frac_value_def)
  show ?thesis using Rational_mul_div_value[OF p] v by (auto simp: Rational_top_def)
qed

text \<open>Comparing fractions compares their values.  For proper fractions whose common
  denominator leaves a bit to spare the order is that of the values, and equality is that of the values
  when the fractional part is not zero.\<close>

theorem Rational_order_value:
  assumes "Rational_proper a" "Rational_proper b"
    and "2 * lcm (unat (m_denominator a)) (unat (m_denominator b)) \<le> 2 ^ 64"
  shows "Rational_less a b = Some (Rational_value a < Rational_value b)
    \<and> Rational_less_eq a b = Some (Rational_value a \<le> Rational_value b)
    \<and> (m_numerator a \<noteq> 0 \<longrightarrow> (Rational_eq a b \<longleftrightarrow> Rational_value a = Rational_value b))"
  using Rational_less_iff[OF assms] Rational_less_iff[OF assms(2,1)] assms Rational_eq_iff[OF assms(1,2)]
  by (auto simp: Rational_less_eq_def lcm.commute)

theorem Rational_order_value_witness:
  "let a = \<lparr>m_integer = 1, m_numerator = 1, m_denominator = 6\<rparr>; b = \<lparr>m_integer = 1, m_numerator = 3, m_denominator = 4\<rparr>
   in Rational_less a b = Some True \<and> Rational_less_eq b a = Some False \<and> \<not> Rational_eq a b"
proof -
  let ?a = "\<lparr>m_integer = 1, m_numerator = 1, m_denominator = 6\<rparr>" and ?b = "\<lparr>m_integer = 1, m_numerator = 3, m_denominator = 4\<rparr>"
  have l: "lcm (6 :: nat) 4 = 12" "lcm (4 :: nat) 6 = 12" by (simp_all add: lcm_nat_def gcd_non_0_nat)
  have "coprime (3 :: nat) 4" by (simp add: coprime_iff_gcd_eq_1 gcd_non_0_nat)
  then have p: "Rational_proper ?a" "Rational_proper ?b" by (simp_all add: Rational_proper_def)
  have v: "Rational_value ?a = 7 / 6" "Rational_value ?b = 7 / 4" by (simp_all add: Rational_value_def frac_value_def)
  show ?thesis
    using Rational_order_value[OF p] Rational_order_value[OF p(2,1)] v l by (auto simp: Let_def)
qed

text \<open>A zero is not brought to the denominator 1, so that it may differ from the default zero.\<close>

lemma half_minus_half_is_not_zero:
  "\<exists>h z. Rational_init 0 1 2 = Some (Inr h) \<and> Rational_minus h h = Some (Inr z) \<and> \<not> Rational_eq z (Rational_of 0)
    \<and> Rational_eq_int z 0"
proof -
  have two: "reduce_two 1 2 0 = Some (1, 2, 0)" "reduce_two 2 2 0 = Some (1, 1, 1)"
    by (subst reduce_two.simps, simp)+
  let ?h = "\<lparr>m_integer = 0, m_numerator = 1, m_denominator = 2\<rparr>"
  have g: "Rational_gcd 1 2 = 1" "Rational_gcd 2 2 = 2" by (simp_all add: Rational_gcd_def gcd_loop.simps)
  have h: "Rational_init 0 1 2 = Some (Inr ?h)"
    by (simp add: Rational_init_def reduce_def two g)
  have "Rational_minus ?h ?h = Some (Inr \<lparr>m_integer = 0, m_numerator = 0, m_denominator = 2\<rparr>)"
    by (simp add: Rational_minus_def add_sub_def Rational_lcd_def g Rational_init_def reduce_def)
  then show ?thesis using h by (auto simp: Rational_eq_def Rational_of_def Rational_eq_int_def)
qed

end
