(* ===== verification/Static_Rcu.thy ===== *)
theory Static_Rcu
  imports Prelude
begin

text \<open>
  The read-copy-update cell of \<^verbatim>\<open>services/utils/static_rcu.h\<close>: a ring of versions, the index of the current one,
  one writer and any number of readers without locks.  Sequentially it is a register; concurrently the
  writer's stores and the readers' loads interleave, which the step relation below makes explicit.  A
  reader holds a reference into the ring, so a version may be overwritten under it: the safety property
  says how many updates a reader survives.
\<close>

section \<open>The class\<close>

text \<open>The version pointers are indices of the buffer; a buffer entry that is being copied is \<open>None\<close>.\<close>

record 'v StaticRCU =
  m_buffer :: "nat \<Rightarrow> 'v option"
  m_versions :: "nat \<Rightarrow> nat"
  m_current_index :: nat

definition StaticRCU_new :: "'v \<Rightarrow> 'v StaticRCU" where
  "StaticRCU_new initial = \<lparr>m_buffer = (\<lambda>_. Some initial), m_versions = (\<lambda>i. i), m_current_index = 0\<rparr>"

definition rcu_read :: "'v StaticRCU \<Rightarrow> 'v option" where
  "rcu_read s = m_buffer s (m_versions s (m_current_index s))"

definition rcu_new_index :: "nat \<Rightarrow> 'v StaticRCU \<Rightarrow> nat" where
  "rcu_new_index num_versions s = (m_current_index s + 1) mod num_versions"

text \<open>The four steps of an update: the copy into the buffer begins and ends, the version pointer and the
  current index are stored.\<close>

definition rcu_copy_begin :: "nat \<Rightarrow> 'v StaticRCU \<Rightarrow> 'v StaticRCU" where
  "rcu_copy_begin i s = s\<lparr>m_buffer := (m_buffer s)(i := None)\<rparr>"

definition rcu_copy_end :: "nat \<Rightarrow> 'v \<Rightarrow> 'v StaticRCU \<Rightarrow> 'v StaticRCU" where
  "rcu_copy_end i v s = s\<lparr>m_buffer := (m_buffer s)(i \<mapsto> v)\<rparr>"

definition rcu_store_version :: "nat \<Rightarrow> 'v StaticRCU \<Rightarrow> 'v StaticRCU" where
  "rcu_store_version i s = s\<lparr>m_versions := (m_versions s)(i := i)\<rparr>"

definition rcu_publish :: "nat \<Rightarrow> 'v StaticRCU \<Rightarrow> 'v StaticRCU" where
  "rcu_publish i s = s\<lparr>m_current_index := i\<rparr>"

definition rcu_update :: "nat \<Rightarrow> 'v \<Rightarrow> 'v StaticRCU \<Rightarrow> 'v StaticRCU" where
  "rcu_update num_versions v s =
    (let i = rcu_new_index num_versions s
     in rcu_publish i (rcu_store_version i (rcu_copy_end i v (rcu_copy_begin i s))))"

lemmas rcu_steps = rcu_copy_begin_def rcu_copy_end_def rcu_store_version_def rcu_publish_def

section \<open>Used by one thread\<close>

text \<open>The contract a client relies on that reads and updates a shared value.\<close>

locale shared_register =
  fixes create :: "'v \<Rightarrow> 's" and get :: "'s \<Rightarrow> 'v option" and put :: "'v \<Rightarrow> 's \<Rightarrow> 's"
  assumes get_create: "get (create v) = Some v" and get_put: "get (put v s) = Some v"
begin

lemma get_after: "get (fold put vs (create v)) = Some (last (v # vs))"
  by (induction vs rule: rev_induct) (simp_all add: get_create get_put)

end

interpretation rcu_cell: shared_register StaticRCU_new rcu_read "rcu_update num_versions" for num_versions
  by unfold_locales (simp_all add: StaticRCU_new_def rcu_read_def rcu_update_def rcu_steps Let_def)

section \<open>Used by a writer and readers\<close>

datatype 'v writer_state = Writer_idle | Copying nat 'v | Copied nat | Version_stored nat

datatype reader_state = Reader_idle | Index_loaded nat | Reference nat

text \<open>The shared object with the state of the writer and of the readers.  The last fields are history: all
  versions, from the initial one to those whose update has begun, how many of them were published, and
  for each reader the number of the version that was current when it loaded the index.\<close>

record 'v rcu_system =
  cell :: "'v StaticRCU"
  writer :: "'v writer_state"
  reader :: "nat \<Rightarrow> reader_state"
  begun :: "'v list"
  published :: nat
  loaded :: "nat \<Rightarrow> nat"

inductive rcu_step :: "nat \<Rightarrow> 'v rcu_system \<Rightarrow> 'v rcu_system \<Rightarrow> bool" for num_versions where
  step_copy_begin: "writer c = Writer_idle \<Longrightarrow> i = rcu_new_index num_versions (cell c) \<Longrightarrow>
    rcu_step num_versions c (c\<lparr>cell := rcu_copy_begin i (cell c), writer := Copying i v, begun := begun c @ [v]\<rparr>)"
| step_copy_end: "writer c = Copying i v \<Longrightarrow>
    rcu_step num_versions c (c\<lparr>cell := rcu_copy_end i v (cell c), writer := Copied i\<rparr>)"
| step_store_version: "writer c = Copied i \<Longrightarrow>
    rcu_step num_versions c (c\<lparr>cell := rcu_store_version i (cell c), writer := Version_stored i\<rparr>)"
| step_publish: "writer c = Version_stored i \<Longrightarrow>
    rcu_step num_versions c (c\<lparr>cell := rcu_publish i (cell c), writer := Writer_idle, published := published c + 1\<rparr>)"
| step_load_index: "
    rcu_step num_versions c (c\<lparr>reader := (reader c)(r := Index_loaded (m_current_index (cell c))),
                               loaded := (loaded c)(r := published c)\<rparr>)"
| step_load_version: "reader c r = Index_loaded i \<Longrightarrow>
    rcu_step num_versions c (c\<lparr>reader := (reader c)(r := Reference (m_versions (cell c) i))\<rparr>)"

inductive rcu_reachable :: "nat \<Rightarrow> 'v \<Rightarrow> 'v rcu_system \<Rightarrow> bool" for num_versions initial where
  rcu_start: "rcu_reachable num_versions initial
    \<lparr>cell = StaticRCU_new initial, writer = Writer_idle, reader = (\<lambda>_. Reader_idle), begun = [initial],
     published = 0, loaded = (\<lambda>_. 0)\<rparr>"
| rcu_next: "rcu_reachable num_versions initial c \<Longrightarrow> rcu_step num_versions c c' \<Longrightarrow> rcu_reachable num_versions initial c'"

text \<open>The number of the update in progress, or of the last one.\<close>

abbreviation newest :: "'v rcu_system \<Rightarrow> nat" where
  "newest c \<equiv> length (begun c) - 1"

definition writer_ok :: "nat \<Rightarrow> 'v rcu_system \<Rightarrow> bool" where
  "writer_ok n c \<longleftrightarrow> (case writer c of
      Writer_idle \<Rightarrow> newest c = published c
    | Copying i v \<Rightarrow> newest c = published c + 1 \<and> i = newest c mod n \<and> v = last (begun c)
    | Copied i \<Rightarrow> newest c = published c + 1 \<and> i = newest c mod n
        \<and> m_buffer (cell c) i = Some (last (begun c))
    | Version_stored i \<Rightarrow> newest c = published c + 1 \<and> i = newest c mod n
        \<and> m_buffer (cell c) i = Some (last (begun c)))"

text \<open>Every published version among the last \<open>n\<close> begun ones is intact in its slot.\<close>

definition versions_intact :: "nat \<Rightarrow> 'v rcu_system \<Rightarrow> bool" where
  "versions_intact n c \<longleftrightarrow>
    (\<forall>k\<le>published c. newest c < k + n \<longrightarrow> m_buffer (cell c) (k mod n) = Some (begun c ! k))"

definition reader_ok :: "nat \<Rightarrow> 'v rcu_system \<Rightarrow> nat \<Rightarrow> bool" where
  "reader_ok n c r \<longleftrightarrow> loaded c r \<le> published c \<and> (case reader c r of Reader_idle \<Rightarrow> True
     | Index_loaded i \<Rightarrow> i = loaded c r mod n | Reference i \<Rightarrow> i = loaded c r mod n)"

definition rcu_inv :: "nat \<Rightarrow> 'v rcu_system \<Rightarrow> bool" where
  "rcu_inv n c \<longleftrightarrow> begun c \<noteq> [] \<and> m_versions (cell c) = (\<lambda>i. i) \<and> m_current_index (cell c) = published c mod n
     \<and> writer_ok n c \<and> versions_intact n c \<and> (\<forall>r. reader_ok n c r)"

lemma rcu_invD:
  assumes "rcu_inv n c"
  shows "begun c \<noteq> []" "m_versions (cell c) i = i" "m_current_index (cell c) = published c mod n"
    "writer_ok n c" "versions_intact n c" "reader_ok n c r"
  using assms unfolding rcu_inv_def by simp_all

lemma reader_ok_mono:
  "reader c' r = reader c r \<Longrightarrow> loaded c' r = loaded c r \<Longrightarrow> published c \<le> published c' \<Longrightarrow> reader_ok n c r \<Longrightarrow> reader_ok n c' r"
  by (auto simp: reader_ok_def split: reader_state.splits)

lemma writer_ok_cong:
  "writer c' = writer c \<Longrightarrow> begun c' = begun c \<Longrightarrow> published c' = published c \<Longrightarrow> cell c' = cell c \<Longrightarrow>
   writer_ok n c' = writer_ok n c"
  by (simp add: writer_ok_def split: writer_state.split)

lemma rcu_invI:
  assumes "rcu_inv n c" "begun c' \<noteq> []" "m_versions (cell c') = m_versions (cell c)"
    "m_current_index (cell c') = published c' mod n" "writer_ok n c'" "versions_intact n c'"
    "reader c' = reader c" "loaded c' = loaded c" "published c \<le> published c'"
  shows "rcu_inv n c'"
  using assms reader_ok_mono[of c' _ c n] unfolding rcu_inv_def by metis

lemma rcu_inv_readerI:
  assumes "rcu_inv n c" and same: "cell c' = cell c" "writer c' = writer c" "begun c' = begun c" "published c' = published c"
    and r: "reader_ok n c' r" and other: "\<And>q. q \<noteq> r \<Longrightarrow> reader c' q = reader c q \<and> loaded c' q = loaded c q"
  shows "rcu_inv n c'"
proof -
  have "reader_ok n c' q" for q
  proof (cases "q = r")
    case False
    then show ?thesis
      using other[OF False] same(4) rcu_invD(6)[OF assms(1), of q] by (intro reader_ok_mono[of c' q c n]) simp_all
  qed (use r in simp)
  then show ?thesis
    using assms(1) writer_ok_cong[OF same(2,3,4,1), of n] by (simp add: rcu_inv_def versions_intact_def same)
qed

lemma mod_window:
  assumes "k \<le> b" "b < k + n" "k mod n = b mod (n :: nat)"
  shows "k = b"
proof -
  have "n dvd b - k" using assms(1,3) by (metis mod_eq_dvd_iff_nat)
  then show ?thesis using assms(1,2) by (auto dest: dvd_imp_le simp: nat_dvd_not_less)
qed

lemma overwrite_intact:
  assumes "versions_intact n c" "newest c = b \<or> newest c + 1 = b" "published c < b" "length (begun c') = Suc b"
    and "\<And>k. k \<le> published c \<Longrightarrow> begun c' ! k = begun c ! k" "published c' = published c"
    and "m_buffer (cell c') = (m_buffer (cell c))(b mod n := x)"
  shows "versions_intact n c'"
  unfolding versions_intact_def
proof (intro allI impI)
  fix k assume k: "k \<le> published c'" "newest c' < k + n"
  then have "k mod n \<noteq> b mod n" using mod_window[of k b n] assms(3,4,6) by auto
  moreover have "m_buffer (cell c) (k mod n) = Some (begun c ! k)"
    using assms(1,2,4,6) k by (auto simp: versions_intact_def)
  ultimately show "m_buffer (cell c') (k mod n) = Some (begun c' ! k)" using assms(5,6,7) k by simp
qed

lemma rcu_step_inv: "rcu_step n c c' \<Longrightarrow> 0 < n \<Longrightarrow> rcu_inv n c \<Longrightarrow> rcu_inv n c'"
proof (induction rule: rcu_step.induct)
  case (step_copy_begin c i v)
  let ?c' = "c\<lparr>cell := rcu_copy_begin i (cell c), writer := Copying i v, begun := begun c @ [v]\<rparr>"
  have w: "newest c = published c" and ne: "begun c \<noteq> []" and ci: "m_current_index (cell c) = published c mod n"
    using step_copy_begin by (auto simp: rcu_inv_def writer_ok_def)
  have len: "length (begun c) = Suc (published c)" using w ne by (cases "begun c") auto
  have i: "i = Suc (published c) mod n"
    using step_copy_begin.hyps(2) by (simp add: rcu_new_index_def ci mod_Suc_eq)
  have "versions_intact n ?c'"
    by (rule overwrite_intact[where c = c and b = "Suc (published c)" and x = None])
       (use step_copy_begin.prems w len i in \<open>auto simp: rcu_inv_def rcu_copy_begin_def nth_append\<close>)
  then show ?case
    by (rule rcu_invI[OF step_copy_begin.prems(2), rotated 4])
       (simp_all add: step_copy_begin.prems(2)[unfolded rcu_inv_def] writer_ok_def rcu_copy_begin_def len i)
next
  case (step_copy_end c i v)
  let ?c' = "c\<lparr>cell := rcu_copy_end i v (cell c), writer := Copied i\<rparr>"
  have w: "newest c = Suc (published c)" "i = newest c mod n" "v = last (begun c)" and ne: "begun c \<noteq> []"
    using step_copy_end by (auto simp: rcu_inv_def writer_ok_def)
  have "versions_intact n ?c'"
    by (rule overwrite_intact[where c = c and b = "Suc (published c)" and x = "Some v"])
       (use step_copy_end.prems w ne in \<open>auto simp: rcu_inv_def rcu_copy_end_def\<close>)
  then show ?case
    by (rule rcu_invI[OF step_copy_end.prems(2), rotated 4])
       (use step_copy_end.prems(2)[unfolded rcu_inv_def] w in \<open>simp_all add: writer_ok_def rcu_copy_end_def\<close>)
next
  case (step_store_version c i)
  then have w: "newest c = Suc (published c)" "i = newest c mod n" "m_buffer (cell c) i = Some (last (begun c))"
    and vs: "versions_intact n c" "m_versions (cell c) = (\<lambda>i. i)"
    by (auto simp: rcu_inv_def writer_ok_def)
  have "versions_intact n (c\<lparr>cell := rcu_store_version i (cell c), writer := Version_stored i\<rparr>)"
    using vs(1) by (simp add: versions_intact_def rcu_store_version_def)
  then show ?case
    by (rule rcu_invI[OF step_store_version.prems(2), rotated 4])
       (use step_store_version.prems(2)[unfolded rcu_inv_def] w vs in
         \<open>simp_all add: writer_ok_def rcu_store_version_def fun_upd_def\<close>)
next
  case (step_publish c i)
  let ?c' = "c\<lparr>cell := rcu_publish i (cell c), writer := Writer_idle, published := published c + 1\<rparr>"
  have w: "newest c = Suc (published c)" "i = newest c mod n" "m_buffer (cell c) i = Some (last (begun c))" and ne: "begun c \<noteq> []"
    using step_publish by (auto simp: rcu_inv_def writer_ok_def)
  have "begun c ! Suc (published c) = last (begun c)" using w(1) ne by (simp add: last_conv_nth)
  then have "versions_intact n ?c'"
    using step_publish.prems w by (auto simp: rcu_inv_def versions_intact_def rcu_publish_def le_Suc_eq)
  then show ?case
    by (rule rcu_invI[OF step_publish.prems(2), rotated 4])
       (use step_publish.prems(2)[unfolded rcu_inv_def] w in \<open>simp_all add: writer_ok_def rcu_publish_def\<close>)
next
  case (step_load_index c r)
  show ?case
    by (rule rcu_inv_readerI[OF step_load_index.prems(2), where r = r])
       (simp_all add: reader_ok_def rcu_invD(3)[OF step_load_index.prems(2)])
next
  case (step_load_version c r i)
  show ?case
    by (rule rcu_inv_readerI[OF step_load_version.prems(2), where r = r])
       (use rcu_invD(6)[OF step_load_version.prems(2), of r] rcu_invD(2)[OF step_load_version.prems(2), of i]
          step_load_version.hyps in \<open>simp_all add: reader_ok_def\<close>)
qed

lemma rcu_reachable_inv: "rcu_reachable n initial c \<Longrightarrow> 0 < n \<Longrightarrow> rcu_inv n c"
proof (induction rule: rcu_reachable.induct)
  case rcu_start
  then show ?case
    by (auto simp: rcu_inv_def writer_ok_def reader_ok_def versions_intact_def StaticRCU_new_def)
next
  case (rcu_next c c')
  then show ?case using rcu_step_inv by blast
qed

text \<open>C20: a reader of the concurrent cell sees whole, recent versions.  Whatever the
  interleaving of one writer and any readers, a reference obtained when version \<open>k\<close> was current still
  holds that version, complete, as long as fewer than \<open>n\<close> updates have begun after it; \<open>k\<close> is never
  ahead of what was published.\<close>

theorem rcu_reader_sees_whole_version:
  assumes "rcu_reachable n initial c" "0 < n" "reader c r = Reference i" "newest c < loaded c r + n"
  shows "m_buffer (cell c) i = Some (begun c ! loaded c r) \<and> loaded c r \<le> published c"
  using rcu_invD(5)[OF rcu_reachable_inv[OF assms(1,2)]] rcu_invD(6)[OF rcu_reachable_inv[OF assms(1,2)], of r] assms(3,4)
  by (simp add: versions_intact_def reader_ok_def)

definition rcu_example :: "nat rcu_system" where
  "rcu_example = \<lparr>cell = rcu_copy_begin 1 (StaticRCU_new 7), writer = Copying 1 8,
     reader = (\<lambda>_. Reader_idle)(0 := Reference 0), begun = [7, 8], published = 0, loaded = (\<lambda>_. 0)\<rparr>"

lemma rcu_example_reachable: "rcu_reachable 4 7 rcu_example"
proof -
  let ?c0 = "\<lparr>cell = StaticRCU_new 7, writer = Writer_idle, reader = (\<lambda>_. Reader_idle), begun = [7 :: nat],
     published = 0, loaded = (\<lambda>_. 0)\<rparr>"
  note s0 = rcu_start[of 4 "7 :: nat"]
  note s1 = rcu_next[OF s0 step_load_index[of 4 ?c0 0]]
  note s2 = rcu_next[OF s1 step_load_version[of _ 0 0]]
  note s3 = rcu_next[OF s2 step_copy_begin[of _ 1 4 8]]
  show ?thesis
    using s3 by (simp add: rcu_example_def StaticRCU_new_def rcu_new_index_def fun_upd_def if_distrib cong: if_cong)
qed

theorem rcu_reader_sees_whole_version_witness: "m_buffer (cell rcu_example) 0 = Some 7"
  using rcu_reader_sees_whole_version[OF rcu_example_reachable, of 0 0] by (simp add: rcu_example_def)

text \<open>With too many updates the version may be torn: with two versions, the second update already is.\<close>

lemma rcu_torn_read:
  "rcu_read (rcu_copy_begin 0 (rcu_update 2 v (StaticRCU_new initial))) = Some v
   \<and> m_buffer (rcu_copy_begin 0 (rcu_update 2 v (StaticRCU_new initial))) 0 = None"
  by (simp add: rcu_read_def rcu_update_def rcu_steps rcu_new_index_def StaticRCU_new_def Let_def)

end
