(* ===== verification/Memory_Alloc.thy ===== *)
theory Memory_Alloc
  imports Prelude "HOL-Library.Monad_Syntax"
begin

text \<open>
  The memory allocators of \<^verbatim>\<open>services/memory_allocation\<close>: ordinary memory, huge pages and GPU memory behind
  the interface \<open>MemoryAllocator\<close>, its factory, and the memory utilities that write through it.  The
  operating system and the CUDA driver are parameters, in the record \<open>os_memory\<close>; what is relied on is
  stated as hypotheses on it.  Addresses are 64-bit words, 0 is \<open>nullptr\<close>; a division by zero is \<open>None\<close>.
\<close>

section \<open>Types\<close>

datatype AllocatorType = Malloc | HugePageDefault | HugePage2MB | HugePage512MB | HugePage1GB | Gpu

definition HUGE_PAGE_SIZE_VALUE_AUTO :: int where "HUGE_PAGE_SIZE_VALUE_AUTO = 0"
definition HUGE_PAGE_SIZE_VALUE_2MB :: int where "HUGE_PAGE_SIZE_VALUE_2MB = 21"
definition HUGE_PAGE_SIZE_VALUE_512MB :: int where "HUGE_PAGE_SIZE_VALUE_512MB = 29"
definition HUGE_PAGE_SIZE_VALUE_1GB :: int where "HUGE_PAGE_SIZE_VALUE_1GB = 30"
definition PAGE_SIZE_64KB :: u64 where "PAGE_SIZE_64KB = 65536"

lemmas huge_page_values = HUGE_PAGE_SIZE_VALUE_AUTO_def HUGE_PAGE_SIZE_VALUE_2MB_def
  HUGE_PAGE_SIZE_VALUE_512MB_def HUGE_PAGE_SIZE_VALUE_1GB_def

record mem_block_t =
  pointer :: u64
  block_length :: u64

text \<open>The operating system and the GPU: the page size, the allocation calls, whether freeing succeeds, and the driver.
  An allocation call may return a different address for every allocator object, for every list of blocks that object
  holds and for every length (0 for a failure); that live blocks do not overlap is no part of the record but a
  hypothesis, \<open>live_blocks_apart\<close>, of the theorems that need it.\<close>

record os_memory =
  os_page_size :: u64
  os_new :: "nat \<Rightarrow> mem_block_t list \<Rightarrow> u64 \<Rightarrow> u64"
  os_mmap_huge :: "nat \<Rightarrow> int \<Rightarrow> mem_block_t list \<Rightarrow> u64 \<Rightarrow> u64"
  os_munmap_ok :: "u64 \<Rightarrow> u64 \<Rightarrow> bool"
  gpu_allocate_memory :: "nat \<Rightarrow> int \<Rightarrow> mem_block_t list \<Rightarrow> u64 \<Rightarrow> u64"
  gpu_free_memory :: "u64 \<Rightarrow> u64 \<Rightarrow> bool"
  gpu_query_alignment :: "int \<Rightarrow> u64"
  set_gpu_device :: "int \<Rightarrow> bool"
  gpu_memset_ok :: "nat \<Rightarrow> u8 \<Rightarrow> nat \<Rightarrow> bool"
  gpu_memcpy_ok :: "nat \<Rightarrow> nat \<Rightarrow> bool"

datatype allocator_class = NewMemoryAllocator | HugePagesMemoryAllocator | GpuMemoryAllocator

text \<open>\<open>allocator_object\<close> is the identity of the object, which the factory makes anew for every call.\<close>

record MemoryAllocator =
  allocator :: allocator_class
  allocator_object :: nat
  m_page_size :: u64
  m_huge_page_size_log2 :: int
  m_gpu_id :: int
  m_mem_blocks :: "mem_block_t list"

section \<open>Construction\<close>

definition init_huge_pages :: "os_memory \<Rightarrow> int \<Rightarrow> int \<times> u64" where
  "init_huge_pages os huge_page_size_log2 =
    (let log2 = (if huge_page_size_log2 = HUGE_PAGE_SIZE_VALUE_AUTO
                 then if os_page_size os = PAGE_SIZE_64KB then HUGE_PAGE_SIZE_VALUE_512MB else HUGE_PAGE_SIZE_VALUE_2MB
                 else huge_page_size_log2)
     in (log2, push_bit (nat log2) 1))"

definition NewMemoryAllocator_new :: "os_memory \<Rightarrow> nat \<Rightarrow> MemoryAllocator" where
  "NewMemoryAllocator_new os this =
    \<lparr>allocator = NewMemoryAllocator, allocator_object = this, m_page_size = os_page_size os, m_huge_page_size_log2 = 0, m_gpu_id = INVALID_GPU_ID,
     m_mem_blocks = []\<rparr>"

definition HugePagesMemoryAllocator_new :: "os_memory \<Rightarrow> nat \<Rightarrow> int \<Rightarrow> MemoryAllocator" where
  "HugePagesMemoryAllocator_new os this page_size_log2 =
    (let (log2, page) = init_huge_pages os page_size_log2
     in \<lparr>allocator = HugePagesMemoryAllocator, allocator_object = this, m_page_size = page, m_huge_page_size_log2 = log2, m_gpu_id = INVALID_GPU_ID,
         m_mem_blocks = []\<rparr>)"

datatype allocator_error = Failed_to_set_GPU_device

definition GpuMemoryAllocator_new :: "os_memory \<Rightarrow> nat \<Rightarrow> int \<Rightarrow> allocator_error + MemoryAllocator" where
  "GpuMemoryAllocator_new os this gpu_id =
    (if \<not> set_gpu_device os gpu_id then Inl Failed_to_set_GPU_device
     else Inr \<lparr>allocator = GpuMemoryAllocator, allocator_object = this, m_page_size = 0, m_huge_page_size_log2 = 0,
               m_gpu_id = gpu_id, m_mem_blocks = []\<rparr>)"

text \<open>The factory, with the identity of the object it makes; \<open>None\<close> is a null pointer.\<close>

definition get_memory_allocator ::
  "os_memory \<Rightarrow> nat \<Rightarrow> AllocatorType \<Rightarrow> int \<Rightarrow> allocator_error + MemoryAllocator option" where
  "get_memory_allocator os this kind gpu_id =
    (case kind of
       Malloc \<Rightarrow> Inr (Some (NewMemoryAllocator_new os this))
     | HugePageDefault \<Rightarrow> Inr (Some (HugePagesMemoryAllocator_new os this HUGE_PAGE_SIZE_VALUE_AUTO))
     | HugePage2MB \<Rightarrow> Inr (Some (HugePagesMemoryAllocator_new os this HUGE_PAGE_SIZE_VALUE_2MB))
     | HugePage512MB \<Rightarrow> Inr (Some (HugePagesMemoryAllocator_new os this HUGE_PAGE_SIZE_VALUE_512MB))
     | HugePage1GB \<Rightarrow> Inr (Some (HugePagesMemoryAllocator_new os this HUGE_PAGE_SIZE_VALUE_1GB))
     | Gpu \<Rightarrow> if gpu_id \<noteq> INVALID_GPU_ID then map_sum id Some (GpuMemoryAllocator_new os this gpu_id) else Inr None)"

section \<open>Sizes\<close>

definition get_page_size :: "os_memory \<Rightarrow> MemoryAllocator \<Rightarrow> u64" where
  "get_page_size os a = (case allocator a of
      NewMemoryAllocator \<Rightarrow> m_page_size a
    | HugePagesMemoryAllocator \<Rightarrow> m_page_size a
    | GpuMemoryAllocator \<Rightarrow> gpu_query_alignment os (m_gpu_id a))"

text \<open>The formula of the interface, and its override for huge pages.\<close>

definition base_align_length :: "u64 \<Rightarrow> u64 \<Rightarrow> u64 option" where
  "base_align_length page len = (if page = 0 then None else Some ((len + page - 1) div page * page))"

definition huge_align_length :: "u64 \<Rightarrow> u64 \<Rightarrow> u64 option" where
  "huge_align_length page len =
    (if page = 0 then None
     else let factor = len div page; factor = factor + (if len mod page > 0 then 1 else 0)
          in Some (factor * page))"

definition align_length :: "os_memory \<Rightarrow> MemoryAllocator \<Rightarrow> u64 \<Rightarrow> u64 option" where
  "align_length os a len = (case allocator a of
      NewMemoryAllocator \<Rightarrow> base_align_length (get_page_size os a) len
    | HugePagesMemoryAllocator \<Rightarrow> huge_align_length (m_page_size a) len
    | GpuMemoryAllocator \<Rightarrow> base_align_length (get_page_size os a) len)"

section \<open>Allocation\<close>

definition allocate_new :: "os_memory \<Rightarrow> MemoryAllocator \<Rightarrow> u64 \<Rightarrow> u64" where
  "allocate_new os a len = os_new os (allocator_object a) (m_mem_blocks a) len"

definition allocate_huge_pages :: "os_memory \<Rightarrow> MemoryAllocator \<Rightarrow> u64 \<Rightarrow> u64" where
  "allocate_huge_pages os a len = os_mmap_huge os (allocator_object a) (m_huge_page_size_log2 a) (m_mem_blocks a) len"

definition allocate_gpu :: "os_memory \<Rightarrow> MemoryAllocator \<Rightarrow> u64 \<Rightarrow> u64" where
  "allocate_gpu os a len = gpu_allocate_memory os (allocator_object a) (m_gpu_id a) (m_mem_blocks a) len"

definition record_block :: "u64 \<Rightarrow> u64 \<Rightarrow> MemoryAllocator \<Rightarrow> u64 \<times> MemoryAllocator" where
  "record_block mem_ptr len a =
    (if mem_ptr = 0 then (0, a)
     else (mem_ptr, a\<lparr>m_mem_blocks := m_mem_blocks a @ [\<lparr>pointer = mem_ptr, block_length = len\<rparr>]\<rparr>))"

definition new_memory_allocate :: "os_memory \<Rightarrow> MemoryAllocator \<Rightarrow> u64 \<Rightarrow> u64 \<times> MemoryAllocator" where
  "new_memory_allocate os a len = record_block (allocate_new os a len) len a"

definition huge_pages_allocate :: "os_memory \<Rightarrow> MemoryAllocator \<Rightarrow> u64 \<Rightarrow> (u64 \<times> MemoryAllocator) option" where
  "huge_pages_allocate os a len = do {
     aligned_length \<leftarrow> align_length os a len;
     Some (record_block (allocate_huge_pages os a aligned_length) aligned_length a) }"

definition gpu_allocate :: "os_memory \<Rightarrow> MemoryAllocator \<Rightarrow> u64 \<Rightarrow> u64 \<times> MemoryAllocator" where
  "gpu_allocate os a len = record_block (allocate_gpu os a len) len a"

definition allocate :: "os_memory \<Rightarrow> MemoryAllocator \<Rightarrow> u64 \<Rightarrow> (u64 \<times> MemoryAllocator) option" where
  "allocate os a len = (case allocator a of
      NewMemoryAllocator \<Rightarrow> Some (new_memory_allocate os a len)
    | HugePagesMemoryAllocator \<Rightarrow> huge_pages_allocate os a len
    | GpuMemoryAllocator \<Rightarrow> Some (gpu_allocate os a len))"

lemmas allocate_defs = allocate_def new_memory_allocate_def huge_pages_allocate_def gpu_allocate_def

definition allocate_aligned :: "os_memory \<Rightarrow> MemoryAllocator \<Rightarrow> u64 \<Rightarrow> u64 \<Rightarrow> (u64 \<times> MemoryAllocator) option" where
  "allocate_aligned os a len alignment = do {
     (ptr, a) \<leftarrow> allocate os a (len + alignment);
     if alignment = 0 then None
     else let rest = ptr mod alignment
          in Some (if rest = 0 then ptr else ptr + (alignment - rest), a) }"

section \<open>Release\<close>

definition free_new :: "u64 \<Rightarrow> ReturnStatus" where
  "free_new mem_ptr = (if mem_ptr = 0 then failure else success)"

definition free_huge_pages :: "os_memory \<Rightarrow> u64 \<Rightarrow> u64 \<Rightarrow> ReturnStatus" where
  "free_huge_pages os mem_ptr len =
    (if mem_ptr = 0 then failure else if \<not> os_munmap_ok os mem_ptr len then failure else success)"

definition free_gpu :: "os_memory \<Rightarrow> u64 \<Rightarrow> u64 \<Rightarrow> ReturnStatus" where
  "free_gpu os mem_ptr len = (if gpu_free_memory os mem_ptr len then success else failure)"

text \<open>The destructors free every block; the result lists the blocks with the status of the call.\<close>

definition destroy_allocator :: "os_memory \<Rightarrow> MemoryAllocator \<Rightarrow> (mem_block_t \<times> ReturnStatus) list" where
  "destroy_allocator os a = map (\<lambda>b. (b, case allocator a of
       NewMemoryAllocator \<Rightarrow> free_new (pointer b)
     | HugePagesMemoryAllocator \<Rightarrow> free_huge_pages os (pointer b) (block_length b)
     | GpuMemoryAllocator \<Rightarrow> free_gpu os (pointer b) (block_length b))) (m_mem_blocks a)"

section \<open>Memory utilities\<close>

datatype MemoryUtils = NewMemoryUtils | HugePageMemoryUtils | GpuMemoryUtils

definition get_memory_utils :: "MemoryAllocator \<Rightarrow> MemoryUtils" where
  "get_memory_utils a = (case allocator a of
      NewMemoryAllocator \<Rightarrow> NewMemoryUtils
    | HugePagesMemoryAllocator \<Rightarrow> HugePageMemoryUtils
    | GpuMemoryAllocator \<Rightarrow> GpuMemoryUtils)"

definition memory_set :: "os_memory \<Rightarrow> MemoryUtils \<Rightarrow> mem \<Rightarrow> nat \<Rightarrow> u8 \<Rightarrow> nat \<Rightarrow> ReturnStatus \<times> mem" where
  "memory_set os utils m dst v n =
    (if utils = GpuMemoryUtils \<and> \<not> gpu_memset_ok os dst v n then (failure, m)
     else (success, mem_write m dst (replicate n v)))"

definition memory_copy :: "os_memory \<Rightarrow> MemoryUtils \<Rightarrow> mem \<Rightarrow> nat \<Rightarrow> u8 list \<Rightarrow> ReturnStatus \<times> mem" where
  "memory_copy os utils m dst src =
    (if utils = GpuMemoryUtils \<and> \<not> gpu_memcpy_ok os dst (length src) then (failure, m)
     else (success, mem_write m dst src))"

section \<open>Properties\<close>

text \<open>Rounding up to whole pages, on natural numbers.\<close>

definition round_up :: "nat \<Rightarrow> nat \<Rightarrow> nat" where
  "round_up n page = (if n mod page = 0 then n else n + (page - n mod page))"

lemma round_up_cases:
  assumes "0 < page"
  obtains q r where "n = q * page + r" "r < page" "n div page = q" "n mod page = r"
    "round_up n page = (if r = 0 then q * page else q * page + page)"
proof
  show "n = n div page * page + n mod page" by simp
  show "round_up n page = (if n mod page = 0 then n div page * page else n div page * page + page)"
  proof (cases "n mod page = 0")
    case True
    then show ?thesis by (auto simp: round_up_def)
  next
    case False
    then show ?thesis
      unfolding round_up_def if_not_P[OF False]
      using mod_less_divisor[OF assms, of n] div_mult_mod_eq[of n page] by linarith
  qed
qed (use assms in simp_all)

lemma round_up_div:
  assumes "0 < page"
  shows "(n + page - 1) div page * page = round_up n page"
    and "(n div page + (if n mod page > 0 then 1 else 0)) * page = round_up n page"
proof -
  obtain q r where n: "n = q * page + r" "r < page" "n div page = q" "n mod page = r"
    and up: "round_up n page = (if r = 0 then q * page else q * page + page)"
    by (rule round_up_cases[OF assms])
  have "(n + page - 1) div page = (if r = 0 then q else q + 1)"
    using n(2) by (auto simp: n(1) intro!: div_nat_eqI simp: algebra_simps)
  then show "(n + page - 1) div page * page = round_up n page" using up by simp
  show "(n div page + (if n mod page > 0 then 1 else 0)) * page = round_up n page"
    using n(3,4) up by simp
qed

lemma round_up_bounds:
  assumes "0 < page"
  shows "n \<le> round_up n page" "round_up n page < n + page" "page dvd round_up n page"
  by (rule round_up_cases[OF assms, of n]; simp)+

lemma round_up_least:
  assumes "0 < page" "page dvd k" "n \<le> k"
  shows "round_up n page \<le> k"
proof -
  obtain c where k: "k = c * page" using assms(2) by (metis dvd_div_mult_self)
  have "round_up n page < Suc c * page" using round_up_bounds(2)[OF assms(1), of n] assms(3) k by simp
  then obtain d where d: "round_up n page = d * page" "d * page < Suc c * page"
    using round_up_bounds(3)[OF assms(1), of n] by (metis dvd_div_mult_self)
  then have "d \<le> c" by (metis less_Suc_eq_le mult_less_cancel2)
  then show ?thesis using k d(1) by simp
qed

text \<open>Both formulas round up to whole pages while the sum does not wrap.\<close>

lemma base_align_length_value:
  assumes "0 < page" "unat len + unat page < 2 ^ 64"
  shows "\<exists>r. base_align_length page len = Some r \<and> unat r = round_up (unat len) (unat page)"
proof -
  have p: "0 < unat page" using assms(1) by (simp add: unat_gt_0 word_neq_0_conv)
  have s: "unat (len + page) = unat len + unat page" using assms(2) by (intro unat_add_no_wrap) simp
  have "unat (len + page - 1) = unat len + unat page - 1"
    using p s by (subst unat_sub_no_wrap) simp_all
  moreover have "(unat len + unat page - 1) div unat page * unat page < 2 ^ 64"
    using round_up_div(1)[OF p, of "unat len"] round_up_bounds(2)[OF p, of "unat len"] assms(2) by simp
  ultimately have "unat ((len + page - 1) div page * page) = round_up (unat len) (unat page)"
    using round_up_div(1)[OF p, of "unat len"] by (subst unat_mult_no_wrap) (simp_all add: unat_div_word)
  then show ?thesis using assms(1) by (simp add: base_align_length_def)
qed

lemma huge_align_length_value:
  assumes "0 < page" "unat len + unat page < 2 ^ 64"
  shows "\<exists>r. huge_align_length page len = Some r \<and> unat r = round_up (unat len) (unat page)"
proof -
  let ?f = "len div page + (if len mod page > 0 then 1 else 0)"
  have p: "0 < unat page" using assms(1) by (simp add: unat_gt_0 word_neq_0_conv)
  have gt: "len mod page > 0 \<longleftrightarrow> unat len mod unat page > 0" by (simp add: word_less_nat_alt unat_mod_word)
  have r: "(unat len div unat page + (if unat len mod unat page > 0 then 1 else 0)) * unat page < 2 ^ 64"
    using round_up_div(2)[OF p, of "unat len"] round_up_bounds(2)[OF p, of "unat len"] assms(2) by simp
  have f: "unat len div unat page + (if unat len mod unat page > 0 then 1 else 0) < 2 ^ 64"
    by (rule le_less_trans[OF _ r]) (use p in simp)
  have "unat ?f = unat len div unat page + (if unat len mod unat page > 0 then 1 else 0)"
    using f gt by (subst unat_add_no_wrap) (auto simp: unat_div_word)
  then have "unat (?f * page) = round_up (unat len) (unat page)"
    using r round_up_div(2)[OF p, of "unat len"] by (subst unat_mult_no_wrap) simp_all
  then show ?thesis using assms(1) by (simp add: huge_align_length_def)
qed

lemma align_length_value:
  assumes "0 < get_page_size os a" "unat len + unat (get_page_size os a) < 2 ^ 64"
  shows "\<exists>r. align_length os a len = Some r \<and> unat r = round_up (unat len) (unat (get_page_size os a))"
  using assms base_align_length_value[of "get_page_size os a" len] huge_align_length_value[of "m_page_size a" len]
  by (cases "allocator a") (simp_all add: align_length_def get_page_size_def)

text \<open>Every allocator rounds a length up to the least number of whole pages.  The three
  classes use two different formulas; as long as the length plus one page fits 64 bits, both give the
  smallest multiple of the page size that is not below the length.\<close>

theorem align_length_least:
  assumes "0 < get_page_size os a" "unat len + unat (get_page_size os a) < 2 ^ 64"
  shows "\<exists>r. align_length os a len = Some r \<and> unat len \<le> unat r \<and> unat (get_page_size os a) dvd unat r
    \<and> (\<forall>k. unat (get_page_size os a) dvd k \<and> unat len \<le> k \<longrightarrow> unat r \<le> k)"
proof -
  have p: "0 < unat (get_page_size os a)" using assms(1) by (simp add: unat_gt_0 word_neq_0_conv)
  obtain r where r: "align_length os a len = Some r" "unat r = round_up (unat len) (unat (get_page_size os a))"
    using align_length_value[OF assms] by blast
  then show ?thesis
    using round_up_bounds[OF p, of "unat len"] round_up_least[OF p, of _ "unat len"] by auto
qed

text \<open>A concrete operating system: pages of 4096 bytes, the heap at 1 MB; the objects 0 and 1 get blocks 15 MB
  apart.\<close>

definition example_os :: os_memory where
  "example_os = \<lparr>os_page_size = 4096, os_new = (\<lambda>obj bs len. if obj = 0 then 1000100 else 0xF00064),
     os_mmap_huge = (\<lambda>_ _ bs len. 0x200000),
     os_munmap_ok = (\<lambda>_ _. True), gpu_allocate_memory = (\<lambda>_ _ _ _. 0), gpu_free_memory = (\<lambda>_ _. True),
     gpu_query_alignment = (\<lambda>_. 65536), set_gpu_device = (\<lambda>_. False), gpu_memset_ok = (\<lambda>_ _ _. True),
     gpu_memcpy_ok = (\<lambda>_ _. True)\<rparr>"

theorem align_length_least_witness: "align_length example_os (NewMemoryAllocator_new example_os 0) 5000 = Some 8192"
proof -
  have "\<exists>r. align_length example_os (NewMemoryAllocator_new example_os 0) 5000 = Some r \<and> 5000 \<le> unat r \<and> 4096 dvd unat r
    \<and> (\<forall>k. 4096 dvd k \<and> 5000 \<le> k \<longrightarrow> unat r \<le> k)"
    using align_length_least[of example_os "NewMemoryAllocator_new example_os 0" 5000]
    by (simp add: example_os_def NewMemoryAllocator_new_def get_page_size_def)
  then show ?thesis
    by (simp add: align_length_def example_os_def NewMemoryAllocator_new_def get_page_size_def base_align_length_def)
qed

text \<open>What an allocation adds to the list of blocks.\<close>

lemma allocate_blocks:
  assumes "allocate os a len = Some (q, a')" "unat len + unat (get_page_size os a) < 2 ^ 64"
  shows "q = 0 \<and> a' = a
    \<or> q \<noteq> 0 \<and> (\<exists>b. m_mem_blocks a' = m_mem_blocks a @ [b] \<and> pointer b = q \<and> unat len \<le> unat (block_length b))"
proof -
  have "unat len \<le> unat l" if "huge_align_length (m_page_size a) len = Some l" "allocator a = HugePagesMemoryAllocator" for l
  proof -
    have "0 < m_page_size a" using that(1) by (auto simp: huge_align_length_def word_neq_0_conv split: if_splits)
    then show ?thesis
      using huge_align_length_value[of "m_page_size a" len] round_up_bounds(1)[of "unat (m_page_size a)" "unat len"] assms(2) that
      by (auto simp: get_page_size_def unat_gt_0 word_neq_0_conv)
  qed
  then show ?thesis
    using assms(1) by (auto simp: allocate_defs record_block_def align_length_def bind_eq_Some_conv split: allocator_class.splits if_splits)
qed

lemma align_pointer:
  assumes "0 < (alignment :: u64)" "unat q + unat alignment \<le> 2 ^ 64" "p = (if q mod alignment = 0 then q else q + (alignment - q mod alignment))"
    and "p \<noteq> 0"
  shows "unat alignment dvd unat p" "unat q \<le> unat p" "unat p < unat q + unat alignment"
proof -
  have al: "0 < unat alignment" using assms(1) by (simp add: unat_gt_0 word_neq_0_conv)
  have lt: "unat (q mod alignment) < unat alignment" using al by (simp add: unat_mod_word)
  have "unat p = round_up (unat q) (unat alignment)"
  proof (cases "q mod alignment = 0")
    case True
    then show ?thesis using assms(3) by (simp add: round_up_def unat_mod_word[symmetric])
  next
    case False
    then have nz: "0 < unat (q mod alignment)" by (simp add: unat_gt_0)
    have "unat (alignment - q mod alignment) = unat alignment - unat (q mod alignment)"
      using lt by (intro unat_sub_no_wrap) simp
    moreover have "unat (q + (alignment - q mod alignment)) = unat q + unat (alignment - q mod alignment)"
      using assms(2) nz lt calculation by (intro unat_add_no_wrap) simp
    ultimately show ?thesis using assms(3) False nz by (simp add: round_up_def unat_mod_word)
  qed
  then show "unat alignment dvd unat p" "unat q \<le> unat p" "unat p < unat q + unat alignment"
    using round_up_bounds[OF al, of "unat q"] by simp_all
qed

text \<open>An aligned allocation lies inside memory the allocator owns.  When the
  request and the blocks of the operating system fit the address space, a pointer that is not null is a
  multiple of the alignment, and all \<open>len\<close> bytes from it on, and one more, are inside the block that was just
  allocated.\<close>

theorem allocate_aligned_in_block:
  assumes "allocate_aligned os a len alignment = Some (p, a')" "p \<noteq> 0"
    and "unat len + unat alignment + unat (get_page_size os a) < 2 ^ 64"
    and "\<forall>b \<in> set (m_mem_blocks a'). unat (pointer b) + unat (block_length b) \<le> 2 ^ 64"
  shows "unat alignment dvd unat p \<and> (\<exists>b. m_mem_blocks a' = m_mem_blocks a @ [b] \<and> unat (pointer b) \<le> unat p
    \<and> unat p + unat len < unat (pointer b) + unat (block_length b))"
proof -
  have s: "unat (len + alignment) = unat len + unat alignment" using assms(3) by (intro unat_add_no_wrap) simp
  obtain q a1 where q1: "allocate os a (len + alignment) = Some (q, a1)"
    using assms(1) by (cases "allocate os a (len + alignment)") (auto simp: allocate_aligned_def)
  moreover have "alignment \<noteq> 0" using assms(1) q1 by (auto simp: allocate_aligned_def)
  ultimately have q: "allocate os a (len + alignment) = Some (q, a')" "alignment \<noteq> 0"
    and p: "p = (if q mod alignment = 0 then q else q + (alignment - q mod alignment))"
    using assms(1) by (simp_all add: allocate_aligned_def Let_def)
  have "q \<noteq> 0" using p assms(2) by auto
  then obtain b where b: "m_mem_blocks a' = m_mem_blocks a @ [b]" "pointer b = q" "unat len + unat alignment \<le> unat (block_length b)"
    using allocate_blocks[OF q(1)] s assms(3) by auto
  then have "unat q + (unat len + unat alignment) \<le> 2 ^ 64"
    using assms(4) by (metis add_left_mono in_set_conv_decomp order_trans)
  then have "unat alignment dvd unat p" "unat q \<le> unat p" "unat p < unat q + unat alignment"
    using align_pointer[OF _ _ p assms(2)] q(2) by (simp_all add: word_neq_0_conv)
  then show ?thesis using b by (intro conjI exI[of _ b]) simp_all
qed

theorem allocate_aligned_in_block_witness:
  "4096 dvd unat (1003520 :: u64) \<and> (\<exists>b. [\<lparr>pointer = 1000100, block_length = 5096 :: u64\<rparr>] = [] @ [b]
     \<and> unat (pointer b) \<le> 1003520 \<and> 1003520 + 1000 < unat (pointer b) + unat (block_length b))"
  using allocate_aligned_in_block[of example_os "NewMemoryAllocator_new example_os 0" 1000 4096 1003520
      "(NewMemoryAllocator_new example_os 0)\<lparr>m_mem_blocks := [\<lparr>pointer = 1000100, block_length = 5096\<rparr>]\<rparr>"]
  by (simp add: allocate_aligned_def allocate_defs allocate_new_def record_block_def example_os_def NewMemoryAllocator_new_def
      get_page_size_def)

section \<open>Regions\<close>

text \<open>Regions, as start and length, that follow each other without overlap inside a buffer.\<close>

definition placed :: "nat \<times> nat \<Rightarrow> (nat \<times> nat) list \<Rightarrow> bool" where
  "placed buffer rs \<longleftrightarrow> sorted_wrt (\<lambda>r r'. fst r + snd r \<le> fst r') rs
     \<and> (\<forall>r \<in> set rs. fst buffer \<le> fst r \<and> fst r + snd r \<le> fst buffer + snd buffer)"

lemma placed_Nil [simp]: "placed buffer []"
  by (simp add: placed_def)

lemma placed_append: "placed (b, m) rs \<Longrightarrow> placed (b + m, k) rs' \<Longrightarrow> placed (b, m + k) (rs @ rs')"
  by (fastforce simp: placed_def sorted_wrt_append)

text \<open>Two regions do not overlap.\<close>

definition apart :: "nat \<times> nat \<Rightarrow> nat \<times> nat \<Rightarrow> bool" where
  "apart r r' \<longleftrightarrow> fst r + snd r \<le> fst r' \<or> fst r' + snd r' \<le> fst r"

lemma placed_apart: "placed buffer rs \<Longrightarrow> sorted_wrt apart rs"
  by (auto simp: placed_def apart_def intro: sorted_wrt_mono_rel[rotated])

text \<open>Regions placed in two buffers that are apart.\<close>

lemma placed_both_apart:
  assumes "placed a rs" "placed b rs'" "apart a b"
  shows "sorted_wrt apart (rs @ rs')"
proof -
  have "apart r r'" if "r \<in> set rs" "r' \<in> set rs'" for r r'
  proof -
    have "fst a \<le> fst r" "fst r + snd r \<le> fst a + snd a" "fst b \<le> fst r'" "fst r' + snd r' \<le> fst b + snd b"
      using assms(1,2) that by (auto simp: placed_def)
    then show ?thesis using assms(3) unfolding apart_def by linarith
  qed
  then show ?thesis using assms(1,2) by (simp add: sorted_wrt_append placed_apart)
qed

text \<open>What the operating system and the driver promise of the memory they hand out: the live blocks of two different
  allocators lie in the address space and do not overlap.\<close>

definition memory_blocks :: "MemoryAllocator \<Rightarrow> (nat \<times> nat) list" where
  "memory_blocks a = map (\<lambda>b. (unat (pointer b), unat (block_length b))) (m_mem_blocks a)"

definition live_blocks_apart :: "MemoryAllocator \<Rightarrow> MemoryAllocator \<Rightarrow> bool" where
  "live_blocks_apart a a' \<longleftrightarrow> (\<forall>b \<in> set (memory_blocks a @ memory_blocks a'). fst b + snd b \<le> 2 ^ 64)
     \<and> sorted_wrt apart (memory_blocks a @ memory_blocks a')"

text \<open>A request of this length, aligned to pages, does not wrap around.\<close>

definition alignable_request :: "os_memory \<Rightarrow> MemoryAllocator \<Rightarrow> u64 \<Rightarrow> bool" where
  "alignable_request os a len \<longleftrightarrow> unat len + 2 * unat (get_page_size os a) < 2 ^ 64"

lemma allocate_aligned_page_size:
  assumes "allocate_aligned os a len alignment = Some (p, a')"
  shows "get_page_size os a' = get_page_size os a"
  using assms by (auto simp: allocate_aligned_def allocate_defs record_block_def bind_eq_Some_conv get_page_size_def Let_def
      split: allocator_class.splits if_splits)

lemma allocate_page_aligned_in_block:
  assumes "allocate_aligned os a len (get_page_size os a) = Some (p, a')" "p \<noteq> 0" "alignable_request os a' len"
    and "\<forall>b \<in> set (memory_blocks a'). fst b + snd b \<le> 2 ^ 64"
  shows "\<exists>b \<in> set (memory_blocks a'). fst b \<le> unat p \<and> unat p + unat len < fst b + snd b"
  using allocate_aligned_in_block[OF assms(1,2)] allocate_aligned_page_size[OF assms(1)] assms(3,4)
  by (auto simp: memory_blocks_def alignable_request_def)

lemma placed_mono: "placed (b, m) rs \<Longrightarrow> m \<le> k \<Longrightarrow> placed (b, k) rs"
  by (fastforce simp: placed_def)

end
