(* ===== verification/Receive_Stream.thy ===== *)
theory Receive_Stream
  imports Prelude
begin

text \<open>
  The base class \<open>ReceiveStream\<close> of \<^verbatim>\<open>core/stream/receive/receive_stream.cpp\<close>: the descriptor its settings
  build, the life cycle of the stream and its flows, and its part in the negotiation of the memory layout.
  The Rivermax calls are a parameter, the record \<open>rmx_input\<close>; their status is one the code tests for or another
  error.  The state of the library a property needs, the flows attached to the stream there, is added
  to the model as history.
\<close>

section \<open>Settings\<close>

datatype rmx_status = RMX_OK | RMX_SIGNAL | RMX_NO_FREE_CHUNK | RMX_HW_SEND_QUEUE_IS_FULL | RMX_BUSY | RMX_error nat

text \<open>Building the stream descriptor is a sequence of library calls.\<close>

datatype ('addr, 'opt) rmx_input_call =
    rmx_input_init_stream nat
  | rmx_input_set_stream_nic_address 'addr
  | rmx_input_set_mem_capacity_in_packets u64
  | rmx_input_set_mem_sub_block_count nat
  | rmx_input_set_entry_size_range nat u64 u64
  | rmx_input_set_timestamp_format nat
  | rmx_input_enable_stream_option 'opt

record ('addr, 'opt) ReceiveStreamSettings =
  m_local_addr :: 'addr
  m_rx_type :: nat
  m_ts_format :: nat
  m_options :: "'opt list"
  m_capacity_in_packets :: u64
  m_payload_size :: u64
  m_header_size :: u64

definition stream_param_set_packet_size :: "('addr, 'opt) ReceiveStreamSettings \<Rightarrow> ('addr, 'opt) rmx_input_call list" where
  "stream_param_set_packet_size t =
    (if m_header_size t = 0 then
       [rmx_input_set_mem_sub_block_count 1,
        rmx_input_set_entry_size_range 0 (m_payload_size t) (m_payload_size t)]
     else
       [rmx_input_set_mem_sub_block_count 2,
        rmx_input_set_entry_size_range 0 (m_header_size t) (m_header_size t),
        rmx_input_set_entry_size_range 1 (m_payload_size t) (m_payload_size t)])"

definition stream_param_set_input_options :: "('addr, 'opt) ReceiveStreamSettings \<Rightarrow> ('addr, 'opt) rmx_input_call list" where
  "stream_param_set_input_options t = map rmx_input_enable_stream_option (m_options t)"

definition build_steps :: "(('addr, 'opt) ReceiveStreamSettings \<Rightarrow> ('addr, 'opt) rmx_input_call list) list" where
  "build_steps =
    [\<lambda>t. [rmx_input_init_stream (m_rx_type t)],
     \<lambda>t. [rmx_input_set_stream_nic_address (m_local_addr t)],
     \<lambda>t. [rmx_input_set_mem_capacity_in_packets (m_capacity_in_packets t)],
     stream_param_set_packet_size,
     \<lambda>t. [rmx_input_set_timestamp_format (m_ts_format t)],
     stream_param_set_input_options]"

definition build :: "('addr, 'opt) ReceiveStreamSettings \<Rightarrow> ('addr, 'opt) rmx_input_call list" where
  "build t = concat (map (\<lambda>step. step t) build_steps)"

section \<open>State\<close>

record rmx_mem_region =
  addr :: u64
  region_length :: u64
  mkey :: u32

text \<open>The set of flows is the list of its elements.\<close>

record 'flow ReceiveStream =
  stream_header_size :: u64
  m_stream_created :: bool
  m_flows :: "'flow list"
  m_base_data_stride_size :: u64
  m_base_header_stride_size :: u64
  m_buffer_elements :: u64
  m_header_block :: "rmx_mem_region option"
  m_payload_block :: "rmx_mem_region option"

record 'flow rmx_input =
  rmx_input_create_stream :: rmx_status
  rmx_input_set_completion_moderation :: "u64 \<Rightarrow> u64 \<Rightarrow> int \<Rightarrow> rmx_status"
  rmx_input_attach_flow :: "'flow \<Rightarrow> rmx_status"
  rmx_input_detach_flow :: "'flow \<Rightarrow> rmx_status"
  rmx_input_destroy_stream :: rmx_status
  rmx_input_determine_mem_layout :: rmx_status
  rmx_input_get_stride_size :: "nat \<Rightarrow> u64"
  rmx_input_get_mem_block_buffer :: "nat \<Rightarrow> rmx_mem_region option"
  rmx_input_get_mem_capacity_in_packets :: u64

definition is_header_data_split_on :: "'flow ReceiveStream \<Rightarrow> bool" where
  "is_header_data_split_on s \<longleftrightarrow> stream_header_size s \<noteq> 0"

definition m_header_mem_block_id :: "'flow ReceiveStream \<Rightarrow> nat" where
  "m_header_mem_block_id s = (if stream_header_size s \<noteq> 0 then 0 else 1)"

definition m_payload_mem_block_id :: "'flow ReceiveStream \<Rightarrow> nat" where
  "m_payload_mem_block_id s = (if stream_header_size s \<noteq> 0 then 1 else 0)"

section \<open>Life cycle\<close>

definition stream_initialize_memory_layout :: "'flow rmx_input \<Rightarrow> 'flow ReceiveStream \<Rightarrow> ReturnStatus \<times> 'flow ReceiveStream" where
  "stream_initialize_memory_layout rmx s =
    (if rmx_input_determine_mem_layout rmx \<noteq> RMX_OK then (failure, s)
     else
       let s = s\<lparr>m_base_data_stride_size := rmx_input_get_stride_size rmx (m_payload_mem_block_id s),
                 m_base_header_stride_size := (if is_header_data_split_on s
                   then rmx_input_get_stride_size rmx (m_header_mem_block_id s) else 0)\<rparr>;
           s = (if m_payload_block s = None
                then s\<lparr>m_payload_block := rmx_input_get_mem_block_buffer rmx (m_payload_mem_block_id s)\<rparr> else s);
           s = (if is_header_data_split_on s \<and> m_header_block s = None
                then s\<lparr>m_header_block := rmx_input_get_mem_block_buffer rmx (m_header_mem_block_id s)\<rparr> else s)
       in (success, s\<lparr>m_buffer_elements := ucast (ucast (rmx_input_get_mem_capacity_in_packets rmx) :: u32)\<rparr>))"

datatype stream_error = Failed_to_initialize_memory_layout

definition ReceiveStream_new :: "'flow rmx_input \<Rightarrow> ('addr, 'opt) ReceiveStreamSettings \<Rightarrow> stream_error + 'flow ReceiveStream" where
  "ReceiveStream_new rmx t =
    (let (status, s) = stream_initialize_memory_layout rmx
           \<lparr>stream_header_size = m_header_size t, m_stream_created = False, m_flows = [], m_base_data_stride_size = 0,
            m_base_header_stride_size = 0, m_buffer_elements = m_capacity_in_packets t, m_header_block = None,
            m_payload_block = None\<rparr>
     in if status \<noteq> success then Inl Failed_to_initialize_memory_layout else Inr s)"

definition base_create_stream :: "'flow rmx_input \<Rightarrow> 'flow ReceiveStream \<Rightarrow> ReturnStatus \<times> 'flow ReceiveStream" where
  "base_create_stream rmx s =
    (if rmx_input_create_stream rmx \<noteq> RMX_OK then (failure, s) else (success, s\<lparr>m_stream_created := True\<rparr>))"

definition set_completion_moderation :: "'flow rmx_input \<Rightarrow> u64 \<Rightarrow> u64 \<Rightarrow> int \<Rightarrow> 'flow ReceiveStream \<Rightarrow> ReturnStatus" where
  "set_completion_moderation rmx min_count max_count timeout_usec s =
    (if \<not> m_stream_created s then failure
     else if rmx_input_set_completion_moderation rmx min_count max_count timeout_usec \<noteq> RMX_OK then failure
     else success)"

text \<open>The calls of the library made are returned with the new state.\<close>

definition attach_flow :: "'flow rmx_input \<Rightarrow> 'flow \<Rightarrow> 'flow ReceiveStream \<Rightarrow> ReturnStatus \<times> 'flow ReceiveStream" where
  "attach_flow rmx flow s =
    (if \<not> m_stream_created s then (failure, s)
     else if rmx_input_attach_flow rmx flow \<noteq> RMX_OK then (failure, s)
     else (success, s\<lparr>m_flows := List.insert flow (m_flows s)\<rparr>))"

definition detach_failed :: "rmx_status \<Rightarrow> bool" where
  "detach_failed status \<longleftrightarrow> status \<noteq> RMX_OK \<and> status \<noteq> RMX_SIGNAL"

definition detach_flow :: "'flow rmx_input \<Rightarrow> 'flow \<Rightarrow> 'flow ReceiveStream \<Rightarrow> ReturnStatus \<times> 'flow ReceiveStream" where
  "detach_flow rmx flow s =
    (if \<not> m_stream_created s then (failure, s)
     else if flow \<notin> set (m_flows s) then (failure, s)
     else if detach_failed (rmx_input_detach_flow rmx flow) then (failure, s)
     else (success, s\<lparr>m_flows := remove1 flow (m_flows s)\<rparr>))"

fun detach_each :: "'flow rmx_input \<Rightarrow> 'flow list \<Rightarrow> nat" where
  "detach_each rmx [] = 0"
| "detach_each rmx (flow # flows) =
    (if detach_failed (rmx_input_detach_flow rmx flow) then 1 else 0) + detach_each rmx flows"

definition detach_flows :: "'flow rmx_input \<Rightarrow> 'flow ReceiveStream \<Rightarrow> ReturnStatus \<times> 'flow ReceiveStream" where
  "detach_flows rmx s =
    (if \<not> m_stream_created s then (failure, s)
     else (if detach_each rmx (m_flows s) > 0 then failure else success, s\<lparr>m_flows := []\<rparr>))"

definition base_destroy_stream :: "'flow rmx_input \<Rightarrow> 'flow ReceiveStream \<Rightarrow> ReturnStatus \<times> 'flow ReceiveStream" where
  "base_destroy_stream rmx s =
    (if rmx_input_destroy_stream rmx \<noteq> RMX_OK then (failure, s) else (success, s\<lparr>m_stream_created := False\<rparr>))"

section \<open>Memory layout\<close>

text \<open>The response to a request for memory, with \<open>nullptr\<close> as address 0.\<close>

record HeaderPayloadMemoryLayout =
  header_memory_ptr :: u64
  payload_memory_ptr :: u64
  header_memory_size :: u64
  payload_memory_size :: u64
  register_memory :: bool
  header_memory_keys :: "u32 list"
  payload_memory_keys :: "u32 list"

definition determine_memory_layout_helper :: "'flow ReceiveStream \<Rightarrow> ReturnStatus \<times> u64 \<times> u64" where
  "determine_memory_layout_helper s = (case m_payload_block s of
      None \<Rightarrow> (failure, 0, 0)
    | Some payload \<Rightarrow> (success, (case m_header_block s of None \<Rightarrow> 0 | Some header \<Rightarrow> region_length header), region_length payload))"

definition query_buffer_size :: "'flow ReceiveStream \<Rightarrow> ReturnStatus \<times> u64 \<times> u64" where
  "query_buffer_size s = (case m_payload_block s of
      None \<Rightarrow> (failure, 0, 0)
    | Some payload \<Rightarrow> (success, (case m_header_block s of None \<Rightarrow> 0 | Some header \<Rightarrow> region_length header), region_length payload))"

definition stream_determine_memory_layout :: "'flow ReceiveStream \<Rightarrow> ReturnStatus \<times> u64 \<times> u64" where
  "stream_determine_memory_layout s =
    (let (status, header_buffer_size, payload_buffer_size) = determine_memory_layout_helper s
     in if status \<noteq> success then (status, 0, 0) else (success, header_buffer_size, payload_buffer_size))"

definition stream_validate_memory_layout :: "HeaderPayloadMemoryLayout \<Rightarrow> 'flow ReceiveStream \<Rightarrow> ReturnStatus" where
  "stream_validate_memory_layout l s =
    (if register_memory l \<and> (length (header_memory_keys l) \<noteq> 1 \<or> length (payload_memory_keys l) \<noteq> 1) then failure
     else
       let (status, header_buffer_size, payload_buffer_size) = determine_memory_layout_helper s
       in if status \<noteq> success then status
          else if header_memory_size l < header_buffer_size \<or> payload_memory_size l < payload_buffer_size then failure
          else success)"

definition set_buffers :: "u64 \<Rightarrow> u64 \<Rightarrow> 'flow ReceiveStream \<Rightarrow> 'flow ReceiveStream" where
  "set_buffers header_ptr payload_ptr s =
    s\<lparr>m_header_block := map_option (\<lambda>b. b\<lparr>addr := header_ptr\<rparr>) (m_header_block s),
      m_payload_block := map_option (\<lambda>b. b\<lparr>addr := payload_ptr\<rparr>) (m_payload_block s)\<rparr>"

definition set_memory_keys :: "u32 \<Rightarrow> u32 \<Rightarrow> 'flow ReceiveStream \<Rightarrow> 'flow ReceiveStream" where
  "set_memory_keys header_mkey payload_mkey s =
    s\<lparr>m_header_block := map_option (\<lambda>b. b\<lparr>mkey := header_mkey\<rparr>) (m_header_block s),
      m_payload_block := map_option (\<lambda>b. b\<lparr>mkey := payload_mkey\<rparr>) (m_payload_block s)\<rparr>"

definition stream_apply_memory_layout :: "HeaderPayloadMemoryLayout \<Rightarrow> 'flow ReceiveStream \<Rightarrow> ReturnStatus \<times> 'flow ReceiveStream" where
  "stream_apply_memory_layout l s =
    (let status = stream_validate_memory_layout l s
     in if status \<noteq> success then (status, s)
        else
          let s = set_buffers (header_memory_ptr l) (payload_memory_ptr l) s
          in (success, if register_memory l
                       then set_memory_keys (header_memory_keys l ! 0) (payload_memory_keys l ! 0) s else s))"

section \<open>Flows and the library\<close>

text \<open>The operations on one stream with the status the library gives each call.  The history is the list of
  the flows attached to the stream in the library: a flow that is attached is added, a detached one is removed once,
  and a stream that was just created, or is destroyed, has none.\<close>

datatype 'flow stream_operation = Create | Attach 'flow | Detach 'flow | Detach_all | Destroy

fun run_operation ::
  "'flow rmx_input \<times> 'flow stream_operation \<Rightarrow> 'flow ReceiveStream \<times> 'flow list \<Rightarrow> 'flow ReceiveStream \<times> 'flow list" where
  "run_operation (rmx, Create) (s, attached) =
    (let (status, s') = base_create_stream rmx s in (s', if status = success then [] else attached))"
| "run_operation (rmx, Attach flow) (s, attached) =
    (let (status, s') = attach_flow rmx flow s in (s', if status = success then flow # attached else attached))"
| "run_operation (rmx, Detach flow) (s, attached) =
    (let (status, s') = detach_flow rmx flow s
     in (s', if status = success \<and> rmx_input_detach_flow rmx flow = RMX_OK then remove1 flow attached else attached))"
| "run_operation (rmx, Detach_all) (s, attached) =
    (snd (detach_flows rmx s),
     if m_stream_created s then fold (\<lambda>flow a. if rmx_input_detach_flow rmx flow = RMX_OK then remove1 flow a else a) (m_flows s) attached
     else attached)"
| "run_operation (rmx, Destroy) (s, attached) =
    (let (status, s') = base_destroy_stream rmx s in (s', if status = success then [] else attached))"

text \<open>The operations between the creation of a stream and its destruction: the library creates no second stream,
  and does not destroy this one.\<close>

definition within_life :: "'flow rmx_input \<times> 'flow stream_operation \<Rightarrow> bool" where
  "within_life x \<longleftrightarrow> (case x of
      (rmx, Create) \<Rightarrow> rmx_input_create_stream rmx \<noteq> RMX_OK
    | (rmx, Destroy) \<Rightarrow> rmx_input_destroy_stream rmx \<noteq> RMX_OK
    | _ \<Rightarrow> True)"

text \<open>The flows whose last operation that had an effect was to be attached.\<close>

fun last_attached :: "'flow rmx_input \<times> 'flow stream_operation \<Rightarrow> 'flow set \<Rightarrow> 'flow set" where
  "last_attached (rmx, Attach flow) flows = (if rmx_input_attach_flow rmx flow = RMX_OK then insert flow flows else flows)"
| "last_attached (rmx, Detach flow) flows = (if detach_failed (rmx_input_detach_flow rmx flow) then flows else flows - {flow})"
| "last_attached (rmx, Detach_all) flows = {}"
| "last_attached (rmx, _) flows = flows"

lemma detach_each_zero: "detach_each rmx flows = 0 \<longleftrightarrow> (\<forall>f \<in> set flows. \<not> detach_failed (rmx_input_detach_flow rmx f))"
  by (induction flows) auto

lemma remove1_keeps_others: "set ys \<subseteq> set xs \<Longrightarrow> distinct ys \<Longrightarrow> set (remove1 y ys) \<subseteq> set (remove1 y xs)"
  by (auto simp: notin_set_remove1 dest: in_set_remove1[THEN iffD2, rotated])

definition flows_known :: "'flow ReceiveStream \<times> 'flow list \<Rightarrow> 'flow set \<Rightarrow> bool" where
  "flows_known p flows \<longleftrightarrow> m_stream_created (fst p) \<and> distinct (m_flows (fst p)) \<and> set (m_flows (fst p)) \<subseteq> set (snd p)
     \<and> set (m_flows (fst p)) = flows"

lemma flows_known_step:
  assumes "flows_known (s, attached) flows" "within_life (rmx, operation)"
  shows "flows_known (run_operation (rmx, operation) (s, attached)) (last_attached (rmx, operation) flows)"
  using assms remove1_keeps_others[of "m_flows s" attached]
  by (cases operation)
     (auto simp: flows_known_def within_life_def base_create_stream_def base_destroy_stream_def attach_flow_def detach_flow_def
        detach_flows_def distinct_remove1 notin_set_remove1 split: if_splits dest: notin_set_remove1)

lemma flows_known_run:
  "flows_known p flows \<Longrightarrow> list_all within_life operations \<Longrightarrow>
    flows_known (fold run_operation operations p) (fold last_attached operations flows)"
proof (induction operations arbitrary: p flows)
  case (Cons x operations)
  have "flows_known (run_operation x p) (last_attached x flows)"
    using flows_known_step[of "fst p" "snd p" flows "fst x" "snd x"] Cons.prems by simp
  then show ?case using Cons by simp
qed simp

lemma ReceiveStream_new_flows: "ReceiveStream_new rmx t = Inr s \<Longrightarrow> m_flows s = []"
  by (auto simp: ReceiveStream_new_def stream_initialize_memory_layout_def Let_def split: if_splits)

text \<open>C24: from its creation to its destruction a stream lists exactly the flows it should, and only flows the library
  has.  Create a stream and make any calls that attach flows, detach them, or fail to create or to destroy the stream,
  with any status returned by the library.  Then \<open>m_flows\<close> lists no flow twice, it is the set of the flows whose last
  operation that had an effect attached them (detaching has an effect if the library succeeds or was interrupted by a
  signal, detaching all flows always has), and every one of these flows is attached to the stream in the library.  A
  destroyed stream still lists its flows, as \<open>flows_survive_destroy\<close> shows.\<close>

theorem stream_flows_attached:
  assumes "ReceiveStream_new rmx t = Inr s0" "base_create_stream rmx' s0 = (success, s1)"
    and "list_all within_life operations" "fold run_operation operations (s1, []) = (s, attached)"
  shows "distinct (m_flows s) \<and> set (m_flows s) = fold last_attached operations {} \<and> set (m_flows s) \<subseteq> set attached"
proof -
  have "flows_known (s1, []) {}"
    using assms(2) ReceiveStream_new_flows[OF assms(1)] by (auto simp: flows_known_def base_create_stream_def split: if_splits)
  from flows_known_run[OF this assms(3)] show ?thesis unfolding assms(4) flows_known_def by auto
qed

definition example_rmx :: "nat rmx_input" where
  "example_rmx = \<lparr>rmx_input_create_stream = RMX_OK, rmx_input_set_completion_moderation = (\<lambda>_ _ _. RMX_OK),
     rmx_input_attach_flow = (\<lambda>f. if f < 10 then RMX_OK else RMX_error 1),
     rmx_input_detach_flow = (\<lambda>f. if f < 5 then RMX_OK else RMX_SIGNAL),
     rmx_input_destroy_stream = RMX_OK, rmx_input_determine_mem_layout = RMX_OK,
     rmx_input_get_stride_size = (\<lambda>_. 2048), rmx_input_get_mem_block_buffer = (\<lambda>i. Some \<lparr>addr = 0,
       region_length = (if i = 0 then 8192 else 4096), mkey = 0\<rparr>), rmx_input_get_mem_capacity_in_packets = 4\<rparr>"

definition example_settings :: "u64 \<Rightarrow> (nat, nat) ReceiveStreamSettings" where
  "example_settings header = \<lparr>m_local_addr = 0, m_rx_type = 0, m_ts_format = 0, m_options = [1, 2], m_capacity_in_packets = 4,
     m_payload_size = 1500, m_header_size = header\<rparr>"

definition example_operations :: "(nat rmx_input \<times> nat stream_operation) list" where
  "example_operations = map (Pair example_rmx) [Attach 1, Attach 7, Attach 12, Attach 1, Detach 7]"

definition example_base_stream :: "u64 \<Rightarrow> nat ReceiveStream" where
  "example_base_stream header = projr (ReceiveStream_new example_rmx (example_settings header))"

lemma example_base_stream_new: "ReceiveStream_new example_rmx (example_settings header) = Inr (example_base_stream header)"
  by (simp add: example_base_stream_def ReceiveStream_new_def stream_initialize_memory_layout_def example_rmx_def Let_def)

theorem stream_flows_attached_witness:
  "let s1 = (example_base_stream 0)\<lparr>m_stream_created := True\<rparr>;
       (s, attached) = fold run_operation example_operations (s1, [])
   in m_flows s = [1] \<and> set (m_flows s) = fold last_attached example_operations {} \<and> set (m_flows s) \<subseteq> set attached"
proof -
  let ?s1 = "(example_base_stream 0)\<lparr>m_stream_created := True\<rparr>"
  have create: "base_create_stream example_rmx (example_base_stream 0) = (success, ?s1)"
    by (simp add: base_create_stream_def example_rmx_def)
  have life: "list_all within_life example_operations" by (simp add: example_operations_def within_life_def)
  have run: "fold run_operation example_operations (?s1, []) = (?s1\<lparr>m_flows := [1]\<rparr>, [1, 7, 1])"
    by (simp add: example_operations_def example_base_stream_def ReceiveStream_new_def stream_initialize_memory_layout_def
        example_rmx_def example_settings_def attach_flow_def detach_flow_def detach_failed_def Let_def)
  show ?thesis using stream_flows_attached[OF example_base_stream_new create life run] unfolding run Let_def prod.case by auto
qed

text \<open>Destroying the stream leaves its flows listed, and so does creating it again: the new stream lists flows that it
  does not have in the library.\<close>

lemma flows_survive_destroy:
  "let s = (example_base_stream 0)\<lparr>m_stream_created := True, m_flows := [1]\<rparr>
   in fold run_operation [(example_rmx, Destroy), (example_rmx, Create)] (s, [1]) = (s, [])"
  by (simp add: base_create_stream_def base_destroy_stream_def example_rmx_def Let_def)

end
