(* ===== verification/Memory_Layout.thy ===== *)
theory Memory_Layout
  imports Memory_Alloc Receive_Stream
begin

text \<open>
  The negotiation of the memory layout: the streams of a receiver node state the sizes they need, the node
  aligns and adds them, the application's memory strategy adds the nodes, allocates and registers the
  memory, and hands each node, and each node each stream, its part of it.  Modelled are
  \<^verbatim>\<open>apps/rmax_base_memory_strategy.cpp\<close>, the memory part of \<^verbatim>\<open>io_node/receivers/receiver_io_node_base.cpp\<close> and of
  \<^verbatim>\<open>core/stream/receive/ipo_receive_stream.cpp\<close>, and \<^verbatim>\<open>io_node/common/io_node_memory_utils.cpp\<close>.  The strategy
  works with any component behind the interface \<open>IHeaderPayloadMemoryLayoutComponent\<close>; the locale
  \<open>memory_component\<close> is its contract, met by the streams and by the nodes.
\<close>

section \<open>Redundant streams\<close>

text \<open>The part of \<open>IPOReceiveStream\<close> that concerns the memory.\<close>

record 'flow IPOStreamMemory =
  redundant_streams :: "'flow ReceiveStream list"
  m_header_buffer_size :: u64
  m_payload_buffer_size :: u64
  ipo_header_stride_size :: u64
  ipo_payload_stride_size :: u64
  ipo_header_buffer :: u64
  ipo_payload_buffer :: u64

fun ipo_collect_sizes :: "bool \<Rightarrow> 'flow ReceiveStream list \<Rightarrow> 'flow IPOStreamMemory \<Rightarrow> ReturnStatus \<times> 'flow IPOStreamMemory" where
  "ipo_collect_sizes first [] p = (success, p)"
| "ipo_collect_sizes first (s # ss) p =
    (let (status, header, payload) = stream_determine_memory_layout s
     in if status \<noteq> success then (status, p)
        else if first then
          ipo_collect_sizes False ss
            (p\<lparr>m_header_buffer_size := header, m_payload_buffer_size := payload,
               ipo_header_stride_size := m_base_header_stride_size s, ipo_payload_stride_size := m_base_data_stride_size s\<rparr>)
        else if (header, payload, m_base_header_stride_size s, m_base_data_stride_size s)
                \<noteq> (m_header_buffer_size p, m_payload_buffer_size p, ipo_header_stride_size p, ipo_payload_stride_size p)
             then (failure, p)
        else ipo_collect_sizes False ss p)"

definition ipo_initialize_memory_layout :: "'flow IPOStreamMemory \<Rightarrow> ReturnStatus \<times> 'flow IPOStreamMemory" where
  "ipo_initialize_memory_layout p = ipo_collect_sizes True (redundant_streams p) p"

definition ipo_determine_memory_layout :: "'flow IPOStreamMemory \<Rightarrow> ReturnStatus \<times> u64 \<times> u64" where
  "ipo_determine_memory_layout p =
    (if m_payload_buffer_size p = 0 then (failure, 0, 0) else (success, m_header_buffer_size p, m_payload_buffer_size p))"

definition ipo_validate_memory_layout :: "HeaderPayloadMemoryLayout \<Rightarrow> 'flow IPOStreamMemory \<Rightarrow> ReturnStatus" where
  "ipo_validate_memory_layout l p =
    (if register_memory l \<and> (length (header_memory_keys l) \<noteq> length (redundant_streams p)
        \<or> length (payload_memory_keys l) \<noteq> length (redundant_streams p)) then failure
     else if m_payload_buffer_size p = 0 then failure
     else if header_memory_size l < m_header_buffer_size p \<or> payload_memory_size l < m_payload_buffer_size p then failure
     else success)"

text \<open>All sub-streams get the same buffers, each with the keys of its device.\<close>

definition sub_stream_layout :: "HeaderPayloadMemoryLayout \<Rightarrow> nat \<Rightarrow> HeaderPayloadMemoryLayout" where
  "sub_stream_layout l i =
    \<lparr>header_memory_ptr = header_memory_ptr l, payload_memory_ptr = payload_memory_ptr l,
     header_memory_size = header_memory_size l, payload_memory_size = payload_memory_size l,
     register_memory = register_memory l,
     header_memory_keys = (if register_memory l then [header_memory_keys l ! i] else []),
     payload_memory_keys = (if register_memory l then [payload_memory_keys l ! i] else [])\<rparr>"

fun ipo_apply_streams :: "HeaderPayloadMemoryLayout \<Rightarrow> nat \<Rightarrow> 'flow ReceiveStream list \<Rightarrow> ReturnStatus \<times> 'flow ReceiveStream list" where
  "ipo_apply_streams l i [] = (success, [])"
| "ipo_apply_streams l i (s # ss) =
    (let (status, s') = stream_apply_memory_layout (sub_stream_layout l i) s
     in if status \<noteq> success then (status, s' # ss)
        else let (status, ss') = ipo_apply_streams l (i + 1) ss in (status, s' # ss'))"

definition ipo_apply_memory_layout :: "HeaderPayloadMemoryLayout \<Rightarrow> 'flow IPOStreamMemory \<Rightarrow> ReturnStatus \<times> 'flow IPOStreamMemory" where
  "ipo_apply_memory_layout l p =
    (let status = ipo_validate_memory_layout l p
     in if status \<noteq> success then (status, p)
        else
          let p = p\<lparr>ipo_header_buffer := header_memory_ptr l, ipo_payload_buffer := payload_memory_ptr l\<rparr>;
              (status, ss) = ipo_apply_streams l 0 (redundant_streams p)
          in (status, p\<lparr>redundant_streams := ss\<rparr>))"

section \<open>Receiver nodes\<close>

text \<open>The streams of a node behind the interface \<open>IReceiveStream\<close>.\<close>

datatype 'flow receive_stream = Single "'flow ReceiveStream" | Redundant "'flow IPOStreamMemory"

fun receive_stream_determine :: "'flow receive_stream \<Rightarrow> ReturnStatus \<times> u64 \<times> u64" where
  "receive_stream_determine (Single s) = stream_determine_memory_layout s"
| "receive_stream_determine (Redundant p) = ipo_determine_memory_layout p"

fun receive_stream_apply :: "HeaderPayloadMemoryLayout \<Rightarrow> 'flow receive_stream \<Rightarrow> ReturnStatus \<times> 'flow receive_stream" where
  "receive_stream_apply l (Single s) = map_prod id Single (stream_apply_memory_layout l s)"
| "receive_stream_apply l (Redundant p) = map_prod id Redundant (ipo_apply_memory_layout l p)"

record IONodeMemoryUtils =
  utils_header_allocator :: MemoryAllocator
  utils_payload_allocator :: MemoryAllocator

definition align_buffer_sizes :: "os_memory \<Rightarrow> IONodeMemoryUtils \<Rightarrow> u64 \<times> u64 \<Rightarrow> (u64 \<times> u64) option" where
  "align_buffer_sizes os u sizes = do {
     header \<leftarrow> align_length os (utils_header_allocator u) (fst sizes);
     payload \<leftarrow> align_length os (utils_payload_allocator u) (snd sizes);
     Some (header, payload) }"

record 'flow ReceiverIONodeBase =
  node_streams :: "'flow receive_stream list"
  m_aligned_header_payload_buffers_size :: "(u64 \<times> u64) list"
  m_header_total_memory_size :: u64
  m_payload_total_memory_size :: u64

text \<open>The loop over the streams; the last component is the state of the function: the aligned sizes pushed
  so far and their sums.\<close>

fun collect_sizes ::
  "os_memory \<Rightarrow> IONodeMemoryUtils \<Rightarrow> 'flow receive_stream list \<Rightarrow> (u64 \<times> u64) list \<times> u64 \<times> u64
    \<Rightarrow> (ReturnStatus \<times> (u64 \<times> u64) list \<times> u64 \<times> u64) option" where
  "collect_sizes os u [] acc = Some (success, acc)"
| "collect_sizes os u (s # ss) (sizes, header, payload) =
    (let (rc, needed) = receive_stream_determine s
     in if rc \<noteq> success then Some (rc, sizes, header, payload)
        else do {
          aligned \<leftarrow> align_buffer_sizes os u needed;
          collect_sizes os u ss (sizes @ [aligned], header + fst aligned, payload + snd aligned) })"

definition node_initialize_memory_layout ::
  "os_memory \<Rightarrow> IONodeMemoryUtils \<Rightarrow> 'flow ReceiverIONodeBase \<Rightarrow> (ReturnStatus \<times> 'flow ReceiverIONodeBase) option" where
  "node_initialize_memory_layout os u n = do {
     (rc, sizes, header, payload) \<leftarrow> collect_sizes os u (node_streams n) ([], 0, 0);
     let n = n\<lparr>m_header_total_memory_size := 0, m_payload_total_memory_size := 0,
               m_aligned_header_payload_buffers_size := sizes\<rparr>;
     Some (if rc \<noteq> success then (rc, n)
           else (success, n\<lparr>m_header_total_memory_size := header, m_payload_total_memory_size := payload\<rparr>)) }"

definition is_memory_layout_initialized :: "'flow ReceiverIONodeBase \<Rightarrow> bool" where
  "is_memory_layout_initialized n \<longleftrightarrow> m_payload_total_memory_size n > 0"

definition node_determine_memory_layout :: "'flow ReceiverIONodeBase \<Rightarrow> ReturnStatus \<times> u64 \<times> u64" where
  "node_determine_memory_layout n =
    (if \<not> is_memory_layout_initialized n then (failure, 0, 0)
     else (success, m_header_total_memory_size n, m_payload_total_memory_size n))"

definition node_validate_memory_layout :: "HeaderPayloadMemoryLayout \<Rightarrow> 'flow ReceiverIONodeBase \<Rightarrow> ReturnStatus" where
  "node_validate_memory_layout l n =
    (if \<not> is_memory_layout_initialized n then failure
     else if m_header_total_memory_size n > 0 \<and> header_memory_ptr l = 0 \<or> payload_memory_ptr l = 0 then failure
     else if payload_memory_size l < m_payload_total_memory_size n \<or> header_memory_size l < m_header_total_memory_size n then failure
     else success)"

text \<open>\<open>std::copy\<close> into a vector of the given length; past its end the behaviour is undefined.\<close>

definition copy_into :: "'a list \<Rightarrow> 'a list \<Rightarrow> 'a list option" where
  "copy_into xs ys = (if length xs > length ys then None else Some (xs @ drop (length xs) ys))"

definition stream_layout ::
  "HeaderPayloadMemoryLayout \<Rightarrow> u64 \<times> u64 \<Rightarrow> u64 \<Rightarrow> u64 \<Rightarrow> HeaderPayloadMemoryLayout option" where
  "stream_layout l sizes header_offset payload_offset = do {
     let keys = (if register_memory l then replicate (length (header_memory_keys l)) 0 else []);
     header_keys \<leftarrow> (if register_memory l then copy_into (header_memory_keys l) keys else Some keys);
     payload_keys \<leftarrow> (if register_memory l then copy_into (payload_memory_keys l) keys else Some keys);
     Some \<lparr>header_memory_ptr = (if header_memory_ptr l \<noteq> 0 then header_memory_ptr l + header_offset else 0),
           payload_memory_ptr = payload_memory_ptr l + payload_offset,
           header_memory_size = fst sizes, payload_memory_size = snd sizes, register_memory = register_memory l,
           header_memory_keys = header_keys, payload_memory_keys = payload_keys\<rparr> }"

definition apply_memory_layout_for_subcomponent ::
  "'flow receive_stream \<Rightarrow> HeaderPayloadMemoryLayout \<Rightarrow> u64 \<times> u64 \<Rightarrow> u64 \<Rightarrow> u64
    \<Rightarrow> (ReturnStatus \<times> 'flow receive_stream) option" where
  "apply_memory_layout_for_subcomponent s l sizes header_offset payload_offset = do {
     l' \<leftarrow> stream_layout l sizes header_offset payload_offset;
     let (rc, s') = receive_stream_apply l' s;
     Some (if rc \<noteq> success then (rc, s') else (success, s')) }"

fun node_apply_streams ::
  "HeaderPayloadMemoryLayout \<Rightarrow> 'flow receive_stream list \<Rightarrow> (u64 \<times> u64) list \<Rightarrow> u64 \<Rightarrow> u64
    \<Rightarrow> (ReturnStatus \<times> 'flow receive_stream list) option" where
  "node_apply_streams l [] sizes header_offset payload_offset = Some (success, [])"
| "node_apply_streams l (s # ss) [] header_offset payload_offset = None"
| "node_apply_streams l (s # ss) (sz # sizes) header_offset payload_offset = do {
     (rc, s') \<leftarrow> apply_memory_layout_for_subcomponent s l sz header_offset payload_offset;
     if rc \<noteq> success then Some (rc, s' # ss)
     else do {
       (rc, ss') \<leftarrow> node_apply_streams l ss sizes (header_offset + fst sz) (payload_offset + snd sz);
       Some (rc, s' # ss') } }"

definition node_apply_memory_layout ::
  "HeaderPayloadMemoryLayout \<Rightarrow> 'flow ReceiverIONodeBase \<Rightarrow> (ReturnStatus \<times> 'flow ReceiverIONodeBase) option" where
  "node_apply_memory_layout l n =
    (let rc = node_validate_memory_layout l n
     in if rc \<noteq> success then Some (rc, n)
        else do {
          (rc, ss) \<leftarrow> node_apply_streams l (node_streams n) (m_aligned_header_payload_buffers_size n) 0 0;
          Some (rc, n\<lparr>node_streams := ss\<rparr>) })"

section \<open>The memory strategy\<close>

text \<open>The operations of a subcomponent; initialising and applying change it.\<close>

record 'c component_operations =
  component_initialize :: "'c \<Rightarrow> (ReturnStatus \<times> 'c) option"
  component_determine :: "'c \<Rightarrow> ReturnStatus \<times> u64 \<times> u64"
  component_apply :: "HeaderPayloadMemoryLayout \<Rightarrow> 'c \<Rightarrow> (ReturnStatus \<times> 'c) option"

text \<open>Rivermax registers a region for a device and returns its key.\<close>

record rmx_memory =
  rmx_register_memory :: "nat \<Rightarrow> rmx_mem_region \<Rightarrow> rmx_status \<times> u32"
  rmx_mkey_invalid :: u32

record 'c RmaxBaseMemoryStrategy =
  m_header_allocator :: MemoryAllocator
  m_payload_allocator :: MemoryAllocator
  m_memory_layout_determined :: bool
  m_memory_allocated :: bool
  m_memory_registered :: bool
  m_memory_subcomponents :: "'c list"
  m_header_memory_size :: u64
  m_payload_memory_size :: u64
  strategy_header_buffer :: u64
  strategy_payload_buffer :: u64
  m_header_payload_subcomponents_buffer_sizes :: "(u64 \<times> u64) list"
  m_device_interfaces :: nat
  m_header_mem_regions :: "rmx_mem_region list"
  m_payload_mem_regions :: "rmx_mem_region list"
  m_num_of_mem_regions :: nat
  m_app_allocated_memory :: bool
  m_register_memory :: bool

definition RmaxBaseMemoryStrategy_new ::
  "MemoryAllocator \<Rightarrow> MemoryAllocator \<Rightarrow> nat \<Rightarrow> nat \<Rightarrow> bool \<Rightarrow> bool \<Rightarrow> 'c RmaxBaseMemoryStrategy" where
  "RmaxBaseMemoryStrategy_new header_allocator payload_allocator devices regions app_allocated register =
    \<lparr>m_header_allocator = header_allocator, m_payload_allocator = payload_allocator,
     m_memory_layout_determined = False, m_memory_allocated = False, m_memory_registered = False,
     m_memory_subcomponents = [], m_header_memory_size = 0, m_payload_memory_size = 0, strategy_header_buffer = 0,
     strategy_payload_buffer = 0, m_header_payload_subcomponents_buffer_sizes = [], m_device_interfaces = devices,
     m_header_mem_regions = [], m_payload_mem_regions = [], m_num_of_mem_regions = regions,
     m_app_allocated_memory = app_allocated, m_register_memory = register\<rparr>"

definition add_memory_subcomponent :: "'c \<Rightarrow> 'c RmaxBaseMemoryStrategy \<Rightarrow> ReturnStatus \<times> 'c RmaxBaseMemoryStrategy" where
  "add_memory_subcomponent c t = (success, t\<lparr>m_memory_subcomponents := m_memory_subcomponents t @ [c]\<rparr>)"

fun initialize_each :: "'c component_operations \<Rightarrow> 'c list \<Rightarrow> (ReturnStatus \<times> 'c list) option" where
  "initialize_each ops [] = Some (success, [])"
| "initialize_each ops (c # cs) = do {
     (status, c') \<leftarrow> component_initialize ops c;
     if status \<noteq> success then Some (status, c' # cs)
     else do { (status, cs') \<leftarrow> initialize_each ops cs; Some (status, c' # cs') } }"

fun determine_each ::
  "'c component_operations \<Rightarrow> 'c list \<Rightarrow> (u64 \<times> u64) list \<times> u64 \<times> u64 \<Rightarrow> ReturnStatus \<times> (u64 \<times> u64) list \<times> u64 \<times> u64" where
  "determine_each ops [] acc = (success, acc)"
| "determine_each ops (c # cs) (sizes, header, payload) =
    (let (status, needed) = component_determine ops c
     in if status \<noteq> success then (status, sizes, header, payload)
        else determine_each ops cs (sizes @ [needed], header + fst needed, payload + snd needed))"

definition strategy_determine_memory_layout ::
  "'c component_operations \<Rightarrow> 'c RmaxBaseMemoryStrategy \<Rightarrow> (ReturnStatus \<times> 'c RmaxBaseMemoryStrategy) option" where
  "strategy_determine_memory_layout ops t =
    (if m_memory_layout_determined t then Some (success, t)
     else do {
       (status, cs) \<leftarrow> initialize_each ops (m_memory_subcomponents t);
       let t = t\<lparr>m_memory_subcomponents := cs, m_header_memory_size := 0, m_payload_memory_size := 0,
                 m_header_payload_subcomponents_buffer_sizes := []\<rparr>;
       if status \<noteq> success then Some (status, t)
       else do {
         let (status, sizes, header, payload) = determine_each ops cs ([], 0, 0);
         let t = t\<lparr>m_header_memory_size := header, m_payload_memory_size := payload,
                   m_header_payload_subcomponents_buffer_sizes := sizes\<rparr>;
         Some (if status \<noteq> success then (status, t) else (success, t\<lparr>m_memory_layout_determined := True\<rparr>)) } })"

text \<open>The buffers are returned even when one of the allocations failed.\<close>

definition strategy_allocate_aligned ::
  "os_memory \<Rightarrow> u64 \<Rightarrow> u64 \<Rightarrow> 'c RmaxBaseMemoryStrategy \<Rightarrow> (bool \<times> 'c RmaxBaseMemoryStrategy) option" where
  "strategy_allocate_aligned os header_size payload_size t = do {
     (header_ptr, ha) \<leftarrow>
       (if header_size \<noteq> 0 then allocate_aligned os (m_header_allocator t) header_size (get_page_size os (m_header_allocator t))
        else Some (0, m_header_allocator t));
     (payload_ptr, pa) \<leftarrow> allocate_aligned os (m_payload_allocator t) payload_size (get_page_size os (m_payload_allocator t));
     Some (payload_ptr \<noteq> 0 \<and> (header_size = 0 \<or> header_ptr \<noteq> 0),
       t\<lparr>m_header_allocator := ha, m_payload_allocator := pa, strategy_header_buffer := header_ptr,
         strategy_payload_buffer := payload_ptr\<rparr>) }"

definition allocate_memory :: "os_memory \<Rightarrow> 'c RmaxBaseMemoryStrategy \<Rightarrow> (ReturnStatus \<times> 'c RmaxBaseMemoryStrategy) option" where
  "allocate_memory os t =
    (if \<not> m_app_allocated_memory t \<or> m_memory_allocated t then Some (success, t)
     else if \<not> m_memory_layout_determined t \<or> m_payload_memory_size t = 0 then Some (failure, t)
     else do {
       (alloc_successful, t) \<leftarrow> strategy_allocate_aligned os (m_header_memory_size t) (m_payload_memory_size t) t;
       Some (if \<not> alloc_successful then (failure, t) else (success, t\<lparr>m_memory_allocated := True\<rparr>)) })"

text \<open>One region per device; \<open>None\<close> when there is no device for a region.\<close>

fun register_regions ::
  "rmx_memory \<Rightarrow> nat \<Rightarrow> u64 \<Rightarrow> u64 \<Rightarrow> nat \<Rightarrow> rmx_mem_region list \<Rightarrow> (ReturnStatus \<times> rmx_mem_region list) option" where
  "register_regions rmx devices buffer memory_size i [] = Some (success, [])"
| "register_regions rmx devices buffer memory_size i (r # rs) =
    (let r = \<lparr>addr = buffer, region_length = memory_size, mkey = rmx_mkey_invalid rmx\<rparr>
     in if memory_size = 0 then
          do { (rc, rs') \<leftarrow> register_regions rmx devices buffer memory_size (i + 1) rs; Some (rc, r # rs') }
        else if devices \<le> i then None
        else
          let (status, key) = rmx_register_memory rmx i r
          in if status \<noteq> RMX_OK then Some (failure, r # rs)
             else do { (rc, rs') \<leftarrow> register_regions rmx devices buffer memory_size (i + 1) rs;
                       Some (rc, r\<lparr>mkey := key\<rparr> # rs') })"

definition resize_regions :: "nat \<Rightarrow> rmx_mem_region list \<Rightarrow> rmx_mem_region list" where
  "resize_regions n rs = take n rs @ replicate (n - length rs) \<lparr>addr = 0, region_length = 0, mkey = 0\<rparr>"

definition strategy_register_memory ::
  "rmx_memory \<Rightarrow> 'c RmaxBaseMemoryStrategy \<Rightarrow> (ReturnStatus \<times> 'c RmaxBaseMemoryStrategy) option" where
  "strategy_register_memory rmx t =
    (if \<not> m_app_allocated_memory t \<or> \<not> m_register_memory t \<or> m_memory_registered t then Some (success, t)
     else if \<not> m_memory_allocated t \<or> strategy_payload_buffer t = 0 then Some (failure, t)
     else do {
       let n = m_num_of_mem_regions t;
       let t = t\<lparr>m_payload_mem_regions := resize_regions n (m_payload_mem_regions t)\<rparr>;
       (rc, headers) \<leftarrow> register_regions rmx (m_device_interfaces t) (strategy_header_buffer t) (m_header_memory_size t) 0
         (resize_regions n (m_header_mem_regions t));
       let t = t\<lparr>m_header_mem_regions := headers\<rparr>;
       if rc \<noteq> success then Some (rc, t)
       else do {
         (rc, payloads) \<leftarrow> register_regions rmx (m_device_interfaces t) (strategy_payload_buffer t) (m_payload_memory_size t) 0
           (m_payload_mem_regions t);
         let t = t\<lparr>m_payload_mem_regions := payloads\<rparr>;
         Some (if rc \<noteq> success then (rc, t) else (success, t\<lparr>m_memory_registered := True\<rparr>)) } })"

text \<open>The regions handed to Rivermax for deregistration, in order.\<close>

definition unregister_memory :: "'c RmaxBaseMemoryStrategy \<Rightarrow> rmx_mem_region list \<times> 'c RmaxBaseMemoryStrategy" where
  "unregister_memory t =
    (if \<not> m_app_allocated_memory t \<or> \<not> m_register_memory t \<or> \<not> m_memory_registered t then ([], t)
     else ((if strategy_header_buffer t \<noteq> 0 then m_header_mem_regions t else []) @ m_payload_mem_regions t,
           t\<lparr>m_memory_registered := False\<rparr>))"

definition region_keys :: "nat \<Rightarrow> rmx_mem_region list \<Rightarrow> u32 list option" where
  "region_keys n rs = (if length rs < n then None else Some (map mkey (take n rs)))"

definition apply_memory_layout_helper ::
  "'c component_operations \<Rightarrow> 'c RmaxBaseMemoryStrategy \<Rightarrow> u64 \<times> u64 \<Rightarrow> u64 \<Rightarrow> u64 \<Rightarrow> 'c \<Rightarrow> (ReturnStatus \<times> 'c) option" where
  "apply_memory_layout_helper ops t sizes header_ptr payload_ptr c = do {
     header_keys \<leftarrow> (if m_register_memory t then region_keys (m_num_of_mem_regions t) (m_header_mem_regions t) else Some []);
     payload_keys \<leftarrow> (if m_register_memory t then region_keys (m_num_of_mem_regions t) (m_payload_mem_regions t) else Some []);
     component_apply ops
       \<lparr>header_memory_ptr = header_ptr, payload_memory_ptr = payload_ptr, header_memory_size = fst sizes,
        payload_memory_size = snd sizes, register_memory = m_register_memory t,
        header_memory_keys = header_keys, payload_memory_keys = payload_keys\<rparr> c }"

fun strategy_apply_each ::
  "'c component_operations \<Rightarrow> 'c RmaxBaseMemoryStrategy \<Rightarrow> 'c list \<Rightarrow> (u64 \<times> u64) list \<Rightarrow> u64 \<Rightarrow> u64
    \<Rightarrow> (ReturnStatus \<times> 'c list) option" where
  "strategy_apply_each ops t [] sizes header_ptr payload_ptr = Some (success, [])"
| "strategy_apply_each ops t (c # cs) [] header_ptr payload_ptr = None"
| "strategy_apply_each ops t (c # cs) (sz # sizes) header_ptr payload_ptr = do {
     (status, c') \<leftarrow>
       (if m_app_allocated_memory t then apply_memory_layout_helper ops t sz header_ptr payload_ptr c
        else apply_memory_layout_helper ops t (0, 0) 0 0 c);
     if status \<noteq> success then Some (status, c' # cs)
     else do {
       (status, cs') \<leftarrow>
         (if m_app_allocated_memory t
          then strategy_apply_each ops t cs sizes (if header_ptr \<noteq> 0 then header_ptr + fst sz else 0) (payload_ptr + snd sz)
          else strategy_apply_each ops t cs sizes header_ptr payload_ptr);
       Some (status, c' # cs') } }"

definition strategy_apply_memory_layout ::
  "'c component_operations \<Rightarrow> 'c RmaxBaseMemoryStrategy \<Rightarrow> (ReturnStatus \<times> 'c RmaxBaseMemoryStrategy) option" where
  "strategy_apply_memory_layout ops t = do {
     (status, cs) \<leftarrow> strategy_apply_each ops t (m_memory_subcomponents t) (m_header_payload_subcomponents_buffer_sizes t)
       (strategy_header_buffer t) (strategy_payload_buffer t);
     Some (status, t\<lparr>m_memory_subcomponents := cs\<rparr>) }"

text \<open>The application runs the four steps; it stops at a step that returns \<open>failure\<close>.\<close>

definition configure_memory_layout ::
  "os_memory \<Rightarrow> rmx_memory \<Rightarrow> 'c component_operations \<Rightarrow> 'c RmaxBaseMemoryStrategy
    \<Rightarrow> (ReturnStatus \<times> 'c RmaxBaseMemoryStrategy) option" where
  "configure_memory_layout os rmx ops t = do {
     (rc, t) \<leftarrow> strategy_determine_memory_layout ops t;
     if rc = failure then Some (rc, t) else do {
     (rc, t) \<leftarrow> allocate_memory os t;
     if rc = failure then Some (rc, t) else do {
     (rc, t) \<leftarrow> strategy_register_memory rmx t;
     if rc = failure then Some (rc, t) else do {
     (rc, t) \<leftarrow> strategy_apply_memory_layout ops t;
     Some (if rc = failure then (rc, t) else (success, t)) } } } }"

definition receiver_operations :: "os_memory \<Rightarrow> IONodeMemoryUtils \<Rightarrow> 'flow ReceiverIONodeBase component_operations" where
  "receiver_operations os u = \<lparr>component_initialize = node_initialize_memory_layout os u,
     component_determine = node_determine_memory_layout, component_apply = node_apply_memory_layout\<rparr>"

section \<open>Placement\<close>

fun consecutive :: "(HeaderPayloadMemoryLayout \<Rightarrow> u64) \<Rightarrow> (HeaderPayloadMemoryLayout \<Rightarrow> u64) \<Rightarrow> nat \<Rightarrow> HeaderPayloadMemoryLayout list \<Rightarrow> bool" where
  "consecutive start room b [] = True"
| "consecutive start room b (l # ls) \<longleftrightarrow> unat (start l) = b \<and> consecutive start room (b + unat (room l)) ls"

text \<open>Applying one layout to each component in turn.\<close>

fun applied :: "(HeaderPayloadMemoryLayout \<Rightarrow> 'c \<Rightarrow> (ReturnStatus \<times> 'c) option) \<Rightarrow> HeaderPayloadMemoryLayout list \<Rightarrow> 'c list \<Rightarrow> 'c list \<Rightarrow> bool" where
  "applied ap [] [] [] = True"
| "applied ap (l # ls) (c # cs) (d # ds) \<longleftrightarrow> ap l c = Some (success, d) \<and> applied ap ls cs ds"
| "applied ap _ _ _ = False"

text \<open>The contract of a component, for the header or the payload part of a layout: once it is ready, the regions it
  uses after a layout was applied lie in the part of the buffer the layout gives it.\<close>

locale memory_component =
  fixes apply_op :: "HeaderPayloadMemoryLayout \<Rightarrow> 'c \<Rightarrow> (ReturnStatus \<times> 'c) option"
    and start :: "HeaderPayloadMemoryLayout \<Rightarrow> u64" and room :: "HeaderPayloadMemoryLayout \<Rightarrow> u64"
    and ready :: "'c \<Rightarrow> bool" and regions :: "'c \<Rightarrow> (nat \<times> nat) list"
  assumes apply_placed: "apply_op l c = Some (success, d) \<Longrightarrow> ready c \<Longrightarrow> unat (start l) + unat (room l) < 2 ^ 64 \<Longrightarrow>
    placed (unat (start l), unat (room l)) (regions d)"
begin

lemma all_placed:
  assumes "applied apply_op ls cs ds" "\<forall>c \<in> set cs. ready c" "consecutive start room b ls"
    and "b + sum_list (map (unat \<circ> room) ls) < 2 ^ 64"
  shows "placed (b, sum_list (map (unat \<circ> room) ls)) (concat (map regions ds))"
  using assms
proof (induction ls arbitrary: cs ds b)
  case Nil
  then show ?case by (cases cs; cases ds) simp_all
next
  case (Cons l ls)
  then obtain c cs' d ds' where cd: "cs = c # cs'" "ds = d # ds'" by (cases cs; cases ds) simp_all
  have "placed (unat (start l), unat (room l)) (regions d)"
    using Cons.prems cd by (intro apply_placed[of l c]) simp_all
  moreover have "placed (b + unat (room l), sum_list (map (unat \<circ> room) ls)) (concat (map regions ds'))"
    using Cons.prems cd by (intro Cons.IH[of cs']) (simp_all add: add.assoc)
  ultimately show ?case using Cons.prems(3) cd by (simp add: placed_append comp_def)
qed

end

text \<open>A null pointer stays null, any other one advances.\<close>

definition fits :: "u64 \<Rightarrow> u64 \<Rightarrow> u64 list \<Rightarrow> bool" where
  "fits base off rooms \<longleftrightarrow> (if base = 0 then sum_list (map unat rooms) = 0
     else unat base + unat off + sum_list (map unat rooms) < 2 ^ 64)"

definition pointer_at :: "u64 \<Rightarrow> u64 \<Rightarrow> u64" where
  "pointer_at base off = (if base \<noteq> 0 then base + off else 0)"

lemma fits_Cons:
  assumes "fits base off (r # rs)"
  shows "fits base (off + r) rs" "unat (pointer_at base (off + r)) = unat (pointer_at base off) + unat r"
proof -
  have "fits base (off + r) rs \<and> unat (pointer_at base (off + r)) = unat (pointer_at base off) + unat r"
  proof (cases "base = 0")
    case True
    then show ?thesis using assms by (simp add: fits_def pointer_at_def)
  next
    case False
    then have s: "unat base + unat off + (unat r + sum_list (map unat rs)) < 2 ^ 64" using assms by (simp add: fits_def)
    then have o: "unat (off + r) = unat off + unat r" "unat (base + off) = unat base + unat off"
      by (intro unat_add_no_wrap; simp)+
    moreover have "unat (base + (off + r)) = unat base + unat (off + r)"
      using s o by (intro unat_add_no_wrap) simp
    ultimately show ?thesis using False s by (simp add: fits_def pointer_at_def)
  qed
  then show "fits base (off + r) rs" "unat (pointer_at base (off + r)) = unat (pointer_at base off) + unat r" by simp_all
qed

section \<open>The streams of a node\<close>

definition block_region :: "rmx_mem_region option \<Rightarrow> (nat \<times> nat) list" where
  "block_region b = (case b of None \<Rightarrow> [] | Some r \<Rightarrow> [(unat (addr r), unat (region_length r))])"

text \<open>The redundant sub-streams share one region per buffer.\<close>

fun stream_payload_regions :: "'flow receive_stream \<Rightarrow> (nat \<times> nat) list" where
  "stream_payload_regions (Single s) = block_region (m_payload_block s)"
| "stream_payload_regions (Redundant p) = [(unat (ipo_payload_buffer p), unat (m_payload_buffer_size p))]"

fun stream_header_regions :: "'flow receive_stream \<Rightarrow> (nat \<times> nat) list" where
  "stream_header_regions (Single s) = block_region (m_header_block s)"
| "stream_header_regions (Redundant p) = [(unat (ipo_header_buffer p), unat (m_header_buffer_size p))]"

abbreviation stream_apply :: "HeaderPayloadMemoryLayout \<Rightarrow> 'flow receive_stream \<Rightarrow> (ReturnStatus \<times> 'flow receive_stream) option" where
  "stream_apply l s \<equiv> Some (receive_stream_apply l s)"

lemma single_apply_blocks:
  assumes "stream_apply_memory_layout l s = (success, s')"
  shows "\<forall>b. m_payload_block s' = Some b \<longrightarrow> addr b = payload_memory_ptr l \<and> region_length b \<le> payload_memory_size l"
    and "\<forall>b. m_header_block s' = Some b \<longrightarrow> addr b = header_memory_ptr l \<and> region_length b \<le> header_memory_size l"
  using assms
  by (auto simp: stream_apply_memory_layout_def stream_validate_memory_layout_def determine_memory_layout_helper_def
      set_buffers_def set_memory_keys_def Let_def not_less split: if_splits option.splits)

lemma ipo_apply_buffers:
  assumes "ipo_apply_memory_layout l p = (success, p')"
  shows "ipo_payload_buffer p' = payload_memory_ptr l \<and> m_payload_buffer_size p' \<le> payload_memory_size l"
    and "ipo_header_buffer p' = header_memory_ptr l \<and> m_header_buffer_size p' \<le> header_memory_size l"
  using assms
  by (auto simp: ipo_apply_memory_layout_def ipo_validate_memory_layout_def Let_def not_less split: if_splits prod.splits)

lemma receive_stream_applyE:
  assumes "receive_stream_apply l s = (success, d)"
  obtains s1 d1 where "s = Single s1" "d = Single d1" "stream_apply_memory_layout l s1 = (success, d1)"
    | p1 d1 where "s = Redundant p1" "d = Redundant d1" "ipo_apply_memory_layout l p1 = (success, d1)"
  using assms by (cases s) (auto simp: map_prod_def split: prod.splits)

interpretation stream_payload: memory_component stream_apply payload_memory_ptr payload_memory_size "\<lambda>_. True" stream_payload_regions
proof
  fix l and s d :: "'flow receive_stream"
  assume "stream_apply l s = Some (success, d)"
  then show "placed (unat (payload_memory_ptr l), unat (payload_memory_size l)) (stream_payload_regions d)"
    by (auto simp: placed_def block_region_def word_le_nat_alt elim!: receive_stream_applyE split: option.splits
        dest!: single_apply_blocks(1) ipo_apply_buffers(1))
qed

interpretation stream_header: memory_component stream_apply header_memory_ptr header_memory_size "\<lambda>_. True" stream_header_regions
proof
  fix l and s d :: "'flow receive_stream"
  assume "stream_apply l s = Some (success, d)"
  then show "placed (unat (header_memory_ptr l), unat (header_memory_size l)) (stream_header_regions d)"
    by (auto simp: placed_def block_region_def word_le_nat_alt elim!: receive_stream_applyE split: option.splits
        dest!: single_apply_blocks(2) ipo_apply_buffers(2))
qed

lemma stream_layout_fields:
  assumes "stream_layout l sz ho po = Some l'"
  shows "header_memory_ptr l' = pointer_at (header_memory_ptr l) ho" "payload_memory_ptr l' = payload_memory_ptr l + po"
    "header_memory_size l' = fst sz" "payload_memory_size l' = snd sz"
  using assms by (auto simp: stream_layout_def pointer_at_def bind_eq_Some_conv Let_def split: if_splits)

lemma subcomponent_applied:
  assumes "apply_memory_layout_for_subcomponent s l sz ho po = Some (success, s')"
  obtains l' where "stream_layout l sz ho po = Some l'" "receive_stream_apply l' s = (success, s')"
proof (cases "stream_layout l sz ho po")
  case None
  then show ?thesis using assms by (simp add: apply_memory_layout_for_subcomponent_def)
next
  case (Some l')
  then show ?thesis
    using assms that by (cases "receive_stream_apply l' s") (simp add: apply_memory_layout_for_subcomponent_def split: if_splits)
qed

lemma node_apply_streams_layouts:
  assumes "node_apply_streams l ss sizes ho po = Some (success, ss')"
  shows "\<exists>ls. applied stream_apply ls ss ss'
    \<and> (fits (header_memory_ptr l) ho (map fst sizes) \<longrightarrow>
       consecutive header_memory_ptr header_memory_size (unat (pointer_at (header_memory_ptr l) ho)) ls)
    \<and> (payload_memory_ptr l \<noteq> 0 \<and> fits (payload_memory_ptr l) po (map snd sizes) \<longrightarrow>
       consecutive payload_memory_ptr payload_memory_size (unat (pointer_at (payload_memory_ptr l) po)) ls)
    \<and> map header_memory_size ls = map fst (take (length ss) sizes)
    \<and> map payload_memory_size ls = map snd (take (length ss) sizes)"
  using assms
proof (induction l ss sizes ho po arbitrary: ss' rule: node_apply_streams.induct)
  case (1 l sizes ho po)
  then show ?case by (intro exI[of _ "[]"]) simp
next
  case (3 l s ss sz sizes ho po)
  obtain rc s' where sub: "apply_memory_layout_for_subcomponent s l sz ho po = Some (rc, s')"
    using "3.prems"(1) by (cases "apply_memory_layout_for_subcomponent s l sz ho po") auto
  have rc: "rc = success" using "3.prems"(1) sub by (auto split: if_splits)
  then obtain rest where rest: "node_apply_streams l ss sizes (ho + fst sz) (po + snd sz) = Some (success, rest)" "ss' = s' # rest"
    using "3.prems"(1) sub by (auto simp: bind_eq_Some_conv)
  obtain l' where l': "stream_layout l sz ho po = Some l'" "receive_stream_apply l' s = (success, s')"
    by (rule subcomponent_applied[OF sub[unfolded rc]])
  note ih = "3.IH"[OF sub refl _ rest(1)]
  obtain ls where ls: "applied stream_apply ls ss rest"
    "fits (header_memory_ptr l) (ho + fst sz) (map fst sizes) \<Longrightarrow>
       consecutive header_memory_ptr header_memory_size (unat (pointer_at (header_memory_ptr l) (ho + fst sz))) ls"
    "payload_memory_ptr l \<noteq> 0 \<Longrightarrow> fits (payload_memory_ptr l) (po + snd sz) (map snd sizes) \<Longrightarrow>
       consecutive payload_memory_ptr payload_memory_size (unat (pointer_at (payload_memory_ptr l) (po + snd sz))) ls"
    "map header_memory_size ls = map fst (take (length ss) sizes)"
    "map payload_memory_size ls = map snd (take (length ss) sizes)"
    using ih rc by auto
  note f = stream_layout_fields[OF l'(1)]
  have "fits (header_memory_ptr l) ho (map fst (sz # sizes)) \<longrightarrow>
      consecutive header_memory_ptr header_memory_size (unat (pointer_at (header_memory_ptr l) ho)) (l' # ls)"
    using ls(2) f fits_Cons[of _ _ "fst sz" "map fst sizes"] by auto
  moreover have "payload_memory_ptr l \<noteq> 0 \<and> fits (payload_memory_ptr l) po (map snd (sz # sizes)) \<longrightarrow>
      consecutive payload_memory_ptr payload_memory_size (unat (pointer_at (payload_memory_ptr l) po)) (l' # ls)"
    using ls(3) f fits_Cons[of "payload_memory_ptr l" po "snd sz" "map snd sizes"] by (auto simp: pointer_at_def)
  ultimately show ?case
    using ls(1,4,5) l'(2) rest(2) f by (intro exI[of _ "l' # ls"]) simp
qed simp

section \<open>Nodes\<close>

text \<open>The sizes a node or the strategy adds up fit 64 bits.\<close>

definition sizes_fit :: "(u64 \<times> u64) list \<Rightarrow> bool" where
  "sizes_fit sizes \<longleftrightarrow> sum_list (map (unat \<circ> fst) sizes) < 2 ^ 64 \<and> sum_list (map (unat \<circ> snd) sizes) < 2 ^ 64"

text \<open>A node is ready when it holds one aligned size per stream and their totals.\<close>

definition node_ready :: "'flow ReceiverIONodeBase \<Rightarrow> bool" where
  "node_ready n \<longleftrightarrow> length (m_aligned_header_payload_buffers_size n) = length (node_streams n)
     \<and> unat (m_header_total_memory_size n) = sum_list (map (unat \<circ> fst) (m_aligned_header_payload_buffers_size n))
     \<and> unat (m_payload_total_memory_size n) = sum_list (map (unat \<circ> snd) (m_aligned_header_payload_buffers_size n))"

definition node_payload_regions :: "'flow ReceiverIONodeBase \<Rightarrow> (nat \<times> nat) list" where
  "node_payload_regions n = concat (map stream_payload_regions (node_streams n))"

definition node_header_regions :: "'flow ReceiverIONodeBase \<Rightarrow> (nat \<times> nat) list" where
  "node_header_regions n = concat (map stream_header_regions (node_streams n))"

lemma collect_sizes_sums:
  assumes "collect_sizes os u ss (sizes, h, p) = Some (success, sizes', h', p')"
  shows "\<exists>more. sizes' = sizes @ more \<and> length more = length ss \<and> h' = h + sum_list (map fst more) \<and> p' = p + sum_list (map snd more)"
  using assms
proof (induction ss arbitrary: sizes h p)
  case (Cons s ss)
  obtain needed where n: "receive_stream_determine s = (success, needed)"
    using Cons.prems by (cases "receive_stream_determine s") (simp split: if_splits)
  then obtain sz where sz: "collect_sizes os u ss (sizes @ [sz], h + fst sz, p + snd sz) = Some (success, sizes', h', p')"
    using Cons.prems by (auto simp: bind_eq_Some_conv)
  obtain more where "sizes' = (sizes @ [sz]) @ more" "length more = length ss"
    "h' = h + fst sz + sum_list (map fst more)" "p' = p + snd sz + sum_list (map snd more)"
    using Cons.IH[OF sz] by blast
  then show ?case by (intro exI[of _ "sz # more"]) (simp add: add.assoc)
qed auto

lemma node_initialize_ready:
  assumes "node_initialize_memory_layout os u n = Some (success, n')" "sizes_fit (m_aligned_header_payload_buffers_size n')"
  shows "node_ready n'" "node_streams n' = node_streams n"
proof -
  obtain rc sizes h p where c: "collect_sizes os u (node_streams n) ([], 0, 0) = Some (rc, sizes, h, p)"
    using assms(1) by (cases "collect_sizes os u (node_streams n) ([], 0, 0)") (auto simp: node_initialize_memory_layout_def)
  have rc: "rc = success"
    using assms(1) c by (auto simp: node_initialize_memory_layout_def Let_def split: if_splits)
  have n': "n' = n\<lparr>m_header_total_memory_size := h, m_payload_total_memory_size := p, m_aligned_header_payload_buffers_size := sizes\<rparr>"
    using assms(1) c rc by (auto simp: node_initialize_memory_layout_def Let_def)
  then show "node_ready n'" "node_streams n' = node_streams n"
    using collect_sizes_sums[OF c[unfolded rc]] assms(2) unat_sum_list[of "map fst sizes"] unat_sum_list[of "map snd sizes"]
    by (auto simp: node_ready_def sizes_fit_def comp_def)
qed

lemma node_apply_success:
  assumes "node_apply_memory_layout l n = Some (success, d)"
  shows "node_validate_memory_layout l n = success"
    and "node_apply_streams l (node_streams n) (m_aligned_header_payload_buffers_size n) 0 0 = Some (success, node_streams d)"
  using assms by (auto simp: node_apply_memory_layout_def Let_def bind_eq_Some_conv split: if_splits)

lemma node_validate_success:
  assumes "node_validate_memory_layout l n = success"
  shows "payload_memory_ptr l \<noteq> 0" "unat (m_payload_total_memory_size n) \<le> unat (payload_memory_size l)"
    "m_header_total_memory_size n > 0 \<Longrightarrow> header_memory_ptr l \<noteq> 0" "unat (m_header_total_memory_size n) \<le> unat (header_memory_size l)"
  using assms by (auto simp: node_validate_memory_layout_def word_le_nat_alt not_less split: if_splits)

interpretation node_payload: memory_component node_apply_memory_layout payload_memory_ptr payload_memory_size node_ready
  node_payload_regions
proof
  fix l and n d :: "'flow ReceiverIONodeBase"
  assume a: "node_apply_memory_layout l n = Some (success, d)" and r: "node_ready n"
    and w: "unat (payload_memory_ptr l) + unat (payload_memory_size l) < 2 ^ 64"
  note v = node_validate_success[OF node_apply_success(1)[OF a]]
  let ?sizes = "m_aligned_header_payload_buffers_size n"
  have total: "sum_list (map unat (map snd ?sizes)) = unat (m_payload_total_memory_size n)"
    and len: "length ?sizes = length (node_streams n)"
    using r by (simp_all add: node_ready_def comp_def)
  obtain ls where ls: "applied stream_apply ls (node_streams n) (node_streams d)" "map payload_memory_size ls = map snd ?sizes"
    "fits (payload_memory_ptr l) 0 (map snd ?sizes) \<Longrightarrow>
       consecutive payload_memory_ptr payload_memory_size (unat (pointer_at (payload_memory_ptr l) 0)) ls"
    using node_apply_streams_layouts[OF node_apply_success(2)[OF a]] v(1) len by auto
  have sum: "sum_list (map (unat \<circ> payload_memory_size) ls) = unat (m_payload_total_memory_size n)"
    using ls(2) total by (metis map_map)
  have "fits (payload_memory_ptr l) 0 (map snd ?sizes)"
    using v(1,2) w total by (simp add: fits_def)
  then have "placed (unat (payload_memory_ptr l), unat (m_payload_total_memory_size n)) (node_payload_regions d)"
    using stream_payload.all_placed[OF ls(1), of "unat (payload_memory_ptr l)"] ls(3) sum v(1,2) w
    by (simp add: pointer_at_def node_payload_regions_def)
  then show "placed (unat (payload_memory_ptr l), unat (payload_memory_size l)) (node_payload_regions d)"
    using v(2) by (rule placed_mono)
qed

interpretation node_header: memory_component node_apply_memory_layout header_memory_ptr header_memory_size node_ready
  node_header_regions
proof
  fix l and n d :: "'flow ReceiverIONodeBase"
  assume a: "node_apply_memory_layout l n = Some (success, d)" and r: "node_ready n"
    and w: "unat (header_memory_ptr l) + unat (header_memory_size l) < 2 ^ 64"
  note v = node_validate_success[OF node_apply_success(1)[OF a]]
  let ?sizes = "m_aligned_header_payload_buffers_size n"
  have total: "sum_list (map unat (map fst ?sizes)) = unat (m_header_total_memory_size n)"
    and len: "length ?sizes = length (node_streams n)"
    using r by (simp_all add: node_ready_def comp_def)
  obtain ls where ls: "applied stream_apply ls (node_streams n) (node_streams d)" "map header_memory_size ls = map fst ?sizes"
    "fits (header_memory_ptr l) 0 (map fst ?sizes) \<Longrightarrow>
       consecutive header_memory_ptr header_memory_size (unat (pointer_at (header_memory_ptr l) 0)) ls"
    using node_apply_streams_layouts[OF node_apply_success(2)[OF a]] len by auto
  have sum: "sum_list (map (unat \<circ> header_memory_size) ls) = unat (m_header_total_memory_size n)"
    using ls(2) total by (metis map_map)
  have "header_memory_ptr l = 0 \<Longrightarrow> m_header_total_memory_size n = 0" using v(3) by (metis word_neq_0_conv)
  then have "fits (header_memory_ptr l) 0 (map fst ?sizes)"
    using v(4) w total by (simp add: fits_def del: sum_list_eq_0_iff)
  then have "placed (unat (header_memory_ptr l), unat (m_header_total_memory_size n)) (node_header_regions d)"
    using stream_header.all_placed[OF ls(1), of "unat (header_memory_ptr l)"] ls(3) sum v(4) w
    by (simp add: pointer_at_def node_header_regions_def split: if_splits)
  then show "placed (unat (header_memory_ptr l), unat (header_memory_size l)) (node_header_regions d)"
    using v(4) by (rule placed_mono)
qed

section \<open>The strategy\<close>

lemma fits_advance:
  assumes "fits p 0 (r # rs)"
  shows "unat (pointer_at p r) = unat p + unat r" "fits (pointer_at p r) 0 rs" "p \<noteq> 0 \<Longrightarrow> pointer_at p r \<noteq> 0"
proof -
  have adv: "unat (pointer_at p r) = unat p + unat r"
    using fits_Cons(2)[OF assms] by (simp add: pointer_at_def)
  then show nz: "p \<noteq> 0 \<Longrightarrow> pointer_at p r \<noteq> 0" by (metis add_is_0 unat_0 unat_eq_zero)
  show "fits (pointer_at p r) 0 rs"
    using assms adv nz by (cases "p = 0") (simp_all add: fits_def, simp add: pointer_at_def)
  show "unat (pointer_at p r) = unat p + unat r" by (rule adv)
qed

lemma helper_layout:
  assumes "apply_memory_layout_helper ops t sz hp pp c = Some r"
  obtains l where "component_apply ops l c = Some r" "header_memory_ptr l = hp" "payload_memory_ptr l = pp"
    "header_memory_size l = fst sz" "payload_memory_size l = snd sz"
  using assms by (auto simp: apply_memory_layout_helper_def bind_eq_Some_conv split: if_splits)

lemma strategy_apply_each_layouts:
  assumes "strategy_apply_each ops t cs sizes hp pp = Some (success, cs')" "m_app_allocated_memory t"
  shows "\<exists>ls. applied (component_apply ops) ls cs cs'
    \<and> (fits hp 0 (map fst sizes) \<longrightarrow> consecutive header_memory_ptr header_memory_size (unat hp) ls)
    \<and> (pp \<noteq> 0 \<and> fits pp 0 (map snd sizes) \<longrightarrow> consecutive payload_memory_ptr payload_memory_size (unat pp) ls)
    \<and> map header_memory_size ls = map fst (take (length cs) sizes)
    \<and> map payload_memory_size ls = map snd (take (length cs) sizes)"
  using assms(1)
proof (induction cs arbitrary: sizes hp pp cs')
  case Nil
  then show ?case by (intro exI[of _ "[]"]) simp
next
  case (Cons c cs)
  then obtain sz rest where sizes: "sizes = sz # rest" by (cases sizes) simp_all
  obtain st c' where h: "apply_memory_layout_helper ops t sz hp pp c = Some (st, c')"
    using Cons.prems sizes assms(2) by (cases "apply_memory_layout_helper ops t sz hp pp c") auto
  then have st: "st = success" using Cons.prems sizes assms(2) by (auto split: if_splits)
  obtain ds where ds: "strategy_apply_each ops t cs rest (pointer_at hp (fst sz)) (pp + snd sz) = Some (success, ds)" "cs' = c' # ds"
    using Cons.prems sizes assms(2) h st by (auto simp: bind_eq_Some_conv pointer_at_def)
  obtain l where l: "component_apply ops l c = Some (success, c')" "header_memory_ptr l = hp" "payload_memory_ptr l = pp"
    "header_memory_size l = fst sz" "payload_memory_size l = snd sz"
    by (rule helper_layout[OF h[unfolded st]])
  obtain ls where ls: "applied (component_apply ops) ls cs ds"
    "fits (pointer_at hp (fst sz)) 0 (map fst rest) \<Longrightarrow> consecutive header_memory_ptr header_memory_size (unat (pointer_at hp (fst sz))) ls"
    "pp + snd sz \<noteq> 0 \<Longrightarrow> fits (pp + snd sz) 0 (map snd rest) \<Longrightarrow> consecutive payload_memory_ptr payload_memory_size (unat (pp + snd sz)) ls"
    "map header_memory_size ls = map fst (take (length cs) rest)" "map payload_memory_size ls = map snd (take (length cs) rest)"
    using Cons.IH[OF ds(1)] by auto
  have "fits hp 0 (map fst sizes) \<longrightarrow> consecutive header_memory_ptr header_memory_size (unat hp) (l # ls)"
    using ls(2) l(2,4) fits_advance[of hp "fst sz" "map fst rest"] by (auto simp: sizes)
  moreover have "pp \<noteq> 0 \<and> fits pp 0 (map snd sizes) \<longrightarrow> consecutive payload_memory_ptr payload_memory_size (unat pp) (l # ls)"
    using ls(3) l(3,5) fits_advance[of pp "snd sz" "map snd rest"] by (auto simp: sizes pointer_at_def)
  ultimately show ?case
    using ls(1,4,5) l ds(2) sizes by (intro exI[of _ "l # ls"]) simp
qed

text \<open>The receivers return no other status than \<open>success\<close> and \<open>failure\<close>.\<close>

lemma single_apply_status: "fst (stream_apply_memory_layout l s) \<in> {success, failure}"
  by (auto simp: stream_apply_memory_layout_def stream_validate_memory_layout_def determine_memory_layout_helper_def Let_def
      split: option.split)

lemma ipo_apply_streams_status: "fst (ipo_apply_streams l i ss) \<in> {success, failure}"
proof (induction ss arbitrary: i)
  case (Cons s ss)
  then show ?case
    using single_apply_status[of "sub_stream_layout l i" s] Cons.IH[of "i + 1"] by (auto simp: case_prod_beta Let_def)
qed simp

lemma receive_stream_apply_status: "fst (receive_stream_apply l s) \<in> {success, failure}"
proof (cases s)
  case (Redundant p)
  have "fst (ipo_apply_memory_layout l p) \<in> {success, failure}"
    using ipo_apply_streams_status[of l 0 "redundant_streams p"]
    by (simp add: ipo_apply_memory_layout_def ipo_validate_memory_layout_def Let_def case_prod_beta)
  then show ?thesis using Redundant by (cases "ipo_apply_memory_layout l p") simp
qed (use single_apply_status in \<open>simp add: map_prod_def case_prod_beta\<close>)

lemma node_apply_streams_status: "node_apply_streams l ss sizes ho po = Some (st, ss') \<Longrightarrow> st \<in> {success, failure}"
proof (induction l ss sizes ho po arbitrary: st ss' rule: node_apply_streams.induct)
  case (3 l s ss sz sizes ho po)
  obtain rc s' where sub: "apply_memory_layout_for_subcomponent s l sz ho po = Some (rc, s')"
    using "3.prems"(1) by (cases "apply_memory_layout_for_subcomponent s l sz ho po") auto
  then obtain l' where "receive_stream_apply l' s = (rc, s')"
    by (cases "stream_layout l sz ho po"; cases "receive_stream_apply (the (stream_layout l sz ho po)) s")
       (simp_all add: apply_memory_layout_for_subcomponent_def split: if_splits)
  then have "rc \<in> {success, failure}" using receive_stream_apply_status[of l' s] by simp
  then show ?case using "3.prems" "3.IH"[OF sub refl] sub by (auto simp: bind_eq_Some_conv)
qed auto

lemma node_apply_status: "node_apply_memory_layout l n = Some (st, d) \<Longrightarrow> st \<in> {success, failure}"
  using node_apply_streams_status[of l "node_streams n" "m_aligned_header_payload_buffers_size n" 0 0 st]
  by (auto simp: node_apply_memory_layout_def node_validate_memory_layout_def Let_def bind_eq_Some_conv split: if_splits)

lemma strategy_apply_each_status:
  assumes "strategy_apply_each ops t cs sizes hp pp = Some (st, cs')" "m_app_allocated_memory t"
    and "\<And>l c st d. component_apply ops l c = Some (st, d) \<Longrightarrow> st \<in> {success, failure}"
  shows "st \<in> {success, failure}"
  using assms(1)
proof (induction cs arbitrary: sizes hp pp cs')
  case (Cons c cs)
  then obtain sz rest where sizes: "sizes = sz # rest" by (cases sizes) simp_all
  obtain rc c' where h: "apply_memory_layout_helper ops t sz hp pp c = Some (rc, c')"
    using Cons.prems sizes assms(2) by (cases "apply_memory_layout_helper ops t sz hp pp c") auto
  then have "rc \<in> {success, failure}" by (rule helper_layout) (rule assms(3))
  then show ?case using Cons.prems Cons.IH sizes assms(2) h by (auto simp: bind_eq_Some_conv)
qed simp

lemma determine_each_sums:
  assumes "determine_each ops cs (sizes, h, p) = (success, sizes', h', p')"
  shows "\<exists>more. sizes' = sizes @ more \<and> length more = length cs \<and> h' = h + sum_list (map fst more) \<and> p' = p + sum_list (map snd more)"
  using assms
proof (induction cs arbitrary: sizes h p)
  case (Cons c cs)
  obtain sz where "component_determine ops c = (success, sz)"
    using Cons.prems by (cases "component_determine ops c") (simp split: if_splits)
  then have "determine_each ops cs (sizes @ [sz], h + fst sz, p + snd sz) = (success, sizes', h', p')"
    using Cons.prems by simp
  then obtain more where "sizes' = (sizes @ [sz]) @ more" "length more = length cs"
    "h' = h + fst sz + sum_list (map fst more)" "p' = p + snd sz + sum_list (map snd more)"
    using Cons.IH by blast
  then show ?case by (intro exI[of _ "sz # more"]) (simp add: add.assoc)
qed auto

text \<open>What the first three steps establish, when the sizes of the components fit.\<close>

definition strategy_ready :: "('c \<Rightarrow> bool) \<Rightarrow> ('c \<Rightarrow> bool) \<Rightarrow> 'c RmaxBaseMemoryStrategy \<Rightarrow> bool" where
  "strategy_ready fit ready t \<longleftrightarrow> length (m_header_payload_subcomponents_buffer_sizes t) = length (m_memory_subcomponents t)
     \<and> m_header_memory_size t = sum_list (map fst (m_header_payload_subcomponents_buffer_sizes t))
     \<and> m_payload_memory_size t = sum_list (map snd (m_header_payload_subcomponents_buffer_sizes t))
     \<and> ((\<forall>c \<in> set (m_memory_subcomponents t). fit c) \<longrightarrow> (\<forall>c \<in> set (m_memory_subcomponents t). ready c))"

lemma allocate_memory_effect:
  assumes "allocate_memory os t = Some (rc, t')" "m_app_allocated_memory t" "\<not> m_memory_allocated t"
  shows "rc \<in> {success, failure}"
    and "rc = success \<Longrightarrow> m_memory_layout_determined t \<and> strategy_payload_buffer t' \<noteq> 0
      \<and> (m_header_memory_size t \<noteq> 0 \<longrightarrow> strategy_header_buffer t' \<noteq> 0)"
    and "strategy_ready fit ready t \<Longrightarrow> strategy_ready fit ready t'" "m_app_allocated_memory t'"
  using assms by (auto simp: allocate_memory_def strategy_allocate_aligned_def strategy_ready_def bind_eq_Some_conv split: if_splits)

text \<open>The requests of the strategy, aligned to pages, fit the address space, and the blocks of its two allocators do
  not overlap.\<close>

definition allocations_sound :: "os_memory \<Rightarrow> 'c RmaxBaseMemoryStrategy \<Rightarrow> bool" where
  "allocations_sound os t \<longleftrightarrow> alignable_request os (m_header_allocator t) (m_header_memory_size t)
     \<and> alignable_request os (m_payload_allocator t) (m_payload_memory_size t)
     \<and> live_blocks_apart (m_header_allocator t) (m_payload_allocator t)"

definition header_buffer_region :: "'c RmaxBaseMemoryStrategy \<Rightarrow> nat \<times> nat" where
  "header_buffer_region t = (unat (strategy_header_buffer t), unat (m_header_memory_size t))"

definition payload_buffer_region :: "'c RmaxBaseMemoryStrategy \<Rightarrow> nat \<times> nat" where
  "payload_buffer_region t = (unat (strategy_payload_buffer t), unat (m_payload_memory_size t))"

lemma live_blocks_apart_within:
  assumes "live_blocks_apart a a'" "b \<in> set (memory_blocks a)" "b' \<in> set (memory_blocks a')"
    and "fst b \<le> fst r" "fst r + snd r < fst b + snd b" "fst b' \<le> fst r'" "fst r' + snd r' < fst b' + snd b'"
  shows "fst r + snd r < 2 ^ 64" "fst r' + snd r' < 2 ^ 64" "apart r r'"
proof -
  have "fst b + snd b \<le> 2 ^ 64" "fst b' + snd b' \<le> 2 ^ 64" "apart b b'"
    using assms(1-3) by (auto simp: live_blocks_apart_def sorted_wrt_append)
  then show "fst r + snd r < 2 ^ 64" "fst r' + snd r' < 2 ^ 64" "apart r r'"
    using assms(4-7) unfolding apart_def by linarith+
qed

lemma allocate_memory_buffers:
  assumes "allocate_memory os t = Some (success, t')" "m_app_allocated_memory t" "\<not> m_memory_allocated t"
    and "allocations_sound os t'"
  shows "unat (strategy_payload_buffer t') + unat (m_payload_memory_size t') < 2 ^ 64
    \<and> unat (strategy_header_buffer t') + unat (m_header_memory_size t') < 2 ^ 64
    \<and> apart (header_buffer_region t') (payload_buffer_region t')"
proof -
  let ?h = "m_header_memory_size t" and ?pl = "m_payload_memory_size t" and ?a = "m_header_allocator t"
  obtain hp ha pp pa where h: "(if ?h \<noteq> 0 then allocate_aligned os ?a ?h (get_page_size os ?a) else Some (0, ?a)) = Some (hp, ha)"
    and p: "allocate_aligned os (m_payload_allocator t) ?pl (get_page_size os (m_payload_allocator t)) = Some (pp, pa)"
    and nz: "pp \<noteq> 0" "?h = 0 \<or> hp \<noteq> 0"
    and t': "t' = t\<lparr>m_header_allocator := ha, m_payload_allocator := pa, strategy_header_buffer := hp,
         strategy_payload_buffer := pp, m_memory_allocated := True\<rparr>"
    using assms(1-3) by (auto simp: allocate_memory_def strategy_allocate_aligned_def bind_eq_Some_conv split: if_splits)
  have sound: "alignable_request os ha ?h" "alignable_request os pa ?pl" "live_blocks_apart ha pa"
    using assms(4) by (simp_all add: t' allocations_sound_def)
  have limits: "\<forall>b \<in> set (memory_blocks ha). fst b + snd b \<le> 2 ^ 64" "\<forall>b \<in> set (memory_blocks pa). fst b + snd b \<le> 2 ^ 64"
    using sound(3) by (auto simp: live_blocks_apart_def)
  obtain b' where b': "b' \<in> set (memory_blocks pa)" "fst b' \<le> unat pp" "unat pp + unat ?pl < fst b' + snd b'"
    using allocate_page_aligned_in_block[OF p nz(1) sound(2) limits(2)] by blast
  show ?thesis
  proof (cases "?h = 0")
    case True
    then have "hp = 0" using h by simp
    then show ?thesis
      using True b' limits(2) by (force simp: t' apart_def header_buffer_region_def payload_buffer_region_def)
  next
    case False
    then have "allocate_aligned os ?a ?h (get_page_size os ?a) = Some (hp, ha)" "hp \<noteq> 0" using h nz(2) by simp_all
    then obtain b where b: "b \<in> set (memory_blocks ha)" "fst b \<le> unat hp" "unat hp + unat ?h < fst b + snd b"
      using allocate_page_aligned_in_block[OF _ _ sound(1) limits(1)] by blast
    show ?thesis
      using live_blocks_apart_within[OF sound(3) b(1) b'(1), of "(unat hp, unat ?h)" "(unat pp, unat ?pl)"] b(2,3) b'(2,3)
      by (simp add: t' header_buffer_region_def payload_buffer_region_def)
  qed
qed

lemma register_effect:
  assumes "strategy_register_memory rmx t = Some (rc, t')"
  shows "strategy_payload_buffer t' = strategy_payload_buffer t" "strategy_header_buffer t' = strategy_header_buffer t"
    "m_app_allocated_memory t' = m_app_allocated_memory t" "strategy_ready fit ready t' = strategy_ready fit ready t"
    "m_header_memory_size t' = m_header_memory_size t" "m_payload_memory_size t' = m_payload_memory_size t"
    "m_header_allocator t' = m_header_allocator t" "m_payload_allocator t' = m_payload_allocator t"
proof -
  let ?n = "m_num_of_mem_regions t"
  let ?headers = "register_regions rmx (m_device_interfaces t) (strategy_header_buffer t) (m_header_memory_size t) 0
    (resize_regions ?n (m_header_mem_regions t))"
  let ?payloads = "register_regions rmx (m_device_interfaces t) (strategy_payload_buffer t) (m_payload_memory_size t) 0
    (resize_regions ?n (m_payload_mem_regions t))"
  have "strategy_payload_buffer t' = strategy_payload_buffer t \<and> strategy_header_buffer t' = strategy_header_buffer t
    \<and> m_app_allocated_memory t' = m_app_allocated_memory t \<and> m_header_memory_size t' = m_header_memory_size t
    \<and> m_payload_memory_size t' = m_payload_memory_size t \<and> m_memory_subcomponents t' = m_memory_subcomponents t
    \<and> m_header_payload_subcomponents_buffer_sizes t' = m_header_payload_subcomponents_buffer_sizes t
    \<and> m_header_allocator t' = m_header_allocator t \<and> m_payload_allocator t' = m_payload_allocator t"
  proof (cases ?headers)
    case None
    then show ?thesis using assms by (auto simp: strategy_register_memory_def Let_def split: if_splits)
  next
    case (Some hs)
    then show ?thesis
      using assms
      by (cases hs; cases ?payloads)
         (auto simp: strategy_register_memory_def Let_def split: if_splits)
  qed
  then show "strategy_payload_buffer t' = strategy_payload_buffer t" "strategy_header_buffer t' = strategy_header_buffer t"
    "m_app_allocated_memory t' = m_app_allocated_memory t" "strategy_ready fit ready t' = strategy_ready fit ready t"
    "m_header_memory_size t' = m_header_memory_size t" "m_payload_memory_size t' = m_payload_memory_size t"
    "m_header_allocator t' = m_header_allocator t" "m_payload_allocator t' = m_payload_allocator t"
    by (simp_all add: strategy_ready_def)
qed

lemma strategy_determine_flags:
  assumes "strategy_determine_memory_layout ops t = Some (rc, t')"
  shows "m_app_allocated_memory t' = m_app_allocated_memory t" "m_memory_allocated t' = m_memory_allocated t"
  using assms by (auto simp: strategy_determine_memory_layout_def Let_def bind_eq_Some_conv split: if_splits prod.splits)

lemma allocate_memory_sizes:
  assumes "allocate_memory os t = Some (rc, t')"
  shows "m_header_memory_size t' = m_header_memory_size t"
  using assms by (auto simp: allocate_memory_def strategy_allocate_aligned_def bind_eq_Some_conv split: if_splits)

text \<open>The contract of the subcomponents of an application: they are memory components for both buffers, they are
  ready once they have been initialised with sizes that fit, applying keeps the sizes, and returns no other status
  than \<open>success\<close> and \<open>failure\<close>.\<close>

locale memory_subcomponents =
  payload: memory_component "component_apply ops" payload_memory_ptr payload_memory_size ready payload_regions +
  header: memory_component "component_apply ops" header_memory_ptr header_memory_size ready header_regions
  for ops :: "'c component_operations" and ready :: "'c \<Rightarrow> bool" and payload_regions header_regions :: "'c \<Rightarrow> (nat \<times> nat) list" +
  fixes fit :: "'c \<Rightarrow> bool"
  assumes initialize_ready: "component_initialize ops c = Some (success, d) \<Longrightarrow> fit d \<Longrightarrow> ready d"
    and apply_status: "component_apply ops l c = Some (st, d) \<Longrightarrow> st \<in> {success, failure}"
    and apply_fit: "component_apply ops l c = Some (st, d) \<Longrightarrow> fit d = fit c"
begin

lemma initialize_each_ready:
  assumes "initialize_each ops cs = Some (success, ds)" "\<forall>d \<in> set ds. fit d"
  shows "\<forall>d \<in> set ds. ready d"
  using assms
proof (induction cs arbitrary: ds)
  case (Cons c cs)
  then obtain d rest where "component_initialize ops c = Some (success, d)" "initialize_each ops cs = Some (success, rest)" "ds = d # rest"
    by (auto simp: bind_eq_Some_conv split: if_splits)
  then show ?case using Cons.IH Cons.prems(2) initialize_ready by auto
qed simp

lemma strategy_determine_ready:
  assumes "strategy_determine_memory_layout ops t = Some (rc, t')" "\<not> m_memory_layout_determined t" "m_memory_layout_determined t'"
  shows "strategy_ready fit ready t'"
proof -
  obtain st cs where cs: "initialize_each ops (m_memory_subcomponents t) = Some (st, cs)"
    using assms(1,2) by (cases "initialize_each ops (m_memory_subcomponents t)") (auto simp: strategy_determine_memory_layout_def)
  obtain st' sizes h p where d: "determine_each ops cs ([], 0, 0) = (st', sizes, h, p)"
    by (metis surj_pair)
  have ok: "st = success" "st' = success"
    using assms cs d by (auto simp: strategy_determine_memory_layout_def Let_def split: if_splits)
  have "t' = t\<lparr>m_memory_subcomponents := cs, m_header_memory_size := h, m_payload_memory_size := p,
      m_header_payload_subcomponents_buffer_sizes := sizes, m_memory_layout_determined := True\<rparr>"
    using assms cs d ok by (auto simp: strategy_determine_memory_layout_def Let_def)
  then show ?thesis
    using determine_each_sums[OF d[unfolded ok]] initialize_each_ready[OF cs[unfolded ok]] by (auto simp: strategy_ready_def)
qed

lemma strategy_apply_effect:
  assumes "strategy_apply_memory_layout ops t = Some (rc, t')" "rc \<noteq> failure" "m_app_allocated_memory t"
  shows "strategy_apply_each ops t (m_memory_subcomponents t) (m_header_payload_subcomponents_buffer_sizes t)
      (strategy_header_buffer t) (strategy_payload_buffer t) = Some (success, m_memory_subcomponents t')"
    and "t' = t\<lparr>m_memory_subcomponents := m_memory_subcomponents t'\<rparr>"
proof -
  obtain cs where a: "strategy_apply_each ops t (m_memory_subcomponents t)
      (m_header_payload_subcomponents_buffer_sizes t) (strategy_header_buffer t) (strategy_payload_buffer t) = Some (rc, cs)"
    and t': "t' = t\<lparr>m_memory_subcomponents := cs\<rparr>"
    using assms(1) by (auto simp: strategy_apply_memory_layout_def bind_eq_Some_conv)
  have "rc \<in> {success, failure}" by (rule strategy_apply_each_status[OF a assms(3)]) (rule apply_status)
  then show "strategy_apply_each ops t (m_memory_subcomponents t) (m_header_payload_subcomponents_buffer_sizes t)
      (strategy_header_buffer t) (strategy_payload_buffer t) = Some (success, m_memory_subcomponents t')"
    and "t' = t\<lparr>m_memory_subcomponents := m_memory_subcomponents t'\<rparr>"
    using a t' assms(2) by simp_all
qed

lemma applied_fit: "applied (component_apply ops) ls cs ds \<Longrightarrow> (\<forall>d \<in> set ds. fit d) = (\<forall>c \<in> set cs. fit c)"
proof (induction ls arbitrary: cs ds)
  case Nil
  then show ?case by (cases cs; cases ds) simp_all
next
  case (Cons l ls)
  then show ?case by (cases cs; cases ds) (auto dest: apply_fit)
qed

lemma strategy_apply_placed:
  assumes "strategy_apply_memory_layout ops t = Some (rc, t')" "rc \<noteq> failure" "m_app_allocated_memory t"
    and "strategy_ready fit ready t" "strategy_payload_buffer t \<noteq> 0" "m_header_memory_size t \<noteq> 0 \<longrightarrow> strategy_header_buffer t \<noteq> 0"
    and "sizes_fit (m_header_payload_subcomponents_buffer_sizes t')" "\<forall>c \<in> set (m_memory_subcomponents t'). fit c"
    and "unat (strategy_payload_buffer t') + unat (m_payload_memory_size t') < 2 ^ 64"
    and "unat (strategy_header_buffer t') + unat (m_header_memory_size t') < 2 ^ 64"
  shows "placed (unat (strategy_payload_buffer t'), unat (m_payload_memory_size t'))
      (concat (map payload_regions (m_memory_subcomponents t')))
    \<and> placed (unat (strategy_header_buffer t'), unat (m_header_memory_size t'))
      (concat (map header_regions (m_memory_subcomponents t')))"
proof -
  note ap = strategy_apply_effect[OF assms(1-3)]
  let ?cs = "m_memory_subcomponents t" and ?ds = "m_memory_subcomponents t'"
  let ?sizes = "m_header_payload_subcomponents_buffer_sizes t"
  have same: "strategy_payload_buffer t' = strategy_payload_buffer t" "strategy_header_buffer t' = strategy_header_buffer t"
    "m_payload_memory_size t' = m_payload_memory_size t" "m_header_memory_size t' = m_header_memory_size t"
    "m_header_payload_subcomponents_buffer_sizes t' = ?sizes"
    by (subst ap(2), simp)+
  have r: "length ?sizes = length ?cs" "m_header_memory_size t = sum_list (map fst ?sizes)"
    "m_payload_memory_size t = sum_list (map snd ?sizes)"
    using assms(4) by (simp_all add: strategy_ready_def)
  have sums: "sum_list (map unat (map fst ?sizes)) = unat (m_header_memory_size t)"
    "sum_list (map unat (map snd ?sizes)) = unat (m_payload_memory_size t)"
    using assms(7) r(2,3) unat_sum_list[of "map fst ?sizes"] unat_sum_list[of "map snd ?sizes"] same(5)
    by (simp_all add: sizes_fit_def comp_def)
  have fits: "fits (strategy_header_buffer t) 0 (map fst ?sizes)" "fits (strategy_payload_buffer t) 0 (map snd ?sizes)"
    unfolding fits_def sums using assms(5,6,9,10) same by auto
  obtain ls where ls: "applied (component_apply ops) ls ?cs ?ds"
    "consecutive header_memory_ptr header_memory_size (unat (strategy_header_buffer t)) ls"
    "consecutive payload_memory_ptr payload_memory_size (unat (strategy_payload_buffer t)) ls"
    "map header_memory_size ls = map fst ?sizes" "map payload_memory_size ls = map snd ?sizes"
    using strategy_apply_each_layouts[OF ap(1) assms(3)] fits assms(5) r(1) by auto
  have ready: "\<forall>c \<in> set ?cs. ready c"
    using assms(4,8) applied_fit[OF ls(1)] by (simp add: strategy_ready_def)
  have "sum_list (map (unat \<circ> payload_memory_size) ls) = unat (m_payload_memory_size t)"
    "sum_list (map (unat \<circ> header_memory_size) ls) = unat (m_header_memory_size t)"
    using sums ls(4,5) by (metis map_map)+
  then show ?thesis
    using payload.all_placed[OF ls(1) ready ls(3)] header.all_placed[OF ls(1) ready ls(2)] assms(9,10) same by simp
qed

lemma configured_placed:
  assumes "configure_memory_layout os rmx ops t0 = Some (success, t)"
    and "\<not> m_memory_layout_determined t0" "\<not> m_memory_allocated t0" "m_app_allocated_memory t0"
    and "sizes_fit (m_header_payload_subcomponents_buffer_sizes t)" "\<forall>c \<in> set (m_memory_subcomponents t). fit c"
    and "allocations_sound os t"
  shows "placed (payload_buffer_region t) (concat (map payload_regions (m_memory_subcomponents t)))
    \<and> placed (header_buffer_region t) (concat (map header_regions (m_memory_subcomponents t)))
    \<and> sorted_wrt apart (concat (map header_regions (m_memory_subcomponents t))
        @ concat (map payload_regions (m_memory_subcomponents t)))"
proof -
  obtain rc1 t1 where t1: "strategy_determine_memory_layout ops t0 = Some (rc1, t1)" "rc1 \<noteq> failure"
    using assms(1) by (auto simp: configure_memory_layout_def bind_eq_Some_conv split: if_splits)
  obtain rc2 t2 where t2: "allocate_memory os t1 = Some (rc2, t2)" "rc2 \<noteq> failure"
    using assms(1) t1 by (auto simp: configure_memory_layout_def bind_eq_Some_conv split: if_splits)
  obtain rc3 t3 where t3: "strategy_register_memory rmx t2 = Some (rc3, t3)" "rc3 \<noteq> failure"
    using assms(1) t1 t2 by (auto simp: configure_memory_layout_def bind_eq_Some_conv split: if_splits)
  obtain rc4 where t4: "strategy_apply_memory_layout ops t3 = Some (rc4, t)" "rc4 \<noteq> failure"
    using assms(1) t1 t2 t3 by (auto simp: configure_memory_layout_def bind_eq_Some_conv split: if_splits)
  have flags: "m_app_allocated_memory t1" "\<not> m_memory_allocated t1"
    using strategy_determine_flags[OF t1(1)] assms(3,4) by simp_all
  have rc2: "rc2 = success" using allocate_memory_effect(1)[OF t2(1) flags] t2(2) by simp
  note a = allocate_memory_effect[OF t2(1) flags] and reg = register_effect[OF t3(1)]
  have ready: "strategy_ready fit ready t3"
    using strategy_determine_ready[OF t1(1) assms(2)] a(2)[OF rc2] a(3) reg(4) by simp
  have app: "m_app_allocated_memory t3" using a(4) reg(3) by simp
  have same: "strategy_payload_buffer t = strategy_payload_buffer t2" "strategy_header_buffer t = strategy_header_buffer t2"
    "m_header_memory_size t = m_header_memory_size t2" "m_payload_memory_size t = m_payload_memory_size t2"
    "m_header_allocator t = m_header_allocator t2" "m_payload_allocator t = m_payload_allocator t2"
    using reg by (subst strategy_apply_effect(2)[OF t4 app], simp)+
  have "allocations_sound os t2" using assms(7) by (simp add: allocations_sound_def same)
  then have buffers: "unat (strategy_payload_buffer t) + unat (m_payload_memory_size t) < 2 ^ 64"
    "unat (strategy_header_buffer t) + unat (m_header_memory_size t) < 2 ^ 64"
    "apart (header_buffer_region t) (payload_buffer_region t)"
    using allocate_memory_buffers[OF t2(1)[unfolded rc2] flags]
    by (simp_all add: header_buffer_region_def payload_buffer_region_def same)
  have "placed (payload_buffer_region t) (concat (map payload_regions (m_memory_subcomponents t)))
    \<and> placed (header_buffer_region t) (concat (map header_regions (m_memory_subcomponents t)))"
    unfolding header_buffer_region_def payload_buffer_region_def
    by (rule strategy_apply_placed[OF t4 app ready])
       (use a(2) rc2 reg allocate_memory_sizes[OF t2(1)] assms(5,6) buffers(1,2) in simp_all)
  then show ?thesis using placed_both_apart buffers(3) by blast
qed

end

lemma node_apply_sizes:
  assumes "node_apply_memory_layout l n = Some (rc, d)"
  shows "m_aligned_header_payload_buffers_size d = m_aligned_header_payload_buffers_size n"
  using assms by (auto simp: node_apply_memory_layout_def bind_eq_Some_conv Let_def split: if_splits)

interpretation receivers: memory_subcomponents "receiver_operations os u" node_ready node_payload_regions node_header_regions
    "\<lambda>n. sizes_fit (m_aligned_header_payload_buffers_size n)" for os u
proof (unfold_locales, unfold receiver_operations_def component_operations.select_convs, goal_cases)
  case (1 l c d)
  then show ?case by (rule node_payload.apply_placed)
next
  case (2 l c d)
  then show ?case by (rule node_header.apply_placed)
next
  case (3 c d)
  then show ?case by (rule node_initialize_ready(1))
next
  case (4 l c st d)
  then show ?case by (rule node_apply_status)
next
  case (5 l c st d)
  then show ?case by (simp add: node_apply_sizes)
qed

text \<open>C22: no two streams of an application share memory, and no header region lies in payload memory.
  When the application has determined, allocated, registered and applied the memory layout with success, the payload
  regions of all streams of all receiver nodes follow each other without overlap inside the one payload buffer, the
  header regions do so inside the header buffer, and any two of all these regions, a header region and a payload
  region included, do not overlap.  Relied on are that the sums of the sizes fit 64 bits, that the two requests,
  aligned to pages, fit the address space, and that the blocks the operating system has handed out to the two
  allocators lie in the address space and do not overlap.\<close>

theorem memory_layout_disjoint:
  assumes "configure_memory_layout os rmx (receiver_operations os u) t0 = Some (success, t)"
    and "\<not> m_memory_layout_determined t0" "\<not> m_memory_allocated t0" "m_app_allocated_memory t0"
    and "sizes_fit (m_header_payload_subcomponents_buffer_sizes t)"
    and "\<forall>n \<in> set (m_memory_subcomponents t). sizes_fit (m_aligned_header_payload_buffers_size n)"
    and "alignable_request os (m_header_allocator t) (m_header_memory_size t)"
    and "alignable_request os (m_payload_allocator t) (m_payload_memory_size t)"
    and "live_blocks_apart (m_header_allocator t) (m_payload_allocator t)"
  shows "placed (unat (strategy_payload_buffer t), unat (m_payload_memory_size t))
      (concat (map node_payload_regions (m_memory_subcomponents t)))
    \<and> placed (unat (strategy_header_buffer t), unat (m_header_memory_size t))
      (concat (map node_header_regions (m_memory_subcomponents t)))
    \<and> sorted_wrt apart (concat (map node_header_regions (m_memory_subcomponents t))
        @ concat (map node_payload_regions (m_memory_subcomponents t)))"
  using receivers.configured_placed[OF assms(1-6)] assms(7-9)
  by (simp add: allocations_sound_def header_buffer_region_def payload_buffer_region_def)

text \<open>One receiver with a stream without header-data split and one with it, on pages of 4096 bytes.\<close>

definition example_utils :: IONodeMemoryUtils where
  "example_utils = \<lparr>utils_header_allocator = NewMemoryAllocator_new example_os 0,
     utils_payload_allocator = NewMemoryAllocator_new example_os 1\<rparr>"

definition example_node :: "nat ReceiverIONodeBase" where
  "example_node = \<lparr>node_streams = [Single (example_base_stream 0), Single (example_base_stream 64)],
     m_aligned_header_payload_buffers_size = [], m_header_total_memory_size = 0, m_payload_total_memory_size = 0\<rparr>"

definition example_strategy :: "nat ReceiverIONodeBase RmaxBaseMemoryStrategy" where
  "example_strategy = snd (add_memory_subcomponent example_node
     (RmaxBaseMemoryStrategy_new (NewMemoryAllocator_new example_os 0) (NewMemoryAllocator_new example_os 1) 1 1 True False))"

definition example_memory :: rmx_memory where
  "example_memory = \<lparr>rmx_register_memory = (\<lambda>_ _. (RMX_OK, 5)), rmx_mkey_invalid = 0xFFFFFFFF\<rparr>"

definition example_initialized :: "nat ReceiverIONodeBase RmaxBaseMemoryStrategy" where
  "example_initialized = snd (the (configure_memory_layout example_os example_memory (receiver_operations example_os example_utils)
     example_strategy))"

lemmas memory_layout_eval = configure_memory_layout_def strategy_determine_memory_layout_def
 RmaxBaseMemoryStrategy_new_def example_strategy_def add_memory_subcomponent_def
     Let_def receiver_operations_def node_initialize_memory_layout_def example_node_def example_base_stream_def ReceiveStream_new_def
     stream_initialize_memory_layout_def example_rmx_def example_settings_def is_header_data_split_on_def m_payload_mem_block_id_def
     m_header_mem_block_id_def stream_determine_memory_layout_def determine_memory_layout_helper_def align_buffer_sizes_def example_utils_def
     align_length_def NewMemoryAllocator_new_def base_align_length_def get_page_size_def example_os_def
     node_determine_memory_layout_def is_memory_layout_initialized_def allocate_memory_def strategy_allocate_aligned_def allocate_aligned_def
     allocate_defs allocate_new_def record_block_def strategy_register_memory_def strategy_apply_memory_layout_def apply_memory_layout_helper_def
     node_apply_memory_layout_def node_validate_memory_layout_def apply_memory_layout_for_subcomponent_def stream_layout_def
     stream_apply_memory_layout_def stream_validate_memory_layout_def set_buffers_def

lemma example_initialize:
  "configure_memory_layout example_os example_memory (receiver_operations example_os example_utils) example_strategy
    = Some (success, example_initialized)"
  by (simp add: memory_layout_eval example_initialized_def)

lemma example_initialized_fields:
  "strategy_payload_buffer example_initialized = 0xF01000" "m_payload_memory_size example_initialized = 12288"
  "strategy_header_buffer example_initialized = 1003520" "m_header_memory_size example_initialized = 8192"
  "m_header_payload_subcomponents_buffer_sizes example_initialized = [(8192, 12288)]"
  "map m_aligned_header_payload_buffers_size (m_memory_subcomponents example_initialized) = [[(0, 8192), (8192, 4096)]]"
  "map node_payload_regions (m_memory_subcomponents example_initialized) = [[(0xF01000, 8192), (0xF03000, 4096)]]"
  "map node_header_regions (m_memory_subcomponents example_initialized) = [[(1003520, 8192)]]"
  "m_header_allocator example_initialized
    = (NewMemoryAllocator_new example_os 0)\<lparr>m_mem_blocks := [\<lparr>pointer = 1000100, block_length = 12288\<rparr>]\<rparr>"
  "m_payload_allocator example_initialized
    = (NewMemoryAllocator_new example_os 1)\<lparr>m_mem_blocks := [\<lparr>pointer = 0xF00064, block_length = 16384\<rparr>]\<rparr>"
  by (simp_all add: memory_layout_eval example_initialized_def node_payload_regions_def node_header_regions_def block_region_def)

lemma example_initialized_sound:
  "alignable_request example_os (m_header_allocator example_initialized) (m_header_memory_size example_initialized)"
  "alignable_request example_os (m_payload_allocator example_initialized) (m_payload_memory_size example_initialized)"
  "live_blocks_apart (m_header_allocator example_initialized) (m_payload_allocator example_initialized)"
  by (simp_all add: example_initialized_fields alignable_request_def live_blocks_apart_def memory_blocks_def apart_def
      get_page_size_def NewMemoryAllocator_new_def example_os_def)

theorem memory_layout_disjoint_witness:
  "placed (0xF01000, 12288) (concat (map node_payload_regions (m_memory_subcomponents example_initialized)))
    \<and> placed (1003520, 8192) (concat (map node_header_regions (m_memory_subcomponents example_initialized)))
    \<and> sorted_wrt apart (concat (map node_header_regions (m_memory_subcomponents example_initialized))
        @ concat (map node_payload_regions (m_memory_subcomponents example_initialized)))
    \<and> concat (map node_header_regions (m_memory_subcomponents example_initialized)) = [(1003520, 8192)]
    \<and> concat (map node_payload_regions (m_memory_subcomponents example_initialized)) = [(0xF01000, 8192), (0xF03000, 4096)]"
proof -
  have nodes: "\<forall>n \<in> set (m_memory_subcomponents example_initialized). sizes_fit (m_aligned_header_payload_buffers_size n)"
    using example_initialized_fields(6) by (auto simp: map_eq_Cons_conv sizes_fit_def)
  have "\<not> m_memory_layout_determined example_strategy" "\<not> m_memory_allocated example_strategy" "m_app_allocated_memory example_strategy"
    by (simp_all add: example_strategy_def add_memory_subcomponent_def RmaxBaseMemoryStrategy_new_def)
  then show ?thesis
    using memory_layout_disjoint[OF example_initialize _ _ _ _ nodes example_initialized_sound]
    by (simp add: example_initialized_fields sizes_fit_def)
qed

section \<open>A layout of the requested size is accepted\<close>

text \<open>What a stream may ask of a layout, beside its sizes: one key per device when the memory is registered.
  A redundant stream is consistent when its sub-streams all ask for its sizes.\<close>

fun keys_match :: "HeaderPayloadMemoryLayout \<Rightarrow> 'flow receive_stream \<Rightarrow> bool" where
  "keys_match l (Single s) \<longleftrightarrow> (register_memory l \<longrightarrow> length (header_memory_keys l) = 1 \<and> length (payload_memory_keys l) = 1)"
| "keys_match l (Redundant p) \<longleftrightarrow> (register_memory l \<longrightarrow> length (header_memory_keys l) = length (redundant_streams p)
     \<and> length (payload_memory_keys l) = length (redundant_streams p))"

fun stream_consistent :: "'flow receive_stream \<Rightarrow> bool" where
  "stream_consistent (Single s) \<longleftrightarrow> True"
| "stream_consistent (Redundant p) \<longleftrightarrow> (\<forall>s \<in> set (redundant_streams p).
     stream_determine_memory_layout s = (success, m_header_buffer_size p, m_payload_buffer_size p))"

lemma ipo_collect_sizes_consistent:
  assumes "ipo_collect_sizes False ss p = (success, p')"
  shows "p' = p \<and> (\<forall>s \<in> set ss. stream_determine_memory_layout s = (success, m_header_buffer_size p, m_payload_buffer_size p))"
  using assms
proof (induction ss)
  case (Cons s ss)
  obtain st h pl where d: "stream_determine_memory_layout s = (st, h, pl)" by (cases "stream_determine_memory_layout s")
  then show ?case using Cons by (auto split: if_splits)
qed simp

lemma ipo_initialize_consistent:
  assumes "ipo_initialize_memory_layout p = (success, p')"
  shows "stream_consistent (Redundant p')"
proof (cases "redundant_streams p")
  case Nil
  then show ?thesis using assms by (simp add: ipo_initialize_memory_layout_def)
next
  case (Cons s ss)
  obtain st h pl where d: "stream_determine_memory_layout s = (st, h, pl)" by (cases "stream_determine_memory_layout s")
  then have "st = success" using assms Cons by (simp add: ipo_initialize_memory_layout_def split: if_splits)
  then have "ipo_collect_sizes False ss (p\<lparr>m_header_buffer_size := h, m_payload_buffer_size := pl,
      ipo_header_stride_size := m_base_header_stride_size s, ipo_payload_stride_size := m_base_data_stride_size s\<rparr>) = (success, p')"
    using assms Cons d by (simp add: ipo_initialize_memory_layout_def)
  then show ?thesis
    using ipo_collect_sizes_consistent Cons d \<open>st = success\<close> by fastforce
qed

lemma single_apply_success:
  assumes "stream_determine_memory_layout s = (success, h, pl)" "h \<le> header_memory_size l" "pl \<le> payload_memory_size l"
    and "keys_match l (Single s)"
  shows "fst (stream_apply_memory_layout l s) = success"
proof -
  have "determine_memory_layout_helper s = (success, h, pl)"
    using assms(1) by (auto simp: stream_determine_memory_layout_def split: prod.splits if_splits)
  then show ?thesis
    using assms(2-4) by (auto simp: stream_apply_memory_layout_def stream_validate_memory_layout_def Let_def not_less)
qed

lemma ipo_apply_streams_success:
  assumes "\<forall>s \<in> set ss. stream_determine_memory_layout s = (success, h, pl)" "h \<le> header_memory_size l" "pl \<le> payload_memory_size l"
  shows "fst (ipo_apply_streams l i ss) = success"
  using assms(1)
proof (induction ss arbitrary: i)
  case (Cons s ss)
  have "fst (stream_apply_memory_layout (sub_stream_layout l i) s) = success"
    using Cons.prems assms(2,3) by (intro single_apply_success[of s h pl]) (simp_all add: sub_stream_layout_def)
  then show ?case using Cons by (auto simp: case_prod_beta Let_def)
qed simp

lemma receive_stream_apply_success:
  assumes "receive_stream_determine s = (success, h, pl)" "h \<le> header_memory_size l" "pl \<le> payload_memory_size l"
    and "keys_match l s" "stream_consistent s"
  shows "fst (receive_stream_apply l s) = success"
proof (cases s)
  case (Single s1)
  then show ?thesis using single_apply_success[of s1 h pl l] assms by simp
next
  case (Redundant p)
  then have p: "m_payload_buffer_size p \<noteq> 0" "h = m_header_buffer_size p" "pl = m_payload_buffer_size p"
    using assms(1) by (auto simp: ipo_determine_memory_layout_def split: if_splits)
  then have "ipo_validate_memory_layout l p = success"
    using assms(2-4) Redundant by (auto simp: ipo_validate_memory_layout_def)
  then show ?thesis
    using ipo_apply_streams_success[of "redundant_streams p" h pl l 0] assms(2,3,5) Redundant p
    by (simp add: ipo_apply_memory_layout_def Let_def case_prod_beta)
qed

lemma stream_layout_keys:
  assumes "register_memory l \<Longrightarrow> length (payload_memory_keys l) = length (header_memory_keys l)"
  obtains l' where "stream_layout l sz ho po = Some l'" "header_memory_size l' = fst sz" "payload_memory_size l' = snd sz"
    "\<And>s. keys_match l' s = keys_match l s"
proof -
  obtain l' where l': "stream_layout l sz ho po = Some l'" "register_memory l' = register_memory l"
    "register_memory l \<Longrightarrow> header_memory_keys l' = header_memory_keys l \<and> payload_memory_keys l' = payload_memory_keys l"
    using assms by (cases "register_memory l") (simp_all add: stream_layout_def copy_into_def Let_def)
  then have "keys_match l' s = keys_match l s" for s by (cases s) auto
  then show ?thesis using that l' stream_layout_fields(3,4)[OF l'(1)] by blast
qed

text \<open>A stream is served by a size when it determines its sizes and they are not larger.\<close>

definition served :: "'flow receive_stream \<Rightarrow> u64 \<times> u64 \<Rightarrow> bool" where
  "served s sz \<longleftrightarrow> (\<exists>h pl. receive_stream_determine s = (success, h, pl) \<and> h \<le> fst sz \<and> pl \<le> snd sz)"

lemma node_apply_streams_success:
  assumes "list_all2 served ss sizes" "\<forall>s \<in> set ss. keys_match l s \<and> stream_consistent s"
    and "register_memory l \<Longrightarrow> length (payload_memory_keys l) = length (header_memory_keys l)"
  shows "\<exists>ss'. node_apply_streams l ss sizes ho po = Some (success, ss')"
  using assms(1,2)
proof (induction arbitrary: ho po rule: list_all2_induct)
  case (Cons s ss sz sizes)
  obtain l' where l': "stream_layout l sz ho po = Some l'" "header_memory_size l' = fst sz" "payload_memory_size l' = snd sz"
    "keys_match l' s" using stream_layout_keys[OF assms(3), of sz ho po] Cons.prems by (metis list.set_intros(1))
  then have "fst (receive_stream_apply l' s) = success"
    using Cons.hyps(1) Cons.prems receive_stream_apply_success[of s _ _ l'] by (auto simp: served_def)
  then obtain s' where "apply_memory_layout_for_subcomponent s l sz ho po = Some (success, s')"
    using l'(1) by (cases "receive_stream_apply l' s") (simp add: apply_memory_layout_for_subcomponent_def)
  moreover obtain ss' where "node_apply_streams l ss sizes (ho + fst sz) (po + snd sz) = Some (success, ss')"
    using Cons.IH[of "ho + fst sz" "po + snd sz"] Cons.prems by auto
  ultimately show ?case by simp
qed simp

text \<open>The allocators can align the sizes of the stream.\<close>

definition alignable :: "os_memory \<Rightarrow> IONodeMemoryUtils \<Rightarrow> 'flow receive_stream \<Rightarrow> bool" where
  "alignable os u s \<longleftrightarrow> (\<forall>h pl. receive_stream_determine s = (success, h, pl) \<longrightarrow>
     0 < get_page_size os (utils_header_allocator u) \<and> unat h + unat (get_page_size os (utils_header_allocator u)) < 2 ^ 64
   \<and> 0 < get_page_size os (utils_payload_allocator u) \<and> unat pl + unat (get_page_size os (utils_payload_allocator u)) < 2 ^ 64)"

lemma align_length_ge:
  assumes "0 < get_page_size os a" "unat len + unat (get_page_size os a) < 2 ^ 64" "align_length os a len = Some r"
  shows "len \<le> r"
  using align_length_value[OF assms(1,2)] assms(1,3) round_up_bounds(1)[of "unat (get_page_size os a)" "unat len"]
  by (auto simp: word_le_nat_alt unat_gt_0 word_neq_0_conv)

lemma collect_sizes_served:
  assumes "collect_sizes os u ss (sizes, h, p) = Some (success, sizes', h', p')" "\<forall>s \<in> set ss. alignable os u s"
  shows "\<exists>more. sizes' = sizes @ more \<and> list_all2 served ss more"
  using assms
proof (induction ss arbitrary: sizes h p)
  case (Cons s ss)
  obtain hn pn where n: "receive_stream_determine s = (success, hn, pn)"
    using Cons.prems(1) by (cases "receive_stream_determine s") (auto split: if_splits)
  obtain sz where sz: "align_buffer_sizes os u (hn, pn) = Some sz"
    and rest: "collect_sizes os u ss (sizes @ [sz], h + fst sz, p + snd sz) = Some (success, sizes', h', p')"
    using Cons.prems(1) n by (auto simp: bind_eq_Some_conv)
  have "hn \<le> fst sz" "pn \<le> snd sz"
    using sz n Cons.prems(2) align_length_ge by (auto simp: align_buffer_sizes_def alignable_def bind_eq_Some_conv)
  then have "served s sz" using n by (auto simp: served_def)
  moreover obtain more where "sizes' = (sizes @ [sz]) @ more" "list_all2 served ss more" using Cons.IH[OF rest] Cons.prems(2) by auto
  ultimately show ?case by (intro exI[of _ "sz # more"]) simp
qed simp

text \<open>C23: a receiver accepts every layout that grants what it asked for.  After its memory
  layout was initialised, a layout with non-null buffers of at least the requested sizes and, when memory
  is registered, with the keys its streams need is applied to all streams with success.\<close>

theorem requested_memory_is_enough:
  assumes "node_initialize_memory_layout os u n0 = Some (success, n)" "node_determine_memory_layout n = (success, h, p)"
    and "\<forall>s \<in> set (node_streams n0). alignable os u s \<and> keys_match l s \<and> stream_consistent s"
    and "header_memory_ptr l \<noteq> 0" "payload_memory_ptr l \<noteq> 0" "h \<le> header_memory_size l" "p \<le> payload_memory_size l"
    and "register_memory l \<longrightarrow> length (payload_memory_keys l) = length (header_memory_keys l)"
  shows "\<exists>d. node_apply_memory_layout l n = Some (success, d)"
proof -
  obtain rc sizes h' p' where c: "collect_sizes os u (node_streams n0) ([], 0, 0) = Some (rc, sizes, h', p')"
    using assms(1) by (cases "collect_sizes os u (node_streams n0) ([], 0, 0)") (auto simp: node_initialize_memory_layout_def)
  have rc: "rc = success"
    using assms(1) c by (auto simp: node_initialize_memory_layout_def Let_def split: if_splits)
  have n: "m_aligned_header_payload_buffers_size n = sizes" "node_streams n = node_streams n0"
    using assms(1) c rc by (auto simp: node_initialize_memory_layout_def Let_def)
  have "list_all2 served (node_streams n) sizes"
    using collect_sizes_served[OF c[unfolded rc]] assms(3) n by auto
  then obtain ss' where "node_apply_streams l (node_streams n) sizes 0 0 = Some (success, ss')"
    using node_apply_streams_success[of "node_streams n" sizes l 0 0] assms(3,8) n by auto
  moreover have "node_validate_memory_layout l n = success"
    using assms(2,4-7) by (auto simp: node_determine_memory_layout_def node_validate_memory_layout_def split: if_splits)
  ultimately show ?thesis using n by (simp add: node_apply_memory_layout_def)
qed

theorem requested_memory_is_enough_witness:
  "\<exists>d. node_apply_memory_layout \<lparr>header_memory_ptr = 4096, payload_memory_ptr = 65536, header_memory_size = 8192,
     payload_memory_size = 12288, register_memory = True, header_memory_keys = [1], payload_memory_keys = [2]\<rparr>
     (snd (the (node_initialize_memory_layout example_os example_utils example_node))) = Some (success, d)"
  by (rule requested_memory_is_enough[where os = example_os and u = example_utils and ?n0.0 = example_node and h = 8192 and p = 12288])
     (simp_all add: memory_layout_eval alignable_def)

end
