(* ===== verification/Frame_Pool.thy ===== *)
theory Frame_Pool
  imports Memory_Alloc Media_Defs
begin

text \<open>
  Media frames and their pool: \<open>FrameBuffer\<close> and \<open>MediaFrame\<close> of \<^verbatim>\<open>services/media/media_frame_provider.cpp\<close> and
  \<open>MediaFramePool\<close> of \<^verbatim>\<open>services/media/media_frame_pool.cpp\<close>.  A shared pointer to a pool frame is the index of
  the frame; its deleter gives the index back.  Threads share the pool, each operation holding the mutex,
  so that a run is a sequence of operations: the step relation \<open>pool_step\<close>.
\<close>

section \<open>Frames\<close>

record FrameBuffer =
  owned_buffer :: u64
  buffer_ptr :: u64
  buffer_size :: u64
  is_owned :: bool

text \<open>The address of a buffer the frame allocates itself is a parameter.\<close>

definition FrameBuffer_owned :: "u64 \<Rightarrow> u64 \<Rightarrow> FrameBuffer" where
  "FrameBuffer_owned new_buffer sz = \<lparr>owned_buffer = new_buffer, buffer_ptr = new_buffer, buffer_size = sz, is_owned = True\<rparr>"

definition FrameBuffer_external :: "u64 \<Rightarrow> u64 \<Rightarrow> FrameBuffer" where
  "FrameBuffer_external external_buffer sz =
    \<lparr>owned_buffer = 0, buffer_ptr = external_buffer, buffer_size = sz, is_owned = False\<rparr>"

definition FrameBuffer_shared :: "u64 \<Rightarrow> u64 \<Rightarrow> FrameBuffer" where
  "FrameBuffer_shared shared_buffer sz =
    \<lparr>owned_buffer = 0, buffer_ptr = shared_buffer, buffer_size = sz, is_owned = False\<rparr>"

text \<open>Moving returns the new buffer and what is left of the other one.\<close>

definition FrameBuffer_move :: "FrameBuffer \<Rightarrow> FrameBuffer \<times> FrameBuffer" where
  "FrameBuffer_move other =
    (\<lparr>owned_buffer = owned_buffer other, buffer_ptr = buffer_ptr other, buffer_size = buffer_size other, is_owned = is_owned other\<rparr>,
     let other = other\<lparr>owned_buffer := 0\<rparr> in if is_owned other then other\<lparr>buffer_ptr := 0\<rparr> else other)"

text \<open>Move assignment; the third component is the buffer that is freed.\<close>

definition FrameBuffer_move_assign :: "bool \<Rightarrow> FrameBuffer \<Rightarrow> FrameBuffer \<Rightarrow> FrameBuffer \<times> FrameBuffer \<times> u64" where
  "FrameBuffer_move_assign same this other =
    (if same then (this, other, 0)
     else (fst (FrameBuffer_move other), snd (FrameBuffer_move other), owned_buffer this))"

record FrameMetadata =
  media_type :: MediaType
  frame_resolution :: Resolution
  frame_sequence_number :: u32
  additional_info :: "(string \<times> string) list"

record MediaFrame =
  frame_data :: FrameBuffer
  frame_metadata :: "FrameMetadata option"

definition MediaFrame_owned :: "u64 \<Rightarrow> u64 \<Rightarrow> MediaFrame" where
  "MediaFrame_owned new_buffer sz = \<lparr>frame_data = FrameBuffer_owned new_buffer sz, frame_metadata = None\<rparr>"

definition MediaFrame_external :: "u64 \<Rightarrow> u64 \<Rightarrow> MediaFrame" where
  "MediaFrame_external external_buffer sz = \<lparr>frame_data = FrameBuffer_external external_buffer sz, frame_metadata = None\<rparr>"

definition MediaFrame_shared :: "u64 \<Rightarrow> u64 \<Rightarrow> MediaFrame" where
  "MediaFrame_shared shared_buffer sz = \<lparr>frame_data = FrameBuffer_shared shared_buffer sz, frame_metadata = None\<rparr>"

definition add_metadata :: "FrameMetadata \<Rightarrow> MediaFrame \<Rightarrow> MediaFrame" where
  "add_metadata metadata f = f\<lparr>frame_metadata := Some metadata\<rparr>"

text \<open>A buffer owns its memory exactly when it points to the memory it holds, and a moved-from buffer that
  owned its memory is empty: the ownership moves, it is never shared.\<close>

definition buffer_ok :: "FrameBuffer \<Rightarrow> bool" where
  "buffer_ok b \<longleftrightarrow> (is_owned b \<longrightarrow> owned_buffer b = buffer_ptr b) \<and> (\<not> is_owned b \<longrightarrow> owned_buffer b = 0)"

lemma FrameBuffer_move_ok:
  assumes "buffer_ok b"
  shows "buffer_ok (fst (FrameBuffer_move b))" "buffer_ok (snd (FrameBuffer_move b))"
    "owned_buffer (snd (FrameBuffer_move b)) = 0" "fst (FrameBuffer_move b) = b"
  using assms by (auto simp: buffer_ok_def FrameBuffer_move_def Let_def)

section \<open>The pool\<close>

record MediaFramePool =
  m_memory_block :: u64
  m_all_frames :: "MediaFrame list"
  m_available_indices :: "nat list"
  m_frame_size :: u64
  m_frame_count :: u64
  m_total_memory_size :: u64
  m_in_destruction :: bool
  pool_m_stop :: bool

datatype pool_error = Failed_to_allocate_memory | No_memory_provided | Insufficient_external_memory

text \<open>The loop that creates the frames, one after the other in the memory block.\<close>

definition pool_frames :: "u64 \<Rightarrow> u64 \<Rightarrow> u64 \<Rightarrow> MediaFrame list" where
  "pool_frames block frame_count frame_size =
    map (\<lambda>i. MediaFrame_external (block + word_of_nat i * frame_size) frame_size) [0..<unat frame_count]"

definition MediaFramePool_new ::
  "os_memory \<Rightarrow> u64 \<Rightarrow> u64 \<Rightarrow> MemoryAllocator \<Rightarrow> (pool_error + MediaFramePool \<times> MemoryAllocator) option" where
  "MediaFramePool_new os frame_count frame_size a = do {
     total \<leftarrow> align_length os a (frame_count * frame_size);
     (block, a) \<leftarrow> allocate_aligned os a total (get_page_size os a);
     Some (if block = 0 then Inl Failed_to_allocate_memory
       else Inr (\<lparr>m_memory_block = block, m_all_frames = pool_frames block frame_count frame_size,
                  m_available_indices = [0..<unat frame_count], m_frame_size = frame_size, m_frame_count = frame_count,
                  m_total_memory_size = total, m_in_destruction = False, pool_m_stop = False\<rparr>, a)) }"

definition MediaFramePool_external :: "u64 \<Rightarrow> u64 \<Rightarrow> u64 \<Rightarrow> u64 \<Rightarrow> pool_error + MediaFramePool" where
  "MediaFramePool_external frame_count frame_size memory_block memory_size =
    (if memory_block = 0 then Inl No_memory_provided
     else if memory_size < frame_count * frame_size then Inl Insufficient_external_memory
     else Inr \<lparr>m_memory_block = memory_block, m_all_frames = pool_frames memory_block frame_count frame_size,
               m_available_indices = [0..<unat frame_count], m_frame_size = frame_size, m_frame_count = frame_count,
               m_total_memory_size = frame_count * frame_size, m_in_destruction = False, pool_m_stop = False\<rparr>)"

definition destroy_pool :: "MediaFramePool \<Rightarrow> MediaFramePool" where
  "destroy_pool p = p\<lparr>m_in_destruction := True, m_available_indices := [], m_all_frames := []\<rparr>"

definition return_frame_to_pool :: "nat \<Rightarrow> MediaFramePool \<Rightarrow> MediaFramePool" where
  "return_frame_to_pool index p =
    (if m_in_destruction p \<or> pool_m_stop p then p else p\<lparr>m_available_indices := m_available_indices p @ [index]\<rparr>)"

definition pool_get_frame :: "MediaFramePool \<Rightarrow> nat option \<times> MediaFramePool" where
  "pool_get_frame p =
    (if m_available_indices p = [] \<or> pool_m_stop p then (None, p)
     else (Some (hd (m_available_indices p)), p\<lparr>m_available_indices := tl (m_available_indices p)\<rparr>))"

text \<open>The blocking call: \<open>None\<close> while the thread waits.\<close>

definition pool_get_frame_blocking :: "MediaFramePool \<Rightarrow> (nat option \<times> MediaFramePool) option" where
  "pool_get_frame_blocking p =
    (if \<not> (m_available_indices p \<noteq> [] \<or> pool_m_stop p) then None
     else if pool_m_stop p then Some (None, p)
     else Some (Some (hd (m_available_indices p)), p\<lparr>m_available_indices := tl (m_available_indices p)\<rparr>))"

definition get_available_frames_count :: "MediaFramePool \<Rightarrow> nat" where
  "get_available_frames_count p = length (m_available_indices p)"

definition pool_stop :: "MediaFramePool \<Rightarrow> MediaFramePool" where
  "pool_stop p = p\<lparr>pool_m_stop := True\<rparr>"

section \<open>Sharing the pool\<close>

text \<open>The pool with the frames its users hold.  A frame is given back once, when its last shared pointer goes.\<close>

record pool_system =
  pool :: MediaFramePool
  held :: "nat list"

inductive pool_step :: "pool_system \<Rightarrow> pool_system \<Rightarrow> bool" where
  pool_take: "pool_get_frame (pool s) = (Some i, p) \<Longrightarrow> pool_step s \<lparr>pool = p, held = i # held s\<rparr>"
| pool_none: "pool_get_frame (pool s) = (None, p) \<Longrightarrow> pool_step s \<lparr>pool = p, held = held s\<rparr>"
| pool_wait: "pool_get_frame_blocking (pool s) = Some (Some i, p) \<Longrightarrow> pool_step s \<lparr>pool = p, held = i # held s\<rparr>"
| pool_release: "i \<in> set (held s) \<Longrightarrow> pool_step s \<lparr>pool = return_frame_to_pool i (pool s), held = remove1 i (held s)\<rparr>"
| pool_halt: "pool_step s (s\<lparr>pool := pool_stop (pool s)\<rparr>)"

inductive pool_reachable :: "MediaFramePool \<Rightarrow> pool_system \<Rightarrow> bool" for p where
  pool_start: "pool_reachable p \<lparr>pool = p, held = []\<rparr>"
| pool_next: "pool_reachable p s \<Longrightarrow> pool_step s s' \<Longrightarrow> pool_reachable p s'"

definition pool_inv :: "MediaFramePool \<Rightarrow> pool_system \<Rightarrow> bool" where
  "pool_inv p s \<longleftrightarrow> m_all_frames (pool s) = m_all_frames p \<and> \<not> m_in_destruction (pool s)
     \<and> distinct (m_available_indices (pool s) @ held s)
     \<and> set (m_available_indices (pool s) @ held s) \<subseteq> {..<length (m_all_frames p)}
     \<and> (\<not> pool_m_stop (pool s) \<longrightarrow> length (m_available_indices (pool s)) + length (held s) = length (m_all_frames p))"

lemma pool_get_frame_some:
  assumes "pool_get_frame p = (Some i, p')"
  shows "m_available_indices p = i # m_available_indices p'" "p' = p\<lparr>m_available_indices := m_available_indices p'\<rparr>" "\<not> pool_m_stop p"
  using assms by (auto simp: pool_get_frame_def split: if_splits)

lemma pool_blocking_some:
  "pool_get_frame_blocking p = Some (Some i, p') \<longleftrightarrow> pool_get_frame p = (Some i, p')"
  by (auto simp: pool_get_frame_blocking_def pool_get_frame_def)

lemma pool_take_inv:
  assumes "pool_get_frame (pool s) = (Some i, p')" "pool_inv p s"
  shows "pool_inv p \<lparr>pool = p', held = i # held s\<rparr>"
proof -
  note t = pool_get_frame_some[OF assms(1)]
  have "m_all_frames p' = m_all_frames (pool s)" "m_in_destruction p' = m_in_destruction (pool s)" "pool_m_stop p' = pool_m_stop (pool s)"
    by (subst t(2), simp)+
  then show ?thesis using assms(2) t(1) by (auto simp: pool_inv_def)
qed

lemma pool_step_inv: "pool_step s s' \<Longrightarrow> pool_inv p s \<Longrightarrow> pool_inv p s'"
proof (induction rule: pool_step.induct)
  case (pool_release i s)
  then have "length (remove1 i (held s)) + 1 = length (held s)" using length_pos_if_in_set[of i "held s"] by (simp add: length_remove1)
  then show ?case
    using pool_release by (auto simp: pool_inv_def return_frame_to_pool_def distinct_remove1 dest: notin_set_remove1)
qed (auto simp: pool_blocking_some intro: pool_take_inv, auto simp: pool_get_frame_def pool_inv_def pool_stop_def split: if_splits)

lemma pool_reachable_inv:
  assumes "pool_reachable p s" "m_available_indices p = [0..<length (m_all_frames p)]" "\<not> m_in_destruction p"
  shows "pool_inv p s"
  using assms(1)
proof (induction rule: pool_reachable.induct)
  case pool_start
  then show ?case using assms(2,3) by (auto simp: pool_inv_def)
next
  case (pool_next s s')
  then show ?case using pool_step_inv by blast
qed

section \<open>The memory of the frames\<close>

definition frame_region :: "MediaFrame \<Rightarrow> nat \<times> nat" where
  "frame_region f = (unat (buffer_ptr (frame_data f)), unat (buffer_size (frame_data f)))"

lemma frame_address:
  assumes "i < n" "unat block + n * unat sz < 2 ^ 64"
  shows "unat (block + word_of_nat i * sz :: u64) = unat block + i * unat sz"
proof (cases "unat sz = 0")
  case True
  then show ?thesis by (simp add: unat_eq_zero)
next
  case False
  have le: "i * unat sz + unat sz \<le> n * unat sz" using assms(1) by (metis Suc_leI mult_Suc mult_le_mono1 add.commute)
  have "i \<le> i * unat sz" using False by simp
  then have "i < 2 ^ 64" using le assms(2) by linarith
  then have "unat (word_of_nat i :: u64) = i" by (simp add: unat_of_nat)
  then have "unat (word_of_nat i * sz) = i * unat sz" using le assms(2) by (subst unat_mult_no_wrap) simp_all
  then show ?thesis using le assms(2) by (subst unat_add_no_wrap) simp_all
qed

lemma frames_placed:
  assumes "n \<le> N" "unat block + N * unat sz < 2 ^ 64"
  shows "placed (unat block, n * unat sz)
    (map frame_region (map (\<lambda>i. MediaFrame_external (block + word_of_nat i * sz) sz) [0..<n]))"
  using assms(1)
proof (induction n)
  case (Suc n)
  let ?f = "\<lambda>i. MediaFrame_external (block + word_of_nat i * sz) sz"
  have "unat (block + word_of_nat n * sz) = unat block + n * unat sz"
    using Suc.prems assms(2) by (intro frame_address[of n N]) simp_all
  then have "placed (unat block + n * unat sz, unat sz) [frame_region (?f n)]"
    by (simp add: placed_def frame_region_def MediaFrame_external_def FrameBuffer_external_def)
  then have "placed (unat block, n * unat sz + unat sz) (map frame_region (map ?f [0..<n]) @ [frame_region (?f n)])"
    using Suc by (intro placed_append) simp_all
  then show ?case by (simp add: add.commute)
qed simp

lemma pool_frames_placed:
  assumes "unat block + unat frame_count * unat frame_size < 2 ^ 64"
  shows "placed (unat block, unat frame_count * unat frame_size) (map frame_region (pool_frames block frame_count frame_size))"
  unfolding pool_frames_def by (rule frames_placed[OF order_refl assms])

lemma placed_disjoint:
  assumes "placed b rs" "i < length rs" "j < length rs" "i \<noteq> j"
  shows "fst (rs ! i) + snd (rs ! i) \<le> fst (rs ! j) \<or> fst (rs ! j) + snd (rs ! j) \<le> fst (rs ! i)"
  using assms by (metis (no_types, lifting) linorder_neqE_nat placed_def sorted_wrt_iff_nth_less)

text \<open>C26: no two users of the pool ever write to the same memory.  In every interleaving of
  takes, returns and stops on a pool over a given memory block, the frames held by users and the available
  ones are all different frames of the pool, and the buffers of any two different frames are disjoint and inside the
  block.  As long as the pool has not been stopped every frame is held or available.  After a stop that no longer
  holds, as the code means it: \<open>return_frame_to_pool\<close> drops the frames that come back, and they are not handed out
  again.\<close>

theorem pool_frames_exclusive:
  assumes "MediaFramePool_external frame_count frame_size block memory_size = Inr p" "pool_reachable p s"
    and "unat frame_count * unat frame_size < 2 ^ 64" "unat block + unat memory_size < 2 ^ 64"
  shows "distinct (m_available_indices (pool s) @ held s)
    \<and> (\<not> pool_m_stop (pool s) \<longrightarrow> length (m_available_indices (pool s)) + length (held s) = unat frame_count)
    \<and> (\<forall>i \<in> set (held s). i < unat frame_count)
    \<and> placed (unat block, unat memory_size) (map frame_region (m_all_frames (pool s)))"
proof -
  have p: "m_all_frames p = pool_frames block frame_count frame_size" "m_available_indices p = [0..<unat frame_count]"
    "\<not> m_in_destruction p" "frame_count * frame_size \<le> memory_size"
    using assms(1) by (auto simp: MediaFramePool_external_def not_less split: if_splits)
  have len: "length (m_all_frames p) = unat frame_count" by (simp add: p(1) pool_frames_def)
  have inv: "pool_inv p s" by (rule pool_reachable_inv[OF assms(2)]) (simp_all add: p(2,3) len)
  have "unat (frame_count * frame_size) = unat frame_count * unat frame_size" using assms(3) by (intro unat_mult_no_wrap) simp
  then have size: "unat frame_count * unat frame_size \<le> unat memory_size" using p(4) by (simp add: word_le_nat_alt)
  then have "placed (unat block, unat memory_size) (map frame_region (m_all_frames p))"
    using placed_mono[OF pool_frames_placed[of block frame_count frame_size] size] assms(4) unfolding p(1) by linarith
  moreover have "m_all_frames (pool s) = m_all_frames p" "set (held s) \<subseteq> {..<length (m_all_frames p)}"
    using inv by (simp_all add: pool_inv_def)
  ultimately show ?thesis using inv len unfolding pool_inv_def by auto
qed

definition example_pool :: MediaFramePool where
  "example_pool = projr (MediaFramePool_external 3 100 4096 300)"

theorem pool_frames_exclusive_witness:
  "\<exists>s. pool_reachable example_pool s \<and> held s = [1, 0] \<and> distinct (m_available_indices (pool s) @ held s)"
proof -
  have p: "MediaFramePool_external 3 100 4096 300 = Inr example_pool"
    by (simp add: example_pool_def MediaFramePool_external_def)
  let ?p1 = "example_pool\<lparr>m_available_indices := [1, 2]\<rparr>" and ?p2 = "example_pool\<lparr>m_available_indices := [2]\<rparr>"
  have g1: "pool_get_frame example_pool = (Some 0, ?p1)" and g2: "pool_get_frame ?p1 = (Some 1, ?p2)"
    by (simp_all add: example_pool_def MediaFramePool_external_def pool_get_frame_def upt_rec)
  have "pool_reachable example_pool \<lparr>pool = ?p1, held = [0]\<rparr>"
    using pool_next[OF pool_start, of example_pool] pool_take[of "\<lparr>pool = example_pool, held = []\<rparr>"] g1 by fastforce
  then have s: "pool_reachable example_pool \<lparr>pool = ?p2, held = [1, 0]\<rparr>"
    using pool_next pool_take[of "\<lparr>pool = ?p1, held = [0]\<rparr>"] g2 by fastforce
  then show ?thesis using pool_frames_exclusive[OF p s] by (intro exI[of _ "\<lparr>pool = ?p2, held = [1, 0]\<rparr>"]) simp
qed

text \<open>The check of the memory size multiplies in 64 bits: a wrapped product lets frames lie outside.\<close>

lemma external_pool_size_wraps:
  "\<exists>p. MediaFramePool_external 2 0x8000000000000000 4096 100 = Inr p \<and> length (m_all_frames p) = 2"
  by (simp add: MediaFramePool_external_def pool_frames_def)

end
