(* ===== verification/Frame_Provider.thy ===== *)
theory Frame_Provider
  imports Frame_Pool
begin

text \<open>
  The frame providers of \<^verbatim>\<open>services/media/media_frame_provider.cpp\<close>: the null provider, the buffered provider
  and the provider that loads a whole file, behind the interface \<open>IFrameProvider\<close>, whose contract is the
  locale \<open>frame_source\<close>.  A shared pointer to a frame is the frame itself, with \<open>None\<close> for null.  The
  standard input stream is modelled with its state bits; a file is its bytes and, where the medium is
  defective, the offset from which reading fails.
\<close>

section \<open>Input streams\<close>

record input_file =
  file_bytes :: "u8 list"
  bad_from :: "nat option"

record ifstream =
  opened :: "input_file option"
  position :: nat
  eofbit :: bool
  failbit :: bool
  badbit :: bool

definition ifstream_new :: ifstream where
  "ifstream_new = \<lparr>opened = None, position = 0, eofbit = False, failbit = False, badbit = False\<rparr>"

definition is_open :: "ifstream \<Rightarrow> bool" where
  "is_open f \<longleftrightarrow> opened f \<noteq> None"

text \<open>Opening fails on an open stream or a missing file, and then sets the fail bit.\<close>

definition ifstream_open :: "input_file option \<Rightarrow> ifstream \<Rightarrow> ifstream" where
  "ifstream_open file f =
    (if is_open f \<or> file = None then f\<lparr>failbit := True\<rparr>
     else \<lparr>opened = file, position = 0, eofbit = False, failbit = False, badbit = False\<rparr>)"

definition ifstream_clear :: "ifstream \<Rightarrow> ifstream" where
  "ifstream_clear f = f\<lparr>eofbit := False, failbit := False, badbit := False\<rparr>"

definition ifstream_close :: "ifstream \<Rightarrow> ifstream" where
  "ifstream_close f = (if is_open f then f\<lparr>opened := None\<rparr> else f\<lparr>failbit := True\<rparr>)"

definition ifstream_fail :: "ifstream \<Rightarrow> bool" where
  "ifstream_fail f \<longleftrightarrow> failbit f \<or> badbit f"

definition ifstream_seek :: "nat \<Rightarrow> ifstream \<Rightarrow> ifstream" where
  "ifstream_seek pos f = (let f = f\<lparr>eofbit := False\<rparr> in if ifstream_fail f then f else f\<lparr>position := pos\<rparr>)"

definition ifstream_size :: "ifstream \<Rightarrow> nat" where
  "ifstream_size f = (case opened f of None \<Rightarrow> 0 | Some file \<Rightarrow> length (file_bytes file))"

text \<open>\<open>read\<close>: the bytes read, whose number is \<open>gcount\<close>, and the new state.\<close>

definition ifstream_read :: "nat \<Rightarrow> ifstream \<Rightarrow> u8 list \<times> ifstream" where
  "ifstream_read n f = (case opened f of
      None \<Rightarrow> ([], f\<lparr>failbit := True\<rparr>)
    | Some file \<Rightarrow>
        if eofbit f \<or> failbit f \<or> badbit f then ([], f\<lparr>failbit := True\<rparr>)
        else
          let readable = (case bad_from file of None \<Rightarrow> file_bytes file | Some k \<Rightarrow> take k (file_bytes file));
              got = take n (drop (position f) readable);
              f' = f\<lparr>position := position f + length got\<rparr>
          in if length got = n then (got, f')
             else if readable \<noteq> file_bytes file then (got, f'\<lparr>badbit := True\<rparr>)
             else (got, f'\<lparr>eofbit := True, failbit := True\<rparr>))"

section \<open>Null provider\<close>

record NullFrameProvider =
  null_media_settings :: MediaSettings
  m_cached_metadata :: FrameMetadata
  m_cached_frame_size :: u64
  m_frame_not_available_probability :: rat

definition set_frame_settings :: "NullFrameProvider \<Rightarrow> NullFrameProvider" where
  "set_frame_settings s =
    s\<lparr>m_cached_frame_size := bytes_per_frame (null_media_settings s),
      m_cached_metadata := (m_cached_metadata s)\<lparr>frame_resolution := resolution (null_media_settings s), media_type := Video\<rparr>\<rparr>"

definition NullFrameProvider_new :: "MediaSettings \<Rightarrow> NullFrameProvider" where
  "NullFrameProvider_new settings = set_frame_settings
    \<lparr>null_media_settings = settings,
     m_cached_metadata = \<lparr>media_type = Video, frame_resolution = \<lparr>width = 0, height = 0\<rparr>, frame_sequence_number = 0,
                          additional_info = []\<rparr>,
     m_cached_frame_size = 0, m_frame_not_available_probability = 0\<rparr>"

text \<open>The address of the new frame and the random number in \<open>[0, 1)\<close> are parameters.\<close>

definition null_get_frame_blocking :: "u64 \<Rightarrow> NullFrameProvider \<Rightarrow> MediaFrame option" where
  "null_get_frame_blocking new_buffer s = Some (add_metadata (m_cached_metadata s) (MediaFrame_owned new_buffer (m_cached_frame_size s)))"

definition null_is_frame_available :: "rat \<Rightarrow> NullFrameProvider \<Rightarrow> bool" where
  "null_is_frame_available random s \<longleftrightarrow> random \<ge> m_frame_not_available_probability s"

definition null_get_frame_not_blocking :: "rat \<Rightarrow> u64 \<Rightarrow> NullFrameProvider \<Rightarrow> MediaFrame option" where
  "null_get_frame_not_blocking random new_buffer s =
    (if null_is_frame_available random s then null_get_frame_blocking new_buffer s else None)"

definition set_frame_not_available_probability :: "rat \<Rightarrow> NullFrameProvider \<Rightarrow> ReturnStatus \<times> NullFrameProvider" where
  "set_frame_not_available_probability probability s =
    (if probability < 0 \<or> probability > 1 then (failure, s)
     else (success, s\<lparr>m_frame_not_available_probability := probability\<rparr>))"

section \<open>Buffered provider\<close>

text \<open>A blocking call waits, has undefined behaviour, or returns.\<close>

datatype 'a outcome = Waits | Undefined | Returns 'a

record 'f BufferedMediaFrameProvider =
  m_frame_queue :: "'f list"
  m_max_queue_size :: u64
  buffered_m_stop :: bool

definition BufferedMediaFrameProvider_new :: "u64 \<Rightarrow> 'f BufferedMediaFrameProvider" where
  "BufferedMediaFrameProvider_new max_queue_size =
    \<lparr>m_frame_queue = [], m_max_queue_size = max_queue_size, buffered_m_stop = False\<rparr>"

definition buffered_get_frame_blocking :: "'f BufferedMediaFrameProvider \<Rightarrow> ('f option \<times> 'f BufferedMediaFrameProvider) outcome" where
  "buffered_get_frame_blocking s =
    (if \<not> (m_frame_queue s \<noteq> [] \<or> buffered_m_stop s) then Waits
     else if buffered_m_stop s \<and> m_frame_queue s = [] then Returns (None, s)
     else Returns (Some (hd (m_frame_queue s)), s\<lparr>m_frame_queue := tl (m_frame_queue s)\<rparr>))"

definition buffered_get_frame_not_blocking :: "'f BufferedMediaFrameProvider \<Rightarrow> 'f option \<times> 'f BufferedMediaFrameProvider" where
  "buffered_get_frame_not_blocking s =
    (if m_frame_queue s = [] then (None, s)
     else (Some (hd (m_frame_queue s)), s\<lparr>m_frame_queue := tl (m_frame_queue s)\<rparr>))"

definition add_frame :: "'f option \<Rightarrow> 'f BufferedMediaFrameProvider \<Rightarrow> ReturnStatus \<times> 'f BufferedMediaFrameProvider" where
  "add_frame frame s = (case frame of
      None \<Rightarrow> (failure, s)
    | Some f \<Rightarrow>
        if m_max_queue_size s > 0 \<and> length (m_frame_queue s) \<ge> unat (m_max_queue_size s) then (frame_send_queue_full, s)
        else (success, s\<lparr>m_frame_queue := m_frame_queue s @ [f]\<rparr>))"

definition get_queue_size :: "'f BufferedMediaFrameProvider \<Rightarrow> nat" where
  "get_queue_size s = length (m_frame_queue s)"

definition buffered_stop :: "'f BufferedMediaFrameProvider \<Rightarrow> 'f BufferedMediaFrameProvider" where
  "buffered_stop s = s\<lparr>buffered_m_stop := True\<rparr>"

section \<open>File provider\<close>

record MediaFileFrameProvider =
  m_mem_allocator :: MemoryAllocator
  file_frame_size :: u64
  m_loop_frames :: bool
  file_m_stop :: bool
  m_frames_loaded :: bool
  m_input_file :: ifstream
  file_frame_queue :: "MediaFrame list"

definition MediaFileFrameProvider_new :: "u64 \<Rightarrow> MemoryAllocator \<Rightarrow> bool \<Rightarrow> MediaFileFrameProvider" where
  "MediaFileFrameProvider_new frame_size a loop =
    \<lparr>m_mem_allocator = a, file_frame_size = frame_size, m_loop_frames = loop, file_m_stop = False, m_frames_loaded = False,
     m_input_file = ifstream_new, file_frame_queue = []\<rparr>"

definition handle_looping_frame :: "MediaFrame \<Rightarrow> MediaFileFrameProvider \<Rightarrow> MediaFileFrameProvider" where
  "handle_looping_frame frame s = (if m_loop_frames s then s\<lparr>file_frame_queue := file_frame_queue s @ [frame]\<rparr> else s)"

definition file_take_front :: "MediaFileFrameProvider \<Rightarrow> MediaFrame option \<times> MediaFileFrameProvider" where
  "file_take_front s =
    (let frame = hd (file_frame_queue s)
     in (Some frame, handle_looping_frame frame (s\<lparr>file_frame_queue := tl (file_frame_queue s)\<rparr>)))"

text \<open>\<open>front\<close> of an empty queue is undefined.\<close>

definition file_get_frame_blocking :: "MediaFileFrameProvider \<Rightarrow> (MediaFrame option \<times> MediaFileFrameProvider) outcome" where
  "file_get_frame_blocking s =
    (if \<not> (file_frame_queue s \<noteq> [] \<or> m_frames_loaded s \<or> file_m_stop s) then Waits
     else if file_m_stop s \<and> file_frame_queue s = [] then Returns (None, s)
     else if file_frame_queue s = [] then Undefined
     else Returns (file_take_front s))"

definition file_get_frame_not_blocking :: "MediaFileFrameProvider \<Rightarrow> MediaFrame option \<times> MediaFileFrameProvider" where
  "file_get_frame_not_blocking s = (if file_frame_queue s = [] then (None, s) else file_take_front s)"

definition allocate_frames_memory ::
  "os_memory \<Rightarrow> u64 \<Rightarrow> MediaFileFrameProvider \<Rightarrow> (ReturnStatus \<times> u64 \<times> MediaFileFrameProvider) option" where
  "allocate_frames_memory os file_size s =
    (if file_frame_size s = 0 then None
     else do {
       let num_frames = file_size div file_frame_size s;
       required \<leftarrow> align_length os (m_mem_allocator s) (num_frames * file_frame_size s);
       (file_memory_buffer, a) \<leftarrow> allocate_aligned os (m_mem_allocator s) required (get_page_size os (m_mem_allocator s));
       Some (if file_memory_buffer = 0 then failure else success, file_memory_buffer, s\<lparr>m_mem_allocator := a\<rparr>) })"

text \<open>The read loop.  Reading frames of 0 bytes would never end, hence \<open>None\<close>.\<close>

lemma length_ifstream_read: "length (fst (ifstream_read n f)) \<le> n"
  by (auto simp: ifstream_read_def Let_def split: option.split)

lemma ifstream_read_progress:
  "length (fst (ifstream_read n f)) = n \<Longrightarrow> 0 < n \<Longrightarrow> ifstream_size (snd (ifstream_read n f)) - position (snd (ifstream_read n f))
    < ifstream_size f - position f"
  by (auto simp: ifstream_read_def ifstream_size_def Let_def split: option.splits if_splits)

function read_frames_loop ::
  "os_memory \<Rightarrow> MemoryUtils \<Rightarrow> u64 \<Rightarrow> u64 \<Rightarrow> ifstream \<Rightarrow> mem \<Rightarrow> MediaFrame list
    \<Rightarrow> (ReturnStatus \<times> ifstream \<times> mem \<times> MediaFrame list) option" where
  "read_frames_loop os utils frame_size cur_frame_ptr file m queue =
    (if frame_size = 0 then None
     else
       let (temp_buffer, file') = ifstream_read (unat frame_size) file; bytes_read = length temp_buffer
       in if bytes_read = 0 \<and> eofbit file' then Some (success, file', m, queue)
          else if bytes_read = 0 \<and> ifstream_fail file' \<and> \<not> eofbit file' then Some (failure, file', m, queue)
          else if bytes_read < unat frame_size then Some (success, file', m, queue)
          else
            let (_, m) = memory_copy os utils m (unat cur_frame_ptr) temp_buffer;
                frame = MediaFrame_external cur_frame_ptr frame_size
            in read_frames_loop os utils frame_size (cur_frame_ptr + frame_size) file' m (queue @ [frame]))"
  by pat_completeness auto
termination
proof (relation "measure (\<lambda>(os, utils, frame_size, cur, f, m, queue). ifstream_size f - position f)", goal_cases)
  case (2 os utils frame_size cur f m queue x temp_buffer f' bytes_read y rc m' frame)
  have r: "(temp_buffer, f') = ifstream_read (unat frame_size) f" using 2(2,3) by simp
  have "length temp_buffer = unat frame_size"
    using 2 r length_ifstream_read[of "unat frame_size" f] by (metis fst_conv le_neq_implies_less)
  moreover have "0 < unat frame_size" using 2(1) by (simp add: unat_gt_0)
  ultimately show ?case using ifstream_read_progress[of "unat frame_size" f] r by (metis (no_types, lifting) case_prod_conv fst_conv in_measure snd_conv)
qed simp

declare read_frames_loop.simps [simp del]

definition read_frames ::
  "os_memory \<Rightarrow> u64 \<Rightarrow> mem \<Rightarrow> MediaFileFrameProvider \<Rightarrow> (ReturnStatus \<times> mem \<times> MediaFileFrameProvider) option" where
  "read_frames os file_memory_buffer m s = do {
     (rc, file, m, queue) \<leftarrow> read_frames_loop os (get_memory_utils (m_mem_allocator s)) (file_frame_size s) file_memory_buffer
       (m_input_file s) m (file_frame_queue s);
     Some (rc, m, s\<lparr>m_input_file := file, file_frame_queue := queue\<rparr>) }"

text \<open>The file found under the path is a parameter.\<close>

definition load_frames ::
  "os_memory \<Rightarrow> input_file option \<Rightarrow> mem \<Rightarrow> MediaFileFrameProvider \<Rightarrow> (ReturnStatus \<times> mem \<times> MediaFileFrameProvider) option" where
  "load_frames os file m s =
    (if m_frames_loaded s then Some (success, m, s)
     else
       let s = s\<lparr>m_input_file := ifstream_open file (m_input_file s)\<rparr>
       in if \<not> is_open (m_input_file s) then Some (failure, m, s)
          else do {
            let s = s\<lparr>m_input_file := ifstream_seek 0 (ifstream_clear (m_input_file s))\<rparr>;
            let file_size = word_of_nat (ifstream_size (m_input_file s));
            (rc, file_memory_buffer, s) \<leftarrow> allocate_frames_memory os file_size s;
            if rc \<noteq> success then Some (rc, m, s)
            else do {
              (rc, m, s) \<leftarrow> read_frames os file_memory_buffer m s;
              if rc \<noteq> success then Some (rc, m, s)
              else Some (success, m, s\<lparr>m_frames_loaded := True\<rparr>) } })"

definition file_stop :: "MediaFileFrameProvider \<Rightarrow> MediaFileFrameProvider" where
  "file_stop s = s\<lparr>file_m_stop := True\<rparr>"

section \<open>The contract of a provider\<close>

text \<open>A source of frames holds a sequence; taking a frame, by polling or by waiting, delivers its first frame and
  leaves the sequence \<open>after\<close> it.\<close>

fun polls :: "('s \<Rightarrow> 'f option \<times> 's) \<Rightarrow> nat \<Rightarrow> 's \<Rightarrow> 'f option list \<times> 's" where
  "polls get 0 s = ([], s)"
| "polls get (Suc k) s = (let (f, s') = get s; (fs, s'') = polls get k s' in (f # fs, s''))"

locale frame_source =
  fixes get :: "'s \<Rightarrow> 'f option \<times> 's" and blocking :: "'s \<Rightarrow> ('f option \<times> 's) outcome"
    and content :: "'s \<Rightarrow> 'f list" and after :: "'f list \<Rightarrow> 'f list" and ok :: "'s \<Rightarrow> bool"
  assumes get_empty: "content s = [] \<Longrightarrow> get s = (None, s)"
    and get_first: "ok s \<Longrightarrow> content s = f # fs \<Longrightarrow>
      \<exists>s'. get s = (Some f, s') \<and> blocking s = Returns (Some f, s') \<and> ok s' \<and> content s' = after (f # fs)"
begin

lemma polls_frames:
  "ok s \<Longrightarrow> \<forall>i<k. (after ^^ i) (content s) \<noteq> [] \<Longrightarrow>
   fst (polls get k s) = map (\<lambda>i. Some (hd ((after ^^ i) (content s)))) [0..<k]"
proof (induction k arbitrary: s)
  case (Suc k)
  obtain f fs where c: "content s = f # fs" using Suc.prems(2) by (cases "content s") force+
  then obtain s' where s': "get s = (Some f, s')" "ok s'" "content s' = after (content s)"
    using get_first[OF Suc.prems(1) c] by auto
  have "(after ^^ i) (content s') = (after ^^ Suc i) (content s)" for i
    by (simp add: s'(3) funpow_swap1)
  then have "fst (polls get k s') = map (\<lambda>i. Some (hd ((after ^^ Suc i) (content s)))) [0..<k]"
    using Suc.IH[OF s'(2)] Suc.prems(2) by (metis (no_types, lifting) Suc_less_eq map_eq_conv)
  then show ?case
    using s'(1) c by (simp add: case_prod_beta Let_def map_upt_Suc del: upt_Suc)
qed simp

lemma blocking_agrees: "ok s \<Longrightarrow> get s = (Some f, s') \<Longrightarrow> blocking s = Returns (Some f, s')"
  by (cases "content s") (use get_empty get_first in fastforce)+

end

interpretation buffered: frame_source buffered_get_frame_not_blocking buffered_get_frame_blocking m_frame_queue tl "\<lambda>_. True"
  by unfold_locales (simp_all add: buffered_get_frame_not_blocking_def buffered_get_frame_blocking_def)

interpretation file_once: frame_source file_get_frame_not_blocking file_get_frame_blocking file_frame_queue tl "\<lambda>s. \<not> m_loop_frames s"
  by unfold_locales (simp_all add: file_get_frame_not_blocking_def file_get_frame_blocking_def file_take_front_def handle_looping_frame_def)

interpretation file_loop: frame_source file_get_frame_not_blocking file_get_frame_blocking file_frame_queue rotate1 m_loop_frames
  by unfold_locales (simp_all add: file_get_frame_not_blocking_def file_get_frame_blocking_def file_take_front_def handle_looping_frame_def)

section \<open>The buffered provider is a bounded queue\<close>

datatype 'f provider_operation = Add "'f option" | Poll | Wait_for_frame | Stop_provider

text \<open>A run of the provider, with the frames accepted and delivered so far.\<close>

fun run_provider ::
  "'f provider_operation \<Rightarrow> 'f BufferedMediaFrameProvider \<times> 'f list \<times> 'f list \<Rightarrow> 'f BufferedMediaFrameProvider \<times> 'f list \<times> 'f list" where
  "run_provider (Add f) (s, accepted, delivered) =
    (let (rc, s') = add_frame f s in (s', if rc = success then accepted @ [the f] else accepted, delivered))"
| "run_provider Poll (s, accepted, delivered) =
    (let (f, s') = buffered_get_frame_not_blocking s in (s', accepted, delivered @ (case f of None \<Rightarrow> [] | Some f \<Rightarrow> [f])))"
| "run_provider Wait_for_frame (s, accepted, delivered) =
    (case buffered_get_frame_blocking s of
       Returns (f, s') \<Rightarrow> (s', accepted, delivered @ (case f of None \<Rightarrow> [] | Some f \<Rightarrow> [f]))
     | _ \<Rightarrow> (s, accepted, delivered))"
| "run_provider Stop_provider (s, accepted, delivered) = (buffered_stop s, accepted, delivered)"

definition provider_inv :: "u64 \<Rightarrow> 'f BufferedMediaFrameProvider \<times> 'f list \<times> 'f list \<Rightarrow> bool" where
  "provider_inv n c \<longleftrightarrow> snd (snd c) @ m_frame_queue (fst c) = fst (snd c) \<and> m_max_queue_size (fst c) = n
     \<and> (n > 0 \<longrightarrow> length (m_frame_queue (fst c)) \<le> unat n)"

lemma provider_step_inv: "provider_inv n c \<Longrightarrow> provider_inv n (run_provider operation c)"
  by (cases c; cases operation; cases "m_frame_queue (fst c)")
     (auto simp: provider_inv_def add_frame_def buffered_get_frame_not_blocking_def buffered_get_frame_blocking_def buffered_stop_def
       split: option.split)

text \<open>C27: the buffered provider is a bounded first-in first-out queue.  In every sequence of
  adds, polls, waits and stops the frames delivered, followed by those still queued, are exactly the frames
  accepted, in order, and a bounded queue never holds more than its maximum.\<close>

theorem buffered_provider_fifo:
  "case fold run_provider operations (BufferedMediaFrameProvider_new n, [], []) of (s, accepted, delivered) \<Rightarrow>
     delivered @ m_frame_queue s = accepted \<and> (n = 0 \<or> length (m_frame_queue s) \<le> unat n)"
proof -
  have "provider_inv n (fold run_provider operations (BufferedMediaFrameProvider_new n, [], []))"
    by (rule fold_invariant[where Q = "\<lambda>_. True" and P = "provider_inv n"])
       (simp_all add: provider_step_inv, simp add: provider_inv_def BufferedMediaFrameProvider_new_def)
  then show ?thesis by (cases "n = 0") (auto simp: provider_inv_def word_neq_0_conv[symmetric] split: prod.split)
qed

section \<open>The file provider delivers the file\<close>

definition readable :: "ifstream \<Rightarrow> u8 list \<Rightarrow> nat \<Rightarrow> bool" where
  "readable f bytes p \<longleftrightarrow> opened f = Some \<lparr>file_bytes = bytes, bad_from = None\<rparr> \<and> position f = p \<and> \<not> eofbit f \<and> \<not> failbit f \<and> \<not> badbit f"

lemma ifstream_read_readable:
  assumes "readable f bytes p"
  shows "fst (ifstream_read n f) = take n (drop p bytes)"
    and "n \<le> length (drop p bytes) \<Longrightarrow> readable (snd (ifstream_read n f)) bytes (p + n)"
    and "length (drop p bytes) < n \<Longrightarrow> eofbit (snd (ifstream_read n f))"
  using assms by (auto simp: ifstream_read_def readable_def Let_def)

definition copy_reliable :: "os_memory \<Rightarrow> MemoryUtils \<Rightarrow> bool" where
  "copy_reliable os utils \<longleftrightarrow> utils \<noteq> GpuMemoryUtils \<or> (\<forall>dst n. gpu_memcpy_ok os dst n)"

lemma memory_copy_reliable: "copy_reliable os utils \<Longrightarrow> memory_copy os utils m dst src = (success, mem_write m dst src)"
  by (auto simp: memory_copy_def copy_reliable_def)

definition file_frames :: "u64 \<Rightarrow> u64 \<Rightarrow> nat \<Rightarrow> MediaFrame list" where
  "file_frames start frame_size n = map (\<lambda>i. MediaFrame_external (start + word_of_nat i * frame_size) frame_size) [0..<n]"

lemma file_frames_Suc: "file_frames start sz (Suc n) = MediaFrame_external start sz # file_frames (start + sz) sz n"
  by (simp add: file_frames_def map_upt_Suc algebra_simps del: upt_Suc)

lemma read_frames_loop_frames:
  assumes "readable f bytes p" "copy_reliable os utils" "0 < sz" "n = length (drop p bytes) div unat sz"
    and "unat cur + n * unat sz < 2 ^ 64"
  shows "\<exists>f'. read_frames_loop os utils sz cur f m queue
    = Some (success, f', mem_write m (unat cur) (take (n * unat sz) (drop p bytes)), queue @ file_frames cur sz n)"
  using assms(1,4,5)
proof (induction n arbitrary: f p cur m queue)
  case 0
  have pos: "0 < unat sz" using assms(3) by (simp add: unat_gt_0 word_neq_0_conv)
  then have "length (drop p bytes) < unat sz" using 0(2) by (simp add: div_eq_0_iff)
  then show ?case
    using ifstream_read_readable[OF 0(1), of "unat sz"] assms(3)
    by (subst read_frames_loop.simps) (auto simp: case_prod_beta Let_def file_frames_def)
next
  case (Suc n)
  have pos: "0 < unat sz" using assms(3) by (simp add: unat_gt_0 word_neq_0_conv)
  have len: "unat sz \<le> length (drop p bytes)" using Suc.prems(2) pos by (metis One_nat_def Suc_le_eq div_greater_zero_iff zero_less_Suc)
  note r = ifstream_read_readable[OF Suc.prems(1), of "unat sz"]
  let ?f' = "snd (ifstream_read (unat sz) f)" and ?got = "take (unat sz) (drop p bytes)"
  have rest: "n = length (drop (p + unat sz) bytes) div unat sz"
    using Suc.prems(2) len pos by (simp add: le_div_geq)
  have cur: "unat (cur + sz) = unat cur + unat sz" using Suc.prems(3) by (intro unat_add_no_wrap) simp
  have next_cur: "unat (cur + sz) + n * unat sz < 2 ^ 64" using Suc.prems(3) cur by simp
  obtain f'' where ih: "read_frames_loop os utils sz (cur + sz) ?f' (mem_write m (unat cur) ?got) (queue @ [MediaFrame_external cur sz])
    = Some (success, f'', mem_write (mem_write m (unat cur) ?got) (unat (cur + sz)) (take (n * unat sz) (drop (p + unat sz) bytes)),
            (queue @ [MediaFrame_external cur sz]) @ file_frames (cur + sz) sz n)"
    using Suc.IH[OF r(2)[OF len] rest next_cur, of "mem_write m (unat cur) ?got" "queue @ [MediaFrame_external cur sz]"] by blast
  have "take (Suc n * unat sz) (drop p bytes) = ?got @ take (n * unat sz) (drop (p + unat sz) bytes)"
    by (simp add: take_add add.commute)
  then have m: "mem_write m (unat cur) (take (Suc n * unat sz) (drop p bytes))
    = mem_write (mem_write m (unat cur) ?got) (unat (cur + sz)) (take (n * unat sz) (drop (p + unat sz) bytes))"
    using len cur by (simp add: mem_write_append min_absorb2)
  have "read_frames_loop os utils sz cur f m queue
    = read_frames_loop os utils sz (cur + sz) ?f' (mem_write m (unat cur) ?got) (queue @ [MediaFrame_external cur sz])"
    using r(1) len pos assms(3) memory_copy_reliable[OF assms(2)]
    by (subst read_frames_loop.simps) (auto simp: case_prod_beta Let_def)
  then show ?case using ih m by (simp add: file_frames_Suc)
qed

lemma mem_read_write_slice:
  assumes "j + l \<le> length bs"
  shows "mem_read (mem_write m a bs) (a + j) l = take l (drop j bs)"
  using assms by (intro nth_equalityI) (simp_all add: mem_write_def)

lemma allocate_keeps_class: "allocate os a len = Some (q, a') \<Longrightarrow> allocator a' = allocator a"
  by (auto simp: allocate_defs record_block_def bind_eq_Some_conv split: allocator_class.splits if_splits)

lemma allocate_aligned_keeps_class: "allocate_aligned os a len alignment = Some (q, a') \<Longrightarrow> allocator a' = allocator a"
  using allocate_keeps_class by (auto simp: allocate_aligned_def bind_eq_Some_conv Let_def split: if_splits)

definition within_address_space :: "os_memory \<Rightarrow> MemoryAllocator \<Rightarrow> nat \<Rightarrow> bool" where
  "within_address_space os a k \<longleftrightarrow>
     (\<forall>len b a'. allocate_aligned os a len (get_page_size os a) = Some (b, a') \<longrightarrow> unat b + k < 2 ^ 64)"

lemma load_frames_content:
  assumes "load_frames os (Some \<lparr>file_bytes = bytes, bad_from = None\<rparr>) m (MediaFileFrameProvider_new sz a loop) = Some (success, m', s)"
    and "copy_reliable os (get_memory_utils a)" "within_address_space os a (length bytes)" "n = length bytes div unat sz"
  obtains b where "unat b + length bytes < 2 ^ 64" "file_frame_queue s = file_frames b sz n" "m_loop_frames s = loop"
    "m' = mem_write m (unat b) (take (n * unat sz) bytes)" "m_frames_loaded s"
proof -
  let ?s1 = "(MediaFileFrameProvider_new sz a loop)\<lparr>m_input_file := ifstream_seek 0 (ifstream_clear
    (ifstream_open (Some \<lparr>file_bytes = bytes, bad_from = None\<rparr>) ifstream_new))\<rparr>"
  have opens: "is_open (ifstream_open (Some \<lparr>file_bytes = bytes, bad_from = None\<rparr>) ifstream_new)"
    by (simp add: ifstream_open_def ifstream_new_def is_open_def)
  have readable: "readable (m_input_file ?s1) bytes 0"
    by (simp add: readable_def ifstream_open_def ifstream_new_def is_open_def ifstream_clear_def ifstream_seek_def Let_def ifstream_fail_def)
  obtain rc b s2 where alloc: "allocate_frames_memory os (word_of_nat (length bytes)) ?s1 = Some (rc, b, s2)"
    and rest: "rc = success \<Longrightarrow> \<exists>rc' s3. read_frames os b m s2 = Some (rc', m', s3) \<and> (rc' = success \<longrightarrow> s = s3\<lparr>m_frames_loaded := True\<rparr>)
        \<and> rc' = success"
    and rc: "rc = success"
    using assms(1) opens
    by (auto simp: load_frames_def MediaFileFrameProvider_new_def Let_def bind_eq_Some_conv ifstream_size_def ifstream_open_def
        ifstream_new_def is_open_def ifstream_clear_def ifstream_seek_def ifstream_fail_def split: if_splits)
  obtain a' len where a': "allocate_aligned os a len (get_page_size os a) = Some (b, a')" "s2 = ?s1\<lparr>m_mem_allocator := a'\<rparr>" "sz \<noteq> 0"
    using alloc by (auto simp: allocate_frames_memory_def bind_eq_Some_conv MediaFileFrameProvider_new_def Let_def split: if_splits)
  have b: "unat b + length bytes < 2 ^ 64" using a'(1) assms(3) unfolding within_address_space_def by blast
  have utils: "get_memory_utils a' = get_memory_utils a"
    using allocate_aligned_keeps_class[OF a'(1)] by (simp add: get_memory_utils_def)
  have fits: "unat b + n * unat sz < 2 ^ 64"
    using b assms(4) by (metis add_le_cancel_left div_times_less_eq_dividend le_less_trans)
  obtain f' where "read_frames_loop os (get_memory_utils a') sz b (m_input_file ?s1) m []
      = Some (success, f', mem_write m (unat b) (take (n * unat sz) bytes), file_frames b sz n)"
    using read_frames_loop_frames[OF readable _ _ _ fits, of os "get_memory_utils a'" m "[]"] assms(2,4) utils a'(3)
    by (auto simp: word_neq_0_conv)
  then have "read_frames os b m s2 = Some (success, mem_write m (unat b) (take (n * unat sz) bytes),
      s2\<lparr>m_input_file := f', file_frame_queue := file_frames b sz n\<rparr>)"
    using a'(2) by (simp add: read_frames_def MediaFileFrameProvider_new_def)
  then show ?thesis using rest[OF rc] b a'(2) by (intro that[of b]) (auto simp: MediaFileFrameProvider_new_def)
qed

lemma polls_file:
  assumes "file_frame_queue s = qs" "qs \<noteq> []" "m_loop_frames s \<or> k \<le> length qs"
  shows "fst (polls file_get_frame_not_blocking k s) = map (\<lambda>i. Some (qs ! (i mod length qs))) [0..<k]"
proof (cases "m_loop_frames s")
  case True
  have "(rotate1 ^^ i) qs = rotate i qs" for i by (simp add: rotate_def)
  then show ?thesis using file_loop.polls_frames[of s k] True assms by (simp add: hd_rotate_conv_nth)
next
  case False
  have tl: "(tl ^^ i) qs = drop i qs" for i by (induction i) (simp_all add: tl_drop drop_Suc)
  have "\<forall>i<k. (tl ^^ i) (file_frame_queue s) \<noteq> []" using False assms tl by simp
  then have "fst (polls file_get_frame_not_blocking k s) = map (\<lambda>i. Some (hd (drop i qs))) [0..<k]"
    using file_once.polls_frames[of s k] False assms(1) tl by simp
  then show ?thesis using False assms(3) by (auto simp: hd_drop_conv_nth)
qed

text \<open>C25: the file provider delivers the file, frame by frame.  After the frames of a readable
  file were loaded, the \<open>i\<close>th frame polled holds the \<open>i\<close>th slice of the file, for ever round when looping
  is on and until the last whole frame otherwise; a rest smaller than a frame is never delivered.\<close>

theorem file_provider_frames:
  assumes "load_frames os (Some \<lparr>file_bytes = bytes, bad_from = None\<rparr>) m (MediaFileFrameProvider_new sz a loop) = Some (success, m', s)"
    and "copy_reliable os (get_memory_utils a)" "within_address_space os a (length bytes)"
    and "n = length bytes div unat sz" "0 < n" "loop \<or> k \<le> n"
  shows "map (map_option (\<lambda>f. mem_read m' (unat (buffer_ptr (frame_data f))) (unat sz))) (fst (polls file_get_frame_not_blocking k s))
    = map (\<lambda>i. Some (take (unat sz) (drop (i mod n * unat sz) bytes))) [0..<k]"
proof -
  obtain b where b: "unat b + length bytes < 2 ^ 64" "file_frame_queue s = file_frames b sz n" "m_loop_frames s = loop"
    "m' = mem_write m (unat b) (take (n * unat sz) bytes)"
    by (rule load_frames_content[OF assms(1-4)])
  have total: "n * unat sz \<le> length bytes" using assms(4) by simp
  have len: "length (file_frames b sz n) = n" by (simp add: file_frames_def)
  have frame: "mem_read m' (unat (buffer_ptr (frame_data (file_frames b sz n ! j)))) (unat sz) = take (unat sz) (drop (j * unat sz) bytes)"
    if "j < n" for j
  proof -
    have fit: "j * unat sz + unat sz \<le> n * unat sz" using that by (metis Suc_leI mult_Suc mult_le_mono1 add.commute)
    have "unat (buffer_ptr (frame_data (file_frames b sz n ! j))) = unat b + j * unat sz"
      using that b(1) total frame_address[of j n b sz] by (simp add: file_frames_def MediaFrame_external_def FrameBuffer_external_def)
    then show ?thesis
      using fit total unfolding b(4) by (simp add: mem_read_write_slice drop_take min_absorb1)
  qed
  have "fst (polls file_get_frame_not_blocking k s) = map (\<lambda>i. Some (file_frames b sz n ! (i mod n))) [0..<k]"
    using polls_file[OF b(2)] assms(5,6) b(3) len by (metis length_greater_0_conv)
  then show ?thesis using frame assms(5) by simp
qed

definition example_file :: input_file where
  "example_file = \<lparr>file_bytes = [1, 2, 3, 4, 5], bad_from = None\<rparr>"

lemma example_load:
  "\<exists>m' s. load_frames example_os (Some example_file) (\<lambda>_. 0) (MediaFileFrameProvider_new 2 (NewMemoryAllocator_new example_os 0) True)
    = Some (success, m', s)"
  by (simp add: load_frames_def example_file_def MediaFileFrameProvider_new_def ifstream_open_def ifstream_new_def is_open_def
      ifstream_clear_def ifstream_seek_def ifstream_fail_def ifstream_size_def allocate_frames_memory_def align_length_def
      NewMemoryAllocator_new_def base_align_length_def get_page_size_def example_os_def allocate_aligned_def allocate_defs
      allocate_new_def record_block_def read_frames_def read_frames_loop.simps ifstream_read_def get_memory_utils_def memory_copy_def)

theorem file_provider_frames_witness:
  "\<exists>m' s. map (map_option (\<lambda>f. mem_read m' (unat (buffer_ptr (frame_data f))) 2)) (fst (polls file_get_frame_not_blocking 3 s))
    = [Some [1, 2], Some [3, 4], Some [1, 2]]"
proof -
  obtain m' s where load: "load_frames example_os (Some \<lparr>file_bytes = [1, 2, 3, 4, 5], bad_from = None\<rparr>) (\<lambda>_. 0)
      (MediaFileFrameProvider_new 2 (NewMemoryAllocator_new example_os 0) True) = Some (success, m', s)"
    using example_load unfolding example_file_def by blast
  have space: "within_address_space example_os (NewMemoryAllocator_new example_os 0) (length [1, 2, 3, 4, 5 :: u8])"
    by (auto simp: within_address_space_def allocate_aligned_def allocate_defs allocate_new_def record_block_def example_os_def
        NewMemoryAllocator_new_def get_page_size_def)
  have "copy_reliable example_os (get_memory_utils (NewMemoryAllocator_new example_os 0))"
    by (simp add: copy_reliable_def get_memory_utils_def NewMemoryAllocator_new_def)
  then show ?thesis
    using file_provider_frames[OF load _ space refl, of 3] by (intro exI[of _ m'] exI[of _ s]) (simp add: upt_rec)
qed

text \<open>Without looping, a thread that waits for a frame after the last one takes the front of an empty queue.\<close>

lemma exhausted_file_undefined:
  "m_frames_loaded s \<Longrightarrow> \<not> file_m_stop s \<Longrightarrow> file_frame_queue s = [] \<Longrightarrow> file_get_frame_blocking s = Undefined"
  by (simp add: file_get_frame_blocking_def)

end
