(* ===== verification/Rtp_Send_Stream.thy ===== *)
theory Rtp_Send_Stream
  imports Rtp_Writer "HOL-Library.Monad_Syntax"
begin

text \<open>
  The older RTP sender of \<^verbatim>\<open>io_node/common/rtp_video_send_stream.cpp\<close>, which the latency and media sender nodes
  use: it writes the SMPTE ST 2110-20 headers of a chunk byte by byte, and computes the send times and the
  packet spacing of SMPTE ST 2110-21, as \<^verbatim>\<open>calculate_tro_trs\<close> of \<^verbatim>\<open>services/media/media_utils.cpp\<close> does too.  The
  lemmas relate it to the buffer writer of theory \<open>Rtp_Writer\<close>: two implementations of the same packet format.
\<close>

section \<open>The stream\<close>

type_synonym SendingStatistics = RTPStreamSendStats

record RtpVideoSendStream =
  send_media_settings :: MediaSettings
  send_packet_payload_size :: u16
  send_hds_on :: bool
  send_app_header_stride_size :: u64
  send_data_stride_size :: u64
  m_send_stats :: SendingStatistics

definition RtpVideoSendStream_new :: "MediaSettings \<Rightarrow> u16 \<Rightarrow> bool \<Rightarrow> u64 \<Rightarrow> u64 \<Rightarrow> RtpVideoSendStream" where
  "RtpVideoSendStream_new settings payload hds header_stride data_stride =
    \<lparr>send_media_settings = settings, send_packet_payload_size = payload, send_hds_on = hds,
     send_app_header_stride_size = header_stride, send_data_stride_size = data_stride,
     m_send_stats = \<lparr>packet_counter = 0, rtp_sequence = 0, rtp_timestamp = 0, rtp_interlace_field_indicator = 0,
                     line_number = 0, srd_offset = 0\<rparr>\<rparr>"

section \<open>Headers\<close>

definition mock_ssrc :: u32 where "mock_ssrc = 0x0eb51dbd"

text \<open>The pixel groups of a packet: \<open>(payload size - 20) / 2.5\<close> in double precision, cut to 16 bits.\<close>

definition mock_group_size :: "u16 \<Rightarrow> nat option" where
  "mock_group_size payload = to_unsigned 16 (dbl (of_int (int (unat payload) - 20) / (5 / 2)))"

definition mock_rows :: "MediaSettings \<Rightarrow> nat" where
  "mock_rows ms = (if video_scan_type ms = Interlaced then unat (height (resolution ms)) div 2 else unat (height (resolution ms)))"

definition mock_ticks :: "MediaSettings \<Rightarrow> nat option" where
  "mock_ticks ms =
    (if num (frame_rate ms) = 0 \<or> denom (frame_rate ms) = 0 then None
     else
       let fps = dbl (of_nat (unat (num (frame_rate ms))) / of_nat (unat (denom (frame_rate ms))));
           ticks = dbl (dbl (of_nat (unat (sample_rate ms))) / fps)
       in to_unsigned 32 (if video_scan_type ms = Interlaced then dbl (ticks / 2) else ticks))"

definition build_2110_20_rtp_header :: "MediaSettings \<Rightarrow> u16 \<Rightarrow> nat \<Rightarrow> SendingStatistics \<times> mem \<Rightarrow> (SendingStatistics \<times> mem) option" where
  "build_2110_20_rtp_header ms payload buffer = (\<lambda>(d, m). do {
     let m = mem_write m buffer [0x80, 96];
     let m = mem_write m (buffer + 2) [ucast (drop_bit 8 (rtp_sequence d)), ucast (rtp_sequence d)];
     let m = mem_write m (buffer + 4) (bytes_le32 (htonl (rtp_timestamp d)));
     let m = mem_write m (buffer + 8) (bytes_le32 mock_ssrc);
     let m = mem_write m (buffer + 12) [ucast (drop_bit 24 (rtp_sequence d)), ucast (drop_bit 16 (rtp_sequence d))];
     let m = mem_write m (buffer + 14) (bytes_le16 (htons (payload - 20)));
     if mock_rows ms = 0 then None
     else do {
       let row = (word_of_nat (unat (line_number d) mod mock_rows ms) :: u16);
       let m = mem_write m (buffer + 16) (bytes_le16 (htons row));
       let m = mem_write m (buffer + 16) [m (buffer + 16) OR push_bit 7 (rtp_interlace_field_indicator d)];
       let m = mem_write m (buffer + 18) (bytes_le16 (htons (srd_offset d)));
       group_size \<leftarrow> mock_group_size payload;
       let line_size = word_of_nat group_size * packets_in_line ms;
       if line_size = 0 then None
       else do {
         let d = d\<lparr>srd_offset := ucast (word_of_nat (unat (srd_offset d) + group_size) mod line_size),
                   packet_counter := packet_counter d + 1\<rparr>;
         (d, m) \<leftarrow>
           (if packet_counter d = packets_in_frame_field ms then do {
              let m = mem_write m (buffer + 1) [m (buffer + 1) OR 0x80];
              ticks \<leftarrow> mock_ticks ms;
              let d = (if video_scan_type ms = Interlaced
                       then d\<lparr>rtp_interlace_field_indicator := (if rtp_interlace_field_indicator d = 0 then 1 else 0)\<rparr> else d);
              Some (d\<lparr>rtp_timestamp := rtp_timestamp d + word_of_nat ticks\<rparr>, m) }
            else Some (d, m));
         Some (d\<lparr>rtp_sequence := rtp_sequence d + 1\<rparr>, m) } } })"

text \<open>The loop over the strides of a chunk, with the number of strides left.\<close>

fun prepare_loop :: "MediaSettings \<Rightarrow> u16 \<Rightarrow> nat \<Rightarrow> nat \<Rightarrow> nat \<Rightarrow> nat \<Rightarrow> SendingStatistics \<times> mem \<Rightarrow> (SendingStatistics \<times> mem) option" where
  "prepare_loop ms payload header_pointer header_stride_size stride 0 st = Some st"
| "prepare_loop ms payload header_pointer header_stride_size stride (Suc n) st =
    (if packet_counter (fst st) < packets_in_frame_field ms then do {
       (d, m) \<leftarrow> build_2110_20_rtp_header ms payload (header_pointer + stride * header_stride_size) st;
       d \<leftarrow>
         (if packets_in_line ms = 0 then None
          else if (stride + 1) mod unat (packets_in_line ms) = 0
               then if height (resolution ms) = 0 then None
                    else Some (d\<lparr>line_number := word_of_nat ((unat (line_number d) + 1) mod unat (height (resolution ms)))\<rparr>)
          else Some d);
       prepare_loop ms payload header_pointer header_stride_size (stride + 1) n (d, m) }
     else Some st)"

definition prepare_chunk_to_send :: "nat \<Rightarrow> nat \<Rightarrow> nat \<Rightarrow> RtpVideoSendStream \<times> mem \<Rightarrow> (RtpVideoSendStream \<times> mem) option" where
  "prepare_chunk_to_send app_hdr_ptr data_ptr chunk_length = (\<lambda>(s, m). do {
     let (header_pointer, header_stride_size) =
       (if send_hds_on s then (app_hdr_ptr, unat (send_app_header_stride_size s)) else (data_ptr, unat (send_data_stride_size s)));
     (d, m) \<leftarrow> prepare_loop (send_media_settings s) (send_packet_payload_size s) header_pointer header_stride_size 0 chunk_length
       (m_send_stats s, m);
     if packets_in_frame_field (send_media_settings s) = 0 then None
     else Some (s\<lparr>m_send_stats := d\<lparr>packet_counter := packet_counter d mod packets_in_frame_field (send_media_settings s)\<rparr>\<rparr>, m) })"

section \<open>Send times\<close>

definition SLEEP_THRESHOLD_NS :: u64 where "SLEEP_THRESHOLD_NS = 2000000"
definition VIDEO_TRO_DEFAULT_MODIFICATION :: nat where "VIDEO_TRO_DEFAULT_MODIFICATION = 2"

text \<open>\<open>calculate_trs\<close>; the division by the packets of a frame is a division by zero when there are none.\<close>

definition trs_t_frame_ns :: "MediaSettings \<Rightarrow> rat" where
  "trs_t_frame_ns ms = (if video_scan_type ms = Progressive then frame_field_time_interval_ns ms
     else dbl (frame_field_time_interval_ns ms * 2))"

definition trs_r_active :: "MediaSettings \<Rightarrow> rat" where
  "trs_r_active ms =
    (if video_scan_type ms = Progressive then dbl (1080 / 1125)
     else if unat (height (resolution ms)) \<ge> FHD_HEIGHT then dbl (1080 / 1125)
     else if unat (height (resolution ms)) \<ge> 576 then dbl (576 / 625)
     else dbl (487 / 525))"

definition trs_packets_in_frame :: "MediaSettings \<Rightarrow> u32" where
  "trs_packets_in_frame ms = (if video_scan_type ms = Progressive then packets_in_frame_field ms else packets_in_frame_field ms * 2)"

definition calculate_trs :: "MediaSettings \<Rightarrow> rat option" where
  "calculate_trs ms =
    (if trs_packets_in_frame ms = 0 then None
     else Some (dbl (dbl (trs_t_frame_ns ms * trs_r_active ms) / of_nat (unat (trs_packets_in_frame ms)))))"

text \<open>\<open>calculate_tro_trs\<close> computes both; its cascade of cases sets the two factors together.\<close>

definition tro_factors :: "MediaSettings \<Rightarrow> rat \<times> rat" where
  "tro_factors ms =
    (if video_scan_type ms = Progressive then
       (dbl (1080 / 1125), if unat (height (resolution ms)) \<ge> FHD_HEIGHT then dbl (43 / 1125) else dbl (28 / 750))
     else if unat (height (resolution ms)) \<ge> FHD_HEIGHT then (dbl (1080 / 1125), dbl (22 / 1125))
     else if unat (height (resolution ms)) \<ge> 576 then (dbl (576 / 625), dbl (26 / 625))
     else (dbl (487 / 525), dbl (20 / 525)))"

definition calculate_tro_trs :: "MediaSettings \<Rightarrow> (rat \<times> rat) option" where
  "calculate_tro_trs ms =
    (let t_frame_ns = (if video_scan_type ms = Progressive then frame_field_time_interval_ns ms
                       else dbl (frame_field_time_interval_ns ms * 2));
         (r_active, tro_default_multiplier) = tro_factors ms;
         packets_in_frame = (if video_scan_type ms = Progressive then packets_in_frame_field ms else packets_in_frame_field ms * 2)
     in if packets_in_frame = 0 then None
        else
          let trs = dbl (dbl (t_frame_ns * r_active) / of_nat (unat packets_in_frame));
              tro = dbl (dbl (tro_default_multiplier * t_frame_ns) - dbl (of_nat VIDEO_TRO_DEFAULT_MODIFICATION * trs))
          in Some (tro, trs))"

definition calculate_send_time_ns :: "u64 \<Rightarrow> RtpVideoSendStream \<Rightarrow> (rat \<times> RtpVideoSendStream) option" where
  "calculate_send_time_ns time_now_ns s = do {
     let ms = send_media_settings s;
     let send_time_ns = dbl (of_nat (unat (time_now_ns + word_of_nat NS_IN_SEC)));
     let t_frame_ns = (if video_scan_type ms = Progressive then frame_field_time_interval_ns ms
                       else dbl (frame_field_time_interval_ns ms * 2));
     if t_frame_ns = 0 then None else do {
     N \<leftarrow> to_unsigned 64 (dbl (dbl (send_time_ns / t_frame_ns) + 1));
     let first_packet_start_time_ns = dbl (dbl (of_nat N) * t_frame_ns);
     let (r_active, tro_default_multiplier) = tro_factors ms;
     let packets_in_frame = (if video_scan_type ms = Progressive then packets_in_frame_field ms else packets_in_frame_field ms * 2);
     if packets_in_frame = 0 then None else do {
     let trs_ns = dbl (dbl (t_frame_ns * r_active) / of_nat (unat packets_in_frame));
     let tro = dbl (dbl (tro_default_multiplier * t_frame_ns) - dbl (of_nat VIDEO_TRO_DEFAULT_MODIFICATION * trs_ns));
     let first_packet_start_time_ns = dbl (first_packet_start_time_ns + tro);
     timestamp \<leftarrow> to_unsigned 32 (time_to_rtp_timestamp first_packet_start_time_ns (sint (ucast (sample_rate ms) :: u32)));
     Some (first_packet_start_time_ns, s\<lparr>m_send_stats := (m_send_stats s)\<lparr>rtp_timestamp := word_of_nat timestamp\<rparr>\<rparr>) } } }"

lemma trs_agree: "calculate_trs ms = map_option snd (calculate_tro_trs ms)"
  by (simp add: calculate_trs_def calculate_tro_trs_def trs_t_frame_ns_def trs_r_active_def trs_packets_in_frame_def tro_factors_def
      Let_def)

section \<open>Agreement with the buffer writer\<close>

text \<open>The formats for which the two senders are meant to write the same: 2.5 bytes per pixel, payload type 96,
  the same rows and ticks, and lines that fit the 15-bit offset.\<close>

definition mock_ok :: "MediaSettings \<Rightarrow> u16 \<Rightarrow> bool" where
  "mock_ok ms payload \<longleftrightarrow> wf_media ms \<and> mock_group_size payload = Some (unat (pixels_per_packet ms))
     \<and> ucast (raw_packet_payload_size ms) = payload - 20 \<and> payload_type ms = 96
     \<and> mock_ticks ms = to_unsigned 32 (ticks_per_frame ms) \<and> mock_rows ms = unat (lines_in_frame_field ms)
     \<and> (video_scan_type ms = Interlaced \<longrightarrow> even (unat (height (resolution ms)))) \<and> unat (width (resolution ms)) < 2 ^ 15"

text \<open>The state of this sender follows the state of the buffer writer; only its line counter runs over both
  fields.\<close>

definition tracks :: "MediaSettings \<Rightarrow> RTPStreamSendStats \<Rightarrow> SendingStatistics \<Rightarrow> bool" where
  "tracks ms s d \<longleftrightarrow> rtp_sequence d = rtp_sequence s \<and> rtp_timestamp d = rtp_timestamp s
     \<and> rtp_interlace_field_indicator d = rtp_interlace_field_indicator s \<and> srd_offset d = srd_offset s
     \<and> unat (line_number d) mod unat (lines_in_frame_field ms) = unat (line_number s)"

lemma mem_write_over:
  "n \<le> length xs \<Longrightarrow> mem_write (mem_write m b xs) (b + n) ys = mem_write m b (take n xs @ ys @ drop (n + length ys) xs)"
  by (rule ext) (auto simp: mem_write_def nth_append)

lemma mem_write_at: "n < length xs \<Longrightarrow> mem_write m b xs (b + n) = xs ! n"
  by (simp add: mem_write_def)

lemma take_one: "take 1 (x # xs) = [x]"
  by simp

lemmas mock_memory = mem_write_over[of "1"] mem_write_over[of "numeral k" for k] mem_write_at[of "1"] mem_write_at[of "numeral k" for k]

lemma sequence_bytes:
  fixes q :: u32
  shows "[ucast (drop_bit 8 q), ucast q] = bytes_be16 (ucast q)"
    and "[ucast (drop_bit 24 q), ucast (drop_bit 16 q)] = bytes_be16 (ucast (drop_bit 16 q))"
  by (auto simp: bytes_be16_def bit_simps intro!: bit_word_eqI)

lemma low_high_byte:
  assumes "unat (x :: u16) < 2 ^ 15"
  shows "ucast (drop_bit 8 x) AND (0x7f :: u8) = ucast (drop_bit 8 x)"
proof -
  have "\<not> bit (unat x) 15" using assms by (simp add: bit_iff_odd)
  then have nb: "\<not> bit x 15" by (simp add: bit_unsigned_iff)
  have m: "(0x7f :: u8) = mask 7" by (simp add: mask_eq_exp_minus_1)
  have "n < 7" if "n < 8" "bit x (8 + n)" for n
    using that nb by (cases "n = 7") auto
  then show ?thesis unfolding m by (intro bit_word_eqI) (auto simp: bit_simps)
qed

lemma field_bit: "push_bit 7 (x :: u8) = (if odd x then 0x80 else 0)"
proof -
  have "push_bit 7 x = push_bit 7 (ucast (ucast x :: 1 word))"
    by (intro bit_word_eqI) (auto simp: bit_simps)
  then show ?thesis by (simp only: one_bit)
qed

text \<open>The header of a packet, as the sequence of stores of the code.\<close>

lemma mock_header_stores:
  assumes "mock_ok ms payload" "tracks ms s d" "unat (srd_offset s) < 2 ^ 15" "unat (line_number s) < unat (lines_in_frame_field ms)"
    and "last_one = (packet_counter s = packets_in_frame_field ms - 1)"
    and "m1 = mem_write m b [0x80, 96]"
    and "m2 = mem_write m1 (b + 2) [ucast (drop_bit 8 (rtp_sequence d)), ucast (rtp_sequence d)]"
    and "m3 = mem_write m2 (b + 4) (bytes_le32 (htonl (rtp_timestamp d)))"
    and "m4 = mem_write m3 (b + 8) (bytes_le32 mock_ssrc)"
    and "m5 = mem_write m4 (b + 12) [ucast (drop_bit 24 (rtp_sequence d)), ucast (drop_bit 16 (rtp_sequence d))]"
    and "m6 = mem_write m5 (b + 14) (bytes_le16 (htons (payload - 20)))"
    and "m7 = mem_write m6 (b + 16) (bytes_le16 (htons (word_of_nat (unat (line_number d) mod mock_rows ms))))"
    and "m8 = mem_write m7 (b + 16) [m7 (b + 16) OR push_bit 7 (rtp_interlace_field_indicator d)]"
    and "m9 = mem_write m8 (b + 18) (bytes_le16 (htons (srd_offset d)))"
  shows "(if last_one then mem_write m9 (b + 1) [m9 (b + 1) OR 0x80] else m9) = mem_write m b (packet_header ms (htonl mock_ssrc) s)"
proof -
  have wf: "wf_media ms" and ok: "ucast (raw_packet_payload_size ms) = payload - 20" "payload_type ms = 96"
    "mock_rows ms = unat (lines_in_frame_field ms)"
    using assms(1) by (simp_all add: mock_ok_def)
  have tr: "rtp_sequence d = rtp_sequence s" "rtp_timestamp d = rtp_timestamp s" "srd_offset d = srd_offset s"
    "rtp_interlace_field_indicator d = rtp_interlace_field_indicator s"
    "word_of_nat (unat (line_number d) mod mock_rows ms) = line_number s"
    using assms(2) ok(3) by (simp_all add: tracks_def)
  have "unat (lines_in_frame_field ms) < 2 ^ 15" using wf by (simp add: wf_media_def)
  then have line: "ucast (drop_bit 8 (line_number s)) AND (0x7f :: u8) = ucast (drop_bit 8 (line_number s))"
    using assms(4) by (intro low_high_byte) simp
  note offset = low_high_byte[OF assms(3)]
  have ssrc: "bytes_le32 mock_ssrc = bytes_be32 (htonl mock_ssrc)" by (metis bytes_htonl htonl_htonl)
  define Q T S E L R F where "Q = bytes_be16 (ucast (rtp_sequence s))" and "T = bytes_be32 (rtp_timestamp s)"
    and "S = bytes_be32 (htonl mock_ssrc)" and "E = bytes_be16 (ucast (drop_bit 16 (rtp_sequence s)))"
    and "L = bytes_be16 (payload - 20)" and "R = bytes_be16 (line_number s)" and "F = bytes_be16 (srd_offset s)"
  obtain q0 q1 where Q: "Q = [q0, q1]" by (simp add: Q_def bytes_be16_def)
  obtain t0 t1 t2 t3 where T: "T = [t0, t1, t2, t3]" by (simp add: T_def bytes_be32_def)
  obtain s0 s1 s2 s3 where S: "S = [s0, s1, s2, s3]" by (simp add: S_def bytes_be32_def)
  obtain e0 e1 where E: "E = [e0, e1]" by (simp add: E_def bytes_be16_def)
  obtain l0 l1 where L: "L = [l0, l1]" by (simp add: L_def bytes_be16_def)
  have R: "R = [ucast (drop_bit 8 (line_number s)), ucast (line_number s)]" by (simp add: R_def bytes_be16_def)
  have F: "F = [ucast (drop_bit 8 (srd_offset s)), ucast (srd_offset s)]" by (simp add: F_def bytes_be16_def)
  have h: "packet_header ms (htonl mock_ssrc) s = [0x80, 96 OR (if last_one then 0x80 else 0)] @ Q @ T @ S @ E @ L
    @ [hd R OR push_bit 7 (rtp_interlace_field_indicator s), ucast (line_number s)] @ F"
    unfolding packet_header_def ok(1,2) assms(5) line offset
    by (simp add: Q_def T_def S_def E_def L_def R F field_bit)
  have stores: "m9 = mem_write m b ([0x80, 96] @ Q @ T @ S @ E @ L
    @ [hd R OR push_bit 7 (rtp_interlace_field_indicator s), ucast (line_number s)] @ F)"
    unfolding assms(6-14) tr sequence_bytes bytes_htonl bytes_htons ssrc
    unfolding Q_def[symmetric] T_def[symmetric] S_def[symmetric] E_def[symmetric] L_def[symmetric] R_def[symmetric] F_def[symmetric]
    unfolding Q T S E L R F by (simp add: mock_memory del: add_2_eq_Suc')
  show ?thesis unfolding h stores Q T S E L R F by (simp add: mock_memory take_one del: One_nat_def)
qed

text \<open>One packet: the header of the buffer writer is written, and the state follows.\<close>

lemma update_fields:
  assumes "update_in_frame_state ms s = Some s'"
  shows "srd_offset s' = word_of_nat ((unat (srd_offset s) + unat (pixels_per_packet ms)) mod unat (width (resolution ms)))"
    and "rtp_sequence s' = rtp_sequence s + 1"
    and "packet_counter s + 1 = packets_in_frame_field ms \<Longrightarrow> \<exists>t. to_unsigned 32 (ticks_per_frame ms) = Some t
      \<and> rtp_timestamp s' = rtp_timestamp s + word_of_nat t
      \<and> rtp_interlace_field_indicator s' = (if video_scan_type ms = Interlaced
           then if rtp_interlace_field_indicator s = 0 then 1 else 0 else rtp_interlace_field_indicator s)"
    and "packet_counter s + 1 \<noteq> packets_in_frame_field ms \<Longrightarrow> rtp_timestamp s' = rtp_timestamp s
      \<and> rtp_interlace_field_indicator s' = rtp_interlace_field_indicator s"
    and "line_number s' = (if ucast (packet_counter s + 1) mod packets_in_line ms = 0
           then word_of_nat ((unat (line_number s) + 1) mod unat (lines_in_frame_field ms)) else line_number s)"
  using assms by (auto simp: update_in_frame_state_def Let_def split: if_splits option.splits)

lemma mock_line_size:
  assumes "mock_ok ms payload" "mock_group_size payload = Some g"
  shows "(word_of_nat g * packets_in_line ms :: u64) \<noteq> 0"
    and "(ucast (word_of_nat (unat off + g) mod (word_of_nat g * packets_in_line ms :: u64)) :: u16)
      = word_of_nat ((unat (off :: u16) + unat (pixels_per_packet ms)) mod unat (width (resolution ms)))"
proof -
  have g: "g = unat (pixels_per_packet ms)" and wf: "wf_media ms" using assms by (simp_all add: mock_ok_def)
  have pos: "0 < unat (packets_in_line ms)" "0 < g" using wf g by (simp_all add: wf_media_def)
  have w: "unat (packets_in_line ms) * g = unat (width (resolution ms))" using wf g by (simp add: wf_media_def)
  have g16: "g < 65536" using g unat_u16_bound[of "pixels_per_packet ms"] by simp
  have w16: "unat (width (resolution ms)) < 65536" by (rule unat_u16_bound)
  have ug: "unat (word_of_nat g :: u64) = g" using g16 by (intro unat_word_of_nat) simp
  have size: "unat (word_of_nat g * packets_in_line ms :: u64) = unat (width (resolution ms))"
    using w(1) w16 ug by (subst unat_mult_no_wrap) (simp_all add: mult.commute)
  then show "(word_of_nat g * packets_in_line ms :: u64) \<noteq> 0" using w pos by (metis mult_is_0 neq0_conv unat_0)
  have "unat (word_of_nat (unat off + g) :: u64) = unat off + g"
    using g16 unat_u16_bound[of off] by (intro unat_word_of_nat) simp
  then have total: "unat (word_of_nat (unat off + g) mod (word_of_nat g * packets_in_line ms) :: u64) = (unat off + g) mod unat (width (resolution ms))"
    by (simp only: unat_mod_word size)
  show "(ucast (word_of_nat (unat off + g) mod (word_of_nat g * packets_in_line ms :: u64)) :: u16)
      = word_of_nat ((unat off + unat (pixels_per_packet ms)) mod unat (width (resolution ms)))"
    unfolding ucast_eq_word_of_nat[where 'a = 64] total by (simp only: g)
qed

lemma mock_packet:
  assumes "mock_ok ms payload" "tracks ms s d" "packet_counter d = packet_counter s"
    and "unat (srd_offset s) < 2 ^ 15" "unat (line_number s) < unat (lines_in_frame_field ms)"
    and "update_in_frame_state ms s = Some s'"
  shows "\<exists>d'. build_2110_20_rtp_header ms payload b (d, m) = Some (d', mem_write m b (packet_header ms (htonl mock_ssrc) s))
    \<and> packet_counter d' = packet_counter d + 1 \<and> rtp_sequence d' = rtp_sequence s' \<and> rtp_timestamp d' = rtp_timestamp s'
    \<and> rtp_interlace_field_indicator d' = rtp_interlace_field_indicator s' \<and> srd_offset d' = srd_offset s' \<and> line_number d' = line_number d"
proof -
  have tr: "rtp_sequence d = rtp_sequence s" "rtp_timestamp d = rtp_timestamp s" "srd_offset d = srd_offset s"
    "rtp_interlace_field_indicator d = rtp_interlace_field_indicator s"
    using assms(2) by (simp_all add: tracks_def)
  obtain g where g: "mock_group_size payload = Some g" using assms(1) by (simp add: mock_ok_def)
  note ls = mock_line_size[OF assms(1) g]
  have rows: "mock_rows ms \<noteq> 0" and ticks: "mock_ticks ms = to_unsigned 32 (ticks_per_frame ms)"
    using assms(1,5) by (auto simp: mock_ok_def)
  note u = update_fields[OF assms(6)]
  have end_eq: "(packet_counter s = packets_in_frame_field ms - 1) = (packet_counter s + 1 = packets_in_frame_field ms)"
    by (auto simp: eq_diff_eq)
  note stores = mock_header_stores[OF assms(1,2,4,5) end_eq[symmetric] refl refl refl refl refl refl refl refl refl, of m b]
  show ?thesis
  proof (cases "packet_counter s + 1 = packets_in_frame_field ms")
    case True
    then obtain tk where tk: "to_unsigned 32 (ticks_per_frame ms) = Some tk" "rtp_timestamp s' = rtp_timestamp s + word_of_nat tk"
      "rtp_interlace_field_indicator s' = (if video_scan_type ms = Interlaced
           then if rtp_interlace_field_indicator s = 0 then 1 else 0 else rtp_interlace_field_indicator s)"
      using u(3) by auto
    show ?thesis
      using True stores ls rows ticks tk tr u(1,2) assms(3)
      by (simp add: build_2110_20_rtp_header_def Let_def g)
  next
    case False
    then show ?thesis
      using stores ls rows tr u(1,2,4) assms(3)
      by (simp add: build_2110_20_rtp_header_def Let_def g)
  qed
qed

section \<open>A chunk of whole lines\<close>

text \<open>The headers of the packets \<open>k\<close>, \<open>k + 1\<close>, \<dots> of a stream, at strides of a buffer.\<close>

fun write_headers :: "MediaSettings \<Rightarrow> u32 \<Rightarrow> RTPStreamSendStats \<Rightarrow> nat \<Rightarrow> nat \<Rightarrow> nat \<Rightarrow> nat \<Rightarrow> nat \<Rightarrow> mem \<Rightarrow> mem" where
  "write_headers ms ssrc_id d0 base sz stride k 0 m = m"
| "write_headers ms ssrc_id d0 base sz stride k (Suc n) m =
    write_headers ms ssrc_id d0 base sz (stride + 1) (k + 1) n
      (mem_write m (base + stride * sz) (packet_header ms ssrc_id (stream_state ms d0 k)))"

lemma stream_state_bounds:
  assumes "wf_media ms" "unat (width (resolution ms)) < 2 ^ 15"
  shows "unat (srd_offset (stream_state ms d0 k)) < 2 ^ 15"
    and "unat (packet_counter (stream_state ms d0 k)) = k mod unat (packets_in_frame_field ms)"
proof -
  let ?pil = "unat (packets_in_line ms)" and ?ppp = "unat (pixels_per_packet ms)"
  have w: "?pil * ?ppp = unat (width (resolution ms))" "0 < ?pil" using assms(1) by (simp_all add: wf_media_def)
  have "k mod ?pil * ?ppp \<le> ?pil * ?ppp" using w(2) by (intro mult_right_mono) (auto intro: less_imp_le)
  then have "k mod ?pil * ?ppp < 2 ^ 15" using w(1) assms(2) by simp
  then show "unat (srd_offset (stream_state ms d0 k)) < 2 ^ 15" by (simp add: stream_state_def Let_def unat_of_nat del: of_nat_mult)
  have pif: "0 < unat (packets_in_frame_field ms)"
    using assms(1) by (metis nat_0_less_mult_iff wf_media_def)
  then have "k mod unat (packets_in_frame_field ms) < 2 ^ 32"
    using mod_less_divisor[OF pif, of k] unat_u32_bound[of "packets_in_frame_field ms"] by simp
  then show "unat (packet_counter (stream_state ms d0 k)) = k mod unat (packets_in_frame_field ms)"
    by (simp add: stream_state_def Let_def unat_of_nat)
qed

lemma mod_chain: "rows dvd h \<Longrightarrow> ((l :: nat) + 1) mod h mod rows = (l mod rows + 1) mod rows"
  by (simp add: mod_mod_cancel mod_Suc_eq)

lemma mock_rows_dvd:
  assumes "mock_ok ms payload"
  shows "unat (lines_in_frame_field ms) dvd unat (height (resolution ms))" "height (resolution ms) \<noteq> 0"
proof -
  have r: "mock_rows ms = unat (lines_in_frame_field ms)" "0 < unat (lines_in_frame_field ms)"
    "video_scan_type ms = Interlaced \<Longrightarrow> even (unat (height (resolution ms)))"
    using assms by (auto simp: mock_ok_def wf_media_def)
  then show "unat (lines_in_frame_field ms) dvd unat (height (resolution ms))"
    by (auto simp: mock_rows_def split: if_splits elim!: evenE)
  show "height (resolution ms) \<noteq> 0" using r by (auto simp: mock_rows_def split: if_splits)
qed

lemma line_of_stride:
  assumes "p dvd k" "p dvd (q :: nat)"
  shows "Suc (k mod q + i) mod p = (i + 1) mod p"
proof -
  have "k mod q mod p = 0" using assms by (simp add: mod_mod_cancel)
  then have "p dvd k mod q" by auto
  then show ?thesis by (auto elim!: dvdE)
qed

text \<open>One round of the loop.\<close>

lemma mock_round:
  assumes ok: "mock_ok ms payload" and tr: "tracks ms (stream_state ms d0 (k + i)) d" and k: "unat (packets_in_line ms) dvd k"
    and c: "unat (packet_counter d) = k mod unat (packets_in_frame_field ms) + i"
    and lt: "k mod unat (packets_in_frame_field ms) + i < unat (packets_in_frame_field ms)"
  shows "\<exists>d'. prepare_loop ms payload base sz i (Suc n) (d, m)
      = prepare_loop ms payload base sz (i + 1) n (d', mem_write m (base + i * sz) (packet_header ms (htonl mock_ssrc) (stream_state ms d0 (k + i))))
    \<and> tracks ms (stream_state ms d0 (k + Suc i)) d' \<and> unat (packet_counter d') = k mod unat (packets_in_frame_field ms) + Suc i"
proof -
  let ?s = "stream_state ms d0 (k + i)" and ?s' = "stream_state ms d0 (k + Suc i)"
  let ?pif = "unat (packets_in_frame_field ms)" and ?pil = "unat (packets_in_line ms)"
  have wf: "wf_media ms" and w: "unat (width (resolution ms)) < 2 ^ 15" using ok by (simp_all add: mock_ok_def)
  have u: "update_in_frame_state ms ?s = Some ?s'" using update_stream_state[OF wf] by simp
  have pil: "0 < ?pil" "?pil dvd ?pif" using wf by (auto simp: wf_media_def) (metis dvd_triv_left)
  have cs: "unat (packet_counter ?s) = k mod ?pif + i"
    using stream_state_bounds(2)[OF wf w, of d0 "k + i"] lt by (metis mod_add_left_eq mod_less)
  then have c_eq: "packet_counter d = packet_counter ?s" using c by (simp add: word_eq_unat)
  obtain d1 where d1: "build_2110_20_rtp_header ms payload (base + i * sz) (d, m)
      = Some (d1, mem_write m (base + i * sz) (packet_header ms (htonl mock_ssrc) ?s))"
    "packet_counter d1 = packet_counter d + 1" "rtp_sequence d1 = rtp_sequence ?s'" "rtp_timestamp d1 = rtp_timestamp ?s'"
    "rtp_interlace_field_indicator d1 = rtp_interlace_field_indicator ?s'" "srd_offset d1 = srd_offset ?s'" "line_number d1 = line_number d"
    using mock_packet[OF ok tr c_eq stream_state_bounds(1)[OF wf w] stream_state_line[OF wf] u] by blast
  have below: "k mod ?pif + i + 1 < 2 ^ 32" using lt unat_u32_bound[of "packets_in_frame_field ms"] by simp
  have cnt: "unat (packet_counter d + 1) = Suc (k mod ?pif + i)" using c below by (subst unat_Suc_no_wrap) simp_all
  have line_done: "ucast (packet_counter ?s + 1) mod packets_in_line ms = (0 :: u64) \<longleftrightarrow> (i + 1) mod ?pil = 0"
  proof -
    have "unat (ucast (packet_counter ?s + 1) mod packets_in_line ms :: u64) = Suc (k mod ?pif + i) mod ?pil"
      using cnt c_eq by (simp add: unat_mod_word unat_ucast_up)
    also have "\<dots> = (i + 1) mod ?pil"
      using k pil(2) line_of_stride by simp
    finally show ?thesis by (simp add: word_eq_unat[of _ 0])
  qed
  note line = update_fields(5)[OF u, unfolded line_done]
  note rows = mock_rows_dvd[OF ok]
  let ?l' = "word_of_nat ((unat (line_number d) + 1) mod unat (height (resolution ms))) :: u16"
  let ?d' = "if (i + 1) mod ?pil = 0 then d1\<lparr>line_number := ?l'\<rparr> else d1"
  have l': "unat ?l' = (unat (line_number d) + 1) mod unat (height (resolution ms))"
    using rows(2) unat_u16_bound[of "height (resolution ms)"] by (intro unat_word_of_nat) (simp add: word_neq_0_conv unat_gt_0 less_trans[OF mod_less_divisor])
  have "(unat (line_number ?s) + 1) mod unat (lines_in_frame_field ms) < 2 ^ 16"
    using wf by (intro less_trans[OF mod_less_divisor]) (auto simp: wf_media_def)
  note lines = this
  have "tracks ms ?s' ?d'"
    using d1(3-7) tr line l' mod_chain[OF rows(1), of "unat (line_number d)"]
      lines
    by (simp add: tracks_def unat_of_nat)
  moreover have "prepare_loop ms payload base sz i (Suc n) (d, m)
      = prepare_loop ms payload base sz (i + 1) n (?d', mem_write m (base + i * sz) (packet_header ms (htonl mock_ssrc) ?s))"
    using lt c d1(1) pil(1) rows(2) by (simp add: word_less_nat_alt d1(7) unat_gt_0)
  moreover have "unat (packet_counter ?d') = k mod ?pif + Suc i" using cnt d1(2) by simp
  ultimately show ?thesis by blast
qed

lemma mock_loop:
  assumes ok: "mock_ok ms payload" and k: "unat (packets_in_line ms) dvd k"
    and "tracks ms (stream_state ms d0 (k + i)) d" "unat (packet_counter d) = k mod unat (packets_in_frame_field ms) + i"
    and "k mod unat (packets_in_frame_field ms) + i + n \<le> unat (packets_in_frame_field ms)"
  shows "\<exists>d'. prepare_loop ms payload base sz i n (d, m) = Some (d', write_headers ms (htonl mock_ssrc) d0 base sz i (k + i) n m)
    \<and> tracks ms (stream_state ms d0 (k + i + n)) d' \<and> unat (packet_counter d') = k mod unat (packets_in_frame_field ms) + i + n"
  using assms(3-5)
proof (induction n arbitrary: i d m)
  case (Suc n)
  obtain d1 where d1: "prepare_loop ms payload base sz i (Suc n) (d, m)
      = prepare_loop ms payload base sz (i + 1) n (d1, mem_write m (base + i * sz) (packet_header ms (htonl mock_ssrc) (stream_state ms d0 (k + i))))"
    "tracks ms (stream_state ms d0 (k + (i + 1))) d1" "unat (packet_counter d1) = k mod unat (packets_in_frame_field ms) + (i + 1)"
    using mock_round[OF ok Suc.prems(1) k Suc.prems(2), of base sz n m] Suc.prems(3) by auto
  then show ?case using Suc.IH[OF d1(2,3)] Suc.prems(3) by simp
qed simp

lemma mock_writer_loop:
  assumes "writer_class w = RTPVideoMockBufferWriter" "wf_media (m_media_settings w)"
    and "m_send_data w = stream_state (m_media_settings w) d0 k"
  shows "write_loop (\<lambda>s. base + s * sz) pay i n (w, m)
    = Some (w\<lparr>m_send_data := stream_state (m_media_settings w) d0 (k + n)\<rparr>,
            write_headers (m_media_settings w) (m_ssrc w) d0 base sz i k n m)"
  using assms
proof (induction n arbitrary: w i k m)
  case 0
  then have "w\<lparr>m_send_data := stream_state (m_media_settings w) d0 k\<rparr> = w" by (metis Writer.surjective Writer.update_convs(7))
  then show ?case by simp
next
  case (Suc n)
  let ?ms = "m_media_settings w"
  have nz: "lines_in_frame_field ?ms \<noteq> 0" using Suc.prems(2) by (auto simp: wf_media_def)
  note bh = build_rtp_header_bytes[OF nz, of "base + i * sz" m, unfolded Suc.prems(3), OF stream_state_line[OF Suc.prems(2)], folded Suc.prems(3)]
  let ?w1 = "w\<lparr>m_send_data := stream_state ?ms d0 (Suc k)\<rparr>"
  have step: "write_packet (base + i * sz) (pay i) (w, m) = Some (?w1, mem_write m (base + i * sz) (packet_header ?ms (m_ssrc w) (m_send_data w)))"
    using update_stream_state[OF Suc.prems(2), of d0 k] Suc.prems(1,3)
    by (simp add: write_packet_def bh fill_packet_def)
  have "packet_counter (m_send_data w) < packets_in_frame_field ?ms"
    using stream_state_counter[OF Suc.prems(2)] Suc.prems(3) by simp
  then show ?case
    using step Suc.IH[of ?w1 "Suc k" "i + 1"] Suc.prems by simp
qed

text \<open>The two senders write the SSRC in different byte orders: the headers with one SSRC are those with the other
  in which the bytes 8 to 11 are written again.\<close>

definition set_ssrc :: "u32 \<Rightarrow> nat \<Rightarrow> nat \<Rightarrow> nat \<Rightarrow> mem \<Rightarrow> mem" where
  "set_ssrc ssrc_id base sz stride m = mem_write m (base + stride * sz + 8) (bytes_be32 ssrc_id)"

lemma mem_write_apart:
  "a + length xs \<le> b \<Longrightarrow> mem_write (mem_write m a xs) b ys = mem_write (mem_write m b ys) a xs"
  by (rule ext) (auto simp: mem_write_def)

lemma packet_header_ssrc:
  "mem_write m b (packet_header ms x s) = mem_write (mem_write m b (packet_header ms y s)) (b + 8) (bytes_be32 x)"
proof -
  have "8 \<le> length (packet_header ms y s)" by simp
  from mem_write_over[OF this, of m b "bytes_be32 x"] show ?thesis
    by (simp add: packet_header_def bytes_be32_def bytes_be16_def)
qed

lemma write_headers_apart:
  "b + length xs \<le> base + stride * sz \<Longrightarrow>
    write_headers ms x d0 base sz stride k n (mem_write m b xs) = mem_write (write_headers ms x d0 base sz stride k n m) b xs"
proof (induction n arbitrary: stride k m)
  case (Suc n)
  have "b + length xs \<le> base + (stride + 1) * sz" using Suc.prems by simp
  then show ?case using Suc.IH[of "stride + 1"] mem_write_apart[OF Suc.prems] by simp
qed simp

lemma write_headers_ssrc:
  assumes "20 \<le> sz"
  shows "write_headers ms x d0 base sz stride k n m
    = fold (set_ssrc x base sz) [stride..<stride + n] (write_headers ms y d0 base sz stride k n m)"
proof (induction n arbitrary: stride k m)
  case (Suc n)
  let ?b = "base + stride * sz" and ?s = "stream_state ms d0 k"
  have "?b + 8 + length (bytes_be32 x) \<le> base + (stride + 1) * sz" using assms by simp
  note apart = write_headers_apart[OF this]
  have "write_headers ms x d0 base sz stride k (Suc n) m
      = fold (set_ssrc x base sz) [stride + 1..<stride + 1 + n]
          (write_headers ms y d0 base sz (stride + 1) (k + 1) n (mem_write m ?b (packet_header ms x ?s)))"
    by (simp only: write_headers.simps Suc.IH)
  also have "\<dots> = fold (set_ssrc x base sz) [stride + 1..<stride + 1 + n]
      (set_ssrc x base sz stride (write_headers ms y d0 base sz stride k (Suc n) m))"
    by (simp only: packet_header_ssrc[of m ?b ms x ?s y] apart write_headers.simps set_ssrc_def)
  also have "\<dots> = fold (set_ssrc x base sz) [stride..<stride + Suc n] (write_headers ms y d0 base sz stride k (Suc n) m)"
    by (subst upt_conv_Cons) simp_all
  finally show ?case .
qed simp

lemma write_headers_read:
  assumes "20 \<le> sz" "stride \<le> i" "i < stride + n"
  shows "mem_read (write_headers ms x d0 base sz stride k n m) (base + i * sz + 8) 4 = bytes_be32 x"
  using assms(2,3)
proof (induction n arbitrary: stride k m)
  case (Suc n)
  let ?b = "base + stride * sz" and ?s = "stream_state ms d0 k"
  show ?case
  proof (cases "i = stride")
    case True
    have h: "?b + length (packet_header ms x ?s) \<le> base + (stride + 1) * sz" using assms(1) by simp
    have "write_headers ms x d0 base sz stride k (Suc n) m
        = mem_write (write_headers ms x d0 base sz (stride + 1) (k + 1) n m) ?b (packet_header ms x ?s)"
      by (simp only: write_headers.simps write_headers_apart[OF h])
    also have "\<dots> = mem_write (mem_write (write_headers ms x d0 base sz (stride + 1) (k + 1) n m) ?b (packet_header ms x ?s))
        (?b + 8) (bytes_be32 x)" by (rule packet_header_ssrc)
    finally have "write_headers ms x d0 base sz stride k (Suc n) m = mem_write (mem_write
        (write_headers ms x d0 base sz (stride + 1) (k + 1) n m) ?b (packet_header ms x ?s)) (?b + 8) (bytes_be32 x)" .
    then show ?thesis using True by (simp add: mem_simps)
  next
    case False
    then show ?thesis using Suc by simp
  qed
qed simp


definition example_mock_media :: MediaSettings where
  "example_mock_media = MediaSettings_default\<lparr>resolution := \<lparr>width = 4, height = 2\<rparr>, frame_rate := \<lparr>num = 60, denom = 1\<rparr>,
     packets_in_frame_field := 4, packets_in_line := 2, pixels_per_packet := 2, lines_in_frame_field := 2,
     ticks_per_frame := 1500, protocol_header_size := 20, raw_packet_payload_size := 5\<rparr>"

lemma dbl_numeral: "(numeral k :: int) < 2 ^ 53 \<Longrightarrow> dbl (numeral k) = numeral k"
  using round_prec_int[of "numeral k" 53] by simp

lemma example_mock_ok: "mock_ok example_mock_media 25"
  by (simp add: mock_ok_def wf_media_def example_mock_media_def MediaSettings_default_def mock_group_size_def mock_rows_def
      mock_ticks_def to_unsigned_def dbl_numeral Let_def)


text \<open>A chunk that ends within a line loses the row: the line counter counts the strides of the chunk, not the
  packets of the line.\<close>

lemma short_chunk_keeps_line:
  assumes "1 < unat (packets_in_line ms)" "prepare_loop ms payload base sz 0 (Suc 0) (d, m) = Some (d', m')"
  shows "line_number d' = line_number d"
proof (cases "packet_counter d < packets_in_frame_field ms")
  case True
  then obtain r where r: "build_2110_20_rtp_header ms payload base (d, m) = Some r"
    using assms(2) by (cases "build_2110_20_rtp_header ms payload base (d, m)") auto
  have "line_number (fst r) = line_number d"
    using r by (auto simp: build_2110_20_rtp_header_def bind_eq_Some_conv Let_def split: if_splits)
  moreover have "d' = fst r"
    using r True assms by (cases r) (auto split: if_splits)
  ultimately show ?thesis by simp
qed (use assms(2) in simp)

end
