(* ===== verification/Ipmx_Report.thy ===== *)
theory Ipmx_Report
  imports Rtp_Writer
begin

text \<open>
  The IPMX sender reports: the RTCP packets of \<^verbatim>\<open>services/media/ipmx.h\<close>, the sender's template and its
  update (\<^verbatim>\<open>io_node/senders/ipmx_sender_io_node.cpp\<close>), and the receiver's parser
  (\<^verbatim>\<open>services/media/ipmx.cpp\<close>).  The packets are plain structures copied from and to memory: fields of
  several bytes hold the value in network order, and the natural alignment of the structures leaves no gaps
  but the three bytes behind the last member.  The lemmas show what the receiver recovers of what the sender
  put into a report.
\<close>

section \<open>Texts in C arrays\<close>

type_synonym c_bytes = "u8 list"

definition text_bytes :: "string \<Rightarrow> c_bytes" where
  "text_bytes s = map of_char s"

text \<open>The string that starts at a byte, and \<open>strncpy\<close>: the string cut at \<open>n\<close> bytes, or filled up with zeros.\<close>

definition c_string :: "c_bytes \<Rightarrow> c_bytes" where
  "c_string bs = takeWhile (\<lambda>b. b \<noteq> 0) bs"

definition c_strncpy :: "c_bytes \<Rightarrow> nat \<Rightarrow> c_bytes" where
  "c_strncpy src n = take n (c_string src @ replicate n 0)"

definition write_at :: "c_bytes \<Rightarrow> nat \<Rightarrow> c_bytes \<Rightarrow> c_bytes" where
  "write_at bs i new = take i bs @ new @ drop (i + length new) bs"

section \<open>The packets\<close>

definition RTP_VERSION :: u8 where "RTP_VERSION = 2"
definition RTCP_SOURCE_CNT :: u8 where "RTCP_SOURCE_CNT = 1"
definition IPMX_TAG :: u16 where "IPMX_TAG = 0x5831"
definition IPMX_MIB_TYPE_UNCOMPRESSED_VIDEO :: u16 where "IPMX_MIB_TYPE_UNCOMPRESSED_VIDEO = 1"

datatype RTCPPacketType = SenderReport | SourceDescr

fun RTCPPacketType_value :: "RTCPPacketType \<Rightarrow> u16" where
  "RTCPPacketType_value SenderReport = 200"
| "RTCPPacketType_value SourceDescr = 202"

datatype RTCPSdesType = Sdes_Cname | Sdes_End

fun RTCPSdesType_value :: "RTCPSdesType \<Rightarrow> u8" where
  "RTCPSdesType_value Sdes_Cname = 1"
| "RTCPSdesType_value Sdes_End = 0"

record IPMXInfoBlock =
  info_ipmx_tag :: u16
  info_length :: u16
  info_block_version :: u8
  info_pad :: c_bytes
  info_ts_refclk :: c_bytes
  info_mediaclk :: c_bytes

record IPMXMediaInfoBlock =
  mib_type :: u16
  mib_length :: u16
  mib_sampling :: c_bytes
  mib_packing :: u16
  mib_par_w :: u8
  mib_par_h :: u8
  mib_range :: c_bytes
  mib_colorimetry :: c_bytes
  mib_tcs :: c_bytes
  mib_width :: u16
  mib_height :: u16
  mib_rate :: u32
  mib_pixel_clk_hi :: u32
  mib_pixel_clk_lo :: u32
  mib_htotal :: u16
  mib_vtotal :: u16

record IPMXSenderReport =
  sr_type_ver :: u16
  sr_length :: u16
  sr_ssrc :: u32
  sr_ntp_ts_hi :: u32
  sr_ntp_ts_lo :: u32
  sr_rtp_ts :: u32
  sr_pkt_cnt :: u32
  sr_byte_cnt :: u32
  sr_info :: IPMXInfoBlock
  sr_media :: IPMXMediaInfoBlock

record RTCPCompoundPacket =
  pkt_sr :: IPMXSenderReport
  sdes_raw :: c_bytes

text \<open>The sizes of the structures.\<close>

definition RTCP_SDES_CNAME_LEN_MAX :: nat where "RTCP_SDES_CNAME_LEN_MAX = 255"
definition RTCP_SDES_PAD_LEN_MAX :: nat where "RTCP_SDES_PAD_LEN_MAX = 3"
definition sizeof_IPMXInfoBlock :: nat where "sizeof_IPMXInfoBlock = 84"
definition sizeof_IPMXMediaInfoBlock :: nat where "sizeof_IPMXMediaInfoBlock = 92"
definition sizeof_IPMXSenderReport :: nat where "sizeof_IPMXSenderReport = 204"
definition sizeof_RTCPSourceDescr :: nat where "sizeof_RTCPSourceDescr = 4"
definition sizeof_RTCPSdesChunk :: nat where "sizeof_RTCPSdesChunk = 4"
definition sizeof_RTCPSdesCname :: nat where "sizeof_RTCPSdesCname = 2"
definition sizeof_RTCPSdesEnd :: nat where "sizeof_RTCPSdesEnd = 1"
definition RTCP_SDES_SIZE_MAX :: nat where
  "RTCP_SDES_SIZE_MAX = sizeof_RTCPSourceDescr + sizeof_RTCPSdesChunk + sizeof_RTCPSdesCname + RTCP_SDES_CNAME_LEN_MAX
     + sizeof_RTCPSdesEnd + RTCP_SDES_PAD_LEN_MAX"
definition sizeof_RTCPCompoundPacket :: nat where "sizeof_RTCPCompoundPacket = 476"

lemmas ipmx_sizes = RTCP_SDES_CNAME_LEN_MAX_def RTCP_SDES_PAD_LEN_MAX_def sizeof_IPMXInfoBlock_def sizeof_IPMXMediaInfoBlock_def
  sizeof_IPMXSenderReport_def sizeof_RTCPSourceDescr_def sizeof_RTCPSdesChunk_def sizeof_RTCPSdesCname_def
  sizeof_RTCPSdesEnd_def RTCP_SDES_SIZE_MAX_def sizeof_RTCPCompoundPacket_def

text \<open>The bytes of the structures in memory, up to the last member.\<close>

definition info_bytes :: "IPMXInfoBlock \<Rightarrow> c_bytes" where
  "info_bytes i = bytes_le16 (info_ipmx_tag i) @ bytes_le16 (info_length i) @ [info_block_version i] @ info_pad i
     @ info_ts_refclk i @ info_mediaclk i"

definition media_bytes :: "IPMXMediaInfoBlock \<Rightarrow> c_bytes" where
  "media_bytes b = bytes_le16 (mib_type b) @ bytes_le16 (mib_length b) @ mib_sampling b @ bytes_le16 (mib_packing b)
     @ [mib_par_w b] @ [mib_par_h b] @ mib_range b @ mib_colorimetry b @ mib_tcs b
     @ bytes_le16 (mib_width b) @ bytes_le16 (mib_height b) @ bytes_le32 (mib_rate b)
     @ bytes_le32 (mib_pixel_clk_hi b) @ bytes_le32 (mib_pixel_clk_lo b) @ bytes_le16 (mib_htotal b) @ bytes_le16 (mib_vtotal b)"

definition report_bytes :: "IPMXSenderReport \<Rightarrow> c_bytes" where
  "report_bytes r = bytes_le16 (sr_type_ver r) @ bytes_le16 (sr_length r) @ bytes_le32 (sr_ssrc r) @ bytes_le32 (sr_ntp_ts_hi r)
     @ bytes_le32 (sr_ntp_ts_lo r) @ bytes_le32 (sr_rtp_ts r) @ bytes_le32 (sr_pkt_cnt r) @ bytes_le32 (sr_byte_cnt r)
     @ info_bytes (sr_info r) @ media_bytes (sr_media r)"

definition compound_bytes :: "RTCPCompoundPacket \<Rightarrow> c_bytes" where
  "compound_bytes p = report_bytes (pkt_sr p) @ sdes_raw p"

text \<open>The arrays of a packet have their declared sizes.\<close>

definition wf_compound :: "RTCPCompoundPacket \<Rightarrow> bool" where
  "wf_compound p \<longleftrightarrow> length (info_pad (sr_info (pkt_sr p))) = 3 \<and> length (info_ts_refclk (sr_info (pkt_sr p))) = 64
     \<and> length (info_mediaclk (sr_info (pkt_sr p))) = 12 \<and> length (mib_sampling (sr_media (pkt_sr p))) = 16
     \<and> length (mib_range (sr_media (pkt_sr p))) = 12 \<and> length (mib_colorimetry (sr_media (pkt_sr p))) = 20
     \<and> length (mib_tcs (sr_media (pkt_sr p))) = 16 \<and> length (sdes_raw p) = RTCP_SDES_SIZE_MAX"

section \<open>The sender's template\<close>

definition pack_media_bits_interlace :: "u8 \<Rightarrow> bool \<Rightarrow> u16" where
  "pack_media_bits_interlace bits is_interlaced = push_bit 8 (ucast bits AND 0x7f) OR push_bit 5 (if is_interlaced then 1 else 0)"

text \<open>\<open>memset (&m_report, 0, sizeof (m_report))\<close>\<close>

definition zero_info :: IPMXInfoBlock where
  "zero_info = \<lparr>info_ipmx_tag = 0, info_length = 0, info_block_version = 0, info_pad = replicate 3 0,
     info_ts_refclk = replicate 64 0, info_mediaclk = replicate 12 0\<rparr>"

definition zero_media :: IPMXMediaInfoBlock where
  "zero_media = \<lparr>mib_type = 0, mib_length = 0, mib_sampling = replicate 16 0, mib_packing = 0, mib_par_w = 0, mib_par_h = 0,
     mib_range = replicate 12 0, mib_colorimetry = replicate 20 0, mib_tcs = replicate 16 0, mib_width = 0, mib_height = 0,
     mib_rate = 0, mib_pixel_clk_hi = 0, mib_pixel_clk_lo = 0, mib_htotal = 0, mib_vtotal = 0\<rparr>"

definition zero_report :: RTCPCompoundPacket where
  "zero_report = \<lparr>pkt_sr = \<lparr>sr_type_ver = 0, sr_length = 0, sr_ssrc = 0, sr_ntp_ts_hi = 0, sr_ntp_ts_lo = 0, sr_rtp_ts = 0,
     sr_pkt_cnt = 0, sr_byte_cnt = 0, sr_info = zero_info, sr_media = zero_media\<rparr>, sdes_raw = replicate RTCP_SDES_SIZE_MAX 0\<rparr>"

definition write_text :: "c_bytes \<Rightarrow> string \<Rightarrow> c_bytes" where
  "write_text array s = write_at array 0 (c_strncpy (text_bytes s) (length array - 1))"

text \<open>\<open>std::stoi\<close> reads the digits in front; the names of the bit depths have no sign and no blanks.\<close>

definition stoi_prefix :: "string \<Rightarrow> parse_error + nat" where
  "stoi_prefix s = stoi (takeWhile (\<lambda>c. c \<in> set ''0123456789'') s)"

definition prepare_info_block :: "MediaSettings \<Rightarrow> IPMXInfoBlock \<Rightarrow> IPMXInfoBlock" where
  "prepare_info_block ms i = i\<lparr>info_ipmx_tag := htons IPMX_TAG,
     info_length := htons (word_of_nat (sizeof_IPMXInfoBlock div 4 - 1)),
     info_ts_refclk := write_text (info_ts_refclk i) (refclk ms),
     info_mediaclk := write_text (info_mediaclk i) ''direct=0''\<rparr>"

text \<open>The pixel clock: the product of the sides is a signed 32-bit product, the division by the denominator
  must not be one by zero.\<close>

definition report_pixel_clock :: "MediaSettings \<Rightarrow> nat option" where
  "report_pixel_clock ms =
    (let pixels = unat (width (resolution ms)) * unat (height (resolution ms))
     in if 2 ^ 31 \<le> pixels \<or> denom (frame_rate ms) = 0 then None
        else Some (unat ((word_of_nat pixels * ucast (num (frame_rate ms)) :: u64) div ucast (denom (frame_rate ms)))))"

definition prepare_media_block :: "MediaSettings \<Rightarrow> nat \<Rightarrow> nat \<Rightarrow> IPMXMediaInfoBlock \<Rightarrow> IPMXMediaInfoBlock" where
  "prepare_media_block ms bits pixel_clock b =
    (let b = b\<lparr>mib_type := htons IPMX_MIB_TYPE_UNCOMPRESSED_VIDEO,
               mib_length := htons (word_of_nat (sizeof_IPMXMediaInfoBlock div 4 - 1)),
               mib_sampling := write_text (mib_sampling b) (VideoSampling_to_string (sampling_type ms)),
               mib_packing := htons (pack_media_bits_interlace (word_of_nat bits) (video_scan_type ms = Interlaced)),
               mib_range := write_text (mib_range b) ''NARROW'',
               mib_colorimetry := write_text (mib_colorimetry b) ''BT709'',
               mib_tcs := write_text (mib_tcs b) ''SDR'',
               mib_par_h := 1, mib_par_w := 1,
               mib_width := htons (width (resolution ms)), mib_height := htons (height (resolution ms)),
               mib_pixel_clk_hi := htonl (word_of_nat (pixel_clock div NS_IN_SEC)),
               mib_pixel_clk_lo := htonl (word_of_nat (pixel_clock mod NS_IN_SEC))\<rparr>
     in b\<lparr>mib_htotal := mib_width b, mib_vtotal := mib_height b,
          mib_rate := htonl (push_bit 10 (ucast (num (frame_rate ms))) OR ucast (denom (frame_rate ms)))\<rparr>)"

definition prepare_sender_report_base ::
  "MediaSettings \<Rightarrow> u32 \<Rightarrow> RTCPCompoundPacket \<Rightarrow> (parse_error + nat \<times> RTCPCompoundPacket) option" where
  "prepare_sender_report_base ms sender_ssrc p =
    (case stoi_prefix (ColorBitDepth_to_string (bit_depth ms)) of
       Inl e \<Rightarrow> Some (Inl e)
     | Inr bits \<Rightarrow>
         map_option (\<lambda>pixel_clock.
           let r = (pkt_sr p)\<lparr>sr_type_ver := htons (push_bit 14 (ucast RTP_VERSION) OR RTCPPacketType_value SenderReport),
                              sr_ssrc := htonl sender_ssrc,
                              sr_length := htons (word_of_nat (sizeof_IPMXSenderReport div 4 - 1)),
                              sr_info := prepare_info_block ms (sr_info (pkt_sr p)),
                              sr_media := prepare_media_block ms bits pixel_clock (sr_media (pkt_sr p))\<rparr>
           in Inr (sizeof_IPMXSenderReport, p\<lparr>pkt_sr := r\<rparr>)) (report_pixel_clock ms))"

definition prepare_sender_report_sdes :: "u32 \<Rightarrow> string \<Rightarrow> RTCPCompoundPacket \<Rightarrow> nat \<times> RTCPCompoundPacket" where
  "prepare_sender_report_sdes sender_ssrc src_ip p =
    (let type_ver = htons (push_bit 14 (ucast RTP_VERSION) OR push_bit 8 (ucast RTCP_SOURCE_CNT) OR RTCPPacketType_value SourceDescr);
         raw = write_at (sdes_raw p) 0 (bytes_le16 type_ver);
         cname = ''ipmx@'' @ src_ip;
         ptr = sizeof_RTCPSourceDescr;
         raw = write_at raw ptr (bytes_le32 (htonl sender_ssrc));
         ptr = ptr + sizeof_RTCPSdesChunk;
         item_length = (word_of_nat (length cname) :: u8);
         raw = write_at raw ptr [RTCPSdesType_value Sdes_Cname, item_length];
         ptr = ptr + sizeof_RTCPSdesCname;
         raw = write_at raw ptr (c_strncpy (text_bytes cname) RTCP_SDES_CNAME_LEN_MAX);
         ptr = ptr + unat item_length;
         raw = write_at raw ptr [RTCPSdesType_value Sdes_End];
         ptr = ptr + sizeof_RTCPSdesEnd;
         sdes_size = align_up_pow2 (word_of_nat ptr) 4;
         raw = write_at raw 2 (bytes_le16 (htons (ucast (ucast (ucast sdes_size :: u16) div (4 :: u64) - 1))))
     in (unat sdes_size, p\<lparr>sdes_raw := raw\<rparr>))"

definition prepare_compound_report_template ::
  "MediaSettings \<Rightarrow> u64 \<Rightarrow> string \<Rightarrow> (parse_error + nat \<times> RTCPCompoundPacket) option" where
  "prepare_compound_report_template ms stream_number src_ip =
    map_option (\<lambda>result. case result of
        Inl e \<Rightarrow> Inl e
      | Inr (base_size, p) \<Rightarrow>
          let (sdes_size, p) = prepare_sender_report_sdes (ucast stream_number) src_ip p
          in Inr (base_size + sdes_size, p))
      (prepare_sender_report_base ms (ucast stream_number) zero_report)"

text \<open>What \<open>commit_sender_report\<close> puts into the template before it sends it.\<close>

definition update_sender_report :: "u64 \<Rightarrow> u32 \<Rightarrow> u32 \<Rightarrow> u32 \<Rightarrow> RTCPCompoundPacket \<Rightarrow> RTCPCompoundPacket" where
  "update_sender_report timestamp_ns rtp_ts sent_pkt_cnt payload_octets_in_packet p =
    p\<lparr>pkt_sr := (pkt_sr p)\<lparr>sr_ntp_ts_hi := htonl (ucast (timestamp_ns div word_of_nat NS_IN_SEC)),
                            sr_ntp_ts_lo := htonl (ucast (timestamp_ns mod word_of_nat NS_IN_SEC)),
                            sr_rtp_ts := htonl rtp_ts, sr_pkt_cnt := htonl sent_pkt_cnt,
                            sr_byte_cnt := htonl (sent_pkt_cnt * payload_octets_in_packet)\<rparr>\<rparr>"

section \<open>The receiver's parser\<close>

record IPMXStreamVideoInfo =
  vi_sampling_format :: c_bytes
  vi_bit_depth :: u8
  vi_is_floating :: bool
  vi_is_gpm :: bool
  vi_is_interlaced :: bool
  vi_is_segmented :: bool
  vi_par_w :: u8
  vi_par_h :: u8
  vi_range :: c_bytes
  vi_colorimetry :: c_bytes
  vi_tcs :: c_bytes
  vi_width :: u16
  vi_height :: u16
  vi_rate_num :: u32
  vi_rate_denom :: u8
  vi_pixel_clock :: u32
  vi_h_total :: u16
  vi_v_total :: u16

record IPMXStreamInfo =
  si_rtp_version :: u8
  si_ssrc :: u32
  si_ntp_ts :: u64
  si_rtp_ts :: u32
  si_pkt_cnt :: u32
  si_byte_cnt :: u32
  si_info_block_version :: u8
  si_ts_refclk :: c_bytes
  si_mediaclk :: c_bytes
  si_media_block_type :: u8
  si_video :: IPMXStreamVideoInfo
  si_cname :: c_bytes

text \<open>The fields of the packet at their offsets.\<close>

definition field8 :: "c_bytes \<Rightarrow> nat \<Rightarrow> u8" where
  "field8 pkt off = pkt ! off"

definition field16 :: "c_bytes \<Rightarrow> nat \<Rightarrow> u16" where
  "field16 pkt off = ucast (pkt ! off) OR push_bit 8 (ucast (pkt ! (off + 1)))"

definition field32 :: "c_bytes \<Rightarrow> nat \<Rightarrow> u32" where
  "field32 pkt off = ucast (pkt ! off) OR push_bit 8 (ucast (pkt ! (off + 1))) OR push_bit 16 (ucast (pkt ! (off + 2)))
     OR push_bit 24 (ucast (pkt ! (off + 3)))"

text \<open>The part for uncompressed video; the fourth \<open>strncpy\<close> is closed in the array of the next one.\<close>

definition fill_video_info :: "c_bytes \<Rightarrow> IPMXStreamVideoInfo \<Rightarrow> IPMXStreamVideoInfo" where
  "fill_video_info pkt v =
    (let packing = htons (field16 pkt 132)
     in v\<lparr>vi_sampling_format := (c_strncpy (drop 116 pkt) 17)[16 := 0],
          vi_is_floating := packing AND push_bit 15 1 \<noteq> 0,
          vi_bit_depth := ucast (drop_bit 8 packing AND 0x7f),
          vi_is_gpm := packing AND push_bit 7 1 \<noteq> 0,
          vi_is_interlaced := packing AND push_bit 6 1 \<noteq> 0,
          vi_is_segmented := packing AND push_bit 5 1 \<noteq> 0,
          vi_par_w := field8 pkt 134, vi_par_h := field8 pkt 135,
          vi_range := (c_strncpy (drop 136 pkt) 13)[12 := 0],
          vi_colorimetry := c_strncpy (drop 148 pkt) 21,
          vi_tcs := (c_strncpy (drop 168 pkt) 17)[16 := 0],
          vi_width := htons (field16 pkt 184), vi_height := htons (field16 pkt 186),
          vi_rate_num := drop_bit 10 (htonl (field32 pkt 188)) AND 0x3fffff,
          vi_rate_denom := ucast (htonl (field32 pkt 188) AND 0x3ff),
          vi_pixel_clock := ucast (push_bit 32 (ucast (htonl (field32 pkt 192)) :: u64) OR ucast (htonl (field32 pkt 196))),
          vi_h_total := htons (field16 pkt 200), vi_v_total := htons (field16 pkt 202)\<rparr>)"

definition fill_cname :: "c_bytes \<Rightarrow> c_bytes \<Rightarrow> c_bytes" where
  "fill_cname pkt cname =
    (let ptr = sizeof_IPMXSenderReport + sizeof_RTCPSourceDescr + sizeof_RTCPSdesChunk;
         cname_len = unat (field8 pkt (ptr + 1));
         ptr = ptr + sizeof_RTCPSdesCname
     in (write_at cname 0 (c_strncpy (drop ptr pkt) cname_len))[cname_len := 0])"

definition fill_from_rtcp_sr_packet :: "mem \<Rightarrow> nat \<Rightarrow> nat \<Rightarrow> IPMXStreamInfo \<Rightarrow> ReturnStatus \<times> IPMXStreamInfo" where
  "fill_from_rtcp_sr_packet m data len s =
    (if len > sizeof_RTCPCompoundPacket then (failure, s)
     else
       let pkt = mem_read m data sizeof_RTCPCompoundPacket;
           s = s\<lparr>si_rtp_version := ucast (drop_bit 14 (htons (field16 pkt 0)) AND 3),
                 si_ssrc := htonl (field32 pkt 4),
                 si_ntp_ts := ucast (htonl (field32 pkt 8)) * word_of_nat NS_IN_SEC + ucast (htonl (field32 pkt 12)),
                 si_rtp_ts := htonl (field32 pkt 16),
                 si_pkt_cnt := htonl (field32 pkt 20),
                 si_byte_cnt := htonl (field32 pkt 24),
                 si_info_block_version := field8 pkt 32,
                 si_ts_refclk := (c_strncpy (drop 36 pkt) 65)[64 := 0],
                 si_mediaclk := (c_strncpy (drop 100 pkt) 13)[12 := 0],
                 si_media_block_type := ucast (htons (field16 pkt 112))\<rparr>
       in if ucast (si_media_block_type s) \<noteq> IPMX_MIB_TYPE_UNCOMPRESSED_VIDEO then (success, s)
          else (success, s\<lparr>si_video := fill_video_info pkt (si_video s), si_cname := fill_cname pkt (si_cname s)\<rparr>))"


section \<open>What the receiver recovers\<close>

lemma field16_bytes [simp]: "field16 (bytes_le16 x @ ys) 0 = x"
  by (rule bit_word_eqI) (auto simp: field16_def bytes_le16_def bit_simps)

lemma field32_bytes [simp]: "field32 (bytes_le32 x @ ys) 0 = x"
proof (rule bit_word_eqI)
  fix n assume "n < LENGTH(32)"
  then consider "n < 8" | "8 \<le> n" "n < 16" | "16 \<le> n" "n < 24" | "24 \<le> n" "n < 32" by fastforce
  then show "bit (field32 (bytes_le32 x @ ys) 0) n = bit x n"
    by cases (auto simp: field32_def bytes_le32_def bit_simps nth_append)
qed

lemma field_skip [simp]:
  "length xs \<le> off \<Longrightarrow> field8 (xs @ ys) off = field8 ys (off - length xs)"
  "length xs \<le> off \<Longrightarrow> field16 (xs @ ys) off = field16 ys (off - length xs)"
  "length xs \<le> off \<Longrightarrow> field32 (xs @ ys) off = field32 ys (off - length xs)"
  by (simp_all add: field8_def field16_def field32_def nth_append_right Suc_diff_le)

lemma field_skip_Cons [simp]:
  "0 < off \<Longrightarrow> field8 (y # ys) off = field8 ys (off - 1)"
  "0 < off \<Longrightarrow> field16 (y # ys) off = field16 ys (off - 1)"
  "0 < off \<Longrightarrow> field32 (y # ys) off = field32 ys (off - 1)"
  using field_skip[of "[y]" off ys] by simp_all

lemma field8_Cons [simp]: "field8 (y # ys) 0 = y"
  by (simp add: field8_def)

lemma c_strncpy_length [simp]: "length (c_strncpy src n) = n"
  by (simp add: c_strncpy_def)

lemma c_string_app: "0 \<in> set xs \<Longrightarrow> c_string (xs @ ys) = c_string xs"
  by (simp add: c_string_def takeWhile_append1)

lemma c_string_zeros [simp]: "c_string (replicate n 0 @ ys) = (if n = 0 then c_string ys else [])"
  by (cases n) (simp_all add: c_string_def)

lemma c_string_nonzero: "0 \<notin> set xs \<Longrightarrow> c_string (xs @ ys) = xs @ c_string ys"
  unfolding c_string_def by (rule takeWhile_append2) auto

lemma c_string_free [simp]: "0 \<notin> set (c_string xs)"
  by (auto simp: c_string_def dest: set_takeWhileD)

lemma c_string_strncpy: "c_string (c_strncpy src n) = take n (c_string src)"
proof -
  have s: "c_strncpy src n = take n (c_string src) @ replicate (n - length (c_string src)) 0"
    by (simp add: c_strncpy_def min_def)
  have "0 \<notin> set (take n (c_string src))" using c_string_free by (metis in_set_takeD)
  moreover have "c_string (replicate k 0 @ []) = []" for k by (simp only: c_string_zeros) (simp add: c_string_def)
  ultimately show ?thesis unfolding s by (simp add: c_string_nonzero)
qed

lemma align_up_four: "unat (n :: u64) + 3 < 2 ^ 64 \<Longrightarrow> unat (align_up_pow2 n 4) = (unat n + 3) div 4 * 4"
  using align_up_power[of 2 n] by simp

lemma write_text_zero: "0 < n \<Longrightarrow> write_text (replicate n 0) s = c_strncpy (text_bytes s) (n - 1) @ [0]"
  by (simp add: write_text_def write_at_def)

lemma length_write_text [simp]: "array \<noteq> [] \<Longrightarrow> length (write_text array s) = length array"
  by (simp add: write_text_def write_at_def)

lemma c_array_text:
  assumes "0 < n"
  shows "c_string (c_strncpy (write_text (replicate n 0) s @ rest) (Suc n)) = take (n - 1) (c_string (text_bytes s))"
    and "c_string ((c_strncpy (write_text (replicate n 0) s @ rest) (Suc n))[n := 0]) = take (n - 1) (c_string (text_bytes s))"
proof -
  define t where "t = take (n - 1) (c_string (text_bytes s))"
  let ?t = t
  have free: "0 \<notin> set t" unfolding t_def using c_string_free by (metis in_set_takeD)
  have w: "write_text (replicate n 0) s = ?t @ replicate (n - length ?t) 0"
  proof -
    have "write_text (replicate n 0) s = ?t @ replicate (n - 1 - length (c_string (text_bytes s))) 0 @ [0]"
      using assms by (simp add: t_def write_text_zero c_strncpy_def min_def)
    moreover have "replicate k 0 @ [0::u8] = replicate (Suc k) 0" for k by (simp add: replicate_append_same)
    ultimately show ?thesis using assms by (auto simp: t_def Suc_diff_le Suc_diff_Suc min_def simp del: replicate_Suc)
  qed
  have lt: "length t < n" using assms by (simp add: t_def)
  have "c_string (write_text (replicate n 0) s @ rest) = ?t"
    unfolding w append_assoc c_string_nonzero[OF free] c_string_zeros using lt by simp
  then have s: "c_strncpy (write_text (replicate n 0) s @ rest) (Suc n) = ?t @ replicate (Suc n - length ?t) 0"
    using lt by (simp add: c_strncpy_def min_def del: replicate_Suc)
  with lt have "(c_strncpy (write_text (replicate n 0) s @ rest) (Suc n))[n := 0] = ?t @ replicate (Suc n - length ?t) 0"
    by (simp add: list_update_append list_update_same_conv)
  moreover have "c_string (?t @ replicate (Suc k) 0) = ?t" for k
    unfolding c_string_nonzero[OF free] by (simp add: c_string_def)
  ultimately have "c_string (c_strncpy (write_text (replicate n 0) s @ rest) (Suc n)) = t
      \<and> c_string ((c_strncpy (write_text (replicate n 0) s @ rest) (Suc n))[n := 0]) = t"
    using s lt by (metis Suc_diff_le less_imp_le)
  then show "c_string (c_strncpy (write_text (replicate n 0) s @ rest) (Suc n)) = take (n - 1) (c_string (text_bytes s))"
    and "c_string ((c_strncpy (write_text (replicate n 0) s @ rest) (Suc n))[n := 0]) = take (n - 1) (c_string (text_bytes s))"
    by (simp_all add: t_def)
qed

lemma c_strncpy_exact: "0 \<notin> set xs \<Longrightarrow> c_strncpy (xs @ ys) (length xs) = xs"
  by (simp add: c_strncpy_def c_string_nonzero)

text \<open>The fields of a report at their offsets in memory.\<close>

lemma report_fields:
  assumes "wf_compound p" "pkt = report_bytes (pkt_sr p) @ tail"
  shows "field16 pkt 0 = sr_type_ver (pkt_sr p)" "field32 pkt 4 = sr_ssrc (pkt_sr p)"
    "field32 pkt 8 = sr_ntp_ts_hi (pkt_sr p)" "field32 pkt 12 = sr_ntp_ts_lo (pkt_sr p)" "field32 pkt 16 = sr_rtp_ts (pkt_sr p)"
    "field32 pkt 20 = sr_pkt_cnt (pkt_sr p)" "field32 pkt 24 = sr_byte_cnt (pkt_sr p)"
    "field8 pkt 32 = info_block_version (sr_info (pkt_sr p))"
    "field16 pkt 112 = mib_type (sr_media (pkt_sr p))" "field16 pkt 132 = mib_packing (sr_media (pkt_sr p))"
    "field8 pkt 134 = mib_par_w (sr_media (pkt_sr p))" "field8 pkt 135 = mib_par_h (sr_media (pkt_sr p))"
    "field16 pkt 184 = mib_width (sr_media (pkt_sr p))" "field16 pkt 186 = mib_height (sr_media (pkt_sr p))"
    "field32 pkt 188 = mib_rate (sr_media (pkt_sr p))" "field32 pkt 192 = mib_pixel_clk_hi (sr_media (pkt_sr p))"
    "field32 pkt 196 = mib_pixel_clk_lo (sr_media (pkt_sr p))" "field16 pkt 200 = mib_htotal (sr_media (pkt_sr p))"
    "field16 pkt 202 = mib_vtotal (sr_media (pkt_sr p))"
  using assms by (simp_all add: wf_compound_def report_bytes_def info_bytes_def media_bytes_def)

lemma report_texts:
  assumes "wf_compound p" "pkt = report_bytes (pkt_sr p) @ tail"
  shows "\<exists>rest. drop 36 pkt = info_ts_refclk (sr_info (pkt_sr p)) @ rest" "\<exists>rest. drop 100 pkt = info_mediaclk (sr_info (pkt_sr p)) @ rest"
    "\<exists>rest. drop 116 pkt = mib_sampling (sr_media (pkt_sr p)) @ rest" "\<exists>rest. drop 136 pkt = mib_range (sr_media (pkt_sr p)) @ rest"
    "\<exists>rest. drop 148 pkt = mib_colorimetry (sr_media (pkt_sr p)) @ rest" "\<exists>rest. drop 168 pkt = mib_tcs (sr_media (pkt_sr p)) @ rest"
  using assms by (simp_all add: wf_compound_def report_bytes_def info_bytes_def media_bytes_def)

lemma length_report_bytes: "wf_compound p \<Longrightarrow> length (report_bytes (pkt_sr p)) = sizeof_IPMXSenderReport"
  by (simp add: wf_compound_def report_bytes_def info_bytes_def media_bytes_def ipmx_sizes)


section \<open>The template in memory\<close>

lemma nth_write_at:
  "i + length new \<le> length bs \<Longrightarrow> k < length bs \<Longrightarrow>
    write_at bs i new ! k = (if i \<le> k \<and> k < i + length new then new ! (k - i) else bs ! k)"
  by (auto simp: write_at_def nth_append min_def)

lemma length_write_at [simp]: "i + length new \<le> length bs \<Longrightarrow> length (write_at bs i new) = length bs"
  by (simp add: write_at_def)

lemma sdes_layout:
  assumes "prepare_sender_report_sdes sender_ssrc ip p = (n, p')" "length (sdes_raw p) = RTCP_SDES_SIZE_MAX"
    "length ip \<le> 250" "0 \<notin> set (text_bytes ip)"
  shows "pkt_sr p' = pkt_sr p" "length (sdes_raw p') = RTCP_SDES_SIZE_MAX" "sdes_raw p' ! 9 = word_of_nat (length ip + 5)"
    "take (length ip + 5) (drop 10 (sdes_raw p')) = text_bytes (''ipmx@'' @ ip)" "length ip + 16 \<le> n" "n \<le> 268"
proof -
  let ?L = "length ip + 5"
  let ?t = "text_bytes (''ipmx@'' @ ip)"
  define l8 where "l8 = (word_of_nat (length (''ipmx@'' @ ip)) :: u8)"
  have L: "unat l8 = ?L" unfolding l8_def using assms(3) by (subst unat_word_of_nat) simp_all
  have t: "length ?t = ?L" "0 \<notin> set ?t" using assms(4) by (auto simp: text_bytes_def)
  define w where "w = c_strncpy ?t RTCP_SDES_CNAME_LEN_MAX"
  have w: "length w = 255" "\<And>i. i < ?L \<Longrightarrow> w ! i = ?t ! i"
  proof -
    have "c_string ?t = ?t" using c_string_nonzero[OF t(2), of "[]"] by (simp add: c_string_def)
    then show "length w = 255" "\<And>i. i < ?L \<Longrightarrow> w ! i = ?t ! i"
      using t(1) assms(3) by (auto simp: w_def c_strncpy_def ipmx_sizes nth_append)
  qed
  have up: "unat (align_up_pow2 (word_of_nat (?L + 11)) 4) = (?L + 14) div 4 * 4"
  proof -
    have "unat (word_of_nat (?L + 11) :: u64) = ?L + 11" using assms(3) by (intro unat_word_of_nat) simp
    then show ?thesis using align_up_four[of "word_of_nat (?L + 11)"] assms(3) by simp
  qed
  define sz where "sz = align_up_pow2 (word_of_nat (?L + 11)) 4"
  have ptr: "sizeof_RTCPSourceDescr + sizeof_RTCPSdesChunk + sizeof_RTCPSdesCname + unat l8 + sizeof_RTCPSdesEnd = ?L + 11"
    by (simp add: ipmx_sizes L)
  note p = assms(1)[unfolded prepare_sender_report_sdes_def Let_def, folded w_def l8_def, unfolded ptr, folded sz_def]
  have n: "n = (?L + 14) div 4 * 4" using p up by (simp add: sz_def)
  show "pkt_sr p' = pkt_sr p" using p by auto
  show "length ip + 16 \<le> n" "n \<le> 268" unfolding n using assms(3) by presburger+
  obtain a b c where raw: "sdes_raw p' = write_at (write_at (write_at (write_at (write_at (write_at (sdes_raw p) 0 (bytes_le16 a)) 4 (bytes_le32 b))
      8 [1, l8]) 10 w) (10 + ?L) [0]) 2 (bytes_le16 c)"
    using p by (auto simp: ipmx_sizes L)
  have len: "length (sdes_raw p) = 269" using assms(2) by (simp add: ipmx_sizes)
  then show "length (sdes_raw p') = RTCP_SDES_SIZE_MAX" unfolding raw using w(1) assms(3) by (simp add: ipmx_sizes)
  have "l8 = word_of_nat ?L" by (simp add: l8_def)
  then show "sdes_raw p' ! 9 = word_of_nat ?L" unfolding raw using w(1) assms(3) len by (simp add: nth_write_at)
  show "take ?L (drop 10 (sdes_raw p')) = ?t"
  proof (rule nth_equalityI)
    fix i assume "i < length (take ?L (drop 10 (sdes_raw p')))"
    then have i: "i < ?L" by simp
    then show "take ?L (drop 10 (sdes_raw p')) ! i = ?t ! i"
      unfolding raw using w assms(3) len by (simp add: nth_write_at)
  qed (use t(1) len w(1) assms(3) in \<open>simp add: raw\<close>)
qed

lemma zero_report_simps:
  "sr_info (pkt_sr zero_report) = zero_info" "sr_media (pkt_sr zero_report) = zero_media" "sdes_raw zero_report = replicate RTCP_SDES_SIZE_MAX 0"
  by (simp_all add: zero_report_def)

lemma pkt_sr_update: "pkt_sr (p\<lparr>pkt_sr := r\<rparr>) = r"
  by simp

lemma template_layout:
  assumes "prepare_compound_report_template ms stream_number ip = Some (Inr (n, p))"
    and "length ip \<le> 250" "0 \<notin> set (text_bytes ip)"
  shows "\<exists>bits pixel_clock k. stoi_prefix (ColorBitDepth_to_string (bit_depth ms)) = Inr bits \<and> report_pixel_clock ms = Some pixel_clock
    \<and> pkt_sr p = (pkt_sr zero_report)\<lparr>sr_type_ver := htons 0x80c8, sr_ssrc := htonl (ucast stream_number), sr_length := htons 50,
        sr_info := prepare_info_block ms zero_info, sr_media := prepare_media_block ms bits pixel_clock zero_media\<rparr>
    \<and> length (sdes_raw p) = 269 \<and> sdes_raw p ! 9 = word_of_nat (length ip + 5)
    \<and> take (length ip + 5) (drop 10 (sdes_raw p)) = text_bytes (''ipmx@'' @ ip) \<and> n = 204 + k \<and> length ip + 16 \<le> k \<and> k \<le> 268"
proof -
  obtain bits where bits: "stoi_prefix (ColorBitDepth_to_string (bit_depth ms)) = Inr bits"
  proof (cases "stoi_prefix (ColorBitDepth_to_string (bit_depth ms))")
    case (Inl e)
    then have "prepare_compound_report_template ms stream_number ip = Some (Inl e)"
      by (simp add: prepare_compound_report_template_def prepare_sender_report_base_def)
    then show ?thesis using assms(1) by simp
  qed blast
  obtain pixel_clock where pc: "report_pixel_clock ms = Some pixel_clock"
  proof (cases "report_pixel_clock ms")
    case None
    then have "prepare_compound_report_template ms stream_number ip = None"
      by (simp add: prepare_compound_report_template_def prepare_sender_report_base_def bits)
    then show ?thesis using assms(1) by simp
  qed blast
  let ?r = "(pkt_sr zero_report)\<lparr>sr_type_ver := htons 0x80c8, sr_ssrc := htonl (ucast stream_number), sr_length := htons 50,
        sr_info := prepare_info_block ms zero_info, sr_media := prepare_media_block ms bits pixel_clock zero_media\<rparr>"
  let ?p0 = "zero_report\<lparr>pkt_sr := ?r\<rparr>"
  have base: "prepare_sender_report_base ms (ucast stream_number) zero_report = Some (Inr (204, ?p0))"
    using bits pc by (simp add: prepare_sender_report_base_def Let_def ipmx_sizes RTP_VERSION_def zero_report_simps)
  obtain k p1 where sd: "prepare_sender_report_sdes (ucast stream_number) ip ?p0 = (k, p1)" by fastforce
  have np: "n = 204 + k" "p = p1"
    using assms(1) unfolding prepare_compound_report_template_def base by (simp_all add: sd)
  have "length (sdes_raw ?p0) = RTCP_SDES_SIZE_MAX" by (simp add: zero_report_simps)
  note lay = sdes_layout[OF sd this assms(2,3)]
  have r: "pkt_sr p = ?r" unfolding np(2) lay(1) by (rule pkt_sr_update)
  have len: "length (sdes_raw p) = 269" using lay(2) by (simp add: np(2) ipmx_sizes)
  show ?thesis
    using lay(3-6)[folded np(2)] np(1) by (intro exI[of _ bits] exI[of _ pixel_clock] exI[of _ k] conjI bits pc r len) assumption+
qed


section \<open>The round trip\<close>

lemma packing_depth:
  assumes "stoi_prefix (ColorBitDepth_to_string depth) = Inr bits"
  shows "unat (ucast (drop_bit 8 (pack_media_bits_interlace (word_of_nat bits) i) AND 0x7f) :: u8) = bits"
    "pack_media_bits_interlace (word_of_nat bits) i AND push_bit 15 1 = 0" "pack_media_bits_interlace (word_of_nat bits) i AND push_bit 7 1 = 0"
    "pack_media_bits_interlace (word_of_nat bits) i AND push_bit 6 1 = 0"
    "pack_media_bits_interlace (word_of_nat bits) i AND push_bit 5 1 \<noteq> 0 \<longleftrightarrow> i"
proof -
  have "bits \<in> {8, 10, 12, 16}"
    using assms by (cases depth) (simp_all add: stoi_prefix_def stoi_def ColorBitDepth_to_string_def EnumMapper_name_def
        ColorBitDepth_names_def decimal_value_def digit_val_def)
  then show "unat (ucast (drop_bit 8 (pack_media_bits_interlace (word_of_nat bits) i) AND 0x7f) :: u8) = bits"
    "pack_media_bits_interlace (word_of_nat bits) i AND push_bit 15 1 = 0" "pack_media_bits_interlace (word_of_nat bits) i AND push_bit 7 1 = 0"
    "pack_media_bits_interlace (word_of_nat bits) i AND push_bit 6 1 = 0"
    "pack_media_bits_interlace (word_of_nat bits) i AND push_bit 5 1 \<noteq> 0 \<longleftrightarrow> i"
    by (cases i; auto simp: pack_media_bits_interlace_def)+
qed

lemma rate_fields:
  fixes n d :: u16
  assumes "unat d < 1024"
  shows "drop_bit 10 (push_bit 10 (ucast n) OR ucast d :: u32) AND 0x3fffff = ucast n"
    and "(push_bit 10 (ucast n) OR ucast d :: u32) AND 0x3ff = ucast d"
proof -
  have m: "(0x3fffff :: u32) = mask 22" "(0x3ff :: u32) = mask 10" by (simp_all add: mask_eq_exp_minus_1)
  have d: "\<not> bit d k" if "10 \<le> k" for k
  proof -
    have "unat d < 2 ^ k" using assms power_increasing[OF that, of "2::nat"] by simp
    then have "\<not> bit (unat d) k" by (simp add: bit_iff_odd)
    then show ?thesis by (simp add: bit_unsigned_iff)
  qed
  show "drop_bit 10 (push_bit 10 (ucast n) OR ucast d :: u32) AND 0x3fffff = ucast n"
    unfolding m by (rule bit_word_eqI) (auto simp: bit_simps d dest: bit_imp_le_length)
  show "(push_bit 10 (ucast n) OR ucast d :: u32) AND 0x3ff = ucast d"
    unfolding m by (rule bit_word_eqI) (use d in \<open>auto simp: bit_simps not_less[symmetric]\<close>)
qed

lemma denominator_byte: "(ucast (ucast (d :: u16) :: u32) :: u8) = ucast d"
  by (rule bit_word_eqI) (auto simp: bit_simps)

lemma seconds_round_trip:
  assumes "unat (t :: u64) div NS_IN_SEC < 2 ^ 32"
  shows "ucast (ucast (t div word_of_nat NS_IN_SEC) :: u32) * word_of_nat NS_IN_SEC + ucast (ucast (t mod word_of_nat NS_IN_SEC) :: u32) = t"
proof -
  have n: "unat (word_of_nat NS_IN_SEC :: u64) = NS_IN_SEC" by (rule unat_word_of_nat) (simp add: NS_IN_SEC_def)
  have u: "(ucast (ucast x :: u32) :: u64) = x" if "unat x < 2 ^ 32" for x :: u64
  proof -
    have "unat (ucast x :: u32) = unat x" using that by (subst ucast_eq_word_of_nat) (rule unat_word_of_nat, simp)
    then have "unat (ucast (ucast x :: u32) :: u64) = unat x" by (subst unat_ucast_up) simp_all
    then show ?thesis by (simp only: word_eq_unat)
  qed
  have "unat (t div word_of_nat NS_IN_SEC) < 2 ^ 32" using assms by (simp add: unat_div_word n)
  moreover have "unat (t mod word_of_nat NS_IN_SEC) < 2 ^ 32"
    unfolding unat_mod_word n by (rule less_trans[OF mod_less_divisor]) (simp_all add: NS_IN_SEC_def)
  ultimately show ?thesis by (simp only: u div_mult_mod_eq)
qed


lemma cname_recovered:
  assumes "pkt = rb @ take k raw @ rest" "length rb = 204" "length ip \<le> 250" "0 \<notin> set (text_bytes ip)" "length raw = 269"
    "raw ! 9 = word_of_nat (length ip + 5)" "take (length ip + 5) (drop 10 raw) = text_bytes (''ipmx@'' @ ip)" "length ip + 16 \<le> k"
    "length cname = 256"
  shows "c_string (fill_cname pkt cname) = text_bytes (''ipmx@'' @ ip)"
proof -
  let ?t = "text_bytes (''ipmx@'' @ ip)"
  have t: "length ?t = length ip + 5" "0 \<notin> set ?t" using assms(4) by (auto simp: text_bytes_def)
  have l: "unat (word_of_nat (length ip + 5) :: u8) = length ip + 5" using assms(3) by (intro unat_word_of_nat) simp
  have len: "unat (field8 pkt 213) = length ip + 5"
    using assms(1,2,5,6,8) l by (simp add: field8_def nth_append)
  have d: "drop 214 pkt = take (k - 10) (drop 10 raw) @ rest"
    using assms(1,2,8,5) by (simp add: drop_take)
  have "take (k - 10) (drop 10 raw) = ?t @ drop (length ?t) (take (k - 10) (drop 10 raw))"
  proof -
    have "take (length ?t) (take (k - 10) (drop 10 raw)) = ?t"
    proof -
      have "length ip + 5 \<le> k - 10" using assms(8) by simp
      then show ?thesis using assms(7) by (simp only: t(1) take_take min_absorb1)
    qed
    then show ?thesis by (metis append_take_drop_id)
  qed
  then obtain more where "drop 214 pkt = ?t @ more" unfolding d by (metis append_assoc)
  then have s: "c_strncpy (drop 214 pkt) (length ip + 5) = ?t" using c_strncpy_exact[OF t(2), of more] t(1) by simp
  have "fill_cname pkt cname = (?t @ drop (length ?t) cname)[length ?t := 0]"
    using len s t(1) by (simp add: fill_cname_def write_at_def ipmx_sizes Let_def)
  also have "\<dots> = ?t @ (0 # drop (Suc (length ?t)) cname)"
    using assms(3,9) t(1) by (simp add: list_update_append Cons_nth_drop_Suc[symmetric, of "length ip + 5" cname])
  finally show ?thesis using c_string_nonzero[OF t(2)] by (simp add: c_string_def)
qed

lemma template_selectors:
  "sr_type_ver (r\<lparr>sr_type_ver := a, sr_ssrc := b, sr_length := c, sr_info := d, sr_media := e\<rparr>) = a"
  "sr_ssrc (r\<lparr>sr_type_ver := a, sr_ssrc := b, sr_length := c, sr_info := d, sr_media := e\<rparr>) = b"
  "sr_info (r\<lparr>sr_type_ver := a, sr_ssrc := b, sr_length := c, sr_info := d, sr_media := e\<rparr>) = d"
  "sr_media (r\<lparr>sr_type_ver := a, sr_ssrc := b, sr_length := c, sr_info := d, sr_media := e\<rparr>) = e"
  by simp_all

lemma update_report_fields:
  "sr_type_ver (pkt_sr (update_sender_report t rt sent octets p)) = sr_type_ver (pkt_sr p)"
  "sr_ssrc (pkt_sr (update_sender_report t rt sent octets p)) = sr_ssrc (pkt_sr p)"
  "sr_info (pkt_sr (update_sender_report t rt sent octets p)) = sr_info (pkt_sr p)"
  "sr_media (pkt_sr (update_sender_report t rt sent octets p)) = sr_media (pkt_sr p)"
  "sr_ntp_ts_hi (pkt_sr (update_sender_report t rt sent octets p)) = htonl (ucast (t div word_of_nat NS_IN_SEC))"
  "sr_ntp_ts_lo (pkt_sr (update_sender_report t rt sent octets p)) = htonl (ucast (t mod word_of_nat NS_IN_SEC))"
  "sr_rtp_ts (pkt_sr (update_sender_report t rt sent octets p)) = htonl rt"
  "sr_pkt_cnt (pkt_sr (update_sender_report t rt sent octets p)) = htonl sent"
  "sr_byte_cnt (pkt_sr (update_sender_report t rt sent octets p)) = htonl (sent * octets)"
  "sdes_raw (update_sender_report t rt sent octets p) = sdes_raw p"
  by (simp_all add: update_sender_report_def)

lemma media_block_fields:
  "mib_type (prepare_media_block ms bits pc zero_media) = htons 1"
  "mib_packing (prepare_media_block ms bits pc zero_media) = htons (pack_media_bits_interlace (word_of_nat bits) (video_scan_type ms = Interlaced))"
  "mib_width (prepare_media_block ms bits pc zero_media) = htons (width (resolution ms))"
  "mib_height (prepare_media_block ms bits pc zero_media) = htons (height (resolution ms))"
  "mib_rate (prepare_media_block ms bits pc zero_media) = htonl (push_bit 10 (ucast (num (frame_rate ms))) OR ucast (denom (frame_rate ms)))"
  "mib_sampling (prepare_media_block ms bits pc zero_media) = write_text (replicate 16 0) (VideoSampling_to_string (sampling_type ms))"
  "mib_range (prepare_media_block ms bits pc zero_media) = write_text (replicate 12 0) ''NARROW''"
  "mib_colorimetry (prepare_media_block ms bits pc zero_media) = write_text (replicate 20 0) ''BT709''"
  "mib_tcs (prepare_media_block ms bits pc zero_media) = write_text (replicate 16 0) ''SDR''"
  "mib_htotal (prepare_media_block ms bits pc zero_media) = htons (width (resolution ms))"
  "mib_vtotal (prepare_media_block ms bits pc zero_media) = htons (height (resolution ms))"
  "mib_par_w (prepare_media_block ms bits pc zero_media) = 1" "mib_par_h (prepare_media_block ms bits pc zero_media) = 1"
  "mib_pixel_clk_hi (prepare_media_block ms bits pc zero_media) = htonl (word_of_nat (pc div NS_IN_SEC))"
  "mib_pixel_clk_lo (prepare_media_block ms bits pc zero_media) = htonl (word_of_nat (pc mod NS_IN_SEC))"
  "info_ts_refclk (prepare_info_block ms zero_info) = write_text (replicate 64 0) (refclk ms)"
  "info_mediaclk (prepare_info_block ms zero_info) = write_text (replicate 12 0) ''direct=0''"
  by (simp_all add: prepare_media_block_def prepare_info_block_def zero_info_def zero_media_def Let_def IPMX_MIB_TYPE_UNCOMPRESSED_VIDEO_def
      del: replicate.simps)

lemma fixed_texts:
  "take 11 (c_string (text_bytes ''direct=0'')) = text_bytes ''direct=0''" "take 11 (c_string (text_bytes ''NARROW'')) = text_bytes ''NARROW''"
  "take 19 (c_string (text_bytes ''BT709'')) = text_bytes ''BT709''" "take 15 (c_string (text_bytes ''SDR'')) = text_bytes ''SDR''"
  "c_string (text_bytes (VideoSampling_to_string v)) = text_bytes (VideoSampling_to_string v)"
  by (simp_all add: c_string_def text_bytes_def) (cases v; simp add: VideoSampling_to_string_def EnumMapper_name_def VideoSampling_names_def)

lemma prepared_wf:
  assumes "sr_info (pkt_sr p) = prepare_info_block ms zero_info" "sr_media (pkt_sr p) = prepare_media_block ms bits pc zero_media"
    and "length (sdes_raw p) = 269"
  shows "wf_compound p" and "length (compound_bytes p) = 473"
proof -
  show wf: "wf_compound p"
    unfolding wf_compound_def assms
    by (simp add: prepare_info_block_def prepare_media_block_def zero_info_def zero_media_def Let_def ipmx_sizes)
  show "length (compound_bytes p) = 473" using length_report_bytes[OF wf] assms(3) by (simp add: compound_bytes_def ipmx_sizes)
qed

text \<open>The pixel clock: the receiver shifts the upper word out of its 32 bits and keeps the lower one.\<close>

lemma pixel_clock_low: "(ucast (push_bit 32 (ucast (hi :: u32) :: u64) OR ucast (lo :: u32)) :: u32) = lo"
  by (rule bit_word_eqI) (auto simp: bit_simps)

lemma low_byte: "unat (ucast (d :: u16) :: u8) = unat d mod 256"
  by (simp add: unsigned_ucast_eq take_bit_eq_mod)

text \<open>C29: what a receiver reads out of a sender report, field by field.  When the memory at the receiver starts with
  the bytes that \<open>commit_sender_report\<close> sends, \<open>fill_from_rtcp_sr_packet\<close> succeeds, and the source, the times and the
  counters of the report are the sender's; so are the clocks and the name of the source as texts (the reference clock cut to
  63 characters, the name of the sampling to 15), the bit depth, the size, the aspect ratio of a pixel and the rate's numerator.
  Where the two sides disagree on the format, the theorem says what the receiver reads instead: of the denominator of
  the rate it keeps the low byte, 233 for 1001; interlaced video is taken for segmented and never for interlaced, for the
  flag is written to one bit and read from another; and the pixel clock, sent as quotient and
  rest of a division by \<open>10 ^ 9\<close>, is read as the rest only.\<close>

theorem report_roundtrip:
  assumes "prepare_compound_report_template ms stream_number ip = Some (Inr (n, p))"
    and "length ip \<le> 250" "0 \<notin> set (text_bytes ip)" "unat (denom (frame_rate ms)) < 1024"
    and "unat timestamp_ns div NS_IN_SEC < 2 ^ 32"
    and "mem_read m data n = take n (compound_bytes (update_sender_report timestamp_ns rtp_ts sent octets p))"
    and "length (si_cname s) = 256"
  shows "\<exists>s'. fill_from_rtcp_sr_packet m data n s = (success, s')
    \<and> si_rtp_version s' = 2 \<and> si_ssrc s' = ucast stream_number
    \<and> si_ntp_ts s' = timestamp_ns \<and> si_rtp_ts s' = rtp_ts \<and> si_pkt_cnt s' = sent \<and> si_byte_cnt s' = sent * octets
    \<and> c_string (si_ts_refclk s') = take 63 (c_string (text_bytes (refclk ms)))
    \<and> c_string (si_mediaclk s') = text_bytes ''direct=0'' \<and> c_string (si_cname s') = text_bytes (''ipmx@'' @ ip)
    \<and> c_string (vi_sampling_format (si_video s')) = take 15 (text_bytes (VideoSampling_to_string (sampling_type ms)))
    \<and> stoi_prefix (ColorBitDepth_to_string (bit_depth ms)) = Inr (unat (vi_bit_depth (si_video s')))
    \<and> c_string (vi_range (si_video s')) = text_bytes ''NARROW'' \<and> c_string (vi_colorimetry (si_video s')) = text_bytes ''BT709''
    \<and> c_string (vi_tcs (si_video s')) = text_bytes ''SDR''
    \<and> vi_width (si_video s') = width (resolution ms) \<and> vi_height (si_video s') = height (resolution ms)
    \<and> vi_h_total (si_video s') = width (resolution ms) \<and> vi_v_total (si_video s') = height (resolution ms)
    \<and> vi_par_w (si_video s') = 1 \<and> vi_par_h (si_video s') = 1 \<and> \<not> vi_is_floating (si_video s') \<and> \<not> vi_is_gpm (si_video s')
    \<and> vi_rate_num (si_video s') = ucast (num (frame_rate ms))
    \<and> unat (vi_rate_denom (si_video s')) = unat (denom (frame_rate ms)) mod 256
    \<and> \<not> vi_is_interlaced (si_video s') \<and> vi_is_segmented (si_video s') = (video_scan_type ms = Interlaced)
    \<and> (\<exists>pixel_clock. report_pixel_clock ms = Some pixel_clock \<and> vi_pixel_clock (si_video s') = word_of_nat (pixel_clock mod 10 ^ 9))"
proof -
  obtain bits pc k where bits: "stoi_prefix (ColorBitDepth_to_string (bit_depth ms)) = Inr bits" and pc: "report_pixel_clock ms = Some pc"
    and r: "pkt_sr p = (pkt_sr zero_report)\<lparr>sr_type_ver := htons 0x80c8, sr_ssrc := htonl (ucast stream_number), sr_length := htons 50,
        sr_info := prepare_info_block ms zero_info, sr_media := prepare_media_block ms bits pc zero_media\<rparr>"
    and raw: "length (sdes_raw p) = 269" "sdes_raw p ! 9 = word_of_nat (length ip + 5)"
      "take (length ip + 5) (drop 10 (sdes_raw p)) = text_bytes (''ipmx@'' @ ip)"
    and n: "n = 204 + k" "length ip + 16 \<le> k" "k \<le> 268"
    using template_layout[OF assms(1-3)] by blast
  let ?p = "update_sender_report timestamp_ns rtp_ts sent octets p"
  have info: "sr_info (pkt_sr ?p) = prepare_info_block ms zero_info" and media: "sr_media (pkt_sr ?p) = prepare_media_block ms bits pc zero_media"
    and top: "sr_type_ver (pkt_sr ?p) = htons 0x80c8" "sr_ssrc (pkt_sr ?p) = htonl (ucast stream_number)"
    unfolding update_report_fields r by (rule template_selectors)+
  note sdes = update_report_fields(10)[of timestamp_ns rtp_ts sent octets p]
  have wf: "wf_compound ?p" using prepared_wf(1)[OF info media] raw(1) sdes by simp
  define rest where "rest = mem_read m (data + n) (476 - n)"
  define pkt where "pkt = mem_read m data sizeof_RTCPCompoundPacket"
  have pkt: "pkt = report_bytes (pkt_sr ?p) @ take k (sdes_raw p) @ rest"
  proof -
    have "pkt = mem_read m data n @ rest" using n mem_read_append[of m data n "476 - n"] by (simp add: pkt_def rest_def ipmx_sizes)
    then show ?thesis using length_report_bytes[OF wf] by (simp add: assms(6)[unfolded n(1)] compound_bytes_def sdes n(1) ipmx_sizes)
  qed
  note fields = report_fields[OF wf pkt] and texts = report_texts[OF wf pkt]
  define v where "v = fill_video_info pkt (si_video s)"
  note F = media_block_fields
  have arrays: "c_string ((c_strncpy (drop 36 pkt) 65)[64 := 0]) = take 63 (c_string (text_bytes (refclk ms)))"
    "c_string ((c_strncpy (drop 100 pkt) 13)[12 := 0]) = text_bytes ''direct=0''"
    "c_string (vi_sampling_format v) = take 15 (text_bytes (VideoSampling_to_string (sampling_type ms)))"
    "c_string (vi_range v) = text_bytes ''NARROW''" "c_string (vi_colorimetry v) = text_bytes ''BT709''" "c_string (vi_tcs v) = text_bytes ''SDR''"
    using texts c_array_text[of 64] c_array_text[of 12] c_array_text[of 16] c_array_text[of 20]
    by (auto simp: v_def fill_video_info_def Let_def info media F fixed_texts)
  have video: "stoi_prefix (ColorBitDepth_to_string (bit_depth ms)) = Inr (unat (vi_bit_depth v))"
    "vi_width v = width (resolution ms)" "vi_height v = height (resolution ms)"
    "vi_rate_num v = ucast (num (frame_rate ms))" "vi_rate_denom v = ucast (denom (frame_rate ms))"
    "vi_is_segmented v = (video_scan_type ms = Interlaced)" "\<not> vi_is_interlaced v" "\<not> vi_is_floating v" "\<not> vi_is_gpm v"
    "vi_h_total v = width (resolution ms)" "vi_v_total v = height (resolution ms)" "vi_par_w v = 1" "vi_par_h v = 1"
    using packing_depth[OF bits] rate_fields[OF assms(4)] bits
    by (simp_all add: v_def fill_video_info_def Let_def fields media F denominator_byte)
  have clock: "vi_pixel_clock v = word_of_nat (pc mod 10 ^ 9)"
    by (simp add: v_def fill_video_info_def Let_def fields media F pixel_clock_low NS_IN_SEC_def)
  define s' where "s' = s\<lparr>si_rtp_version := ucast (drop_bit 14 (htons (field16 pkt 0)) AND 3),
                 si_ssrc := htonl (field32 pkt 4),
                 si_ntp_ts := ucast (htonl (field32 pkt 8)) * word_of_nat NS_IN_SEC + ucast (htonl (field32 pkt 12)),
                 si_rtp_ts := htonl (field32 pkt 16),
                 si_pkt_cnt := htonl (field32 pkt 20),
                 si_byte_cnt := htonl (field32 pkt 24),
                 si_info_block_version := field8 pkt 32,
                 si_ts_refclk := (c_strncpy (drop 36 pkt) 65)[64 := 0],
                 si_mediaclk := (c_strncpy (drop 100 pkt) 13)[12 := 0],
                 si_media_block_type := ucast (htons (field16 pkt 112))\<rparr>"
  have same: "si_video s' = si_video s" "si_cname s' = si_cname s" "si_media_block_type s' = 1"
    by (simp_all add: s'_def fields media F)
  have "n \<le> 476" using n by simp
  then have fill: "fill_from_rtcp_sr_packet m data n s = (success, s'\<lparr>si_video := v, si_cname := fill_cname pkt (si_cname s)\<rparr>)"
    unfolding fill_from_rtcp_sr_packet_def Let_def pkt_def[symmetric] s'_def[symmetric] same v_def
    by (simp add: ipmx_sizes IPMX_MIB_TYPE_UNCOMPRESSED_VIDEO_def)
  have head: "si_rtp_version s' = 2" "si_ssrc s' = ucast stream_number" "si_ntp_ts s' = timestamp_ns" "si_rtp_ts s' = rtp_ts"
    "si_pkt_cnt s' = sent" "si_byte_cnt s' = sent * octets" "si_ts_refclk s' = (c_strncpy (drop 36 pkt) 65)[64 := 0]"
    "si_mediaclk s' = (c_strncpy (drop 100 pkt) 13)[12 := 0]"
    using seconds_round_trip[OF assms(5)] by (simp_all add: s'_def fields top update_report_fields(5-9))
  have "c_string (fill_cname pkt (si_cname s)) = text_bytes (''ipmx@'' @ ip)"
    using cname_recovered[OF pkt _ assms(2,3) raw(1,2,3) n(2) assms(7)] length_report_bytes[OF wf] by (simp add: ipmx_sizes)
  then show ?thesis unfolding fill using head arrays video clock pc by (simp add: low_byte)
qed


definition example_report_media :: MediaSettings where
  "example_report_media = MediaSettings_default\<lparr>resolution := \<lparr>width = 1920, height = 1080\<rparr>, frame_rate := \<lparr>num = 60000, denom = 1001\<rparr>,
     refclk := ''ptp=IEEE1588-2008''\<rparr>"

definition example_stream_info :: IPMXStreamInfo where
  "example_stream_info = \<lparr>si_rtp_version = 0, si_ssrc = 0, si_ntp_ts = 0, si_rtp_ts = 0, si_pkt_cnt = 0, si_byte_cnt = 0,
     si_info_block_version = 0, si_ts_refclk = [], si_mediaclk = [], si_media_block_type = 0,
     si_video = \<lparr>vi_sampling_format = [], vi_bit_depth = 0, vi_is_floating = False, vi_is_gpm = False, vi_is_interlaced = False,
       vi_is_segmented = False, vi_par_w = 0, vi_par_h = 0, vi_range = [], vi_colorimetry = [], vi_tcs = [], vi_width = 0,
       vi_height = 0, vi_rate_num = 0, vi_rate_denom = 0, vi_pixel_clock = 0, vi_h_total = 0, vi_v_total = 0\<rparr>,
     si_cname = replicate 256 0\<rparr>"

lemma template_exists:
  assumes "stoi_prefix (ColorBitDepth_to_string (bit_depth ms)) = Inr bits" "report_pixel_clock ms = Some pc"
  shows "\<exists>n p. prepare_compound_report_template ms stream_number ip = Some (Inr (n, p))"
  using assms by (simp add: prepare_compound_report_template_def prepare_sender_report_base_def Let_def split: prod.splits)

theorem report_roundtrip_witness:
  "\<exists>n p m s'. prepare_compound_report_template example_report_media 7 ''10.0.0.1'' = Some (Inr (n, p))
    \<and> fill_from_rtcp_sr_packet m 0 n example_stream_info = (success, s') \<and> si_ssrc s' = 7 \<and> si_ntp_ts s' = 5000000123
    \<and> vi_rate_num (si_video s') = 60000 \<and> unat (vi_rate_denom (si_video s')) = 233 \<and> vi_pixel_clock (si_video s') = 124291708"
proof -
  have bits: "stoi_prefix (ColorBitDepth_to_string (bit_depth example_report_media)) = Inr 10"
    by (simp add: example_report_media_def MediaSettings_default_def stoi_prefix_def stoi_def ColorBitDepth_to_string_def
        EnumMapper_name_def ColorBitDepth_names_def decimal_value_def digit_val_def)
  have pc: "report_pixel_clock example_report_media = Some 124291708"
    by (simp add: example_report_media_def report_pixel_clock_def MediaSettings_default_def)
  obtain n p where t: "prepare_compound_report_template example_report_media 7 ''10.0.0.1'' = Some (Inr (n, p))"
    using template_exists[OF bits pc] by blast
  let ?bs = "take n (compound_bytes (update_sender_report 5000000123 0 0 0 p))"
  have ip: "0 \<notin> set (text_bytes ''10.0.0.1'')" by (simp add: text_bytes_def)
  have "n = length ?bs"
  proof -
    let ?p = "update_sender_report 5000000123 0 0 0 p"
    obtain bits pc k where r: "pkt_sr p = (pkt_sr zero_report)\<lparr>sr_type_ver := htons 0x80c8, sr_ssrc := htonl (ucast (7 :: u64)), sr_length := htons 50,
        sr_info := prepare_info_block example_report_media zero_info, sr_media := prepare_media_block example_report_media bits pc zero_media\<rparr>"
      and k: "n = 204 + k" "k \<le> 268" "length (sdes_raw p) = 269"
      using template_layout[OF t _ ip] by auto
    have "length (compound_bytes ?p) = 473"
    proof (rule prepared_wf(2))
      show "sr_info (pkt_sr ?p) = prepare_info_block example_report_media zero_info"
        "sr_media (pkt_sr ?p) = prepare_media_block example_report_media bits pc zero_media"
        unfolding update_report_fields r by (rule template_selectors)+
    qed (simp add: update_report_fields k(3))
    then show ?thesis using k by simp
  qed
  then have read: "mem_read (mem_write (\<lambda>_. 0) 0 ?bs) 0 n = ?bs" by (rule mem_read_write_same)
  show ?thesis
    using report_roundtrip[OF t _ ip _ _ read, of example_stream_info] t pc
    by (auto simp: example_stream_info_def example_report_media_def NS_IN_SEC_def)
qed

text \<open>What the formats of sender and receiver do not agree on: the sender sets bit 5 for interlaced video, the
  receiver takes it for segmented frames and reads the interlaced flag from bit 6.\<close>

lemma interlaced_bit_differs:
  assumes "stoi_prefix (ColorBitDepth_to_string depth) = Inr bits"
  shows "pack_media_bits_interlace (word_of_nat bits) True AND push_bit 6 1 = 0"
    and "pack_media_bits_interlace (word_of_nat bits) True AND push_bit 5 1 \<noteq> 0"
  using packing_depth[OF assms] by simp_all

end
