(* ===== verification/Ipmx_Tracker.thy ===== *)
theory Ipmx_Tracker
  imports Ipmx_Report Static_Rcu Rtp_Receive Doubles "HOL-Library.Monad_Syntax"
begin

text \<open>
  The timeline tracker of the IPMX receiver
  (\<^verbatim>\<open>apps/rmax_ipmx_receiver/ipmx_stream_timeline_tracker.cpp\<close>): one thread parses the sender reports, another is
  notified of the first packet of each media frame, matches the frame with the last report and measures the
  sender's clock against the receiver's.  The reports cross over in a cell of theory \<open>Static_Rcu\<close>.  The
  lemmas characterise which frames match, and what the statistics say after any sequence of events.
\<close>

section \<open>The state\<close>

record RTCPReportStats =
  reports_received :: u64
  reports_corrupted :: u64
  last_report_rx_ts :: u64
  is_last_report_valid :: bool

record IPMXSenderReportState =
  last_report :: IPMXStreamInfo
  report_stats :: RTCPReportStats

text \<open>Values of type \<open>int64_t\<close> are integers; a difference that leaves the range is undefined.\<close>

record FrameTiming =
  tx_rtp_timestamp :: u32
  tx_ntp_timestamp :: u64
  rx_timestamp :: u64
  clock_diff :: int

text \<open>A ratio that is no number, a division by zero, is \<open>None\<close>.\<close>

record ClockStats =
  frames_received :: u64
  frames_missing_send_report :: u64
  frames_bad_rtp_time :: u64
  clock_drift_since_start :: int
  clock_drift_last_period :: int
  clock_ratio_ppm_since_start :: "rat option"
  clock_ratio_ppm_last_period :: "rat option"
  sender_report_to_data_min :: int
  sender_report_to_data_max :: int

record IPMXDataClockState =
  first_frame :: FrameTiming
  last_frame :: FrameTiming
  prev_stats_frame :: FrameTiming
  clock_stats :: ClockStats

definition RCU_NUM_VERSIONS :: nat where "RCU_NUM_VERSIONS = 4"

record IPMXStreamTimelineTracker =
  m_local_report_state :: IPMXSenderReportState
  m_local_clock_state :: IPMXDataClockState
  m_shared_report_state :: "IPMXSenderReportState StaticRCU"
  m_shared_clock_state :: "IPMXDataClockState StaticRCU"
  m_new_report_version_available :: bool
  m_new_clock_stats_available :: bool
  m_stats_update_interval_ms :: u32

definition FrameTiming_new :: FrameTiming where
  "FrameTiming_new = \<lparr>tx_rtp_timestamp = 0, tx_ntp_timestamp = 0, rx_timestamp = 0, clock_diff = 0\<rparr>"

definition IPMXDataClockState_new :: IPMXDataClockState where
  "IPMXDataClockState_new = \<lparr>first_frame = FrameTiming_new, last_frame = FrameTiming_new, prev_stats_frame = FrameTiming_new,
     clock_stats = \<lparr>frames_received = 0, frames_missing_send_report = 0, frames_bad_rtp_time = 0, clock_drift_since_start = 0,
       clock_drift_last_period = 0, clock_ratio_ppm_since_start = Some 0, clock_ratio_ppm_last_period = Some 0,
       sender_report_to_data_min = 0, sender_report_to_data_max = 0\<rparr>\<rparr>"

text \<open>The report itself is not initialised: its first content is an argument.\<close>

definition IPMXSenderReportState_new :: "IPMXStreamInfo \<Rightarrow> IPMXSenderReportState" where
  "IPMXSenderReportState_new uninitialised = \<lparr>last_report = uninitialised,
     report_stats = \<lparr>reports_received = 0, reports_corrupted = 0, last_report_rx_ts = 0, is_last_report_valid = False\<rparr>\<rparr>"

definition IPMXStreamTimelineTracker_new :: "IPMXStreamInfo \<Rightarrow> IPMXStreamTimelineTracker" where
  "IPMXStreamTimelineTracker_new uninitialised =
    \<lparr>m_local_report_state = IPMXSenderReportState_new uninitialised, m_local_clock_state = IPMXDataClockState_new,
     m_shared_report_state = StaticRCU_new (IPMXSenderReportState_new uninitialised),
     m_shared_clock_state = StaticRCU_new IPMXDataClockState_new,
     m_new_report_version_available = False, m_new_clock_stats_available = False, m_stats_update_interval_ms = 1000\<rparr>"

definition set_statistics_report_interval :: "u32 \<Rightarrow> IPMXStreamTimelineTracker \<Rightarrow> IPMXStreamTimelineTracker" where
  "set_statistics_report_interval interval_ms t = t\<lparr>m_stats_update_interval_ms := interval_ms\<rparr>"

section \<open>Sender reports\<close>

definition report_state_update :: "mem \<Rightarrow> nat \<Rightarrow> ReceivePacketInfo \<Rightarrow> IPMXSenderReportState \<Rightarrow> IPMXSenderReportState" where
  "report_state_update m data info s =
    (let stats = (report_stats s)\<lparr>reports_received := reports_received (report_stats s) + 1, last_report_rx_ts := packet_timestamp info\<rparr>;
         (status, report) = fill_from_rtcp_sr_packet m data (unat (sub_block_size_0 info)) (last_report s)
     in if status = success then s\<lparr>last_report := report, report_stats := stats\<lparr>is_last_report_valid := True\<rparr>\<rparr>
        else s\<lparr>last_report := report,
               report_stats := stats\<lparr>is_last_report_valid := False, reports_corrupted := reports_corrupted stats + 1\<rparr>\<rparr>)"

definition consume_rtcp_packet :: "mem \<Rightarrow> nat \<Rightarrow> ReceivePacketInfo \<Rightarrow> IPMXStreamTimelineTracker \<Rightarrow> IPMXStreamTimelineTracker" where
  "consume_rtcp_packet m data info t =
    (let is_prev_report_valid = is_last_report_valid (report_stats (m_local_report_state t));
         prev_info_block_version = si_info_block_version (last_report (m_local_report_state t));
         local = report_state_update m data info (m_local_report_state t);
         t = t\<lparr>m_local_report_state := local, m_shared_report_state := rcu_update RCU_NUM_VERSIONS local (m_shared_report_state t)\<rparr>;
         is_first_report = is_last_report_valid (report_stats local) \<and> \<not> is_prev_report_valid;
         is_media_info_changed = is_last_report_valid (report_stats local)
           \<and> si_info_block_version (last_report local) \<noteq> prev_info_block_version
     in if is_first_report \<or> is_media_info_changed then t\<lparr>m_new_report_version_available := True\<rparr> else t)"

section \<open>Media frames\<close>

definition is_before :: "u32 \<Rightarrow> u32 \<Rightarrow> bool" where
  "is_before a b \<longleftrightarrow> (a AND 0x80000000 = b AND 0x80000000 \<and> a < b)
     \<or> (a AND 0x80000000 \<noteq> b AND 0x80000000 \<and> a AND 0x7fffffff > b AND 0x7fffffff)"

definition int64 :: "int \<Rightarrow> int option" where
  "int64 x = (if - (2 ^ 63) \<le> x \<and> x < 2 ^ 63 then Some x else None)"

definition ratio_ppm :: "int \<Rightarrow> int \<Rightarrow> rat option" where
  "ratio_ppm delay_change time_passed =
    (if time_passed = 0 then None
     else Some (dbl (dbl (dbl (of_int delay_change) * 1000000) / dbl (of_int time_passed))))"

text \<open>The measured delay between the last report and the frame.\<close>

definition report_to_data :: "IPMXSenderReportState \<Rightarrow> u64 \<Rightarrow> int" where
  "report_to_data report_state receiver_timestamp = sint (receiver_timestamp - last_report_rx_ts (report_stats report_state))"

definition update_clock_drift :: "IPMXDataClockState \<Rightarrow> IPMXDataClockState option" where
  "update_clock_drift s = do {
     delay_change \<leftarrow> int64 (clock_diff (last_frame s) - clock_diff (prev_stats_frame s));
     let time_passed = sint (rx_timestamp (last_frame s) - rx_timestamp (prev_stats_frame s));
     delay_change_since_start \<leftarrow> int64 (clock_diff (last_frame s) - clock_diff (first_frame s));
     let time_passed_since_start = sint (rx_timestamp (last_frame s) - rx_timestamp (first_frame s));
     Some (s\<lparr>clock_stats := (clock_stats s)\<lparr>clock_drift_last_period := delay_change,
                clock_ratio_ppm_last_period := ratio_ppm delay_change time_passed,
                clock_drift_since_start := delay_change_since_start,
                clock_ratio_ppm_since_start := ratio_ppm delay_change_since_start time_passed_since_start\<rparr>,
             prev_stats_frame := last_frame s\<rparr>) }"

definition clock_state_update ::
  "IPMXSenderReportState \<Rightarrow> u32 \<Rightarrow> u64 \<Rightarrow> bool \<Rightarrow> IPMXDataClockState \<Rightarrow> IPMXDataClockState option" where
  "clock_state_update report_state rtp_ts receiver_timestamp need_update_stats s =
    (if \<not> is_last_report_valid (report_stats report_state) \<or> is_before (si_rtp_ts (last_report report_state)) rtp_ts
     then Some (s\<lparr>clock_stats := (clock_stats s)\<lparr>frames_missing_send_report := frames_missing_send_report (clock_stats s) + 1\<rparr>\<rparr>)
     else if is_before rtp_ts (si_rtp_ts (last_report report_state))
     then Some (s\<lparr>clock_stats := (clock_stats s)\<lparr>frames_bad_rtp_time := frames_bad_rtp_time (clock_stats s) + 1\<rparr>\<rparr>)
     else
       let is_first_update = (frames_received (clock_stats s) = 0);
           frame = \<lparr>tx_rtp_timestamp = rtp_ts, tx_ntp_timestamp = si_ntp_ts (last_report report_state), rx_timestamp = receiver_timestamp,
             clock_diff = sint (receiver_timestamp - si_ntp_ts (last_report report_state))\<rparr>;
           s = s\<lparr>last_frame := frame, clock_stats := (clock_stats s)\<lparr>frames_received := frames_received (clock_stats s) + 1\<rparr>\<rparr>;
           s = (if is_first_update then s\<lparr>first_frame := frame, prev_stats_frame := frame\<rparr> else s);
           delay = report_to_data report_state receiver_timestamp;
           s = (if delay > sender_report_to_data_max (clock_stats s) \<or> is_first_update
                then s\<lparr>clock_stats := (clock_stats s)\<lparr>sender_report_to_data_max := delay\<rparr>\<rparr> else s);
           s = (if delay < sender_report_to_data_min (clock_stats s) \<or> is_first_update
                then s\<lparr>clock_stats := (clock_stats s)\<lparr>sender_report_to_data_min := delay\<rparr>\<rparr> else s)
       in if need_update_stats then update_clock_drift s else Some s)"

definition need_update_stats :: "IPMXStreamTimelineTracker \<Rightarrow> bool" where
  "need_update_stats t \<longleftrightarrow>
    sint (rx_timestamp (last_frame (m_local_clock_state t)) - rx_timestamp (prev_stats_frame (m_local_clock_state t)))
    \<ge> uint (m_stats_update_interval_ms t - 1) * 1000000"

definition notify_data_frame :: "u32 \<Rightarrow> u64 \<Rightarrow> IPMXStreamTimelineTracker \<Rightarrow> IPMXStreamTimelineTracker option" where
  "notify_data_frame rtp_ts receiver_timestamp t = do {
     report_state \<leftarrow> rcu_read (m_shared_report_state t);
     let need_update = need_update_stats t;
     local \<leftarrow> clock_state_update report_state rtp_ts receiver_timestamp need_update (m_local_clock_state t);
     let t = t\<lparr>m_local_clock_state := local, m_shared_clock_state := rcu_update RCU_NUM_VERSIONS local (m_shared_clock_state t)\<rparr>;
     Some (if need_update then t\<lparr>m_new_clock_stats_available := True\<rparr> else t) }"

text \<open>What is printed, and the flags that \<open>exchange (false)\<close> clears.\<close>

definition print_updates :: "IPMXStreamTimelineTracker \<Rightarrow> (IPMXStreamInfo option option \<times> IPMXDataClockState option option) \<times> IPMXStreamTimelineTracker" where
  "print_updates t =
    ((if m_new_report_version_available t then Some (map_option last_report (rcu_read (m_shared_report_state t))) else None,
      if m_new_clock_stats_available t then Some (rcu_read (m_shared_clock_state t)) else None),
     t\<lparr>m_new_report_version_available := False, m_new_clock_stats_available := False\<rparr>)"

text \<open>The consumer of the RTCP stream passes the packets of a chunk to the tracker of their flow; a flow tag
  out of range is undefined.  The pointer to the packet is not advanced.\<close>

fun rtcp_consume_loop ::
  "mem \<Rightarrow> nat \<Rightarrow> (nat \<times> ReceivePacketInfo) list \<Rightarrow> IPMXStreamTimelineTracker list \<Rightarrow> IPMXStreamTimelineTracker list option" where
  "rtcp_consume_loop m packet_ptr [] trackers = Some trackers"
| "rtcp_consume_loop m packet_ptr ((flow_tag, info) # packets) trackers =
    (if flow_tag < length trackers
     then rtcp_consume_loop m packet_ptr packets (trackers[flow_tag := consume_rtcp_packet m packet_ptr info (trackers ! flow_tag)])
     else None)"

definition rtcp_consume_chunk ::
  "mem \<Rightarrow> nat \<Rightarrow> (nat \<times> ReceivePacketInfo) list \<Rightarrow> IPMXStreamTimelineTracker list
    \<Rightarrow> (ReturnStatus \<times> nat \<times> IPMXStreamTimelineTracker list) option" where
  "rtcp_consume_chunk m payload_ptr packets trackers =
    map_option (\<lambda>ts. (success, length packets, ts)) (rtcp_consume_loop m payload_ptr packets trackers)"

section \<open>Order of timestamps\<close>

lemma uint_u32: "uint (x :: u32) < 4294967296"
  by (rule less_le_trans[OF unsigned_less]) simp

lemma top_bit_and: "(a :: u32) AND 0x80000000 = (if 2 ^ 31 \<le> uint a then 0x80000000 else 0)"
proof -
  have "(0x80000000 :: u32) = push_bit 31 1" by simp
  moreover have "a AND push_bit k 1 = (if bit a k then push_bit k 1 else 0)" for k
    by (rule bit_word_eqI) (auto simp: bit_simps)
  moreover have "bit a 31 \<longleftrightarrow> 2 ^ 31 \<le> uint a"
  proof -
    have "bit (uint a) 31 \<longleftrightarrow> bit a 31" by (subst bit_uint_iff) simp
    then have "bit a 31 \<longleftrightarrow> odd (uint a div 2 ^ 31)" by (simp only: bit_iff_odd[of "uint a"])
    moreover have "uint a div 2 ^ 31 = (if 2 ^ 31 \<le> uint a then 1 else 0)"
      using uint_u32[of a] div_pos_geq[of "2 ^ 31" "uint a"] div_pos_pos_trivial[of "uint a - 2 ^ 31" "2 ^ 31"]
        div_pos_pos_trivial[of "uint a" "2 ^ 31"] by simp
    ultimately show ?thesis by simp
  qed
  ultimately show ?thesis by metis
qed

lemma low_bits_and: "uint ((a :: u32) AND 0x7fffffff) = uint a mod 2 ^ 31"
proof -
  have "(0x7fffffff :: u32) = mask 31" by (simp add: mask_eq_exp_minus_1)
  then have "a AND 0x7fffffff = take_bit 31 a" by (simp add: take_bit_eq_mask)
  then have "uint (a AND 0x7fffffff) = take_bit 31 (uint a)" by (simp only: unsigned_take_bit_eq)
  then show ?thesis by (simp only: take_bit_eq_mod)
qed

lemma uint_diff_cases: "uint (b - a :: u32) = (if uint a \<le> uint b then uint b - uint a else uint b - uint a + 2 ^ 32)"
  using uint_sub_if'[of b a] by simp

lemma half_range_order:
  assumes "0 \<le> x" "x < 2 ^ 32" "0 \<le> y" "y < (2 ^ 32 :: int)"
  shows "((2 ^ 31 \<le> x) = (2 ^ 31 \<le> y) \<and> x < y
      \<or> (2 ^ 31 \<le> x) \<noteq> (2 ^ 31 \<le> y) \<and> (if 2 ^ 31 \<le> y then y - 2 ^ 31 else y) < (if 2 ^ 31 \<le> x then x - 2 ^ 31 else x))
    = (0 < (if x \<le> y then y - x else y - x + 2 ^ 32) \<and> (if x \<le> y then y - x else y - x + 2 ^ 32) < 2 ^ 31)"
  using assms by (cases "2 ^ 31 \<le> x"; cases "2 ^ 31 \<le> y"; cases "x \<le> y") auto

text \<open>\<open>is_before\<close> orders timestamps across the wrap-around: \<open>a\<close> is before \<open>b\<close> exactly when
  \<open>b\<close> lies less than half the range ahead of \<open>a\<close>.\<close>

theorem is_before_wraps: "is_before a b = (0 < uint (b - a) \<and> uint (b - a) < 2 ^ 31)"
proof -
  have "uint a < 2 ^ 32" "uint b < 2 ^ 32" "0 \<le> uint a" "0 \<le> uint b" using uint_u32[of a] uint_u32[of b] by simp_all
  moreover have "uint x mod 2 ^ 31 = (if 2 ^ 31 \<le> uint x then uint x - 2 ^ 31 else uint x)" for x :: u32
    using uint_u32[of x] minus_mod_self2[of "uint x" "2 ^ 31"] mod_pos_pos_trivial[of "uint x - 2 ^ 31" "2 ^ 31"]
      mod_pos_pos_trivial[of "uint x" "2 ^ 31"] by simp
  moreover have "((if p then 0x80000000 else 0 :: u32) = (if q then 0x80000000 else 0)) = (p = q)" for p q by simp
  ultimately show ?thesis
    unfolding is_before_def top_bit_and uint_diff_cases word_less_def low_bits_and by (simp only: half_range_order)
qed


section \<open>Runs of the tracker\<close>

datatype tracker_event = Report mem nat ReceivePacketInfo | Frame u32 u64

fun tracker_step :: "tracker_event \<Rightarrow> IPMXStreamTimelineTracker \<Rightarrow> IPMXStreamTimelineTracker option" where
  "tracker_step (Report m data info) t = Some (consume_rtcp_packet m data info t)"
| "tracker_step (Frame rtp_ts receiver_timestamp) t = notify_data_frame rtp_ts receiver_timestamp t"

definition run_tracker :: "tracker_event list \<Rightarrow> IPMXStreamTimelineTracker \<Rightarrow> IPMXStreamTimelineTracker option" where
  "run_tracker es t = fold (\<lambda>e r. Option.bind r (tracker_step e)) es (Some t)"

text \<open>The reference: a frame matches a valid report whose timestamp it carries (or lies half the range away, where
  neither is before the other); a run leaves a report and the delays of the frames that matched.\<close>

definition matches_report :: "IPMXSenderReportState \<Rightarrow> u32 \<Rightarrow> bool" where
  "matches_report r rtp_ts \<longleftrightarrow> is_last_report_valid (report_stats r)
     \<and> (rtp_ts = si_rtp_ts (last_report r) \<or> uint (rtp_ts - si_rtp_ts (last_report r)) = 2 ^ 31)"

fun observe :: "tracker_event \<Rightarrow> IPMXSenderReportState \<times> int list \<Rightarrow> IPMXSenderReportState \<times> int list" where
  "observe (Report m data info) (r, ds) = (report_state_update m data info r, ds)"
| "observe (Frame rtp_ts rx) (r, ds) = (r, if matches_report r rtp_ts then ds @ [report_to_data r rx] else ds)"

fun is_frame :: "tracker_event \<Rightarrow> bool" where
  "is_frame (Report m data info) = False"
| "is_frame (Frame rtp_ts rx) = True"

lemma run_tracker_simps:
  "run_tracker [] t = Some t" "run_tracker (es @ [e]) t = Option.bind (run_tracker es t) (tracker_step e)"
  by (simp_all add: run_tracker_def)

lemma rcu_read_update: "rcu_read (rcu_update n v s) = Some v"
  using rcu_cell.get_put .

lemma matches_not_before:
  "matches_report r rtp \<longleftrightarrow> is_last_report_valid (report_stats r) \<and> \<not> is_before (si_rtp_ts (last_report r)) rtp
     \<and> \<not> is_before rtp (si_rtp_ts (last_report r))"
proof -
  let ?a = "uint (rtp - si_rtp_ts (last_report r))" and ?b = "uint (si_rtp_ts (last_report r) - rtp)"
  have ints: "(if x \<le> y then y - x else y - x + 2 ^ 32) = (if (if y \<le> x then x - y else x - y + 2 ^ 32) = 0 then 0
      else 2 ^ 32 - (if y \<le> x then x - y else x - y + 2 ^ 32))"
    if "0 \<le> x" "0 \<le> y" "x < 2 ^ 32" "y < 2 ^ 32" for x y :: int
    using that by auto
  have "?b = (if ?a = 0 then 0 else 2 ^ 32 - ?a)"
    unfolding uint_diff_cases by (rule ints) (simp_all add: uint_u32)
  moreover have "?a = 0 \<longleftrightarrow> rtp = si_rtp_ts (last_report r)" by (simp add: unsigned_eq_0_iff)
  moreover have "?a = 0 \<or> 0 < ?a" using order_le_less[of 0 ?a] by auto
  moreover have "uint rtp < 4294967296" "uint (si_rtp_ts (last_report r)) < 4294967296" by (simp_all add: uint_u32)
  ultimately show ?thesis using uint_u32[of "rtp - si_rtp_ts (last_report r)"]
    unfolding matches_report_def is_before_wraps by auto
qed

text \<open>What the clock statistics say of the delays seen so far.\<close>

definition stats_describe :: "int list \<Rightarrow> nat \<Rightarrow> ClockStats \<Rightarrow> bool" where
  "stats_describe ds frames c \<longleftrightarrow> frames_received c = word_of_nat (length ds)
     \<and> frames_received c + frames_missing_send_report c + frames_bad_rtp_time c = word_of_nat frames
     \<and> (ds \<noteq> [] \<longrightarrow> sender_report_to_data_min c = Min (set ds) \<and> sender_report_to_data_max c = Max (set ds))"

lemma clock_state_update_describes:
  assumes "clock_state_update r rtp rx need s = Some s'" "stats_describe ds frames (clock_stats s)" "length ds < 2 ^ 64"
  shows "stats_describe (snd (observe (Frame rtp rx) (r, ds))) (frames + 1) (clock_stats s')"
proof (cases "matches_report r rtp")
  case False
  then have "(\<not> is_last_report_valid (report_stats r) \<or> is_before (si_rtp_ts (last_report r)) rtp)
      \<or> is_before rtp (si_rtp_ts (last_report r))"
    by (auto simp: matches_not_before)
  then show ?thesis
    using assms(1,2) False by (auto simp: clock_state_update_def stats_describe_def ac_simps split: if_splits)
next
  case True
  let ?c = "clock_stats s" and ?d = "report_to_data r rx"
  have first: "frames_received ?c = 0 \<longleftrightarrow> ds = []"
    using assms(2,3) unat_word_of_nat[of "length ds", where 'a=64] by (auto simp: stats_describe_def word_eq_unat[of _ 0])
  have drift: "frames_received (clock_stats x') = frames_received (clock_stats x)
      \<and> frames_missing_send_report (clock_stats x') = frames_missing_send_report (clock_stats x)
      \<and> frames_bad_rtp_time (clock_stats x') = frames_bad_rtp_time (clock_stats x)
      \<and> sender_report_to_data_min (clock_stats x') = sender_report_to_data_min (clock_stats x)
      \<and> sender_report_to_data_max (clock_stats x') = sender_report_to_data_max (clock_stats x)"
    if "(if need then update_clock_drift x else Some x) = Some x'" for x x'
    using that by (auto simp: update_clock_drift_def bind_eq_Some_conv split: if_splits)
  let ?frame = "\<lparr>tx_rtp_timestamp = rtp, tx_ntp_timestamp = si_ntp_ts (last_report r), rx_timestamp = rx,
      clock_diff = sint (rx - si_ntp_ts (last_report r))\<rparr>"
  define s1 where "s1 = s\<lparr>last_frame := ?frame, clock_stats := ?c\<lparr>frames_received := frames_received ?c + 1\<rparr>\<rparr>"
  define s2 where "s2 = (if ds = [] then s1\<lparr>first_frame := ?frame, prev_stats_frame := ?frame\<rparr> else s1)"
  define s3 where "s3 = (if ?d > sender_report_to_data_max (clock_stats s2) \<or> ds = []
                then s2\<lparr>clock_stats := (clock_stats s2)\<lparr>sender_report_to_data_max := ?d\<rparr>\<rparr> else s2)"
  define s4 where "s4 = (if ?d < sender_report_to_data_min (clock_stats s3) \<or> ds = []
                then s3\<lparr>clock_stats := (clock_stats s3)\<lparr>sender_report_to_data_min := ?d\<rparr>\<rparr> else s3)"
  have "(if need then update_clock_drift s4 else Some s4) = Some s'"
    using assms(1) True unfolding clock_state_update_def matches_not_before s4_def s3_def s2_def s1_def Let_def first
    by (simp only: de_Morgan_disj not_not simp_thms if_False if_True)
  note same = drift[OF this]
  have "frames_received (clock_stats s4) = frames_received ?c + 1"
    "frames_missing_send_report (clock_stats s4) = frames_missing_send_report ?c"
    "frames_bad_rtp_time (clock_stats s4) = frames_bad_rtp_time ?c"
    "sender_report_to_data_max (clock_stats s4) = (if ds = [] then ?d else max (sender_report_to_data_max ?c) ?d)"
    "sender_report_to_data_min (clock_stats s4) = (if ds = [] then ?d else min (sender_report_to_data_min ?c) ?d)"
    by (auto simp: s4_def s3_def s2_def s1_def)
  then show ?thesis
    using same assms(2) True unfolding stats_describe_def by (auto simp: ac_simps)
qed


lemma run_tracker_describes:
  assumes "run_tracker es (IPMXStreamTimelineTracker_new u) = Some t" "length es < 2 ^ 64"
  shows "\<exists>r ds. fold observe es (IPMXSenderReportState_new u, []) = (r, ds) \<and> m_local_report_state t = r
    \<and> rcu_read (m_shared_report_state t) = Some r \<and> rcu_read (m_shared_clock_state t) = Some (m_local_clock_state t)
    \<and> stats_describe ds (length (filter is_frame es)) (clock_stats (m_local_clock_state t)) \<and> length ds \<le> length es"
  using assms
proof (induction es arbitrary: t rule: rev_induct)
  case Nil
  then show ?case
    by (auto simp: run_tracker_simps IPMXStreamTimelineTracker_new_def rcu_cell.get_create stats_describe_def IPMXDataClockState_new_def)
next
  case (snoc e es)
  obtain t0 where t0: "run_tracker es (IPMXStreamTimelineTracker_new u) = Some t0" "tracker_step e t0 = Some t"
    using snoc.prems(1) by (auto simp: run_tracker_simps bind_eq_Some_conv)
  obtain r ds where IH: "fold observe es (IPMXSenderReportState_new u, []) = (r, ds)" "m_local_report_state t0 = r"
    "rcu_read (m_shared_report_state t0) = Some r" "rcu_read (m_shared_clock_state t0) = Some (m_local_clock_state t0)"
    "stats_describe ds (length (filter is_frame es)) (clock_stats (m_local_clock_state t0))" "length ds \<le> length es"
    using snoc.IH[OF t0(1)] snoc.prems(2) by auto
  show ?case
  proof (cases e)
    case (Report m data info)
    then show ?thesis using t0(2) IH by (auto simp: consume_rtcp_packet_def Let_def rcu_read_update split: if_splits)
  next
    case (Frame rtp rx)
    obtain c where c: "clock_state_update r rtp rx (need_update_stats t0) (m_local_clock_state t0) = Some c"
      "m_local_clock_state t = c" "m_local_report_state t = m_local_report_state t0" "m_shared_report_state t = m_shared_report_state t0"
      "rcu_read (m_shared_clock_state t) = Some c"
      using t0(2) IH(3) by (auto simp: Frame notify_data_frame_def Let_def bind_eq_Some_conv rcu_read_update split: if_splits)
    show ?thesis
      using clock_state_update_describes[OF c(1) IH(5)] IH c snoc.prems(2) by (auto simp: Frame)
  qed
qed

text \<open>C30: what the tracker publishes after any sequence of sender reports and frames.  Every
  frame is counted once: as received, without a report or with a wrong timestamp; received are the frames that
  match the last report; and the smallest and largest delay are those of the received frames.\<close>

theorem tracker_statistics:
  assumes "run_tracker es (IPMXStreamTimelineTracker_new u) = Some t" "length es < 2 ^ 64"
    and "fold observe es (IPMXSenderReportState_new u, []) = (r, ds)" "rcu_read (m_shared_clock_state t) = Some c"
  shows "unat (frames_received (clock_stats c)) = length ds
    \<and> unat (frames_received (clock_stats c) + frames_missing_send_report (clock_stats c) + frames_bad_rtp_time (clock_stats c))
      = length (filter is_frame es)
    \<and> (ds \<noteq> [] \<longrightarrow> sender_report_to_data_min (clock_stats c) = Min (set ds) \<and> sender_report_to_data_max (clock_stats c) = Max (set ds))"
proof -
  have d: "stats_describe ds (length (filter is_frame es)) (clock_stats c)" "length ds \<le> length es"
    using run_tracker_describes[OF assms(1,2)] assms(3,4) by auto
  have "unat (frames_received (clock_stats c)) = length ds"
    using d assms(2) by (simp add: stats_describe_def unat_word_of_nat)
  moreover have frames: "frames_received (clock_stats c) + frames_missing_send_report (clock_stats c) + frames_bad_rtp_time (clock_stats c)
      = word_of_nat (length (filter is_frame es))"
    using d(1) unfolding stats_describe_def by blast
  have "length (filter is_frame es) < 2 ^ 64" using assms(2) length_filter_le[of is_frame es] by linarith
  then have "unat (frames_received (clock_stats c) + frames_missing_send_report (clock_stats c) + frames_bad_rtp_time (clock_stats c))
      = length (filter is_frame es)"
    unfolding frames by (intro unat_word_of_nat) simp
  ultimately show ?thesis using d(1) unfolding stats_describe_def by blast
qed

definition example_events :: "tracker_event list" where
  "example_events = [Report (\<lambda>_. 0) 0 \<lparr>sub_block_size_0 = 300, sub_block_size_1 = 0, packet_timestamp = 100\<rparr>, Frame 0 150]"

lemma example_tracker_run:
  "\<exists>t c r. run_tracker example_events (IPMXStreamTimelineTracker_new example_stream_info) = Some t
    \<and> rcu_read (m_shared_clock_state t) = Some c
    \<and> fold observe example_events (IPMXSenderReportState_new example_stream_info, []) = (r, [50])"
proof -
  let ?i = "\<lparr>sub_block_size_0 = 300, sub_block_size_1 = 0, packet_timestamp = 100\<rparr> :: ReceivePacketInfo"
  have zero: "field16 (mem_read (\<lambda>_. 0) 0 sizeof_RTCPCompoundPacket) 112 = 0" "field32 (mem_read (\<lambda>_. 0) 0 sizeof_RTCPCompoundPacket) 16 = 0"
    "field32 (mem_read (\<lambda>_. 0) 0 sizeof_RTCPCompoundPacket) 8 = 0" "field32 (mem_read (\<lambda>_. 0) 0 sizeof_RTCPCompoundPacket) 12 = 0"
    by (simp_all add: field16_def field32_def ipmx_sizes)
  have z: "htonl 0 = 0" "htons 0 = 0" by (simp_all add: htonl_def htons_def)
  define r where "r = report_state_update (\<lambda>_. 0) 0 ?i (IPMXSenderReportState_new example_stream_info)"
  have size: "(sizeof_RTCPCompoundPacket < 300) = False" by (simp add: sizeof_RTCPCompoundPacket_def)
  have r: "is_last_report_valid (report_stats r)" "si_rtp_ts (last_report r) = 0" "last_report_rx_ts (report_stats r) = 100" "si_ntp_ts (last_report r) = 0"
    by (simp_all add: r_def report_state_update_def IPMXSenderReportState_new_def fill_from_rtcp_sr_packet_def Let_def zero z
        IPMX_MIB_TYPE_UNCOMPRESSED_VIDEO_def size)
  let ?t = "consume_rtcp_packet (\<lambda>_. 0) 0 ?i (IPMXStreamTimelineTracker_new example_stream_info)"
  have shared: "rcu_read (m_shared_report_state ?t) = Some r" "m_local_clock_state ?t = IPMXDataClockState_new"
    "m_stats_update_interval_ms ?t = 1000"
    by (simp_all add: consume_rtcp_packet_def Let_def rcu_read_update r_def IPMXStreamTimelineTracker_new_def)
  have need: "\<not> need_update_stats ?t"
    by (simp add: need_update_stats_def shared IPMXDataClockState_new_def FrameTiming_new_def)
  have match: "matches_report r 0" using r by (simp add: matches_report_def)
  obtain c where c: "clock_state_update r 0 150 False IPMXDataClockState_new = Some c"
    using match by (auto simp: clock_state_update_def matches_not_before Let_def)
  have "\<exists>t. run_tracker example_events (IPMXStreamTimelineTracker_new example_stream_info) = Some t \<and> rcu_read (m_shared_clock_state t) = Some c"
    using shared need c by (simp add: run_tracker_def example_events_def notify_data_frame_def Let_def rcu_read_update)
  moreover have "fold observe example_events (IPMXSenderReportState_new example_stream_info, []) = (r, [50])"
    using match r by (simp add: example_events_def r_def[symmetric] report_to_data_def)
  ultimately show ?thesis by blast
qed


theorem tracker_statistics_witness:
  "\<exists>t c. run_tracker example_events (IPMXStreamTimelineTracker_new example_stream_info) = Some t
    \<and> rcu_read (m_shared_clock_state t) = Some c \<and> unat (frames_received (clock_stats c)) = 1
    \<and> sender_report_to_data_min (clock_stats c) = 50"
proof -
  obtain t c r where x: "run_tracker example_events (IPMXStreamTimelineTracker_new example_stream_info) = Some t"
    "rcu_read (m_shared_clock_state t) = Some c"
    "fold observe example_events (IPMXSenderReportState_new example_stream_info, []) = (r, [50])"
    using example_tracker_run by blast
  have "length example_events < 2 ^ 64" by (simp add: example_events_def)
  then show ?thesis using tracker_statistics[OF x(1) _ x(3,2)] x by auto
qed

text \<open>The consumer does not advance its pointer: every packet of a chunk is parsed where the first one lies.\<close>

lemma chunk_parsed_at_first_packet:
  assumes "tag < length ts"
  shows "rtcp_consume_chunk m data [(tag, i), (tag, j)] ts
    = Some (success, 2, ts[tag := consume_rtcp_packet m data j (consume_rtcp_packet m data i (ts ! tag))])"
  using assms by (simp add: rtcp_consume_chunk_def)

end
