(* ===== verification/Send_Stream.thy ===== *)
theory Send_Stream
  imports Receive_Stream Memory_Alloc Media_Defs "HOL-Library.Monad_Syntax"
begin

text \<open>
  The sending side of \<^verbatim>\<open>core/\<close>: the generic and the media chunk (\<^verbatim>\<open>core/chunk\<close>) and the generic and the media
  send stream (\<^verbatim>\<open>core/stream/send\<close>).  The Rivermax calls act on a library state of any type \<open>'l\<close>; they are the
  fields of the records \<open>rmx_output_gen\<close> and \<open>rmx_output_media\<close>, and no law is assumed of them.  The lemmas show
  how a generic stream cuts its memory into packets, in which order it hands out its chunks, when the blocking calls
  return and that a stream is destroyed once the library is no longer busy.
\<close>

section \<open>The library\<close>

text \<open>The calls that build a stream descriptor.\<close>

datatype gen_stream_call =
    rmx_output_gen_init_stream
  | rmx_output_gen_set_local_addr nat
  | rmx_output_gen_set_remote_addr nat
  | rmx_output_gen_set_rate u64 u32 u16
  | rmx_output_gen_set_packets_per_chunk u64

datatype media_stream_call =
    rmx_output_media_init
  | rmx_output_media_set_sdp string
  | rmx_output_media_set_idx_in_sdp u32
  | rmx_output_media_set_packets_per_chunk u64
  | rmx_output_media_set_stride_size nat u64
  | rmx_output_media_set_packets_per_frame u32
  | rmx_output_media_set_pcp u8
  | rmx_output_media_set_dscp u8
  | rmx_output_media_set_ecn u8

record 'l rmx_output_gen =
  RMX_MAX_SUB_BLOCKS_PER_MEM_BLOCK :: nat
  gen_init_chunk_handle :: "u64 \<Rightarrow> 'l \<Rightarrow> nat \<times> 'l"
  gen_append_packet_to_chunk :: "nat \<Rightarrow> rmx_mem_region list \<Rightarrow> 'l \<Rightarrow> rmx_status \<times> 'l"
  gen_get_next_chunk :: "nat \<Rightarrow> 'l \<Rightarrow> rmx_status \<times> 'l"
  gen_clear_chunk_all_options :: "nat \<Rightarrow> 'l \<Rightarrow> 'l"
  gen_set_chunk_option :: "nat \<Rightarrow> nat \<Rightarrow> 'l \<Rightarrow> 'l"
  gen_set_chunk_remote_addr :: "nat \<Rightarrow> nat \<Rightarrow> 'l \<Rightarrow> 'l"
  gen_commit_chunk :: "nat \<Rightarrow> u64 \<Rightarrow> 'l \<Rightarrow> rmx_status \<times> 'l"
  gen_mark_chunk_for_tracking :: "nat \<Rightarrow> u64 \<Rightarrow> 'l \<Rightarrow> rmx_status \<times> 'l"
  gen_poll_for_completion :: "nat \<Rightarrow> 'l \<Rightarrow> rmx_status \<times> 'l"
  gen_get_last_completion :: "nat \<Rightarrow> 'l \<Rightarrow> (u64 \<times> u64) option"
  gen_create_stream :: "gen_stream_call list \<Rightarrow> 'l \<Rightarrow> rmx_status \<times> u64 \<times> 'l"
  gen_destroy_stream :: "u64 \<Rightarrow> 'l \<Rightarrow> rmx_status \<times> 'l"

record 'l rmx_output_media =
  media_init_chunk_handle :: "u64 \<Rightarrow> 'l \<Rightarrow> nat \<times> 'l"
  media_get_next_chunk :: "nat \<Rightarrow> 'l \<Rightarrow> rmx_status \<times> 'l"
  media_get_chunk_strides :: "nat \<Rightarrow> nat \<Rightarrow> 'l \<Rightarrow> nat"
  media_get_chunk_packet_sizes :: "nat \<Rightarrow> nat \<Rightarrow> 'l \<Rightarrow> nat"
  media_set_chunk_option :: "nat \<Rightarrow> nat \<Rightarrow> 'l \<Rightarrow> 'l"
  media_clear_chunk_all_options :: "nat \<Rightarrow> 'l \<Rightarrow> 'l"
  media_commit_chunk :: "nat \<Rightarrow> u64 \<Rightarrow> 'l \<Rightarrow> rmx_status \<times> 'l"
  media_cancel_unsent_chunks :: "nat \<Rightarrow> 'l \<Rightarrow> rmx_status \<times> 'l"
  media_mark_chunk_for_tracking :: "nat \<Rightarrow> u64 \<Rightarrow> 'l \<Rightarrow> rmx_status \<times> 'l"
  media_poll_for_completion :: "nat \<Rightarrow> 'l \<Rightarrow> rmx_status \<times> 'l"
  media_get_last_completion :: "nat \<Rightarrow> 'l \<Rightarrow> (u64 \<times> u64) option"
  media_create_stream :: "media_stream_call list \<Rightarrow> 'l \<Rightarrow> rmx_status \<times> u64 \<times> 'l"
  media_destroy_stream :: "u64 \<Rightarrow> 'l \<Rightarrow> rmx_status \<times> 'l"

section \<open>Status of the calls\<close>

definition next_chunk_status :: "rmx_status \<Rightarrow> ReturnStatus" where
  "next_chunk_status status = (case status of RMX_OK \<Rightarrow> success | RMX_SIGNAL \<Rightarrow> signal_received | RMX_NO_FREE_CHUNK \<Rightarrow> no_free_chunks
     | _ \<Rightarrow> failure)"

definition commit_status :: "rmx_status \<Rightarrow> ReturnStatus" where
  "commit_status status = (case status of RMX_OK \<Rightarrow> success | RMX_SIGNAL \<Rightarrow> signal_received
     | RMX_HW_SEND_QUEUE_IS_FULL \<Rightarrow> hw_send_queue_full | _ \<Rightarrow> failure)"

definition cancel_status :: "rmx_status \<Rightarrow> ReturnStatus" where
  "cancel_status status = (case status of RMX_OK \<Rightarrow> success | RMX_SIGNAL \<Rightarrow> signal_received | _ \<Rightarrow> failure)"

definition mark_status :: "rmx_status \<Rightarrow> ReturnStatus" where
  "mark_status status = (case status of RMX_OK \<Rightarrow> success | _ \<Rightarrow> failure)"

definition poll_status :: "rmx_status \<Rightarrow> ReturnStatus" where
  "poll_status status = (case status of RMX_OK \<Rightarrow> success | RMX_SIGNAL \<Rightarrow> signal_received | RMX_BUSY \<Rightarrow> no_completion | _ \<Rightarrow> failure)"

section \<open>The generic chunk\<close>

type_synonym GenericPacket = "rmx_mem_region list"

record GenericChunk =
  gen_chunk_handle :: nat
  gen_chunk_stream_id :: u64
  m_packets :: "GenericPacket list"

definition GenericChunk_new :: "'l rmx_output_gen \<Rightarrow> u64 \<Rightarrow> nat \<Rightarrow> 'l \<Rightarrow> GenericChunk \<times> 'l" where
  "GenericChunk_new rmx stream_id packets_in_chunk l =
    (let (handle, l) = gen_init_chunk_handle rmx stream_id l
     in (\<lparr>gen_chunk_handle = handle, gen_chunk_stream_id = stream_id,
          m_packets = replicate packets_in_chunk (replicate (RMX_MAX_SUB_BLOCKS_PER_MEM_BLOCK rmx) \<lparr>addr = 0, region_length = 0, mkey = 0\<rparr>)\<rparr>, l))"

definition place_packet :: "nat \<Rightarrow> GenericPacket \<Rightarrow> GenericChunk \<Rightarrow> GenericChunk" where
  "place_packet packet_idx packet c = c\<lparr>m_packets := (m_packets c)[packet_idx := packet]\<rparr>"

fun append_packets :: "'l rmx_output_gen \<Rightarrow> nat \<Rightarrow> GenericPacket list \<Rightarrow> 'l \<Rightarrow> ReturnStatus \<times> 'l" where
  "append_packets rmx handle [] l = (success, l)"
| "append_packets rmx handle (packet # packets) l =
    (let (status, l) = gen_append_packet_to_chunk rmx handle packet l
     in if status \<noteq> RMX_OK then (if status = RMX_SIGNAL then signal_received else failure, l)
        else append_packets rmx handle packets l)"

definition apply_packets_layout :: "'l rmx_output_gen \<Rightarrow> GenericChunk \<Rightarrow> 'l \<Rightarrow> ReturnStatus \<times> 'l" where
  "apply_packets_layout rmx c = append_packets rmx (gen_chunk_handle c) (m_packets c)"

definition gen_chunk_get_next :: "'l rmx_output_gen \<Rightarrow> GenericChunk \<Rightarrow> 'l \<Rightarrow> ReturnStatus \<times> 'l" where
  "gen_chunk_get_next rmx c l = apfst next_chunk_status (gen_get_next_chunk rmx (gen_chunk_handle c) l)"

text \<open>The order in which an unordered set is traversed is an argument.\<close>

definition gen_set_commit_options :: "'l rmx_output_gen \<Rightarrow> nat list \<Rightarrow> GenericChunk \<Rightarrow> 'l \<Rightarrow> 'l" where
  "gen_set_commit_options rmx options c l =
    fold (gen_set_chunk_option rmx (gen_chunk_handle c)) options (gen_clear_chunk_all_options rmx (gen_chunk_handle c) l)"

definition set_dest_address :: "'l rmx_output_gen \<Rightarrow> nat \<Rightarrow> GenericChunk \<Rightarrow> 'l \<Rightarrow> 'l" where
  "set_dest_address rmx address c l = gen_set_chunk_remote_addr rmx (gen_chunk_handle c) address l"

definition gen_chunk_commit :: "'l rmx_output_gen \<Rightarrow> GenericChunk \<Rightarrow> u64 \<Rightarrow> 'l \<Rightarrow> ReturnStatus \<times> 'l" where
  "gen_chunk_commit rmx c t l = apfst commit_status (gen_commit_chunk rmx (gen_chunk_handle c) t l)"

definition gen_chunk_mark :: "'l rmx_output_gen \<Rightarrow> GenericChunk \<Rightarrow> u64 \<Rightarrow> 'l \<Rightarrow> ReturnStatus \<times> 'l" where
  "gen_chunk_mark rmx c token l = apfst mark_status (gen_mark_chunk_for_tracking rmx (gen_chunk_handle c) token l)"

definition gen_chunk_poll :: "'l rmx_output_gen \<Rightarrow> GenericChunk \<Rightarrow> 'l \<Rightarrow> ReturnStatus \<times> 'l" where
  "gen_chunk_poll rmx c l = apfst poll_status (gen_poll_for_completion rmx (gen_chunk_handle c) l)"

text \<open>The completion, as time stamp and user token.\<close>

definition gen_chunk_last_completion :: "'l rmx_output_gen \<Rightarrow> GenericChunk \<Rightarrow> 'l \<Rightarrow> (u64 \<times> u64) option" where
  "gen_chunk_last_completion rmx c l = gen_get_last_completion rmx (gen_chunk_handle c) l"

section \<open>The media chunk\<close>

record MediaChunk =
  media_chunk_handle :: nat
  media_chunk_length :: u64
  media_chunk_hds_on :: bool
  media_chunk_stream_id :: u64

definition MediaChunk_new :: "'l rmx_output_media \<Rightarrow> u64 \<Rightarrow> u64 \<Rightarrow> bool \<Rightarrow> 'l \<Rightarrow> MediaChunk \<times> 'l" where
  "MediaChunk_new rmx stream_id packets_in_chunk use_hds l =
    (let (handle, l) = media_init_chunk_handle rmx stream_id l
     in (\<lparr>media_chunk_handle = handle, media_chunk_length = packets_in_chunk, media_chunk_hds_on = use_hds,
          media_chunk_stream_id = stream_id\<rparr>, l))"

definition media_chunk_get_next :: "'l rmx_output_media \<Rightarrow> MediaChunk \<Rightarrow> 'l \<Rightarrow> ReturnStatus \<times> 'l" where
  "media_chunk_get_next rmx c l = apfst next_chunk_status (media_get_next_chunk rmx (media_chunk_handle c) l)"

definition get_data_ptr :: "'l rmx_output_media \<Rightarrow> MediaChunk \<Rightarrow> 'l \<Rightarrow> nat" where
  "get_data_ptr rmx c l = media_get_chunk_strides rmx (media_chunk_handle c) (if media_chunk_hds_on c then 1 else 0) l"

definition get_app_hdr_ptr :: "'l rmx_output_media \<Rightarrow> MediaChunk \<Rightarrow> 'l \<Rightarrow> nat" where
  "get_app_hdr_ptr rmx c l = (if media_chunk_hds_on c then media_get_chunk_strides rmx (media_chunk_handle c) 0 l else 0)"

definition get_data_sizes_array :: "'l rmx_output_media \<Rightarrow> MediaChunk \<Rightarrow> 'l \<Rightarrow> nat" where
  "get_data_sizes_array rmx c l = media_get_chunk_packet_sizes rmx (media_chunk_handle c) (if media_chunk_hds_on c then 1 else 0) l"

definition get_app_hdr_sizes_array :: "'l rmx_output_media \<Rightarrow> MediaChunk \<Rightarrow> 'l \<Rightarrow> nat" where
  "get_app_hdr_sizes_array rmx c l = (if media_chunk_hds_on c then media_get_chunk_packet_sizes rmx (media_chunk_handle c) 0 l else 0)"

definition set_commit_option :: "'l rmx_output_media \<Rightarrow> nat \<Rightarrow> MediaChunk \<Rightarrow> 'l \<Rightarrow> 'l" where
  "set_commit_option rmx option c l = media_set_chunk_option rmx (media_chunk_handle c) option l"

text \<open>As it is written, \<open>clear_commit_option\<close> sets the option.\<close>

definition clear_commit_option :: "'l rmx_output_media \<Rightarrow> nat \<Rightarrow> MediaChunk \<Rightarrow> 'l \<Rightarrow> 'l" where
  "clear_commit_option rmx option c l = media_set_chunk_option rmx (media_chunk_handle c) option l"

definition clear_all_commit_options :: "'l rmx_output_media \<Rightarrow> MediaChunk \<Rightarrow> 'l \<Rightarrow> 'l" where
  "clear_all_commit_options rmx c l = media_clear_chunk_all_options rmx (media_chunk_handle c) l"

definition media_chunk_commit :: "'l rmx_output_media \<Rightarrow> MediaChunk \<Rightarrow> u64 \<Rightarrow> 'l \<Rightarrow> ReturnStatus \<times> 'l" where
  "media_chunk_commit rmx c t l = apfst commit_status (media_commit_chunk rmx (media_chunk_handle c) t l)"

definition cancel_unsent :: "'l rmx_output_media \<Rightarrow> MediaChunk \<Rightarrow> 'l \<Rightarrow> ReturnStatus \<times> 'l" where
  "cancel_unsent rmx c l = apfst cancel_status (media_cancel_unsent_chunks rmx (media_chunk_handle c) l)"

definition media_chunk_mark :: "'l rmx_output_media \<Rightarrow> MediaChunk \<Rightarrow> u64 \<Rightarrow> 'l \<Rightarrow> ReturnStatus \<times> 'l" where
  "media_chunk_mark rmx c token l = apfst mark_status (media_mark_chunk_for_tracking rmx (media_chunk_handle c) token l)"

definition media_chunk_poll :: "'l rmx_output_media \<Rightarrow> MediaChunk \<Rightarrow> 'l \<Rightarrow> ReturnStatus \<times> 'l" where
  "media_chunk_poll rmx c l = apfst poll_status (media_poll_for_completion rmx (media_chunk_handle c) l)"

definition media_chunk_last_completion :: "'l rmx_output_media \<Rightarrow> MediaChunk \<Rightarrow> 'l \<Rightarrow> (u64 \<times> u64) option" where
  "media_chunk_last_completion rmx c l = media_get_last_completion rmx (media_chunk_handle c) l"


section \<open>Blocking calls\<close>

text \<open>The loop \<open>do { status = attempt } while (status == again && retries--)\<close> of the blocking calls.\<close>

fun retry_while :: "ReturnStatus \<Rightarrow> ('s \<Rightarrow> (ReturnStatus \<times> 's) option) \<Rightarrow> nat \<Rightarrow> 's \<Rightarrow> (ReturnStatus \<times> 's) option" where
  "retry_while again attempt retries s = do {
     (status, s) \<leftarrow> attempt s;
     (case retries of
        0 \<Rightarrow> Some (status, s)
      | Suc n \<Rightarrow> if status = again then retry_while again attempt n s else Some (status, s)) }"

declare retry_while.simps [simp del]

definition BLOCKING_COMMIT_RETRIES :: nat where "BLOCKING_COMMIT_RETRIES = 1000000"
definition BLOCKING_CHUNK_RETRIES :: nat where "BLOCKING_CHUNK_RETRIES = 1000000"

text \<open>\<open>destroy_stream\<close> asks the library until it is no longer busy.\<close>

partial_function (option) destroy_loop :: "('l \<Rightarrow> rmx_status \<times> 'l) \<Rightarrow> 'l \<Rightarrow> (rmx_status \<times> 'l) option" where
  "destroy_loop destroy l =
    (case destroy l of (status, l') \<Rightarrow> if status = RMX_BUSY then destroy_loop destroy l' else Some (status, l'))"

section \<open>The generic stream\<close>

record GenericStreamSettings =
  m_source_address :: nat
  m_destination_address :: nat
  m_fixed_dest_addr :: bool
  m_pp_rate :: PacketPacingRate
  m_num_of_requested_chunks :: u64
  m_num_of_packets_in_chunk :: u64
  m_packet_typical_payload_size :: u16
  m_packet_typical_app_header_size :: u16

definition gen_stream_param_set_remote_addr :: "GenericStreamSettings \<Rightarrow> gen_stream_call list" where
  "gen_stream_param_set_remote_addr s =
    (if m_fixed_dest_addr s then [rmx_output_gen_set_remote_addr (m_destination_address s)] else [])"

definition gen_stream_param_set_rate :: "GenericStreamSettings \<Rightarrow> gen_stream_call list" where
  "gen_stream_param_set_rate s =
    (if bps (m_pp_rate s) \<noteq> 0
     then [rmx_output_gen_set_rate (bps (m_pp_rate s)) (max_burst_in_packets (m_pp_rate s)) (m_packet_typical_payload_size s)] else [])"

definition gen_build :: "GenericStreamSettings \<Rightarrow> gen_stream_call list" where
  "gen_build s = [rmx_output_gen_init_stream] @ [rmx_output_gen_set_local_addr (m_source_address s)]
     @ gen_stream_param_set_remote_addr s @ gen_stream_param_set_rate s
     @ [rmx_output_gen_set_packets_per_chunk (m_num_of_packets_in_chunk s)]"

record GenericSendStream =
  m_gen_settings :: GenericStreamSettings
  m_gen_stream_params :: "gen_stream_call list"
  m_gen_num_of_chunks :: u64
  m_chunks :: "GenericChunk list"
  m_next_chunk_to_send_index :: u64
  m_header_buffer_size :: u64
  m_payload_buffer_size :: u64
  m_gen_stream_created :: bool
  m_gen_stream_id :: u64

definition gen_initialize_memory_layout :: "GenericSendStream \<Rightarrow> ReturnStatus \<times> GenericSendStream" where
  "gen_initialize_memory_layout s =
    (success, s\<lparr>m_header_buffer_size := m_gen_num_of_chunks s * m_num_of_packets_in_chunk (m_gen_settings s)
                   * ucast (m_packet_typical_app_header_size (m_gen_settings s)),
                m_payload_buffer_size := m_gen_num_of_chunks s * m_num_of_packets_in_chunk (m_gen_settings s)
                   * ucast (m_packet_typical_payload_size (m_gen_settings s))\<rparr>)"

definition GenericSendStream_new :: "GenericStreamSettings \<Rightarrow> GenericSendStream" where
  "GenericSendStream_new settings =
    snd (gen_initialize_memory_layout
      \<lparr>m_gen_settings = settings, m_gen_stream_params = gen_build settings, m_gen_num_of_chunks = m_num_of_requested_chunks settings,
       m_chunks = [], m_next_chunk_to_send_index = 0, m_header_buffer_size = 0, m_payload_buffer_size = 0,
       m_gen_stream_created = False, m_gen_stream_id = 0\<rparr>)"

definition get_header_memory_length :: "GenericSendStream \<Rightarrow> u64" where
  "get_header_memory_length s = m_header_buffer_size s"

definition get_payload_memory_length :: "GenericSendStream \<Rightarrow> u64" where
  "get_payload_memory_length s = m_payload_buffer_size s"

definition get_memory_length :: "GenericSendStream \<Rightarrow> u64" where
  "get_memory_length s = get_header_memory_length s + get_payload_memory_length s"

definition gen_determine_memory_layout :: "GenericSendStream \<Rightarrow> ReturnStatus \<times> u64 \<times> u64" where
  "gen_determine_memory_layout s = (success, get_header_memory_length s, get_payload_memory_length s)"

text \<open>An index out of the vector of chunks, or a division by zero chunks, is undefined.\<close>

definition gen_stream_get_next_chunk ::
  "'l rmx_output_gen \<Rightarrow> GenericSendStream \<times> 'l \<Rightarrow> (ReturnStatus \<times> GenericSendStream \<times> 'l) option" where
  "gen_stream_get_next_chunk rmx = (\<lambda>(s, l).
    if unat (m_next_chunk_to_send_index s) < length (m_chunks s)
    then
      let (status, l) = gen_chunk_get_next rmx (m_chunks s ! unat (m_next_chunk_to_send_index s)) l
      in if status = success
         then if m_gen_num_of_chunks s = 0 then None
              else Some (status, s\<lparr>m_next_chunk_to_send_index := (m_next_chunk_to_send_index s + 1) mod m_gen_num_of_chunks s\<rparr>, l)
         else Some (status, s, l)
    else None)"

definition gen_blocking_get_next_chunk ::
  "'l rmx_output_gen \<Rightarrow> nat \<Rightarrow> GenericSendStream \<times> 'l \<Rightarrow> (ReturnStatus \<times> GenericSendStream \<times> 'l) option" where
  "gen_blocking_get_next_chunk rmx = retry_while no_free_chunks (gen_stream_get_next_chunk rmx)"

definition gen_stream_commit_chunk :: "'l rmx_output_gen \<Rightarrow> GenericChunk \<Rightarrow> u64 \<Rightarrow> 'l \<Rightarrow> ReturnStatus \<times> 'l" where
  "gen_stream_commit_chunk rmx chunk t l = gen_chunk_commit rmx chunk t l"

definition gen_blocking_commit_chunk ::
  "'l rmx_output_gen \<Rightarrow> GenericChunk \<Rightarrow> u64 \<Rightarrow> nat \<Rightarrow> 'l \<Rightarrow> (ReturnStatus \<times> 'l) option" where
  "gen_blocking_commit_chunk rmx chunk t = retry_while hw_send_queue_full (\<lambda>l. Some (gen_stream_commit_chunk rmx chunk t l))"

text \<open>The loops over the sub-blocks of a packet, the packets of a chunk and the chunks of a stream.  Every packet
  of a chunk is replaced by the packet of its index.\<close>

fun place_sub_blocks :: "rmx_mem_region \<Rightarrow> u16 list \<Rightarrow> u64 \<Rightarrow> GenericPacket \<times> u64" where
  "place_sub_blocks region [] mem_offset = ([], mem_offset)"
| "place_sub_blocks region (len # lens) mem_offset =
    (let (blocks, mem_offset') = place_sub_blocks region lens (mem_offset + ucast len)
     in (\<lparr>addr = addr region + mem_offset, region_length = ucast len, mkey = mkey region\<rparr> # blocks, mem_offset'))"

definition place_split_packet ::
  "rmx_mem_region \<Rightarrow> rmx_mem_region \<Rightarrow> u16 \<Rightarrow> u16 \<Rightarrow> u64 \<times> u64 \<Rightarrow> GenericPacket \<times> u64 \<times> u64" where
  "place_split_packet header_region payload_region header_size payload_size = (\<lambda>(header_mem_offset, payload_mem_offset).
    ([\<lparr>addr = addr header_region + header_mem_offset, region_length = ucast header_size, mkey = mkey header_region\<rparr>,
      \<lparr>addr = addr payload_region + payload_mem_offset, region_length = ucast payload_size, mkey = mkey payload_region\<rparr>],
     header_mem_offset + ucast header_size, payload_mem_offset + ucast payload_size))"

fun place_packets :: "('o \<Rightarrow> GenericPacket \<times> 'o) \<Rightarrow> nat \<Rightarrow> nat \<Rightarrow> GenericChunk \<times> 'o \<Rightarrow> GenericChunk \<times> 'o" where
  "place_packets place packet_idx 0 (c, offset) = (c, offset)"
| "place_packets place packet_idx (Suc n) (c, offset) =
    (let (packet, offset) = place offset in place_packets place (packet_idx + 1) n (place_packet packet_idx packet c, offset))"

fun place_chunks :: "'l rmx_output_gen \<Rightarrow> ('o \<Rightarrow> GenericPacket \<times> 'o) \<Rightarrow> nat \<Rightarrow> 'o \<Rightarrow> GenericSendStream \<times> 'l \<Rightarrow> GenericSendStream \<times> 'l" where
  "place_chunks rmx place 0 offset (s, l) = (s, l)"
| "place_chunks rmx place (Suc n) offset (s, l) =
    (let packets = unat (m_num_of_packets_in_chunk (m_gen_settings s));
         (c, l) = GenericChunk_new rmx (m_gen_stream_id s) packets l;
         (c, offset) = place_packets place 0 packets (c, offset)
     in place_chunks rmx place n offset (s\<lparr>m_chunks := m_chunks s @ [c]\<rparr>, l))"

definition sub_block_lengths :: "GenericStreamSettings \<Rightarrow> u16 list" where
  "sub_block_lengths t =
    (if m_packet_typical_app_header_size t \<noteq> 0 then [m_packet_typical_app_header_size t, m_packet_typical_payload_size t]
     else [m_packet_typical_payload_size t])"

definition initialize_chunks :: "'l rmx_output_gen \<Rightarrow> rmx_mem_region \<Rightarrow> GenericSendStream \<times> 'l \<Rightarrow> ReturnStatus \<times> GenericSendStream \<times> 'l" where
  "initialize_chunks rmx mem_region = (\<lambda>(s, l).
    if \<not> m_gen_stream_created s then (failure, s, l)
    else (success, place_chunks rmx (place_sub_blocks mem_region (sub_block_lengths (m_gen_settings s)))
            (unat (m_gen_num_of_chunks s)) 0 (s, l)))"

definition initialize_chunks_split ::
  "'l rmx_output_gen \<Rightarrow> rmx_mem_region \<Rightarrow> rmx_mem_region \<Rightarrow> GenericSendStream \<times> 'l \<Rightarrow> ReturnStatus \<times> GenericSendStream \<times> 'l" where
  "initialize_chunks_split rmx header_region payload_region = (\<lambda>(s, l).
    if \<not> m_gen_stream_created s then (failure, s, l)
    else (success, place_chunks rmx (place_split_packet header_region payload_region
              (m_packet_typical_app_header_size (m_gen_settings s)) (m_packet_typical_payload_size (m_gen_settings s)))
            (unat (m_gen_num_of_chunks s)) (0, 0) (s, l)))"

definition gen_validate_memory_layout :: "HeaderPayloadMemoryLayout \<Rightarrow> GenericSendStream \<Rightarrow> ReturnStatus" where
  "gen_validate_memory_layout l s =
    (if \<not> register_memory l then failure
     else if length (header_memory_keys l) \<noteq> 1 \<or> length (payload_memory_keys l) \<noteq> 1 then failure
     else if header_memory_size l > 0
     then (if header_memory_size l < get_header_memory_length s \<or> payload_memory_size l < get_payload_memory_length s
           then failure else success)
     else (if payload_memory_size l < get_memory_length s then failure else success))"

definition gen_apply_memory_layout ::
  "'l rmx_output_gen \<Rightarrow> HeaderPayloadMemoryLayout \<Rightarrow> GenericSendStream \<times> 'l \<Rightarrow> ReturnStatus \<times> GenericSendStream \<times> 'l" where
  "gen_apply_memory_layout rmx layout = (\<lambda>(s, l).
    let status = gen_validate_memory_layout layout s
    in if status \<noteq> success then (status, s, l)
       else if header_memory_size layout > 0
       then initialize_chunks_split rmx
              \<lparr>addr = header_memory_ptr layout, region_length = header_memory_size layout, mkey = header_memory_keys layout ! 0\<rparr>
              \<lparr>addr = payload_memory_ptr layout, region_length = payload_memory_size layout, mkey = payload_memory_keys layout ! 0\<rparr> (s, l)
       else initialize_chunks rmx
              \<lparr>addr = payload_memory_ptr layout, region_length = payload_memory_size layout, mkey = payload_memory_keys layout ! 0\<rparr> (s, l))"

definition gen_stream_create :: "'l rmx_output_gen \<Rightarrow> GenericSendStream \<times> 'l \<Rightarrow> ReturnStatus \<times> GenericSendStream \<times> 'l" where
  "gen_stream_create rmx = (\<lambda>(s, l).
    let (status, stream_id, l) = gen_create_stream rmx (m_gen_stream_params s) l
    in if status \<noteq> RMX_OK then (failure, s\<lparr>m_gen_stream_id := stream_id\<rparr>, l)
       else (success, s\<lparr>m_gen_stream_id := stream_id, m_gen_stream_created := True\<rparr>, l))"

definition gen_stream_destroy :: "'l rmx_output_gen \<Rightarrow> GenericSendStream \<times> 'l \<Rightarrow> (ReturnStatus \<times> GenericSendStream \<times> 'l) option" where
  "gen_stream_destroy rmx = (\<lambda>(s, l).
    if \<not> m_gen_stream_created s then Some (failure, s, l)
    else map_option (\<lambda>(status, l). if status \<noteq> RMX_OK then (failure, s, l) else (success, s\<lparr>m_gen_stream_created := False\<rparr>, l))
           (destroy_loop (gen_destroy_stream rmx (m_gen_stream_id s)) l))"


section \<open>The media stream\<close>

record MediaStreamSettings =
  mss_local_address :: nat
  mss_media_settings :: MediaSettings
  mss_packets_per_chunk :: u64
  mss_packet_payload_size :: u16
  mss_data_stride_size :: u64
  mss_app_header_stride_size :: u64
  mss_dscp :: u8
  mss_pcp :: u8
  mss_ecn :: u8

definition media_stream_param_set_stride_sizes :: "MediaStreamSettings \<Rightarrow> media_stream_call list" where
  "media_stream_param_set_stride_sizes s =
    (if mss_app_header_stride_size s \<noteq> 0 then [rmx_output_media_set_stride_size 0 (mss_app_header_stride_size s)] else [])
     @ [rmx_output_media_set_stride_size (if mss_app_header_stride_size s \<noteq> 0 then 1 else 0) (mss_data_stride_size s)]"

definition media_build :: "MediaStreamSettings \<Rightarrow> media_stream_call list" where
  "media_build s = [rmx_output_media_init]
     @ [rmx_output_media_set_sdp (sdp (mss_media_settings s)), rmx_output_media_set_idx_in_sdp (media_block_index (mss_media_settings s))]
     @ [rmx_output_media_set_packets_per_chunk (mss_packets_per_chunk s)]
     @ media_stream_param_set_stride_sizes s
     @ [rmx_output_media_set_packets_per_frame (packets_in_frame_field (mss_media_settings s))]
     @ [rmx_output_media_set_pcp (mss_pcp s)] @ [rmx_output_media_set_dscp (mss_dscp s)] @ [rmx_output_media_set_ecn (mss_ecn s)]"

text \<open>The memory blocks: the regions of the sub-blocks, plain or with the keys of both paths of a redundant stream,
  and the arrays of packet sizes.  What the library's initialisation leaves in a region is \<open>None\<close>.\<close>

record media_mem_block =
  block_regions :: "rmx_mem_region option list"
  block_dup_regions :: "(u64 \<times> u64 \<times> u32 list) option list"
  block_layouts :: "u16 list option list"
  block_chunk_count :: u64

record MediaStreamMemBlockset =
  m_blocks :: "media_mem_block list"
  m_sub_block_count :: nat
  m_chunks_per_block :: u64

definition MediaStreamMemBlockset_new :: "nat \<Rightarrow> nat \<Rightarrow> u64 \<Rightarrow> MediaStreamMemBlockset" where
  "MediaStreamMemBlockset_new block_count sub_block_count chunks_per_block =
    \<lparr>m_blocks = replicate block_count \<lparr>block_regions = replicate sub_block_count None, block_dup_regions = replicate sub_block_count None,
       block_layouts = replicate sub_block_count None, block_chunk_count = chunks_per_block\<rparr>,
     m_sub_block_count = sub_block_count, m_chunks_per_block = chunks_per_block\<rparr>"

definition set_block_memory :: "nat \<Rightarrow> nat \<Rightarrow> u64 \<Rightarrow> u64 \<Rightarrow> u32 \<Rightarrow> MediaStreamMemBlockset \<Rightarrow> MediaStreamMemBlockset option" where
  "set_block_memory idx sub_block_idx start len memory_key b =
    (if idx < length (m_blocks b) \<and> sub_block_idx < m_sub_block_count b
     then let block = m_blocks b ! idx
          in Some (b\<lparr>m_blocks := (m_blocks b)[idx := block\<lparr>block_regions :=
                 (block_regions block)[sub_block_idx := Some \<lparr>addr = start, region_length = len, mkey = memory_key\<rparr>]\<rparr>]\<rparr>)
     else None)"

definition set_rivermax_to_allocate_memory :: "u32 \<Rightarrow> MediaStreamMemBlockset \<Rightarrow> MediaStreamMemBlockset option" where
  "set_rivermax_to_allocate_memory mkey_invalid b =
    fold (\<lambda>block_idx r. fold (\<lambda>sub_block_idx r. Option.bind r (set_block_memory block_idx sub_block_idx 0 0 mkey_invalid))
        [0..<m_sub_block_count b] r) [0..<length (m_blocks b)] (Some b)"

definition set_dup_block_memory :: "nat \<Rightarrow> nat \<Rightarrow> u64 \<Rightarrow> u64 \<Rightarrow> u32 list \<Rightarrow> MediaStreamMemBlockset \<Rightarrow> MediaStreamMemBlockset option" where
  "set_dup_block_memory idx sub_block_idx start len memory_keys b =
    (if idx < length (m_blocks b) \<and> sub_block_idx < m_sub_block_count b
     then let block = m_blocks b ! idx
          in Some (b\<lparr>m_blocks := (m_blocks b)[idx := block\<lparr>block_dup_regions :=
                 (block_dup_regions block)[sub_block_idx := Some (start, len, memory_keys)]\<rparr>]\<rparr>)
     else None)"

definition set_block_layout :: "nat \<Rightarrow> u16 list \<Rightarrow> u16 list option \<Rightarrow> MediaStreamMemBlockset \<Rightarrow> (ReturnStatus \<times> MediaStreamMemBlockset) option" where
  "set_block_layout idx data_sizes app_header_sizes b =
    (if m_sub_block_count b < 2 \<and> app_header_sizes \<noteq> None then Some (failure, b)
     else if idx < length (m_blocks b)
     then
       let block = m_blocks b ! idx;
           layouts = (if m_sub_block_count b < 2 then (block_layouts block)[0 := Some data_sizes]
                      else (block_layouts block)[0 := app_header_sizes, 1 := Some data_sizes])
       in Some (success, b\<lparr>m_blocks := (m_blocks b)[idx := block\<lparr>block_layouts := layouts\<rparr>]\<rparr>)
     else None)"

record MediaSendStream =
  m_media_stream_settings :: MediaStreamSettings
  m_media_stream_params :: "media_stream_call list"
  m_assigned_blocks :: "MediaStreamMemBlockset option"
  m_media_num_of_chunks :: u64
  m_media_stream_created :: bool
  m_media_stream_id :: u64

definition assign_memory_blocks :: "MediaStreamMemBlockset \<Rightarrow> MediaSendStream \<Rightarrow> MediaSendStream" where
  "assign_memory_blocks mem_blocks s = s\<lparr>m_media_num_of_chunks := word_of_nat (length (m_blocks mem_blocks)) * m_chunks_per_block mem_blocks,
     m_assigned_blocks := Some mem_blocks\<rparr>"

definition MediaSendStream_new :: "MediaStreamSettings \<Rightarrow> MediaSendStream" where
  "MediaSendStream_new settings = \<lparr>m_media_stream_settings = settings, m_media_stream_params = media_build settings,
     m_assigned_blocks = None, m_media_num_of_chunks = 0, m_media_stream_created = False, m_media_stream_id = 0\<rparr>"

definition MediaSendStream_with_blocks :: "MediaStreamSettings \<Rightarrow> MediaStreamMemBlockset \<Rightarrow> MediaSendStream" where
  "MediaSendStream_with_blocks settings mem_blocks = assign_memory_blocks mem_blocks (MediaSendStream_new settings)"

definition media_validate_memory_layout :: "MediaStreamMemBlockset \<Rightarrow> MediaSendStream \<Rightarrow> ReturnStatus" where
  "media_validate_memory_layout mem_blocks s = success"

definition media_apply_memory_layout :: "MediaStreamMemBlockset \<Rightarrow> MediaSendStream \<Rightarrow> ReturnStatus \<times> MediaSendStream" where
  "media_apply_memory_layout mem_blocks s =
    (let status = media_validate_memory_layout mem_blocks s
     in if status \<noteq> success then (status, s) else (success, assign_memory_blocks mem_blocks s))"

definition media_stream_create :: "'l rmx_output_media \<Rightarrow> MediaSendStream \<times> 'l \<Rightarrow> ReturnStatus \<times> MediaSendStream \<times> 'l" where
  "media_stream_create rmx = (\<lambda>(s, l).
    let (status, stream_id, l) = media_create_stream rmx (m_media_stream_params s) l
    in if status \<noteq> RMX_OK then (failure, s\<lparr>m_media_stream_id := stream_id\<rparr>, l)
       else (success, s\<lparr>m_media_stream_id := stream_id, m_media_stream_created := True\<rparr>, l))"

definition media_stream_destroy :: "'l rmx_output_media \<Rightarrow> MediaSendStream \<times> 'l \<Rightarrow> (ReturnStatus \<times> MediaSendStream \<times> 'l) option" where
  "media_stream_destroy rmx = (\<lambda>(s, l).
    if \<not> m_media_stream_created s then Some (failure, s, l)
    else map_option (\<lambda>(status, l). if status \<noteq> RMX_OK then (failure, s, l) else (success, s\<lparr>m_media_stream_created := False\<rparr>, l))
           (destroy_loop (media_destroy_stream rmx (m_media_stream_id s)) l))"

definition media_stream_get_next_chunk :: "'l rmx_output_media \<Rightarrow> MediaChunk \<Rightarrow> 'l \<Rightarrow> ReturnStatus \<times> 'l" where
  "media_stream_get_next_chunk rmx chunk l = media_chunk_get_next rmx chunk l"

definition media_blocking_get_next_chunk :: "'l rmx_output_media \<Rightarrow> MediaChunk \<Rightarrow> nat \<Rightarrow> 'l \<Rightarrow> (ReturnStatus \<times> 'l) option" where
  "media_blocking_get_next_chunk rmx chunk = retry_while no_free_chunks (\<lambda>l. Some (media_stream_get_next_chunk rmx chunk l))"

definition media_stream_commit_chunk :: "'l rmx_output_media \<Rightarrow> MediaChunk \<Rightarrow> u64 \<Rightarrow> 'l \<Rightarrow> ReturnStatus \<times> 'l" where
  "media_stream_commit_chunk rmx chunk t l = media_chunk_commit rmx chunk t l"

definition media_blocking_commit_chunk :: "'l rmx_output_media \<Rightarrow> MediaChunk \<Rightarrow> u64 \<Rightarrow> nat \<Rightarrow> 'l \<Rightarrow> (ReturnStatus \<times> 'l) option" where
  "media_blocking_commit_chunk rmx chunk t = retry_while hw_send_queue_full (\<lambda>l. Some (media_stream_commit_chunk rmx chunk t l))"

definition cancel_unsent_chunks :: "'l rmx_output_media \<Rightarrow> MediaChunk \<Rightarrow> 'l \<Rightarrow> ReturnStatus \<times> 'l" where
  "cancel_unsent_chunks rmx chunk l = cancel_unsent rmx chunk l"

section \<open>The blocking calls return\<close>

text \<open>The outcome of the first attempts: after \<open>k\<close> attempts that ask to try again.\<close>

fun attempt_after :: "ReturnStatus \<Rightarrow> ('s \<Rightarrow> ReturnStatus \<times> 's) \<Rightarrow> nat \<Rightarrow> 's \<Rightarrow> (ReturnStatus \<times> 's) option" where
  "attempt_after again f 0 s = Some (f s)"
| "attempt_after again f (Suc k) s = (if fst (f s) = again then attempt_after again f k (snd (f s)) else None)"

lemma retry_while_returns:
  "\<exists>k status s'. retry_while again (\<lambda>s. Some (f s)) retries s = Some (status, s') \<and> k \<le> retries
    \<and> attempt_after again f k s = Some (status, s') \<and> (status = again \<longrightarrow> k = retries)"
proof (induction retries arbitrary: s)
  case 0
  show ?case by (rule exI[of _ 0], cases "f s") (simp add: retry_while.simps)
next
  case (Suc n)
  obtain st s1 where f: "f s = (st, s1)" by fastforce
  show ?case
  proof (cases "st = again")
    case True
    obtain k status s' where k: "retry_while again (\<lambda>s. Some (f s)) n s1 = Some (status, s')" "k \<le> n"
      "attempt_after again f k s1 = Some (status, s')" "status = again \<longrightarrow> k = n"
      using Suc.IH[of s1] by blast
    then have "retry_while again (\<lambda>s. Some (f s)) (Suc n) s = Some (status, s') \<and> Suc k \<le> Suc n
        \<and> attempt_after again f (Suc k) s = Some (status, s') \<and> (status = again \<longrightarrow> Suc k = Suc n)"
      using True f by (simp add: retry_while.simps[of again _ "Suc n"])
    then show ?thesis by blast
  next
    case False
    then have "retry_while again (\<lambda>s. Some (f s)) (Suc n) s = Some (st, s1) \<and> attempt_after again f 0 s = Some (st, s1)"
      using f by (simp add: retry_while.simps[of again _ "Suc n"])
    then show ?thesis using False by blast
  qed
qed

text \<open>The blocking commit of a media stream ends.  It returns the status of an attempt
  which comes after at most \<open>retries\<close> attempts that found the queue of the hardware full, and it reports a full
  queue only when the retries are used up.\<close>

theorem blocking_commit_returns:
  "\<exists>k status l'. media_blocking_commit_chunk rmx chunk t retries l = Some (status, l') \<and> k \<le> retries
    \<and> attempt_after hw_send_queue_full (media_stream_commit_chunk rmx chunk t) k l = Some (status, l')
    \<and> (status = hw_send_queue_full \<longrightarrow> k = retries)"
  unfolding media_blocking_commit_chunk_def by (rule retry_while_returns)

lemma destroy_loop_ends:
  assumes "(\<And>i. i < k \<Longrightarrow> fst (destroy (((snd \<circ> destroy) ^^ i) l)) = RMX_BUSY)"
    and "fst (destroy (((snd \<circ> destroy) ^^ k) l)) \<noteq> RMX_BUSY"
  shows "destroy_loop destroy l = Some (destroy (((snd \<circ> destroy) ^^ k) l))"
  using assms
proof (induction k arbitrary: l)
  case 0
  then show ?case by (subst destroy_loop.simps) (simp add: case_prod_beta)
next
  case (Suc k)
  have busy: "fst (destroy l) = RMX_BUSY" using Suc.prems(1)[of 0] by simp
  have shift: "((snd \<circ> destroy) ^^ i) (snd (destroy l)) = ((snd \<circ> destroy) ^^ Suc i) l" for i
    by (simp add: funpow_Suc_right del: funpow.simps)
  have "destroy_loop destroy (snd (destroy l)) = Some (destroy (((snd \<circ> destroy) ^^ k) (snd (destroy l))))"
  proof (rule Suc.IH)
    show "fst (destroy (((snd \<circ> destroy) ^^ i) (snd (destroy l)))) = RMX_BUSY" if "i < k" for i
      unfolding shift by (rule Suc.prems(1)) (use that in simp)
    show "fst (destroy (((snd \<circ> destroy) ^^ k) (snd (destroy l)))) \<noteq> RMX_BUSY"
      unfolding shift by (rule Suc.prems(2))
  qed
  then show ?case using busy unfolding shift by (subst destroy_loop.simps) (simp add: case_prod_beta)
qed

text \<open>C31: a stream is destroyed as soon as the library lets go of it.  When the library
  answers busy \<open>k\<close> times and then something else, \<open>destroy_stream\<close> of a created stream returns with that answer:
  the stream is no longer created exactly when the answer is \<open>RMX_OK\<close>.\<close>

theorem destroy_stream_returns:
  fixes rmx :: "'l rmx_output_media"
  defines "destroy \<equiv> \<lambda>s. media_destroy_stream rmx (m_media_stream_id s)"
  assumes "m_media_stream_created s" "\<And>i. i < k \<Longrightarrow> fst (destroy s (((snd \<circ> destroy s) ^^ i) l)) = RMX_BUSY"
    and "destroy s (((snd \<circ> destroy s) ^^ k) l) = (answer, l')" "answer \<noteq> RMX_BUSY"
  shows "\<exists>status s'. media_stream_destroy rmx (s, l) = Some (status, s', l') \<and> (status = success \<longleftrightarrow> answer = RMX_OK)
    \<and> (m_media_stream_created s' \<longleftrightarrow> answer \<noteq> RMX_OK)"
proof -
  have "destroy_loop (destroy s) l = Some (answer, l')"
    using destroy_loop_ends[of k "destroy s" l] assms(3-5) by simp
  then show ?thesis using assms(2) unfolding media_stream_destroy_def destroy_def by simp
qed

definition example_media_library :: "nat rmx_output_media" where
  "example_media_library =
    \<lparr>media_init_chunk_handle = (\<lambda>_ l. (0, l)), media_get_next_chunk = (\<lambda>_ l. (RMX_OK, l)), media_get_chunk_strides = (\<lambda>_ _ _. 0),
     media_get_chunk_packet_sizes = (\<lambda>_ _ _. 0), media_set_chunk_option = (\<lambda>_ _ l. l), media_clear_chunk_all_options = (\<lambda>_ l. l),
     media_commit_chunk = (\<lambda>_ _ l. (RMX_OK, l)), media_cancel_unsent_chunks = (\<lambda>_ l. (RMX_OK, l)),
     media_mark_chunk_for_tracking = (\<lambda>_ _ l. (RMX_OK, l)), media_poll_for_completion = (\<lambda>_ l. (RMX_BUSY, l)),
     media_get_last_completion = (\<lambda>_ _. None), media_create_stream = (\<lambda>_ l. (RMX_OK, 1, l)),
     media_destroy_stream = (\<lambda>_ l. if l = 0 then (RMX_OK, 0) else (RMX_BUSY, l - 1))\<rparr>"

definition example_media_stream :: MediaSendStream where
  "example_media_stream = (MediaSendStream_new \<lparr>mss_local_address = 0, mss_media_settings = MediaSettings_default, mss_packets_per_chunk = 4,
     mss_packet_payload_size = 1220, mss_data_stride_size = 1280, mss_app_header_stride_size = 0, mss_dscp = 0, mss_pcp = 0,
     mss_ecn = 0\<rparr>)\<lparr>m_media_stream_created := True\<rparr>"

theorem blocking_commit_returns_witness:
  "\<exists>k l'. media_blocking_commit_chunk example_media_library
      \<lparr>media_chunk_handle = 0, media_chunk_length = 4, media_chunk_hds_on = False, media_chunk_stream_id = 1\<rparr> 0 3 0 = Some (success, l') \<and> k \<le> (3::nat)"
proof -
  let ?c = "\<lparr>media_chunk_handle = 0, media_chunk_length = 4, media_chunk_hds_on = False, media_chunk_stream_id = 1\<rparr>"
  obtain k status l' where r: "media_blocking_commit_chunk example_media_library ?c 0 3 0 = Some (status, l')" "k \<le> (3::nat)"
    using blocking_commit_returns[of example_media_library ?c 0 3 0] by blast
  moreover have "status = success"
    using r(1) by (simp add: media_blocking_commit_chunk_def media_stream_commit_chunk_def media_chunk_commit_def example_media_library_def
        commit_status_def retry_while.simps[of _ _ 3])
  ultimately show ?thesis by blast
qed

theorem destroy_stream_returns_witness:
  "\<exists>status s'. media_stream_destroy example_media_library (example_media_stream, 1) = Some (status, s', 0) \<and> \<not> m_media_stream_created s'"
proof -
  have "\<exists>status s'. media_stream_destroy example_media_library (example_media_stream, 1) = Some (status, s', 0)
      \<and> (status = success \<longleftrightarrow> RMX_OK = RMX_OK) \<and> (m_media_stream_created s' \<longleftrightarrow> RMX_OK \<noteq> RMX_OK)"
    by (rule destroy_stream_returns[where k = 1]) (simp_all add: example_media_library_def example_media_stream_def)
  then show ?thesis by metis
qed


section \<open>Chunks in turn\<close>

text \<open>The chunks a stream hands out in the successful ones of a sequence of calls.\<close>

fun take_chunks :: "'l rmx_output_gen \<Rightarrow> nat \<Rightarrow> GenericSendStream \<times> 'l \<Rightarrow> (GenericChunk list \<times> GenericSendStream \<times> 'l) option" where
  "take_chunks rmx 0 s = Some ([], s)"
| "take_chunks rmx (Suc n) s = do {
     (status, s') \<leftarrow> gen_stream_get_next_chunk rmx s;
     (cs, s'') \<leftarrow> take_chunks rmx n s';
     Some (if status = success then m_chunks (fst s) ! unat (m_next_chunk_to_send_index (fst s)) # cs else cs, s'') }"

text \<open>A stream whose chunks were initialised once.\<close>

definition chunks_ready :: "GenericSendStream \<Rightarrow> bool" where
  "chunks_ready s \<longleftrightarrow> length (m_chunks s) = unat (m_gen_num_of_chunks s) \<and> m_gen_num_of_chunks s \<noteq> 0
     \<and> m_next_chunk_to_send_index s < m_gen_num_of_chunks s"

lemma get_next_chunk_ready:
  assumes "chunks_ready s"
  obtains status s' l' where "gen_stream_get_next_chunk rmx (s, l) = Some (status, s', l')" "chunks_ready s'" "m_chunks s' = m_chunks s"
    "unat (m_next_chunk_to_send_index s')
      = (if status = success then (unat (m_next_chunk_to_send_index s) + 1) mod length (m_chunks s) else unat (m_next_chunk_to_send_index s))"
proof -
  have i: "unat (m_next_chunk_to_send_index s) < length (m_chunks s)" and n: "m_gen_num_of_chunks s \<noteq> 0"
    and len: "length (m_chunks s) = unat (m_gen_num_of_chunks s)"
    using assms by (simp_all add: chunks_ready_def word_less_nat_alt)
  obtain status l' where r: "gen_chunk_get_next rmx (m_chunks s ! unat (m_next_chunk_to_send_index s)) l = (status, l')" by fastforce
  have "unat (m_next_chunk_to_send_index s) + 1 < 2 ^ 64"
    using i len unat_u64_bound[of "m_gen_num_of_chunks s"] by simp
  then have "unat ((m_next_chunk_to_send_index s + 1) mod m_gen_num_of_chunks s) = (unat (m_next_chunk_to_send_index s) + 1) mod length (m_chunks s)"
    using len by (simp add: unat_mod_word unat_Suc_no_wrap)
  moreover have "(m_next_chunk_to_send_index s + 1) mod m_gen_num_of_chunks s < m_gen_num_of_chunks s"
    using n by (simp add: word_less_nat_alt unat_mod_word unat_gt_0)
  ultimately show ?thesis
    using that[of status "if status = success then s\<lparr>m_next_chunk_to_send_index := (m_next_chunk_to_send_index s + 1) mod m_gen_num_of_chunks s\<rparr> else s" l']
      i n r assms by (simp add: gen_stream_get_next_chunk_def chunks_ready_def split: if_splits)
qed

text \<open>A generic stream hands out its chunks in turn.  Whatever the library answers, \<open>n\<close> calls of
  \<open>get_next_chunk\<close> return, a call that fails does not skip a chunk, and the successful ones deliver the chunks of the
  vector cyclically from the next one to send.\<close>

theorem chunks_in_turn:
  assumes "chunks_ready s"
  shows "\<exists>cs s' l'. take_chunks rmx n (s, l) = Some (cs, s', l') \<and> chunks_ready s' \<and> length cs \<le> n
    \<and> cs = map (\<lambda>i. m_chunks s ! ((unat (m_next_chunk_to_send_index s) + i) mod length (m_chunks s))) [0..<length cs]"
  using assms
proof (induction n arbitrary: s l)
  case (Suc n)
  let ?i = "unat (m_next_chunk_to_send_index s)" and ?n = "length (m_chunks s)"
  have i: "?i < ?n" using Suc.prems by (simp add: chunks_ready_def word_less_nat_alt)
  obtain status s1 l1 where step: "gen_stream_get_next_chunk rmx (s, l) = Some (status, s1, l1)" "chunks_ready s1" "m_chunks s1 = m_chunks s"
    "unat (m_next_chunk_to_send_index s1) = (if status = success then (?i + 1) mod ?n else ?i)"
    using get_next_chunk_ready[OF Suc.prems, of rmx l] by metis
  obtain cs s' l' where IH: "take_chunks rmx n (s1, l1) = Some (cs, s', l')" "chunks_ready s'" "length cs \<le> n"
    "cs = map (\<lambda>j. m_chunks s ! ((unat (m_next_chunk_to_send_index s1) + j) mod ?n)) [0..<length cs]"
    using Suc.IH[OF step(2), of l1] step(3) by auto
  show ?case
  proof (cases "status = success")
    case True
    have "m_chunks s ! ?i # cs = map (\<lambda>j. m_chunks s ! ((?i + j) mod ?n)) [0..<Suc (length cs)]"
      using True IH(4) step(4) i by (subst IH(4)) (simp add: map_upt_Suc mod_add_left_eq del: upt_Suc)
    then show ?thesis using step(1) IH(1-3) True by auto
  next
    case False
    then show ?thesis using step(1,4) IH by auto
  qed
qed auto


definition example_gen_library :: "nat rmx_output_gen" where
  "example_gen_library =
    \<lparr>RMX_MAX_SUB_BLOCKS_PER_MEM_BLOCK = 2, gen_init_chunk_handle = (\<lambda>_ l. (l, l + 1)), gen_append_packet_to_chunk = (\<lambda>_ _ l. (RMX_OK, l)),
     gen_get_next_chunk = (\<lambda>_ l. (if l = 0 then RMX_NO_FREE_CHUNK else RMX_OK, l + 1)), gen_clear_chunk_all_options = (\<lambda>_ l. l),
     gen_set_chunk_option = (\<lambda>_ _ l. l), gen_set_chunk_remote_addr = (\<lambda>_ _ l. l), gen_commit_chunk = (\<lambda>_ _ l. (RMX_OK, l)),
     gen_mark_chunk_for_tracking = (\<lambda>_ _ l. (RMX_OK, l)), gen_poll_for_completion = (\<lambda>_ l. (RMX_BUSY, l)),
     gen_get_last_completion = (\<lambda>_ _. None), gen_create_stream = (\<lambda>_ l. (RMX_OK, 1, l)), gen_destroy_stream = (\<lambda>_ l. (RMX_OK, l))\<rparr>"

definition example_gen_settings :: GenericStreamSettings where
  "example_gen_settings = \<lparr>m_source_address = 0, m_destination_address = 1, m_fixed_dest_addr = True,
     m_pp_rate = \<lparr>bps = 0, max_burst_in_packets = 0\<rparr>, m_num_of_requested_chunks = 2, m_num_of_packets_in_chunk = 1,
     m_packet_typical_payload_size = 100, m_packet_typical_app_header_size = 20\<rparr>"

definition example_gen_stream :: GenericSendStream where
  "example_gen_stream = (GenericSendStream_new example_gen_settings)\<lparr>m_gen_stream_created := True\<rparr>"

theorem chunks_in_turn_witness:
  "\<exists>cs s' l'. take_chunks example_gen_library 3
      (example_gen_stream\<lparr>m_chunks := [\<lparr>gen_chunk_handle = 0, gen_chunk_stream_id = 1, m_packets = []\<rparr>,
                                        \<lparr>gen_chunk_handle = 1, gen_chunk_stream_id = 1, m_packets = []\<rparr>]\<rparr>, 0) = Some (cs, s', l') \<and> chunks_ready s'"
  using chunks_in_turn[of "example_gen_stream\<lparr>m_chunks := [\<lparr>gen_chunk_handle = 0, gen_chunk_stream_id = 1, m_packets = []\<rparr>,
                                        \<lparr>gen_chunk_handle = 1, gen_chunk_stream_id = 1, m_packets = []\<rparr>]\<rparr>" example_gen_library 3 0]
  by (fastforce simp: chunks_ready_def example_gen_stream_def GenericSendStream_new_def gen_initialize_memory_layout_def
      example_gen_settings_def)

section \<open>The memory of a generic stream\<close>

definition region_of :: "rmx_mem_region \<Rightarrow> nat \<times> nat" where
  "region_of r = (unat (addr r), unat (region_length r))"

text \<open>All packets of the chunks, in order, and the packets that \<open>n\<close> steps of the innermost loop make.\<close>

definition all_packets :: "GenericChunk list \<Rightarrow> GenericPacket list" where
  "all_packets cs = concat (map m_packets cs)"

fun packet_run :: "('o \<Rightarrow> GenericPacket \<times> 'o) \<Rightarrow> nat \<Rightarrow> 'o \<Rightarrow> GenericPacket list \<times> 'o" where
  "packet_run place 0 offset = ([], offset)"
| "packet_run place (Suc n) offset =
    (let (packet, offset) = place offset; (packets, offset) = packet_run place n offset in (packet # packets, offset))"

lemma packet_run_append:
  "packet_run place (m + n) offset
    = (let (ps, offset') = packet_run place m offset; (qs, offset'') = packet_run place n offset' in (ps @ qs, offset''))"
  by (induction m arbitrary: offset) (simp_all add: case_prod_beta Let_def)

lemma packet_run_length: "packet_run place n offset = (ps, w) \<Longrightarrow> length ps = n"
  by (induction n arbitrary: offset ps) (auto simp: case_prod_beta Let_def split: prod.splits)

lemma place_packets_run:
  assumes "i + n \<le> length (m_packets c)"
  shows "place_packets place i n (c, offset)
    = (c\<lparr>m_packets := take i (m_packets c) @ fst (packet_run place n offset) @ drop (i + n) (m_packets c)\<rparr>, snd (packet_run place n offset))"
  using assms
proof (induction n arbitrary: i c offset)
  case (Suc n)
  obtain p o1 where p: "place offset = (p, o1)" by fastforce
  have "take (Suc i) ((m_packets c)[i := p]) = take i (m_packets c) @ [p]"
    using Suc.prems by (simp add: take_Suc_conv_app_nth)
  then show ?case
    using Suc.prems Suc.IH[of "i + 1" "place_packet i p c" o1] p by (simp add: place_packet_def case_prod_beta)
qed simp

lemma place_chunks_run:
  "\<exists>cs. fst (place_chunks rmx place n offset (s, l)) = s\<lparr>m_chunks := m_chunks s @ cs\<rparr> \<and> length cs = n
    \<and> all_packets cs = fst (packet_run place (n * unat (m_num_of_packets_in_chunk (m_gen_settings s))) offset)"
proof (induction n arbitrary: s l offset)
  case 0
  then show ?case by (intro exI[of _ "[]"]) (simp add: all_packets_def)
next
  case (Suc n)
  let ?P = "unat (m_num_of_packets_in_chunk (m_gen_settings s))"
  obtain c l1 where c: "GenericChunk_new rmx (m_gen_stream_id s) ?P l = (c, l1)" "length (m_packets c) = ?P"
    by (cases "gen_init_chunk_handle rmx (m_gen_stream_id s) l") (simp add: GenericChunk_new_def)
  obtain ps o1 where ps: "packet_run place ?P offset = (ps, o1)" by fastforce
  have placed: "place_packets place 0 ?P (c, offset) = (c\<lparr>m_packets := ps\<rparr>, o1)"
    using place_packets_run[of 0 ?P c place offset] c(2) ps by simp
  let ?s1 = "s\<lparr>m_chunks := m_chunks s @ [c\<lparr>m_packets := ps\<rparr>]\<rparr>"
  obtain cs where cs: "fst (place_chunks rmx place n o1 (?s1, l1)) = ?s1\<lparr>m_chunks := m_chunks ?s1 @ cs\<rparr>" "length cs = n"
    "all_packets cs = fst (packet_run place (n * ?P) o1)"
    using Suc.IH[of o1 ?s1 l1] by auto
  have "fst (place_chunks rmx place (Suc n) offset (s, l)) = s\<lparr>m_chunks := m_chunks s @ (c\<lparr>m_packets := ps\<rparr> # cs)\<rparr>"
    using cs(1) c(1) placed by simp
  moreover have "all_packets (c\<lparr>m_packets := ps\<rparr> # cs) = fst (packet_run place (Suc n * ?P) offset)"
    using cs(3) ps by (simp add: all_packets_def packet_run_append case_prod_beta)
  ultimately show ?case using cs(2) by (intro exI[of _ "c\<lparr>m_packets := ps\<rparr> # cs"]) simp
qed


lemma word_offset:
  assumes "unat (a :: u64) + n < 2 ^ 64"
  shows "unat (a + word_of_nat n) = unat a + n"
proof -
  have n: "n < 2 ^ 64" using assms by linarith
  have u: "unat (word_of_nat n :: u64) = n" by (rule unat_word_of_nat) (use n in simp)
  have len: "(2::nat) ^ LENGTH(64) = 2 ^ 64" by simp
  have "unat (a + word_of_nat n) = unat a + unat (word_of_nat n :: u64)"
    by (rule unat_add_no_wrap) (simp only: len u assms)
  then show ?thesis by (simp only: u)
qed

lemma unat_product3:
  assumes "unat (a :: u64) * unat (b :: u64) * unat (k :: u16) < 2 ^ 64"
  shows "unat (a * b * ucast k) = unat a * unat b * unat k"
proof -
  have len: "(2::nat) ^ LENGTH(64) = 2 ^ 64" by simp
  have k: "unat (ucast k :: u64) = unat k" by (rule unat_ucast_up) simp
  have "unat (a * b * ucast k) = unat a * unat b mod 2 ^ 64 * unat k mod 2 ^ 64"
    by (simp only: unat_word_ariths(2) k len)
  also have "\<dots> = unat a * unat b * unat k mod 2 ^ 64" by (rule mod_mult_left_eq)
  finally show ?thesis using assms by (simp only: mod_less)
qed

lemma word_next_offset: "(word_of_nat n :: u64) + ucast (k :: u16) = word_of_nat (n + unat k)"
  by (simp only: ucast_eq_word_of_nat of_nat_add)

lemma placed_single: "placed (b, k) [(b, k)]"
  by (simp add: placed_def)

lemma placed_Cons: "placed (b + k, m) rs \<Longrightarrow> placed (b, k + m) ((b, k) # rs)"
  using placed_append[OF placed_single] by fastforce

lemma place_sub_blocks_placed:
  assumes "unat (addr r) + n + sum_list (map unat lens) < 2 ^ 64" "place_sub_blocks r lens (word_of_nat n) = (bs, w)"
  shows "w = word_of_nat (n + sum_list (map unat lens)) \<and> placed (unat (addr r) + n, sum_list (map unat lens)) (map region_of bs)
    \<and> map region_length bs = map ucast lens \<and> (\<forall>b \<in> set bs. mkey b = mkey r)"
  using assms
proof (induction lens arbitrary: n bs w)
  case (Cons k lens)
  obtain bs' w' where r: "place_sub_blocks r lens (word_of_nat (n + unat k)) = (bs', w')" by fastforce
  have bs: "bs = \<lparr>addr = addr r + word_of_nat n, region_length = ucast k, mkey = mkey r\<rparr> # bs'" "w = w'"
    using Cons.prems(2) r by (simp_all add: word_next_offset del: of_nat_add)
  have IH: "w' = word_of_nat (n + unat k + sum_list (map unat lens))"
    "placed (unat (addr r) + (n + unat k), sum_list (map unat lens)) (map region_of bs')" "map region_length bs' = map ucast lens"
    "\<forall>b \<in> set bs'. mkey b = mkey r"
    using Cons.IH[OF _ r] Cons.prems(1) by (simp_all add: add.assoc del: of_nat_add)
  have below: "unat (addr r) + n < 2 ^ 64" using Cons.prems(1) by simp
  have reg: "region_of \<lparr>addr = addr r + word_of_nat n, region_length = ucast k, mkey = mkey r\<rparr> = (unat (addr r) + n, unat k)"
    by (simp add: region_of_def unat_ucast_up word_offset[OF below])
  have "placed (unat (addr r) + n, unat k + sum_list (map unat lens)) ([(unat (addr r) + n, unat k)] @ map region_of bs')"
    using IH(2) by (intro placed_append placed_single) (simp add: add.assoc)
  then show ?case using IH bs reg by (simp add: add.assoc del: of_nat_add)
qed simp

lemma sub_block_run_placed:
  fixes r :: rmx_mem_region and lens :: "u16 list"
  defines "T \<equiv> sum_list (map unat lens)"
  assumes "unat (addr r) + o0 + n * T < 2 ^ 64" "packet_run (place_sub_blocks r lens) n (word_of_nat o0) = (ps, w)"
  shows "placed (unat (addr r) + o0, n * T) (map region_of (concat ps)) \<and> (\<forall>p \<in> set ps. map region_length p = map ucast lens)"
  using assms(2,3)
proof (induction n arbitrary: o0 ps)
  case (Suc n)
  obtain p w1 where p: "place_sub_blocks r lens (word_of_nat o0) = (p, w1)" by fastforce
  have bound: "unat (addr r) + o0 + T < 2 ^ 64" "unat (addr r) + (o0 + T) + n * T < 2 ^ 64" using Suc.prems(1) by simp_all
  note first = place_sub_blocks_placed[OF bound(1)[unfolded T_def] p, folded T_def]
  obtain ps' where ps: "packet_run (place_sub_blocks r lens) n (word_of_nat (o0 + T)) = (ps', w)" "ps = p # ps'"
    using Suc.prems(2) p first
    by (cases "packet_run (place_sub_blocks r lens) n (word_of_nat (o0 + T))") (simp del: of_nat_add)
  note rest = Suc.IH[OF bound(2) ps(1)]
  have "placed (unat (addr r) + o0, T + n * T) (map region_of p @ map region_of (concat ps'))"
    using first rest by (intro placed_append) (simp_all add: add.assoc)
  then show ?case using first rest ps(2) by simp
qed simp

lemma split_run_placed:
  assumes "unat (addr h) + oh + n * unat hs < 2 ^ 64" "unat (addr q) + oq + n * unat qs < 2 ^ 64"
    and "packet_run (place_split_packet h q hs qs) n (word_of_nat oh, word_of_nat oq) = (ps, w)"
  shows "placed (unat (addr h) + oh, n * unat hs) (map (\<lambda>p. region_of (p ! 0)) ps)
    \<and> placed (unat (addr q) + oq, n * unat qs) (map (\<lambda>p. region_of (p ! 1)) ps) \<and> (\<forall>p \<in> set ps. map region_length p = [ucast hs, ucast qs])"
  using assms
proof (induction n arbitrary: oh oq ps)
  case (Suc n)
  let ?p = "fst (place_split_packet h q hs qs (word_of_nat oh, word_of_nat oq))"
  have b: "unat (addr h) + (oh + unat hs) + n * unat hs < 2 ^ 64" "unat (addr q) + (oq + unat qs) + n * unat qs < 2 ^ 64"
    "unat (addr h) + oh < 2 ^ 64" "unat (addr q) + oq < 2 ^ 64"
    using Suc.prems(1,2) by simp_all
  obtain ps' where ps: "packet_run (place_split_packet h q hs qs) n (word_of_nat (oh + unat hs), word_of_nat (oq + unat qs)) = (ps', w)" "ps = ?p # ps'"
    using Suc.prems(3)
    by (cases "packet_run (place_split_packet h q hs qs) n (word_of_nat (oh + unat hs), word_of_nat (oq + unat qs))")
      (simp add: place_split_packet_def word_next_offset del: of_nat_add)
  note rest = Suc.IH[OF b(1,2) ps(1)]
  have reg: "region_of (?p ! 0) = (unat (addr h) + oh, unat hs)" "region_of (?p ! 1) = (unat (addr q) + oq, unat qs)"
    "map region_length ?p = [ucast hs, ucast qs]"
    by (simp_all add: place_split_packet_def region_of_def unat_ucast_up word_offset[OF b(3)] word_offset[OF b(4)])
  have "placed (unat (addr h) + oh, unat hs + n * unat hs) ((unat (addr h) + oh, unat hs) # map (\<lambda>p. region_of (p ! 0)) ps')"
    "placed (unat (addr q) + oq, unat qs + n * unat qs) ((unat (addr q) + oq, unat qs) # map (\<lambda>p. region_of (p ! 1)) ps')"
    using rest by (auto intro!: placed_Cons simp: add.assoc)
  then show ?case using rest reg ps(2) by simp
qed simp

text \<open>A stream that was created from its settings, and the sizes it asks for.\<close>

definition created_stream :: "GenericStreamSettings \<Rightarrow> u64 \<Rightarrow> GenericSendStream" where
  "created_stream t stream_id = (GenericSendStream_new t)\<lparr>m_gen_stream_created := True, m_gen_stream_id := stream_id\<rparr>"

definition num_packets :: "GenericStreamSettings \<Rightarrow> nat" where
  "num_packets t = unat (m_num_of_requested_chunks t) * unat (m_num_of_packets_in_chunk t)"

definition packet_bytes :: "GenericStreamSettings \<Rightarrow> nat" where
  "packet_bytes t = unat (m_packet_typical_app_header_size t) + unat (m_packet_typical_payload_size t)"

lemma created_stream_simps [simp]:
  "m_gen_settings (created_stream t i) = t" "m_gen_num_of_chunks (created_stream t i) = m_num_of_requested_chunks t"
  "m_chunks (created_stream t i) = []" "m_gen_stream_created (created_stream t i)"
  "m_next_chunk_to_send_index (created_stream t i) = 0"
  by (simp_all add: created_stream_def GenericSendStream_new_def gen_initialize_memory_layout_def)

lemma generic_sizes:
  assumes "num_packets t * packet_bytes t < 2 ^ 64"
  shows "unat (m_header_buffer_size (GenericSendStream_new t)) = num_packets t * unat (m_packet_typical_app_header_size t)"
    and "unat (m_payload_buffer_size (GenericSendStream_new t)) = num_packets t * unat (m_packet_typical_payload_size t)"
    and "unat (get_memory_length (GenericSendStream_new t)) = num_packets t * packet_bytes t"
proof -
  let ?hs = "unat (m_packet_typical_app_header_size t)" and ?qs = "unat (m_packet_typical_payload_size t)"
  have n: "num_packets t * ?hs + num_packets t * ?qs < 2 ^ 64" using assms by (simp only: packet_bytes_def distrib_left)
  then have "num_packets t * ?hs < 2 ^ 64" "num_packets t * ?qs < 2 ^ 64" by linarith+
  note small = this[unfolded num_packets_def]
  show h: "unat (m_header_buffer_size (GenericSendStream_new t)) = num_packets t * ?hs"
    using unat_product3[OF small(1)] by (simp add: GenericSendStream_new_def gen_initialize_memory_layout_def num_packets_def)
  show q: "unat (m_payload_buffer_size (GenericSendStream_new t)) = num_packets t * ?qs"
    using unat_product3[OF small(2)] by (simp add: GenericSendStream_new_def gen_initialize_memory_layout_def num_packets_def)
  have len: "(2::nat) ^ LENGTH(64) = 2 ^ 64" by simp
  have "unat (get_memory_length (GenericSendStream_new t)) = num_packets t * ?hs + num_packets t * ?qs"
    unfolding get_memory_length_def get_header_memory_length_def get_payload_memory_length_def h[symmetric] q[symmetric]
    by (rule unat_add_no_wrap) (use n in \<open>simp only: len h q\<close>)
  then show "unat (get_memory_length (GenericSendStream_new t)) = num_packets t * packet_bytes t"
    by (simp only: packet_bytes_def distrib_left)
qed

lemma created_stream_sizes [simp]:
  "m_header_buffer_size (created_stream t i) = m_header_buffer_size (GenericSendStream_new t)"
  "m_payload_buffer_size (created_stream t i) = m_payload_buffer_size (GenericSendStream_new t)"
  "get_memory_length (created_stream t i) = get_memory_length (GenericSendStream_new t)"
  by (simp_all add: created_stream_def get_memory_length_def get_header_memory_length_def get_payload_memory_length_def)

lemma initialize_chunks_split_placed:
  fixes header payload :: rmx_mem_region
  assumes "initialize_chunks_split rmx header payload (created_stream t stream_id, l) = (status, s', l')"
    and "num_packets t * unat (m_packet_typical_app_header_size t) \<le> unat (region_length header)"
    and "num_packets t * unat (m_packet_typical_payload_size t) \<le> unat (region_length payload)"
    and "unat (addr header) + unat (region_length header) < 2 ^ 64" "unat (addr payload) + unat (region_length payload) < 2 ^ 64"
  shows "length (m_chunks s') = unat (m_num_of_requested_chunks t) \<and> length (all_packets (m_chunks s')) = num_packets t
    \<and> placed (region_of header) (map (\<lambda>p. region_of (p ! 0)) (all_packets (m_chunks s')))
    \<and> placed (region_of payload) (map (\<lambda>p. region_of (p ! 1)) (all_packets (m_chunks s')))
    \<and> (\<forall>p \<in> set (all_packets (m_chunks s')). map region_length p
         = [ucast (m_packet_typical_app_header_size t), ucast (m_packet_typical_payload_size t)])"
proof -
  let ?hs = "m_packet_typical_app_header_size t" and ?qs = "m_packet_typical_payload_size t"
  let ?C = "unat (m_num_of_requested_chunks t)" and ?P = "unat (m_num_of_packets_in_chunk t)"
  let ?place = "place_split_packet header payload ?hs ?qs"
  have s': "s' = fst (place_chunks rmx ?place ?C (0, 0) (created_stream t stream_id, l))"
    using assms(1) by (simp add: initialize_chunks_split_def)
  obtain cs where cs: "m_chunks s' = cs" "length cs = ?C" "all_packets cs = fst (packet_run ?place (?C * ?P) (0, 0))"
    using place_chunks_run[of rmx ?place ?C "(0, 0)" "created_stream t stream_id" l] unfolding s' by auto
  obtain ps w where ps: "packet_run ?place (num_packets t) (word_of_nat 0, word_of_nat 0) = (ps, w)" by (meson surj_pair)
  have all: "all_packets (m_chunks s') = ps" using cs ps by (simp add: num_packets_def)
  have "placed (unat (addr header), num_packets t * unat ?hs) (map (\<lambda>p. region_of (p ! 0)) ps)
    \<and> placed (unat (addr payload), num_packets t * unat ?qs) (map (\<lambda>p. region_of (p ! 1)) ps)
    \<and> (\<forall>p \<in> set ps. map region_length p = [ucast ?hs, ucast ?qs])"
    using split_run_placed[OF _ _ ps] assms(2-5) by simp
  then show ?thesis using all cs(1,2) placed_mono assms(2,3) by (simp add: packet_run_length[OF ps] region_of_def) blast
qed

lemma initialize_chunks_placed:
  fixes region :: rmx_mem_region
  assumes "initialize_chunks rmx region (created_stream t stream_id, l) = (status, s', l')"
    and "num_packets t * packet_bytes t \<le> unat (region_length region)" "unat (addr region) + unat (region_length region) < 2 ^ 64"
  shows "length (m_chunks s') = unat (m_num_of_requested_chunks t) \<and> length (all_packets (m_chunks s')) = num_packets t
    \<and> placed (region_of region) (map region_of (concat (all_packets (m_chunks s'))))
    \<and> (\<forall>p \<in> set (all_packets (m_chunks s')). map region_length p = map ucast (sub_block_lengths t))"
proof -
  let ?C = "unat (m_num_of_requested_chunks t)" and ?P = "unat (m_num_of_packets_in_chunk t)"
  let ?lens = "sub_block_lengths t"
  let ?place = "place_sub_blocks region ?lens"
  have lens: "sum_list (map unat ?lens) = packet_bytes t" by (simp add: sub_block_lengths_def packet_bytes_def)
  have s': "s' = fst (place_chunks rmx ?place ?C 0 (created_stream t stream_id, l))"
    using assms(1) by (simp add: initialize_chunks_def)
  obtain cs where cs: "m_chunks s' = cs" "length cs = ?C" "all_packets cs = fst (packet_run ?place (?C * ?P) 0)"
    using place_chunks_run[of rmx ?place ?C 0 "created_stream t stream_id" l] unfolding s' by auto
  obtain ps w where ps: "packet_run ?place (num_packets t) (word_of_nat 0) = (ps, w)" by (meson surj_pair)
  have all: "all_packets (m_chunks s') = ps" using cs ps by (simp add: num_packets_def)
  have "unat (addr region) + 0 + num_packets t * sum_list (map unat ?lens) < 2 ^ 64" using assms(2,3) lens by simp
  note run = sub_block_run_placed[OF this ps]
  have "placed (region_of region) (map region_of (concat ps))"
    using run placed_mono[OF _ assms(2)] lens by (simp add: region_of_def)
  then show ?thesis using all cs(1,2) run by (simp add: packet_run_length[OF ps])
qed

text \<open>A generic stream cuts the memory it accepts into packets.  When
  \<open>apply_memory_layout\<close> of a created stream succeeds, every chunk has its packets with sub-blocks of the typical
  sizes, and the sub-blocks of all packets follow each other without overlap inside the memory granted: the
  headers in the header memory and the payloads in the payload memory, or both in the one memory.\<close>

theorem generic_packets_placed:
  assumes "s = (GenericSendStream_new settings)\<lparr>m_gen_stream_created := True, m_gen_stream_id := stream_id\<rparr>"
    and "gen_apply_memory_layout rmx layout (s, l) = (success, s', l')"
    and "n = unat (m_num_of_requested_chunks settings) * unat (m_num_of_packets_in_chunk settings)"
    and "n * (unat (m_packet_typical_app_header_size settings) + unat (m_packet_typical_payload_size settings)) < 2 ^ 64"
    and "unat (header_memory_ptr layout) + unat (header_memory_size layout) < 2 ^ 64"
    and "unat (payload_memory_ptr layout) + unat (payload_memory_size layout) < 2 ^ 64"
  shows "length (m_chunks s') = unat (m_num_of_requested_chunks settings) \<and> length (all_packets (m_chunks s')) = n
    \<and> (if header_memory_size layout > 0
       then placed (unat (header_memory_ptr layout), unat (header_memory_size layout)) (map (\<lambda>p. region_of (p ! 0)) (all_packets (m_chunks s')))
         \<and> placed (unat (payload_memory_ptr layout), unat (payload_memory_size layout)) (map (\<lambda>p. region_of (p ! 1)) (all_packets (m_chunks s')))
         \<and> (\<forall>p \<in> set (all_packets (m_chunks s')). map region_length p
              = [ucast (m_packet_typical_app_header_size settings), ucast (m_packet_typical_payload_size settings)])
       else placed (unat (payload_memory_ptr layout), unat (payload_memory_size layout)) (map region_of (concat (all_packets (m_chunks s'))))
         \<and> (\<forall>p \<in> set (all_packets (m_chunks s')). map region_length p = map ucast (sub_block_lengths settings)))"
proof -
  have s: "s = created_stream settings stream_id" using assms(1) by (simp add: created_stream_def)
  have n: "n = num_packets settings" using assms(3) by (simp add: num_packets_def)
  note sizes = generic_sizes[OF assms(4)[unfolded n, folded packet_bytes_def]]
  have valid: "gen_validate_memory_layout layout s = success"
    using assms(2) by (auto simp: gen_apply_memory_layout_def Let_def split: if_splits)
  show ?thesis
  proof (cases "header_memory_size layout > 0")
    case True
    have "num_packets settings * unat (m_packet_typical_app_header_size settings) \<le> unat (header_memory_size layout)"
      "num_packets settings * unat (m_packet_typical_payload_size settings) \<le> unat (payload_memory_size layout)"
      using valid True sizes unfolding s by (auto simp: gen_validate_memory_layout_def get_header_memory_length_def
          get_payload_memory_length_def word_less_nat_alt split: if_splits)
    then show ?thesis
      using initialize_chunks_split_placed[of rmx
          "\<lparr>addr = header_memory_ptr layout, region_length = header_memory_size layout, mkey = header_memory_keys layout ! 0\<rparr>"
          "\<lparr>addr = payload_memory_ptr layout, region_length = payload_memory_size layout, mkey = payload_memory_keys layout ! 0\<rparr>"
          settings stream_id l success s' l'] assms(2,5,6) valid True n unfolding s
      by (simp add: gen_apply_memory_layout_def region_of_def)
  next
    case False
    have "num_packets settings * packet_bytes settings \<le> unat (payload_memory_size layout)"
      using valid False sizes unfolding s by (auto simp: gen_validate_memory_layout_def word_less_nat_alt split: if_splits)
    then show ?thesis
      using initialize_chunks_placed[of rmx
          "\<lparr>addr = payload_memory_ptr layout, region_length = payload_memory_size layout, mkey = payload_memory_keys layout ! 0\<rparr>"
          settings stream_id l success s' l'] assms(2,6) valid False n unfolding s
      by (simp add: gen_apply_memory_layout_def region_of_def)
  qed
qed

theorem generic_packets_placed_witness:
  "\<exists>s' l'. gen_apply_memory_layout example_gen_library \<lparr>header_memory_ptr = 0, payload_memory_ptr = 4096, header_memory_size = 0,
       payload_memory_size = 240, register_memory = True, header_memory_keys = [7], payload_memory_keys = [7]\<rparr>
       ((GenericSendStream_new example_gen_settings)\<lparr>m_gen_stream_created := True, m_gen_stream_id := 1\<rparr>, 0) = (success, s', l')
     \<and> placed (4096, 240) (map region_of (concat (all_packets (m_chunks s'))))"
proof -
  let ?l = "\<lparr>header_memory_ptr = 0, payload_memory_ptr = 4096, header_memory_size = 0,
       payload_memory_size = 240, register_memory = True, header_memory_keys = [7], payload_memory_keys = [7]\<rparr> :: HeaderPayloadMemoryLayout"
  let ?s = "(GenericSendStream_new example_gen_settings)\<lparr>m_gen_stream_created := True, m_gen_stream_id := 1\<rparr>"
  have "gen_validate_memory_layout ?l ?s = success"
    by (simp add: gen_validate_memory_layout_def get_memory_length_def get_header_memory_length_def get_payload_memory_length_def
        GenericSendStream_new_def gen_initialize_memory_layout_def example_gen_settings_def)
  then obtain s' l' where r: "gen_apply_memory_layout example_gen_library ?l (?s, 0) = (success, s', l')"
    by (cases "gen_apply_memory_layout example_gen_library ?l (?s, 0)")
      (auto simp: gen_apply_memory_layout_def initialize_chunks_def GenericSendStream_new_def gen_initialize_memory_layout_def)
  show ?thesis
    using generic_packets_placed[OF refl r refl] r by (simp add: example_gen_settings_def)
qed

end
