(* ===== verification/Flows.thy ===== *)
theory Flows
  imports Media_Defs
begin

text \<open>
  The network flows of \<^verbatim>\<open>core/flow\<close>: a flow of two parts has an address and a port, a flow of four parts a source
  and a destination, a receive flow a tag besides.  The conversion of an address by the system and the hash
  functions of the standard library are parameters.  The lemmas relate equality and hash of the flows.
\<close>

section \<open>Addresses\<close>

record TwoTupleFlow =
  flow_id :: u64
  flow_ip :: string
  flow_port :: u16

record FourTupleFlow =
  four_id :: u64
  four_source_flow :: TwoTupleFlow
  four_destination_flow :: TwoTupleFlow

definition FourTupleFlow_new :: "u64 \<Rightarrow> string \<Rightarrow> u16 \<Rightarrow> string \<Rightarrow> u16 \<Rightarrow> FourTupleFlow" where
  "FourTupleFlow_new i source_ip source_port destination_ip destination_port =
    \<lparr>four_id = i, four_source_flow = \<lparr>flow_id = i, flow_ip = source_ip, flow_port = source_port\<rparr>,
     four_destination_flow = \<lparr>flow_id = i, flow_ip = destination_ip, flow_port = destination_port\<rparr>\<rparr>"

definition FourTupleFlow_of_flows :: "u64 \<Rightarrow> TwoTupleFlow \<Rightarrow> TwoTupleFlow \<Rightarrow> FourTupleFlow" where
  "FourTupleFlow_of_flows i source_flow destination_flow =
    \<lparr>four_id = i, four_source_flow = source_flow, four_destination_flow = destination_flow\<rparr>"

text \<open>A socket address: the port in network order and the address, which stays zero when the text is no address.\<close>

record sockaddr_in =
  sin_port :: u16
  sin_addr :: u32

definition set_socket_address :: "(string \<Rightarrow> u32 option) \<Rightarrow> string \<Rightarrow> u16 \<Rightarrow> ReturnStatus \<times> sockaddr_in" where
  "set_socket_address inet_pton ip port =
    (case inet_pton ip of
       None \<Rightarrow> (failure, \<lparr>sin_port = htons port, sin_addr = 0\<rparr>)
     | Some address \<Rightarrow> (success, \<lparr>sin_port = htons port, sin_addr = address\<rparr>))"

definition get_socket_address :: "(string \<Rightarrow> u32 option) \<Rightarrow> TwoTupleFlow \<Rightarrow> sockaddr_in" where
  "get_socket_address inet_pton f = snd (set_socket_address inet_pton (flow_ip f) (flow_port f))"

section \<open>Receive flows\<close>

datatype ReceiveFlow_Type = TWO_TUPLE | FOUR_TUPLE | UNDEFINED

datatype input_flow_call =
    rmx_input_init_flow
  | rmx_input_set_flow_local_addr sockaddr_in
  | rmx_input_set_flow_remote_addr sockaddr_in
  | rmx_input_set_flow_tag u32

record ReceiveFlow =
  receive_flow :: FourTupleFlow
  m_tag :: u32
  m_flow_descriptor :: "input_flow_call list"
  m_is_initialized :: bool
  m_flow_type :: ReceiveFlow_Type

definition ReceiveFlow_new :: "u64 \<Rightarrow> string \<Rightarrow> u16 \<Rightarrow> string \<Rightarrow> u16 \<Rightarrow> u32 \<Rightarrow> ReceiveFlow" where
  "ReceiveFlow_new i source_ip source_port destination_ip destination_port tag =
    \<lparr>receive_flow = FourTupleFlow_new i source_ip source_port destination_ip destination_port, m_tag = tag,
     m_flow_descriptor = [], m_is_initialized = False, m_flow_type = FOUR_TUPLE\<rparr>"

definition ReceiveFlow_of_flows :: "u64 \<Rightarrow> TwoTupleFlow \<Rightarrow> TwoTupleFlow \<Rightarrow> u32 \<Rightarrow> ReceiveFlow" where
  "ReceiveFlow_of_flows i source_flow destination_flow tag =
    \<lparr>receive_flow = FourTupleFlow_of_flows i source_flow destination_flow, m_tag = tag, m_flow_descriptor = [],
     m_is_initialized = False, m_flow_type = FOUR_TUPLE\<rparr>"

definition ReceiveFlow_to :: "u64 \<Rightarrow> string \<Rightarrow> u16 \<Rightarrow> u32 \<Rightarrow> ReceiveFlow" where
  "ReceiveFlow_to i destination_ip destination_port tag =
    \<lparr>receive_flow = FourTupleFlow_new i [] 0 destination_ip destination_port, m_tag = tag, m_flow_descriptor = [],
     m_is_initialized = False, m_flow_type = TWO_TUPLE\<rparr>"

definition ReceiveFlow_to_flow :: "u64 \<Rightarrow> TwoTupleFlow \<Rightarrow> u32 \<Rightarrow> ReceiveFlow" where
  "ReceiveFlow_to_flow i destination_flow tag =
    \<lparr>receive_flow = FourTupleFlow_of_flows i \<lparr>flow_id = 0, flow_ip = [], flow_port = 0\<rparr> destination_flow, m_tag = tag,
     m_flow_descriptor = [], m_is_initialized = False, m_flow_type = TWO_TUPLE\<rparr>"

definition init_descriptor :: "(string \<Rightarrow> u32 option) \<Rightarrow> ReceiveFlow \<Rightarrow> ReceiveFlow" where
  "init_descriptor inet_pton f =
    f\<lparr>m_flow_descriptor :=
        [rmx_input_init_flow, rmx_input_set_flow_local_addr (get_socket_address inet_pton (four_destination_flow (receive_flow f)))]
        @ (if m_flow_type f = FOUR_TUPLE
           then [rmx_input_set_flow_remote_addr (get_socket_address inet_pton (four_source_flow (receive_flow f)))] else [])
        @ [rmx_input_set_flow_tag (m_tag f)],
      m_is_initialized := True\<rparr>"

section \<open>Equality and hash\<close>

text \<open>Equality leaves out the identifiers; a receive flow is compared as its flow of four parts.\<close>

definition two_tuple_eq :: "TwoTupleFlow \<Rightarrow> TwoTupleFlow \<Rightarrow> bool" where
  "two_tuple_eq a b \<longleftrightarrow> flow_ip a = flow_ip b \<and> flow_port a = flow_port b"

definition four_tuple_eq :: "FourTupleFlow \<Rightarrow> FourTupleFlow \<Rightarrow> bool" where
  "four_tuple_eq a b \<longleftrightarrow> two_tuple_eq (four_source_flow a) (four_source_flow b)
     \<and> two_tuple_eq (four_destination_flow a) (four_destination_flow b)"

definition two_tuple_hash :: "(string \<Rightarrow> u64) \<Rightarrow> (u16 \<Rightarrow> u64) \<Rightarrow> TwoTupleFlow \<Rightarrow> u64" where
  "two_tuple_hash hash_string hash_port f = hash_string (flow_ip f) XOR push_bit 1 (hash_port (flow_port f))"

definition four_tuple_hash :: "(string \<Rightarrow> u64) \<Rightarrow> (u16 \<Rightarrow> u64) \<Rightarrow> FourTupleFlow \<Rightarrow> u64" where
  "four_tuple_hash hash_string hash_port f =
    two_tuple_hash hash_string hash_port (four_source_flow f) XOR push_bit 1 (two_tuple_hash hash_string hash_port (four_destination_flow f))"

definition receive_flow_hash :: "(string \<Rightarrow> u64) \<Rightarrow> (u16 \<Rightarrow> u64) \<Rightarrow> (u32 \<Rightarrow> u64) \<Rightarrow> ReceiveFlow \<Rightarrow> u64" where
  "receive_flow_hash hash_string hash_port hash_tag f = four_tuple_hash hash_string hash_port (receive_flow f) XOR hash_tag (m_tag f)"

lemma equal_flows_equal_hash:
  "two_tuple_eq a b \<Longrightarrow> two_tuple_hash hs hp a = two_tuple_hash hs hp b"
  "four_tuple_eq c d \<Longrightarrow> four_tuple_hash hs hp c = four_tuple_hash hs hp d"
  by (simp_all add: two_tuple_eq_def four_tuple_eq_def two_tuple_hash_def four_tuple_hash_def)

text \<open>Receive flows that differ in the tag only are equal and have different hashes, unless the tags collide.\<close>

lemma equal_receive_flows_hash:
  assumes "four_tuple_eq (receive_flow f) (receive_flow g)"
  shows "receive_flow_hash hs hp ht f = receive_flow_hash hs hp ht g \<longleftrightarrow> ht (m_tag f) = ht (m_tag g)"
proof -
  have "x XOR a = x XOR b \<longleftrightarrow> a = b" for x a b :: u64
  proof
    assume "x XOR a = x XOR b"
    then have "x XOR (x XOR a) = x XOR (x XOR b)" by simp
    then show "a = b" by (simp add: xor.assoc[symmetric])
  qed simp
  then show ?thesis using equal_flows_equal_hash(2)[OF assms] by (simp add: receive_flow_hash_def)
qed

lemma tag_changes_hash:
  assumes "\<And>a b. ht a = ht b \<Longrightarrow> a = b"
  shows "four_tuple_eq (receive_flow (ReceiveFlow_to i ip port 1)) (receive_flow (ReceiveFlow_to i ip port 2))
    \<and> receive_flow_hash hs hp ht (ReceiveFlow_to i ip port 1) \<noteq> receive_flow_hash hs hp ht (ReceiveFlow_to i ip port 2)"
proof -
  have eq: "four_tuple_eq (receive_flow (ReceiveFlow_to i ip port 1)) (receive_flow (ReceiveFlow_to i ip port 2))"
    by (simp add: ReceiveFlow_to_def four_tuple_eq_def two_tuple_eq_def)
  have "m_tag (ReceiveFlow_to i ip port 1) \<noteq> m_tag (ReceiveFlow_to i ip port 2)" by (simp add: ReceiveFlow_to_def)
  then have "ht (m_tag (ReceiveFlow_to i ip port 1)) \<noteq> ht (m_tag (ReceiveFlow_to i ip port 2))" using assms by blast
  then show ?thesis using eq equal_receive_flows_hash[OF eq] by blast
qed

end
