(* ===== verification/Ipmx_Sender.thy ===== *)
theory Ipmx_Sender
  imports Rtp_Send_Stream Ipmx_Report Send_Stream Flows
begin

text \<open>
  The IPMX sender node, \<^verbatim>\<open>io_node/senders/ipmx_sender_io_node.cpp\<close>: video streams whose frames are committed chunk by
  chunk, a report for every frame that begins on the wire, and the loop over all streams of a node.  The chunk of
  the report stream is shared by all senders; memory and the state of the Rivermax library and of the clock are
  passed through.  The lemmas bound the frames in flight, show the schedule of the chunks and that a started node
  never leaves the defined behaviour of its report path.
\<close>

section \<open>The environment\<close>

text \<open>The Rivermax calls, the address of a socket, the size of a cache line, the clock of the network card, sleeping
  and the pending signal.\<close>

record 'l ipmx_env =
  env_gen :: "'l rmx_output_gen"
  env_media :: "'l rmx_output_media"
  env_socket_address :: "string \<Rightarrow> u16 \<Rightarrow> nat"
  env_mkey_invalid :: u32
  get_cache_line_size :: u64
  get_nic_time_now_ns :: "'l \<Rightarrow> u64 \<times> 'l"
  sleep_for :: "u64 \<Rightarrow> 'l \<Rightarrow> 'l"
  get_received_signal :: "'l \<Rightarrow> int"

definition LAST_CHUNK_IN_FRAME_TOKEN :: u64 where "LAST_CHUNK_IN_FRAME_TOKEN = 0xffffffffffffffff"
definition sizeof_RTCPCompoundPacket :: u64 where "sizeof_RTCPCompoundPacket = 476"

section \<open>Fields of the session description\<close>

text \<open>The regular expression \<open>prefix.*?suffix\<close>, for a prefix and a suffix that stand for themselves: the nearest suffix on
  the line.\<close>

fun after_suffix :: "string \<Rightarrow> string \<Rightarrow> string option" where
  "after_suffix suf [] = (if suf = [] then Some [] else None)"
| "after_suffix suf (c # cs) =
    (if take (length suf) (c # cs) = suf then Some (drop (length suf) (c # cs))
     else if c = CHR 0x0A \<or> c = CHR 0x0D then None else after_suffix suf cs)"

lemma after_suffix_length: "after_suffix suf cs = Some rest \<Longrightarrow> length rest \<le> length cs"
  by (induction suf cs rule: after_suffix.induct) (auto split: if_splits)

function edit_field :: "string \<Rightarrow> string \<Rightarrow> string \<Rightarrow> string \<Rightarrow> string" where
  "edit_field pre replacement suf [] = []"
| "edit_field pre replacement suf (c # cs) =
    (case (if pre \<noteq> [] \<and> take (length pre) (c # cs) = pre then after_suffix suf (drop (length pre) (c # cs)) else None) of
       Some rest \<Rightarrow> pre @ replacement @ suf @ edit_field pre replacement suf rest
     | None \<Rightarrow> c # edit_field pre replacement suf cs)"
  by pat_completeness auto
termination
proof (relation "measure (\<lambda>(pre, replacement, suf, cs). length cs)")
  fix pre suf replacement cs rest and c :: char
  assume "(if pre \<noteq> [] \<and> take (length pre) (c # cs) = pre then after_suffix suf (drop (length pre) (c # cs)) else None) = Some rest"
  then have "pre \<noteq> []" "length rest \<le> length (drop (length pre) (c # cs))"
    by (auto dest: after_suffix_length split: if_splits)
  then show "((pre, replacement, suf, rest), pre, replacement, suf, c # cs) \<in> measure (\<lambda>(pre, replacement, suf, cs). length cs)"
    by (cases pre) auto
qed auto

text \<open>The pattern is a regular expression and the replacement a format string.  \<open>None\<close> is a call outside of this model, whose
  prefix is empty, or whose strings have characters with a meaning of their own there.\<close>

definition regex_literal :: "string \<Rightarrow> bool" where
  "regex_literal s \<longleftrightarrow> list_all (\<lambda>c. c \<notin> set (CHR 0x5C # ''^$.*+?()[]{}|'')) s"

definition modify_sdp_field :: "string \<Rightarrow> string \<Rightarrow> string \<Rightarrow> string \<Rightarrow> string option" where
  "modify_sdp_field pre replacement suf sdp_contents =
    (if pre \<noteq> [] \<and> regex_literal pre \<and> regex_literal suf \<and> CHR ''$'' \<notin> set replacement
     then Some (edit_field pre replacement suf sdp_contents) else None)"

section \<open>The handler of the reports\<close>

text \<open>The handler owns the first chunk of the report stream; nothing else uses that chunk.\<close>

record SharedMessageHandler =
  m_pending_message_count :: u64
  m_chunk_handle :: GenericChunk

definition SharedMessageHandler_new :: "GenericChunk \<Rightarrow> SharedMessageHandler" where
  "SharedMessageHandler_new chunk_handle = \<lparr>m_pending_message_count = 0, m_chunk_handle = chunk_handle\<rparr>"

text \<open>\<open>get_packet(0)[0]\<close>; a chunk without packets, or a packet without sub-blocks, is undefined.\<close>

definition first_region :: "GenericChunk \<Rightarrow> rmx_mem_region option" where
  "first_region c = (case m_packets c of (region # _) # _ \<Rightarrow> Some region | _ \<Rightarrow> None)"

definition get_next_buffer ::
  "'l rmx_output_gen \<Rightarrow> SharedMessageHandler \<times> 'l \<Rightarrow> (ReturnStatus \<times> rmx_mem_region option \<times> 'l) option" where
  "get_next_buffer rmx = (\<lambda>(h, l).
    let (status, l) = gen_chunk_get_next rmx (m_chunk_handle h) l
    in if status \<noteq> success then Some (status, None, l)
       else map_option (\<lambda>mreg. (success, Some mreg, l)) (first_region (m_chunk_handle h)))"

definition commit_message ::
  "'l rmx_output_gen \<Rightarrow> rmx_mem_region \<Rightarrow> u64 \<Rightarrow> nat \<Rightarrow> SharedMessageHandler \<times> 'l \<Rightarrow> (ReturnStatus \<times> SharedMessageHandler \<times> 'l) option" where
  "commit_message rmx mreg sender_id address = (\<lambda>(h, l).
    let l = set_dest_address rmx address (m_chunk_handle h) l
    in if first_region (m_chunk_handle h) = None then None
       else
         let c = place_packet 0 ((m_packets (m_chunk_handle h) ! 0)[0 := mreg]) (m_chunk_handle h);
             (status, l) = apply_packets_layout rmx c l;
             h = h\<lparr>m_chunk_handle := c\<rparr>
         in if status \<noteq> success then Some (status, h, l)
            else
              let (_, l) = gen_chunk_mark rmx c sender_id l;
                  (_, l) = gen_chunk_commit rmx c 0 l
              in Some (success, h\<lparr>m_pending_message_count := m_pending_message_count h + 1\<rparr>, l))"

text \<open>On success the identifier of the sender and the time stamp.\<close>

definition check_completion ::
  "'l rmx_output_gen \<Rightarrow> SharedMessageHandler \<times> 'l \<Rightarrow> ReturnStatus \<times> (u64 \<times> u64) option \<times> SharedMessageHandler \<times> 'l" where
  "check_completion rmx = (\<lambda>(h, l).
    if m_pending_message_count h = 0 then (no_completion, None, h, l)
    else
      let (status, l) = gen_chunk_poll rmx (m_chunk_handle h) l
      in if status = no_completion then (status, None, h, l)
         else if status \<noteq> success then (status, None, h, l)
         else
           (case gen_chunk_last_completion rmx (m_chunk_handle h) l of
              None \<Rightarrow> (failure, None, h, l)
            | Some (tx_hw_timestamp, compl_token) \<Rightarrow>
                (success, Some (compl_token, tx_hw_timestamp), h\<lparr>m_pending_message_count := m_pending_message_count h - 1\<rparr>, l)))"

section \<open>The sender of a stream\<close>

text \<open>The stream is an object of two classes: \<open>m_stream\<close> holds what the sending class adds to \<open>m_stream_base\<close>.
  \<open>m_report_chunk_handler\<close> tells whether the pointer to the shared handler is set.\<close>

record IPMXStreamSender =
  m_sender_id :: u64
  m_stream_number :: u64
  m_stream :: RtpVideoSendStream
  m_stream_base :: MediaSendStream
  m_mem_blockset :: MediaStreamMemBlockset
  m_media_chunk_handler :: "MediaChunk option"
  m_report_dst_flow :: TwoTupleFlow
  m_report_chunk_handler :: bool
  ips_media_settings :: MediaSettings
  ips_chunks_in_mem_block :: u64
  ips_packets_in_chunk :: u64
  ips_packet_payload_size :: u16
  ips_data_stride_size :: u64
  ips_start_send_time_ns :: u64
  m_committed_reports :: u64
  m_finished_reports :: u64
  m_committed_first_chunks :: u64
  m_finished_first_chunks :: u64
  m_committed_fields :: u64
  m_finished_fields :: u64
  m_chunk_in_field_counter :: u64
  m_last_report_trigger_ts :: u64
  m_last_report_completion_ts :: u64
  m_chunk_pending :: bool
  m_period_sent_frames_cnt :: u64
  m_period_report_delay_sum :: u64
  m_period_report_delay_max :: u64
  m_period_report_delay_min :: u64
  m_report :: RTCPCompoundPacket
  m_report_size :: u64

definition ipmx_configure_memory_layout :: "u32 \<Rightarrow> u64 \<Rightarrow> u64 \<Rightarrow> u16 \<Rightarrow> MediaStreamMemBlockset option" where
  "ipmx_configure_memory_layout mkey_invalid chunks_in_mem_block packets_in_chunk packet_payload_size = do {
    let m_mem_block_payload_sizes = replicate (unat (chunks_in_mem_block * packets_in_chunk)) packet_payload_size;
    b \<leftarrow> set_rivermax_to_allocate_memory mkey_invalid (MediaStreamMemBlockset_new 1 1 chunks_in_mem_block);
    (status, b) \<leftarrow> set_block_layout 0 m_mem_block_payload_sizes None b;
    Some b }"

definition IPMXStreamSender_new ::
  "'l ipmx_env \<Rightarrow> u64 \<Rightarrow> TwoTupleFlow \<Rightarrow> TwoTupleFlow \<Rightarrow> MediaSettings \<Rightarrow> u64 \<Rightarrow> u64 \<Rightarrow> u16 \<Rightarrow> u64
    \<Rightarrow> (parse_error + IPMXStreamSender) option" where
  "IPMXStreamSender_new env sender_id src_address dst_address media_settings chunks_in_mem_block packets_in_chunk
      packet_payload_size data_stride_size = do {
    sdp0 \<leftarrow> modify_sdp_field ''c=IN IP4 '' (flow_ip dst_address) ''/'' (sdp media_settings);
    sdp1 \<leftarrow> modify_sdp_field ''incl IN IP4 '' (flow_ip dst_address) '' '' sdp0;
    sdp2 \<leftarrow> modify_sdp_field ''m=video '' (std_to_string (unat (flow_port dst_address))) '' '' sdp1;
    let ms = media_settings\<lparr>sdp := sdp2\<rparr>;
    let stream_settings = \<lparr>mss_local_address = env_socket_address env (flow_ip src_address) (flow_port src_address),
        mss_media_settings = ms, mss_packets_per_chunk = packets_in_chunk, mss_packet_payload_size = packet_payload_size,
        mss_data_stride_size = data_stride_size, mss_app_header_stride_size = 0, mss_dscp = 0, mss_pcp = 0, mss_ecn = 0\<rparr>;
    blocks \<leftarrow> ipmx_configure_memory_layout (env_mkey_invalid env) chunks_in_mem_block packets_in_chunk packet_payload_size;
    template \<leftarrow> prepare_compound_report_template ms (flow_id dst_address) (flow_ip src_address);
    Some (case template of
        Inl e \<Rightarrow> Inl e
      | Inr (report_size, report) \<Rightarrow>
          Inr \<lparr>m_sender_id = sender_id, m_stream_number = flow_id dst_address,
            m_stream = RtpVideoSendStream_new ms packet_payload_size False 0 data_stride_size,
            m_stream_base = MediaSendStream_with_blocks stream_settings blocks, m_mem_blockset = blocks,
            m_media_chunk_handler = None,
            m_report_dst_flow = \<lparr>flow_id = flow_id dst_address, flow_ip = flow_ip dst_address, flow_port = flow_port dst_address + 1\<rparr>,
            m_report_chunk_handler = False, ips_media_settings = ms, ips_chunks_in_mem_block = chunks_in_mem_block,
            ips_packets_in_chunk = packets_in_chunk, ips_packet_payload_size = packet_payload_size,
            ips_data_stride_size = data_stride_size, ips_start_send_time_ns = 0, m_committed_reports = 0, m_finished_reports = 0,
            m_committed_first_chunks = 0, m_finished_first_chunks = 0, m_committed_fields = 0, m_finished_fields = 0,
            m_chunk_in_field_counter = 0, m_last_report_trigger_ts = 0, m_last_report_completion_ts = 0, m_chunk_pending = False,
            m_period_sent_frames_cnt = 0, m_period_report_delay_sum = 0, m_period_report_delay_max = 0,
            m_period_report_delay_min = 0, m_report = report, m_report_size = word_of_nat report_size\<rparr>) }"

definition notify_report_completion :: "u64 \<Rightarrow> IPMXStreamSender \<Rightarrow> ReturnStatus \<times> IPMXStreamSender" where
  "notify_report_completion completion_timestamp s =
    (let s = s\<lparr>m_last_report_completion_ts := completion_timestamp\<rparr>;
         report_delay = m_last_report_completion_ts s - m_last_report_trigger_ts s
     in if m_committed_reports s \<le> m_finished_reports s then (failure, s)
        else
          let s = s\<lparr>m_finished_reports := m_finished_reports s + 1, m_period_report_delay_sum := m_period_report_delay_sum s + report_delay\<rparr>;
              s = (if m_period_sent_frames_cnt s = 0
                   then s\<lparr>m_period_report_delay_max := report_delay, m_period_report_delay_min := report_delay\<rparr>
                   else s\<lparr>m_period_report_delay_max := (if report_delay > m_period_report_delay_max s then report_delay else m_period_report_delay_max s),
                          m_period_report_delay_min := (if report_delay < m_period_report_delay_min s then report_delay else m_period_report_delay_min s)\<rparr>)
          in (success, s\<lparr>m_period_sent_frames_cnt := m_period_sent_frames_cnt s + 1\<rparr>))"

text \<open>\<open>IPMXStreamSender::calculate_send_time_ns\<close> cuts the time to an integer.\<close>

definition ipmx_calculate_send_time_ns :: "u64 \<Rightarrow> IPMXStreamSender \<Rightarrow> (u64 \<times> IPMXStreamSender) option" where
  "ipmx_calculate_send_time_ns earliest_start_time_ns s = do {
    (time_ns, stream) \<leftarrow> calculate_send_time_ns earliest_start_time_ns (m_stream s);
    n \<leftarrow> to_unsigned 64 time_ns;
    Some (word_of_nat n, s\<lparr>m_stream := stream\<rparr>) }"

definition set_initial_timestamps :: "u64 \<Rightarrow> u64 \<Rightarrow> IPMXStreamSender \<Rightarrow> IPMXStreamSender" where
  "set_initial_timestamps send_start_time report_trigger_time s =
    s\<lparr>ips_start_send_time_ns := send_start_time, m_last_report_trigger_ts := report_trigger_time\<rparr>"

text \<open>The time at which field \<open>n\<close> begins: the interval is a floating point number, and so are the product and the sum.\<close>

definition field_time_ns :: "IPMXStreamSender \<Rightarrow> u64 \<Rightarrow> u64 option" where
  "field_time_ns s n =
    map_option word_of_nat (to_unsigned 64
      (dbl (dbl (of_nat (unat (ips_start_send_time_ns s)))
            + dbl (frame_field_time_interval_ns (ips_media_settings s) * dbl (of_nat (unat n))))))"

text \<open>The state of a sender, the shared handler, memory and the library.\<close>

type_synonym 'l sender_world = "IPMXStreamSender \<times> SharedMessageHandler \<times> mem \<times> 'l"

definition commit_sender_report :: "'l ipmx_env \<Rightarrow> 'l sender_world \<Rightarrow> (ReturnStatus \<times> 'l sender_world) option" where
  "commit_sender_report env = (\<lambda>(s, h, m, l).
    if \<not> m_report_chunk_handler s then None
    else do {
      (status, mreg, l) \<leftarrow> get_next_buffer (env_gen env) (h, l);
      (case mreg of
         None \<Rightarrow> Some (status, s, h, m, l)
       | Some mreg \<Rightarrow> do {
           t \<leftarrow> field_time_ns s (m_finished_first_chunks s);
           rtp_ts \<leftarrow> to_unsigned 32 (time_to_rtp_timestamp (dbl (of_nat (unat t))) (sint (ucast (sample_rate (ips_media_settings s)) :: u32)));
           let sent_pkt_cnt = (ucast (m_finished_fields s * ucast (packets_in_frame_field (ips_media_settings s))) :: u32);
           let payload_octets_in_packet = (ucast (ips_packet_payload_size s) :: u32) - word_of_nat (RTP_HEADER_SIZE + RTP_SINGLE_SRD_HEADER_SIZE);
           let report = update_sender_report t (word_of_nat rtp_ts) sent_pkt_cnt payload_octets_in_packet (m_report s);
           let s = s\<lparr>m_report := report\<rparr>;
           let m = mem_write m (unat (addr mreg)) (compound_bytes report);
           let mreg = mreg\<lparr>region_length := m_report_size s\<rparr>;
           (status, h, l) \<leftarrow> commit_message (env_gen env) mreg (m_sender_id s)
              (env_socket_address env (flow_ip (m_report_dst_flow s)) (flow_port (m_report_dst_flow s))) (h, l);
           if status \<noteq> success then Some (status, s, h, m, l)
           else Some (success, s\<lparr>m_committed_reports := m_committed_reports s + 1\<rparr>, h, m, l) }) })"

definition process_media_completion :: "'l ipmx_env \<Rightarrow> 'l sender_world \<Rightarrow> (ReturnStatus \<times> 'l sender_world) option" where
  "process_media_completion env = (\<lambda>(s, h, m, l). do {
    c \<leftarrow> m_media_chunk_handler s;
    (case media_chunk_last_completion (env_media env) c l of
       None \<Rightarrow> Some (failure, s, h, m, l)
     | Some (tx_hw_timestamp, compl_token) \<Rightarrow>
         if compl_token = LAST_CHUNK_IN_FRAME_TOKEN
         then Some (success, s\<lparr>m_finished_fields := m_finished_fields s + 1\<rparr>, h, m, l)
         else if compl_token \<noteq> m_finished_first_chunks s then Some (failure, s, h, m, l)
         else commit_sender_report env
                (s\<lparr>m_last_report_trigger_ts := tx_hw_timestamp, m_finished_first_chunks := m_finished_first_chunks s + 1\<rparr>, h, m, l)) })"

definition track_media_completions :: "'l ipmx_env \<Rightarrow> 'l sender_world \<Rightarrow> (ReturnStatus \<times> 'l sender_world) option" where
  "track_media_completions env = (\<lambda>(s, h, m, l). do {
    c \<leftarrow> m_media_chunk_handler s;
    let (status, l) = media_chunk_poll (env_media env) c l;
    (if status = no_completion then Some (success, s, h, m, l)
     else if status = signal_received then Some (signal_received, s, h, m, l)
     else if status = success then process_media_completion env (s, h, m, l)
     else Some (status, s, h, m, l)) })"

definition has_free_frame_buffer :: "IPMXStreamSender \<Rightarrow> bool" where
  "has_free_frame_buffer s \<longleftrightarrow> m_committed_fields s < m_finished_fields s + frames_fields_in_mem_block (ips_media_settings s)"

definition is_report_for_current_frame_sent :: "IPMXStreamSender \<Rightarrow> bool" where
  "is_report_for_current_frame_sent s \<longleftrightarrow> m_finished_reports s \<ge> m_finished_fields s + 1"

text \<open>The wake-up time when the sender can sleep.\<close>

definition can_sleep :: "IPMXStreamSender \<Rightarrow> u64 option option" where
  "can_sleep s =
    (if has_free_frame_buffer s \<or> \<not> is_report_for_current_frame_sent s then Some None
     else map_option Some (field_time_ns s (m_finished_first_chunks s)))"

section \<open>Committing chunks\<close>

text \<open>The parts of \<open>commit_next_media_chunk\<close>: the chunk that is pending or a new one, prepared; its token and its
  time; the counters after a commit.\<close>

definition chunk_to_commit :: "'l rmx_output_media \<Rightarrow> MediaChunk \<Rightarrow> IPMXStreamSender \<times> mem \<times> 'l \<Rightarrow> (ReturnStatus \<times> IPMXStreamSender \<times> mem \<times> 'l) option" where
  "chunk_to_commit rmx c = (\<lambda>(s, m, l).
    if \<not> m_chunk_pending s then
      (let (status, l) = media_stream_get_next_chunk rmx c l
       in if status \<noteq> success then Some (status, s, m, l)
          else map_option (\<lambda>(stream, m). (success, s\<lparr>m_stream := stream\<rparr>, m, l))
                 (prepare_chunk_to_send (get_app_hdr_ptr rmx c l) (get_data_ptr rmx c l) (unat (media_chunk_length c)) (m_stream s, m)))
    else Some (success, s\<lparr>m_chunk_pending := False\<rparr>, m, l))"

definition mark_chunk :: "'l rmx_output_media \<Rightarrow> MediaChunk \<Rightarrow> IPMXStreamSender \<Rightarrow> 'l \<Rightarrow> (ReturnStatus \<times> u64 \<times> 'l) option" where
  "mark_chunk rmx c s l =
    (if m_chunk_in_field_counter s = 0 then
       (let (status, l) = media_chunk_mark rmx c (m_committed_first_chunks s) l
        in if status \<noteq> success then Some (status, 0, l)
           else map_option (\<lambda>t. (success, t, l)) (field_time_ns s (m_committed_fields s)))
     else if m_chunk_in_field_counter s = chunks_in_frame_field (ips_media_settings s) - 1
     then (let (status, l) = media_chunk_mark rmx c LAST_CHUNK_IN_FRAME_TOKEN l in Some (status, 0, l))
     else Some (success, 0, l))"

definition count_chunk :: "IPMXStreamSender \<Rightarrow> IPMXStreamSender" where
  "count_chunk s =
    (let s = (if m_chunk_in_field_counter s = 0 then s\<lparr>m_committed_first_chunks := m_committed_first_chunks s + 1\<rparr> else s);
         s = s\<lparr>m_chunk_in_field_counter := m_chunk_in_field_counter s + 1\<rparr>
     in if m_chunk_in_field_counter s = chunks_in_frame_field (ips_media_settings s)
        then s\<lparr>m_chunk_in_field_counter := 0, m_committed_fields := m_committed_fields s + 1\<rparr> else s)"

definition commit_next_media_chunk ::
  "'l rmx_output_media \<Rightarrow> IPMXStreamSender \<times> mem \<times> 'l \<Rightarrow> (ReturnStatus \<times> IPMXStreamSender \<times> mem \<times> 'l) option" where
  "commit_next_media_chunk rmx = (\<lambda>(s, m, l). do {
    c \<leftarrow> m_media_chunk_handler s;
    (status, s, m, l) \<leftarrow> chunk_to_commit rmx c (s, m, l);
    if status \<noteq> success then Some (status, s, m, l)
    else do {
      (status, commit_timestamp_ns, l) \<leftarrow> mark_chunk rmx c s l;
      if status \<noteq> success then Some (status, s, m, l)
      else
        let (status, l) = media_stream_commit_chunk rmx c commit_timestamp_ns l
        in if status = hw_send_queue_full then Some (success, s\<lparr>m_chunk_pending := True\<rparr>, m, l)
           else if status \<noteq> success then Some (status, s, m, l)
           else Some (success, count_chunk s, m, l) } })"

text \<open>The average of the delays, which is printed with the minimum and the maximum, and the reset of the period.\<close>

definition print_report_stats :: "IPMXStreamSender \<Rightarrow> (u64 \<times> IPMXStreamSender) option" where
  "print_report_stats s = do {
     avg_delay \<leftarrow> (if m_period_sent_frames_cnt s \<noteq> 0
                  then checked_div (m_period_report_delay_sum s) (m_period_sent_frames_cnt s) else Some 0);
     Some (avg_delay, s\<lparr>m_period_sent_frames_cnt := 0, m_period_report_delay_sum := 0\<rparr>) }"

fun print_senders_stats :: "IPMXStreamSender list \<Rightarrow> IPMXStreamSender list option" where
  "print_senders_stats [] = Some []"
| "print_senders_stats (s # ss) = do {
     (avg_delay, s) \<leftarrow> print_report_stats s;
     ss \<leftarrow> print_senders_stats ss;
     Some (s # ss) }"

definition init_media_chunk_handler :: "'l rmx_output_media \<Rightarrow> IPMXStreamSender \<times> 'l \<Rightarrow> IPMXStreamSender \<times> 'l" where
  "init_media_chunk_handler rmx = (\<lambda>(s, l).
    let (c, l) = MediaChunk_new rmx (m_media_stream_id (m_stream_base s)) (ips_packets_in_chunk s) False l
    in (s\<lparr>m_media_chunk_handler := Some c\<rparr>, l))"

definition set_report_chunk_handler :: "IPMXStreamSender \<Rightarrow> IPMXStreamSender" where
  "set_report_chunk_handler s = s\<lparr>m_report_chunk_handler := True\<rparr>"

definition start_media_stream :: "'l rmx_output_media \<Rightarrow> IPMXStreamSender \<times> 'l \<Rightarrow> ReturnStatus \<times> IPMXStreamSender \<times> 'l" where
  "start_media_stream rmx = (\<lambda>(s, l).
    let (status, base, l) = media_stream_create rmx (m_stream_base s, l) in (status, s\<lparr>m_stream_base := base\<rparr>, l))"

definition stop_media_stream :: "'l rmx_output_media \<Rightarrow> IPMXStreamSender \<times> 'l \<Rightarrow> (ReturnStatus \<times> IPMXStreamSender \<times> 'l) option" where
  "stop_media_stream rmx = (\<lambda>(s, l). do {
    c \<leftarrow> m_media_chunk_handler s;
    let (status, l) = cancel_unsent rmx c l;
    if status \<noteq> success then Some (status, s, l)
    else do {
      (status, base, l) \<leftarrow> media_stream_destroy rmx (m_stream_base s, l);
      Some (status, s\<lparr>m_stream_base := base\<rparr>, l) } })"

section \<open>The node\<close>

record IPMXSenderIONode =
  m_stream_senders :: "IPMXStreamSender list"
  m_rtcp_stream :: GenericSendStream
  m_report_handler :: "SharedMessageHandler option"
  isn_media_settings :: MediaSettings
  isn_sleep_between_operations :: bool
  isn_packet_payload_size :: u16
  isn_chunks_in_mem_block :: u64
  isn_packets_in_chunk :: u64
  isn_data_stride_size :: u64
  m_sender_report_buffer_size :: u64
  m_report_mem_region :: rmx_mem_region
  isn_start_send_time_ns :: u64

fun initialize_senders ::
  "'l ipmx_env \<Rightarrow> TwoTupleFlow \<Rightarrow> MediaSettings \<Rightarrow> u64 \<Rightarrow> u64 \<Rightarrow> u16 \<Rightarrow> u64 \<Rightarrow> u64 \<Rightarrow> TwoTupleFlow list
    \<Rightarrow> (parse_error + IPMXStreamSender list) option" where
  "initialize_senders env src ms chunks packets payload stride sender_id [] = Some (Inr [])"
| "initialize_senders env src ms chunks packets payload stride sender_id (dst # dsts) = do {
     r \<leftarrow> IPMXStreamSender_new env sender_id src dst ms chunks packets payload stride;
     (case r of
        Inl e \<Rightarrow> Some (Inl e)
      | Inr s \<Rightarrow> map_option (\<lambda>rest. case rest of Inl e \<Rightarrow> Inl e | Inr ss \<Rightarrow> Inr (s # ss))
          (initialize_senders env src ms chunks packets payload stride (sender_id + 1) dsts)) }"

text \<open>The first destination of an empty vector is undefined.\<close>

definition initialize_streams ::
  "'l ipmx_env \<Rightarrow> TwoTupleFlow \<Rightarrow> TwoTupleFlow list \<Rightarrow> IPMXSenderIONode \<Rightarrow> (parse_error + IPMXSenderIONode) option" where
  "initialize_streams env src_address dst_addresses n =
    (case dst_addresses of
       [] \<Rightarrow> None
     | dst # _ \<Rightarrow>
         let settings = \<lparr>m_source_address = env_socket_address env (flow_ip src_address) (flow_port src_address),
               m_destination_address = env_socket_address env (flow_ip dst) (flow_port dst), m_fixed_dest_addr = False,
               m_pp_rate = \<lparr>bps = 0, max_burst_in_packets = 0\<rparr>, m_num_of_requested_chunks = word_of_nat (length dst_addresses),
               m_num_of_packets_in_chunk = 1, m_packet_typical_payload_size = ucast (m_sender_report_buffer_size n),
               m_packet_typical_app_header_size = 0\<rparr>;
             n = n\<lparr>m_rtcp_stream := GenericSendStream_new settings\<rparr>
         in map_option (\<lambda>r. case r of Inl e \<Rightarrow> Inl e | Inr ss \<Rightarrow> Inr (n\<lparr>m_stream_senders := m_stream_senders n @ ss\<rparr>))
              (initialize_senders env src_address (isn_media_settings n) (isn_chunks_in_mem_block n) (isn_packets_in_chunk n)
                 (isn_packet_payload_size n) (isn_data_stride_size n) 0 dst_addresses))"

definition IPMXSenderIONode_new ::
  "'l ipmx_env \<Rightarrow> TwoTupleFlow \<Rightarrow> TwoTupleFlow list \<Rightarrow> MediaSettings \<Rightarrow> bool \<Rightarrow> u16 \<Rightarrow> u64 \<Rightarrow> u64 \<Rightarrow> (parse_error + IPMXSenderIONode) option" where
  "IPMXSenderIONode_new env src_address dst_addresses ms sleeping packet_payload_size chunks_in_mem_block packets_in_chunk =
    initialize_streams env src_address dst_addresses
      \<lparr>m_stream_senders = [], m_rtcp_stream = GenericSendStream_new \<lparr>m_source_address = 0, m_destination_address = 0,
          m_fixed_dest_addr = False, m_pp_rate = \<lparr>bps = 0, max_burst_in_packets = 0\<rparr>, m_num_of_requested_chunks = 0,
          m_num_of_packets_in_chunk = 0, m_packet_typical_payload_size = 0, m_packet_typical_app_header_size = 0\<rparr>,
       m_report_handler = None, isn_media_settings = ms, isn_sleep_between_operations = sleeping,
       isn_packet_payload_size = packet_payload_size, isn_chunks_in_mem_block = chunks_in_mem_block,
       isn_packets_in_chunk = packets_in_chunk,
       isn_data_stride_size = align_up_pow2 (ucast packet_payload_size) (get_cache_line_size env),
       m_sender_report_buffer_size = align_up_pow2 sizeof_RTCPCompoundPacket (get_cache_line_size env),
       m_report_mem_region = \<lparr>addr = 0, region_length = 0, mkey = 0\<rparr>, isn_start_send_time_ns = 0\<rparr>"

definition query_memory_size :: "IPMXSenderIONode \<Rightarrow> ReturnStatus \<times> u64" where
  "query_memory_size n = (success, get_payload_memory_length (m_rtcp_stream n))"

definition initialize_memory :: "u64 \<Rightarrow> u32 \<Rightarrow> IPMXSenderIONode \<Rightarrow> u64 \<times> IPMXSenderIONode" where
  "initialize_memory memory key n =
    (let tx_buffer_len = get_memory_length (m_rtcp_stream n)
     in (tx_buffer_len, n\<lparr>m_report_mem_region := \<lparr>addr = memory, region_length = tx_buffer_len, mkey = key\<rparr>\<rparr>))"

text \<open>The senders that were reached are returned changed, the others as they were.\<close>

fun send_reports :: "'l ipmx_env \<Rightarrow> u64 \<Rightarrow> IPMXStreamSender list \<Rightarrow> SharedMessageHandler \<times> mem \<times> 'l
    \<Rightarrow> (ReturnStatus \<times> IPMXStreamSender list \<times> SharedMessageHandler \<times> mem \<times> 'l) option" where
  "send_reports env start [] w = Some (success, [], w)"
| "send_reports env start (s # ss) (h, m, l) = do {
     let (time_now, l) = get_nic_time_now_ns env l;
     (status, s, h, m, l) \<leftarrow> commit_sender_report env (set_initial_timestamps start time_now s, h, m, l);
     if status \<noteq> success then Some (status, s # ss, h, m, l)
     else map_option (\<lambda>(status, ss, w). (status, s # ss, w)) (send_reports env start ss (h, m, l)) }"

definition send_initial_reports :: "'l ipmx_env \<Rightarrow> IPMXSenderIONode \<times> mem \<times> 'l \<Rightarrow> (ReturnStatus \<times> IPMXSenderIONode \<times> mem \<times> 'l) option" where
  "send_initial_reports env = (\<lambda>(n, m, l). do {
    h \<leftarrow> m_report_handler n;
    (status, ss, h, m, l) \<leftarrow> send_reports env (isn_start_send_time_ns n) (m_stream_senders n) (h, m, l);
    Some (status, n\<lparr>m_stream_senders := ss, m_report_handler := Some h\<rparr>, m, l) })"

definition check_report_completion :: "'l ipmx_env \<Rightarrow> IPMXSenderIONode \<times> 'l \<Rightarrow> (ReturnStatus \<times> IPMXSenderIONode \<times> 'l) option" where
  "check_report_completion env = (\<lambda>(n, l). do {
    h \<leftarrow> m_report_handler n;
    let (status, completion, h, l) = check_completion (env_gen env) (h, l);
    let n = n\<lparr>m_report_handler := Some h\<rparr>;
    (case completion of
       None \<Rightarrow> Some (if status = no_completion then success else status, n, l)
     | Some (sender_id, tx_hw_timestamp) \<Rightarrow>
         if unat sender_id \<ge> length (m_stream_senders n) then Some (failure, n, l)
         else do {
           sender \<leftarrow> checked_nth (m_stream_senders n) (unat sender_id);
           let (status, s) = notify_report_completion tx_hw_timestamp sender;
           Some (status, n\<lparr>m_stream_senders := (m_stream_senders n)[unat sender_id := s]\<rparr>, l) }) })"

text \<open>The turn of one sender: completions, then a chunk when a frame buffer is free.\<close>

definition sender_turn :: "'l ipmx_env \<Rightarrow> 'l sender_world \<Rightarrow> (ReturnStatus \<times> 'l sender_world) option" where
  "sender_turn env w = do {
    (status, s, h, m, l) \<leftarrow> track_media_completions env w;
    if status \<noteq> success then Some (status, s, h, m, l)
    else if has_free_frame_buffer s
    then map_option (\<lambda>(status, s, m, l). (status, s, h, m, l)) (commit_next_media_chunk (env_media env) (s, m, l))
    else Some (success, s, h, m, l) }"

text \<open>The earliest wake-up time while all senders can sleep.\<close>

definition sleep_until :: "bool \<Rightarrow> u64 \<Rightarrow> IPMXStreamSender \<Rightarrow> (bool \<times> u64) option" where
  "sleep_until all_senders_can_sleep latest_wakeup_time s =
    (if all_senders_can_sleep
     then map_option (\<lambda>r. case r of None \<Rightarrow> (False, latest_wakeup_time)
                          | Some wakeup_time \<Rightarrow> (True, if latest_wakeup_time > wakeup_time then wakeup_time else latest_wakeup_time)) (can_sleep s)
     else Some (False, latest_wakeup_time))"

fun sender_turns :: "'l ipmx_env \<Rightarrow> bool \<Rightarrow> u64 \<Rightarrow> IPMXStreamSender list \<Rightarrow> SharedMessageHandler \<times> mem \<times> 'l
    \<Rightarrow> (ReturnStatus \<times> bool \<times> u64 \<times> IPMXStreamSender list \<times> SharedMessageHandler \<times> mem \<times> 'l) option" where
  "sender_turns env sleeping wakeup [] w = Some (success, sleeping, wakeup, [], w)"
| "sender_turns env sleeping wakeup (s # ss) w = do {
     (status, s, w) \<leftarrow> sender_turn env (s, w);
     if status \<noteq> success then Some (status, sleeping, wakeup, s # ss, w)
     else do {
       (sleeping, wakeup) \<leftarrow> sleep_until sleeping wakeup s;
       (status, sleeping, wakeup, ss, w) \<leftarrow> sender_turns env sleeping wakeup ss w;
       Some (status, sleeping, wakeup, s # ss, w) } }"

text \<open>Waiting for a time: by sleeping, or by reading the clock until the time has come.\<close>

partial_function (option) wait_for_clock :: "('l \<Rightarrow> u64 \<times> 'l) \<Rightarrow> u64 \<Rightarrow> 'l \<Rightarrow> 'l option" where
  "wait_for_clock clock return_time_ns l =
    (case clock l of (now, l) \<Rightarrow> if now < return_time_ns then wait_for_clock clock return_time_ns l else Some l)"

definition wait_until :: "'l ipmx_env \<Rightarrow> bool \<Rightarrow> u64 \<Rightarrow> 'l \<Rightarrow> 'l option" where
  "wait_until env sleeping return_time_ns l =
    (let (time_now_ns, l) = get_nic_time_now_ns env l
     in if return_time_ns \<le> time_now_ns then Some l
        else
          let sleep_time_ns = return_time_ns - time_now_ns
          in if sleep_time_ns \<le> SLEEP_THRESHOLD_NS then Some l
             else if sleeping then Some (sleep_for env (sleep_time_ns - SLEEP_THRESHOLD_NS) l)
             else wait_for_clock (get_nic_time_now_ns env) return_time_ns l)"

text \<open>One round of the loop of \<open>operator()\<close>, with the time of the last statistics.  A sum of an integer and a floating
  point number is converted to an integer.\<close>

definition add_interval :: "u64 \<Rightarrow> rat \<Rightarrow> u64 option" where
  "add_interval t x = map_option word_of_nat (to_unsigned 64 (dbl (dbl (of_nat (unat t)) + x)))"

definition node_round :: "'l ipmx_env \<Rightarrow> IPMXSenderIONode \<times> u64 \<times> mem \<times> 'l \<Rightarrow> (ReturnStatus \<times> IPMXSenderIONode \<times> u64 \<times> mem \<times> 'l) option" where
  "node_round env = (\<lambda>(n, last_stats_update_time, m, l). do {
    (status, n, l) \<leftarrow> check_report_completion env (n, l);
    if status \<noteq> success then Some (status, n, last_stats_update_time, m, l)
    else do {
      let (time_now, l) = get_nic_time_now_ns env l;
      latest_wakeup_time \<leftarrow> add_interval time_now (frame_field_time_interval_ns (isn_media_settings n));
      h \<leftarrow> m_report_handler n;
      (status, all_senders_can_sleep, latest_wakeup_time, ss, h, m, l) \<leftarrow>
        sender_turns env (isn_sleep_between_operations n) latest_wakeup_time (m_stream_senders n) (h, m, l);
      let n = n\<lparr>m_stream_senders := ss, m_report_handler := Some h\<rparr>;
      if status \<noteq> success then Some (status, n, last_stats_update_time, m, l)
      else do {
        l \<leftarrow> (if all_senders_can_sleep then wait_until env (isn_sleep_between_operations n) latest_wakeup_time l else Some l);
        if time_now > last_stats_update_time + word_of_nat NS_IN_SEC
        then do {
          ss \<leftarrow> print_senders_stats (m_stream_senders n);
          Some (success, n\<lparr>m_stream_senders := ss\<rparr>, time_now, m, l) }
        else Some (success, n, last_stats_update_time, m, l) } } })"

partial_function (option) node_loop :: "'l ipmx_env \<Rightarrow> ReturnStatus \<Rightarrow> IPMXSenderIONode \<times> u64 \<times> mem \<times> 'l
    \<Rightarrow> (ReturnStatus \<times> IPMXSenderIONode \<times> u64 \<times> mem \<times> 'l) option" where
  "node_loop env status st =
    (if status = success \<and> get_received_signal env (snd (snd (snd st))) < 0
     then Option.bind (node_round env st) (\<lambda>(status, st). node_loop env status st)
     else Some (status, st))"

fun start_media_streams :: "'l ipmx_env \<Rightarrow> IPMXStreamSender list \<Rightarrow> 'l \<Rightarrow> ReturnStatus \<times> IPMXStreamSender list \<times> 'l" where
  "start_media_streams env [] l = (success, [], l)"
| "start_media_streams env (s # ss) l =
    (let (status, s, l) = start_media_stream (env_media env) (s, l)
     in if status \<noteq> success then (status, s # ss, l)
        else
          let (s, l) = init_media_chunk_handler (env_media env) (s, l);
              s = set_report_chunk_handler s;
              (status, ss, l) = start_media_streams env ss l
          in (status, s # ss, l))"

definition start_rivermax_streams :: "'l ipmx_env \<Rightarrow> IPMXSenderIONode \<times> 'l \<Rightarrow> (ReturnStatus \<times> IPMXSenderIONode \<times> 'l) option" where
  "start_rivermax_streams env = (\<lambda>(n, l).
    let (status, stream, l) = gen_stream_create (env_gen env) (m_rtcp_stream n, l)
    in if status \<noteq> success then Some (status, n\<lparr>m_rtcp_stream := stream\<rparr>, l)
       else
         let (_, stream, l) = initialize_chunks (env_gen env) (m_report_mem_region n) (stream, l)
         in if m_chunks stream = [] then None
            else
              let h = SharedMessageHandler_new (m_chunks stream ! 0);
                  (status, ss, l) = start_media_streams env (m_stream_senders n) l
              in Some (status, n\<lparr>m_rtcp_stream := stream, m_report_handler := Some h, m_stream_senders := ss\<rparr>, l))"

fun stop_media_streams :: "'l ipmx_env \<Rightarrow> IPMXStreamSender list \<Rightarrow> 'l \<Rightarrow> (ReturnStatus \<times> IPMXStreamSender list \<times> 'l) option" where
  "stop_media_streams env [] l = Some (success, [], l)"
| "stop_media_streams env (s # ss) l = do {
     (status, s, l) \<leftarrow> stop_media_stream (env_media env) (s, l);
     if status \<noteq> success then Some (status, s # ss, l)
     else map_option (\<lambda>(status, ss, l). (status, s # ss, l)) (stop_media_streams env ss l) }"

definition stop_rivermax_streams :: "'l ipmx_env \<Rightarrow> IPMXSenderIONode \<times> 'l \<Rightarrow> (ReturnStatus \<times> IPMXSenderIONode \<times> 'l) option" where
  "stop_rivermax_streams env = (\<lambda>(n, l). do {
    (status, stream, l) \<leftarrow> gen_stream_destroy (env_gen env) (m_rtcp_stream n, l);
    let n = n\<lparr>m_rtcp_stream := stream\<rparr>;
    if status \<noteq> success then Some (status, n, l)
    else do {
      (status, ss, l) \<leftarrow> stop_media_streams env (m_stream_senders n) l;
      Some (status, n\<lparr>m_stream_senders := ss\<rparr>, l) } })"

text \<open>The start time of the node is the one of its last stream.\<close>

fun start_times :: "u64 \<Rightarrow> u64 \<Rightarrow> IPMXStreamSender list \<Rightarrow> (u64 \<times> IPMXStreamSender list) option" where
  "start_times earliest start [] = Some (start, [])"
| "start_times earliest start (s # ss) = do {
     (start, s) \<leftarrow> ipmx_calculate_send_time_ns earliest s;
     (start, ss) \<leftarrow> start_times earliest start ss;
     Some (start, s # ss) }"

definition ipmx_sender_run :: "'l ipmx_env \<Rightarrow> IPMXSenderIONode \<times> mem \<times> 'l \<Rightarrow> (IPMXSenderIONode \<times> mem \<times> 'l) option" where
  "ipmx_sender_run env = (\<lambda>(n, m, l). do {
    (status, n, l) \<leftarrow> start_rivermax_streams env (n, l);
    if status = failure then Some (n, m, l)
    else do {
      let (earliest_start_time_ns, l) = get_nic_time_now_ns env l;
      (start, ss) \<leftarrow> start_times earliest_start_time_ns (isn_start_send_time_ns n) (m_stream_senders n);
      let n = n\<lparr>m_stream_senders := ss, isn_start_send_time_ns := start\<rparr>;
      wake \<leftarrow> add_interval start (- frame_field_time_interval_ns (isn_media_settings n));
      l \<leftarrow> wait_until env (isn_sleep_between_operations n) wake l;
      (_, n, m, l) \<leftarrow> send_initial_reports env (n, m, l);
      (_, n, _, m, l) \<leftarrow> node_loop env success (n, start, m, l);
      (_, n, l) \<leftarrow> stop_rivermax_streams env (n, l);
      Some (n, m, l) } })"


section \<open>What the operations change\<close>

text \<open>A report changes the report and the count of reports, a completion the time stamps and the counters of finished
  chunks and fields, a commit the counters of committed ones.\<close>

lemma commit_sender_report_cases:
  assumes "commit_sender_report env (s, h, m, l) = Some (status, s', h', m', l')"
  obtains (not_sent) report where "status \<noteq> success" "s' = s\<lparr>m_report := report\<rparr>"
      "m_pending_message_count h' = m_pending_message_count h"
  | (sent) report where "status = success" "s' = s\<lparr>m_report := report, m_committed_reports := m_committed_reports s + 1\<rparr>"
      "m_pending_message_count h' = m_pending_message_count h + 1"
proof (cases "status = success")
  case True
  then show ?thesis
    using assms that(2)[of "m_report s'"]
    by (auto simp: commit_sender_report_def get_next_buffer_def commit_message_def Let_def
        split: if_splits option.splits prod.splits bind_splits)
next
  case False
  then show ?thesis
    using assms that(1)[of "m_report s'"]
    by (auto simp: commit_sender_report_def get_next_buffer_def commit_message_def Let_def
        split: if_splits option.splits prod.splits bind_splits)
qed



text \<open>The counters of the commits with what they depend on.\<close>

definition commit_state :: "IPMXStreamSender \<Rightarrow> u64 \<times> u64 \<times> u64 \<times> MediaSettings \<times> u64" where
  "commit_state s = (m_committed_first_chunks s, m_committed_fields s, m_chunk_in_field_counter s, ips_media_settings s,
     ips_start_send_time_ns s)"

lemma commit_sender_report_counts:
  assumes "commit_sender_report env (s, h, m, l) = Some (status, s', h', m', l')"
  shows "commit_state s' = commit_state s" "m_finished_reports s' = m_finished_reports s" "m_finished_fields s' = m_finished_fields s"
    "m_finished_first_chunks s' = m_finished_first_chunks s"
    "m_committed_reports s' = m_committed_reports s + (if status = success then 1 else 0)"
    "m_pending_message_count h' = m_pending_message_count h + (if status = success then 1 else 0)"
  using assms by (cases rule: commit_sender_report_cases; simp add: commit_state_def)+

lemma track_media_completions_counts:
  assumes "track_media_completions env (s, h, m, l) = Some (status, s', h', m', l')"
  shows "commit_state s' = commit_state s \<and> m_finished_reports s' = m_finished_reports s
    \<and> m_finished_fields s' \<in> {m_finished_fields s, m_finished_fields s + 1}
    \<and> (\<exists>d \<in> {0, 1}. m_committed_reports s' = m_committed_reports s + d \<and> m_pending_message_count h' = m_pending_message_count h + d)"
proof -
  obtain c where c: "m_media_chunk_handler s = Some c" using assms by (auto simp: track_media_completions_def split: bind_splits)
  obtain st l1 where p: "media_chunk_poll (env_media env) c l = (st, l1)" by fastforce
  show ?thesis
  proof (cases "st = success")
    case False
    then show ?thesis using assms c p by (auto simp: track_media_completions_def split: if_splits)
  next
    case True
    then have r: "process_media_completion env (s, h, m, l1) = Some (status, s', h', m', l')"
      using assms c p by (simp add: track_media_completions_def)
    show ?thesis
    proof (cases "media_chunk_last_completion (env_media env) c l1")
      case None
      then show ?thesis using r c by (simp add: process_media_completion_def)
    next
      case (Some a)
      obtain t token where a: "a = (t, token)" by fastforce
      consider "token = LAST_CHUNK_IN_FRAME_TOKEN" | "token \<noteq> LAST_CHUNK_IN_FRAME_TOKEN" "token \<noteq> m_finished_first_chunks s"
        | "token \<noteq> LAST_CHUNK_IN_FRAME_TOKEN" "token = m_finished_first_chunks s" by blast
      then show ?thesis
      proof cases
        case 3
        then show ?thesis
          using r c Some a commit_sender_report_counts[of env "s\<lparr>m_last_report_trigger_ts := t, m_finished_first_chunks := m_finished_first_chunks s + 1\<rparr>" h m l1 status s' h' m' l']
          by (auto simp: process_media_completion_def commit_state_def)
      qed (use r c Some a in \<open>auto simp: process_media_completion_def commit_state_def\<close>)
    qed
  qed
qed

lemma notify_report_completion_counts:
  assumes "notify_report_completion t s = (status, s')"
  shows "commit_state s' = commit_state s" "m_committed_reports s' = m_committed_reports s" "m_finished_fields s' = m_finished_fields s"
    "status = success \<Longrightarrow> m_finished_reports s < m_committed_reports s"
    "m_finished_reports s' = m_finished_reports s + (if status = success then 1 else 0)"
  using assms by (auto simp: notify_report_completion_def Let_def commit_state_def split: if_splits)

definition same_reports :: "IPMXStreamSender \<Rightarrow> IPMXStreamSender \<Rightarrow> bool" where
  "same_reports s s' \<longleftrightarrow> m_committed_reports s' = m_committed_reports s \<and> m_finished_reports s' = m_finished_reports s
     \<and> m_finished_fields s' = m_finished_fields s"

lemma count_chunk_counts: "same_reports s (count_chunk s)"
  by (simp add: same_reports_def count_chunk_def Let_def)

lemma chunk_to_commit_counts:
  assumes "chunk_to_commit rmx c (s, m, l) = Some (status, s', m', l')"
  shows "same_reports s s'" "commit_state s' = commit_state s" "m_media_chunk_handler s' = m_media_chunk_handler s"
  using assms by (auto simp: chunk_to_commit_def same_reports_def commit_state_def Let_def split: if_splits prod.splits)

text \<open>A commit either leaves the counters or advances them by a chunk.\<close>

lemma commit_next_media_chunk_counts:
  assumes "commit_next_media_chunk rmx (s, m, l) = Some (status, s', m', l')"
  shows "same_reports s s' \<and> (commit_state s' = commit_state s \<or> commit_state s' = commit_state (count_chunk s))"
proof -
  obtain c where c: "m_media_chunk_handler s = Some c" using assms by (auto simp: commit_next_media_chunk_def split: bind_splits)
  obtain st1 s1 m1 l1 where a: "chunk_to_commit rmx c (s, m, l) = Some (st1, s1, m1, l1)"
    using assms c by (auto simp: commit_next_media_chunk_def split: bind_splits)
  note keep = chunk_to_commit_counts[OF a]
  have count: "commit_state (count_chunk s1) = commit_state (count_chunk s)" "same_reports s (count_chunk s1)"
    using keep(1,2) by (simp_all add: commit_state_def count_chunk_def same_reports_def Let_def)
  consider "s' = s1" | "s' = s1\<lparr>m_chunk_pending := True\<rparr>" | "s' = count_chunk s1"
  proof (cases "st1 = success")
    case False
    then show ?thesis using assms c a that(1) by (simp add: commit_next_media_chunk_def)
  next
    case True
    then obtain st2 t l2 where mk: "mark_chunk rmx c s1 l1 = Some (st2, t, l2)"
      using assms c a by (cases "mark_chunk rmx c s1 l1") (auto simp: commit_next_media_chunk_def)
    obtain st3 l3 where cm: "media_stream_commit_chunk rmx c t l2 = (st3, l3)" by fastforce
    have "Some (status, s', m', l') = (if st2 \<noteq> success then Some (st2, s1, m1, l2)
        else if st3 = hw_send_queue_full then Some (success, s1\<lparr>m_chunk_pending := True\<rparr>, m1, l3)
        else if st3 \<noteq> success then Some (st3, s1, m1, l3) else Some (success, count_chunk s1, m1, l3))"
      unfolding assms[symmetric] by (simp add: commit_next_media_chunk_def c a True mk cm)
    then have "s' \<in> {s1, s1\<lparr>m_chunk_pending := True\<rparr>, count_chunk s1}"
      by (simp only: option.inject prod.inject split: if_splits) blast+
    then show ?thesis using that by blast
  qed
  then show ?thesis
    using keep count by cases (simp_all add: commit_state_def same_reports_def)
qed


text \<open>The statistics are printed without a division by zero.\<close>

definition period_reset :: "IPMXStreamSender \<Rightarrow> IPMXStreamSender" where
  "period_reset s = s\<lparr>m_period_sent_frames_cnt := 0, m_period_report_delay_sum := 0\<rparr>"

lemma print_report_stats_reset: "print_report_stats s = Some (avg, s') \<Longrightarrow> s' = period_reset s"
  by (auto simp: print_report_stats_def period_reset_def split: bind_splits)

lemma print_report_stats_defined: "\<exists>avg. print_report_stats s = Some (avg, period_reset s)"
  by (simp add: print_report_stats_def period_reset_def)

lemma print_senders_stats_reset: "print_senders_stats ss = Some (map period_reset ss)"
proof (induction ss)
  case (Cons s ss)
  then show ?case using print_report_stats_defined[of s] by auto
qed simp

section \<open>Frames in flight\<close>

text \<open>The operations of one sender; everything else, the other senders and the library, may change in between.\<close>

inductive sender_step :: "'l ipmx_env \<Rightarrow> IPMXStreamSender \<Rightarrow> IPMXStreamSender \<Rightarrow> bool" for env where
  step_report: "commit_sender_report env (s, h, m, l) = Some (status, s', h', m', l') \<Longrightarrow> sender_step env s s'"
| step_notify: "notify_report_completion t s = (status, s') \<Longrightarrow> sender_step env s s'"
| step_track: "track_media_completions env (s, h, m, l) = Some (status, s', h', m', l') \<Longrightarrow> sender_step env s s'"
| step_commit: "has_free_frame_buffer s \<Longrightarrow> commit_next_media_chunk (env_media env) (s, m, l) = Some (status, s', m', l')
    \<Longrightarrow> sender_step env s s'"
| step_stats: "print_report_stats s = Some (avg, s') \<Longrightarrow> sender_step env s s'"

text \<open>A field that has begun and is not complete counts as one.\<close>

definition fields_begun :: "IPMXStreamSender \<Rightarrow> nat" where
  "fields_begun s = unat (m_committed_fields s) + (if m_chunk_in_field_counter s = 0 then 0 else 1)"

definition sender_bounded :: "MediaSettings \<Rightarrow> nat \<Rightarrow> IPMXStreamSender \<Rightarrow> bool" where
  "sender_bounded ms k s \<longleftrightarrow> ips_media_settings s = ms \<and> unat (m_finished_fields s) \<le> k \<and> unat (m_committed_reports s) \<le> k
     \<and> m_finished_reports s \<le> m_committed_reports s \<and> m_chunk_in_field_counter s < chunks_in_frame_field ms
     \<and> unat (m_committed_first_chunks s) = fields_begun s
     \<and> fields_begun s \<le> unat (m_finished_fields s) + unat (frames_fields_in_mem_block ms)"

lemma unat_plus_one: "unat (x :: u64) + 1 < 2 ^ 64 \<Longrightarrow> unat (x + 1) = unat x + 1"
  by (simp add: unat_Suc_no_wrap)

lemma sender_bounded_commit_state:
  assumes "commit_state s' = commit_state s" "m_finished_fields s' \<in> {m_finished_fields s, m_finished_fields s + 1}"
    and "\<exists>d \<in> {0, 1}. m_committed_reports s' = m_committed_reports s + d" "m_finished_reports s' = m_finished_reports s"
    and "sender_bounded ms k s" "k + 1 + unat (frames_fields_in_mem_block ms) < 2 ^ 64"
  shows "sender_bounded ms (k + 1) s'"
proof -
  have b: "unat (m_finished_fields s) + 1 < 2 ^ 64" "unat (m_committed_reports s) + 1 < 2 ^ 64"
    using assms(5,6) by (auto simp: sender_bounded_def)
  have f: "unat (m_finished_fields s) \<le> unat (m_finished_fields s')" "unat (m_finished_fields s') \<le> unat (m_finished_fields s) + 1"
    using assms(2) unat_plus_one[OF b(1)] by auto
  have r: "unat (m_committed_reports s) \<le> unat (m_committed_reports s')" "unat (m_committed_reports s') \<le> unat (m_committed_reports s) + 1"
    using assms(3) unat_plus_one[OF b(2)] by auto
  have c: "ips_media_settings s' = ips_media_settings s" "m_chunk_in_field_counter s' = m_chunk_in_field_counter s"
    "m_committed_first_chunks s' = m_committed_first_chunks s" "fields_begun s' = fields_begun s"
    using assms(1) by (simp_all add: commit_state_def fields_begun_def)
  show ?thesis
    using assms(4,5) f r c unfolding sender_bounded_def word_le_nat_alt by auto
qed

lemma sender_bounded_notify:
  assumes "notify_report_completion t s = (status, s')" "sender_bounded ms k s" "k + 1 + unat (frames_fields_in_mem_block ms) < 2 ^ 64"
  shows "sender_bounded ms (k + 1) s'"
proof -
  note n = notify_report_completion_counts[OF assms(1)]
  have "m_finished_reports s' \<le> m_committed_reports s"
  proof (cases "status = success")
    case True
    then show ?thesis using n(4,5) by (simp add: inc_le)
  next
    case False
    then show ?thesis using n(5) assms(2) by (simp add: sender_bounded_def)
  qed
  then show ?thesis
    using n(1-3) assms(2) by (simp add: sender_bounded_def commit_state_def fields_begun_def)
qed

lemma sender_bounded_commit:
  assumes "has_free_frame_buffer s" "sender_bounded ms k s" "k + 1 + unat (frames_fields_in_mem_block ms) < 2 ^ 64"
  shows "sender_bounded ms (k + 1) (count_chunk s)"
proof -
  let ?F = "unat (frames_fields_in_mem_block ms)" and ?C = "chunks_in_frame_field ms"
  note b = assms(2)[unfolded sender_bounded_def]
  have "unat (m_finished_fields s + frames_fields_in_mem_block ms) = unat (m_finished_fields s) + ?F"
    by (rule unat_add_no_wrap) (use b assms(3) in simp)
  then have free: "unat (m_committed_fields s) < unat (m_finished_fields s) + ?F"
    using assms(1) b by (simp add: has_free_frame_buffer_def word_less_nat_alt)
  have small: "unat (m_committed_fields s) + 1 < 2 ^ 64" "unat (m_chunk_in_field_counter s) + 1 < 2 ^ 64"
    "unat (m_committed_first_chunks s) + (if m_chunk_in_field_counter s = 0 then 1 else 0) < 2 ^ 64"
    using free b assms(3) unat_u64_bound[of ?C] by (auto simp: fields_begun_def word_less_nat_alt)
  have ctr: "m_chunk_in_field_counter s + 1 = ?C \<or> m_chunk_in_field_counter s + 1 < ?C"
    using b inc_le[of "m_chunk_in_field_counter s" ?C] by fastforce
  have nonzero: "m_chunk_in_field_counter s + 1 \<noteq> 0"
    using unat_plus_one[OF small(2)] by auto
  have first: "unat (m_committed_first_chunks s + 1) = unat (m_committed_fields s) + 1" if "m_chunk_in_field_counter s = 0"
    using unat_plus_one[of "m_committed_first_chunks s"] small(3) b that by (simp add: fields_begun_def)
  have field: "unat (m_committed_fields s + 1) = unat (m_committed_fields s) + 1" by (rule unat_plus_one[OF small(1)])
  have rest: "ips_media_settings (count_chunk s) = ms" "m_finished_fields (count_chunk s) = m_finished_fields s"
    "m_committed_reports (count_chunk s) = m_committed_reports s" "m_finished_reports (count_chunk s) = m_finished_reports s"
    using b by (simp_all add: count_chunk_def Let_def)
  have counters: "m_chunk_in_field_counter (count_chunk s) < ?C \<and> unat (m_committed_first_chunks (count_chunk s)) = fields_begun (count_chunk s)
      \<and> fields_begun (count_chunk s) \<le> unat (m_finished_fields s) + ?F"
  proof (cases "m_chunk_in_field_counter s + 1 = ?C")
    case True
    have C: "0 < ?C" using b by (auto simp: word_less_nat_alt)
    then show ?thesis
      using True b free first field by (auto simp: count_chunk_def Let_def fields_begun_def split: if_splits)
  next
    case False
    then show ?thesis
      using ctr nonzero b free first by (auto simp: count_chunk_def Let_def fields_begun_def split: if_splits)
  qed
  then show ?thesis using rest b unfolding sender_bounded_def by simp
qed

lemma sender_bounded_step:
  assumes "sender_step env s s'" "sender_bounded ms k s" "k + 1 + unat (frames_fields_in_mem_block ms) < 2 ^ 64"
  shows "sender_bounded ms (k + 1) s'"
  using assms(1)
proof cases
  case (step_report h m l status h' m' l')
  show ?thesis
    by (rule sender_bounded_commit_state[OF _ _ _ _ assms(2,3)]) (simp_all add: commit_sender_report_counts[OF step_report])
next
  case (step_track h m l status h' m' l')
  show ?thesis
    by (rule sender_bounded_commit_state[OF _ _ _ _ assms(2,3)])
      (use track_media_completions_counts[OF step_track] in auto)
next
  case (step_commit m l status m' l')
  note c = commit_next_media_chunk_counts[OF step_commit(2)]
  from c consider "commit_state s' = commit_state s" | "commit_state s' = commit_state (count_chunk s)" by blast
  then show ?thesis
  proof cases
    case 1
    then show ?thesis
      using c by (intro sender_bounded_commit_state[OF _ _ _ _ assms(2,3)]) (auto simp: same_reports_def)
  next
    case 2
    then show ?thesis
      using sender_bounded_commit[OF step_commit(1) assms(2,3)] c count_chunk_counts[of s]
      by (simp add: sender_bounded_def commit_state_def fields_begun_def same_reports_def)
  qed
next
  case (step_stats avg)
  show ?thesis
    by (rule sender_bounded_commit_state[OF _ _ _ _ assms(2,3)]) (auto simp: print_report_stats_reset[OF step_stats] period_reset_def commit_state_def)
qed (rule sender_bounded_notify[OF _ assms(2,3)])

lemma sender_bounded_steps:
  assumes "(sender_step env ^^ j) s s'" "sender_bounded ms k s" "k + j + unat (frames_fields_in_mem_block ms) < 2 ^ 64"
  shows "sender_bounded ms (k + j) s'"
  using assms
proof (induction j arbitrary: s')
  case (Suc j)
  obtain s1 where "(sender_step env ^^ j) s s1" "sender_step env s1 s'" using Suc.prems(1) by auto
  then show ?case
    using Suc.IH[of s1] Suc.prems(2,3) sender_bounded_step[of env s1 s' ms "k + j"] by simp
qed simp

lemma sender_step_settings1:
  assumes "sender_step env s s'"
  shows "ips_media_settings s' = ips_media_settings s"
  using assms
proof cases
  case (step_report h m l status h' m' l')
  then show ?thesis using commit_sender_report_counts(1)[OF step_report] by (simp add: commit_state_def)
next
  case (step_track h m l status h' m' l')
  then show ?thesis using track_media_completions_counts[OF step_track] by (simp add: commit_state_def)
next
  case (step_notify t status)
  then show ?thesis using notify_report_completion_counts(1)[OF step_notify] by (simp add: commit_state_def)
next
  case (step_commit m l status m' l')
  then show ?thesis
    using commit_next_media_chunk_counts[OF step_commit(2)] by (auto simp: commit_state_def count_chunk_def Let_def split: if_splits)
next
  case (step_stats avg)
  show ?thesis by (simp add: print_report_stats_reset[OF step_stats] period_reset_def)
qed

lemma sender_step_settings: "(sender_step env ^^ j) s s' \<Longrightarrow> ips_media_settings s' = ips_media_settings s"
proof (induction j arbitrary: s')
  case (Suc j)
  then obtain s1 where "(sender_step env ^^ j) s s1" "sender_step env s1 s'" by auto
  then show ?case using Suc.IH sender_step_settings1 by fastforce
qed simp

section \<open>The rounds of a node\<close>

text \<open>At most so many steps lead from one sender to the other.\<close>

definition steps_within :: "'l ipmx_env \<Rightarrow> nat \<Rightarrow> IPMXStreamSender \<Rightarrow> IPMXStreamSender \<Rightarrow> bool" where
  "steps_within env n s s' \<longleftrightarrow> (\<exists>j \<le> n. (sender_step env ^^ j) s s')"

lemma steps_within_refl [intro, simp]: "steps_within env n s s"
  unfolding steps_within_def by (rule exI[of _ 0]) simp

lemma steps_within_step: "sender_step env s s' \<Longrightarrow> 0 < n \<Longrightarrow> steps_within env n s s'"
  unfolding steps_within_def by (rule exI[of _ 1]) auto

lemma steps_within_trans: "steps_within env a s s1 \<Longrightarrow> steps_within env b s1 s' \<Longrightarrow> steps_within env (a + b) s s'"
  unfolding steps_within_def by (meson add_mono relpowp_trans)

lemma steps_within_mono: "steps_within env a s s' \<Longrightarrow> a \<le> b \<Longrightarrow> steps_within env b s s'"
  unfolding steps_within_def by (meson le_trans)

lemma all_steps_refl [intro, simp]: "list_all2 (steps_within env n) ss ss"
  by (simp add: list_all2_refl)

lemma all_steps_trans:
  "list_all2 (steps_within env a) xs ys \<Longrightarrow> list_all2 (steps_within env b) ys zs \<Longrightarrow> list_all2 (steps_within env (a + b)) xs zs"
  by (rule list_all2_trans[OF steps_within_trans])

lemma check_report_completion_steps:
  assumes "check_report_completion env (n, l) = Some (status, n', l')"
  shows "list_all2 (steps_within env 1) (m_stream_senders n) (m_stream_senders n') \<and> isn_media_settings n' = isn_media_settings n"
proof -
  obtain h where h: "m_report_handler n = Some h" using assms by (auto simp: check_report_completion_def split: bind_splits)
  obtain st comp h1 l1 where c: "check_completion (env_gen env) (h, l) = (st, comp, h1, l1)" by (metis prod_cases4)
  show ?thesis
  proof (cases comp)
    case None
    then show ?thesis using assms h c by (auto simp: check_report_completion_def)
  next
    case (Some p)
    obtain i t where p: "p = (i, t)" by fastforce
    show ?thesis
    proof (cases "unat i \<ge> length (m_stream_senders n)")
      case True
      then show ?thesis using assms h c Some p by (auto simp: check_report_completion_def)
    next
      case False
      obtain st2 s2 where nt: "notify_report_completion t (m_stream_senders n ! unat i) = (st2, s2)" by fastforce
      have "steps_within env 1 (m_stream_senders n ! unat i) s2"
        by (rule steps_within_step[OF step_notify[OF nt]]) simp
      then show ?thesis
        using assms h c Some p False nt
        by (auto simp: check_report_completion_def list_all2_conv_all_nth nth_list_update)
    qed
  qed
qed

lemma sender_turn_steps:
  assumes "sender_turn env (s, h, m, l) = Some (status, s', h', m', l')"
  shows "steps_within env 2 s s'"
proof -
  obtain st s1 h1 m1 l1 where t: "track_media_completions env (s, h, m, l) = Some (st, s1, h1, m1, l1)"
    using assms by (auto simp: sender_turn_def split: bind_splits)
  have one: "steps_within env 1 s s1" by (rule steps_within_step[OF step_track[OF t]]) simp
  show ?thesis
  proof (cases "st = success \<and> has_free_frame_buffer s1")
    case True
    then obtain m2 l2 where c: "commit_next_media_chunk (env_media env) (s1, m1, l1) = Some (status, s', m2, l2)"
      using assms t by (auto simp: sender_turn_def split: bind_splits)
    have "steps_within env 1 s1 s'" by (rule steps_within_step[OF step_commit[OF _ c]]) (simp_all add: True)
    then have "steps_within env (1 + 1) s s'" by (rule steps_within_trans[OF one])
    then show ?thesis by (simp only: one_add_one)
  next
    case False
    then have "s' = s1" using assms t by (auto simp: sender_turn_def split: if_splits)
    then show ?thesis using steps_within_mono[OF one] by simp
  qed
qed

lemma sender_turns_steps:
  "sender_turns env sleeping wakeup ss (h, m, l) = Some (status, sleeping', wakeup', ss', w') \<Longrightarrow> list_all2 (steps_within env 2) ss ss'"
proof (induction ss arbitrary: sleeping wakeup h m l status sleeping' wakeup' ss' w')
  case (Cons s ss)
  obtain st s1 h1 m1 l1 where t: "sender_turn env (s, h, m, l) = Some (st, s1, h1, m1, l1)"
    using Cons.prems by (auto split: bind_splits)
  note step = sender_turn_steps[OF t]
  show ?case
  proof (cases "st = success")
    case False
    then show ?thesis using Cons.prems t step by auto
  next
    case True
    obtain sl wk where u: "sleep_until sleeping wakeup s1 = Some (sl, wk)"
      using Cons.prems t True by (auto split: bind_splits)
    obtain st2 sl2 wk2 ss2 w2 where r: "sender_turns env sl wk ss (h1, m1, l1) = Some (st2, sl2, wk2, ss2, w2)"
      using Cons.prems t True u by (auto split: bind_splits)
    then show ?thesis using Cons.prems t True u step Cons.IH[OF r] by auto
  qed
qed auto


lemma print_stats_steps: "list_all2 (steps_within env 1) ss (map period_reset ss)"
proof -
  have "steps_within env 1 s (period_reset s)" for s
    using print_report_stats_defined[of s] by (auto intro!: steps_within_step step_stats)
  then show ?thesis by (simp add: list_all2_conv_all_nth)
qed

lemma node_round_steps:
  assumes "node_round env (n, t, m, l) = Some (status, n', t', m', l')"
  shows "list_all2 (steps_within env 4) (m_stream_senders n) (m_stream_senders n') \<and> isn_media_settings n' = isn_media_settings n"
proof -
  obtain st n1 l1 where c: "check_report_completion env (n, l) = Some (st, n1, l1)"
    using assms by (auto simp: node_round_def split: bind_splits)
  note first = check_report_completion_steps[OF c]
  show ?thesis
  proof (cases "st = success")
    case False
    then show ?thesis
      using assms c first list_all2_mono[of "steps_within env 1"] steps_within_mono[of env 1] by (auto simp: node_round_def)
  next
    case True
    obtain now l2 where clock: "get_nic_time_now_ns env l1 = (now, l2)" by fastforce
    obtain wk where wk: "add_interval now (frame_field_time_interval_ns (isn_media_settings n1)) = Some wk"
      using assms c True clock by (auto simp: node_round_def split: bind_splits)
    obtain h where h: "m_report_handler n1 = Some h"
      using assms c True clock wk by (auto simp: node_round_def split: bind_splits)
    obtain st2 sl wk2 ss h2 m2 l3 where turns:
      "sender_turns env (isn_sleep_between_operations n1) wk (m_stream_senders n1) (h, m, l2) = Some (st2, sl, wk2, ss, h2, m2, l3)"
      using assms c True clock wk h by (auto simp: node_round_def split: bind_splits)
    have "list_all2 (steps_within env (1 + 2)) (m_stream_senders n) ss"
      by (rule all_steps_trans[OF _ sender_turns_steps[OF turns]]) (use first in simp)
    then have two: "list_all2 (steps_within env 3) (m_stream_senders n) ss" by (simp add: numeral_3_eq_3)
    have "list_all2 (steps_within env (3 + 1)) (m_stream_senders n) (map period_reset ss)"
      by (rule all_steps_trans[OF two print_stats_steps])
    then have stats: "list_all2 (steps_within env 4) (m_stream_senders n) (map period_reset ss)" by simp
    have plain: "list_all2 (steps_within env 4) (m_stream_senders n) ss"
      using two by (rule list_all2_mono) (erule steps_within_mono, simp)
    show ?thesis
      using assms c True clock wk h turns stats plain first
      by (auto simp: node_round_def Let_def print_senders_stats_reset split: if_splits bind_splits)
  qed
qed

text \<open>The first rounds of the loop, up to the first one that fails.\<close>

fun node_rounds :: "'l ipmx_env \<Rightarrow> nat \<Rightarrow> IPMXSenderIONode \<times> u64 \<times> mem \<times> 'l \<Rightarrow> (ReturnStatus \<times> IPMXSenderIONode \<times> u64 \<times> mem \<times> 'l) option" where
  "node_rounds env 0 st = Some (success, st)"
| "node_rounds env (Suc r) st = do {
     (status, st) \<leftarrow> node_rounds env r st;
     if status = success then node_round env st else Some (status, st) }"

lemma node_rounds_steps:
  "node_rounds env r (n, t, m, l) = Some (status, n', t', m', l')
    \<Longrightarrow> list_all2 (steps_within env (4 * r)) (m_stream_senders n) (m_stream_senders n')"
proof (induction r arbitrary: status n' t' m' l')
  case (Suc r)
  obtain st1 n1 t1 m1 l1 where r: "node_rounds env r (n, t, m, l) = Some (st1, n1, t1, m1, l1)"
    using Suc.prems by (auto split: bind_splits)
  have step: "list_all2 (steps_within env 4) (m_stream_senders n1) (m_stream_senders n')"
    using Suc.prems r node_round_steps[of env n1 t1 m1 l1 status n' t' m' l'] by (cases "st1 = success") auto
  have "list_all2 (steps_within env (4 * r + 4)) (m_stream_senders n) (m_stream_senders n')"
    by (rule all_steps_trans[OF Suc.IH[OF r] step])
  then show ?case by (simp add: add.commute)
qed simp

definition fresh_sender :: "IPMXStreamSender \<Rightarrow> bool" where
  "fresh_sender s \<longleftrightarrow> m_committed_reports s = 0 \<and> m_finished_reports s = 0 \<and> m_committed_first_chunks s = 0
     \<and> m_finished_first_chunks s = 0 \<and> m_committed_fields s = 0 \<and> m_finished_fields s = 0 \<and> m_chunk_in_field_counter s = 0
     \<and> \<not> m_chunk_pending s"

lemma sender_bounded_fresh:
  assumes "fresh_sender s" "ips_media_settings s = ms" "0 < chunks_in_frame_field ms"
  shows "sender_bounded ms 0 s"
  using assms by (simp add: sender_bounded_def fresh_sender_def fields_begun_def)

lemma send_reports_steps:
  "send_reports env start ss (h, m, l) = Some (status, ss', w)
    \<Longrightarrow> list_all2 (\<lambda>s s'. \<exists>t. s' = set_initial_timestamps start t s \<or> s' = s \<or> steps_within env 1 (set_initial_timestamps start t s) s') ss ss'"
proof (induction ss arbitrary: h m l status ss' w)
  case (Cons s ss)
  let ?R = "\<lambda>s s'. \<exists>t. s' = set_initial_timestamps start t s \<or> s' = s \<or> steps_within env 1 (set_initial_timestamps start t s) s'"
  obtain t l1 where t: "get_nic_time_now_ns env l = (t, l1)" by fastforce
  obtain st s1 h1 m1 l2 where c: "commit_sender_report env (set_initial_timestamps start t s, h, m, l1) = Some (st, s1, h1, m1, l2)"
    using Cons.prems t by (auto split: bind_splits)
  have one: "?R s s1" by (rule exI[of _ t]) (simp add: steps_within_step[OF step_report[OF c]])
  show ?case
  proof (cases "st = success")
    case False
    have "list_all2 ?R ss ss" by (rule list_all2_refl) auto
    then show ?thesis using Cons.prems t c False one by auto
  next
    case True
    then obtain ss1 where r: "send_reports env start ss (h1, m1, l2) = Some (status, ss1, w)" "ss' = s1 # ss1"
      using Cons.prems t c by auto
    then show ?thesis using one Cons.IH[OF r(1)] by simp
  qed
qed simp

lemma initialize_senders_fresh:
  "initialize_senders env src ms chunks packets payload stride i dsts = Some (Inr ss)
    \<Longrightarrow> \<forall>s \<in> set ss. fresh_sender s \<and> chunks_in_frame_field (ips_media_settings s) = chunks_in_frame_field ms
          \<and> frames_fields_in_mem_block (ips_media_settings s) = frames_fields_in_mem_block ms"
proof (induction dsts arbitrary: i ss)
  case (Cons d dsts)
  obtain s where s: "IPMXStreamSender_new env i src d ms chunks packets payload stride = Some (Inr s)"
    using Cons.prems by (auto split: bind_splits sum.splits)
  obtain z where z: "initialize_senders env src ms chunks packets payload stride (i + 1) dsts = Some z"
    using Cons.prems s by auto
  then obtain rest where r: "initialize_senders env src ms chunks packets payload stride (i + 1) dsts = Some (Inr rest)" "ss = s # rest"
    using Cons.prems s by (cases z) auto
  have "fresh_sender s \<and> chunks_in_frame_field (ips_media_settings s) = chunks_in_frame_field ms
      \<and> frames_fields_in_mem_block (ips_media_settings s) = frames_fields_in_mem_block ms"
    using s by (auto simp: IPMXStreamSender_new_def Let_def fresh_sender_def split: bind_splits sum.splits)
  then show ?case using Cons.IH[OF r(1)] r(2) by simp
qed simp

text \<open>C36: no frame is begun without a free frame buffer.  Whatever the library and the clock
  answer, in every round of the loop that follows the initial reports of a node with new senders, each sender has
  begun at most as many fields as were reported complete plus the fields of its memory block; the number of first
  chunks it committed is the number of fields begun, and no more reports are counted as finished than were committed.\<close>

theorem frames_in_flight_bounded:
  assumes "\<forall>s \<in> set (m_stream_senders n0). fresh_sender s \<and> 0 < chunks_in_frame_field (ips_media_settings s)"
    and "send_initial_reports env (n0, m0, l0) = Some (status0, n1, m1, l1)"
    and "node_rounds env r (n1, t1, m1, l1) = Some (status, n, t, m, l)"
    and "s \<in> set (m_stream_senders n)" "4 * r + 1 + unat (frames_fields_in_mem_block (ips_media_settings s)) < 2 ^ 64"
  shows "fields_begun s \<le> unat (m_finished_fields s) + unat (frames_fields_in_mem_block (ips_media_settings s))
    \<and> unat (m_committed_first_chunks s) = fields_begun s \<and> m_finished_reports s \<le> m_committed_reports s
    \<and> m_chunk_in_field_counter s < chunks_in_frame_field (ips_media_settings s)"
proof -
  obtain h0 where h0: "m_report_handler n0 = Some h0" using assms(2) by (auto simp: send_initial_reports_def split: bind_splits)
  obtain ss w where r0: "send_reports env (isn_start_send_time_ns n0) (m_stream_senders n0) (h0, m0, l0) = Some (status0, ss, w)"
    "m_stream_senders n1 = ss"
    using assms(2) h0 by (auto simp: send_initial_reports_def split: bind_splits)
  obtain i where i: "i < length (m_stream_senders n)" "s = m_stream_senders n ! i" using assms(4) by (auto simp: in_set_conv_nth)
  note all = send_reports_steps[OF r0(1)] node_rounds_steps[OF assms(3), unfolded r0(2)]
  let ?s0 = "m_stream_senders n0 ! i" and ?s1 = "ss ! i"
  have len: "i < length ss" "i < length (m_stream_senders n0)" using all i(1) by (simp_all add: list_all2_lengthD)
  have steps: "steps_within env (4 * r) ?s1 s" using list_all2_nthD2[OF all(2) i(1)] i(2) by simp
  obtain t where start: "?s1 = set_initial_timestamps (isn_start_send_time_ns n0) t ?s0 \<or> ?s1 = ?s0
      \<or> steps_within env 1 (set_initial_timestamps (isn_start_send_time_ns n0) t ?s0) ?s1"
    using list_all2_nthD[OF all(1) len(2)] by blast
  have fresh: "fresh_sender ?s0 \<and> 0 < chunks_in_frame_field (ips_media_settings ?s0)" using assms(1) len(2) nth_mem by blast
  define s00 where "s00 = (if ?s1 = ?s0 then ?s0 else set_initial_timestamps (isn_start_send_time_ns n0) t ?s0)"
  have "steps_within env 1 s00 ?s1" using start unfolding s00_def by auto
  then have "steps_within env (1 + 4 * r) s00 s" by (rule steps_within_trans[OF _ steps])
  then obtain j where j: "j \<le> 1 + 4 * r" "(sender_step env ^^ j) s00 s" by (auto simp: steps_within_def)
  have b0: "sender_bounded (ips_media_settings ?s0) 0 s00"
    using fresh by (intro sender_bounded_fresh) (simp_all add: s00_def set_initial_timestamps_def fresh_sender_def)
  have ms: "ips_media_settings s = ips_media_settings s00" using sender_step_settings j(2) by blast
  have "sender_bounded (ips_media_settings ?s0) (0 + j) s"
    using j assms(5) ms by (intro sender_bounded_steps[OF j(2) b0]) (simp add: s00_def set_initial_timestamps_def split: if_splits)
  then show ?thesis unfolding sender_bounded_def by metis
qed

lemma first_region_update:
  assumes "first_region c \<noteq> None"
  shows "first_region (place_packet 0 ((m_packets c ! 0)[0 := mreg]) c) = Some mreg"
  using assms by (auto simp: first_region_def place_packet_def split: list.splits)

text \<open>Every report of every sender is written to the memory of the one chunk of the handler.\<close>

lemma report_buffer_shared:
  assumes "commit_sender_report env (s, h, m, l) = Some (success, s', h', m', l')"
  shows "\<exists>r r'. first_region (m_chunk_handle h) = Some r \<and> first_region (m_chunk_handle h') = Some r' \<and> addr r' = addr r
    \<and> m' = mem_write m (unat (addr r)) (compound_bytes (m_report s'))"
proof -
  obtain st l1 where g: "gen_chunk_get_next (env_gen env) (m_chunk_handle h) l = (st, l1)" by fastforce
  have "st = success" using assms g by (auto simp: commit_sender_report_def get_next_buffer_def split: if_splits)
  then obtain r where r: "first_region (m_chunk_handle h) = Some r"
    using assms g by (auto simp: commit_sender_report_def get_next_buffer_def split: bind_splits if_splits)
  have "first_region (m_chunk_handle h') = Some (r\<lparr>region_length := m_report_size s\<rparr>)
      \<and> m' = mem_write m (unat (addr r)) (compound_bytes (m_report s'))"
    using assms g \<open>st = success\<close> r first_region_update[of "m_chunk_handle h" "r\<lparr>region_length := m_report_size s\<rparr>"]
    by (auto simp: commit_sender_report_def get_next_buffer_def commit_message_def Let_def split: bind_splits if_splits prod.splits)
  then show ?thesis using r by simp
qed

section \<open>Preparing a chunk\<close>

text \<open>Settings for which preparing a chunk divides by nothing that is zero and converts only what fits.\<close>

definition stream_ok :: "RtpVideoSendStream \<Rightarrow> bool" where
  "stream_ok s \<longleftrightarrow> packets_in_frame_field (send_media_settings s) \<noteq> 0 \<and> packets_in_line (send_media_settings s) \<noteq> 0
     \<and> height (resolution (send_media_settings s)) \<noteq> 0 \<and> mock_ticks (send_media_settings s) \<noteq> None \<and> mock_rows (send_media_settings s) \<noteq> 0
     \<and> (\<exists>g. mock_group_size (send_packet_payload_size s) = Some g
          \<and> word_of_nat g * packets_in_line (send_media_settings s) \<noteq> 0)"

lemma prepare_loop_defined:
  assumes "packets_in_line ms \<noteq> 0" "height (resolution ms) \<noteq> 0" "mock_ticks ms \<noteq> None" "mock_rows ms \<noteq> 0"
    and "mock_group_size payload = Some g" "word_of_nat g * packets_in_line ms \<noteq> 0"
  shows "\<exists>r. prepare_loop ms payload base sz stride n st = Some r"
proof (induction n arbitrary: stride st)
  case (Suc n)
  obtain ticks where t: "mock_ticks ms = Some ticks" using assms(3) by auto
  obtain d m where st: "st = (d, m)" by fastforce
  have build: "\<exists>d' m'. build_2110_20_rtp_header ms payload (base + stride * sz) (d, m) = Some (d', m')"
    using t assms(4-6) by (simp add: build_2110_20_rtp_header_def Let_def)
  show ?case
    using build Suc.IH assms(1,2) st by (auto simp: Let_def)
qed simp

lemma prepare_chunk_defined:
  assumes "stream_ok s"
  shows "\<exists>s' m'. prepare_chunk_to_send hdr data n (s, m) = Some (s', m') \<and> stream_ok s'"
proof -
  obtain g where g: "mock_group_size (send_packet_payload_size s) = Some g" "word_of_nat g * packets_in_line (send_media_settings s) \<noteq> 0"
    using assms by (auto simp: stream_ok_def)
  have "\<exists>r. prepare_loop (send_media_settings s) (send_packet_payload_size s) a b 0 n (m_send_stats s, m) = Some r" for a b
    by (rule prepare_loop_defined[OF _ _ _ _ g]) (use assms in \<open>auto simp: stream_ok_def\<close>)
  then obtain d m' where "prepare_loop (send_media_settings s) (send_packet_payload_size s) (if send_hds_on s then hdr else data)
      (if send_hds_on s then unat (send_app_header_stride_size s) else unat (send_data_stride_size s)) 0 n (m_send_stats s, m) = Some (d, m')"
    by fastforce
  then show ?thesis using assms by (cases "send_hds_on s") (simp_all add: prepare_chunk_to_send_def stream_ok_def)
qed


section \<open>A node with one sender\<close>

definition example_ipmx_settings :: MediaSettings where
  "example_ipmx_settings = example_mock_media\<lparr>chunks_in_frame_field := 2, frames_fields_in_mem_block := 1, frame_field_time_interval_ns := 0\<rparr>"

definition example_ipmx_sender :: IPMXStreamSender where
  "example_ipmx_sender =
    \<lparr>m_sender_id = 0, m_stream_number = 0, m_stream = RtpVideoSendStream_new example_ipmx_settings 25 False 0 64,
     m_stream_base = example_media_stream, m_mem_blockset = MediaStreamMemBlockset_new 1 1 2,
     m_media_chunk_handler = Some \<lparr>media_chunk_handle = 0, media_chunk_length = 2, media_chunk_hds_on = False, media_chunk_stream_id = 0\<rparr>,
     m_report_dst_flow = \<lparr>flow_id = 0, flow_ip = [], flow_port = 1\<rparr>, m_report_chunk_handler = True,
     ips_media_settings = example_ipmx_settings, ips_chunks_in_mem_block = 2, ips_packets_in_chunk = 2, ips_packet_payload_size = 25,
     ips_data_stride_size = 64, ips_start_send_time_ns = 1000000000, m_committed_reports = 0, m_finished_reports = 0,
     m_committed_first_chunks = 0, m_finished_first_chunks = 0, m_committed_fields = 0, m_finished_fields = 0,
     m_chunk_in_field_counter = 0, m_last_report_trigger_ts = 0, m_last_report_completion_ts = 0, m_chunk_pending = False,
     m_period_sent_frames_cnt = 0, m_period_report_delay_sum = 0, m_period_report_delay_max = 0, m_period_report_delay_min = 0,
     m_report = zero_report, m_report_size = 476\<rparr>"

definition example_ipmx_env :: "nat ipmx_env" where
  "example_ipmx_env = \<lparr>env_gen = example_gen_library, env_media = example_media_library, env_socket_address = (\<lambda>_ _. 0),
     env_mkey_invalid = 0, get_cache_line_size = 64, get_nic_time_now_ns = (\<lambda>l. (0, l)), sleep_for = (\<lambda>_ l. l),
     get_received_signal = (\<lambda>_. -1)\<rparr>"

definition example_ipmx_node :: IPMXSenderIONode where
  "example_ipmx_node = \<lparr>m_stream_senders = [example_ipmx_sender], m_rtcp_stream = example_gen_stream,
     m_report_handler = Some (SharedMessageHandler_new \<lparr>gen_chunk_handle = 0, gen_chunk_stream_id = 1, m_packets = [[\<lparr>addr = 0, region_length = 512, mkey = 0\<rparr>]]\<rparr>),
     isn_media_settings = example_ipmx_settings, isn_sleep_between_operations = False, isn_packet_payload_size = 25,
     isn_chunks_in_mem_block = 2, isn_packets_in_chunk = 2, isn_data_stride_size = 64, m_sender_report_buffer_size = 512,
     m_report_mem_region = \<lparr>addr = 0, region_length = 512, mkey = 0\<rparr>, isn_start_send_time_ns = 1000000000\<rparr>"

lemma example_stream_ok: "stream_ok (RtpVideoSendStream_new example_ipmx_settings 25 False 0 64)"
  by (simp add: stream_ok_def RtpVideoSendStream_new_def example_ipmx_settings_def example_mock_media_def MediaSettings_default_def
      mock_group_size_def mock_rows_def mock_ticks_def to_unsigned_def dbl_numeral Let_def)

lemma dbl_0 [simp]: "dbl 0 = 0"
  using round_prec_int[of 0 53] by simp

lemma example_field_time: "field_time_ns example_ipmx_sender n = Some 1000000000"
  by (simp add: field_time_ns_def example_ipmx_sender_def example_ipmx_settings_def to_unsigned_def dbl_numeral)

lemma example_fresh: "fresh_sender example_ipmx_sender" "chunks_in_frame_field (ips_media_settings example_ipmx_sender) = 2"
  "frames_fields_in_mem_block (ips_media_settings example_ipmx_sender) = 1"
  by (simp_all add: fresh_sender_def example_ipmx_sender_def example_ipmx_settings_def)

text \<open>The first reports find no free chunk.\<close>

lemma example_initial_reports:
  "\<exists>n. send_initial_reports example_ipmx_env (example_ipmx_node, m, 0) = Some (no_free_chunks, n, m, 1)
     \<and> m_stream_senders n = [example_ipmx_sender] \<and> m_report_handler n = m_report_handler example_ipmx_node
     \<and> isn_media_settings n = example_ipmx_settings \<and> \<not> isn_sleep_between_operations n"
  by (simp add: send_initial_reports_def example_ipmx_node_def example_ipmx_env_def commit_sender_report_def get_next_buffer_def
      set_initial_timestamps_def gen_chunk_get_next_def example_gen_library_def next_chunk_status_def SharedMessageHandler_new_def)
    (simp add: example_ipmx_sender_def)

lemma example_commit:
  "\<exists>s m'. commit_next_media_chunk example_media_library (example_ipmx_sender, m, l) = Some (success, s, m', l)
    \<and> m_committed_first_chunks s = 1 \<and> ips_media_settings s = example_ipmx_settings"
proof -
  have stream: "m_stream example_ipmx_sender = RtpVideoSendStream_new example_ipmx_settings 25 False 0 64" by (simp add: example_ipmx_sender_def)
  obtain stream' m' where p: "prepare_chunk_to_send 0 0 2 (m_stream example_ipmx_sender, m) = Some (stream', m')"
    using prepare_chunk_defined[OF example_stream_ok] unfolding stream by blast
  define s1 where "s1 = example_ipmx_sender\<lparr>m_stream := stream'\<rparr>"
  have c: "m_media_chunk_handler example_ipmx_sender = Some \<lparr>media_chunk_handle = 0, media_chunk_length = 2, media_chunk_hds_on = False, media_chunk_stream_id = 0\<rparr>"
    "\<not> m_chunk_pending example_ipmx_sender" by (simp_all add: example_ipmx_sender_def)
  have ctc: "chunk_to_commit example_media_library \<lparr>media_chunk_handle = 0, media_chunk_length = 2, media_chunk_hds_on = False, media_chunk_stream_id = 0\<rparr>
      (example_ipmx_sender, m, l) = Some (success, s1, m', l)"
    using p c(2) by (simp add: chunk_to_commit_def media_stream_get_next_chunk_def media_chunk_get_next_def example_media_library_def next_chunk_status_def
        get_data_ptr_def get_app_hdr_ptr_def s1_def)
  have ft: "field_time_ns s1 0 = Some 1000000000"
    using example_field_time[of 0] by (simp add: field_time_ns_def s1_def)
  have ctr: "m_chunk_in_field_counter s1 = 0" "m_committed_fields s1 = 0" "m_committed_first_chunks s1 = 0" "ips_media_settings s1 = example_ipmx_settings"
    by (simp_all add: s1_def example_ipmx_sender_def)
  have mk: "mark_chunk example_media_library \<lparr>media_chunk_handle = 0, media_chunk_length = 2, media_chunk_hds_on = False, media_chunk_stream_id = 0\<rparr> s1 l
      = Some (success, 1000000000, l)"
    using ft ctr by (simp add: mark_chunk_def media_chunk_mark_def mark_status_def example_media_library_def)
  have "commit_next_media_chunk example_media_library (example_ipmx_sender, m, l) = Some (success, count_chunk s1, m', l)"
    by (simp add: commit_next_media_chunk_def c(1) ctc mk media_stream_commit_chunk_def media_chunk_commit_def)
      (simp add: example_media_library_def commit_status_def)
  then show ?thesis using ctr by (simp add: count_chunk_def Let_def)
qed

lemma example_round:
  assumes "m_stream_senders n = [example_ipmx_sender]" "m_report_handler n = m_report_handler example_ipmx_node"
    "isn_media_settings n = example_ipmx_settings" "\<not> isn_sleep_between_operations n"
  shows "\<exists>n' m' s. node_round example_ipmx_env (n, 0, m, l) = Some (success, n', 0, m', l) \<and> m_stream_senders n' = [s]
    \<and> m_committed_first_chunks s = 1 \<and> ips_media_settings s = example_ipmx_settings"
proof -
  obtain h where h: "m_report_handler n = Some h" "m_pending_message_count h = 0"
    using assms(2) by (simp add: example_ipmx_node_def SharedMessageHandler_new_def)
  obtain s m' where s: "commit_next_media_chunk example_media_library (example_ipmx_sender, m, l) = Some (success, s, m', l)"
    "m_committed_first_chunks s = 1" "ips_media_settings s = example_ipmx_settings"
    using example_commit by blast
  have free: "has_free_frame_buffer example_ipmx_sender"
    by (simp add: has_free_frame_buffer_def example_fresh(3)) (simp add: example_ipmx_sender_def)
  have track: "track_media_completions example_ipmx_env (example_ipmx_sender, h, m, l) = Some (success, example_ipmx_sender, h, m, l)"
    by (simp add: track_media_completions_def example_ipmx_sender_def example_ipmx_env_def media_chunk_poll_def example_media_library_def poll_status_def)
  have turn: "sender_turn example_ipmx_env (example_ipmx_sender, h, m, l) = Some (success, s, h, m', l)"
    using track free s(1) by (simp add: sender_turn_def) (simp add: example_ipmx_env_def)
  have iv: "frame_field_time_interval_ns example_ipmx_settings = 0" by (simp add: example_ipmx_settings_def)
  have clock: "get_nic_time_now_ns example_ipmx_env l = (0, l)" by (simp add: example_ipmx_env_def)
  have check: "check_report_completion example_ipmx_env (n, l) = Some (success, n\<lparr>m_report_handler := Some h\<rparr>, l)"
    using h by (simp add: check_report_completion_def check_completion_def)
  have "node_round example_ipmx_env (n, 0, m, l) = Some (success, n\<lparr>m_report_handler := Some h, m_stream_senders := [s]\<rparr>, 0, m', l)"
    using assms(1,3,4) turn clock iv
    by (simp add: node_round_def check add_interval_def to_unsigned_def sleep_until_def NS_IN_SEC_def)
  then show ?thesis using s by simp
qed

lemma example_node_run:
  "\<exists>n1 n m' s. send_initial_reports example_ipmx_env (example_ipmx_node, m, 0) = Some (no_free_chunks, n1, m, 1)
    \<and> node_rounds example_ipmx_env 1 (n1, 0, m, 1) = Some (success, n, 0, m', 1) \<and> m_stream_senders n = [s]
    \<and> m_committed_first_chunks s = 1 \<and> ips_media_settings s = example_ipmx_settings"
proof -
  obtain n1 where n1: "send_initial_reports example_ipmx_env (example_ipmx_node, m, 0) = Some (no_free_chunks, n1, m, 1)"
    "m_stream_senders n1 = [example_ipmx_sender]" "m_report_handler n1 = m_report_handler example_ipmx_node"
    "isn_media_settings n1 = example_ipmx_settings" "\<not> isn_sleep_between_operations n1"
    using example_initial_reports by blast
  obtain n m' s where r: "node_round example_ipmx_env (n1, 0, m, 1) = Some (success, n, 0, m', 1)" "m_stream_senders n = [s]"
    "m_committed_first_chunks s = 1" "ips_media_settings s = example_ipmx_settings"
    using example_round[OF n1(2-5), of m 1] by blast
  then have "node_rounds example_ipmx_env 1 (n1, 0, m, 1) = Some (success, n, 0, m', 1)" by simp
  then show ?thesis using n1(1) r by blast
qed

theorem frames_in_flight_bounded_witness:
  "\<exists>n1 n m' s. send_initial_reports example_ipmx_env (example_ipmx_node, \<lambda>_. 0, 0) = Some (no_free_chunks, n1, \<lambda>_. 0, 1)
    \<and> node_rounds example_ipmx_env 1 (n1, 0, \<lambda>_. 0, 1) = Some (success, n, 0, m', 1) \<and> m_stream_senders n = [s]
    \<and> unat (m_committed_first_chunks s) = 1 \<and> fields_begun s = 1 \<and> fields_begun s \<le> unat (m_finished_fields s) + 1"
proof -
  obtain n1 n m' s where r: "send_initial_reports example_ipmx_env (example_ipmx_node, \<lambda>_. 0, 0) = Some (no_free_chunks, n1, \<lambda>_. 0, 1)"
    "node_rounds example_ipmx_env 1 (n1, 0, \<lambda>_. 0, 1) = Some (success, n, 0, m', 1)" "m_stream_senders n = [s]"
    "m_committed_first_chunks s = 1" "ips_media_settings s = example_ipmx_settings"
    using example_node_run[of "\<lambda>_. 0"] by blast
  have F: "frames_fields_in_mem_block (ips_media_settings s) = 1" using r(5) by (simp add: example_ipmx_settings_def)
  have "fields_begun s \<le> unat (m_finished_fields s) + unat (frames_fields_in_mem_block (ips_media_settings s))
      \<and> unat (m_committed_first_chunks s) = fields_begun s \<and> m_finished_reports s \<le> m_committed_reports s
      \<and> m_chunk_in_field_counter s < chunks_in_frame_field (ips_media_settings s)"
    by (rule frames_in_flight_bounded[OF _ r(1,2)]) (simp_all add: r(3) F example_ipmx_node_def example_fresh)
  then show ?thesis using r F by auto
qed

end
