(* ===== verification/Ipmx_Schedule.thy ===== *)
theory Ipmx_Schedule
  imports Ipmx_Sender
begin

text \<open>
  Properties of the IPMX sender node of theory \<open>Ipmx_Sender\<close>: the reports on their way are accounted for by the
  shared handler, the chunks of a stream leave in order with their tokens and times, and a started node runs without
  undefined behaviour.
\<close>

section \<open>Reports on their way\<close>

text \<open>The reports of a sender that were committed and whose completion is still awaited.\<close>

definition awaited :: "IPMXStreamSender \<Rightarrow> u64" where
  "awaited s = m_committed_reports s - m_finished_reports s"

lemma awaited_update:
  "i < length ss \<Longrightarrow> sum_list (map awaited (ss[i := s])) = sum_list (map awaited ss) + (awaited s - awaited (ss ! i))"
proof (induction ss arbitrary: i)
  case (Cons a ss)
  then show ?case by (cases i) simp_all
qed simp

lemma awaited_report:
  assumes "commit_sender_report env (s, h, m, l) = Some (status, s', h', m', l')"
  shows "m_pending_message_count h' - awaited s' = m_pending_message_count h - awaited s"
  by (simp add: awaited_def commit_sender_report_counts(2,5,6)[OF assms])

lemma awaited_turn:
  assumes "sender_turn env (s, h, m, l) = Some (status, s', h', m', l')"
  shows "m_pending_message_count h' - awaited s' = m_pending_message_count h - awaited s"
proof -
  obtain st s1 h1 m1 l1 where t: "track_media_completions env (s, h, m, l) = Some (st, s1, h1, m1, l1)"
    using assms by (auto simp: sender_turn_def split: bind_splits)
  have one: "m_pending_message_count h1 - awaited s1 = m_pending_message_count h - awaited s"
    using track_media_completions_counts[OF t] by (auto simp: awaited_def)
  show ?thesis
  proof (cases "st = success \<and> has_free_frame_buffer s1")
    case True
    then obtain m2 l2 where c: "commit_next_media_chunk (env_media env) (s1, m1, l1) = Some (status, s', m2, l2)" "h' = h1"
      using assms t by (auto simp: sender_turn_def split: bind_splits)
    show ?thesis using commit_next_media_chunk_counts[OF c(1)] one by (simp add: awaited_def same_reports_def c(2))
  next
    case False
    then have "s' = s1" "h' = h1" using assms t by (auto simp: sender_turn_def split: if_splits)
    then show ?thesis using one by simp
  qed
qed

lemma awaited_add:
  fixes a :: u64
  assumes "a - b = c - d" "e - f = a - g"
  shows "e - (b + f) = c - (d + g)"
proof -
  have "e - (b + f) = (e - f) - b" by simp
  also have "\<dots> = (a - b) - g" using assms(2) by simp
  also have "\<dots> = c - (d + g)" using assms(1) by simp
  finally show ?thesis .
qed

lemma awaited_turns:
  "sender_turns env sleeping wakeup ss (h, m, l) = Some (status, sleeping', wakeup', ss', h', m', l')
    \<Longrightarrow> m_pending_message_count h' - sum_list (map awaited ss') = m_pending_message_count h - sum_list (map awaited ss)"
proof (induction ss arbitrary: sleeping wakeup h m l status sleeping' wakeup' ss' h' m' l')
  case (Cons s ss)
  obtain st s1 h1 m1 l1 where t: "sender_turn env (s, h, m, l) = Some (st, s1, h1, m1, l1)"
    using Cons.prems by (auto split: bind_splits)
  note step = awaited_turn[OF t]
  show ?case
  proof (cases "st = success")
    case False
    then show ?thesis using Cons.prems t step by (auto simp: algebra_simps)
  next
    case True
    obtain sl wk where u: "sleep_until sleeping wakeup s1 = Some (sl, wk)"
      using Cons.prems t True by (auto split: bind_splits)
    obtain st2 sl2 wk2 ss2 h2 m2 l2 where r: "sender_turns env sl wk ss (h1, m1, l1) = Some (st2, sl2, wk2, ss2, h2, m2, l2)"
      using Cons.prems t True u by (auto split: bind_splits)
    have "ss' = s1 # ss2" "h' = h2" using Cons.prems t True u r by auto
    then show ?thesis using awaited_add[OF step Cons.IH[OF r]] by simp
  qed
qed auto

lemma awaited_initial:
  "send_reports env start ss (h, m, l) = Some (status, ss', h', m', l')
    \<Longrightarrow> m_pending_message_count h' - sum_list (map awaited ss') = m_pending_message_count h - sum_list (map awaited ss)"
proof (induction ss arbitrary: h m l status ss' h' m' l')
  case (Cons s ss)
  obtain t l1 where t: "get_nic_time_now_ns env l = (t, l1)" by fastforce
  obtain st s1 h1 m1 l2 where c: "commit_sender_report env (set_initial_timestamps start t s, h, m, l1) = Some (st, s1, h1, m1, l2)"
    using Cons.prems t by (auto split: bind_splits)
  have step: "m_pending_message_count h1 - awaited s1 = m_pending_message_count h - awaited s"
    using awaited_report[OF c] by (simp add: awaited_def set_initial_timestamps_def)
  show ?case
  proof (cases "st = success")
    case False
    then show ?thesis using Cons.prems t c step by (auto simp: algebra_simps)
  next
    case True
    then obtain ss1 where r: "send_reports env start ss (h1, m1, l2) = Some (status, ss1, h', m', l')" "ss' = s1 # ss1"
      using Cons.prems t c by auto
    then show ?thesis using awaited_add[OF step Cons.IH[OF r(1)]] by simp
  qed
qed simp

definition reports_accounted :: "IPMXSenderIONode \<Rightarrow> bool" where
  "reports_accounted n \<longleftrightarrow>
    (\<exists>h. m_report_handler n = Some h \<and> m_pending_message_count h = sum_list (map awaited (m_stream_senders n)))"

lemma reports_accounted_completion:
  assumes "check_report_completion env (n, l) = Some (success, n', l')" "reports_accounted n"
  shows "reports_accounted n'"
proof -
  obtain h where h: "m_report_handler n = Some h" "m_pending_message_count h = sum_list (map awaited (m_stream_senders n))"
    using assms(2) by (auto simp: reports_accounted_def)
  obtain st comp h1 l1 where c: "check_completion (env_gen env) (h, l) = (st, comp, h1, l1)" by (metis prod_cases4)
  show ?thesis
  proof (cases comp)
    case None
    then have "m_pending_message_count h1 = m_pending_message_count h"
      using c by (auto simp: check_completion_def Let_def split: if_splits prod.splits option.splits)
    then show ?thesis using assms(1) h c None by (auto simp: check_report_completion_def reports_accounted_def)
  next
    case (Some p)
    obtain i t where p: "p = (i, t)" by fastforce
    have pend: "m_pending_message_count h1 = m_pending_message_count h - 1"
      using c Some by (auto simp: check_completion_def Let_def split: if_splits prod.splits option.splits)
    obtain st2 s2 where nt: "notify_report_completion t (m_stream_senders n ! unat i) = (st2, s2)" by fastforce
    have len: "unat i < length (m_stream_senders n)"
      using assms(1) h c Some p by (auto simp: check_report_completion_def Let_def not_less split: if_splits)
    have i: "unat i < length (m_stream_senders n)" "st2 = success" "m_report_handler n' = Some h1" "m_stream_senders n' = (m_stream_senders n)[unat i := s2]"
      using assms(1) h c Some p nt len by (auto simp: check_report_completion_def Let_def split: if_splits)
    have "awaited s2 = awaited (m_stream_senders n ! unat i) - 1"
      using notify_report_completion_counts(2,5)[OF nt] i(2) by (simp add: awaited_def)
    then show ?thesis using h pend i by (simp add: reports_accounted_def awaited_update)
  qed
qed

lemma awaited_print: "map awaited (map period_reset ss) = map awaited ss"
  by (simp add: awaited_def period_reset_def)

lemma reports_accounted_round:
  assumes "node_round env (n, t, m, l) = Some (success, n', t', m', l')" "reports_accounted n"
  shows "reports_accounted n'"
proof -
  obtain st n1 l1 where c: "check_report_completion env (n, l) = Some (st, n1, l1)"
    using assms by (auto simp: node_round_def split: bind_splits)
  have st: "st = success" using assms(1) c by (auto simp: node_round_def split: if_splits)
  obtain h where h: "m_report_handler n1 = Some h" "m_pending_message_count h = sum_list (map awaited (m_stream_senders n1))"
    using reports_accounted_completion[OF c[unfolded st] assms(2)] by (auto simp: reports_accounted_def)
  obtain now l2 where clock: "get_nic_time_now_ns env l1 = (now, l2)" by fastforce
  obtain wk where wk: "add_interval now (frame_field_time_interval_ns (isn_media_settings n1)) = Some wk"
    using assms c st clock by (auto simp: node_round_def split: bind_splits)
  obtain st2 sl wk2 ss h2 m2 l3 where turns:
    "sender_turns env (isn_sleep_between_operations n1) wk (m_stream_senders n1) (h, m, l2) = Some (st2, sl, wk2, ss, h2, m2, l3)"
    using assms c st clock wk h by (auto simp: node_round_def split: bind_splits)
  have "m_pending_message_count h2 = sum_list (map awaited ss)"
    using awaited_turns[OF turns] h(2) by simp
  then have "reports_accounted (n1\<lparr>m_stream_senders := ss, m_report_handler := Some h2\<rparr>)
      \<and> reports_accounted (n1\<lparr>m_stream_senders := map period_reset ss, m_report_handler := Some h2\<rparr>)"
    by (simp add: reports_accounted_def awaited_print del: map_map)
  then show ?thesis
    using assms(1) c st clock wk h turns
    by (auto simp: node_round_def Let_def reports_accounted_def print_senders_stats_reset split: if_splits bind_splits)
qed

text \<open>C38: the reports on their way are accounted for.  In a node with new senders and a new
  report handler, after the initial reports and any number of successful rounds, whatever the library answers, the
  count of pending messages of the shared handler is the sum over all senders of the reports they committed and that
  were not reported complete.\<close>

theorem pending_reports_accounted:
  assumes "\<forall>s \<in> set (m_stream_senders n0). fresh_sender s" "m_report_handler n0 = Some (SharedMessageHandler_new c)"
    and "send_initial_reports env (n0, m0, l0) = Some (status0, n1, m1, l1)"
    and "node_rounds env r (n1, t1, m1, l1) = Some (success, n, t, m, l)"
  shows "\<exists>h. m_report_handler n = Some h
    \<and> m_pending_message_count h = sum_list (map (\<lambda>s. m_committed_reports s - m_finished_reports s) (m_stream_senders n))"
proof -
  have "map awaited (m_stream_senders n0) = map (\<lambda>_. 0) (m_stream_senders n0)"
    using assms(1) by (simp add: awaited_def fresh_sender_def)
  then have zero: "sum_list (map awaited (m_stream_senders n0)) = 0" by (simp only: sum_list_triv) simp
  obtain ss h m2 l2 where r: "send_reports env (isn_start_send_time_ns n0) (m_stream_senders n0) (SharedMessageHandler_new c, m0, l0) = Some (status0, ss, h, m2, l2)"
    "m_stream_senders n1 = ss" "m_report_handler n1 = Some h"
    using assms(2,3) by (auto simp: send_initial_reports_def split: bind_splits)
  have "reports_accounted n1"
    using awaited_initial[OF r(1)] r zero by (simp add: reports_accounted_def SharedMessageHandler_new_def)
  moreover have "reports_accounted n1 \<Longrightarrow> node_rounds env r (n1, t1, m1, l1) = Some (success, n, t, m, l) \<Longrightarrow> reports_accounted n"
  proof (induction r arbitrary: n t m l)
    case (Suc r)
    obtain st2 n2 t2 m2 l2 where "node_rounds env r (n1, t1, m1, l1) = Some (st2, n2, t2, m2, l2)"
      using Suc.prems by (auto split: bind_splits)
    then show ?case using Suc reports_accounted_round[of env n2 t2 m2 l2 n t m l] by (cases "st2 = success") auto
  qed simp
  ultimately show ?thesis using assms(4) by (simp add: reports_accounted_def awaited_def[abs_def])
qed

section \<open>The schedule of the chunks\<close>

text \<open>A library that also keeps the tokens and the times of the successful calls.\<close>

datatype commit_event = Marked u64 | Committed u64

definition on_library :: "('l \<Rightarrow> 'r \<times> 'l) \<Rightarrow> 'l \<times> 'g \<Rightarrow> 'r \<times> 'l \<times> 'g" where
  "on_library f = (\<lambda>(l, g). let (r, l) = f l in (r, l, g))"

definition on_status :: "('l \<Rightarrow> rmx_status \<times> 'l) \<Rightarrow> commit_event \<Rightarrow> 'l \<times> commit_event list \<Rightarrow> rmx_status \<times> 'l \<times> commit_event list" where
  "on_status f e = (\<lambda>(l, g). let (r, l) = f l in (r, l, if r = RMX_OK then g @ [e] else g))"

definition logging_library :: "'l rmx_output_media \<Rightarrow> ('l \<times> commit_event list) rmx_output_media" where
  "logging_library r =
    \<lparr>media_init_chunk_handle = (\<lambda>i. on_library (media_init_chunk_handle r i)),
     media_get_next_chunk = (\<lambda>c. on_library (media_get_next_chunk r c)),
     media_get_chunk_strides = (\<lambda>c i (l, g). media_get_chunk_strides r c i l),
     media_get_chunk_packet_sizes = (\<lambda>c i (l, g). media_get_chunk_packet_sizes r c i l),
     media_set_chunk_option = (\<lambda>c i (l, g). (media_set_chunk_option r c i l, g)),
     media_clear_chunk_all_options = (\<lambda>c (l, g). (media_clear_chunk_all_options r c l, g)),
     media_commit_chunk = (\<lambda>c t. on_status (media_commit_chunk r c t) (Committed t)),
     media_cancel_unsent_chunks = (\<lambda>c. on_library (media_cancel_unsent_chunks r c)),
     media_mark_chunk_for_tracking = (\<lambda>c t. on_status (media_mark_chunk_for_tracking r c t) (Marked t)),
     media_poll_for_completion = (\<lambda>c. on_library (media_poll_for_completion r c)),
     media_get_last_completion = (\<lambda>c (l, g). media_get_last_completion r c l),
     media_create_stream = (\<lambda>p (l, g). let (s, i, l) = media_create_stream r p l in (s, i, l, g)),
     media_destroy_stream = (\<lambda>i. on_library (media_destroy_stream r i))\<rparr>"

text \<open>The committed chunks with the token they were last marked with, and their times.\<close>

fun log_step :: "commit_event \<Rightarrow> u64 option \<times> (u64 option \<times> u64) list \<Rightarrow> u64 option \<times> (u64 option \<times> u64) list" where
  "log_step (Marked token) (t, cs) = (Some token, cs)"
| "log_step (Committed time) (t, cs) = (None, cs @ [(t, time)])"

definition sent_chunks :: "commit_event list \<Rightarrow> (u64 option \<times> u64) list" where
  "sent_chunks calls = snd (fold log_step calls (None, []))"

definition chunk_token :: "MediaSettings \<Rightarrow> nat \<Rightarrow> u64 option" where
  "chunk_token ms i =
    (let C = unat (chunks_in_frame_field ms)
     in if i mod C = 0 then Some (word_of_nat (i div C)) else if i mod C = C - 1 then Some LAST_CHUNK_IN_FRAME_TOKEN else None)"

definition chunk_time :: "IPMXStreamSender \<Rightarrow> nat \<Rightarrow> u64" where
  "chunk_time s i =
    (let C = unat (chunks_in_frame_field (ips_media_settings s))
     in if i mod C = 0 then the (field_time_ns s (word_of_nat (i div C))) else 0)"

definition chunks_sent :: "IPMXStreamSender \<Rightarrow> nat" where
  "chunks_sent s = unat (m_committed_fields s) * unat (chunks_in_frame_field (ips_media_settings s)) + unat (m_chunk_in_field_counter s)"

text \<open>The operations of a sender, where the commits run on the library that keeps the calls.\<close>

inductive scheduled :: "'l ipmx_env \<Rightarrow> IPMXStreamSender \<times> commit_event list \<Rightarrow> IPMXStreamSender \<times> commit_event list \<Rightarrow> bool" for env where
  scheduled_commit: "commit_next_media_chunk (logging_library (env_media env)) (s, m, l, calls) = Some (status, s', m', l', calls')
    \<Longrightarrow> scheduled env (s, calls) (s', calls')"
| scheduled_report: "commit_sender_report env (s, h, m, l) = Some (status, s', h', m', l') \<Longrightarrow> scheduled env (s, calls) (s', calls)"
| scheduled_notify: "notify_report_completion t s = (status, s') \<Longrightarrow> scheduled env (s, calls) (s', calls)"
| scheduled_track: "track_media_completions env (s, h, m, l) = Some (status, s', h', m', l') \<Longrightarrow> scheduled env (s, calls) (s', calls)"
| scheduled_stats: "print_report_stats s = Some (avg, s') \<Longrightarrow> scheduled env (s, calls) (s', calls)"

definition on_schedule :: "nat \<Rightarrow> IPMXStreamSender \<times> commit_event list \<Rightarrow> bool" where
  "on_schedule k = (\<lambda>(s, calls).
     fold log_step calls (None, []) \<in> {None, chunk_token (ips_media_settings s) (chunks_sent s)}
        \<times> {map (\<lambda>i. (chunk_token (ips_media_settings s) i, chunk_time s i)) [0..<chunks_sent s]}
     \<and> m_chunk_in_field_counter s < chunks_in_frame_field (ips_media_settings s) \<and> unat (m_committed_fields s) \<le> k
     \<and> m_committed_first_chunks s = m_committed_fields s + (if m_chunk_in_field_counter s = 0 then 0 else 1))"

lemma on_schedule_commit_state:
  assumes "commit_state s' = commit_state s" "on_schedule k (s, calls)" "k \<le> k'"
  shows "on_schedule k' (s', calls)"
proof -
  have eq: "m_committed_first_chunks s' = m_committed_first_chunks s" "m_committed_fields s' = m_committed_fields s"
    "m_chunk_in_field_counter s' = m_chunk_in_field_counter s" "ips_media_settings s' = ips_media_settings s"
    "ips_start_send_time_ns s' = ips_start_send_time_ns s"
    using assms(1) by (simp_all add: commit_state_def)
  have "field_time_ns s' = field_time_ns s" by (rule ext) (simp add: field_time_ns_def eq)
  then have "chunk_time s' = chunk_time s" "chunks_sent s' = chunks_sent s"
    by (simp_all add: chunk_time_def[abs_def] chunks_sent_def eq Let_def cong: if_cong)
  then show ?thesis using assms(2,3) unfolding on_schedule_def by (simp add: eq)
qed

lemma chunk_token_sent:
  assumes "m_chunk_in_field_counter s < chunks_in_frame_field (ips_media_settings s)"
  shows "chunk_token (ips_media_settings s) (chunks_sent s)
      = (if m_chunk_in_field_counter s = 0 then Some (m_committed_fields s)
         else if m_chunk_in_field_counter s = chunks_in_frame_field (ips_media_settings s) - 1 then Some LAST_CHUNK_IN_FRAME_TOKEN else None)"
    and "chunk_time s (chunks_sent s)
      = (if m_chunk_in_field_counter s = 0 then the (field_time_ns s (m_committed_fields s)) else 0)"
proof -
  let ?C = "chunks_in_frame_field (ips_media_settings s)"
  have c: "unat (m_chunk_in_field_counter s) < unat ?C" using assms by (simp add: word_less_nat_alt)
  then have "unat (?C - 1) = unat ?C - 1" by (simp add: unat_sub word_le_nat_alt)
  then have last: "m_chunk_in_field_counter s = ?C - 1 \<longleftrightarrow> unat (m_chunk_in_field_counter s) = unat ?C - 1"
    by (simp add: word_unat_eq_iff)
  have zero: "m_chunk_in_field_counter s = 0 \<longleftrightarrow> unat (m_chunk_in_field_counter s) = 0" by (simp add: unat_eq_0)
  have parts: "chunks_sent s mod unat ?C = unat (m_chunk_in_field_counter s)" "chunks_sent s div unat ?C = unat (m_committed_fields s)"
    using c by (simp_all add: chunks_sent_def)
  show "chunk_token (ips_media_settings s) (chunks_sent s)
      = (if m_chunk_in_field_counter s = 0 then Some (m_committed_fields s)
         else if m_chunk_in_field_counter s = ?C - 1 then Some LAST_CHUNK_IN_FRAME_TOKEN else None)"
    unfolding chunk_token_def Let_def parts zero last by simp
  show "chunk_time s (chunks_sent s) = (if m_chunk_in_field_counter s = 0 then the (field_time_ns s (m_committed_fields s)) else 0)"
    unfolding chunk_time_def Let_def parts zero by simp
qed

lemma chunks_sent_count:
  assumes "m_chunk_in_field_counter s < chunks_in_frame_field (ips_media_settings s)" "unat (m_committed_fields s) + 1 < 2 ^ 64"
  shows "chunks_sent (count_chunk s) = chunks_sent s + 1" "chunk_time (count_chunk s) = chunk_time s"
    "m_chunk_in_field_counter (count_chunk s) < chunks_in_frame_field (ips_media_settings s)"
    "ips_media_settings (count_chunk s) = ips_media_settings s" "unat (m_committed_fields (count_chunk s)) \<le> unat (m_committed_fields s) + 1"
    "m_committed_first_chunks s = m_committed_fields s + (if m_chunk_in_field_counter s = 0 then 0 else 1)
      \<Longrightarrow> m_committed_first_chunks (count_chunk s) = m_committed_fields (count_chunk s) + (if m_chunk_in_field_counter (count_chunk s) = 0 then 0 else 1)"
proof -
  let ?C = "chunks_in_frame_field (ips_media_settings s)"
  have c: "unat (m_chunk_in_field_counter s) + 1 < 2 ^ 64"
    using assms(1) unat_u64_bound[of ?C] by (simp add: word_less_nat_alt)
  have inc: "unat (m_chunk_in_field_counter s + 1) = unat (m_chunk_in_field_counter s) + 1" by (rule unat_plus_one[OF c])
  have field: "unat (m_committed_fields s + 1) = unat (m_committed_fields s) + 1" by (rule unat_plus_one[OF assms(2)])
  have lt: "m_chunk_in_field_counter s + 1 < ?C \<or> m_chunk_in_field_counter s + 1 = ?C"
    using assms(1) inc_le[of "m_chunk_in_field_counter s" ?C] by fastforce
  have nz: "m_chunk_in_field_counter s + 1 \<noteq> 0" using inc by auto
  have pos: "0 < ?C" using assms(1) by (auto simp: word_less_nat_alt)
  show ms: "ips_media_settings (count_chunk s) = ips_media_settings s" by (simp add: count_chunk_def Let_def)
  have "ips_start_send_time_ns (count_chunk s) = ips_start_send_time_ns s" by (simp add: count_chunk_def Let_def)
  then have "field_time_ns (count_chunk s) = field_time_ns s" by (intro ext) (simp add: field_time_ns_def ms)
  then show "chunk_time (count_chunk s) = chunk_time s" by (simp add: chunk_time_def[abs_def] ms Let_def cong: if_cong)
  show "chunks_sent (count_chunk s) = chunks_sent s + 1"
    using field inc lt by (auto simp: chunks_sent_def count_chunk_def Let_def)
  show "m_chunk_in_field_counter (count_chunk s) < ?C" using lt pos by (auto simp: count_chunk_def Let_def)
  show "unat (m_committed_fields (count_chunk s)) \<le> unat (m_committed_fields s) + 1"
    using field by (simp add: count_chunk_def Let_def)
  show "m_committed_first_chunks s = m_committed_fields s + (if m_chunk_in_field_counter s = 0 then 0 else 1)
      \<Longrightarrow> m_committed_first_chunks (count_chunk s) = m_committed_fields (count_chunk s) + (if m_chunk_in_field_counter (count_chunk s) = 0 then 0 else 1)"
    using nz by (simp add: count_chunk_def Let_def)
qed


lemma mark_chunk_log:
  assumes "mark_chunk (logging_library r) c s (l, calls) = Some (status, t, l', calls')" "on_schedule k (s, calls)"
  shows "on_schedule k (s, calls')"
    and "status = success \<Longrightarrow> fst (fold log_step calls' (None, [])) = chunk_token (ips_media_settings s) (chunks_sent s) \<and> t = chunk_time s (chunks_sent s)"
proof -
  let ?C = "chunks_in_frame_field (ips_media_settings s)"
  have ctr: "m_chunk_in_field_counter s < ?C" using assms(2) by (simp add: on_schedule_def)
  note token = chunk_token_sent[OF ctr]
  have first: "m_chunk_in_field_counter s = 0 \<Longrightarrow> m_committed_first_chunks s = m_committed_fields s" using assms(2) by (simp add: on_schedule_def)
  define tok where "tok = (if m_chunk_in_field_counter s = 0 then Some (m_committed_first_chunks s)
      else if m_chunk_in_field_counter s = ?C - 1 then Some LAST_CHUNK_IN_FRAME_TOKEN else None)"
  have tok: "chunk_token (ips_media_settings s) (chunks_sent s) = tok" using token(1) first by (simp add: tok_def)
  have calls': "(status = success \<longrightarrow> calls' = calls @ (case tok of None \<Rightarrow> [] | Some x \<Rightarrow> [Marked x]) \<and> t = chunk_time s (chunks_sent s))
      \<and> (status \<noteq> success \<longrightarrow> calls' = calls \<or> (\<exists>x. tok = Some x \<and> calls' = calls @ [Marked x]))"
    using assms(1) token(2)
    by (auto simp: mark_chunk_def tok_def media_chunk_mark_def mark_status_def logging_library_def on_status_def Let_def
        split: if_splits prod.splits rmx_status.splits)
  show "on_schedule k (s, calls')"
    using assms(2) calls' tok unfolding on_schedule_def by (cases "status = success") (auto split: option.splits)
  show "status = success \<Longrightarrow> fst (fold log_step calls' (None, [])) = chunk_token (ips_media_settings s) (chunks_sent s) \<and> t = chunk_time s (chunks_sent s)"
    using assms(2) calls' tok unfolding on_schedule_def by (auto split: option.splits)
qed

lemma count_chunk_log:
  assumes "on_schedule k (s, calls)"
    and "fst (fold log_step calls (None, [])) = chunk_token (ips_media_settings s) (chunks_sent s) \<and> t = chunk_time s (chunks_sent s)"
    and "k + 1 < 2 ^ 64"
  shows "on_schedule (k + 1) (count_chunk s, calls @ [Committed t])"
proof -
  have b: "m_chunk_in_field_counter s < chunks_in_frame_field (ips_media_settings s)" "unat (m_committed_fields s) + 1 < 2 ^ 64"
    using assms(1,3) by (auto simp: on_schedule_def)
  note n = chunks_sent_count[OF b]
  obtain tk cs where f: "fold log_step calls (None, []) = (tk, cs)" by fastforce
  have cs: "cs = map (\<lambda>i. (chunk_token (ips_media_settings s) i, chunk_time s i)) [0..<chunks_sent s]"
    using assms(1) f by (auto simp: on_schedule_def)
  have "fold log_step (calls @ [Committed t]) (None, [])
      = (None, map (\<lambda>i. (chunk_token (ips_media_settings s) i, chunk_time s i)) [0..<chunks_sent s + 1])"
    using f assms(2) by (simp add: cs)
  moreover have "unat (m_committed_fields (count_chunk s)) \<le> k + 1" using n(5) assms(1) by (simp add: on_schedule_def)
  ultimately show ?thesis
    using assms(1) n(1-4,6) unfolding on_schedule_def by (simp only: prod.case mem_Times_iff fst_conv snd_conv insert_iff simp_thms)
qed

text \<open>What a commit adds to the kept calls.\<close>

lemma commit_next_media_chunk_log:
  assumes "commit_next_media_chunk (logging_library r) (s, m, l, calls) = Some (status, s', m', l', calls')"
    and "on_schedule k (s, calls)" "k + 1 < 2 ^ 64"
  shows "on_schedule (k + 1) (s', calls')"
proof -
  let ?r = "logging_library r"
  obtain c where c: "m_media_chunk_handler s = Some c" using assms(1) by (auto simp: commit_next_media_chunk_def split: bind_splits)
  obtain st1 s1 m1 l1 calls1 where a: "chunk_to_commit ?r c (s, m, l, calls) = Some (st1, s1, m1, l1, calls1)"
    using assms(1) c by (auto simp: commit_next_media_chunk_def split: bind_splits)
  have same: "calls1 = calls"
    using a by (auto simp: chunk_to_commit_def media_stream_get_next_chunk_def media_chunk_get_next_def logging_library_def on_library_def Let_def
        split: if_splits prod.splits)
  have on1: "on_schedule k (s1, calls)"
    by (rule on_schedule_commit_state[OF chunk_to_commit_counts(2)[OF a] assms(2)]) simp
  have pend: "on_schedule (k + 1) (s1\<lparr>m_chunk_pending := True\<rparr>, g)" if "on_schedule k (s1, g)" for g
    by (rule on_schedule_commit_state[OF _ that]) (simp_all add: commit_state_def)
  have keep: "on_schedule (k + 1) (s1, g)" if "on_schedule k (s1, g)" for g
    by (rule on_schedule_commit_state[OF _ that]) simp_all
  show ?thesis
  proof (cases "st1 = success")
    case False
    then show ?thesis using assms(1) c a same keep[OF on1] by (simp add: commit_next_media_chunk_def)
  next
    case True
    obtain st2 t l2 calls2 where mk: "mark_chunk ?r c s1 (l1, calls) = Some (st2, t, l2, calls2)"
      using assms(1) c a same True by (cases "mark_chunk ?r c s1 (l1, calls)") (auto simp: commit_next_media_chunk_def)
    note marked = mark_chunk_log[OF mk on1]
    obtain st3 l3 calls3 where cm: "media_stream_commit_chunk ?r c t (l2, calls2) = (st3, l3, calls3)" by (metis prod_cases3)
    have log3: "calls3 = (if st3 = success then calls2 @ [Committed t] else calls2)"
      using cm by (auto simp: media_stream_commit_chunk_def media_chunk_commit_def logging_library_def on_status_def commit_status_def Let_def
          split: prod.splits rmx_status.splits if_splits)
    have "Some (status, s', m', l', calls') = (if st2 \<noteq> success then Some (st2, s1, m1, l2, calls2)
        else if st3 = hw_send_queue_full then Some (success, s1\<lparr>m_chunk_pending := True\<rparr>, m1, l3, calls2)
        else if st3 \<noteq> success then Some (st3, s1, m1, l3, calls2)
        else Some (success, count_chunk s1, m1, l3, calls2 @ [Committed t]))"
      unfolding assms(1)[symmetric] by (simp add: commit_next_media_chunk_def c a same True mk cm log3)
    then consider "s' = s1" "calls' = calls2" | "s' = s1\<lparr>m_chunk_pending := True\<rparr>" "calls' = calls2"
      | "s' = count_chunk s1" "calls' = calls2 @ [Committed t]" "st2 = success"
      by (simp only: option.inject prod.inject split: if_splits)
    then show ?thesis
    proof cases
      case 3
      show ?thesis unfolding 3 by (rule count_chunk_log[OF marked(1) marked(2)[OF 3(3)] assms(3)])
    qed (use marked(1) keep pend in simp_all)
  qed
qed

lemma on_schedule_step:
  assumes "scheduled env (s, calls) (s', calls')" "on_schedule k (s, calls)" "k + 1 < 2 ^ 64"
  shows "on_schedule (k + 1) (s', calls')"
  using assms(1)
proof cases
  case (scheduled_commit m l status m' l')
  then show ?thesis by (rule commit_next_media_chunk_log[OF _ assms(2,3)])
next
  case (scheduled_report h m l status h' m' l')
  then show ?thesis using on_schedule_commit_state[OF commit_sender_report_counts(1)[OF scheduled_report(2)] assms(2)] by simp
next
  case (scheduled_notify t status)
  then show ?thesis using on_schedule_commit_state[OF notify_report_completion_counts(1)[OF scheduled_notify(2)] assms(2)] by simp
next
  case (scheduled_track h m l status h' m' l')
  then show ?thesis using on_schedule_commit_state[OF _ assms(2), of s'] track_media_completions_counts[OF scheduled_track(2)] by simp
next
  case (scheduled_stats avg)
  show ?thesis
    using on_schedule_commit_state[OF _ assms(2), of s'] scheduled_stats(1)
    by (simp add: print_report_stats_reset[OF scheduled_stats(2)] period_reset_def commit_state_def)
qed

lemma on_schedule_steps:
  "(scheduled env ^^ k) (s0, calls0) (s, calls) \<Longrightarrow> on_schedule 0 (s0, calls0) \<Longrightarrow> k < 2 ^ 64 \<Longrightarrow> on_schedule k (s, calls)"
proof (induction k arbitrary: s calls)
  case (Suc k)
  then obtain s1 calls1 where "(scheduled env ^^ k) (s0, calls0) (s1, calls1)" "scheduled env (s1, calls1) (s, calls)" by auto
  then show ?case using Suc on_schedule_step[of env s1 calls1 s calls k] by simp
qed simp

lemma on_schedule_fresh: "fresh_sender s \<Longrightarrow> 0 < chunks_in_frame_field (ips_media_settings s) \<Longrightarrow> on_schedule 0 (s, [])"
  by (simp add: on_schedule_def fresh_sender_def chunks_sent_def)

text \<open>The settings and the start time stay.\<close>

lemma scheduled_commit_state:
  assumes "scheduled env (s, calls) (s', calls')"
  shows "commit_state s' = commit_state s \<or> commit_state s' = commit_state (count_chunk s)"
  using assms
proof cases
  case (scheduled_commit m l status m' l')
  show ?thesis using commit_next_media_chunk_counts[OF scheduled_commit] by simp
next
  case (scheduled_report h m l status h' m' l')
  show ?thesis using commit_sender_report_counts(1)[OF scheduled_report(2)] by simp
next
  case (scheduled_notify t status)
  show ?thesis using notify_report_completion_counts(1)[OF scheduled_notify(2)] by simp
next
  case (scheduled_track h m l status h' m' l')
  show ?thesis using track_media_completions_counts[OF scheduled_track(2)] by simp
next
  case (scheduled_stats avg)
  show ?thesis by (simp add: print_report_stats_reset[OF scheduled_stats(2)] period_reset_def commit_state_def)
qed

lemma scheduled_config:
  assumes "scheduled env (s, calls) (s', calls')"
  shows "ips_media_settings s' = ips_media_settings s" "ips_start_send_time_ns s' = ips_start_send_time_ns s"
  using scheduled_commit_state[OF assms] by (auto simp: commit_state_def count_chunk_def Let_def split: if_splits)

lemma scheduled_chunk_time:
  "(scheduled env ^^ k) (s0, calls0) (s, calls) \<Longrightarrow> chunk_time s = chunk_time s0 \<and> ips_media_settings s = ips_media_settings s0"
proof (induction k arbitrary: s calls)
  case (Suc k)
  then obtain s1 calls1 where s1: "(scheduled env ^^ k) (s0, calls0) (s1, calls1)" "scheduled env (s1, calls1) (s, calls)" by auto
  have "field_time_ns s = field_time_ns s1" by (rule ext) (simp add: field_time_ns_def scheduled_config[OF s1(2)])
  then have "chunk_time s = chunk_time s1"
    by (simp add: chunk_time_def[abs_def] scheduled_config[OF s1(2)] Let_def cong: if_cong)
  then show ?case using Suc.IH[OF s1(1)] scheduled_config[OF s1(2)] by simp
qed simp

text \<open>C37: the chunks of a stream leave on schedule.  However the commits of a new sender are
  interleaved with its other operations and whatever the library answers, the successful commits are the chunks
  \<open>0, 1, 2, \<dots>\<close> without gaps: the first chunk of field \<open>f\<close> carries the token \<open>f\<close> and the start time of that field,
  the last chunk of a field the token of a last chunk, and all chunks but the first go out at once.  A chunk that found
  the queue of the hardware full is committed again with the same token and the same time.\<close>

theorem chunks_on_schedule:
  assumes "fresh_sender s0" "0 < chunks_in_frame_field (ips_media_settings s0)"
    and "(scheduled env ^^ k) (s0, []) (s, calls)" "k < 2 ^ 64"
  shows "sent_chunks calls = map (\<lambda>i. (chunk_token (ips_media_settings s0) i, chunk_time s0 i)) [0..<chunks_sent s]"
proof -
  have "on_schedule k (s, calls)" by (rule on_schedule_steps[OF assms(3) on_schedule_fresh[OF assms(1,2)] assms(4)])
  then show ?thesis using scheduled_chunk_time[OF assms(3)] unfolding on_schedule_def sent_chunks_def by auto
qed

text \<open>A field of a single chunk is never marked as complete: its only chunk carries the token of a first chunk.\<close>

lemma single_chunk_never_last:
  assumes "chunks_in_frame_field ms = 1" "i < 2 ^ 64 - 1"
  shows "chunk_token ms i \<noteq> Some LAST_CHUNK_IN_FRAME_TOKEN"
proof -
  have "unat (word_of_nat i :: u64) = i" using assms(2) by (intro unat_word_of_nat) simp
  moreover have "unat LAST_CHUNK_IN_FRAME_TOKEN = 2 ^ 64 - 1" by (simp add: LAST_CHUNK_IN_FRAME_TOKEN_def)
  ultimately have "(word_of_nat i :: u64) \<noteq> LAST_CHUNK_IN_FRAME_TOKEN" using assms(2) by auto
  then show ?thesis by (simp add: chunk_token_def assms(1))
qed

section \<open>A started node has no undefined behaviour\<close>

text \<open>The times of the fields fit their integers, and so do the time stamps of the reports.\<close>

definition times_ok :: "nat \<Rightarrow> IPMXStreamSender \<Rightarrow> bool" where
  "times_ok N s \<longleftrightarrow> (\<forall>n. unat n \<le> N \<longrightarrow> (\<exists>t. field_time_ns s n = Some t
     \<and> to_unsigned 32 (time_to_rtp_timestamp (dbl (of_nat (unat t))) (sint (ucast (sample_rate (ips_media_settings s)) :: u32))) \<noteq> None))"

definition sender_ok :: "nat \<Rightarrow> nat \<Rightarrow> IPMXStreamSender \<Rightarrow> bool" where
  "sender_ok N k s \<longleftrightarrow> m_media_chunk_handler s \<noteq> None \<and> m_report_chunk_handler s \<and> stream_ok (m_stream s) \<and> times_ok N s
     \<and> unat (m_finished_first_chunks s) \<le> k \<and> unat (m_committed_fields s) \<le> k"

definition handler_ok :: "SharedMessageHandler \<Rightarrow> bool" where
  "handler_ok h \<longleftrightarrow> first_region (m_chunk_handle h) \<noteq> None"

lemma times_ok_cong:
  "ips_media_settings s' = ips_media_settings s \<Longrightarrow> ips_start_send_time_ns s' = ips_start_send_time_ns s \<Longrightarrow> times_ok N s' = times_ok N s"
  by (simp add: times_ok_def field_time_ns_def)

lemma commit_message_defined:
  assumes "handler_ok h"
  shows "\<exists>status h' l'. commit_message rmx mreg i a (h, l) = Some (status, h', l') \<and> handler_ok h'"
proof -
  let ?c = "place_packet 0 ((m_packets (m_chunk_handle h) ! 0)[0 := mreg]) (m_chunk_handle h)"
  have f: "first_region ?c = Some mreg" using assms by (intro first_region_update) (simp add: handler_ok_def)
  obtain st l1 where ap: "apply_packets_layout rmx ?c (set_dest_address rmx a (m_chunk_handle h) l) = (st, l1)" by fastforce
  obtain st2 l2 where mk: "gen_chunk_mark rmx ?c i l1 = (st2, l2)" by fastforce
  obtain st3 l3 where cm: "gen_chunk_commit rmx ?c 0 l2 = (st3, l3)" by fastforce
  show ?thesis
    using assms f ap mk cm by (auto simp: commit_message_def handler_ok_def Let_def)
qed

lemma commit_sender_report_defined:
  assumes "sender_ok N k s" "handler_ok h" "k \<le> N"
  shows "\<exists>status s' h' m' l'. commit_sender_report env (s, h, m, l) = Some (status, s', h', m', l') \<and> sender_ok N k s' \<and> handler_ok h'"
proof -
  obtain st l1 where g: "gen_chunk_get_next (env_gen env) (m_chunk_handle h) l = (st, l1)" by fastforce
  have attached: "m_report_chunk_handler s" using assms(1) by (simp add: sender_ok_def)
  show ?thesis
  proof (cases "st = success")
    case False
    then show ?thesis using assms(1,2) g attached by (simp add: commit_sender_report_def get_next_buffer_def)
  next
    case True
    obtain mreg where mreg: "first_region (m_chunk_handle h) = Some mreg" using assms(2) by (auto simp: handler_ok_def)
    have "times_ok N s" "unat (m_finished_first_chunks s) \<le> N" using assms(1,3) by (auto simp: sender_ok_def)
    then obtain t where t: "field_time_ns s (m_finished_first_chunks s) = Some t"
      "to_unsigned 32 (time_to_rtp_timestamp (dbl (of_nat (unat t))) (sint (ucast (sample_rate (ips_media_settings s)) :: u32))) \<noteq> None"
      unfolding times_ok_def by blast
    obtain ts where ts: "to_unsigned 32 (time_to_rtp_timestamp (dbl (of_nat (unat t))) (sint (ucast (sample_rate (ips_media_settings s)) :: u32))) = Some ts"
      using t(2) by auto
    obtain st2 h2 l2 where cm: "commit_message (env_gen env) (mreg\<lparr>region_length := m_report_size s\<rparr>) (m_sender_id s)
        (env_socket_address env (flow_ip (m_report_dst_flow s)) (flow_port (m_report_dst_flow s))) (h, l1) = Some (st2, h2, l2)" "handler_ok h2"
      using commit_message_defined[OF assms(2)] by metis
    have ok: "sender_ok N k (s\<lparr>m_report := rep\<rparr>)" "sender_ok N k (s\<lparr>m_report := rep, m_committed_reports := m_committed_reports s + 1\<rparr>)" for rep
      using assms(1) times_ok_cong[of "s\<lparr>m_report := rep\<rparr>" s] times_ok_cong[of "s\<lparr>m_report := rep, m_committed_reports := m_committed_reports s + 1\<rparr>" s]
      by (simp_all add: sender_ok_def)
    show ?thesis
      using g True mreg t(1) ts cm ok attached by (simp add: commit_sender_report_def get_next_buffer_def Let_def)
  qed
qed

lemma sender_ok_mono: "sender_ok N k s \<Longrightarrow> k \<le> k' \<Longrightarrow> sender_ok N k' s"
  by (auto simp: sender_ok_def)

lemma track_defined:
  assumes "sender_ok N k s" "handler_ok h" "k + 1 \<le> N" "k + 1 < 2 ^ 64"
  shows "\<exists>status s' h' m' l'. track_media_completions env (s, h, m, l) = Some (status, s', h', m', l') \<and> sender_ok N (k + 1) s' \<and> handler_ok h'"
proof -
  obtain c where c: "m_media_chunk_handler s = Some c" using assms(1) by (auto simp: sender_ok_def)
  obtain st l1 where p: "media_chunk_poll (env_media env) c l = (st, l1)" by fastforce
  have ok: "sender_ok N (k + 1) s" using sender_ok_mono[OF assms(1)] by simp
  show ?thesis
  proof (cases "st = success")
    case False
    then show ?thesis using c p ok assms(2) by (simp add: track_media_completions_def)
  next
    case True
    have eq: "track_media_completions env (s, h, m, l) = process_media_completion env (s, h, m, l1)"
      using c p True by (simp add: track_media_completions_def)
    show ?thesis
    proof (cases "media_chunk_last_completion (env_media env) c l1")
      case None
      then show ?thesis using eq c ok assms(2) by (simp add: process_media_completion_def)
    next
      case (Some a)
      obtain t token where a: "a = (t, token)" by fastforce
      let ?f = "s\<lparr>m_finished_fields := m_finished_fields s + 1\<rparr>"
      let ?b = "s\<lparr>m_last_report_trigger_ts := t, m_finished_first_chunks := m_finished_first_chunks s + 1\<rparr>"
      have okf: "sender_ok N (k + 1) ?f" using ok times_ok_cong[of ?f s] by (simp add: sender_ok_def)
      have "unat (m_finished_first_chunks s) + 1 < 2 ^ 64" using assms(1,4) by (auto simp: sender_ok_def)
      then have "unat (m_finished_first_chunks s + 1) \<le> k + 1" using assms(1) by (simp add: unat_plus_one sender_ok_def)
      then have okb: "sender_ok N (k + 1) ?b" using ok times_ok_cong[of ?b s] by (simp add: sender_ok_def)
      show ?thesis
        using eq c Some a ok okf assms(2) commit_sender_report_defined[OF okb assms(2,3), of env m l1]
        by (simp add: process_media_completion_def)
    qed
  qed
qed

lemma commit_chunk_defined:
  assumes "sender_ok N k s" "k \<le> N" "k + 1 < 2 ^ 64"
  shows "\<exists>status s' m' l'. commit_next_media_chunk rmx (s, m, l) = Some (status, s', m', l') \<and> sender_ok N (k + 1) s'"
proof -
  obtain c where c: "m_media_chunk_handler s = Some c" using assms(1) by (auto simp: sender_ok_def)
  have "\<exists>st s1 m1 l1. chunk_to_commit rmx c (s, m, l) = Some (st, s1, m1, l1) \<and> sender_ok N k s1"
  proof (cases "m_chunk_pending s")
    case True
    then show ?thesis
      using assms(1) times_ok_cong[of "s\<lparr>m_chunk_pending := False\<rparr>" s] by (simp add: chunk_to_commit_def sender_ok_def)
  next
    case False
    obtain st l1 where g: "media_stream_get_next_chunk rmx c l = (st, l1)" by fastforce
    obtain stream m1 where p: "prepare_chunk_to_send (get_app_hdr_ptr rmx c l1) (get_data_ptr rmx c l1) (unat (media_chunk_length c)) (m_stream s, m)
        = Some (stream, m1)" "stream_ok stream"
      using prepare_chunk_defined assms(1) by (metis sender_ok_def)
    show ?thesis
      using False g p assms(1) times_ok_cong[of "s\<lparr>m_stream := stream\<rparr>" s] by (auto simp: chunk_to_commit_def sender_ok_def)
  qed
  then obtain st s1 m1 l1 where a: "chunk_to_commit rmx c (s, m, l) = Some (st, s1, m1, l1)" "sender_ok N k s1" by blast
  have count: "sender_ok N (k + 1) (count_chunk s1)"
  proof -
    have "unat (m_committed_fields s1) + 1 < 2 ^ 64" using a(2) assms(3) by (auto simp: sender_ok_def)
    then have "unat (m_committed_fields (count_chunk s1)) \<le> k + 1"
      using a(2) unat_plus_one by (auto simp: count_chunk_def Let_def sender_ok_def)
    then show ?thesis
      using a(2) times_ok_cong[of "count_chunk s1" s1] by (simp add: sender_ok_def count_chunk_def Let_def)
  qed
  have pend: "sender_ok N (k + 1) (s1\<lparr>m_chunk_pending := True\<rparr>)" "sender_ok N (k + 1) s1"
    using a(2) times_ok_cong[of "s1\<lparr>m_chunk_pending := True\<rparr>" s1] by (auto simp: sender_ok_def)
  have "times_ok N s1" "unat (m_committed_fields s1) \<le> N" using a(2) assms(2) by (auto simp: sender_ok_def)
  then obtain t where t: "field_time_ns s1 (m_committed_fields s1) = Some t" unfolding times_ok_def by blast
  have "\<exists>st2 t l2. mark_chunk rmx c s1 l1 = Some (st2, t, l2)"
    using t by (simp add: mark_chunk_def Let_def split: prod.splits)
  then obtain st2 t2 l2 where mk: "mark_chunk rmx c s1 l1 = Some (st2, t2, l2)" by blast
  obtain st3 l3 where cm: "media_stream_commit_chunk rmx c t2 l2 = (st3, l3)" by fastforce
  have "commit_next_media_chunk rmx (s, m, l) = (if st \<noteq> success then Some (st, s1, m1, l1) else if st2 \<noteq> success then Some (st2, s1, m1, l2)
      else if st3 = hw_send_queue_full then Some (success, s1\<lparr>m_chunk_pending := True\<rparr>, m1, l3)
      else if st3 \<noteq> success then Some (st3, s1, m1, l3) else Some (success, count_chunk s1, m1, l3))"
    by (simp add: commit_next_media_chunk_def c a(1) mk cm)
  then show ?thesis using count pend by (simp split: if_splits)
qed

lemma sender_turn_defined:
  assumes "sender_ok N k s" "handler_ok h" "k + 2 \<le> N" "k + 2 < 2 ^ 64"
  shows "\<exists>status s' h' m' l'. sender_turn env (s, h, m, l) = Some (status, s', h', m', l') \<and> sender_ok N (k + 2) s' \<and> handler_ok h'"
proof -
  have b: "k + 1 \<le> N" "k + 1 < 2 ^ 64" "k + 1 + 1 < 2 ^ 64" using assms(3,4) by simp_all
  obtain st s1 h1 m1 l1 where t: "track_media_completions env (s, h, m, l) = Some (st, s1, h1, m1, l1)" "sender_ok N (k + 1) s1" "handler_ok h1"
    using track_defined[OF assms(1,2) b(1,2), of env m l] by blast
  obtain st2 s2 m2 l2 where c: "commit_next_media_chunk (env_media env) (s1, m1, l1) = Some (st2, s2, m2, l2)" "sender_ok N (k + 1 + 1) s2"
    using commit_chunk_defined[OF t(2) b(1,3), of "env_media env" m1 l1] by blast
  have two: "k + 1 + 1 = k + 2" by simp
  have "sender_ok N (k + 2) s1" by (rule sender_ok_mono[OF t(2)]) simp
  then show ?thesis using t c unfolding two by (simp add: sender_turn_def)
qed

lemma sleep_until_defined:
  assumes "sender_ok N k s" "k \<le> N"
  shows "\<exists>sl wk. sleep_until sleeping wakeup s = Some (sl, wk)"
proof -
  have "times_ok N s" "unat (m_finished_first_chunks s) \<le> N" using assms by (auto simp: sender_ok_def)
  then obtain t where t: "field_time_ns s (m_finished_first_chunks s) = Some t" unfolding times_ok_def by blast
  have "\<exists>r. can_sleep s = Some r" using t by (simp add: can_sleep_def)
  then obtain r where "can_sleep s = Some r" by blast
  then show ?thesis by (cases r) (auto simp: sleep_until_def)
qed

lemma sender_turns_defined:
  "\<forall>s \<in> set ss. sender_ok N k s \<Longrightarrow> handler_ok h \<Longrightarrow> k + 2 \<le> N \<Longrightarrow> k + 2 < 2 ^ 64
    \<Longrightarrow> \<exists>status sl wk ss' h' m' l'. sender_turns env sleeping wakeup ss (h, m, l) = Some (status, sl, wk, ss', h', m', l')
          \<and> (\<forall>s \<in> set ss'. sender_ok N (k + 2) s) \<and> handler_ok h' \<and> (sl \<longrightarrow> sleeping)"
proof (induction ss arbitrary: sleeping wakeup h m l)
  case (Cons s ss)
  obtain st s1 h1 m1 l1 where t: "sender_turn env (s, h, m, l) = Some (st, s1, h1, m1, l1)" "sender_ok N (k + 2) s1" "handler_ok h1"
    using sender_turn_defined[of N k s h env m l] Cons.prems by auto
  have rest: "\<forall>s \<in> set ss. sender_ok N (k + 2) s" using Cons.prems(1) by (auto intro: sender_ok_mono)
  show ?case
  proof (cases "st = success")
    case False
    then show ?thesis using t rest by simp
  next
    case True
    obtain sl wk where u: "sleep_until sleeping wakeup s1 = Some (sl, wk)" using sleep_until_defined[OF t(2) Cons.prems(3)] by blast
    have sl: "sl \<longrightarrow> sleeping" using u by (auto simp: sleep_until_def split: if_splits option.splits)
    obtain st2 sl2 wk2 ss2 h2 m2 l2 where r: "sender_turns env sl wk ss (h1, m1, l1) = Some (st2, sl2, wk2, ss2, h2, m2, l2)"
      "\<forall>s \<in> set ss2. sender_ok N (k + 2) s" "handler_ok h2" "sl2 \<longrightarrow> sl"
      using Cons.IH[OF _ t(3) Cons.prems(3,4), of sl wk m1 l1] Cons.prems(1) by auto
    then show ?thesis using t True u sl by auto
  qed
qed simp

definition node_ok :: "nat \<Rightarrow> nat \<Rightarrow> IPMXSenderIONode \<Rightarrow> bool" where
  "node_ok N k n \<longleftrightarrow> (\<exists>h. m_report_handler n = Some h \<and> handler_ok h) \<and> (\<forall>s \<in> set (m_stream_senders n). sender_ok N k s)"

lemma notify_sender_ok:
  assumes "notify_report_completion t s = (status, s')" "sender_ok N k s"
  shows "sender_ok N k s'"
proof -
  have "m_media_chunk_handler s' = m_media_chunk_handler s" "m_report_chunk_handler s' = m_report_chunk_handler s" "m_stream s' = m_stream s"
    "ips_media_settings s' = ips_media_settings s" "ips_start_send_time_ns s' = ips_start_send_time_ns s"
    "m_finished_first_chunks s' = m_finished_first_chunks s" "m_committed_fields s' = m_committed_fields s"
    using assms(1) by (auto simp: notify_report_completion_def Let_def split: if_splits)
  then show ?thesis using assms(2) times_ok_cong[of s' s] by (simp add: sender_ok_def)
qed

lemma print_sender_ok: "sender_ok N k s \<Longrightarrow> sender_ok N k (period_reset s)"
  using times_ok_cong[of "period_reset s" s] by (simp add: sender_ok_def period_reset_def)

lemma check_report_completion_defined:
  assumes "node_ok N k n"
  shows "\<exists>status n' l'. check_report_completion env (n, l) = Some (status, n', l') \<and> node_ok N k n'
    \<and> isn_media_settings n' = isn_media_settings n"
proof -
  obtain h where h: "m_report_handler n = Some h" "handler_ok h" using assms by (auto simp: node_ok_def)
  obtain st comp h1 l1 where c: "check_completion (env_gen env) (h, l) = (st, comp, h1, l1)" by (metis prod_cases4)
  have "m_chunk_handle h1 = m_chunk_handle h"
    using c by (auto simp: check_completion_def Let_def split: if_splits prod.splits option.splits)
  then have ok1: "handler_ok h1" using h(2) by (simp add: handler_ok_def)
  show ?thesis
  proof (cases comp)
    case None
    then show ?thesis using assms h ok1 c by (auto simp: check_report_completion_def node_ok_def)
  next
    case (Some p)
    obtain i t where p: "p = (i, t)" by fastforce
    obtain st2 s2 where nt: "notify_report_completion t (m_stream_senders n ! unat i) = (st2, s2)" by fastforce
    show ?thesis
    proof (cases "unat i < length (m_stream_senders n)")
      case True
      then have "sender_ok N k s2" using notify_sender_ok[OF nt] assms by (simp add: node_ok_def)
      then have "\<forall>s \<in> set ((m_stream_senders n)[unat i := s2]). sender_ok N k s"
        using assms set_update_subset_insert[of "m_stream_senders n" "unat i" s2] by (auto simp: node_ok_def)
      then show ?thesis using True ok1 h c Some p nt by (simp add: check_report_completion_def node_ok_def)
    next
      case False
      then show ?thesis using assms ok1 h c Some p by (simp add: check_report_completion_def node_ok_def)
    qed
  qed
qed

lemma node_round_defined:
  assumes "node_ok N k n" "k + 2 \<le> N" "k + 2 < 2 ^ 64"
    and "\<And>l. add_interval (fst (get_nic_time_now_ns env l)) (frame_field_time_interval_ns (isn_media_settings n)) \<noteq> None"
  shows "\<exists>status n' t' m' l'. node_round env (n, t, m, l) = Some (status, n', t', m', l') \<and> node_ok N (k + 2) n'
    \<and> isn_media_settings n' = isn_media_settings n"
proof -
  obtain st n1 l1 where c: "check_report_completion env (n, l) = Some (st, n1, l1)" "node_ok N k n1" "isn_media_settings n1 = isn_media_settings n"
    using check_report_completion_defined[OF assms(1), of env l] by blast
  have ok1: "node_ok N (k + 2) n1" using c(2) by (auto simp: node_ok_def intro: sender_ok_mono)
  show ?thesis
  proof (cases "st = success")
    case False
    then show ?thesis using c ok1 by (simp add: node_round_def)
  next
    case True
    obtain now l2 where clock: "get_nic_time_now_ns env l1 = (now, l2)" by fastforce
    obtain wk where wk: "add_interval now (frame_field_time_interval_ns (isn_media_settings n)) = Some wk"
      using assms(4)[of l1] clock by auto
    obtain h where h: "m_report_handler n1 = Some h" "handler_ok h" using c(2) by (auto simp: node_ok_def)
    obtain st2 sl wk2 ss h2 m2 l3 where turns:
      "sender_turns env (isn_sleep_between_operations n1) wk (m_stream_senders n1) (h, m, l2) = Some (st2, sl, wk2, ss, h2, m2, l3)"
      "\<forall>s \<in> set ss. sender_ok N (k + 2) s" "handler_ok h2" "sl \<longrightarrow> isn_sleep_between_operations n1"
      using sender_turns_defined[OF _ h(2) assms(2,3), of "m_stream_senders n1" env "isn_sleep_between_operations n1" wk m l2] c(2)
      by (auto simp: node_ok_def)
    have sleep: "\<exists>l4. (if sl then wait_until env (isn_sleep_between_operations n1) wk2 l3 else Some l3) = Some l4"
      using turns(4) by (auto simp: wait_until_def Let_def split: prod.splits)
    then obtain l4 where l4: "(if sl then wait_until env (isn_sleep_between_operations n1) wk2 l3 else Some l3) = Some l4" by blast
    have "\<forall>s \<in> set (map period_reset ss). sender_ok N (k + 2) s" using turns(2) print_sender_ok by auto
    then show ?thesis
      using c True clock wk h turns l4 by (cases sl) (auto simp: node_round_def Let_def node_ok_def print_senders_stats_reset)
  qed
qed

text \<open>C39: the rounds of a started node meet none of the undefined operations that the model checks.  When the media settings
  are such that preparing a chunk is defined and the times of the fields fit their integers, a node whose senders were
  started runs any number of rounds within these times, whatever the library answers, and it stays such a node: no
  pointer it follows to a chunk or to the report handler is null, the sender that a completion names is in the vector of
  senders and the region of a report in its chunk, it never divides by zero (in the statistics and in the preparation of
  the packets), and every floating point number fits the integer it is converted to.  That the addresses the library
  hands out are writable is the library's part, and not shown here.\<close>

theorem node_never_stuck:
  assumes "node_ok N 0 n" "2 * r \<le> N" "2 * r < 2 ^ 64"
    and "\<And>l. add_interval (fst (get_nic_time_now_ns env l)) (frame_field_time_interval_ns (isn_media_settings n)) \<noteq> None"
  shows "\<exists>status n' t' m' l'. node_rounds env r (n, t, m, l) = Some (status, n', t', m', l') \<and> node_ok N (2 * r) n'"
proof -
  have "\<exists>status n' t' m' l'. node_rounds env r (n, t, m, l) = Some (status, n', t', m', l') \<and> node_ok N (2 * r) n'
      \<and> isn_media_settings n' = isn_media_settings n"
    using assms(2,3)
  proof (induction r)
    case (Suc r)
    obtain st n1 t1 m1 l1 where r: "node_rounds env r (n, t, m, l) = Some (st, n1, t1, m1, l1)" "node_ok N (2 * r) n1"
      "isn_media_settings n1 = isn_media_settings n"
      using Suc by auto
    show ?case
    proof (cases "st = success")
      case False
      then show ?thesis using r by (auto simp: node_ok_def intro: sender_ok_mono)
    next
      case True
      have "2 * r + 2 \<le> N" "2 * r + 2 < 2 ^ 64" using Suc.prems by simp_all
      from node_round_defined[OF r(2) this, of env t1 m1 l1] show ?thesis
        using r True assms(4) by (simp add: add.commute)
    qed
  qed (use assms(1) in simp)
  then show ?thesis by blast
qed

section \<open>The node with one sender\<close>

theorem pending_reports_accounted_witness:
  "\<exists>n1 n m' h. send_initial_reports example_ipmx_env (example_ipmx_node, \<lambda>_. 0, 0) = Some (no_free_chunks, n1, \<lambda>_. 0, 1)
    \<and> node_rounds example_ipmx_env 1 (n1, 0, \<lambda>_. 0, 1) = Some (success, n, 0, m', 1) \<and> m_report_handler n = Some h
    \<and> m_pending_message_count h = sum_list (map (\<lambda>s. m_committed_reports s - m_finished_reports s) (m_stream_senders n))"
proof -
  obtain n1 n m' where r: "send_initial_reports example_ipmx_env (example_ipmx_node, \<lambda>_. 0, 0) = Some (no_free_chunks, n1, \<lambda>_. 0, 1)"
    "node_rounds example_ipmx_env 1 (n1, 0, \<lambda>_. 0, 1) = Some (success, n, 0, m', 1)"
    using example_node_run[of "\<lambda>_. 0"] by blast
  have "\<exists>h. m_report_handler n = Some h
      \<and> m_pending_message_count h = sum_list (map (\<lambda>s. m_committed_reports s - m_finished_reports s) (m_stream_senders n))"
    by (rule pending_reports_accounted[OF _ _ r]) (simp_all add: example_ipmx_node_def example_fresh)
  then show ?thesis using r by blast
qed

lemma example_logged_commit:
  "\<exists>s m'. commit_next_media_chunk (logging_library example_media_library) (example_ipmx_sender, m, l, [])
      = Some (success, s, m', l, [Marked 0, Committed 1000000000]) \<and> chunks_sent s = 1"
proof -
  have stream: "m_stream example_ipmx_sender = RtpVideoSendStream_new example_ipmx_settings 25 False 0 64" by (simp add: example_ipmx_sender_def)
  obtain stream' m' where p: "prepare_chunk_to_send 0 0 2 (m_stream example_ipmx_sender, m) = Some (stream', m')"
    using prepare_chunk_defined[OF example_stream_ok] unfolding stream by blast
  define s1 where "s1 = example_ipmx_sender\<lparr>m_stream := stream'\<rparr>"
  let ?c = "\<lparr>media_chunk_handle = 0, media_chunk_length = 2, media_chunk_hds_on = False, media_chunk_stream_id = 0\<rparr>"
  have c: "m_media_chunk_handler example_ipmx_sender = Some ?c" "\<not> m_chunk_pending example_ipmx_sender"
    by (simp_all add: example_ipmx_sender_def)
  have ctc: "chunk_to_commit (logging_library example_media_library) ?c (example_ipmx_sender, m, l, []) = Some (success, s1, m', l, [])"
    using p c(2) by (simp add: chunk_to_commit_def media_stream_get_next_chunk_def media_chunk_get_next_def example_media_library_def
        next_chunk_status_def get_data_ptr_def get_app_hdr_ptr_def s1_def logging_library_def on_library_def)
  have ft: "field_time_ns s1 0 = Some 1000000000"
    using example_field_time[of 0] by (simp add: field_time_ns_def s1_def)
  have ctr: "m_chunk_in_field_counter s1 = 0" "m_committed_fields s1 = 0" "m_committed_first_chunks s1 = 0" "ips_media_settings s1 = example_ipmx_settings"
    by (simp_all add: s1_def example_ipmx_sender_def)
  have mk: "mark_chunk (logging_library example_media_library) ?c s1 (l, []) = Some (success, 1000000000, l, [Marked 0])"
    using ft ctr by (simp add: mark_chunk_def media_chunk_mark_def mark_status_def example_media_library_def logging_library_def on_status_def)
  have "commit_next_media_chunk (logging_library example_media_library) (example_ipmx_sender, m, l, [])
      = Some (success, count_chunk s1, m', l, [Marked 0, Committed 1000000000])"
    by (simp add: commit_next_media_chunk_def c(1) ctc mk media_stream_commit_chunk_def media_chunk_commit_def)
      (simp add: example_media_library_def commit_status_def logging_library_def on_status_def)
  then show ?thesis
    using ctr by (simp add: count_chunk_def Let_def chunks_sent_def example_ipmx_settings_def)
qed

theorem chunks_on_schedule_witness:
  "\<exists>s. (scheduled example_ipmx_env ^^ 1) (example_ipmx_sender, []) (s, [Marked 0, Committed 1000000000])
    \<and> sent_chunks [Marked 0, Committed 1000000000] = [(chunk_token example_ipmx_settings 0, chunk_time example_ipmx_sender 0)]"
proof -
  obtain s m' where c: "commit_next_media_chunk (logging_library example_media_library) (example_ipmx_sender, \<lambda>_. 0, 0, [])
      = Some (success, s, m', 0, [Marked 0, Committed 1000000000])" "chunks_sent s = 1"
    using example_logged_commit[of "\<lambda>_. 0" 0] by blast
  have "env_media example_ipmx_env = example_media_library" by (simp add: example_ipmx_env_def)
  then have step: "(scheduled example_ipmx_env ^^ 1) (example_ipmx_sender, []) (s, [Marked 0, Committed 1000000000])"
    using scheduled_commit[of example_ipmx_env example_ipmx_sender "\<lambda>_. 0" 0 "[]"] c(1) by (simp add: eq_OO)
  have "sent_chunks [Marked 0, Committed 1000000000]
      = map (\<lambda>i. (chunk_token (ips_media_settings example_ipmx_sender) i, chunk_time example_ipmx_sender i)) [0..<chunks_sent s]"
    by (rule chunks_on_schedule[OF example_fresh(1) _ step]) (simp_all add: example_fresh)
  then show ?thesis using step c(2) by (auto simp: example_ipmx_sender_def)
qed

lemma example_node_ok: "node_ok 2 0 example_ipmx_node"
proof -
  have "dbl 1 = 1" using round_prec_int[of 1 53] by simp
  moreover have "floor (89995 / 4294967296 :: rat) = 0" by (rule floor_unique) simp_all
  ultimately have "time_to_rtp_timestamp 1000000000 90000 = 89995"
    by (simp add: time_to_rtp_timestamp_def dbl_numeral Let_def fmod_rat_def trunc_rat_def)
  then have "times_ok 2 example_ipmx_sender"
    by (simp add: times_ok_def example_field_time dbl_numeral to_unsigned_def)
      (simp add: example_ipmx_sender_def example_ipmx_settings_def example_mock_media_def MediaSettings_default_def)
  then show ?thesis
    using example_stream_ok
    by (simp add: node_ok_def sender_ok_def example_ipmx_node_def handler_ok_def SharedMessageHandler_new_def first_region_def)
      (simp add: example_ipmx_sender_def)
qed

theorem node_never_stuck_witness:
  "\<exists>status n' t' m' l'. node_rounds example_ipmx_env 1 (example_ipmx_node, 0, \<lambda>_. 0, 0) = Some (status, n', t', m', l') \<and> node_ok 2 (2 * 1) n'"
  by (rule node_never_stuck[OF example_node_ok])
    (simp_all add: example_ipmx_env_def add_interval_def to_unsigned_def example_ipmx_node_def example_ipmx_settings_def)

end
