(* ===== verification/App_Flows.thy ===== *)
theory App_Flows
  imports Flows Media_Settings
begin

text \<open>
  How the applications of \<^verbatim>\<open>apps/\<close> plan their network flows: the destinations are counted up from the one of the
  command line, streams and flows are dealt to the threads in turn, and each thread and each stream takes a slice of
  the vector of flows.  The lemmas show that the slices are a partition, that no destination is used twice within the
  limits of each application, and that \<open>find_internal_stream_index\<close> finds the stream of an index.
\<close>

section \<open>Dealing items\<close>

text \<open>The loops \<open>counts[item % bins]++\<close>; the counters of an unordered map start at zero.\<close>

definition count_items :: "nat \<Rightarrow> nat \<Rightarrow> nat \<Rightarrow> nat" where
  "count_items items bins = fold (\<lambda>item counts. counts(item mod bins := counts (item mod bins) + 1)) [0..<items] (\<lambda>_. 0)"

text \<open>The slices \<open>vector(begin + offset, begin + offset + count)\<close>; reading past the end is undefined.\<close>

fun take_slices :: "nat list \<Rightarrow> nat \<Rightarrow> 'a list \<Rightarrow> 'a list list option" where
  "take_slices [] offset xs = Some []"
| "take_slices (n # ns) offset xs =
    (if offset + n \<le> length xs then map_option ((#) (take n (drop offset xs))) (take_slices ns (offset + n) xs) else None)"

lemma count_items_Suc:
  "count_items (Suc n) bins = (count_items n bins)(n mod bins := count_items n bins (n mod bins) + 1)"
  by (simp add: count_items_def)

lemma count_items_0 [simp]: "count_items 0 bins = (\<lambda>_. 0)"
  by (simp add: count_items_def)

lemma count_items_sum: "0 < bins \<Longrightarrow> (\<Sum>i<bins. count_items n bins i) = n"
proof (induction n)
  case (Suc n)
  have "(\<Sum>i<bins. count_items (Suc n) bins i) = (\<Sum>i<bins. count_items n bins i + (if i = n mod bins then 1 else 0))"
    by (intro sum.cong) (auto simp: count_items_Suc)
  also have "\<dots> = n + 1" using Suc by (simp add: sum.distrib)
  finally show ?case by simp
qed simp

lemma count_items_mono: "m \<le> n \<Longrightarrow> count_items m bins i \<le> count_items n bins i"
proof (induction n)
  case (Suc n)
  show ?case
  proof (cases "m = Suc n")
    case False
    then show ?thesis using Suc by (auto simp: count_items_Suc intro: le_SucI)
  qed simp
qed simp

lemma count_items_positive:
  assumes "i < bins" "i < n"
  shows "0 < count_items n bins i"
proof -
  have "0 < count_items (Suc i) bins i" using assms(1) by (simp add: count_items_Suc)
  also have "\<dots> \<le> count_items n bins i" using assms(2) by (intro count_items_mono) simp
  finally show ?thesis .
qed

text \<open>The share of a bin, and the balance: no bin has two items more than another.\<close>

lemma count_items_share: "i < bins \<Longrightarrow> count_items n bins i = n div bins + (if i < n mod bins then 1 else 0)"
proof (induction n)
  case (Suc n)
  have "n mod bins < bins" using Suc.prems by simp
  then show ?case using Suc
    by (auto simp: count_items_Suc mod_Suc_wrap div_Suc_wrap)
qed simp

lemma take_slices_partition:
  "offset + sum_list ns \<le> length xs
    \<Longrightarrow> \<exists>ss. take_slices ns offset xs = Some ss \<and> concat ss = take (sum_list ns) (drop offset xs) \<and> map length ss = ns"
proof (induction ns arbitrary: offset)
  case (Cons n ns)
  obtain ss where ss: "take_slices ns (offset + n) xs = Some ss" "concat ss = take (sum_list ns) (drop (offset + n) xs)" "map length ss = ns"
    using Cons.IH[of "offset + n"] Cons.prems by auto
  then show ?case
    using Cons.prems by (intro exI[of _ "take n (drop offset xs) # ss"]) (simp add: take_add ac_simps)
qed simp

lemma take_slices_all:
  assumes "sum_list ns = length xs"
  obtains ss where "take_slices ns 0 xs = Some ss" "concat ss = xs" "map length ss = ns"
  using take_slices_partition[of 0 ns xs] assms by auto

lemma sum_list_upt: "sum_list (map f [0..<n]) = (\<Sum>i<n. f i :: nat)"
  by (simp add: interv_sum_list_conv_sum_set_nat atLeast0LessThan)

lemma nth_concat_slices:
  "t < length ss \<Longrightarrow> i < length (ss ! t) \<Longrightarrow> concat ss ! (sum_list (map length (take t ss)) + i) = ss ! t ! i"
proof (induction ss arbitrary: t)
  case (Cons s ss)
  then show ?case by (cases t) (simp_all add: nth_append)
qed simp

section \<open>Destinations\<close>

definition IP_OCTET_LEN :: u64 where "IP_OCTET_LEN = 256"
definition MAX_PORT :: u64 where "MAX_PORT = 65535"
definition MAX_NUM_OF_TOTAL_FLOWS :: u64 where "MAX_NUM_OF_TOTAL_FLOWS = MAX_PORT * IP_OCTET_LEN"

text \<open>\<open>CLI::detail::split\<close>: the lines of the text for a delimiter; nothing after a last delimiter is no item.\<close>

function split_lines :: "char \<Rightarrow> string \<Rightarrow> string list" where
  "split_lines delim [] = []"
| "split_lines delim (c # cs) =
    takeWhile (\<lambda>x. x \<noteq> delim) (c # cs) # split_lines delim (tl (dropWhile (\<lambda>x. x \<noteq> delim) (c # cs)))"
  by pat_completeness auto
termination
proof (relation "measure (\<lambda>(delim, s). length s)")
  fix delim c :: char and cs
  have "length (tl (dropWhile (\<lambda>x. x \<noteq> delim) (c # cs))) < length (c # cs)"
    using length_dropWhile_le[of "\<lambda>x. x \<noteq> delim" "c # cs"] by (cases "dropWhile (\<lambda>x. x \<noteq> delim) (c # cs)") auto
  then show "((delim, tl (dropWhile (\<lambda>x. x \<noteq> delim) (c # cs))), delim, c # cs) \<in> measure (\<lambda>(delim, s). length s)" by simp
qed simp

definition cli_split :: "string \<Rightarrow> char \<Rightarrow> string list" where
  "cli_split s delim = (if s = [] then [[]] else split_lines delim s)"

text \<open>\<open>std::stoi\<close>: blanks, a sign and digits in front of the rest.\<close>

definition is_space :: "char \<Rightarrow> bool" where
  "is_space c \<longleftrightarrow> c = CHR '' '' \<or> (9 \<le> (of_char c :: nat) \<and> (of_char c :: nat) \<le> 13)"

definition std_stoi :: "string \<Rightarrow> parse_error + int" where
  "std_stoi s =
    (let s = dropWhile is_space s;
         negative = (case s of c # _ \<Rightarrow> c = CHR ''-'' | [] \<Rightarrow> False);
         s = (case s of c # cs \<Rightarrow> if c = CHR ''-'' \<or> c = CHR ''+'' then cs else s | [] \<Rightarrow> []);
         digits = takeWhile (\<lambda>c. c \<in> set ''0123456789'') s;
         value = (if negative then - int (decimal_value digits) else int (decimal_value digits))
     in if digits = [] then Inl invalid_argument
        else if value < - (2 ^ 31) \<or> 2 ^ 31 \<le> value then Inl out_of_range
        else Inr value)"

text \<open>The first three parts of the destination and the number of the last; a part that is missing is undefined.\<close>

definition destination_parts :: "string \<Rightarrow> (parse_error + string \<times> int) option" where
  "destination_parts ip =
    (case cli_split ip (CHR ''.'') of
       a # b # c # d # _ \<Rightarrow> Some (map_sum id (\<lambda>octet. (a @ ''.'' @ b @ ''.'' @ c @ ''.'', octet)) (std_stoi d))
     | _ \<Rightarrow> None)"

definition octet_ip :: "string \<times> int \<Rightarrow> u64 \<Rightarrow> string" where
  "octet_ip = (\<lambda>(ip_prefix_str, ip_last_octet) k. ip_prefix_str @ std_to_string (unat ((word_of_int ip_last_octet + k) mod IP_OCTET_LEN)))"

text \<open>The generic sender counts up the port, and the address after every \<open>MAX_PORT\<close> flows; the media senders and
  the receivers count up the address.\<close>

definition generic_sender_flow :: "AppSettings \<Rightarrow> string \<times> int \<Rightarrow> u64 \<Rightarrow> TwoTupleFlow" where
  "generic_sender_flow s parts flow_index =
    \<lparr>flow_id = flow_index, flow_ip = octet_ip parts (flow_index div MAX_PORT), flow_port = ucast (ucast (destination_port s) + flow_index)\<rparr>"

definition media_sender_flow :: "AppSettings \<Rightarrow> string \<times> int \<Rightarrow> u64 \<Rightarrow> TwoTupleFlow" where
  "media_sender_flow s parts flow_index = \<lparr>flow_id = flow_index, flow_ip = octet_ip parts flow_index, flow_port = destination_port s\<rparr>"

definition plan_flows :: "AppSettings \<Rightarrow> (AppSettings \<Rightarrow> string \<times> int \<Rightarrow> u64 \<Rightarrow> 'f) \<Rightarrow> nat \<Rightarrow> (parse_error + 'f list) option" where
  "plan_flows s flow n = map_option (map_sum id (\<lambda>parts. map (\<lambda>i. flow s parts (word_of_nat i)) [0..<n])) (destination_parts (destination_ip s))"

definition generic_sender_flows :: "AppSettings \<Rightarrow> (parse_error + TwoTupleFlow list) option" where
  "generic_sender_flows s = plan_flows s generic_sender_flow (unat (num_of_total_flows s))"

definition media_sender_flows :: "AppSettings \<Rightarrow> (parse_error + TwoTupleFlow list) option" where
  "media_sender_flows s = plan_flows s media_sender_flow (unat (num_of_total_flows s))"

definition ipmx_sender_flows :: "AppSettings \<Rightarrow> (parse_error + TwoTupleFlow list) option" where
  "ipmx_sender_flows s = plan_flows s media_sender_flow (unat (num_of_total_flows s))"

definition rtp_receiver_flow :: "AppSettings \<Rightarrow> string \<times> int \<Rightarrow> u64 \<Rightarrow> ReceiveFlow" where
  "rtp_receiver_flow s parts flow_index = ReceiveFlow_new flow_index (source_ip s) 0 (octet_ip parts flow_index) (destination_port s) 0"

definition rtp_receiver_flows :: "AppSettings \<Rightarrow> (parse_error + ReceiveFlow list) option" where
  "rtp_receiver_flows s = plan_flows s rtp_receiver_flow (unat (num_of_total_streams s))"

text \<open>The IPMX receiver has a data flow and a report flow for every stream; identifiers are 32 bits wide there.\<close>

definition ipmx_data_flow :: "AppSettings \<Rightarrow> string \<times> int \<Rightarrow> u64 \<Rightarrow> ReceiveFlow" where
  "ipmx_data_flow s parts flow_index =
    ReceiveFlow_new (ucast (2 * ucast flow_index :: u32)) (source_ip s) 0 (octet_ip parts flow_index) (destination_port s) (ucast flow_index)"

definition ipmx_rtcp_flow :: "AppSettings \<Rightarrow> string \<times> int \<Rightarrow> u64 \<Rightarrow> ReceiveFlow" where
  "ipmx_rtcp_flow s parts flow_index =
    ReceiveFlow_new (ucast (2 * ucast flow_index + 1 :: u32)) (source_ip s) 0 (octet_ip parts flow_index) (destination_port s + 1) (ucast flow_index)"

definition ipmx_receiver_flows :: "AppSettings \<Rightarrow> (parse_error + (ReceiveFlow \<times> ReceiveFlow) list) option" where
  "ipmx_receiver_flows s =
    plan_flows s (\<lambda>s parts i. (ipmx_data_flow s parts i, ipmx_rtcp_flow s parts i)) (unat (num_of_total_streams s))"


text \<open>The paths of a redundant stream have destinations of their own; the address is counted up by the number of
  paths.  A vector of the settings that is too short is undefined.\<close>

fun destinations_parts :: "string list \<Rightarrow> (parse_error + (string \<times> int) list) option" where
  "destinations_parts [] = Some (Inr [])"
| "destinations_parts (ip # ips) =
    (case destination_parts ip of
       None \<Rightarrow> None
     | Some (Inl e) \<Rightarrow> Some (Inl e)
     | Some (Inr parts) \<Rightarrow> map_option (map_sum id ((#) parts)) (destinations_parts ips))"

definition ipo_receiver_flow :: "AppSettings \<Rightarrow> (string \<times> int) list \<Rightarrow> nat \<Rightarrow> nat \<Rightarrow> ReceiveFlow" where
  "ipo_receiver_flow s parts flow_index i =
    ReceiveFlow_new (word_of_nat (flow_index * length (source_ips s) + i)) (source_ips s ! i) 0
      (octet_ip (parts ! i) (word_of_nat flow_index * word_of_nat (length (source_ips s)))) (destination_ports s ! i) 0"

definition ipo_receiver_flows :: "AppSettings \<Rightarrow> (parse_error + ReceiveFlow list list) option" where
  "ipo_receiver_flows s =
    (let num_paths_per_stream = length (source_ips s)
     in if num_paths_per_stream = 0 \<or> length (destination_ips s) < num_paths_per_stream
            \<or> (num_of_total_streams s \<noteq> 0 \<and> length (destination_ports s) < num_paths_per_stream) then None
        else map_option (map_sum id (\<lambda>parts.
               map (\<lambda>flow_index. map (ipo_receiver_flow s parts flow_index) [0..<num_paths_per_stream]) [0..<unat (num_of_total_streams s)]))
             (destinations_parts (take num_paths_per_stream (destination_ips s))))"

section \<open>Dealing the work\<close>

text \<open>Streams and flows per thread; a remainder modulo zero is undefined.\<close>

definition ipmx_sender_distribute_work :: "AppSettings \<Rightarrow> (nat \<Rightarrow> nat) option" where
  "ipmx_sender_distribute_work s =
    (if num_of_threads s = 0 \<and> num_of_total_streams s \<noteq> 0 then None
     else Some (count_items (unat (num_of_total_streams s)) (unat (num_of_threads s))))"

definition receiver_distribute_work :: "AppSettings \<Rightarrow> (AppSettings \<times> (nat \<Rightarrow> nat)) option" where
  "receiver_distribute_work s =
    (let s = s\<lparr>num_of_threads := min (num_of_threads s) (ucast (num_of_total_streams s))\<rparr>
     in if num_of_threads s = 0 \<and> num_of_total_streams s \<noteq> 0 then None
        else Some (s, count_items (unat (num_of_total_streams s)) (unat (num_of_threads s))))"

definition media_sender_distribute_work :: "AppSettings \<Rightarrow> (AppSettings \<times> (nat \<Rightarrow> nat)) option" where
  "media_sender_distribute_work s =
    (let s = s\<lparr>num_of_threads := min (num_of_threads s) (ucast (num_of_total_streams s))\<rparr>
     in if num_of_threads s = 0 \<and> num_of_total_streams s \<noteq> 0 then None
        else Some (s, count_items (unat (num_of_total_streams s)) (unat (num_of_threads s))))"

text \<open>Streams per thread, flows per stream and flows per thread.\<close>

definition generic_sender_distribute_work :: "AppSettings \<Rightarrow> ((nat \<Rightarrow> nat) \<times> (nat \<Rightarrow> nat) \<times> (nat \<Rightarrow> nat)) option" where
  "generic_sender_distribute_work s =
    (if num_of_threads s = 0 \<and> (num_of_total_streams s \<noteq> 0 \<or> num_of_total_flows s \<noteq> 0)
        \<or> num_of_total_streams s = 0 \<and> num_of_total_flows s \<noteq> 0 then None
     else Some (count_items (unat (num_of_total_streams s)) (unat (num_of_threads s)),
                count_items (unat (num_of_total_flows s)) (unat (num_of_total_streams s)),
                count_items (unat (num_of_total_flows s)) (unat (num_of_threads s))))"

text \<open>The flows a node is given by its application, and the flows of its streams.\<close>

definition flows_of_threads :: "AppSettings \<Rightarrow> (nat \<Rightarrow> nat) \<Rightarrow> 'f list \<Rightarrow> 'f list list option" where
  "flows_of_threads s per_thread flows = take_slices (map per_thread [0..<unat (num_of_threads s)]) 0 flows"

definition flows_of_streams :: "nat \<Rightarrow> 'f list \<Rightarrow> 'f list list option" where
  "flows_of_streams num_of_streams flows =
    (if num_of_streams = 0 \<and> flows \<noteq> [] then None
     else take_slices (map (count_items (length flows) num_of_streams) [0..<num_of_streams]) 0 flows)"

fun find_in_threads :: "(nat \<Rightarrow> nat) \<Rightarrow> nat \<Rightarrow> nat \<Rightarrow> nat \<Rightarrow> nat \<Rightarrow> (nat \<times> nat) option" where
  "find_in_threads per_thread external first thread 0 = None"
| "find_in_threads per_thread external first thread (Suc n) =
    (if external < first + per_thread thread then Some (thread, external - first)
     else find_in_threads per_thread external (first + per_thread thread) (thread + 1) n)"

definition find_internal_stream_index :: "AppSettings \<Rightarrow> (nat \<Rightarrow> nat) \<Rightarrow> nat \<Rightarrow> ReturnStatus \<times> (nat \<times> nat) option" where
  "find_internal_stream_index s per_thread external =
    (if unat (num_of_total_streams s) \<le> external then (failure, None)
     else case find_in_threads per_thread external 0 0 (unat (num_of_threads s)) of
            None \<Rightarrow> (failure, None)
          | Some found \<Rightarrow> (success, Some found))"

section \<open>Destinations are distinct\<close>

lemma octet_value: "unat ((word_of_int octet + word_of_nat k :: u64) mod IP_OCTET_LEN) = nat ((octet + int k) mod 256)"
proof -
  have "(word_of_int octet + word_of_nat k :: u64) = word_of_int (octet + int k)" by simp
  then have "uint ((word_of_int octet + word_of_nat k :: u64) mod IP_OCTET_LEN) = (octet + int k) mod 2 ^ 64 mod 256"
    by (simp only: uint_mod uint_word_of_int IP_OCTET_LEN_def) simp
  also have "\<dots> = (octet + int k) mod 256" by (rule mod_mod_cancel) simp
  finally show ?thesis by (simp only: unat_eq_nat_uint)
qed

lemma octet_ip_eq_iff:
  "octet_ip parts (word_of_nat j) = octet_ip parts (word_of_nat k) \<longleftrightarrow> (snd parts + int j) mod 256 = (snd parts + int k) mod 256"
proof -
  have inj: "std_to_string m = std_to_string n \<longleftrightarrow> m = n" for m n by (metis decimal_value_to_string)
  show ?thesis
    by (cases parts) (auto simp: octet_ip_def octet_value inj nat_eq_iff2)
qed

lemma octet_ip_distinct:
  assumes "j < 256" "k < 256" "octet_ip parts (word_of_nat j) = octet_ip parts (word_of_nat k)"
  shows "j = k"
proof -
  have "256 dvd int j - int k"
    using assms(3) unfolding octet_ip_eq_iff by (simp add: mod_eq_dvd_iff)
  then have "int j - int k \<noteq> 0 \<Longrightarrow> \<bar>256\<bar> \<le> \<bar>int j - int k\<bar>" using dvd_imp_le_int by blast
  then show ?thesis using assms(1,2) by linarith
qed

lemma plan_flows_nth:
  assumes "plan_flows s flow n = Some (Inr fs)"
  obtains parts where "destination_parts (destination_ip s) = Some (Inr parts)" "fs = map (\<lambda>i. flow s parts (word_of_nat i)) [0..<n]"
proof -
  obtain r where "destination_parts (destination_ip s) = Some r" "map_sum id (\<lambda>parts. map (\<lambda>i. flow s parts (word_of_nat i)) [0..<n]) r = Inr fs"
    using assms by (auto simp: plan_flows_def)
  then show ?thesis using that by (cases r) auto
qed

lemma port_counted: "(ucast (ucast (p :: u16) + word_of_nat i :: u64) :: u16) = p + word_of_nat i"
proof -
  have "uint (ucast p + word_of_nat i :: u64) = (uint p + int i) mod 2 ^ 64"
    by (simp add: uint_word_ariths unsigned_of_nat take_bit_eq_mod unsigned_ucast_eq mod_simps zmod_int)
  then have "(ucast (ucast p + word_of_nat i :: u64) :: u16) = word_of_int ((uint p + int i) mod 2 ^ 64)"
    by (simp only: ucast_eq)
  also have "\<dots> = word_of_int (uint p + int i)"
    by (simp only: word_of_int_eq_iff take_bit_eq_mod) (rule mod_mod_cancel, simp)
  finally show ?thesis by simp
qed

lemma div_mod_close:
  assumes "i div a = j div a" "i mod b = j mod b" "a \<le> b" "0 < (a :: nat)"
  shows "i = j"
proof -
  have close: "j' \<le> i' \<Longrightarrow> i' div a = j' div a \<Longrightarrow> i' mod b = j' mod b \<Longrightarrow> i' = j'" for i' j'
  proof -
    assume h: "j' \<le> i'" "i' div a = j' div a" "i' mod b = j' mod b"
    have "i' = a * (j' div a) + i' mod a" using h(2) by (metis mult_div_mod_eq)
    moreover have "i' mod a < a" using assms(4) by simp
    ultimately have "i' - j' < a" using mult_div_mod_eq[of a j'] by linarith
    moreover have "b dvd i' - j'" using h(1,3) by (simp add: mod_eq_dvd_iff_nat)
    ultimately show "i' = j'" using h(1) assms(3) nat_dvd_not_less[of "i' - j'" b] by linarith
  qed
  show ?thesis using close[of j i] close[of i j] assms(1,2) by (cases "j \<le> i") auto
qed

definition destination_of :: "TwoTupleFlow \<Rightarrow> string \<times> u16" where
  "destination_of f = (flow_ip f, flow_port f)"

lemma two_tuple_eq_destination: "two_tuple_eq f g \<longleftrightarrow> destination_of f = destination_of g"
  by (simp add: two_tuple_eq_def destination_of_def)

text \<open>The generic sender never sends two flows to the same destination: within the limit of
  the command line, all flows differ in address or port, although the ports wrap around.\<close>

theorem generic_destinations_distinct:
  assumes "generic_sender_flows s = Some (Inr fs)" "num_of_total_flows s \<le> MAX_NUM_OF_TOTAL_FLOWS"
  shows "length fs = unat (num_of_total_flows s) \<and> (\<forall>i < length fs. \<forall>j < length fs. two_tuple_eq (fs ! i) (fs ! j) \<longrightarrow> i = j)"
proof -
  obtain parts where fs: "fs = map (\<lambda>i. generic_sender_flow s parts (word_of_nat i)) [0..<unat (num_of_total_flows s)]"
    using assms(1) plan_flows_nth unfolding generic_sender_flows_def by metis
  have "i = j" if "two_tuple_eq (fs ! i) (fs ! j)" "i < length fs" "j < length fs" for i j
  proof -
    have len: "i < unat (num_of_total_flows s)" "j < unat (num_of_total_flows s)" using that fs by simp_all
    have F: "unat (num_of_total_flows s) \<le> 65535 * 256" using assms(2)
      by (simp add: MAX_NUM_OF_TOTAL_FLOWS_def MAX_PORT_def IP_OCTET_LEN_def word_le_nat_alt)
    have i: "i < 2 ^ 64" "j < 2 ^ 64" using len F by simp_all
    have div: "(word_of_nat k :: u64) div MAX_PORT = word_of_nat (k div 65535)" if "k < 2 ^ 64" for k
      using word_of_nat_div[of k 65535, where 'a = 64] that by (simp add: MAX_PORT_def)
    have eqs: "octet_ip parts (word_of_nat (i div 65535)) = octet_ip parts (word_of_nat (j div 65535))"
      "(ucast (ucast (destination_port s) + word_of_nat i :: u64) :: u16) = ucast (ucast (destination_port s) + word_of_nat j :: u64)"
      using that(1) fs len div i by (simp_all add: two_tuple_eq_def generic_sender_flow_def)
    have "i div 65535 = j div 65535"
      by (rule octet_ip_distinct[OF _ _ eqs(1)]) (use len F in linarith)+
    moreover have "i mod 65536 = j mod 65536"
    proof -
      have "(word_of_nat i :: u16) = word_of_nat j" using eqs(2) unfolding port_counted by simp
      then have "unat (word_of_nat i :: u16) = unat (word_of_nat j :: u16)" by (rule arg_cong)
      then show ?thesis by (simp add: unsigned_of_nat take_bit_eq_mod)
    qed
    ultimately show "i = j" by (rule div_mod_close) simp_all
  qed
  then show ?thesis using fs by auto
qed

definition example_app_settings :: AppSettings where
  "example_app_settings = (AppSettings_init_default_values AppSettings_new)\<lparr>num_of_total_streams := 3, num_of_total_flows := 5, num_of_threads := 2\<rparr>"

lemma example_parts: "destination_parts (destination_ip example_app_settings) = Some (Inr (''234.5.6.'', 7))"
  by (simp add: destination_parts_def cli_split_def example_app_settings_def AppSettings_init_default_values_def std_stoi_def is_space_def
      decimal_value_def digit_val_def Let_def)

theorem generic_destinations_distinct_witness:
  "\<exists>fs. generic_sender_flows example_app_settings = Some (Inr fs) \<and> length fs = 5
    \<and> (\<forall>i < length fs. \<forall>j < length fs. two_tuple_eq (fs ! i) (fs ! j) \<longrightarrow> i = j)"
proof -
  let ?fs = "map (\<lambda>i. generic_sender_flow example_app_settings (''234.5.6.'', 7) (word_of_nat i)) [0..<5]"
  have fs: "generic_sender_flows example_app_settings = Some (Inr ?fs)"
    by (simp add: generic_sender_flows_def plan_flows_def example_parts) (simp add: example_app_settings_def)
  have "num_of_total_flows example_app_settings \<le> MAX_NUM_OF_TOTAL_FLOWS"
    by (simp add: example_app_settings_def MAX_NUM_OF_TOTAL_FLOWS_def MAX_PORT_def IP_OCTET_LEN_def)
  then show ?thesis using generic_destinations_distinct[OF fs] fs by (simp add: example_app_settings_def)
qed

text \<open>The media senders count the address only: they run out of destinations after 256 streams.\<close>

lemma media_destinations_distinct:
  assumes "media_sender_flows s = Some (Inr fs)"
  shows "(\<forall>i < length fs. \<forall>j < length fs. two_tuple_eq (fs ! i) (fs ! j) \<longrightarrow> i = j) \<longleftrightarrow> unat (num_of_total_flows s) \<le> 256"
proof -
  obtain parts where fs: "fs = map (\<lambda>i. media_sender_flow s parts (word_of_nat i)) [0..<unat (num_of_total_flows s)]"
    using assms plan_flows_nth unfolding media_sender_flows_def by metis
  have eq: "two_tuple_eq (fs ! i) (fs ! j) \<longleftrightarrow> octet_ip parts (word_of_nat i) = octet_ip parts (word_of_nat j)"
    if "i < length fs" "j < length fs" for i j
    using that fs by (simp add: two_tuple_eq_def media_sender_flow_def)
  show ?thesis
  proof
    assume distinct: "\<forall>i < length fs. \<forall>j < length fs. two_tuple_eq (fs ! i) (fs ! j) \<longrightarrow> i = j"
    have same: "octet_ip parts (word_of_nat 0) = octet_ip parts (word_of_nat 256)" unfolding octet_ip_eq_iff by simp
    have len: "length fs = unat (num_of_total_flows s)" using fs by simp
    show "unat (num_of_total_flows s) \<le> 256"
    proof (rule ccontr)
      assume "\<not> unat (num_of_total_flows s) \<le> 256"
      then have "0 < length fs" "256 < length fs" using len by linarith+
      then show False using distinct[rule_format, of 0 256] eq[of 0 256] same by simp
    qed
  next
    assume small: "unat (num_of_total_flows s) \<le> 256"
    show "\<forall>i < length fs. \<forall>j < length fs. two_tuple_eq (fs ! i) (fs ! j) \<longrightarrow> i = j"
    proof (intro allI impI)
      fix i j assume ij: "i < length fs" "j < length fs" "two_tuple_eq (fs ! i) (fs ! j)"
      then have "octet_ip parts (word_of_nat i) = octet_ip parts (word_of_nat j)" using eq by blast
      then show "i = j" using octet_ip_distinct[of i j parts] ij(1,2) small fs by simp
    qed
  qed
qed

section \<open>The slices are a partition\<close>

lemma flows_of_streams_partition:
  assumes "0 < n"
  obtains ss where "flows_of_streams n fs = Some ss" "concat ss = fs" "map length ss = map (count_items (length fs) n) [0..<n]"
proof -
  have "sum_list (map (count_items (length fs) n) [0..<n]) = length fs"
    using assms by (simp add: sum_list_upt count_items_sum)
  then show ?thesis using that take_slices_all[of "map (count_items (length fs) n) [0..<n]" fs] assms
    by (auto simp: flows_of_streams_def)
qed

lemma flows_of_threads_partition:
  assumes "0 < num_of_threads s"
  obtains ss where "flows_of_threads s (count_items (length fs) (unat (num_of_threads s))) fs = Some ss" "concat ss = fs"
    "map length ss = map (count_items (length fs) (unat (num_of_threads s))) [0..<unat (num_of_threads s)]"
proof -
  have "0 < unat (num_of_threads s)" using assms by (simp add: word_less_nat_alt)
  then have "sum_list (map (count_items (length fs) (unat (num_of_threads s))) [0..<unat (num_of_threads s)]) = length fs"
    by (simp add: sum_list_upt count_items_sum)
  then show ?thesis using that take_slices_all by (metis flows_of_threads_def)
qed

lemma find_in_threads_spec:
  assumes "first \<le> external" "external < first + sum_list (map per_thread [thread..<thread + n])"
  obtains t i where "find_in_threads per_thread external first thread n = Some (t, i)" "thread \<le> t" "t < thread + n" "i < per_thread t"
    "first + sum_list (map per_thread [thread..<t]) + i = external"
  using assms
proof (induction n arbitrary: first thread thesis)
  case (Suc n)
  show ?case
  proof (cases "external < first + per_thread thread")
    case True
    then show ?thesis using Suc.prems(1)[of thread "external - first"] Suc.prems(2) by simp
  next
    case False
    have upt: "[thread..<thread + Suc n] = thread # [thread + 1..<(thread + 1) + n]" by (simp add: upt_conv_Cons del: upt_Suc)
    have rest: "external < (first + per_thread thread) + sum_list (map per_thread [thread + 1..<(thread + 1) + n])"
      using Suc.prems(3) unfolding upt by (simp del: upt_Suc)
    obtain t i where t: "find_in_threads per_thread external (first + per_thread thread) (thread + 1) n = Some (t, i)" "thread + 1 \<le> t"
      "t < thread + 1 + n" "i < per_thread t" "first + per_thread thread + sum_list (map per_thread [thread + 1..<t]) + i = external"
      using Suc.IH[OF _ _ rest] False by (metis leI)
    have "[thread..<t] = thread # [thread + 1..<t]" using t(2) by (simp add: upt_conv_Cons)
    then show ?thesis using Suc.prems(1)[of t i] t False by simp
  qed
qed simp

text \<open>C35: every stream of a media sender application is found.  The threads share the flows
  out without loss, and the thread and the index that \<open>find_internal_stream_index\<close> returns for a stream lead to the
  flow of that stream; it fails exactly for an index out of range.\<close>

theorem internal_stream_found:
  assumes "media_sender_distribute_work s = Some (s', per_thread)" "length fs = unat (num_of_total_streams s)"
  shows "\<exists>ss. flows_of_threads s' per_thread fs = Some ss \<and> concat ss = fs
    \<and> (\<forall>external. if external < unat (num_of_total_streams s)
         then \<exists>t i. find_internal_stream_index s' per_thread external = (success, Some (t, i)) \<and> t < length ss \<and> i < length (ss ! t)
                \<and> ss ! t ! i = fs ! external
         else fst (find_internal_stream_index s' per_thread external) = failure)"
proof -
  have s': "num_of_total_streams s' = num_of_total_streams s" "num_of_threads s' = 0 \<longrightarrow> num_of_total_streams s = 0"
    "per_thread = count_items (length fs) (unat (num_of_threads s'))"
    using assms by (auto simp: media_sender_distribute_work_def Let_def split: if_splits)
  let ?T = "unat (num_of_threads s')"
  obtain ss where ss: "flows_of_threads s' per_thread fs = Some ss" "concat ss = fs" "map length ss = map per_thread [0..<?T]"
  proof (cases "num_of_threads s' = 0")
    case True
    then have "fs = []" using s'(2) assms(2) by simp
    then show ?thesis using that[of "[]"] True by (simp add: flows_of_threads_def)
  next
    case False
    then show ?thesis using that flows_of_threads_partition[of s' fs] s'(3) by (metis word_neq_0_conv)
  qed
  have len: "length ss = ?T" "\<And>t. t < ?T \<Longrightarrow> length (ss ! t) = per_thread t"
    using ss(3) by (metis length_map length_upt diff_zero, metis (no_types, lifting) length_map length_upt diff_zero nth_map nth_upt add_0)
  have "\<exists>t i. find_internal_stream_index s' per_thread external = (success, Some (t, i)) \<and> t < length ss \<and> i < length (ss ! t)
      \<and> ss ! t ! i = fs ! external" if e: "external < unat (num_of_total_streams s)" for external
  proof -
    have "sum_list (map per_thread [0..<0 + ?T]) = length fs" using ss(2,3) by (metis length_concat add_0)
    then have "external < 0 + sum_list (map per_thread [0..<0 + ?T])" using e assms(2) by simp
    then obtain t i where t: "find_in_threads per_thread external 0 0 ?T = Some (t, i)" "t < ?T" "i < per_thread t"
      "sum_list (map per_thread [0..<t]) + i = external"
      using find_in_threads_spec[of 0 external per_thread 0 ?T] by (metis add_0 le0)
    have "map length (take t ss) = take t (map length ss)" by (simp add: take_map)
    also have "\<dots> = map per_thread [0..<t]" unfolding ss(3) using t(2) by (simp add: take_map)
    finally have "sum_list (map length (take t ss)) = sum_list (map per_thread [0..<t])" by simp
    then have "ss ! t ! i = fs ! external"
      using nth_concat_slices[of t ss i] t len ss(2) by simp
    then show ?thesis using t len e s'(1) by (simp add: find_internal_stream_index_def)
  qed
  then show ?thesis using ss s'(1) by (auto simp: find_internal_stream_index_def)
qed

theorem internal_stream_found_witness:
  "\<exists>ss. flows_of_threads example_app_settings (count_items 3 2) [10, 20, 30 :: nat] = Some ss \<and> concat ss = [10, 20, 30]"
proof -
  have "media_sender_distribute_work example_app_settings = Some (example_app_settings, count_items 3 2)"
    by (simp add: media_sender_distribute_work_def example_app_settings_def min_def)
  then show ?thesis
    using internal_stream_found[of example_app_settings example_app_settings "count_items 3 2" "[10, 20, 30 :: nat]"]
    by (fastforce simp: example_app_settings_def)
qed

end
