(* ===== verification/Generic_Sender.thy ===== *)
theory Generic_Sender
  imports Send_Stream Memory_Alloc App_Flows
begin

text \<open>
  The generic sender: the node \<^verbatim>\<open>io_node/senders/generic_sender_io_node.cpp\<close> with its buffer writers
  (\<^verbatim>\<open>io_node/common\<close>), and the part of \<^verbatim>\<open>apps/rmax_xstream_generic_sender\<close> that creates the nodes and shares the
  memory out.  The Rivermax calls act on a library state, as in theory \<open>Send_Stream\<close>; thread priorities and printing
  are left out.  The lemmas show that no flow and no byte of memory is used twice, what the buffers hold, and in
  which order the chunks and the flows of the streams take their turns.
\<close>

section \<open>The environment\<close>

text \<open>The Rivermax calls, the address of a socket, sleeping, the pending signal and the random number generator.\<close>

record 'l generic_env =
  ge_rmx :: "'l rmx_output_gen"
  ge_socket_address :: "string \<Rightarrow> u16 \<Rightarrow> nat"
  ge_sleep_for_us :: "int \<Rightarrow> 'l \<Rightarrow> 'l"
  ge_received_signal :: "'l \<Rightarrow> int"
  ge_rand :: "'l \<Rightarrow> nat \<times> 'l"

section \<open>The stream of the application\<close>

record AppGenericSendStream =
  app_stream :: GenericSendStream
  app_mem_region :: rmx_mem_region
  m_send_flows :: "TwoTupleFlow list"
  m_next_flow_to_send :: u64

definition AppGenericSendStream_new :: "GenericStreamSettings \<Rightarrow> TwoTupleFlow list \<Rightarrow> AppGenericSendStream" where
  "AppGenericSendStream_new settings send_flows =
    \<lparr>app_stream = GenericSendStream_new settings, app_mem_region = \<lparr>addr = 0, region_length = 0, mkey = 0\<rparr>,
     m_send_flows = send_flows, m_next_flow_to_send = 0\<rparr>"

definition assign_mem_region :: "rmx_mem_region \<Rightarrow> AppGenericSendStream \<Rightarrow> AppGenericSendStream" where
  "assign_mem_region mreg s = s\<lparr>app_mem_region := mreg\<rparr>"

definition app_create_stream :: "'l rmx_output_gen \<Rightarrow> AppGenericSendStream \<times> 'l \<Rightarrow> ReturnStatus \<times> AppGenericSendStream \<times> 'l" where
  "app_create_stream rmx = (\<lambda>(s, l).
    let (rc, g, l) = gen_stream_create rmx (app_stream s, l)
    in if rc = success
       then let (_, g, l) = initialize_chunks rmx (app_mem_region s) (g, l) in (rc, s\<lparr>app_stream := g\<rparr>, l)
       else (rc, s\<lparr>app_stream := g\<rparr>, l))"

text \<open>An index out of the vector and a remainder modulo zero are undefined.\<close>

definition get_next_flow_to_send :: "AppGenericSendStream \<Rightarrow> TwoTupleFlow option" where
  "get_next_flow_to_send s =
    (if unat (m_next_flow_to_send s) < length (m_send_flows s) then Some (m_send_flows s ! unat (m_next_flow_to_send s)) else None)"

definition set_next_flow_to_send :: "AppGenericSendStream \<Rightarrow> AppGenericSendStream option" where
  "set_next_flow_to_send s =
    (if m_send_flows s = [] then None
     else Some (s\<lparr>m_next_flow_to_send := (m_next_flow_to_send s + 1) mod word_of_nat (length (m_send_flows s))\<rparr>))"

section \<open>Buffer writers\<close>

text \<open>The result of the memory calls is not used.\<close>

fun write_generic_regions :: "os_memory \<Rightarrow> MemoryUtils \<Rightarrow> nat \<Rightarrow> rmx_mem_region list \<Rightarrow> mem \<Rightarrow> mem" where
  "write_generic_regions os utils packet_index [] m = m"
| "write_generic_regions os utils packet_index (iov # iovs) m =
    write_generic_regions os utils packet_index iovs
      (snd (memory_set os utils m (unat (addr iov)) (word_of_nat (48 + packet_index mod 9)) (unat (region_length iov))))"

fun write_generic_packets :: "os_memory \<Rightarrow> MemoryUtils \<Rightarrow> nat \<Rightarrow> GenericPacket list \<Rightarrow> mem \<Rightarrow> mem" where
  "write_generic_packets os utils packet_index [] m = m"
| "write_generic_packets os utils packet_index (packet # packets) m =
    write_generic_packets os utils (packet_index + 1) packets (write_generic_regions os utils packet_index packet m)"

definition generic_write_buffer :: "os_memory \<Rightarrow> MemoryUtils \<Rightarrow> GenericChunk \<Rightarrow> mem \<Rightarrow> mem" where
  "generic_write_buffer os utils chunk m = write_generic_packets os utils 0 (m_packets chunk) m"

text \<open>The writer with checksums: the data are set behind the region, and the checksum is the second field of the
  header at its start.\<close>

definition sizeof_ChecksumHeader :: u16 where "sizeof_ChecksumHeader = 8"

definition checksum_write_region :: "'l generic_env \<Rightarrow> os_memory \<Rightarrow> MemoryUtils \<Rightarrow> rmx_mem_region \<Rightarrow> mem \<times> 'l \<Rightarrow> mem \<times> 'l" where
  "checksum_write_region env os utils iov = (\<lambda>(m, l).
    let (r, l) = ge_rand env l;
        data_char = (word_of_nat (r mod 255) :: u8);
        m = snd (memory_set os utils m (unat (addr iov + region_length iov)) data_char (unat (region_length iov)));
        checksum = htonl (ucast data_char * ucast (region_length iov))
    in (snd (memory_copy os utils m (unat (addr iov + 4)) (bytes_le32 checksum)), l))"

definition checksum_write_buffer :: "'l generic_env \<Rightarrow> os_memory \<Rightarrow> MemoryUtils \<Rightarrow> GenericChunk \<Rightarrow> mem \<times> 'l \<Rightarrow> mem \<times> 'l" where
  "checksum_write_buffer env os utils chunk = fold (checksum_write_region env os utils) (concat (m_packets chunk))"

section \<open>The node\<close>

record GenericSenderIONode =
  gsn_index :: u64
  gsn_num_of_streams :: u64
  gsn_sleep_between_operations_us :: int
  gsn_network_address :: FourTupleFlow
  gsn_rate :: PacketPacingRate
  gsn_num_of_chunks :: u64
  gsn_num_of_packets_in_chunk :: u64
  gsn_packet_typical_payload_size :: u16
  gsn_packet_typical_app_header_size :: u16
  gsn_use_checksum_header :: bool
  gsn_cpu_core_affinity :: int
  gsn_hw_queue_full_sleep_us :: u32
  gsn_mem_utils :: MemoryUtils
  gsn_mem_region :: rmx_mem_region
  gsn_flows_in_stream :: "TwoTupleFlow list list"
  gsn_streams :: "AppGenericSendStream list"

definition GenericSenderIONode_new :: "AppSettings \<Rightarrow> u64 \<Rightarrow> u64 \<Rightarrow> int \<Rightarrow> MemoryUtils \<Rightarrow> GenericSenderIONode" where
  "GenericSenderIONode_new s index num_of_streams cpu_core_affinity mem_utils =
    \<lparr>gsn_index = index, gsn_num_of_streams = num_of_streams, gsn_sleep_between_operations_us = sleep_between_operations_us s,
     gsn_network_address = FourTupleFlow_new index (local_ip s) (source_port s) (destination_ip s) (destination_port s),
     gsn_rate = rate s, gsn_num_of_chunks = num_of_chunks s, gsn_num_of_packets_in_chunk = num_of_packets_in_chunk s,
     gsn_packet_typical_payload_size = packet_payload_size s, gsn_packet_typical_app_header_size = packet_app_header_size s,
     gsn_use_checksum_header = use_checksum_header s, gsn_cpu_core_affinity = cpu_core_affinity,
     gsn_hw_queue_full_sleep_us = hw_queue_full_sleep_us s, gsn_mem_utils = mem_utils,
     gsn_mem_region = \<lparr>addr = 0, region_length = 0, mkey = 0\<rparr>, gsn_flows_in_stream = [], gsn_streams = []\<rparr>"

definition gsn_initialize_send_flows :: "TwoTupleFlow list \<Rightarrow> GenericSenderIONode \<Rightarrow> GenericSenderIONode option" where
  "gsn_initialize_send_flows flows n =
    map_option (\<lambda>flows_in_stream. n\<lparr>gsn_flows_in_stream := flows_in_stream\<rparr>) (flows_of_streams (unat (gsn_num_of_streams n)) flows)"

definition flows_in_stream :: "GenericSenderIONode \<Rightarrow> nat \<Rightarrow> TwoTupleFlow list" where
  "flows_in_stream n i = (if i < length (gsn_flows_in_stream n) then gsn_flows_in_stream n ! i else [])"

definition gsn_stream_settings :: "'l generic_env \<Rightarrow> GenericSenderIONode \<Rightarrow> TwoTupleFlow list \<Rightarrow> u64 \<Rightarrow> GenericStreamSettings" where
  "gsn_stream_settings env n flows flows_offset =
    (let source = four_source_flow (gsn_network_address n); destination = four_destination_flow (gsn_network_address n)
     in \<lparr>m_source_address = ge_socket_address env (flow_ip source) (flow_port source),
         m_destination_address = ge_socket_address env (flow_ip destination) (flow_port destination + ucast flows_offset),
         m_fixed_dest_addr = (length flows = 1),
         m_pp_rate = \<lparr>bps = bps (gsn_rate n) * word_of_nat (length flows),
           max_burst_in_packets = ucast (ucast (max_burst_in_packets (gsn_rate n)) * word_of_nat (length flows) * gsn_num_of_packets_in_chunk n)\<rparr>,
         m_num_of_requested_chunks = gsn_num_of_chunks n, m_num_of_packets_in_chunk = gsn_num_of_packets_in_chunk n,
         m_packet_typical_payload_size = gsn_packet_typical_payload_size n,
         m_packet_typical_app_header_size = gsn_packet_typical_app_header_size n\<rparr>)"

fun gsn_add_streams ::
  "'l generic_env \<Rightarrow> GenericSenderIONode \<Rightarrow> TwoTupleFlow list list \<Rightarrow> u64 \<Rightarrow> AppGenericSendStream list \<times> u64" where
  "gsn_add_streams env n [] flows_offset = ([], flows_offset)"
| "gsn_add_streams env n (flows # rest) flows_offset =
    (let s = AppGenericSendStream_new (gsn_stream_settings env n flows flows_offset) flows;
         (ss, flows_offset) = gsn_add_streams env n rest (flows_offset + word_of_nat (length flows))
     in (s # ss, flows_offset))"

definition gsn_initialize_streams :: "'l generic_env \<Rightarrow> u64 \<Rightarrow> GenericSenderIONode \<Rightarrow> GenericSenderIONode \<times> u64" where
  "gsn_initialize_streams env flows_offset n =
    (let (ss, flows_offset) = gsn_add_streams env n (gsn_flows_in_stream n) flows_offset in (n\<lparr>gsn_streams := gsn_streams n @ ss\<rparr>, flows_offset))"

fun assign_regions :: "u64 \<Rightarrow> u64 \<Rightarrow> u32 \<Rightarrow> AppGenericSendStream list \<Rightarrow> AppGenericSendStream list" where
  "assign_regions base offset key [] = []"
| "assign_regions base offset key (s # ss) =
    (let mreg = \<lparr>addr = base + offset, region_length = get_memory_length (app_stream s), mkey = key\<rparr>
     in assign_mem_region mreg s # assign_regions base (offset + region_length mreg) key ss)"

definition distribute_memory_for_streams :: "GenericSenderIONode \<Rightarrow> GenericSenderIONode" where
  "distribute_memory_for_streams n =
    n\<lparr>gsn_streams := assign_regions (addr (gsn_mem_region n)) 0 (mkey (gsn_mem_region n)) (gsn_streams n)\<rparr>"

definition gsn_initialize_memory :: "u64 \<Rightarrow> u32 \<Rightarrow> GenericSenderIONode \<Rightarrow> u64 \<times> GenericSenderIONode" where
  "gsn_initialize_memory memory key n =
    (let n = n\<lparr>gsn_mem_region := \<lparr>addr = memory, region_length = sum_list (map (get_memory_length \<circ> app_stream) (gsn_streams n)), mkey = key\<rparr>\<rparr>;
         n = distribute_memory_for_streams n
     in (region_length (gsn_mem_region n), n))"

fun gsn_create_streams :: "'l rmx_output_gen \<Rightarrow> AppGenericSendStream list \<times> 'l \<Rightarrow> ReturnStatus \<times> AppGenericSendStream list \<times> 'l" where
  "gsn_create_streams rmx ([], l) = (success, [], l)"
| "gsn_create_streams rmx (s # ss, l) =
    (let (rc, s, l) = app_create_stream rmx (s, l)
     in if rc = failure then (rc, s # ss, l)
        else let (rc, ss, l) = gsn_create_streams rmx (ss, l) in (rc, s # ss, l))"

fun gsn_destroy_streams :: "'l rmx_output_gen \<Rightarrow> AppGenericSendStream list \<times> 'l \<Rightarrow> (ReturnStatus \<times> AppGenericSendStream list \<times> 'l) option" where
  "gsn_destroy_streams rmx ([], l) = Some (success, [], l)"
| "gsn_destroy_streams rmx (s # ss, l) = do {
     (rc, g, l) \<leftarrow> gen_stream_destroy rmx (app_stream s, l);
     let s = s\<lparr>app_stream := g\<rparr>;
     if rc = failure then Some (rc, s # ss, l)
     else map_option (\<lambda>(rc, ss, l). (rc, s # ss, l)) (gsn_destroy_streams rmx (ss, l)) }"

definition gsn_write_buffer :: "'l generic_env \<Rightarrow> os_memory \<Rightarrow> GenericSenderIONode \<Rightarrow> GenericChunk \<Rightarrow> mem \<times> 'l \<Rightarrow> mem \<times> 'l" where
  "gsn_write_buffer env os n chunk = (\<lambda>(m, l).
    if gsn_use_checksum_header n then checksum_write_buffer env os (gsn_mem_utils n) chunk (m, l)
    else (generic_write_buffer os (gsn_mem_utils n) chunk m, l))"

definition gsn_prepare_buffers :: "'l generic_env \<Rightarrow> os_memory \<Rightarrow> GenericSenderIONode \<Rightarrow> mem \<times> 'l \<Rightarrow> mem \<times> 'l" where
  "gsn_prepare_buffers env os n = fold (\<lambda>s. fold (gsn_write_buffer env os n) (m_chunks (app_stream s))) (gsn_streams n)"

section \<open>The send loop\<close>

partial_function (option) commit_until_accepted ::
  "'l generic_env \<Rightarrow> u32 \<Rightarrow> GenericChunk \<Rightarrow> 'l \<Rightarrow> (ReturnStatus \<times> 'l) option" where
  "commit_until_accepted env sleep_us chunk l =
    (case gen_blocking_commit_chunk (ge_rmx env) chunk 0 BLOCKING_COMMIT_RETRIES l of
       None \<Rightarrow> None
     | Some (rc, l) \<Rightarrow>
         if rc = hw_send_queue_full then commit_until_accepted env sleep_us chunk (ge_sleep_for_us env (uint sleep_us) l)
         else Some (rc, l))"

text \<open>One pass through the body of the loop over the streams: the status, whether the loop is left, the next index.
  The status of a chunk whose layout is refused is that of \<open>get_next_chunk\<close>.\<close>

definition stream_turn ::
  "'l generic_env \<Rightarrow> GenericSenderIONode \<Rightarrow> nat \<Rightarrow> AppGenericSendStream list \<times> 'l
    \<Rightarrow> (ReturnStatus \<times> bool \<times> nat \<times> AppGenericSendStream list \<times> 'l) option" where
  "stream_turn env n stream_index = (\<lambda>(ss, l).
    if length ss \<le> stream_index then None
    else do {
      let s = ss ! stream_index;
      (rc, g, l) \<leftarrow> gen_stream_get_next_chunk (ge_rmx env) (app_stream s, l);
      let commit_chunk = m_chunks (app_stream s) ! unat (m_next_chunk_to_send_index (app_stream s));
      let s' = s\<lparr>app_stream := g\<rparr>;
      let ss = ss[stream_index := s'];
      if rc = no_free_chunks then Some (rc, False, stream_index, ss, l)
      else if rc \<noteq> success then Some (rc, True, stream_index, ss, l)
      else do {
        l \<leftarrow> (if length (flows_in_stream n stream_index) > 1
              then map_option (\<lambda>flow. set_dest_address (ge_rmx env) (ge_socket_address env (flow_ip flow) (flow_port flow)) commit_chunk l)
                     (get_next_flow_to_send s)
              else Some l);
        let (layout, l) = apply_packets_layout (ge_rmx env) commit_chunk l;
        if layout \<noteq> success then Some (rc, True, stream_index, ss, l)
        else do {
          (rc, l) \<leftarrow> commit_until_accepted env (gsn_hw_queue_full_sleep_us n) commit_chunk l;
          if rc = failure \<or> rc = signal_received then Some (rc, False, stream_index, ss, l)
          else map_option (\<lambda>s'. (rc, False, stream_index + 1, ss[stream_index := s'], l)) (set_next_flow_to_send s') } } })"

partial_function (option) streams_pass ::
  "'l generic_env \<Rightarrow> GenericSenderIONode \<Rightarrow> nat \<Rightarrow> AppGenericSendStream list \<times> 'l
    \<Rightarrow> (ReturnStatus \<times> AppGenericSendStream list \<times> 'l) option" where
  "streams_pass env n stream_index w =
    (case stream_turn env n stream_index w of
       None \<Rightarrow> None
     | Some (rc, leave, stream_index', ss, l) \<Rightarrow>
         if \<not> leave \<and> rc \<noteq> failure \<and> rc \<noteq> signal_received \<and> stream_index' < length ss
         then streams_pass env n stream_index' (ss, l)
         else Some (rc, ss, l))"

text \<open>The loop over the chunks goes on whatever the status of a pass is.\<close>

fun chunk_passes ::
  "'l generic_env \<Rightarrow> GenericSenderIONode \<Rightarrow> nat \<Rightarrow> ReturnStatus \<times> AppGenericSendStream list \<times> 'l
    \<Rightarrow> (ReturnStatus \<times> AppGenericSendStream list \<times> 'l) option" where
  "chunk_passes env n 0 w = Some w"
| "chunk_passes env n (Suc k) w = do { w \<leftarrow> streams_pass env n 0 (snd w); chunk_passes env n k w }"

partial_function (option) send_loop ::
  "'l generic_env \<Rightarrow> GenericSenderIONode \<Rightarrow> ReturnStatus \<times> AppGenericSendStream list \<times> 'l
    \<Rightarrow> (ReturnStatus \<times> AppGenericSendStream list \<times> 'l) option" where
  "send_loop env n w =
    (case w of (rc, ss, l) \<Rightarrow>
       if rc \<noteq> failure \<and> rc \<noteq> signal_received \<and> ge_received_signal env l < 0
       then (case chunk_passes env n (unat (gsn_num_of_chunks n)) w of
               None \<Rightarrow> None
             | Some (rc, ss, l) \<Rightarrow> send_loop env n (rc, ss, ge_sleep_for_us env (gsn_sleep_between_operations_us n) l))
       else Some w)"

definition gsn_run :: "'l generic_env \<Rightarrow> os_memory \<Rightarrow> GenericSenderIONode \<times> mem \<times> 'l \<Rightarrow> (GenericSenderIONode \<times> mem \<times> 'l) option" where
  "gsn_run env os = (\<lambda>(n, m, l).
    let (rc, ss, l) = gsn_create_streams (ge_rmx env) (gsn_streams n, l);
        n = n\<lparr>gsn_streams := ss\<rparr>
    in if rc \<noteq> success then Some (n, m, l)
       else do {
         let (m, l) = gsn_prepare_buffers env os n (m, l);
         (rc, ss, l) \<leftarrow> send_loop env n (rc, gsn_streams n, l);
         (rc, ss, l) \<leftarrow> gsn_destroy_streams (ge_rmx env) (ss, l);
         Some (n\<lparr>gsn_streams := ss\<rparr>, m, l) })"

section \<open>The application\<close>

definition generic_post_load_settings :: "AppSettings \<Rightarrow> AppSettings" where
  "generic_post_load_settings s = (if use_checksum_header s then s\<lparr>packet_app_header_size := sizeof_ChecksumHeader\<rparr> else s)"

fun initialize_sender_threads ::
  "'l generic_env \<Rightarrow> AppSettings \<Rightarrow> MemoryUtils \<Rightarrow> (nat \<Rightarrow> nat) \<Rightarrow> (nat \<Rightarrow> nat) \<Rightarrow> TwoTupleFlow list \<Rightarrow> nat \<Rightarrow> nat \<Rightarrow> u64
    \<Rightarrow> GenericSenderIONode list option" where
  "initialize_sender_threads env s utils streams_per_thread flows_per_thread flows sndr_indx 0 flows_offset = Some []"
| "initialize_sender_threads env s utils streams_per_thread flows_per_thread flows sndr_indx (Suc k) flows_offset =
    (if app_threads_cores s = [] \<or> length flows < unat flows_offset + flows_per_thread sndr_indx then None
     else do {
       let core = app_threads_cores s ! (sndr_indx mod length (app_threads_cores s));
       let n = GenericSenderIONode_new s (word_of_nat sndr_indx) (word_of_nat (streams_per_thread sndr_indx)) core utils;
       n \<leftarrow> gsn_initialize_send_flows (take (flows_per_thread sndr_indx) (drop (unat flows_offset) flows)) n;
       let (n, flows_offset) = gsn_initialize_streams env flows_offset n;
       ns \<leftarrow> initialize_sender_threads env s utils streams_per_thread flows_per_thread flows (sndr_indx + 1) k flows_offset;
       Some (n # ns) })"

definition create_senders :: "'l generic_env \<Rightarrow> AppSettings \<Rightarrow> MemoryUtils \<Rightarrow> (parse_error + GenericSenderIONode list) option" where
  "create_senders env s utils = do {
     (streams_per_thread, flows_per_stream, flows_per_thread) \<leftarrow> generic_sender_distribute_work s;
     flows \<leftarrow> generic_sender_flows s;
     (case flows of
        Inl e \<Rightarrow> Some (Inl e)
      | Inr flows \<Rightarrow> map_option Inr (initialize_sender_threads env s utils streams_per_thread flows_per_thread flows 0 (unat (num_of_threads s)) 0)) }"

definition generic_app_memory_length :: "GenericSenderIONode list \<Rightarrow> u64" where
  "generic_app_memory_length senders = sum_list (map (\<lambda>n. sum_list (map (get_memory_length \<circ> app_stream) (gsn_streams n))) senders)"

fun distribute_memory_for_senders :: "rmx_mem_region \<Rightarrow> u64 \<Rightarrow> GenericSenderIONode list \<Rightarrow> GenericSenderIONode list" where
  "distribute_memory_for_senders app_mem offset [] = []"
| "distribute_memory_for_senders app_mem offset (n # ns) =
    (let (len, n) = gsn_initialize_memory (addr app_mem + offset) (mkey app_mem) n
     in n # distribute_memory_for_senders app_mem (offset + len) ns)"

text \<open>\<open>rmx_retrieve_device_iface_ipv4\<close> and \<open>rmx_register_memory\<close> are arguments; registering sets the key.\<close>

definition allocate_app_memory ::
  "os_memory \<Rightarrow> bool \<Rightarrow> (rmx_mem_region \<Rightarrow> rmx_status \<times> u32) \<Rightarrow> GenericSenderIONode list \<Rightarrow> MemoryAllocator
    \<Rightarrow> (ReturnStatus \<times> rmx_mem_region option \<times> MemoryAllocator) option" where
  "allocate_app_memory os device_found register_mem senders a = do {
     len \<leftarrow> align_length os a (generic_app_memory_length senders);
     (memory, a) \<leftarrow> allocate os a len;
     let mreg = \<lparr>addr = memory, region_length = len, mkey = 0\<rparr>;
     if memory = 0 then Some (failure, None, a)
     else if \<not> device_found then Some (failure, None, a)
     else (case register_mem mreg of (status, key) \<Rightarrow>
             if status \<noteq> RMX_OK then Some (failure, None, a) else Some (success, Some (mreg\<lparr>mkey := key\<rparr>), a)) }"

section \<open>The senders share the flows\<close>

lemma gsn_add_streams_spec:
  assumes "gsn_add_streams env n fss (word_of_nat o0) = (ss, w)"
  shows "w = word_of_nat (o0 + length (concat fss)) \<and> map m_send_flows ss = fss
    \<and> (\<forall>j < length fss. ss ! j = AppGenericSendStream_new (gsn_stream_settings env n (fss ! j) (word_of_nat (o0 + length (concat (take j fss))))) (fss ! j))"
  using assms
proof (induction fss arbitrary: o0 ss w)
  case (Cons fs fss)
  have w: "word_of_nat o0 + word_of_nat (length fs) = (word_of_nat (o0 + length fs) :: u64)" by simp
  obtain ss' where r: "gsn_add_streams env n fss (word_of_nat (o0 + length fs)) = (ss', w)"
    "ss = AppGenericSendStream_new (gsn_stream_settings env n fs (word_of_nat o0)) fs # ss'"
    using Cons.prems unfolding gsn_add_streams.simps w by (auto simp: Let_def split: prod.splits simp del: of_nat_add)
  have "ss ! j = AppGenericSendStream_new (gsn_stream_settings env n ((fs # fss) ! j)
      (word_of_nat (o0 + length (concat (take j (fs # fss)))))) ((fs # fss) ! j)" if "j < length (fs # fss)" for j
    using that Cons.IH[OF r(1)] r(2) by (cases j) (simp_all add: add.assoc del: of_nat_add)
  then show ?case using Cons.IH[OF r(1)] r(2) by (simp add: AppGenericSendStream_new_def add.assoc del: of_nat_add)
qed (simp add: AppGenericSendStream_new_def)

text \<open>What a node of the application has after its streams are initialised from a slice of the flows.\<close>

definition serves :: "'l generic_env \<Rightarrow> AppSettings \<Rightarrow> TwoTupleFlow list \<Rightarrow> nat \<Rightarrow> GenericSenderIONode \<Rightarrow> bool" where
  "serves env s fs streams n \<longleftrightarrow> concat (map m_send_flows (gsn_streams n)) = fs \<and> length (gsn_streams n) = streams
     \<and> (\<forall>x \<in> set (gsn_streams n). m_send_flows x \<noteq> []
        \<and> m_destination_address (m_gen_settings (app_stream x)) = ge_socket_address env (destination_ip s) (flow_port (hd (m_send_flows x)))
        \<and> (\<exists>t. app_stream x = GenericSendStream_new t))"

lemma settings_of_new [simp]: "m_gen_settings (GenericSendStream_new t) = t"
  by (simp add: GenericSendStream_new_def gen_initialize_memory_layout_def)

lemma u64_of_length: "k \<le> unat (w :: u64) \<Longrightarrow> unat (word_of_nat k :: u64) = k"
  by (rule unat_word_of_nat) (use unat_u64_bound[of w] in simp)

lemma node_serves_slice:
  fixes s :: AppSettings
  assumes port: "\<And>i. i < length fs \<Longrightarrow> flow_port (fs ! i) = destination_port s + word_of_nat i"
    and "o0 + k \<le> length fs" "length fs < 2 ^ 64" "0 < streams" "streams \<le> k"
    and "n0 = GenericSenderIONode_new s index (word_of_nat streams) core utils"
  shows "\<exists>n n'. gsn_initialize_send_flows (take k (drop o0 fs)) n0 = Some n
    \<and> gsn_initialize_streams env (word_of_nat o0) n = (n', word_of_nat (o0 + k)) \<and> serves env s (take k (drop o0 fs)) streams n'"
proof -
  have u: "unat (gsn_num_of_streams n0) = streams"
    using assms(2-6) by (simp add: GenericSenderIONode_new_def unat_word_of_nat)
  obtain fss where fss: "flows_of_streams streams (take k (drop o0 fs)) = Some fss" "concat fss = take k (drop o0 fs)"
    "map length fss = map (count_items k streams) [0..<streams]"
    using flows_of_streams_partition[OF assms(4), of "take k (drop o0 fs)"] assms(2) by auto
  let ?n = "n0\<lparr>gsn_flows_in_stream := fss\<rparr>"
  obtain ss w where r: "gsn_add_streams env ?n fss (word_of_nat o0) = (ss, w)" by fastforce
  note spec = gsn_add_streams_spec[OF r]
  have len: "length fss = streams" using fss(3) by (metis length_map length_upt diff_zero)
  have slen: "length ss = streams" using arg_cong[OF conjunct1[OF conjunct2[OF spec]], of length] len by simp
  have nonempty: "0 < length (fss ! j)" if "j < streams" for j
  proof -
    have "length (fss ! j) = count_items k streams j" using fss(3) that len by (metis length_map nth_map nth_upt add_0 length_upt diff_zero)
    then show ?thesis using count_items_positive[of j streams k] that assms(5) by simp
  qed
  have stream: "m_send_flows x \<noteq> [] \<and> m_destination_address (m_gen_settings (app_stream x))
      = ge_socket_address env (destination_ip s) (flow_port (hd (m_send_flows x))) \<and> (\<exists>t. app_stream x = GenericSendStream_new t)"
    if xin: "x \<in> set ss" for x
  proof -
    obtain j where j: "j < streams" "x = ss ! j" using xin slen by (auto simp: in_set_conv_nth)
    let ?at = "o0 + length (concat (take j fss))"
    have x: "x = AppGenericSendStream_new (gsn_stream_settings env ?n (fss ! j) (word_of_nat ?at)) (fss ! j)"
      using spec j len by blast
    have "concat fss ! (sum_list (map length (take j fss)) + 0) = fss ! j ! 0"
      by (rule nth_concat_slices) (use j len nonempty in simp_all)
    then have hd: "hd (fss ! j) = concat fss ! length (concat (take j fss))"
      using nonempty[OF j(1)] by (simp add: hd_conv_nth length_concat)
    have "length (concat (take j fss)) < length (concat fss)"
    proof -
      have "fss = take j fss @ fss ! j # drop (Suc j) fss" using j(1) len by (intro id_take_nth_drop) simp
      then have "concat fss = concat (take j fss @ fss ! j # drop (Suc j) fss)" by (rule arg_cong)
      then have "concat fss = concat (take j fss) @ fss ! j @ concat (drop (Suc j) fss)" by simp
      then have "length (concat fss) = length (concat (take j fss)) + length (fss ! j) + length (concat (drop (Suc j) fss))"
        by (metis add.assoc length_append)
      then show ?thesis using nonempty[OF j(1)] by linarith
    qed
    then have at: "?at < length fs" "hd (fss ! j) = fs ! ?at"
      using hd fss(2) assms(2) by (simp_all add: min_def split: if_splits)
    have "flow_port (hd (fss ! j)) = destination_port s + word_of_nat ?at" using port[OF at(1)] at(2) by simp
    moreover have "(ucast (word_of_nat ?at :: u64) :: u16) = word_of_nat ?at"
      using port_counted[of 0 ?at] by simp
    ultimately show ?thesis using nonempty[OF j(1)] assms(6)
      by (auto simp: x AppGenericSendStream_new_def gsn_stream_settings_def GenericSenderIONode_new_def FourTupleFlow_new_def Let_def
          simp del: of_nat_add)
  qed
  have "gsn_streams ?n = []" using assms(6) by (simp add: GenericSenderIONode_new_def)
  then have "gsn_initialize_streams env (word_of_nat o0) ?n = (?n\<lparr>gsn_streams := ss\<rparr>, w)"
    using r by (simp add: gsn_initialize_streams_def)
  moreover have "w = word_of_nat (o0 + k)"
  proof -
    have "length (concat fss) = k" unfolding fss(2) using assms(2) by simp
    then show ?thesis using spec by (simp only:)
  qed
  moreover have "serves env s (take k (drop o0 fs)) streams (?n\<lparr>gsn_streams := ss\<rparr>)"
    using stream spec fss(2) slen by (simp add: serves_def)
  moreover have "gsn_initialize_send_flows (take k (drop o0 fs)) n0 = Some ?n"
    by (simp add: gsn_initialize_send_flows_def u fss(1))
  ultimately show ?thesis by blast
qed

lemma sum_list_Suc: "sum_list (map f [0..<Suc t]) = sum_list (map f [0..<t]) + (f t :: nat)"
  by simp

lemma senders_serve_slices:
  fixes s :: AppSettings
  assumes port: "\<And>i. i < length fs \<Longrightarrow> flow_port (fs ! i) = destination_port s + word_of_nat i"
    and "app_threads_cores s \<noteq> []" "length fs < 2 ^ 64"
    and "\<And>t. t < i + k \<Longrightarrow> 0 < spt t \<and> spt t \<le> fpt t" "o0 + sum_list (map fpt [i..<i + k]) = length fs"
  shows "\<exists>ns. initialize_sender_threads env s utils spt fpt fs i k (word_of_nat o0) = Some ns
    \<and> length ns = k \<and> concat (map m_send_flows (concat (map gsn_streams ns))) = drop o0 fs
    \<and> length (concat (map gsn_streams ns)) = sum_list (map spt [i..<i + k])
    \<and> (\<forall>n \<in> set ns. \<exists>slice streams. 0 < streams \<and> serves env s slice streams n)"
  using assms(4,5)
proof (induction k arbitrary: i o0)
  case 0
  then show ?case by simp
next
  case (Suc k)
  have upt: "[i..<i + Suc k] = i # [i + 1..<(i + 1) + k]" by (simp add: upt_conv_Cons del: upt_Suc)
  have sum: "o0 + fpt i + sum_list (map fpt [i + 1..<(i + 1) + k]) = length fs"
    using Suc.prems(2) unfolding upt by (simp del: upt_Suc)
  have fit: "o0 + fpt i \<le> length fs" using sum by simp
  have i: "0 < spt i" "spt i \<le> fpt i" using Suc.prems(1)[of i] by auto
  let ?core = "app_threads_cores s ! (i mod length (app_threads_cores s))"
  obtain n n' where n: "gsn_initialize_send_flows (take (fpt i) (drop o0 fs)) (GenericSenderIONode_new s (word_of_nat i) (word_of_nat (spt i)) ?core utils) = Some n"
    "gsn_initialize_streams env (word_of_nat o0) n = (n', word_of_nat (o0 + fpt i))" "serves env s (take (fpt i) (drop o0 fs)) (spt i) n'"
    using node_serves_slice[OF port fit assms(3) i refl, where env = env and utils = utils] by blast
  have prems: "0 < spt t \<and> spt t \<le> fpt t" if "t < i + 1 + k" for t using Suc.prems(1)[of t] that by simp
  obtain ns where ns: "initialize_sender_threads env s utils spt fpt fs (i + 1) k (word_of_nat (o0 + fpt i)) = Some ns" "length ns = k"
    "concat (map m_send_flows (concat (map gsn_streams ns))) = drop (o0 + fpt i) fs"
    "length (concat (map gsn_streams ns)) = sum_list (map spt [i + 1..<(i + 1) + k])"
    "\<forall>n \<in> set ns. \<exists>slice streams. 0 < streams \<and> serves env s slice streams n"
    using Suc.IH[OF prems sum] by blast
  have u: "unat (word_of_nat o0 :: u64) = o0" by (rule unat_word_of_nat) (use fit assms(3) in simp)
  have run: "initialize_sender_threads env s utils spt fpt fs i (Suc k) (word_of_nat o0) = Some (n' # ns)"
    using assms(2) fit n(1,2) ns(1) by (simp add: u Let_def del: of_nat_add)
  have "concat (map m_send_flows (concat (map gsn_streams (n' # ns)))) = drop o0 fs"
    using n(3) ns(3) by (simp add: serves_def) (metis append_take_drop_id drop_drop add.commute)
  moreover have "length (concat (map gsn_streams (n' # ns))) = sum_list (map spt [i..<i + Suc k])"
    using n(3) ns(4) unfolding upt by (simp add: serves_def del: upt_Suc)
  ultimately show ?case using run ns(2,5) n(3) i(1) by auto
qed

text \<open>C32: the generic sender shares its flows out without loss.  When there are at least as
  many streams as threads and at least as many flows as streams, every created sender has a stream, every stream has
  a flow, the flows of all streams in order are all flows that were created, and a stream is connected to the port of its first
  flow.\<close>

theorem senders_share_flows:
  assumes "generic_sender_flows s = Some (Inr fs)" "app_threads_cores s \<noteq> []" "0 < num_of_threads s"
    and "unat (num_of_threads s) \<le> unat (num_of_total_streams s)" "unat (num_of_total_streams s) \<le> unat (num_of_total_flows s)"
  shows "\<exists>ns. create_senders env s utils = Some (Inr ns) \<and> length ns = unat (num_of_threads s)
    \<and> length (concat (map gsn_streams ns)) = unat (num_of_total_streams s)
    \<and> concat (map m_send_flows (concat (map gsn_streams ns))) = fs
    \<and> (\<forall>n \<in> set ns. gsn_streams n \<noteq> [] \<and> (\<forall>x \<in> set (gsn_streams n). m_send_flows x \<noteq> []
        \<and> m_destination_address (m_gen_settings (app_stream x)) = ge_socket_address env (destination_ip s) (flow_port (hd (m_send_flows x)))))"
proof -
  let ?T = "unat (num_of_threads s)" and ?S = "unat (num_of_total_streams s)" and ?F = "unat (num_of_total_flows s)"
  have T: "0 < ?T" using assms(3) by (simp add: word_less_nat_alt)
  obtain parts where fs: "fs = map (\<lambda>i. generic_sender_flow s parts (word_of_nat i)) [0..<?F]"
    using assms(1) plan_flows_nth unfolding generic_sender_flows_def by metis
  have len: "length fs = ?F" using fs by simp
  have port: "flow_port (fs ! i) = destination_port s + word_of_nat i" if "i < length fs" for i
    using that fs by (simp add: generic_sender_flow_def port_counted)
  have deal: "0 < count_items ?S ?T t \<and> count_items ?S ?T t \<le> count_items ?F ?T t" if "t < 0 + ?T" for t
    using count_items_positive[of t ?T ?S] count_items_mono[OF assms(5)] that assms(4) by simp
  have sums: "sum_list (map (count_items ?F ?T) [0..<0 + ?T]) = ?F" "sum_list (map (count_items ?S ?T) [0..<0 + ?T]) = ?S"
    using T by (simp_all add: sum_list_upt count_items_sum)
  have bound: "length fs < 2 ^ 64" using len unat_u64_bound[of "num_of_total_flows s"] by simp
  have total: "0 + sum_list (map (count_items ?F ?T) [0..<0 + ?T]) = length fs" using sums(1) len by simp
  note nodes = senders_serve_slices[where env = env and utils = utils, OF port assms(2) bound deal total]
  then obtain ns where ns: "initialize_sender_threads env s utils (count_items ?S ?T) (count_items ?F ?T) fs 0 ?T (word_of_nat 0) = Some ns"
    "length ns = ?T" "concat (map m_send_flows (concat (map gsn_streams ns))) = drop 0 fs"
    "length (concat (map gsn_streams ns)) = sum_list (map (count_items ?S ?T) [0..<0 + ?T])"
    "\<forall>n \<in> set ns. \<exists>slice streams. 0 < streams \<and> serves env s slice streams n"
    by blast
  have "num_of_threads s \<noteq> 0" "num_of_total_streams s \<noteq> 0" using T assms(4) by auto
  then have "create_senders env s utils = Some (Inr ns)"
    using ns(1) assms(1) by (simp add: create_senders_def generic_sender_distribute_work_def)
  moreover have "gsn_streams n \<noteq> [] \<and> (\<forall>x \<in> set (gsn_streams n). m_send_flows x \<noteq> []
        \<and> m_destination_address (m_gen_settings (app_stream x)) = ge_socket_address env (destination_ip s) (flow_port (hd (m_send_flows x))))"
    if "n \<in> set ns" for n
    using ns(5) that by (fastforce simp: serves_def)
  ultimately show ?thesis using ns(2,3,4) sums(2) by auto
qed

section \<open>The memory of the application\<close>

definition stream_length :: "AppGenericSendStream \<Rightarrow> nat" where
  "stream_length x = unat (get_memory_length (app_stream x))"

definition region_at :: "AppGenericSendStream \<Rightarrow> nat \<times> nat" where
  "region_at x = region_of (app_mem_region x)"

lemma assign_regions_placed:
  assumes "unat base + (o0 + sum_list (map stream_length ss)) < 2 ^ 64"
  shows "placed (unat base + o0, sum_list (map stream_length ss)) (map region_at (assign_regions base (word_of_nat o0) key ss))
    \<and> map app_stream (assign_regions base (word_of_nat o0) key ss) = map app_stream ss
    \<and> (\<forall>x \<in> set (assign_regions base (word_of_nat o0) key ss). region_length (app_mem_region x) = get_memory_length (app_stream x))"
  using assms
proof (induction ss arbitrary: o0)
  case (Cons x ss)
  let ?k = "stream_length x"
  have w: "word_of_nat o0 + get_memory_length (app_stream x) = (word_of_nat (o0 + ?k) :: u64)"
    by (simp add: stream_length_def)
  have rest: "unat base + (o0 + ?k + sum_list (map stream_length ss)) < 2 ^ 64" using Cons.prems by (simp add: add.assoc)
  note IH = Cons.IH[OF rest]
  have "unat base + o0 < 2 ^ 64" using Cons.prems by simp
  then have here: "unat (base + word_of_nat o0) = unat base + o0" by (rule word_offset)
  have eq: "assign_regions base (word_of_nat o0) key (x # ss)
      = x\<lparr>app_mem_region := \<lparr>addr = base + word_of_nat o0, region_length = get_memory_length (app_stream x), mkey = key\<rparr>\<rparr>
        # assign_regions base (word_of_nat (o0 + ?k)) key ss"
    using w by (simp add: Let_def assign_mem_region_def)
  have "placed (unat base + o0, ?k + sum_list (map stream_length ss))
      ((unat base + o0, ?k) # map region_at (assign_regions base (word_of_nat (o0 + ?k)) key ss))"
    using IH by (intro placed_Cons) (simp add: add.assoc del: of_nat_add)
  moreover have "region_at (x\<lparr>app_mem_region := \<lparr>addr = base + word_of_nat o0, region_length = get_memory_length (app_stream x), mkey = key\<rparr>\<rparr>)
      = (unat base + o0, ?k)"
    by (simp add: region_at_def region_of_def here stream_length_def)
  ultimately show ?case using IH unfolding eq by (simp del: of_nat_add)
qed simp

definition node_length :: "GenericSenderIONode \<Rightarrow> nat" where
  "node_length n = sum_list (map stream_length (gsn_streams n))"

text \<open>A node after the application gave it a part of its memory.\<close>

definition has_memory :: "nat \<times> nat \<Rightarrow> GenericSenderIONode \<Rightarrow> GenericSenderIONode \<Rightarrow> bool" where
  "has_memory buffer n n' \<longleftrightarrow> placed buffer (map region_at (gsn_streams n'))
     \<and> map app_stream (gsn_streams n') = map app_stream (gsn_streams n)
     \<and> (\<forall>x \<in> set (gsn_streams n'). region_length (app_mem_region x) = get_memory_length (app_stream x))"

lemma initialize_memory_placed:
  assumes "unat memory + node_length n < 2 ^ 64"
  shows "\<exists>n'. gsn_initialize_memory memory key n = (word_of_nat (node_length n), n') \<and> has_memory (unat memory, node_length n) n n'"
proof -
  have "unat (sum_list (map (get_memory_length \<circ> app_stream) (gsn_streams n))) = node_length n"
    using unat_sum_list[of "map (get_memory_length \<circ> app_stream) (gsn_streams n)"] assms
    by (simp add: node_length_def stream_length_def[abs_def] comp_def)
  then have len: "sum_list (map (get_memory_length \<circ> app_stream) (gsn_streams n)) = word_of_nat (node_length n)"
    by (metis of_nat_unat ucast_id)
  show ?thesis
    using assign_regions_placed[of memory 0 "gsn_streams n" key] assms len
    by (simp add: gsn_initialize_memory_def distribute_memory_for_streams_def has_memory_def node_length_def comp_def)
qed

lemma distribute_memory_placed:
  assumes "unat (addr app_mem) + (o0 + sum_list (map node_length ns)) < 2 ^ 64"
  shows "list_all2 (\<lambda>n n'. map app_stream (gsn_streams n') = map app_stream (gsn_streams n)
      \<and> (\<forall>x \<in> set (gsn_streams n'). region_length (app_mem_region x) = get_memory_length (app_stream x)))
      ns (distribute_memory_for_senders app_mem (word_of_nat o0) ns)
    \<and> placed (unat (addr app_mem) + o0, sum_list (map node_length ns))
        (map region_at (concat (map gsn_streams (distribute_memory_for_senders app_mem (word_of_nat o0) ns))))"
  using assms
proof (induction ns arbitrary: o0)
  case (Cons n ns)
  have "unat (addr app_mem) + o0 < 2 ^ 64" using Cons.prems by simp
  then have here: "unat (addr app_mem + word_of_nat o0) = unat (addr app_mem) + o0" by (rule word_offset)
  then have "unat (addr app_mem + word_of_nat o0) + node_length n < 2 ^ 64" using Cons.prems by simp
  then obtain n' where n': "gsn_initialize_memory (addr app_mem + word_of_nat o0) (mkey app_mem) n = (word_of_nat (node_length n), n')"
    "has_memory (unat (addr app_mem) + o0, node_length n) n n'"
    using initialize_memory_placed here by metis
  have rest: "unat (addr app_mem) + (o0 + node_length n + sum_list (map node_length ns)) < 2 ^ 64"
    using Cons.prems by (simp add: add.assoc)
  have eq: "distribute_memory_for_senders app_mem (word_of_nat o0) (n # ns)
      = n' # distribute_memory_for_senders app_mem (word_of_nat (o0 + node_length n)) ns"
    using n'(1) by (simp add: Let_def)
  have "placed (unat (addr app_mem) + o0, node_length n + sum_list (map node_length ns))
    (map region_at (gsn_streams n')
     @ map region_at (concat (map gsn_streams (distribute_memory_for_senders app_mem (word_of_nat (o0 + node_length n)) ns))))"
    using n'(2) Cons.IH[OF rest] by (intro placed_append) (simp_all add: has_memory_def add.assoc del: of_nat_add)
  then show ?case using n'(2) Cons.IH[OF rest] unfolding eq by (simp add: has_memory_def del: of_nat_add)
qed simp

text \<open>Lists placed in the members of a placed list are placed.\<close>

lemma placed_concat:
  assumes "list_all2 (\<lambda>r rs. placed r rs) regions rss" "placed buffer regions"
  shows "placed buffer (concat rss)"
  using assms
proof (induction regions rss rule: list_all2_induct)
  case (Cons r regions rs rss)
  have tail: "placed buffer regions" "\<forall>r' \<in> set regions. fst r + snd r \<le> fst r'" "fst buffer \<le> fst r" "fst r + snd r \<le> fst buffer + snd buffer"
    using Cons.prems by (auto simp: placed_def)
  have "fst r + snd r \<le> fst q" if "q \<in> set (concat rss)" for q
  proof -
    obtain rs' where "rs' \<in> set rss" "q \<in> set rs'" using \<open>q \<in> set (concat rss)\<close> by auto
    then obtain r' where "r' \<in> set regions" "placed r' rs'" using Cons.hyps(2) by (metis in_set_conv_nth list_all2_conv_all_nth)
    then have "fst r' \<le> fst q" using \<open>q \<in> set rs'\<close> by (simp add: placed_def)
    then show ?thesis using tail(2) \<open>r' \<in> set regions\<close> by fastforce
  qed
  then show ?case using Cons.IH[OF tail(1)] Cons.hyps(1) tail(3,4)
    by (fastforce simp: placed_def sorted_wrt_append)
qed simp

definition packet_regions :: "AppGenericSendStream \<Rightarrow> (nat \<times> nat) list" where
  "packet_regions x = map region_of (concat (all_packets (m_chunks (app_stream x))))"

definition fresh_stream :: "AppGenericSendStream \<Rightarrow> bool" where
  "fresh_stream x \<longleftrightarrow> (\<exists>t. app_stream x = GenericSendStream_new t \<and> num_packets t * packet_bytes t < 2 ^ 64)"

definition cut_into_packets :: "AppGenericSendStream \<Rightarrow> AppGenericSendStream \<Rightarrow> bool" where
  "cut_into_packets x x' \<longleftrightarrow> placed (region_at x) (packet_regions x')
     \<and> length (all_packets (m_chunks (app_stream x'))) = num_packets (m_gen_settings (app_stream x'))"

lemma gen_stream_create_new:
  assumes "gen_stream_create rmx (GenericSendStream_new t, l) = (status, g, l')"
  shows "status = success \<or> status = failure" "status = success \<Longrightarrow> \<exists>i. g = created_stream t i"
proof -
  obtain st i l1 where c: "gen_create_stream rmx (m_gen_stream_params (GenericSendStream_new t)) l = (st, i, l1)" by (metis prod_cases3)
  show "status = success \<or> status = failure" using assms c by (auto simp: gen_stream_create_def split: if_splits)
  assume "status = success"
  then have "g = created_stream t i" using assms c by (auto simp: gen_stream_create_def created_stream_def split: if_splits)
  then show "\<exists>i. g = created_stream t i" by blast
qed

lemma place_chunks_settings:
  "m_gen_settings (fst (place_chunks rmx place n offset (s, l))) = m_gen_settings s"
  using place_chunks_run[of rmx place n offset s l] by auto

lemma app_create_stream_cuts:
  assumes "app_create_stream rmx (x, l) = (status, x', l')" "fresh_stream x" "status \<noteq> failure"
    and "region_length (app_mem_region x) = get_memory_length (app_stream x)" "fst (region_at x) + snd (region_at x) < 2 ^ 64"
  shows "status = success \<and> cut_into_packets x x'"
proof -
  obtain t where t: "app_stream x = GenericSendStream_new t" "num_packets t * packet_bytes t < 2 ^ 64"
    using assms(2) by (auto simp: fresh_stream_def)
  obtain st g l1 where g: "gen_stream_create rmx (GenericSendStream_new t, l) = (st, g, l1)" by (metis prod_cases3)
  have st: "st = success" "status = success"
    using gen_stream_create_new(1)[OF g] assms(1,3) t(1) g by (auto simp: app_create_stream_def split: prod.splits)
  obtain i where i: "g = created_stream t i" using gen_stream_create_new(2)[OF g st(1)] by blast
  obtain st' g' l2 where c: "initialize_chunks rmx (app_mem_region x) (created_stream t i, l1) = (st', g', l2)" by (metis prod_cases3)
  have x': "x' = x\<lparr>app_stream := g'\<rparr>" using assms(1) t(1) g st i c by (simp add: app_create_stream_def)
  have "m_gen_settings g' = t"
    using c place_chunks_settings[of rmx "place_sub_blocks (app_mem_region x) (sub_block_lengths t)"
        "unat (m_num_of_requested_chunks t)" 0 "created_stream t i" l1] by (simp add: initialize_chunks_def)
  moreover have "num_packets t * packet_bytes t \<le> unat (region_length (app_mem_region x))"
    using assms(4) t generic_sizes(3) by simp
  moreover have "unat (addr (app_mem_region x)) + unat (region_length (app_mem_region x)) < 2 ^ 64"
    using assms(5) by (simp add: region_at_def region_of_def)
  ultimately show ?thesis
    using initialize_chunks_placed[OF c] st(2) x' by (simp add: cut_into_packets_def packet_regions_def region_at_def)
qed

lemma create_streams_cuts:
  assumes "gsn_create_streams rmx (ss, l) = (success, ss', l')"
    and "\<forall>x \<in> set ss. fresh_stream x \<and> region_length (app_mem_region x) = get_memory_length (app_stream x)
          \<and> fst (region_at x) + snd (region_at x) < 2 ^ 64"
  shows "list_all2 cut_into_packets ss ss'"
  using assms
proof (induction ss arbitrary: l ss' l')
  case (Cons x ss)
  obtain st x' l1 where x: "app_create_stream rmx (x, l) = (st, x', l1)" by (metis prod_cases3)
  have st: "st \<noteq> failure" using Cons.prems(1) x by (auto split: if_splits)
  obtain st' ss1 l2 where r: "gsn_create_streams rmx (ss, l1) = (st', ss1, l2)" by (metis prod_cases3)
  have "st' = success" "ss' = x' # ss1" using Cons.prems(1) x st r by simp_all
  then show ?case using Cons.IH[of l1 ss1 l2] Cons.prems(2) r app_create_stream_cuts[OF x _ st] by simp
qed simp

lemma in_placed: "placed buffer rs \<Longrightarrow> r \<in> set rs \<Longrightarrow> fst r + snd r \<le> fst buffer + snd buffer"
  by (simp add: placed_def)

lemma distributed_streams:
  fixes app_mem :: rmx_mem_region
  assumes "\<forall>n \<in> set ns. \<forall>x \<in> set (gsn_streams n). fresh_stream x"
    and "sum_list (map node_length ns) \<le> unat (region_length app_mem)" "unat (addr app_mem) + unat (region_length app_mem) < 2 ^ 64"
  shows "placed (region_of app_mem) (map region_at (concat (map gsn_streams (distribute_memory_for_senders app_mem 0 ns))))"
    and "\<And>n' x. n' \<in> set (distribute_memory_for_senders app_mem 0 ns) \<Longrightarrow> x \<in> set (gsn_streams n') \<Longrightarrow> fresh_stream x
      \<and> region_length (app_mem_region x) = get_memory_length (app_stream x) \<and> fst (region_at x) + snd (region_at x) < 2 ^ 64"
proof -
  let ?ns = "distribute_memory_for_senders app_mem 0 ns"
  have fits: "unat (addr app_mem) + (0 + sum_list (map node_length ns)) < 2 ^ 64" using assms(2,3) by linarith
  note dist = distribute_memory_placed[OF fits, simplified of_nat_0 add_0_right add_0]
  show regions: "placed (region_of app_mem) (map region_at (concat (map gsn_streams ?ns)))"
    using dist placed_mono[OF _ assms(2)] by (simp add: region_of_def)
  show "fresh_stream x \<and> region_length (app_mem_region x) = get_memory_length (app_stream x) \<and> fst (region_at x) + snd (region_at x) < 2 ^ 64"
    if x: "n' \<in> set ?ns" "x \<in> set (gsn_streams n')" for n' x
  proof -
    obtain i where i: "i < length ?ns" "n' = ?ns ! i" using x(1) unfolding in_set_conv_nth by blast
    then have "i < length ns" using list_all2_lengthD[OF conjunct1[OF dist]] by simp
    then have n: "ns ! i \<in> set ns" "map app_stream (gsn_streams n') = map app_stream (gsn_streams (ns ! i))"
      "\<forall>x \<in> set (gsn_streams n'). region_length (app_mem_region x) = get_memory_length (app_stream x)"
      using list_all2_nthD[OF conjunct1[OF dist], of i] i by simp_all
    have "app_stream x \<in> app_stream ` set (gsn_streams (ns ! i))" using arg_cong[OF n(2), of set] x(2) by auto
    then have "fresh_stream x" using assms(1) n(1) by (auto simp: fresh_stream_def)
    moreover have "region_at x \<in> set (map region_at (concat (map gsn_streams ?ns)))" using x by auto
    note in_placed[OF regions this, unfolded region_of_def fst_conv snd_conv]
    then have "fst (region_at x) + snd (region_at x) < 2 ^ 64" using assms(3) by linarith
    ultimately show ?thesis using n(3) x(2) by blast
  qed
qed

text \<open>C33: no two packets of a generic sender application share a byte.  The memory of the
  application is shared out to the senders and their streams; when the streams of all senders are created, the
  sub-blocks of the packets of all chunks of all streams follow each other without overlap inside it.\<close>

theorem packets_never_overlap:
  assumes "\<forall>n \<in> set ns. \<forall>x \<in> set (gsn_streams n). fresh_stream x"
    and "sum_list (map node_length ns) \<le> unat (region_length app_mem)" "unat (addr app_mem) + unat (region_length app_mem) < 2 ^ 64"
    and "list_all2 (\<lambda>n ss. \<exists>l l'. gsn_create_streams rmx (gsn_streams n, l) = (success, ss, l')) (distribute_memory_for_senders app_mem 0 ns) sss"
  shows "placed (region_of app_mem) (concat (map packet_regions (concat sss)))
    \<and> (\<forall>x \<in> set (concat sss). length (all_packets (m_chunks (app_stream x))) = num_packets (m_gen_settings (app_stream x)))"
proof -
  let ?ns = "distribute_memory_for_senders app_mem 0 ns"
  note regions = distributed_streams(1)[OF assms(1-3)] and ready = distributed_streams(2)[OF assms(1-3)]
  have node: "list_all2 cut_into_packets (gsn_streams n) ss"
    if "n \<in> set ?ns" "gsn_create_streams rmx (gsn_streams n, l) = (success, ss, l')" for n ss l l'
    using create_streams_cuts[OF that(2)] ready[OF that(1)] by blast
  have "list_all2 (list_all2 cut_into_packets) (map gsn_streams ?ns) sss"
    unfolding list_all2_map1
  proof (rule list_all2_all_nthI)
    show "length ?ns = length sss" by (rule list_all2_lengthD[OF assms(4)])
    show "list_all2 cut_into_packets (gsn_streams (?ns ! i)) (sss ! i)" if i: "i < length ?ns" for i
    proof -
      obtain l l' where "gsn_create_streams rmx (gsn_streams (?ns ! i), l) = (success, sss ! i, l')"
        using list_all2_nthD[OF assms(4) i] by blast
      then show ?thesis by (rule node[OF nth_mem[OF i]])
    qed
  qed
  then have cut: "list_all2 cut_into_packets (concat (map gsn_streams ?ns)) (concat sss)"
    by (rule concat_transfer[unfolded rel_fun_def, rule_format])
  then have "list_all2 placed (map region_at (concat (map gsn_streams ?ns))) (map packet_regions (concat sss))"
    unfolding list_all2_map1 list_all2_map2 by (rule list_all2_mono) (simp add: cut_into_packets_def)
  then have "placed (region_of app_mem) (concat (map packet_regions (concat sss)))"
    using placed_concat regions by blast
  moreover have "length (all_packets (m_chunks (app_stream x))) = num_packets (m_gen_settings (app_stream x))" if x: "x \<in> set (concat sss)" for x
  proof -
    obtain i where "i < length (concat sss)" "x = concat sss ! i" using x unfolding in_set_conv_nth by blast
    then show ?thesis using list_all2_nthD2[OF cut, of i] by (simp add: cut_into_packets_def)
  qed
  ultimately show ?thesis by blast
qed

section \<open>What the buffers hold\<close>

definition write_all :: "((nat \<times> nat) \<times> u8) list \<Rightarrow> mem \<Rightarrow> mem" where
  "write_all ws = fold (\<lambda>((a, k), v) m. mem_write m a (replicate k v)) ws"

lemma write_all_Nil [simp]: "write_all [] m = m"
  by (simp add: write_all_def)

lemma write_all_Cons [simp]: "write_all (((a, k), v) # ws) m = write_all ws (mem_write m a (replicate k v))"
  by (simp add: write_all_def)

lemma write_all_append: "write_all (ws @ ws') m = write_all ws' (write_all ws m)"
  by (simp add: write_all_def)

lemma write_all_behind:
  "(\<forall>w \<in> set ws. b \<le> fst (fst w)) \<Longrightarrow> a + k \<le> b \<Longrightarrow> mem_read (write_all ws m) a k = mem_read m a k"
proof (induction ws arbitrary: m)
  case (Cons w ws)
  obtain c j v where w: "w = ((c, j), v)" by (metis prod.exhaust)
  show ?case using Cons unfolding w by (simp add: mem_read_write_disjoint)
qed simp

lemma write_all_read:
  assumes "placed buffer (map fst ws)" "((a, k), v) \<in> set ws"
  shows "mem_read (write_all ws m) a k = replicate k v"
  using assms
proof (induction ws arbitrary: m)
  case (Cons w ws)
  have tail: "placed buffer (map fst ws)" "\<forall>w' \<in> set ws. fst (fst w) + snd (fst w) \<le> fst (fst w')"
    using Cons.prems(1) by (auto simp: placed_def)
  show ?case
  proof (cases "((a, k), v) \<in> set ws")
    case True
    obtain c j u where w: "w = ((c, j), u)" by (metis prod.exhaust)
    show ?thesis using Cons.IH[OF tail(1) True] unfolding w by simp
  next
    case False
    then have w: "w = ((a, k), v)" using Cons.prems(2) by simp
    have "mem_read (write_all ws (mem_write m a (replicate k v))) a k = mem_read (mem_write m a (replicate k v)) a k"
      by (rule write_all_behind[where b = "a + k"]) (use tail(2) w in simp_all)
    then show ?thesis unfolding w by (simp add: mem_read_write_same)
  qed
qed simp

definition digit_byte :: "nat \<Rightarrow> u8" where
  "digit_byte i = word_of_nat (48 + i mod 9)"

fun packet_writes :: "nat \<Rightarrow> GenericPacket list \<Rightarrow> ((nat \<times> nat) \<times> u8) list" where
  "packet_writes i [] = []"
| "packet_writes i (p # ps) = map (\<lambda>r. (region_of r, digit_byte i)) p @ packet_writes (i + 1) ps"

lemma packet_writes_regions: "map fst (packet_writes i ps) = map region_of (concat ps)"
  by (induction ps arbitrary: i) (simp_all add: comp_def)

lemma in_packet_writes: "j < length ps \<Longrightarrow> r \<in> set (ps ! j) \<Longrightarrow> (region_of r, digit_byte (i + j)) \<in> set (packet_writes i ps)"
proof (induction ps arbitrary: i j)
  case (Cons p ps)
  then show ?case using Cons.IH[of "j - 1" "i + 1"] by (cases j) auto
qed simp

lemma write_generic_regions_all:
  "utils \<noteq> GpuMemoryUtils \<Longrightarrow> write_generic_regions os utils i p m = write_all (map (\<lambda>r. (region_of r, digit_byte i)) p) m"
  by (induction p arbitrary: m) (simp_all add: memory_set_def region_of_def digit_byte_def)

lemma write_generic_packets_all:
  "utils \<noteq> GpuMemoryUtils \<Longrightarrow> write_generic_packets os utils i ps m = write_all (packet_writes i ps) m"
  by (induction ps arbitrary: i m) (simp_all add: write_generic_regions_all write_all_append)

definition stream_writes :: "AppGenericSendStream \<Rightarrow> ((nat \<times> nat) \<times> u8) list" where
  "stream_writes x = concat (map (\<lambda>c. packet_writes 0 (m_packets c)) (m_chunks (app_stream x)))"

lemma concat_map_map: "concat (map (map f) xss) = map f (concat xss)"
  by (induction xss) simp_all

lemma stream_writes_regions: "map fst (stream_writes x) = packet_regions x"
proof -
  have "map fst (concat (map (\<lambda>c. packet_writes 0 (m_packets c)) cs)) = map region_of (concat (all_packets cs))" for cs
    by (induction cs) (simp_all add: packet_writes_regions all_packets_def)
  then show ?thesis by (simp add: stream_writes_def packet_regions_def)
qed

lemma prepare_buffers_all:
  assumes "\<not> gsn_use_checksum_header n" "gsn_mem_utils n \<noteq> GpuMemoryUtils"
  shows "gsn_prepare_buffers env os n (m, l) = (write_all (concat (map stream_writes (gsn_streams n))) m, l)"
proof -
  have chunks: "fold (gsn_write_buffer env os n) cs (m, l) = (write_all (concat (map (\<lambda>c. packet_writes 0 (m_packets c)) cs)) m, l)" for cs m
    by (induction cs arbitrary: m)
      (use assms in \<open>simp_all add: gsn_write_buffer_def generic_write_buffer_def write_generic_packets_all write_all_append\<close>)
  have "fold (\<lambda>s. fold (gsn_write_buffer env os n) (m_chunks (app_stream s))) xs (m, l) = (write_all (concat (map stream_writes xs)) m, l)" for xs
    by (induction xs arbitrary: m) (simp_all add: chunks stream_writes_def write_all_append)
  then show ?thesis by (simp add: gsn_prepare_buffers_def)
qed

text \<open>The prepared buffers hold what was written for them.  When the packets of a node do
  not overlap, every sub-block of the packet \<open>i\<close> of a chunk holds the digit of \<open>i\<close> in every byte after all buffers of all
  streams were written.\<close>

theorem prepared_buffers_hold_digits:
  assumes "\<not> gsn_use_checksum_header n" "gsn_mem_utils n \<noteq> GpuMemoryUtils" "placed buffer (concat (map packet_regions (gsn_streams n)))"
    and "x \<in> set (gsn_streams n)" "c \<in> set (m_chunks (app_stream x))" "i < length (m_packets c)" "r \<in> set (m_packets c ! i)"
  shows "mem_read (fst (gsn_prepare_buffers env os n (m, l))) (unat (addr r)) (unat (region_length r))
    = replicate (unat (region_length r)) (word_of_nat (48 + i mod 9))"
proof -
  have "map fst (concat (map stream_writes xs)) = concat (map packet_regions xs)" for xs
    by (induction xs) (simp_all add: stream_writes_regions)
  then have placed: "placed buffer (map fst (concat (map stream_writes (gsn_streams n))))" using assms(3) by simp
  have "(region_of r, digit_byte (0 + i)) \<in> set (packet_writes 0 (m_packets c))" by (rule in_packet_writes[OF assms(6,7)])
  then have "((unat (addr r), unat (region_length r)), digit_byte i) \<in> set (concat (map stream_writes (gsn_streams n)))"
    using assms(4,5) by (force simp: stream_writes_def region_of_def)
  from write_all_read[OF placed this] show ?thesis
    by (simp add: prepare_buffers_all[OF assms(1,2)] digit_byte_def)
qed

text \<open>The writer with checksums writes behind the region it is given: a byte that follows the region changes.\<close>

lemma checksum_writes_behind:
  assumes "utils \<noteq> GpuMemoryUtils" "unat (addr iov) + 2 * unat (region_length iov) < 2 ^ 64" "8 \<le> unat (region_length iov)"
    and "j < unat (region_length iov)"
  shows "fst (checksum_write_region env os utils iov (m, l)) (unat (addr iov) + unat (region_length iov) + j) = word_of_nat (fst (ge_rand env l) mod 255)"
proof -
  obtain r l' where r: "ge_rand env l = (r, l')" by fastforce
  have at: "unat (addr iov + region_length iov) = unat (addr iov) + unat (region_length iov)"
    using word_offset[of "addr iov" "unat (region_length iov)"] assms(2) by simp
  have four: "unat (addr iov + 4) = unat (addr iov) + 4"
    using word_offset[of "addr iov" 4] assms(2,3) by simp
  show ?thesis using assms(1,3,4)
    by (simp add: checksum_write_region_def r Let_def memory_set_def memory_copy_def at four mem_write_def)
qed

section \<open>Turns\<close>

text \<open>A library that refuses nothing, a stream that can send, and its state after \<open>k\<close> turns: the next chunk and the
  next flow go round.\<close>

definition accepts_all :: "'l rmx_output_gen \<Rightarrow> bool" where
  "accepts_all rmx \<longleftrightarrow> (\<forall>h l. fst (gen_get_next_chunk rmx h l) = RMX_OK) \<and> (\<forall>h p l. fst (gen_append_packet_to_chunk rmx h p l) = RMX_OK)
     \<and> (\<forall>h t l. fst (gen_commit_chunk rmx h t l) = RMX_OK)"

definition can_send :: "AppGenericSendStream \<Rightarrow> bool" where
  "can_send x \<longleftrightarrow> chunks_ready (app_stream x) \<and> unat (m_next_flow_to_send x) < length (m_send_flows x) \<and> length (m_send_flows x) < 2 ^ 64"

definition after_turns :: "nat \<Rightarrow> AppGenericSendStream \<Rightarrow> AppGenericSendStream" where
  "after_turns k x =
    x\<lparr>app_stream := (app_stream x)\<lparr>m_next_chunk_to_send_index :=
        word_of_nat ((unat (m_next_chunk_to_send_index (app_stream x)) + k) mod length (m_chunks (app_stream x)))\<rparr>,
      m_next_flow_to_send := word_of_nat ((unat (m_next_flow_to_send x) + k) mod length (m_send_flows x))\<rparr>"

text \<open>The calls of one turn: take the next chunk, address it to the next flow when there are several, register its
  packets, commit it.\<close>

definition turn_calls :: "'l generic_env \<Rightarrow> AppGenericSendStream \<Rightarrow> 'l \<Rightarrow> 'l" where
  "turn_calls env x l =
    (let rmx = ge_rmx env;
         c = m_chunks (app_stream x) ! unat (m_next_chunk_to_send_index (app_stream x));
         flow = m_send_flows x ! unat (m_next_flow_to_send x);
         l = snd (gen_get_next_chunk rmx (gen_chunk_handle c) l);
         l = (if length (m_send_flows x) > 1
              then gen_set_chunk_remote_addr rmx (gen_chunk_handle c) (ge_socket_address env (flow_ip flow) (flow_port flow)) l else l);
         l = fold (\<lambda>p l. snd (gen_append_packet_to_chunk rmx (gen_chunk_handle c) p l)) (m_packets c) l
     in snd (gen_commit_chunk rmx (gen_chunk_handle c) 0 l))"

lemma after_turns_flows [simp]: "m_send_flows (after_turns k x) = m_send_flows x"
  by (simp add: after_turns_def)

lemma retry_while_first: "attempt s = Some (status, s') \<Longrightarrow> status \<noteq> again \<Longrightarrow> retry_while again attempt n s = Some (status, s')"
  by (subst retry_while.simps) (simp split: nat.splits)

lemma append_packets_accepted:
  assumes "accepts_all rmx"
  shows "append_packets rmx h ps l = (success, fold (\<lambda>p l. snd (gen_append_packet_to_chunk rmx h p l)) ps l)"
proof (induction ps arbitrary: l)
  case (Cons p ps)
  obtain l1 where "gen_append_packet_to_chunk rmx h p l = (RMX_OK, l1)" using assms by (metis accepts_all_def prod.collapse)
  then show ?case using Cons by simp
qed simp

lemma commit_accepted:
  assumes "accepts_all (ge_rmx env)"
  shows "commit_until_accepted env sleep_us c l = Some (success, snd (gen_commit_chunk (ge_rmx env) (gen_chunk_handle c) 0 l))"
proof -
  have "gen_commit_chunk (ge_rmx env) (gen_chunk_handle c) 0 l = (RMX_OK, snd (gen_commit_chunk (ge_rmx env) (gen_chunk_handle c) 0 l))"
    using assms by (metis accepts_all_def prod.collapse)
  then have "gen_stream_commit_chunk (ge_rmx env) c 0 l = (success, snd (gen_commit_chunk (ge_rmx env) (gen_chunk_handle c) 0 l))"
    by (metis apfst_conv commit_status_def gen_chunk_commit_def gen_stream_commit_chunk_def rmx_status.case(1))
  then have "gen_blocking_commit_chunk (ge_rmx env) c 0 BLOCKING_COMMIT_RETRIES l
      = Some (success, snd (gen_commit_chunk (ge_rmx env) (gen_chunk_handle c) 0 l))"
    unfolding gen_blocking_commit_chunk_def by (intro retry_while_first) simp_all
  then show ?thesis by (subst commit_until_accepted.simps) simp
qed

lemma next_index_word:
  fixes i :: u64
  assumes "unat i < n" "n < 2 ^ 64"
  shows "(i + 1) mod word_of_nat n = word_of_nat ((unat i + 1) mod n)"
proof -
  have "unat (i + 1) = unat i + 1" using assms by (simp add: unat_Suc_no_wrap)
  moreover have "unat (word_of_nat n :: u64) = n" using assms(2) by (simp add: unat_word_of_nat)
  ultimately have "unat ((i + 1) mod word_of_nat n) = (unat i + 1) mod n" by (simp add: unat_mod_word)
  then show ?thesis by (metis of_nat_unat ucast_id)
qed

lemma stream_turn_accepted:
  assumes "accepts_all (ge_rmx env)" "i < length ss" "can_send (ss ! i)" "flows_in_stream n i = m_send_flows (ss ! i)"
  shows "stream_turn env n i (ss, l) = Some (success, False, i + 1, ss[i := after_turns 1 (ss ! i)], turn_calls env (ss ! i) l)"
proof -
  let ?x = "ss ! i" and ?rmx = "ge_rmx env"
  let ?g = "app_stream ?x"
  let ?c = "m_chunks ?g ! unat (m_next_chunk_to_send_index ?g)"
  have ready: "unat (m_next_chunk_to_send_index ?g) < length (m_chunks ?g)" "m_gen_num_of_chunks ?g \<noteq> 0"
    "length (m_chunks ?g) = unat (m_gen_num_of_chunks ?g)" "m_send_flows ?x \<noteq> []"
    and flow: "unat (m_next_flow_to_send ?x) < length (m_send_flows ?x)" "length (m_send_flows ?x) < 2 ^ 64"
    using assms(3) by (auto simp: can_send_def chunks_ready_def word_less_nat_alt)
  let ?l1 = "snd (gen_get_next_chunk ?rmx (gen_chunk_handle ?c) l)"
  obtain l1 where "gen_get_next_chunk ?rmx (gen_chunk_handle ?c) l = (RMX_OK, l1)"
    using assms(1) by (metis accepts_all_def prod.collapse)
  then have "gen_chunk_get_next ?rmx ?c l = (success, ?l1)" by (simp add: gen_chunk_get_next_def next_chunk_status_def)
  moreover have "(m_next_chunk_to_send_index ?g + 1) mod m_gen_num_of_chunks ?g
      = word_of_nat ((unat (m_next_chunk_to_send_index ?g) + 1) mod length (m_chunks ?g))"
    using next_index_word[OF ready(1)] ready(3) unat_u64_bound[of "m_gen_num_of_chunks ?g"] by simp
  ultimately have get: "gen_stream_get_next_chunk ?rmx (?g, l)
      = Some (success, ?g\<lparr>m_next_chunk_to_send_index := word_of_nat ((unat (m_next_chunk_to_send_index ?g) + 1) mod length (m_chunks ?g))\<rparr>, ?l1)"
    using ready(1,2) by (simp add: gen_stream_get_next_chunk_def)
  let ?f = "m_send_flows ?x ! unat (m_next_flow_to_send ?x)"
  have next_flow: "get_next_flow_to_send ?x = Some ?f" using flow(1) by (simp add: get_next_flow_to_send_def)
  have set_flow: "set_next_flow_to_send (?x\<lparr>app_stream := g\<rparr>) = Some (?x\<lparr>app_stream := g,
      m_next_flow_to_send := word_of_nat ((unat (m_next_flow_to_send ?x) + 1) mod length (m_send_flows ?x))\<rparr>)" for g
    using ready(4) next_index_word[OF flow] by (simp add: set_next_flow_to_send_def)
  show ?thesis
    using assms(2)
    by (simp add: stream_turn_def get assms(4) next_flow set_dest_address_def apply_packets_layout_def
        append_packets_accepted[OF assms(1)] commit_accepted[OF assms(1)] set_flow after_turns_def turn_calls_def Let_def)
qed

lemma streams_pass_accepted:
  assumes "accepts_all (ge_rmx env)" "i < length ss" "\<forall>x \<in> set (drop i ss). can_send x"
    and "\<forall>j < length ss. flows_in_stream n j = m_send_flows (ss ! j)"
  shows "streams_pass env n i (ss, l)
    = Some (success, take i ss @ map (after_turns 1) (drop i ss), fold (turn_calls env) (drop i ss) l)"
  using assms(2-)
proof (induction "length ss - i" arbitrary: i ss l)
  case (Suc k)
  have x: "drop i ss = ss ! i # drop (i + 1) ss" using Suc.prems(1) by (simp add: Cons_nth_drop_Suc)
  let ?ss = "ss[i := after_turns 1 (ss ! i)]"
  have "can_send (ss ! i)" using Suc.prems(2) unfolding x by simp
  then have turn: "stream_turn env n i (ss, l) = Some (success, False, i + 1, ?ss, turn_calls env (ss ! i) l)"
    using stream_turn_accepted[OF assms(1)] Suc.prems(1,3) by blast
  show ?case
  proof (cases "i + 1 < length ss")
    case True
    have rest: "\<forall>x \<in> set (drop (i + 1) ?ss). can_send x" using Suc.prems(2) unfolding x by simp
    have flows: "\<forall>j < length ?ss. flows_in_stream n j = m_send_flows (?ss ! j)"
      using Suc.prems(1,3) by (simp add: nth_list_update)
    have "streams_pass env n (i + 1) (?ss, turn_calls env (ss ! i) l)
        = Some (success, take (i + 1) ?ss @ map (after_turns 1) (drop (i + 1) ?ss), fold (turn_calls env) (drop (i + 1) ?ss) (turn_calls env (ss ! i) l))"
      by (rule Suc.hyps(1)) (use Suc.hyps(2) True rest flows in simp_all)
    moreover have "take (i + 1) ?ss = take i ss @ [after_turns 1 (ss ! i)]"
      using Suc.prems(1) by (simp add: take_Suc_conv_app_nth)
    ultimately show ?thesis using True turn x by (subst streams_pass.simps) simp
  next
    case False
    then have "length ss = i + 1" using Suc.prems(1) by simp
    moreover from this have "?ss = take i ss @ [after_turns 1 (ss ! i)]"
      using Suc.prems(1) by (metis take_Suc_conv_app_nth take_all_iff length_list_update nth_list_update_eq take_update_cancel le_refl Suc_eq_plus1)
    ultimately show ?thesis using False turn x by (subst streams_pass.simps) simp
  qed
qed simp

lemma unat_mod_u64:
  assumes "0 < b" "b < 2 ^ 64"
  shows "unat (word_of_nat (a mod b) :: u64) = a mod b"
proof -
  have "a mod b < 2 ^ 64" using mod_less_divisor[OF assms(1), of a] assms(2) by linarith
  then show ?thesis by (simp add: unat_word_of_nat)
qed

lemma after_turns_can_send: "can_send x \<Longrightarrow> can_send (after_turns k x)"
proof -
  assume x: "can_send x"
  have pos: "0 < length (m_chunks (app_stream x))" "length (m_chunks (app_stream x)) < 2 ^ 64" "0 < length (m_send_flows x)" "length (m_send_flows x) < 2 ^ 64"
    using x unat_u64_bound[of "m_gen_num_of_chunks (app_stream x)"] by (auto simp: can_send_def chunks_ready_def unat_gt_0)
  then show ?thesis using x by (auto simp: can_send_def chunks_ready_def after_turns_def word_less_nat_alt unat_mod_u64)
qed

lemma after_turns_add:
  assumes "can_send x"
  shows "after_turns j (after_turns k x) = after_turns (k + j) x"
proof -
  have pos: "0 < length (m_chunks (app_stream x))" "length (m_chunks (app_stream x)) < 2 ^ 64" "0 < length (m_send_flows x)" "length (m_send_flows x) < 2 ^ 64"
    using assms unat_u64_bound[of "m_gen_num_of_chunks (app_stream x)"] by (auto simp: can_send_def chunks_ready_def unat_gt_0)
  then show ?thesis by (simp add: after_turns_def mod_add_left_eq add.assoc unat_mod_u64)
qed

lemma after_turns_0: "can_send x \<Longrightarrow> after_turns 0 x = x"
  by (simp add: after_turns_def can_send_def chunks_ready_def word_less_nat_alt)

text \<open>C34: the streams of a node take turns.  When the library refuses nothing, every pass of
  the loop over the chunks commits one chunk of each stream in the order of the streams, and after \<open>k\<close> passes the
  streams went on by \<open>k\<close> chunks and \<open>k\<close> flows, both cyclically: the passes make exactly the calls of the turns
  \<open>0\<close> to \<open>k - 1\<close>.\<close>

theorem streams_take_turns:
  assumes "accepts_all (ge_rmx env)" "ss \<noteq> []" "\<forall>x \<in> set ss. can_send x" "gsn_flows_in_stream n = map m_send_flows ss"
  shows "chunk_passes env n k (rc, ss, l)
    = Some (if k = 0 then rc else success, map (after_turns k) ss,
            fold (\<lambda>p. fold (turn_calls env) (map (after_turns p) ss)) [0..<k] l)"
proof -
  have step: "streams_pass env n 0 (map (after_turns p) ss, l)
      = Some (success, map (after_turns (Suc p)) ss, fold (turn_calls env) (map (after_turns p) ss) l)" for p l
  proof -
    have "\<forall>j < length (map (after_turns p) ss). flows_in_stream n j = m_send_flows (map (after_turns p) ss ! j)"
      using assms(4) by (simp add: flows_in_stream_def after_turns_def)
    then have "streams_pass env n 0 (map (after_turns p) ss, l)
        = Some (success, map (after_turns 1 \<circ> after_turns p) ss, fold (turn_calls env) (map (after_turns p) ss) l)"
      using streams_pass_accepted[OF assms(1), of 0 "map (after_turns p) ss" n l] assms(2,3) after_turns_can_send by fastforce
    moreover have "map (after_turns 1 \<circ> after_turns p) ss = map (after_turns (Suc p)) ss"
      using assms(3) after_turns_add by (intro map_cong) auto
    ultimately show ?thesis by simp
  qed
  have passes: "chunk_passes env n k (rc, map (after_turns p) ss, l)
    = Some (if k = 0 then rc else success, map (after_turns (p + k)) ss,
            fold (\<lambda>p. fold (turn_calls env) (map (after_turns p) ss)) [p..<p + k] l)" for p
  proof (induction k arbitrary: p rc l)
    case (Suc k)
    have "[p..<p + Suc k] = p # [Suc p..<Suc p + k]" by (simp add: upt_conv_Cons del: upt_Suc)
    then show ?case using Suc.IH[of success "Suc p"] step by (simp del: upt_Suc)
  qed simp
  have "map (after_turns 0) ss = ss" using assms(3) after_turns_0 by (simp add: map_idI)
  then show ?thesis using passes[of 0] by simp
qed

text \<open>A pass that fails is forgotten when a later pass of the round succeeds.\<close>

lemma failed_pass_forgotten:
  assumes "streams_pass env n 0 (ss, l) = Some (failure, ss', l')" "streams_pass env n 0 (ss', l') = Some (success, ss'', l'')"
  shows "chunk_passes env n 2 (rc, ss, l) = Some (success, ss'', l'')"
  using assms by (simp add: numeral_2_eq_2)

section \<open>Witnesses\<close>

definition accepting_library :: "nat rmx_output_gen" where
  "accepting_library = example_gen_library\<lparr>gen_get_next_chunk := \<lambda>_ l. (RMX_OK, l + 1)\<rparr>"

definition example_generic_env :: "nat generic_env" where
  "example_generic_env = \<lparr>ge_rmx = accepting_library, ge_socket_address = (\<lambda>_ port. unat port), ge_sleep_for_us = (\<lambda>_ l. l),
     ge_received_signal = (\<lambda>_. -1), ge_rand = (\<lambda>l. (l, l))\<rparr>"

lemma example_generic_flows:
  "generic_sender_flows example_app_settings
    = Some (Inr (map (\<lambda>i. generic_sender_flow example_app_settings (''234.5.6.'', 7) (word_of_nat i)) [0..<5]))"
  by (simp add: generic_sender_flows_def plan_flows_def example_parts) (simp add: example_app_settings_def)

theorem senders_share_flows_witness:
  "\<exists>ns. create_senders example_generic_env example_app_settings NewMemoryUtils = Some (Inr ns) \<and> length ns = 2
    \<and> length (concat (map gsn_streams ns)) = 3 \<and> length (concat (map m_send_flows (concat (map gsn_streams ns)))) = 5"
proof -
  have "app_threads_cores example_app_settings \<noteq> []" "0 < num_of_threads example_app_settings"
    "unat (num_of_threads example_app_settings) \<le> unat (num_of_total_streams example_app_settings)"
    "unat (num_of_total_streams example_app_settings) \<le> unat (num_of_total_flows example_app_settings)"
    "unat (num_of_threads example_app_settings) = 2" "unat (num_of_total_streams example_app_settings) = 3"
    by (simp_all add: example_app_settings_def AppSettings_init_default_values_def)
  then show ?thesis
    using senders_share_flows[OF example_generic_flows, of example_generic_env NewMemoryUtils] by fastforce
qed

definition example_app_stream :: AppGenericSendStream where
  "example_app_stream = AppGenericSendStream_new example_gen_settings [\<lparr>flow_id = 0, flow_ip = [], flow_port = 1\<rparr>, \<lparr>flow_id = 1, flow_ip = [], flow_port = 2\<rparr>]"

definition example_node :: GenericSenderIONode where
  "example_node = (GenericSenderIONode_new example_app_settings 0 1 (-1) NewMemoryUtils)
     \<lparr>gsn_streams := [example_app_stream], gsn_flows_in_stream := [m_send_flows example_app_stream]\<rparr>"

lemma example_stream_length: "get_memory_length (GenericSendStream_new example_gen_settings) = 240"
  by (simp add: get_memory_length_def get_header_memory_length_def get_payload_memory_length_def GenericSendStream_new_def
      gen_initialize_memory_layout_def example_gen_settings_def)

lemma example_creates: "\<exists>x l'. gsn_create_streams accepting_library ([example_app_stream\<lparr>app_mem_region := r\<rparr>], 0) = (success, [x], l')
  \<and> m_gen_settings (app_stream x) = example_gen_settings"
proof -
  obtain st g l' where g: "gen_stream_create accepting_library (GenericSendStream_new example_gen_settings, 0) = (st, g, l')" by (metis prod_cases3)
  have st: "st = success" using g by (simp add: gen_stream_create_def accepting_library_def example_gen_library_def)
  obtain i where i: "g = created_stream example_gen_settings i" using gen_stream_create_new(2)[OF g st] by blast
  obtain c where c: "initialize_chunks accepting_library r (g, l') = c" by simp
  have "m_gen_settings (fst (snd c)) = example_gen_settings"
    unfolding c[symmetric] i by (simp add: initialize_chunks_def place_chunks_settings)
  then show ?thesis
    using g c st by (cases c) (auto simp: app_create_stream_def example_app_stream_def AppGenericSendStream_new_def)
qed

theorem packets_never_overlap_witness:
  "\<exists>x. placed (4096, 240) (packet_regions x) \<and> length (all_packets (m_chunks (app_stream x))) = 2"
proof -
  let ?app = "\<lparr>addr = 4096, region_length = 240, mkey = 7\<rparr> :: rmx_mem_region"
  have dist: "distribute_memory_for_senders ?app 0 [example_node]
      = [snd (gsn_initialize_memory 4096 7 example_node)]" "gsn_streams (snd (gsn_initialize_memory 4096 7 example_node))
      = [example_app_stream\<lparr>app_mem_region := \<lparr>addr = 4096, region_length = 240, mkey = 7\<rparr>\<rparr>]"
    by (simp_all add: gsn_initialize_memory_def distribute_memory_for_streams_def example_node_def Let_def assign_mem_region_def
        example_app_stream_def AppGenericSendStream_new_def example_stream_length)
  have n: "num_packets example_gen_settings = 2" "packet_bytes example_gen_settings = 120"
    by (simp_all add: num_packets_def packet_bytes_def example_gen_settings_def)
  have fresh: "\<forall>n \<in> set [example_node]. \<forall>x \<in> set (gsn_streams n). fresh_stream x"
    using n by (auto simp: example_node_def fresh_stream_def example_app_stream_def AppGenericSendStream_new_def)
  have fits: "sum_list (map node_length [example_node]) \<le> unat (region_length ?app)" "unat (addr ?app) + unat (region_length ?app) < 2 ^ 64"
    by (simp_all add: node_length_def example_node_def stream_length_def example_app_stream_def AppGenericSendStream_new_def example_stream_length)
  obtain x l' where x: "gsn_create_streams accepting_library ([example_app_stream\<lparr>app_mem_region := ?app\<rparr>], 0) = (success, [x], l')"
    "m_gen_settings (app_stream x) = example_gen_settings"
    using example_creates by blast
  have "list_all2 (\<lambda>n ss. \<exists>l l'. gsn_create_streams accepting_library (gsn_streams n, l) = (success, ss, l'))
      (distribute_memory_for_senders ?app 0 [example_node]) [[x]]"
    using x(1) unfolding dist(1) by (auto simp: dist(2))
  from packets_never_overlap[OF fresh fits this] show ?thesis
    using x(2) n(1) by (auto simp: region_of_def)
qed

definition example_packets :: "GenericPacket list" where
  "example_packets = [[\<lparr>addr = 16, region_length = 4, mkey = 7\<rparr>], [\<lparr>addr = 20, region_length = 4, mkey = 7\<rparr>]]"

definition example_ready_stream :: AppGenericSendStream where
  "example_ready_stream = example_app_stream\<lparr>app_stream := (created_stream example_gen_settings 1)\<lparr>m_chunks :=
     [\<lparr>gen_chunk_handle = 0, gen_chunk_stream_id = 1, m_packets = example_packets\<rparr>,
      \<lparr>gen_chunk_handle = 1, gen_chunk_stream_id = 1, m_packets = []\<rparr>]\<rparr>\<rparr>"

theorem prepared_buffers_hold_digits_witness:
  "mem_read (fst (gsn_prepare_buffers example_generic_env example_os (example_node\<lparr>gsn_streams := [example_ready_stream]\<rparr>) (\<lambda>_. 0, 0))) 20 4
    = replicate 4 49"
proof -
  let ?n = "example_node\<lparr>gsn_streams := [example_ready_stream]\<rparr>"
  have "placed (16, 8) (concat (map packet_regions (gsn_streams ?n)))"
    by (simp add: packet_regions_def example_ready_stream_def all_packets_def example_packets_def placed_def region_of_def)
  then show ?thesis
    using prepared_buffers_hold_digits[where n = ?n and buffer = "(16, 8)" and x = example_ready_stream and i = 1
        and c = "\<lparr>gen_chunk_handle = 0, gen_chunk_stream_id = 1, m_packets = example_packets\<rparr>"
        and r = "\<lparr>addr = 20, region_length = 4, mkey = 7\<rparr>" and env = example_generic_env and os = example_os and m = "\<lambda>_. 0" and l = 0]
    by (simp add: example_node_def GenericSenderIONode_new_def example_app_settings_def AppSettings_init_default_values_def
        example_ready_stream_def example_packets_def)
qed

theorem streams_take_turns_witness:
  "\<exists>l'. chunk_passes example_generic_env example_node 3 (success, [example_ready_stream], 0)
    = Some (success, [after_turns 3 example_ready_stream], l')"
proof -
  have "accepts_all (ge_rmx example_generic_env)"
    by (simp add: accepts_all_def example_generic_env_def accepting_library_def example_gen_library_def)
  moreover have "\<forall>x \<in> set [example_ready_stream]. can_send x"
    by (simp add: can_send_def chunks_ready_def example_ready_stream_def example_app_stream_def AppGenericSendStream_new_def
        example_gen_settings_def)
  moreover have "gsn_flows_in_stream example_node = map m_send_flows [example_ready_stream]"
    by (simp add: example_node_def example_ready_stream_def)
  ultimately show ?thesis
    using streams_take_turns[of example_generic_env "[example_ready_stream]" example_node 3 success 0] by simp
qed

end
