(* ===== verification/Media_Sender.thy ===== *)
theory Media_Sender
  imports Memory_Layout Frame_Provider Rtp_Send_Stream Send_Stream App_Flows
begin

text \<open>
  The media sender: the node \<^verbatim>\<open>io_node/senders/media_sender_io_node.cpp\<close>, whose streams send the frames of a provider
  or the frames of a file that is loaded into the memory blocks before, and the part of
  \<^verbatim>\<open>apps/rmax_xstream_media_sender\<close> that creates the nodes and their providers.  The Rivermax calls, the clock and
  sleeping act on a library state, as in theory \<open>Send_Stream\<close>; thread priorities and printing are left out.  The
  lemmas show what the memory blocks hold, that the memory of no two blocks overlaps, how the session description is
  edited, and which frame and which time stamp the chunks get.
\<close>

section \<open>The environment\<close>

text \<open>Besides the Rivermax calls: the address of a socket, the size of a cache line, the clock, sleeping, the pending
  signal, the files and the virtual call of the frame providers.  Here a provider is used by one thread: one that
  waits for a frame waits forever.\<close>

record ('p, 'l) media_env =
  me_rmx :: "'l rmx_output_media"
  me_socket_address :: "string \<Rightarrow> u16 \<Rightarrow> nat"
  me_mkey_invalid :: u32
  me_cache_line_size :: u64
  me_time_now_ns :: "'l \<Rightarrow> u64 \<times> 'l"
  me_sleep_for_ns :: "u64 \<Rightarrow> 'l \<Rightarrow> 'l"
  me_received_signal :: "'l \<Rightarrow> int"
  me_file :: "string \<Rightarrow> input_file option"
  me_get_frame_blocking :: "'p \<Rightarrow> (MediaFrame option \<times> 'p) outcome"

section \<open>The session description\<close>

text \<open>\<open>std::string::find\<close> from a position, and the two search and replace loops.  A loop that finds its own
  replacement again need not end.\<close>

definition str_find :: "string \<Rightarrow> string \<Rightarrow> nat \<Rightarrow> nat option" where
  "str_find pat s n = find (\<lambda>i. take (length pat) (drop i s) = pat) [n..<Suc (length s)]"

partial_function (option) replace_between :: "string \<Rightarrow> string \<Rightarrow> string \<Rightarrow> string \<Rightarrow> string \<Rightarrow> nat \<Rightarrow> string option" where
  "replace_between outer_prefix inner_prefix new_str suf source_str n =
    (case str_find outer_prefix source_str n of
       None \<Rightarrow> Some source_str
     | Some n \<Rightarrow>
       (case str_find inner_prefix source_str (n + length outer_prefix) of
          None \<Rightarrow> Some source_str
        | Some n \<Rightarrow>
          (case str_find suf source_str (n + length inner_prefix) of
             None \<Rightarrow> Some source_str
           | Some n2 \<Rightarrow>
               replace_between outer_prefix inner_prefix new_str suf
                 (take (n + length inner_prefix) source_str @ new_str @ drop n2 source_str) (n + length inner_prefix))))"

definition replace_all :: "string \<Rightarrow> string \<Rightarrow> string \<Rightarrow> string \<Rightarrow> string option" where
  "replace_all prefix_str new_str suffix_str source_str = replace_between prefix_str [] new_str suffix_str source_str 0"

section \<open>The node\<close>

text \<open>A pointer that is not set is \<open>None\<close>.  The stream is an object of two classes, the sending class and its base.\<close>

record 'p MediaStreamPack =
  pack_stream :: "(RtpVideoSendStream \<times> MediaSendStream) option"
  pack_chunk_handler :: "MediaChunk option"
  pack_mem_blockset :: "MediaStreamMemBlockset option"
  pack_flows :: "TwoTupleFlow list"
  pack_buffer_writer :: "Writer option"
  pack_frame_provider :: "'p option"

definition MediaStreamPack_new :: "'p MediaStreamPack" where
  "MediaStreamPack_new = \<lparr>pack_stream = None, pack_chunk_handler = None, pack_mem_blockset = None, pack_flows = [],
     pack_buffer_writer = None, pack_frame_provider = None\<rparr>"

record 'p MediaSenderIONode =
  msn_stream_packs :: "'p MediaStreamPack list"
  msn_media_settings :: MediaSettings
  msn_video_file :: string
  msn_index :: u64
  msn_network_address :: FourTupleFlow
  msn_sleep_between_operations :: bool
  msn_print_parameters :: bool
  msn_cpu_core_affinity :: int
  msn_hw_queue_full_sleep_us :: u32
  msn_memory_utils :: IONodeMemoryUtils
  msn_num_of_memory_blocks :: u64
  msn_num_of_chunks_in_mem_block :: u64
  msn_packet_header_size :: u16
  msn_packet_payload_size :: u16
  msn_num_of_packets_in_chunk :: u64
  msn_num_of_packets_in_mem_block :: u64
  msn_app_header_stride_size :: u64
  msn_data_stride_size :: u64
  msn_header_total_memory_size :: u64
  msn_payload_total_memory_size :: u64
  msn_block_payload_memory_size :: u64
  msn_block_header_memory_size :: u64
  msn_mem_block_header_sizes :: "u16 list"
  msn_mem_block_payload_sizes :: "u16 list"
  msn_dscp :: u8
  msn_pcp :: u8
  msn_ecn :: u8
  msn_gpu_enabled :: bool
  msn_dynamic_video_file_load :: bool

definition DEFAULT_NUMBER_OF_MEM_BLOCKS :: u64 where "DEFAULT_NUMBER_OF_MEM_BLOCKS = 10"

definition msn_is_hds_on :: "'p MediaSenderIONode \<Rightarrow> bool" where
  "msn_is_hds_on n \<longleftrightarrow> msn_packet_header_size n \<noteq> 0"

definition loads_file :: "'p MediaSenderIONode \<Rightarrow> bool" where
  "loads_file n \<longleftrightarrow> msn_video_file n \<noteq> [] \<and> \<not> msn_dynamic_video_file_load n"

section \<open>The memory of the node\<close>

definition determine_memory_layout_for_single_block :: "os_memory \<Rightarrow> 'p MediaSenderIONode \<Rightarrow> (u64 \<times> u64) option" where
  "determine_memory_layout_for_single_block os n =
    (let num_of_strides_per_mem_block = msn_num_of_packets_in_chunk n * msn_num_of_chunks_in_mem_block n;
         payload_memory_size = msn_data_stride_size n * num_of_strides_per_mem_block;
         header_memory_size = (if msn_is_hds_on n then msn_app_header_stride_size n * num_of_strides_per_mem_block else 0)
     in if msn_gpu_enabled n
        then map_option (Pair header_memory_size) (align_length os (utils_payload_allocator (msn_memory_utils n)) payload_memory_size)
        else Some (header_memory_size, payload_memory_size))"

text \<open>The bytes of the frames of a memory block: with split headers the first product has 32 bits.\<close>

definition mem_block_payload_bytes :: "'p MediaSenderIONode \<Rightarrow> u64" where
  "mem_block_payload_bytes n =
    (let ms = msn_media_settings n
     in if msn_is_hds_on n
        then ucast ((ucast (msn_packet_payload_size n) :: u32) * packets_in_frame_field ms) * frames_fields_in_mem_block ms
        else (ucast (msn_packet_payload_size n) - protocol_header_size ms) * ucast (packets_in_frame_field ms)
               * frames_fields_in_mem_block ms)"

text \<open>The status and the number, which is also set when the file is missing.\<close>

definition get_number_of_mem_blocks_per_file :: "(string \<Rightarrow> input_file option) \<Rightarrow> 'p MediaSenderIONode \<Rightarrow> (ReturnStatus \<times> u64) option" where
  "get_number_of_mem_blocks_per_file files n =
    (let input_file = ifstream_open (files (msn_video_file n)) ifstream_new
     in if \<not> is_open input_file then Some (failure, 0)
        else
          let file_size = word_of_nat (ifstream_size input_file)
          in if mem_block_payload_bytes n = 0 then None else Some (success, file_size div mem_block_payload_bytes n))"

definition msn_initialize_memory_layout ::
  "os_memory \<Rightarrow> (string \<Rightarrow> input_file option) \<Rightarrow> 'p MediaSenderIONode \<Rightarrow> (ReturnStatus \<times> 'p MediaSenderIONode) option" where
  "msn_initialize_memory_layout os files n = do {
     (header, payload) \<leftarrow> determine_memory_layout_for_single_block os n;
     let n = n\<lparr>msn_block_header_memory_size := header, msn_block_payload_memory_size := payload\<rparr>;
     (rc, blocks) \<leftarrow> (if loads_file n then get_number_of_mem_blocks_per_file files n else Some (success, msn_num_of_memory_blocks n));
     let n = n\<lparr>msn_num_of_memory_blocks := blocks\<rparr>;
     Some (if rc \<noteq> success then (rc, n)
           else (success, n\<lparr>
             msn_header_total_memory_size := msn_block_header_memory_size n * msn_num_of_memory_blocks n * word_of_nat (length (msn_stream_packs n)),
             msn_payload_total_memory_size := msn_block_payload_memory_size n * msn_num_of_memory_blocks n * word_of_nat (length (msn_stream_packs n))\<rparr>)) }"

text \<open>The members as the initialisers of the constructor and its first lines set them, and the constructor.\<close>

definition sender_members ::
  "('p, 'l) media_env \<Rightarrow> FourTupleFlow \<Rightarrow> AppSettings \<Rightarrow> u64 \<Rightarrow> nat \<Rightarrow> int \<Rightarrow> IONodeMemoryUtils \<Rightarrow> 'p MediaSenderIONode" where
  "sender_members env network_address s index num_of_streams cpu_core_affinity memory_utils =
     \<lparr>msn_stream_packs = replicate num_of_streams MediaStreamPack_new, msn_media_settings = media s, msn_video_file = video_file s,
      msn_index = index, msn_network_address = network_address, msn_sleep_between_operations = sleep_between_operations s,
      msn_print_parameters = print_parameters s, msn_cpu_core_affinity = cpu_core_affinity,
      msn_hw_queue_full_sleep_us = hw_queue_full_sleep_us s, msn_memory_utils = memory_utils,
      msn_num_of_memory_blocks = DEFAULT_NUMBER_OF_MEM_BLOCKS, msn_num_of_chunks_in_mem_block = num_of_chunks_in_mem_block s,
      msn_packet_header_size = packet_app_header_size s, msn_packet_payload_size = packet_payload_size s,
      msn_num_of_packets_in_chunk = num_of_packets_in_chunk s, msn_num_of_packets_in_mem_block = num_of_packets_in_mem_block s,
      msn_app_header_stride_size = align_up_pow2 (ucast (packet_app_header_size s)) (me_cache_line_size env),
      msn_data_stride_size = align_up_pow2 (ucast (packet_payload_size s)) (me_cache_line_size env),
      msn_header_total_memory_size = 0, msn_payload_total_memory_size = 0, msn_block_payload_memory_size = 0,
      msn_block_header_memory_size = 0, msn_mem_block_header_sizes = [], msn_mem_block_payload_sizes = [],
      msn_dscp = 0, msn_pcp = 0, msn_ecn = 0, msn_gpu_enabled = (app_gpu_id s \<noteq> INVALID_GPU_ID),
      msn_dynamic_video_file_load = dynamic_video_file_load s\<rparr>"

definition MediaSenderIONode_new ::
  "('p, 'l) media_env \<Rightarrow> os_memory \<Rightarrow> FourTupleFlow \<Rightarrow> AppSettings \<Rightarrow> u64 \<Rightarrow> nat \<Rightarrow> int \<Rightarrow> IONodeMemoryUtils
    \<Rightarrow> 'p MediaSenderIONode option" where
  "MediaSenderIONode_new env os network_address s index num_of_streams cpu_core_affinity memory_utils =
    map_option snd (msn_initialize_memory_layout os (me_file env)
      (sender_members env network_address s index num_of_streams cpu_core_affinity memory_utils))"

definition msn_determine_memory_layout :: "'p MediaSenderIONode \<Rightarrow> ReturnStatus \<times> u64 \<times> u64" where
  "msn_determine_memory_layout n =
    (if msn_payload_total_memory_size n = 0 then (failure, 0, 0)
     else (success, msn_header_total_memory_size n, msn_payload_total_memory_size n))"

definition is_internal_allocation_requested :: "HeaderPayloadMemoryLayout \<Rightarrow> bool" where
  "is_internal_allocation_requested l \<longleftrightarrow> header_memory_size l = 0 \<and> payload_memory_size l = 0"

definition msn_validate_memory_layout :: "HeaderPayloadMemoryLayout \<Rightarrow> 'p MediaSenderIONode \<Rightarrow> ReturnStatus" where
  "msn_validate_memory_layout l n =
    (if msn_payload_total_memory_size n = 0 then failure
     else if msn_header_total_memory_size n > 0 \<and> header_memory_ptr l = 0 \<or> payload_memory_ptr l = 0 then failure
     else if header_memory_size l < msn_header_total_memory_size n \<or> payload_memory_size l < msn_payload_total_memory_size n then failure
     else success)"

text \<open>The memory key of a block; \<open>keys[0]\<close> of an empty vector is undefined.\<close>

definition block_key :: "u32 \<Rightarrow> bool \<Rightarrow> u32 list \<Rightarrow> u32 option" where
  "block_key mkey_invalid register keys = (if register then (case keys of [] \<Rightarrow> None | key # _ \<Rightarrow> Some key) else Some mkey_invalid)"

definition set_block_sizes :: "'p MediaSenderIONode \<Rightarrow> nat \<Rightarrow> MediaStreamMemBlockset \<Rightarrow> MediaStreamMemBlockset option" where
  "set_block_sizes n i b = map_option snd (set_block_layout i (msn_mem_block_payload_sizes n)
     (if msn_is_hds_on n then Some (msn_mem_block_header_sizes n) else None) b)"

definition set_block :: "u32 \<Rightarrow> 'p MediaSenderIONode \<Rightarrow> HeaderPayloadMemoryLayout \<Rightarrow> nat \<Rightarrow> u64 \<Rightarrow> u64
    \<Rightarrow> MediaStreamMemBlockset \<Rightarrow> MediaStreamMemBlockset option" where
  "set_block mkey_invalid n l i header_ptr payload_ptr b =
    (if msn_is_hds_on n then do {
       header_key \<leftarrow> block_key mkey_invalid (register_memory l) (header_memory_keys l);
       b \<leftarrow> set_block_memory i 0 header_ptr (msn_block_header_memory_size n) header_key b;
       payload_key \<leftarrow> block_key mkey_invalid (register_memory l) (payload_memory_keys l);
       b \<leftarrow> set_block_memory i 1 payload_ptr (msn_block_payload_memory_size n) payload_key b;
       set_block_sizes n i b }
     else do {
       payload_key \<leftarrow> block_key mkey_invalid (register_memory l) (payload_memory_keys l);
       b \<leftarrow> set_block_memory i 0 payload_ptr (msn_block_payload_memory_size n) payload_key b;
       set_block_sizes n i b })"

text \<open>The address of the header memory only moves on with split headers.\<close>

definition next_header :: "'p MediaSenderIONode \<Rightarrow> u64 \<Rightarrow> u64" where
  "next_header n header_ptr = (if msn_is_hds_on n then header_ptr + msn_block_header_memory_size n else header_ptr)"

fun set_blocks :: "u32 \<Rightarrow> 'p MediaSenderIONode \<Rightarrow> HeaderPayloadMemoryLayout \<Rightarrow> nat \<Rightarrow> nat \<Rightarrow> u64 \<Rightarrow> u64
    \<Rightarrow> MediaStreamMemBlockset \<Rightarrow> MediaStreamMemBlockset option" where
  "set_blocks mkey_invalid n l i 0 header_ptr payload_ptr b = Some b"
| "set_blocks mkey_invalid n l i (Suc k) header_ptr payload_ptr b = do {
     b \<leftarrow> set_block mkey_invalid n l i header_ptr payload_ptr b;
     set_blocks mkey_invalid n l (i + 1) k (next_header n header_ptr) (payload_ptr + msn_block_payload_memory_size n) b }"

definition initialize_mem_blockset ::
  "u32 \<Rightarrow> 'p MediaSenderIONode \<Rightarrow> HeaderPayloadMemoryLayout \<Rightarrow> u64 \<Rightarrow> u64 \<Rightarrow> MediaStreamMemBlockset
    \<Rightarrow> (ReturnStatus \<times> MediaStreamMemBlockset) option" where
  "initialize_mem_blockset mkey_invalid n l header_ptr payload_ptr b =
    map_option (Pair success) (set_blocks mkey_invalid n l 0 (unat (msn_num_of_memory_blocks n)) header_ptr payload_ptr b)"

definition initialize_mem_blockset_internal :: "'p MediaSenderIONode \<Rightarrow> MediaStreamMemBlockset \<Rightarrow> (ReturnStatus \<times> MediaStreamMemBlockset) option" where
  "initialize_mem_blockset_internal n b =
    map_option (Pair success) (fold (\<lambda>i r. Option.bind r (set_block_sizes n i)) [0..<unat (msn_num_of_memory_blocks n)] (Some b))"

section \<open>Loading a file into the memory blocks\<close>

text \<open>A store into the temporary buffer; past its end it is undefined.\<close>

definition buffer_store :: "u8 list \<Rightarrow> nat \<Rightarrow> u8 list \<Rightarrow> u8 list option" where
  "buffer_store buf offset bytes =
    (if length buf < offset + length bytes then None else Some (take offset buf @ bytes @ drop (offset + length bytes) buf))"

function fill_loop :: "u64 \<Rightarrow> u64 \<Rightarrow> nat \<Rightarrow> u64 \<Rightarrow> nat \<Rightarrow> u8 list \<Rightarrow> ifstream \<Rightarrow> (ReturnStatus \<times> u8 list \<times> ifstream) option" where
  "fill_loop packet_size packets stride total_bytes_read cur_data buf file =
    (if packet_size * packets > total_bytes_read then
       let (bytes, file') = ifstream_read (unat packet_size) file; bytes_read = length bytes
       in if bytes_read = 0 \<and> eofbit file' then Some (success, buf, file')
          else if bytes_read = 0 \<and> ifstream_fail file' \<and> \<not> eofbit file' then Some (failure, buf, file')
          else
            (case buffer_store buf cur_data bytes of
               None \<Rightarrow> None
             | Some buf \<Rightarrow>
                 if bytes_read < unat packet_size then Some (success, buf, file')
                 else fill_loop packet_size packets stride (total_bytes_read + word_of_nat bytes_read) (cur_data + stride) buf file')
     else Some (success, buf, file))"
  by pat_completeness auto
termination
proof (relation "measure (\<lambda>(packet_size, packets, stride, total, cur, buf, f). ifstream_size f - position f)", goal_cases)
  case (2 packet_size packets stride total cur buf f x bytes f' bytes_read buf')
  have r: "(bytes, f') = ifstream_read (unat packet_size) f" using 2(2,3) by simp
  have "length bytes = unat packet_size"
    using 2 r length_ifstream_read[of "unat packet_size" f] by (metis fst_conv le_neq_implies_less)
  moreover have "0 < unat packet_size" using 2(1) by (auto simp: unat_gt_0)
  ultimately show ?case using ifstream_read_progress[of "unat packet_size" f] r
    by (metis (no_types, lifting) case_prod_conv fst_conv in_measure snd_conv)
qed simp

declare fill_loop.simps [simp del]

text \<open>The result of the copy into the memory block is not used.\<close>

definition fill_memblock_from_file ::
  "os_memory \<Rightarrow> 'p MediaSenderIONode \<Rightarrow> u64 \<Rightarrow> u64 \<Rightarrow> u64 \<Rightarrow> ifstream \<times> mem \<Rightarrow> (ReturnStatus \<times> ifstream \<times> mem) option" where
  "fill_memblock_from_file os n block_memory_buffer block_memory_size header_offset = (\<lambda>(input_file, m).
    if \<not> is_open input_file then Some (failure, input_file, m)
    else do {
      let ms = msn_media_settings n;
      (rc, temp_buffer, input_file) \<leftarrow>
        fill_loop (ucast (msn_packet_payload_size n) - header_offset)
          (ucast (packets_in_frame_field ms) * frames_fields_in_mem_block ms) (unat (msn_data_stride_size n)) 0 (unat header_offset)
          (replicate (unat block_memory_size) 0) input_file;
      if rc \<noteq> success then Some (rc, input_file, m)
      else Some (success, input_file,
        snd (memory_copy os (get_memory_utils (utils_payload_allocator (msn_memory_utils n))) m (unat block_memory_buffer) temp_buffer)) })"

fun fill_blocks ::
  "os_memory \<Rightarrow> u32 \<Rightarrow> 'p MediaSenderIONode \<Rightarrow> HeaderPayloadMemoryLayout \<Rightarrow> u64 \<Rightarrow> nat \<Rightarrow> nat \<Rightarrow> u64 \<Rightarrow> u64
    \<Rightarrow> MediaStreamMemBlockset \<times> ifstream \<times> mem \<Rightarrow> (ReturnStatus \<times> MediaStreamMemBlockset \<times> mem) option" where
  "fill_blocks os mkey_invalid n l header_offset i 0 header_ptr payload_ptr (b, input_file, m) = Some (success, b, m)"
| "fill_blocks os mkey_invalid n l header_offset i (Suc k) header_ptr payload_ptr (b, input_file, m) = do {
     (rc, input_file, m) \<leftarrow> fill_memblock_from_file os n payload_ptr (msn_block_payload_memory_size n) header_offset (input_file, m);
     if rc \<noteq> success then Some (rc, b, m)
     else do {
       b \<leftarrow> set_block mkey_invalid n l i header_ptr payload_ptr b;
       fill_blocks os mkey_invalid n l header_offset (i + 1) k (next_header n header_ptr)
         (payload_ptr + msn_block_payload_memory_size n) (b, input_file, m) } }"

definition msn_header_offset :: "'p MediaSenderIONode \<Rightarrow> u64" where
  "msn_header_offset n = (if \<not> msn_is_hds_on n then protocol_header_size (msn_media_settings n) else 0)"

definition initialize_mem_blockset_from_file ::
  "os_memory \<Rightarrow> u32 \<Rightarrow> input_file option \<Rightarrow> 'p MediaSenderIONode \<Rightarrow> HeaderPayloadMemoryLayout \<Rightarrow> u64 \<Rightarrow> u64
    \<Rightarrow> MediaStreamMemBlockset \<times> mem \<Rightarrow> (ReturnStatus \<times> MediaStreamMemBlockset \<times> mem) option" where
  "initialize_mem_blockset_from_file os mkey_invalid file n l header_ptr payload_ptr = (\<lambda>(b, m).
    let input_file = ifstream_open file ifstream_new
    in if \<not> is_open input_file then Some (failure, b, m)
       else fill_blocks os mkey_invalid n l (msn_header_offset n) 0 (unat (msn_num_of_memory_blocks n)) header_ptr
              payload_ptr (b, ifstream_seek 0 (ifstream_clear input_file), m))"

section \<open>Applying a memory layout\<close>

definition resize_sizes :: "nat \<Rightarrow> u16 \<Rightarrow> u16 list \<Rightarrow> u16 list" where
  "resize_sizes count value xs = take count xs @ replicate (count - length xs) value"

definition resize_block_sizes :: "'p MediaSenderIONode \<Rightarrow> 'p MediaSenderIONode" where
  "resize_block_sizes n =
    (let count = unat (msn_num_of_packets_in_mem_block n);
         n = (if msn_packet_header_size n \<noteq> 0
              then n\<lparr>msn_mem_block_header_sizes := resize_sizes count (msn_packet_header_size n) (msn_mem_block_header_sizes n)\<rparr> else n)
     in n\<lparr>msn_mem_block_payload_sizes := resize_sizes count (msn_packet_payload_size n) (msn_mem_block_payload_sizes n)\<rparr>)"

definition new_mem_blockset :: "'p MediaSenderIONode \<Rightarrow> MediaStreamMemBlockset" where
  "new_mem_blockset n = MediaStreamMemBlockset_new (unat (msn_num_of_memory_blocks n)) (if msn_is_hds_on n then 2 else 1)
     (msn_num_of_chunks_in_mem_block n)"

text \<open>The stream is given its memory blocks.\<close>

definition assign_mem_blockset :: "MediaStreamMemBlockset \<Rightarrow> 'p MediaStreamPack \<Rightarrow> (ReturnStatus \<times> 'p MediaStreamPack) option" where
  "assign_mem_blockset b p = do {
     (rtp, base) \<leftarrow> pack_stream p;
     let (rc, base) = media_apply_memory_layout b base;
     Some (rc, p\<lparr>pack_mem_blockset := Some b, pack_stream := Some (rtp, base)\<rparr>) }"

fun apply_internal :: "u32 \<Rightarrow> 'p MediaSenderIONode \<Rightarrow> 'p MediaStreamPack list \<Rightarrow> (ReturnStatus \<times> 'p MediaStreamPack list) option" where
  "apply_internal mkey_invalid n [] = Some (success, [])"
| "apply_internal mkey_invalid n (p # ps) = do {
     b \<leftarrow> set_rivermax_to_allocate_memory mkey_invalid (new_mem_blockset n);
     (_, b) \<leftarrow> initialize_mem_blockset_internal n b;
     (rc, p) \<leftarrow> assign_mem_blockset b p;
     if rc \<noteq> success then Some (rc, p # ps)
     else map_option (\<lambda>(rc, ps). (rc, p # ps)) (apply_internal mkey_invalid n ps) }"

fun apply_external ::
  "os_memory \<Rightarrow> ('p, 'l) media_env \<Rightarrow> 'p MediaSenderIONode \<Rightarrow> HeaderPayloadMemoryLayout \<Rightarrow> u64 \<Rightarrow> u64
    \<Rightarrow> 'p MediaStreamPack list \<times> mem \<Rightarrow> (ReturnStatus \<times> 'p MediaStreamPack list \<times> mem) option" where
  "apply_external os env n l header_ptr payload_ptr ([], m) = Some (success, [], m)"
| "apply_external os env n l header_ptr payload_ptr (p # ps, m) = do {
     let b = new_mem_blockset n;
     (rc, b, m) \<leftarrow>
       (if loads_file n
        then initialize_mem_blockset_from_file os (me_mkey_invalid env) (me_file env (msn_video_file n)) n l header_ptr payload_ptr (b, m)
        else map_option (\<lambda>(rc, b). (rc, b, m)) (initialize_mem_blockset (me_mkey_invalid env) n l header_ptr payload_ptr b));
     if rc \<noteq> success then Some (rc, p\<lparr>pack_mem_blockset := Some b\<rparr> # ps, m)
     else do {
       (rc, p) \<leftarrow> assign_mem_blockset b p;
       if rc \<noteq> success then Some (rc, p # ps, m)
       else map_option (\<lambda>(rc, ps, m). (rc, p # ps, m))
         (apply_external os env n l (header_ptr + msn_num_of_memory_blocks n * msn_block_header_memory_size n)
           (payload_ptr + msn_num_of_memory_blocks n * msn_block_payload_memory_size n) (ps, m)) } }"

definition msn_apply_memory_layout ::
  "os_memory \<Rightarrow> ('p, 'l) media_env \<Rightarrow> HeaderPayloadMemoryLayout \<Rightarrow> 'p MediaSenderIONode \<times> mem
    \<Rightarrow> (ReturnStatus \<times> 'p MediaSenderIONode \<times> mem) option" where
  "msn_apply_memory_layout os env l = (\<lambda>(n, m).
    if is_internal_allocation_requested l then
      let n = resize_block_sizes n
      in map_option (\<lambda>(rc, ps). (rc, n\<lparr>msn_stream_packs := ps\<rparr>, m)) (apply_internal (me_mkey_invalid env) n (msn_stream_packs n))
    else
      let status = msn_validate_memory_layout l n
      in if status \<noteq> success then Some (status, n, m)
         else
           let n = resize_block_sizes n
           in map_option (\<lambda>(rc, ps, m). (rc, n\<lparr>msn_stream_packs := ps\<rparr>, m))
                (apply_external os env n l (header_memory_ptr l) (payload_memory_ptr l) (msn_stream_packs n, m)))"

section \<open>Flows and streams\<close>

definition msn_initialize_send_flows :: "TwoTupleFlow list \<Rightarrow> 'p MediaSenderIONode \<Rightarrow> 'p MediaSenderIONode option" where
  "msn_initialize_send_flows flows n =
    map_option (\<lambda>ss. n\<lparr>msn_stream_packs := map2 (\<lambda>p fs. p\<lparr>pack_flows := fs\<rparr>) (msn_stream_packs n) ss\<rparr>)
      (flows_of_streams (length (msn_stream_packs n)) flows)"

text \<open>The destination of a stream in its session description; a stream without a flow is undefined.\<close>

definition stream_sdp :: "string \<Rightarrow> TwoTupleFlow list \<Rightarrow> string option" where
  "stream_sdp sender_sdp flows = (case flows of
      [] \<Rightarrow> None
    | flow # _ \<Rightarrow> do {
        s \<leftarrow> replace_all ''c=IN IP4 '' (flow_ip flow) ''/'' sender_sdp;
        s \<leftarrow> replace_all ''incl IN IP4 '' (flow_ip flow) '' '' s;
        replace_all ''m=video '' (std_to_string (unat (flow_port flow))) '' '' s })"

definition pack_stream_settings :: "('p, 'l) media_env \<Rightarrow> 'p MediaSenderIONode \<Rightarrow> MediaSettings \<Rightarrow> MediaStreamSettings" where
  "pack_stream_settings env n ms =
    (let source = four_source_flow (msn_network_address n)
     in \<lparr>mss_local_address = me_socket_address env (flow_ip source) (flow_port source), mss_media_settings = ms,
         mss_packets_per_chunk = msn_num_of_packets_in_chunk n, mss_packet_payload_size = msn_packet_payload_size n,
         mss_data_stride_size = msn_data_stride_size n, mss_app_header_stride_size = msn_app_header_stride_size n,
         mss_dscp = msn_dscp n, mss_pcp = msn_pcp n, mss_ecn = msn_ecn n\<rparr>)"

definition initialize_pack :: "('p, 'l) media_env \<Rightarrow> 'p MediaSenderIONode \<Rightarrow> 'p MediaStreamPack \<Rightarrow> 'p MediaStreamPack option" where
  "initialize_pack env n p =
    map_option (\<lambda>s.
        let ms = (msn_media_settings n)\<lparr>sdp := s\<rparr>
        in p\<lparr>pack_stream := Some (RtpVideoSendStream_new ms (msn_packet_payload_size n) (msn_app_header_stride_size n \<noteq> 0)
                 (msn_app_header_stride_size n) (msn_data_stride_size n), MediaSendStream_new (pack_stream_settings env n ms)),
             pack_buffer_writer := Some (RTPMediaBufferWriter RTPVideoMockBufferWriter ms (msn_app_header_stride_size n)
                 (msn_data_stride_size n) (msn_packet_payload_size n) True)\<rparr>)
      (stream_sdp (sdp (msn_media_settings n)) (pack_flows p))"

text \<open>All or none of a list.\<close>

fun map_all :: "('a \<Rightarrow> 'b option) \<Rightarrow> 'a list \<Rightarrow> 'b list option" where
  "map_all f [] = Some []"
| "map_all f (x # xs) = do { y \<leftarrow> f x; ys \<leftarrow> map_all f xs; Some (y # ys) }"

text \<open>The session description of the node is put back at the end.\<close>

definition msn_initialize_streams :: "('p, 'l) media_env \<Rightarrow> 'p MediaSenderIONode \<Rightarrow> 'p MediaSenderIONode option" where
  "msn_initialize_streams env n = map_option (\<lambda>ps. n\<lparr>msn_stream_packs := ps\<rparr>) (map_all (initialize_pack env n) (msn_stream_packs n))"

definition msn_set_frame_provider ::
  "nat \<Rightarrow> 'p option \<Rightarrow> MediaType \<Rightarrow> bool \<Rightarrow> 'p MediaSenderIONode \<Rightarrow> ReturnStatus \<times> 'p MediaSenderIONode" where
  "msn_set_frame_provider stream_index frame_provider type contains_payload n =
    (if frame_provider = None then (failure, n)
     else if length (msn_stream_packs n) \<le> stream_index then (failure, n)
     else
       let p = (msn_stream_packs n ! stream_index)\<lparr>pack_frame_provider := frame_provider\<rparr>;
           writer = get_rtp_media_buffer_writer type contains_payload (msn_media_settings n) (msn_app_header_stride_size n)
             (msn_data_stride_size n) (msn_packet_payload_size n) True;
           p = (case writer of None \<Rightarrow> p | Some w \<Rightarrow> p\<lparr>pack_buffer_writer := Some w\<rparr>)
       in (success, n\<lparr>msn_stream_packs := (msn_stream_packs n)[stream_index := p]\<rparr>))"

fun msn_create_streams ::
  "('p, 'l) media_env \<Rightarrow> 'p MediaSenderIONode \<Rightarrow> 'p MediaStreamPack list \<times> 'l \<Rightarrow> (ReturnStatus \<times> 'p MediaStreamPack list \<times> 'l) option" where
  "msn_create_streams env n ([], l) = Some (success, [], l)"
| "msn_create_streams env n (p # ps, l) = do {
     (rtp, base) \<leftarrow> pack_stream p;
     let (rc, base, l) = media_stream_create (me_rmx env) (base, l);
     let p = p\<lparr>pack_stream := Some (rtp, base)\<rparr>;
     if rc \<noteq> success then Some (rc, p # ps, l)
     else
       let (c, l) = MediaChunk_new (me_rmx env) (m_media_stream_id base) (msn_num_of_packets_in_chunk n)
                      (mss_app_header_stride_size (m_media_stream_settings base) \<noteq> 0) l;
           p = p\<lparr>pack_chunk_handler := Some c\<rparr>
       in map_option (\<lambda>(rc, ps, l). (rc, p # ps, l)) (msn_create_streams env n (ps, l)) }"

text \<open>The status of the last stream is not looked at when it is no \<open>failure\<close>.\<close>

fun msn_destroy_streams ::
  "('p, 'l) media_env \<Rightarrow> 'p MediaStreamPack list \<times> 'l \<Rightarrow> (ReturnStatus \<times> 'p MediaStreamPack list \<times> 'l) option" where
  "msn_destroy_streams env ([], l) = Some (success, [], l)"
| "msn_destroy_streams env (p # ps, l) = do {
     c \<leftarrow> pack_chunk_handler p;
     let (rc, l) = cancel_unsent (me_rmx env) c l;
     if rc \<noteq> success then Some (rc, p # ps, l)
     else do {
       (rtp, base) \<leftarrow> pack_stream p;
       (rc, base, l) \<leftarrow> media_stream_destroy (me_rmx env) (base, l);
       let p = p\<lparr>pack_stream := Some (rtp, base)\<rparr>;
       if rc = failure then Some (rc, p # ps, l)
       else map_option (\<lambda>(rc, ps, l). (rc, p # ps, l)) (msn_destroy_streams env (ps, l)) } }"

section \<open>Sending\<close>

definition frame_content :: "mem \<Rightarrow> MediaFrame \<Rightarrow> u8 list" where
  "frame_content m f = mem_read m (unat (buffer_ptr (frame_data f))) (unat (buffer_size (frame_data f)))"

fun process_frame ::
  "('p, 'l) media_env \<Rightarrow> mem \<Rightarrow> 'l \<Rightarrow> 'p MediaStreamPack list \<Rightarrow> (ReturnStatus \<times> 'p MediaStreamPack list) option" where
  "process_frame env m l [] = Some (success, [])"
| "process_frame env m l (p # ps) =
    (case pack_frame_provider p of
       None \<Rightarrow> map_option (\<lambda>(rc, ps). (rc, p # ps)) (process_frame env m l ps)
     | Some s \<Rightarrow>
       (case me_get_frame_blocking env s of
          Returns (frame, s) \<Rightarrow>
            let p = p\<lparr>pack_frame_provider := Some s\<rparr>
            in if me_received_signal env l \<ge> 0 then Some (success, p # ps)
               else
                 (case frame of
                    None \<Rightarrow> map_option (\<lambda>(rc, ps). (rc, p # ps)) (process_frame env m l ps)
                  | Some f \<Rightarrow> do {
                      w \<leftarrow> pack_buffer_writer p;
                      let (rc, w) = set_next_frame (frame_content m f) w;
                      let p = p\<lparr>pack_buffer_writer := Some w\<rparr>;
                      if rc \<noteq> success then Some (rc, p # ps)
                      else map_option (\<lambda>(rc, ps). (rc, p # ps)) (process_frame env m l ps) })
        | _ \<Rightarrow> None))"

definition get_commit_timestamp_ns :: "bool \<Rightarrow> rat \<Rightarrow> u64 \<Rightarrow> u64 option" where
  "get_commit_timestamp_ns first_chunk_in_frame send_time_ns current_time_ns =
    (if first_chunk_in_frame \<and> send_time_ns > dbl (of_nat (unat current_time_ns))
     then map_option word_of_nat (to_unsigned 64 send_time_ns) else Some 0)"

text \<open>The loops around the blocking calls.\<close>

partial_function (option) get_chunk_until_free :: "'l rmx_output_media \<Rightarrow> MediaChunk \<Rightarrow> 'l \<Rightarrow> (ReturnStatus \<times> 'l) option" where
  "get_chunk_until_free rmx c l =
    (case media_blocking_get_next_chunk rmx c BLOCKING_CHUNK_RETRIES l of
       None \<Rightarrow> None
     | Some (rc, l) \<Rightarrow> if rc = no_free_chunks then get_chunk_until_free rmx c l else Some (rc, l))"

partial_function (option) commit_chunk_until_accepted :: "'l rmx_output_media \<Rightarrow> MediaChunk \<Rightarrow> u64 \<Rightarrow> 'l \<Rightarrow> (ReturnStatus \<times> 'l) option" where
  "commit_chunk_until_accepted rmx c t l =
    (case media_blocking_commit_chunk rmx c t BLOCKING_CHUNK_RETRIES l of
       None \<Rightarrow> None
     | Some (rc, l) \<Rightarrow> if rc = hw_send_queue_full then commit_chunk_until_accepted rmx c t l else Some (rc, l))"

definition write_chunk :: "('p, 'l) media_env \<Rightarrow> 'p MediaSenderIONode \<Rightarrow> MediaChunk \<Rightarrow> 'l \<Rightarrow> Writer \<times> mem \<Rightarrow> (Writer \<times> mem) option" where
  "write_chunk env n c l = (\<lambda>(w, m).
    map_option snd
      (if msn_is_hds_on n then write_buffer_hds (get_app_hdr_ptr (me_rmx env) c l) (get_data_ptr (me_rmx env) c l) (unat (media_chunk_length c)) (w, m)
       else write_buffer (get_data_ptr (me_rmx env) c l) (unat (media_chunk_length c)) (w, m)))"

text \<open>The body of the loop over the streams; a remainder modulo zero chunks is undefined.\<close>

definition send_chunk ::
  "('p, 'l) media_env \<Rightarrow> 'p MediaSenderIONode \<Rightarrow> nat \<Rightarrow> rat \<Rightarrow> 'p MediaStreamPack \<times> mem \<times> 'l
    \<Rightarrow> (ReturnStatus \<times> 'p MediaStreamPack \<times> mem \<times> 'l) option" where
  "send_chunk env n chunk_in_frame_counter send_time_ns = (\<lambda>(p, m, l). do {
     c \<leftarrow> pack_chunk_handler p;
     (rc, l) \<leftarrow> get_chunk_until_free (me_rmx env) c l;
     if rc \<noteq> success then Some (rc, p, m, l)
     else do {
       w \<leftarrow> pack_buffer_writer p;
       (w, m) \<leftarrow> write_chunk env n c l (w, m);
       let p = p\<lparr>pack_buffer_writer := Some w\<rparr>;
       let chunks = unat (chunks_in_frame_field (msn_media_settings n));
       if chunks = 0 then None
       else do {
         let (now, l) = me_time_now_ns env l;
         commit_timestamp_ns \<leftarrow> get_commit_timestamp_ns (chunk_in_frame_counter mod chunks = 0) send_time_ns now;
         (rc, l) \<leftarrow> commit_chunk_until_accepted (me_rmx env) c commit_timestamp_ns l;
         Some (rc, p, m, l) } } })"

fun send_chunk_of_each ::
  "('p, 'l) media_env \<Rightarrow> 'p MediaSenderIONode \<Rightarrow> nat \<Rightarrow> rat \<Rightarrow> ReturnStatus \<Rightarrow> 'p MediaStreamPack list \<times> mem \<times> 'l
    \<Rightarrow> (ReturnStatus \<times> 'p MediaStreamPack list \<times> mem \<times> 'l) option" where
  "send_chunk_of_each env n chunk_in_frame_counter send_time_ns rc ([], m, l) = Some (rc, [], m, l)"
| "send_chunk_of_each env n chunk_in_frame_counter send_time_ns rc (p # ps, m, l) = do {
     (rc, p, m, l) \<leftarrow> send_chunk env n chunk_in_frame_counter send_time_ns (p, m, l);
     if rc \<noteq> success then Some (rc, p # ps, m, l)
     else map_option (\<lambda>(rc, ps, m, l). (rc, p # ps, m, l))
       (send_chunk_of_each env n chunk_in_frame_counter send_time_ns rc (ps, m, l)) }"

partial_function (option) send_field ::
  "('p, 'l) media_env \<Rightarrow> 'p MediaSenderIONode \<Rightarrow> nat \<Rightarrow> rat \<Rightarrow> ReturnStatus \<Rightarrow> 'p MediaStreamPack list \<times> mem \<times> 'l
    \<Rightarrow> (ReturnStatus \<times> 'p MediaStreamPack list \<times> mem \<times> 'l) option" where
  "send_field env n chunk_in_frame_counter send_time_ns rc w =
    (case send_chunk_of_each env n chunk_in_frame_counter send_time_ns rc w of
       None \<Rightarrow> None
     | Some (rc, w) \<Rightarrow>
       (let chunks = unat (chunks_in_frame_field (msn_media_settings n))
        in if chunks = 0 then None
           else if rc = success \<and> chunk_in_frame_counter + 1 < chunks
           then send_field env n (chunk_in_frame_counter + 1)
                  (if chunk_in_frame_counter mod chunks = 0
                   then dbl (send_time_ns + frame_field_time_interval_ns (msn_media_settings n)) else send_time_ns) rc w
           else Some (rc, w)))"

text \<open>The time of the next memory block: products and sums of floating point numbers.\<close>

definition mem_block_send_time_ns :: "'p MediaSenderIONode \<Rightarrow> rat \<Rightarrow> nat \<Rightarrow> rat" where
  "mem_block_send_time_ns n start_send_time_ns sent_mem_block_counter =
    (let ms = msn_media_settings n
     in dbl (start_send_time_ns
          + dbl (dbl (frame_field_time_interval_ns ms * dbl (of_nat (unat (frames_fields_in_mem_block ms))))
                 * dbl (of_nat sent_mem_block_counter))))"

definition wait_for_next_frame :: "('p, 'l) media_env \<Rightarrow> 'p MediaSenderIONode \<Rightarrow> u64 \<Rightarrow> 'l \<Rightarrow> 'l" where
  "wait_for_next_frame env n sleep_till_ns l =
    (let (time_now_ns, l) = me_time_now_ns env l
     in if \<not> msn_sleep_between_operations n \<or> sleep_till_ns \<le> time_now_ns then l
        else
          let sleep_time_ns = sleep_till_ns - time_now_ns
          in if sleep_time_ns \<le> SLEEP_THRESHOLD_NS then l else me_sleep_for_ns env (sleep_time_ns - SLEEP_THRESHOLD_NS) l)"

definition send_mem_block ::
  "('p, 'l) media_env \<Rightarrow> 'p MediaSenderIONode \<Rightarrow> rat \<Rightarrow> nat \<Rightarrow> 'p MediaStreamPack list \<times> mem \<times> 'l
    \<Rightarrow> (ReturnStatus \<times> bool \<times> 'p MediaStreamPack list \<times> mem \<times> 'l) option" where
  "send_mem_block env n start_send_time_ns sent_mem_block_counter = (\<lambda>(ps, m, l). do {
     let send_time_ns = mem_block_send_time_ns n start_send_time_ns sent_mem_block_counter;
     t \<leftarrow> to_unsigned 64 send_time_ns;
     let l = wait_for_next_frame env n (word_of_nat t) l;
     (rc, ps) \<leftarrow> process_frame env m l ps;
     if rc \<noteq> success then Some (rc, True, ps, m, l)
     else map_option (\<lambda>(rc, w). (rc, False, w)) (send_field env n 0 send_time_ns rc (ps, m, l)) })"

partial_function (option) media_send_loop ::
  "('p, 'l) media_env \<Rightarrow> 'p MediaSenderIONode \<Rightarrow> rat \<Rightarrow> nat \<Rightarrow> ReturnStatus \<Rightarrow> 'p MediaStreamPack list \<times> mem \<times> 'l
    \<Rightarrow> ('p MediaStreamPack list \<times> mem \<times> 'l) option" where
  "media_send_loop env n start_send_time_ns sent_mem_block_counter rc w =
    (if rc \<noteq> failure \<and> me_received_signal env (snd (snd w)) < 0
     then (case send_mem_block env n start_send_time_ns sent_mem_block_counter w of
             None \<Rightarrow> None
           | Some (rc, leave, w) \<Rightarrow>
               if leave then Some w else media_send_loop env n start_send_time_ns (sent_mem_block_counter + 1) rc w)
     else Some w)"

text \<open>All streams start at the same time, that of the last one.\<close>

fun set_start_times :: "u64 \<Rightarrow> rat \<Rightarrow> 'p MediaStreamPack list \<Rightarrow> (rat \<times> 'p MediaStreamPack list) option" where
  "set_start_times time_now_ns send_time_ns [] = Some (send_time_ns, [])"
| "set_start_times time_now_ns send_time_ns (p # ps) = do {
     (rtp, base) \<leftarrow> pack_stream p;
     (send_time_ns, rtp) \<leftarrow> calculate_send_time_ns time_now_ns rtp;
     w \<leftarrow> pack_buffer_writer p;
     t \<leftarrow> to_unsigned 64 send_time_ns;
     w \<leftarrow> set_first_packet_timestamp (word_of_nat t) w;
     (send_time_ns, ps) \<leftarrow> set_start_times time_now_ns send_time_ns ps;
     Some (send_time_ns, p\<lparr>pack_stream := Some (rtp, base), pack_buffer_writer := Some w\<rparr> # ps) }"

definition msn_run :: "('p, 'l) media_env \<Rightarrow> 'p MediaSenderIONode \<times> mem \<times> 'l \<Rightarrow> ('p MediaSenderIONode \<times> mem \<times> 'l) option" where
  "msn_run env = (\<lambda>(n, m, l). do {
     (rc, ps, l) \<leftarrow> msn_create_streams env n (msn_stream_packs n, l);
     if rc = failure then Some (n\<lparr>msn_stream_packs := ps\<rparr>, m, l)
     else do {
       let (time_now_ns, l) = me_time_now_ns env l;
       (start_send_time_ns, ps) \<leftarrow> set_start_times time_now_ns 0 ps;
       (ps, m, l) \<leftarrow> media_send_loop env n start_send_time_ns 0 success (ps, m, l);
       (rc, ps, l) \<leftarrow> msn_destroy_streams env (ps, l);
       Some (n\<lparr>msn_stream_packs := ps\<rparr>, m, l) } })"

section \<open>The application\<close>

fun initialize_media_sender_threads ::
  "('p, 'l) media_env \<Rightarrow> os_memory \<Rightarrow> AppSettings \<Rightarrow> IONodeMemoryUtils \<Rightarrow> (nat \<Rightarrow> nat) \<Rightarrow> TwoTupleFlow list \<Rightarrow> nat \<Rightarrow> nat \<Rightarrow> nat
    \<Rightarrow> 'p MediaSenderIONode list option" where
  "initialize_media_sender_threads env os s utils streams_per_thread flows sndr_indx 0 streams_offset = Some []"
| "initialize_media_sender_threads env os s utils streams_per_thread flows sndr_indx (Suc k) streams_offset = do {
     let core = (if sndr_indx < length (app_threads_cores s) then app_threads_cores s ! sndr_indx else CPU_NONE);
     let network_address = FourTupleFlow_new (word_of_nat sndr_indx) (local_ip s) (source_port s) (destination_ip s) (destination_port s);
     if length flows < streams_offset + streams_per_thread sndr_indx then None
     else do {
       n \<leftarrow> MediaSenderIONode_new env os network_address s (word_of_nat sndr_indx) (streams_per_thread sndr_indx) core utils;
       n \<leftarrow> msn_initialize_send_flows (take (streams_per_thread sndr_indx) (drop streams_offset flows)) n;
       n \<leftarrow> msn_initialize_streams env n;
       ns \<leftarrow> initialize_media_sender_threads env os s utils streams_per_thread flows (sndr_indx + 1) k
               (streams_offset + streams_per_thread sndr_indx);
       Some (n # ns) } }"

text \<open>The providers the application sets itself.  The address of the buffer of a null frame is a parameter.\<close>

datatype internal_provider = Null_provider NullFrameProvider | File_provider MediaFileFrameProvider

fun get_internal_frame_blocking :: "u64 \<Rightarrow> internal_provider \<Rightarrow> (MediaFrame option \<times> internal_provider) outcome" where
  "get_internal_frame_blocking new_buffer (Null_provider s) = Returns (null_get_frame_blocking new_buffer s, Null_provider s)"
| "get_internal_frame_blocking new_buffer (File_provider s) = (case file_get_frame_blocking s of
      Returns (f, s) \<Rightarrow> Returns (f, File_provider s) | Waits \<Rightarrow> Waits | Undefined \<Rightarrow> Undefined)"

definition msa_set_frame_provider ::
  "AppSettings \<Rightarrow> (nat \<Rightarrow> nat) \<Rightarrow> nat \<Rightarrow> 'p option \<Rightarrow> MediaType \<Rightarrow> bool \<Rightarrow> 'p MediaSenderIONode list
    \<Rightarrow> (ReturnStatus \<times> 'p MediaSenderIONode list) option" where
  "msa_set_frame_provider s streams_per_thread stream_index frame_provider type contains_payload senders =
    (case find_internal_stream_index s streams_per_thread stream_index of
       (rc, found) \<Rightarrow>
         if rc \<noteq> success then Some (rc, senders)
         else (case found of
             None \<Rightarrow> None
           | Some (thread, stream) \<Rightarrow>
               if length senders \<le> thread then None
               else let (rc, n) = msn_set_frame_provider stream frame_provider type contains_payload (senders ! thread)
                    in Some (rc, senders[thread := n])))"

text \<open>The providers of the streams of a node; the allocator, which the file providers share, is passed along.\<close>

definition new_internal_provider ::
  "os_memory \<Rightarrow> (string \<Rightarrow> input_file option) \<Rightarrow> AppSettings \<Rightarrow> MemoryAllocator \<times> mem
    \<Rightarrow> (ReturnStatus \<times> internal_provider \<times> bool \<times> MemoryAllocator \<times> mem) option" where
  "new_internal_provider os files s = (\<lambda>(a, m).
    if video_file s = [] \<or> \<not> dynamic_video_file_load s
    then Some (success, Null_provider (NullFrameProvider_new (media s)), False, a, m)
    else map_option (\<lambda>(rc, m, provider). (rc, File_provider provider, True, m_mem_allocator provider, m))
           (load_frames os (files (video_file s)) m (MediaFileFrameProvider_new (bytes_per_frame (media s)) a True)))"

fun set_providers_of_node ::
  "os_memory \<Rightarrow> (string \<Rightarrow> input_file option) \<Rightarrow> AppSettings \<Rightarrow> nat \<Rightarrow> nat \<Rightarrow> internal_provider MediaSenderIONode \<times> MemoryAllocator \<times> mem
    \<Rightarrow> (ReturnStatus \<times> internal_provider MediaSenderIONode \<times> MemoryAllocator \<times> mem) option" where
  "set_providers_of_node os files s stream_index 0 w = Some (success, w)"
| "set_providers_of_node os files s stream_index (Suc k) (n, a, m) = do {
     (rc, provider, contains_payload, a, m) \<leftarrow> new_internal_provider os files s (a, m);
     if rc \<noteq> success then Some (rc, n, a, m)
     else
       let (rc, n) = msn_set_frame_provider stream_index (Some provider) Video contains_payload n
       in if rc \<noteq> success then Some (rc, n, a, m) else set_providers_of_node os files s (stream_index + 1) k (n, a, m) }"

fun set_internal_frame_providers ::
  "os_memory \<Rightarrow> (string \<Rightarrow> input_file option) \<Rightarrow> AppSettings \<Rightarrow> (nat \<Rightarrow> nat) \<Rightarrow> nat
    \<Rightarrow> internal_provider MediaSenderIONode list \<times> MemoryAllocator \<times> mem
    \<Rightarrow> (ReturnStatus \<times> internal_provider MediaSenderIONode list \<times> MemoryAllocator \<times> mem) option" where
  "set_internal_frame_providers os files s streams_per_thread sender_index ([], a, m) = Some (success, [], a, m)"
| "set_internal_frame_providers os files s streams_per_thread sender_index (n # ns, a, m) = do {
     (rc, n, a, m) \<leftarrow> set_providers_of_node os files s 0 (streams_per_thread sender_index) (n, a, m);
     if rc \<noteq> success then Some (rc, n # ns, a, m)
     else map_option (\<lambda>(rc, ns, a, m). (rc, n # ns, a, m))
            (set_internal_frame_providers os files s streams_per_thread (sender_index + 1) (ns, a, m)) }"

end
