(* ===== verification/Media_Memory.thy ===== *)
theory Media_Memory
  imports Media_Sender
begin

text \<open>
  The memory of the media sender: what the memory blocks of its streams hold when a file is loaded into them, that loading
  never leaves them, and that the settings of the supported formats fit the blocks.
\<close>

section \<open>The memory blocks hold the file\<close>

text \<open>The packets of a memory block.\<close>

definition block_packets :: "'p MediaSenderIONode \<Rightarrow> nat" where
  "block_packets n = unat (packets_in_frame_field (msn_media_settings n)) * unat (frames_fields_in_mem_block (msn_media_settings n))"

definition file_packet_size :: "'p MediaSenderIONode \<Rightarrow> nat" where
  "file_packet_size n = unat (msn_packet_payload_size n) - unat (msn_header_offset n)"

text \<open>A packet fits its stride, the strides of the frames fit the memory block, and with split headers the bytes of a field
  fit 32 bits.\<close>

definition block_geometry :: "'p MediaSenderIONode \<Rightarrow> bool" where
  "block_geometry n \<longleftrightarrow> unat (msn_header_offset n) < unat (msn_packet_payload_size n)
     \<and> unat (msn_packet_payload_size n) \<le> unat (msn_data_stride_size n)
     \<and> block_packets n * unat (msn_data_stride_size n) \<le> unat (msn_block_payload_memory_size n)
     \<and> (msn_is_hds_on n \<longrightarrow> unat (packets_in_frame_field (msn_media_settings n)) * unat (msn_packet_payload_size n) < 2 ^ 32)"

lemma buffer_store_inside:
  assumes "offset + length bytes \<le> length buf"
  shows "buffer_store buf offset bytes = Some (take offset buf @ bytes @ drop (offset + length bytes) buf)"
  using assms by (simp add: buffer_store_def)

text \<open>A loop that starts with room for its packets never stores past the buffer, whatever the file is.\<close>

lemma fill_loop_defined:
  assumes "unat packet_size * unat packets < 2 ^ 64" "unat sofar = j * unat packet_size" "unat packet_size \<le> stride"
    and "\<forall>i. j \<le> i \<and> i < unat packets \<longrightarrow> cur + (i - j) * stride + unat packet_size \<le> length buf"
  shows "\<exists>rc buf' inp'. fill_loop packet_size packets stride sofar cur buf inp = Some (rc, buf', inp')
    \<and> length buf' = length buf \<and> rc \<in> {success, failure}"
  using assms
proof (induction packet_size packets stride sofar cur buf inp arbitrary: j rule: fill_loop.induct)
  case (1 packet_size packets stride sofar cur buf inp)
  have prod: "unat (packet_size * packets) = unat packet_size * unat packets"
    using "1.prems"(1) by (intro unat_mult_no_wrap) simp
  show ?case
  proof (cases "sofar < packet_size * packets")
    case False
    then show ?thesis by (subst fill_loop.simps) simp
  next
    case True
    then have "j * unat packet_size < unat packet_size * unat packets" using "1.prems"(2) prod by (simp add: word_less_nat_alt)
    then have j: "j < unat packets" "0 < unat packet_size" by (auto simp: mult.commute)
    obtain bytes inp1 where r: "ifstream_read (unat packet_size) inp = (bytes, inp1)" by fastforce
    have len: "length bytes \<le> unat packet_size" using length_ifstream_read[of "unat packet_size" inp] r by simp
    have room: "cur + unat packet_size \<le> length buf" using "1.prems"(4) j(1) by force
    then have store: "buffer_store buf cur bytes = Some (take cur buf @ bytes @ drop (cur + length bytes) buf)"
      using len by (intro buffer_store_inside) simp
    let ?buf = "take cur buf @ bytes @ drop (cur + length bytes) buf"
    have lenb: "length ?buf = length buf" using room len by simp
    show ?thesis
    proof (cases "length bytes = 0 \<and> (eofbit inp1 \<or> ifstream_fail inp1) \<or> length bytes < unat packet_size")
      case True
      then show ?thesis using \<open>sofar < packet_size * packets\<close> r store lenb by (subst fill_loop.simps) (auto simp: Let_def)
    next
      case False
      then have full: "length bytes = unat packet_size" "\<not> (length bytes = 0 \<and> eofbit inp1)"
        "\<not> (length bytes = 0 \<and> ifstream_fail inp1 \<and> \<not> eofbit inp1)" using len j(2) by auto
      have tot: "unat (sofar + word_of_nat (length bytes)) = (j + 1) * unat packet_size"
      proof -
        have "(j + 1) * unat packet_size \<le> unat packets * unat packet_size" using j(1) by (intro mult_right_mono) auto
        then show ?thesis using "1.prems"(1,2) full(1)
          by (subst unat_add_no_wrap) (simp_all add: mult.commute)
      qed
      have rest: "\<forall>i. j + 1 \<le> i \<and> i < unat packets \<longrightarrow> (cur + stride) + (i - (j + 1)) * stride + unat packet_size \<le> length ?buf"
      proof (intro allI impI)
        fix i assume i: "j + 1 \<le> i \<and> i < unat packets"
        then have "cur + (i - j) * stride + unat packet_size \<le> length buf" using "1.prems"(4) by simp
        moreover have "i - j = Suc (i - (j + 1))" using i by linarith
        ultimately show "(cur + stride) + (i - (j + 1)) * stride + unat packet_size \<le> length ?buf" using lenb by simp
      qed
      have "bytes \<noteq> []" using full(1) j(2) by auto
      then have "fill_loop packet_size packets stride sofar cur buf inp
          = fill_loop packet_size packets stride (sofar + word_of_nat (length bytes)) (cur + stride) ?buf inp1"
        using \<open>sofar < packet_size * packets\<close> r store full j(2) by (subst fill_loop.simps) (simp add: Let_def)
      moreover have "\<not> length bytes < unat packet_size" using full(1) by simp
      ultimately show ?thesis
        using "1.IH"[OF \<open>sofar < packet_size * packets\<close> refl r[symmetric] refl full(2,3) store _ "1.prems"(1) tot "1.prems"(3) rest] lenb
        by metis
    qed
  qed
qed

text \<open>From a file that has the bytes, packet \<open>k\<close> of the rest goes to stride \<open>k\<close> after the cursor.\<close>

lemma fill_loop_content:
  assumes "readable f bytes p" "K = unat packets - j" "j \<le> unat packets" "S = unat packet_size" "0 < S" "S * unat packets < 2 ^ 64"
    and "unat sofar = j * S" "S \<le> stride" "p + K * S \<le> length bytes" "\<forall>k < K. cur + k * stride + S \<le> length buf"
  shows "\<exists>buf' f'. fill_loop packet_size packets stride sofar cur buf f = Some (success, buf', f') \<and> readable f' bytes (p + K * S)
    \<and> length buf' = length buf \<and> take cur buf' = take cur buf
    \<and> (\<forall>k < K. take S (drop (cur + k * stride) buf') = take S (drop (p + k * S) bytes))"
  using assms
proof (induction K arbitrary: f p j sofar cur buf)
  case 0
  have "unat (packet_size * packets) = unat packet_size * unat packets"
    using "0.prems"(4,6) by (intro unat_mult_no_wrap) simp
  then have "\<not> sofar < packet_size * packets" using "0.prems"(2-4,7) by (simp add: word_less_nat_alt mult.commute)
  then show ?case using "0.prems"(1) by (subst fill_loop.simps) simp
next
  case (Suc K)
  have j: "j < unat packets" "K = unat packets - (j + 1)" using Suc.prems(2) by auto
  have "unat (packet_size * packets) = unat packet_size * unat packets"
    using Suc.prems(4,6) by (intro unat_mult_no_wrap) simp
  moreover have "j * S < S * unat packets" using j(1) Suc.prems(5) by simp
  ultimately have go: "sofar < packet_size * packets" using Suc.prems(4,7) by (simp add: word_less_nat_alt)
  have len: "S \<le> length (drop p bytes)" using Suc.prems(9) by simp
  note r = ifstream_read_readable[OF Suc.prems(1), of S]
  let ?got = "take S (drop p bytes)" and ?f1 = "snd (ifstream_read S f)"
  let ?buf = "take cur buf @ ?got @ drop (cur + S) buf"
  have lg: "length ?got = S" using len by simp
  have room: "cur + S \<le> length buf" using Suc.prems(10) by force
  then have store: "buffer_store buf cur ?got = Some ?buf" using buffer_store_inside[of cur ?got buf] lg by simp
  have lenb: "length ?buf = length buf" using room lg by simp
  have tot: "unat (sofar + word_of_nat S) = (j + 1) * S"
  proof -
    have "(j + 1) * S \<le> unat packets * S" using j(1) by (intro mult_right_mono) auto
    then have "j * S + S < 2 ^ 64" using Suc.prems(6) by (simp add: mult.commute)
    then show ?thesis using Suc.prems(4,7) by (subst unat_add_no_wrap) simp_all
  qed
  have rest: "\<forall>k < K. (cur + stride) + k * stride + S \<le> length ?buf"
    proof (intro allI impI)
    fix k assume "k < K"
    then have "cur + Suc k * stride + S \<le> length buf" using Suc.prems(10) by blast
    then show "(cur + stride) + k * stride + S \<le> length ?buf" using lenb by simp
  qed
  have step: "fill_loop packet_size packets stride sofar cur buf f
      = fill_loop packet_size packets stride (sofar + word_of_nat S) (cur + stride) ?buf ?f1"
  proof -
    obtain g f1 where pair: "ifstream_read S f = (g, f1)" by fastforce
    then have "g = ?got" "g \<noteq> []" using r(1) len Suc.prems(5) by auto
    then show ?thesis using go pair store lg len Suc.prems(4,5) by (subst fill_loop.simps) (simp add: Let_def)
  qed
  obtain buf' f' where ih: "fill_loop packet_size packets stride (sofar + word_of_nat S) (cur + stride) ?buf ?f1 = Some (success, buf', f')"
    "readable f' bytes (p + S + K * S)" "length buf' = length ?buf" "take (cur + stride) buf' = take (cur + stride) ?buf"
    "\<forall>k < K. take S (drop (cur + stride + k * stride) buf') = take S (drop (p + S + k * S) bytes)"
  proof -
    have "p + S + K * S \<le> length bytes" using Suc.prems(9) by simp
    note ih = Suc.IH[OF r(2)[OF len] j(2) _ Suc.prems(4-6) tot Suc.prems(8) this rest]
    have "j + 1 \<le> unat packets" using j(1) by simp
    from ih[OF this] show ?thesis by (elim exE conjE) (rule that)
  qed
  have first: "take S (drop cur buf') = ?got"
  proof -
    have "take S (drop cur buf') = take S (drop cur (take (cur + stride) buf'))"
      using Suc.prems(8) by (simp add: drop_take min_def)
    also have "\<dots> = take S (drop cur (take (cur + stride) ?buf))" by (simp only: ih(4))
    also have "\<dots> = take S (drop cur ?buf)" using Suc.prems(8) by (simp add: drop_take min_def del: take_append drop_append)
    also have "\<dots> = ?got" using room lg by simp
    finally show ?thesis .
  qed
  have "take cur buf' = take cur buf"
  proof -
    have "take cur buf' = take cur (take (cur + stride) buf')" by simp
    also have "\<dots> = take cur (take (cur + stride) ?buf)" by (simp only: ih(4))
    finally show ?thesis using room by simp
  qed
  moreover have "take S (drop (cur + k * stride) buf') = take S (drop (p + k * S) bytes)" if "k < Suc K" for k
  proof (cases k)
    case 0
    then show ?thesis using first by simp
  next
    case (Suc i)
    then show ?thesis using ih(5) that by (auto simp: add.assoc)
  qed
  ultimately show ?case using step ih(1-3) lenb by (intro exI[of _ buf'] exI[of _ f']) (simp add: add.assoc)
qed

lemma geometry_products:
  assumes "block_geometry n"
  defines "packet_size \<equiv> ucast (msn_packet_payload_size n) - msn_header_offset n :: u64"
    and "packets \<equiv> ucast (packets_in_frame_field (msn_media_settings n)) * frames_fields_in_mem_block (msn_media_settings n) :: u64"
  shows "unat packet_size = file_packet_size n" "unat packets = block_packets n" "0 < file_packet_size n"
    "file_packet_size n * block_packets n < 2 ^ 64" "file_packet_size n + unat (msn_header_offset n) \<le> unat (msn_data_stride_size n)"
proof -
  note g = assms(1)[unfolded block_geometry_def]
  show s: "unat packet_size = file_packet_size n"
    using g unfolding packet_size_def file_packet_size_def by (simp add: unat_sub_if' unat_ucast_up)
  show pos: "0 < file_packet_size n" using g by (simp add: file_packet_size_def)
  show fits: "file_packet_size n + unat (msn_header_offset n) \<le> unat (msn_data_stride_size n)" using g by (simp add: file_packet_size_def)
  have "file_packet_size n * block_packets n \<le> block_packets n * unat (msn_data_stride_size n)"
    using fits by (simp add: mult.commute mult_le_mono)
  then have "file_packet_size n * block_packets n < 18446744073709551616"
    using g unat_u64_bound[of "msn_block_payload_memory_size n"] by (meson le_less_trans le_trans)
  then show all: "file_packet_size n * block_packets n < 2 ^ 64" by simp
  have "block_packets n \<le> file_packet_size n * block_packets n" using pos by simp
  then have "block_packets n < 2 ^ 64" using all by linarith
  then show "unat packets = block_packets n"
    unfolding packets_def block_packets_def by (subst unat_mult_no_wrap) (simp_all add: unat_ucast_up)
qed

lemma geometry_room:
  assumes "block_geometry n" "k < block_packets n"
  shows "unat (msn_header_offset n) + k * unat (msn_data_stride_size n) + file_packet_size n \<le> unat (msn_block_payload_memory_size n)"
proof -
  have "Suc k * unat (msn_data_stride_size n) \<le> block_packets n * unat (msn_data_stride_size n)"
    using assms(2) by (intro mult_right_mono) auto
  then show ?thesis using assms(1) geometry_products(5)[OF assms(1)] by (simp add: block_geometry_def)
qed

lemma fill_memblock_content:
  assumes "block_geometry n" "readable f bytes p" "p + block_packets n * file_packet_size n \<le> length bytes"
    and "copy_reliable os (get_memory_utils (utils_payload_allocator (msn_memory_utils n)))"
  shows "\<exists>f' image. fill_memblock_from_file os n ptr (msn_block_payload_memory_size n) (msn_header_offset n) (f, m)
      = Some (success, f', mem_write m (unat ptr) image)
    \<and> readable f' bytes (p + block_packets n * file_packet_size n) \<and> length image = unat (msn_block_payload_memory_size n)
    \<and> (\<forall>k < block_packets n. take (file_packet_size n) (drop (unat (msn_header_offset n) + k * unat (msn_data_stride_size n)) image)
          = take (file_packet_size n) (drop (p + k * file_packet_size n) bytes))"
proof -
  note g = geometry_products[OF assms(1)]
  have op: "is_open f" using assms(2) by (simp add: readable_def is_open_def)
  obtain image f' where l: "fill_loop (ucast (msn_packet_payload_size n) - msn_header_offset n)
      (ucast (packets_in_frame_field (msn_media_settings n)) * frames_fields_in_mem_block (msn_media_settings n))
      (unat (msn_data_stride_size n)) 0 (unat (msn_header_offset n)) (replicate (unat (msn_block_payload_memory_size n)) 0) f
        = Some (success, image, f')"
    "readable f' bytes (p + block_packets n * file_packet_size n)" "length image = unat (msn_block_payload_memory_size n)"
    "\<forall>k < block_packets n. take (file_packet_size n) (drop (unat (msn_header_offset n) + k * unat (msn_data_stride_size n)) image)
      = take (file_packet_size n) (drop (p + k * file_packet_size n) bytes)"
  proof -
    have room: "\<forall>k < block_packets n. unat (msn_header_offset n) + k * unat (msn_data_stride_size n) + file_packet_size n
        \<le> length (replicate (unat (msn_block_payload_memory_size n)) (0 :: u8))"
      using geometry_room[OF assms(1)] by simp
    note c = fill_loop_content[OF assms(2) _ _ g(1)[symmetric] g(3), of "block_packets n"
        "ucast (packets_in_frame_field (msn_media_settings n)) * frames_fields_in_mem_block (msn_media_settings n)" 0 0
        "unat (msn_data_stride_size n)" "unat (msn_header_offset n)" "replicate (unat (msn_block_payload_memory_size n)) 0"]
    have "file_packet_size n \<le> unat (msn_data_stride_size n)" using g(5) by simp
    from c g(2,4) this assms(3) room show ?thesis by (auto intro!: that)
  qed
  show ?thesis
    using op l memory_copy_reliable[OF assms(4)]
    by (intro exI[of _ f'] exI[of _ image]) (simp add: fill_memblock_from_file_def Let_def)
qed

text \<open>A memory block as the node sets it, and a whole block set.\<close>

definition sent_block :: "u32 \<Rightarrow> 'p MediaSenderIONode \<Rightarrow> HeaderPayloadMemoryLayout \<Rightarrow> u64 \<Rightarrow> u64 \<Rightarrow> media_mem_block" where
  "sent_block mkey_invalid n l header_ptr payload_ptr =
    (let key = (\<lambda>keys. if register_memory l then hd keys else mkey_invalid);
         payload = \<lparr>addr = payload_ptr, region_length = msn_block_payload_memory_size n, mkey = key (payload_memory_keys l)\<rparr>;
         header = \<lparr>addr = header_ptr, region_length = msn_block_header_memory_size n, mkey = key (header_memory_keys l)\<rparr>
     in if msn_is_hds_on n
        then \<lparr>block_regions = [Some header, Some payload], block_dup_regions = [None, None],
              block_layouts = [Some (msn_mem_block_header_sizes n), Some (msn_mem_block_payload_sizes n)],
              block_chunk_count = msn_num_of_chunks_in_mem_block n\<rparr>
        else \<lparr>block_regions = [Some payload], block_dup_regions = [None], block_layouts = [Some (msn_mem_block_payload_sizes n)],
              block_chunk_count = msn_num_of_chunks_in_mem_block n\<rparr>)"

definition fresh_block :: "'p MediaSenderIONode \<Rightarrow> media_mem_block" where
  "fresh_block n = (let c = (if msn_is_hds_on n then 2 else 1)
     in \<lparr>block_regions = replicate c None, block_dup_regions = replicate c None, block_layouts = replicate c None,
         block_chunk_count = msn_num_of_chunks_in_mem_block n\<rparr>)"

text \<open>The keys a layout must bring when its memory is registered.\<close>

definition keys_present :: "'p MediaSenderIONode \<Rightarrow> HeaderPayloadMemoryLayout \<Rightarrow> bool" where
  "keys_present n l \<longleftrightarrow> (register_memory l \<longrightarrow> payload_memory_keys l \<noteq> [] \<and> (msn_is_hds_on n \<longrightarrow> header_memory_keys l \<noteq> []))"

lemma block_key_present:
  assumes "keys_present n l"
  shows "block_key mkey_invalid (register_memory l) (payload_memory_keys l)
      = Some (if register_memory l then hd (payload_memory_keys l) else mkey_invalid)"
    "msn_is_hds_on n \<Longrightarrow> block_key mkey_invalid (register_memory l) (header_memory_keys l)
      = Some (if register_memory l then hd (header_memory_keys l) else mkey_invalid)"
  using assms by (auto simp: block_key_def keys_present_def split: list.split)

lemma set_block_fresh:
  assumes "i < length (m_blocks b)" "m_blocks b ! i = fresh_block n" "m_sub_block_count b = (if msn_is_hds_on n then 2 else 1)"
    and "keys_present n l"
  shows "set_block mkey_invalid n l i header_ptr payload_ptr b
    = Some (b\<lparr>m_blocks := (m_blocks b)[i := sent_block mkey_invalid n l header_ptr payload_ptr]\<rparr>)"
  using assms
  by (cases "msn_is_hds_on n")
     (simp_all add: set_block_def block_key_present[of n] set_block_memory_def set_block_sizes_def set_block_layout_def sent_block_def
        fresh_block_def Let_def numeral_2_eq_2)

lemma set_block_keys: "set_block mkey_invalid n l i header_ptr payload_ptr b = Some b' \<Longrightarrow> keys_present n l"
  by (auto simp: set_block_def block_key_def keys_present_def bind_eq_Some_conv split: if_splits list.splits)

lemma list_update_prefix:
  "m_blocks b = xs @ replicate (Suc k) z \<Longrightarrow> (m_blocks b)[length xs := y] = (xs @ [y]) @ replicate k z"
  by simp

definition header_step :: "'p MediaSenderIONode \<Rightarrow> u64" where
  "header_step n = (if msn_is_hds_on n then msn_block_header_memory_size n else 0)"

definition sent_blocks :: "u32 \<Rightarrow> 'p MediaSenderIONode \<Rightarrow> HeaderPayloadMemoryLayout \<Rightarrow> u64 \<Rightarrow> u64 \<Rightarrow> nat \<Rightarrow> media_mem_block list" where
  "sent_blocks mkey_invalid n l header_ptr payload_ptr k =
    map (\<lambda>j. sent_block mkey_invalid n l (header_ptr + word_of_nat j * header_step n)
           (payload_ptr + word_of_nat j * msn_block_payload_memory_size n)) [0..<k]"

lemma sent_blocks_Suc:
  "sent_blocks mkey_invalid n l header_ptr payload_ptr (Suc k) = sent_block mkey_invalid n l header_ptr payload_ptr
     # sent_blocks mkey_invalid n l (next_header n header_ptr) (payload_ptr + msn_block_payload_memory_size n) k"
  by (simp add: sent_blocks_def map_upt_Suc header_step_def next_header_def algebra_simps del: upt_Suc)

lemma set_blocks_fresh:
  assumes "m_blocks b = xs @ replicate k (fresh_block n)" "m_sub_block_count b = (if msn_is_hds_on n then 2 else 1)" "keys_present n l"
  shows "set_blocks mkey_invalid n l (length xs) k header_ptr payload_ptr b
    = Some (b\<lparr>m_blocks := xs @ sent_blocks mkey_invalid n l header_ptr payload_ptr k\<rparr>)"
  using assms(1,2)
proof (induction k arbitrary: b xs header_ptr payload_ptr)
  case 0
  then show ?case by (simp add: sent_blocks_def)
next
  case (Suc k)
  let ?y = "sent_block mkey_invalid n l header_ptr payload_ptr"
  have s: "set_block mkey_invalid n l (length xs) header_ptr payload_ptr b = Some (b\<lparr>m_blocks := (xs @ [?y]) @ replicate k (fresh_block n)\<rparr>)"
    using Suc.prems assms(3) by (subst set_block_fresh) (simp_all add: list_update_prefix)
  show ?case
    using Suc.IH[of "b\<lparr>m_blocks := (xs @ [?y]) @ replicate k (fresh_block n)\<rparr>" "xs @ [?y]"] Suc.prems(2) s
    by (simp add: sent_blocks_Suc)
qed

lemma new_mem_blockset_blocks:
  "m_blocks (new_mem_blockset n) = [] @ replicate (unat (msn_num_of_memory_blocks n)) (fresh_block n)"
  "m_sub_block_count (new_mem_blockset n) = (if msn_is_hds_on n then 2 else 1)"
  by (simp_all add: new_mem_blockset_def MediaStreamMemBlockset_new_def fresh_block_def Let_def)

lemma initialize_mem_blockset_blocks:
  assumes "keys_present n l"
  shows "initialize_mem_blockset mkey_invalid n l header_ptr payload_ptr (new_mem_blockset n)
    = Some (success, (new_mem_blockset n)\<lparr>m_blocks := sent_blocks mkey_invalid n l header_ptr payload_ptr (unat (msn_num_of_memory_blocks n))\<rparr>)"
  using set_blocks_fresh[OF new_mem_blockset_blocks assms] by (simp add: initialize_mem_blockset_def)

text \<open>The image of a run of blocks: slice \<open>k\<close> of block \<open>j\<close> is packet \<open>j * packets + k\<close> of the file.\<close>

definition holds_packets :: "'p MediaSenderIONode \<Rightarrow> u8 list \<Rightarrow> nat \<Rightarrow> nat \<Rightarrow> nat \<Rightarrow> mem \<Rightarrow> bool" where
  "holds_packets n bytes p base count m \<longleftrightarrow> (\<forall>j < count. \<forall>k < block_packets n.
     mem_read m (base + j * unat (msn_block_payload_memory_size n) + unat (msn_header_offset n) + k * unat (msn_data_stride_size n)) (file_packet_size n)
       = take (file_packet_size n) (drop (p + (j * block_packets n + k) * file_packet_size n) bytes))"

lemma fill_blocks_content:
  assumes "m_blocks b = xs @ replicate k (fresh_block n)" "m_sub_block_count b = (if msn_is_hds_on n then 2 else 1)" "keys_present n l"
    and "block_geometry n" "readable f bytes p" "p + k * (block_packets n * file_packet_size n) \<le> length bytes"
    and "copy_reliable os (get_memory_utils (utils_payload_allocator (msn_memory_utils n)))"
    and "unat payload_ptr + k * unat (msn_block_payload_memory_size n) < 2 ^ 64"
  shows "\<exists>m'. fill_blocks os mkey_invalid n l (msn_header_offset n) (length xs) k header_ptr payload_ptr (b, f, m)
      = Some (success, b\<lparr>m_blocks := xs @ sent_blocks mkey_invalid n l header_ptr payload_ptr k\<rparr>, m')
    \<and> holds_packets n bytes p (unat payload_ptr) k m'
    \<and> (\<forall>x. x < unat payload_ptr \<or> unat payload_ptr + k * unat (msn_block_payload_memory_size n) \<le> x \<longrightarrow> m' x = m x)"
  using assms(1,2,5,6,8)
proof (induction k arbitrary: b xs header_ptr payload_ptr f p m)
  case 0
  then show ?case by (simp add: sent_blocks_def holds_packets_def)
next
  case (Suc k)
  let ?B = "unat (msn_block_payload_memory_size n)" and ?S = "file_packet_size n" and ?K = "block_packets n"
    and ?off = "unat (msn_header_offset n)" and ?stride = "unat (msn_data_stride_size n)"
  let ?y = "sent_block mkey_invalid n l header_ptr payload_ptr" and ?next = "payload_ptr + msn_block_payload_memory_size n"
  have s: "set_block mkey_invalid n l (length xs) header_ptr payload_ptr b = Some (b\<lparr>m_blocks := (xs @ [?y]) @ replicate k (fresh_block n)\<rparr>)"
    using Suc.prems assms(3) by (subst set_block_fresh) (simp_all add: list_update_prefix)
  have "p + ?K * ?S \<le> length bytes" using Suc.prems(4) by simp
  then obtain f1 image where fill: "fill_memblock_from_file os n payload_ptr (msn_block_payload_memory_size n) (msn_header_offset n) (f, m)
      = Some (success, f1, mem_write m (unat payload_ptr) image)" "readable f1 bytes (p + ?K * ?S)" "length image = ?B"
    "\<forall>i < ?K. take ?S (drop (?off + i * ?stride) image) = take ?S (drop (p + i * ?S) bytes)"
    using fill_memblock_content[OF assms(4) Suc.prems(3) _ assms(7)] by blast
  have next_ptr: "unat ?next = unat payload_ptr + ?B" using Suc.prems(5) by (intro unat_add_no_wrap) simp
  let ?b = "b\<lparr>m_blocks := (xs @ [?y]) @ replicate k (fresh_block n)\<rparr>"
  have more: "p + ?K * ?S + k * (?K * ?S) \<le> length bytes" "unat ?next + k * ?B < 2 ^ 64"
    using Suc.prems(4,5) next_ptr by simp_all
  have b: "m_blocks ?b = (xs @ [?y]) @ replicate k (fresh_block n)" "m_sub_block_count ?b = (if msn_is_hds_on n then 2 else 1)"
    using Suc.prems(2) by simp_all
  obtain m' where ih: "fill_blocks os mkey_invalid n l (msn_header_offset n) (length (xs @ [?y])) k (next_header n header_ptr) ?next
        (?b, f1, mem_write m (unat payload_ptr) image)
      = Some (success, ?b\<lparr>m_blocks := (xs @ [?y]) @ sent_blocks mkey_invalid n l (next_header n header_ptr) ?next k\<rparr>, m')"
    "holds_packets n bytes (p + ?K * ?S) (unat ?next) k m'"
    "\<forall>x. x < unat ?next \<or> unat ?next + k * ?B \<le> x \<longrightarrow> m' x = mem_write m (unat payload_ptr) image x"
    using Suc.IH[OF b fill(2) more] by blast
  then have m': "fill_blocks os mkey_invalid n l (msn_header_offset n) (length (xs @ [?y])) k (next_header n header_ptr) ?next
        (?b, f1, mem_write m (unat payload_ptr) image)
      = Some (success, b\<lparr>m_blocks := (xs @ [?y]) @ sent_blocks mkey_invalid n l (next_header n header_ptr) ?next k\<rparr>, m')"
    "holds_packets n bytes (p + ?K * ?S) (unat ?next) k m'"
    "\<forall>x. x < unat ?next \<or> unat ?next + k * ?B \<le> x \<longrightarrow> m' x = mem_write m (unat payload_ptr) image x"
    by simp_all
  have run: "fill_blocks os mkey_invalid n l (msn_header_offset n) (length xs) (Suc k) header_ptr payload_ptr (b, f, m)
      = Some (success, b\<lparr>m_blocks := xs @ sent_blocks mkey_invalid n l header_ptr payload_ptr (Suc k)\<rparr>, m')"
    using fill(1) s m'(1) by (simp add: sent_blocks_Suc)
  have outside: "m' x = m x" if "x < unat payload_ptr \<or> unat payload_ptr + Suc k * ?B \<le> x" for x
    using that m'(3) next_ptr fill(3) mem_write_outside[of x "unat payload_ptr" image m] by auto
  have first: "mem_read m' (unat payload_ptr + ?off + i * ?stride) ?S = take ?S (drop (p + i * ?S) bytes)" if "i < ?K" for i
  proof -
    have room: "?off + i * ?stride + ?S \<le> ?B" using geometry_room[OF assms(4) that] .
    have "mem_read m' (unat payload_ptr + ?off + i * ?stride) ?S
        = mem_read (mem_write m (unat payload_ptr) image) (unat payload_ptr + (?off + i * ?stride)) ?S"
      using m'(3) next_ptr room by (intro nth_equalityI) (simp_all add: add.assoc)
    then show ?thesis using mem_read_write_slice[of "?off + i * ?stride" ?S image m "unat payload_ptr"] room fill(3,4) that by simp
  qed
  have "holds_packets n bytes p (unat payload_ptr) (Suc k) m'"
    unfolding holds_packets_def
  proof (intro allI impI)
    fix j i assume j: "j < Suc k" and i: "i < ?K"
    show "mem_read m' (unat payload_ptr + j * ?B + ?off + i * ?stride) ?S = take ?S (drop (p + (j * ?K + i) * ?S) bytes)"
    proof (cases j)
      case 0
      then show ?thesis using first[OF i] by simp
    next
      case (Suc j')
      then have "mem_read m' (unat ?next + j' * ?B + ?off + i * ?stride) ?S = take ?S (drop (p + ?K * ?S + (j' * ?K + i) * ?S) bytes)"
        using m'(2) j i by (simp add: holds_packets_def)
      moreover have "p + ?K * ?S + (j' * ?K + i) * ?S = p + (j * ?K + i) * ?S" using Suc by (simp add: algebra_simps)
      ultimately show ?thesis using Suc next_ptr by (simp add: algebra_simps)
    qed
  qed
  then show ?case using run outside by blast
qed

text \<open>A stream with its memory blocks, and the streams of a node one after the other.\<close>

definition blockset_at :: "u32 \<Rightarrow> 'p MediaSenderIONode \<Rightarrow> HeaderPayloadMemoryLayout \<Rightarrow> u64 \<Rightarrow> u64 \<Rightarrow> MediaStreamMemBlockset" where
  "blockset_at mkey_invalid n l header_ptr payload_ptr =
    (new_mem_blockset n)\<lparr>m_blocks := sent_blocks mkey_invalid n l header_ptr payload_ptr (unat (msn_num_of_memory_blocks n))\<rparr>"

definition with_blockset :: "MediaStreamMemBlockset \<Rightarrow> 'p MediaStreamPack \<Rightarrow> 'p MediaStreamPack" where
  "with_blockset b p = p\<lparr>pack_mem_blockset := Some b,
     pack_stream := map_option (\<lambda>(rtp, base). (rtp, assign_memory_blocks b base)) (pack_stream p)\<rparr>"

fun with_blocksets :: "u32 \<Rightarrow> 'p MediaSenderIONode \<Rightarrow> HeaderPayloadMemoryLayout \<Rightarrow> u64 \<Rightarrow> u64 \<Rightarrow> 'p MediaStreamPack list \<Rightarrow> 'p MediaStreamPack list" where
  "with_blocksets mkey_invalid n l header_ptr payload_ptr [] = []"
| "with_blocksets mkey_invalid n l header_ptr payload_ptr (p # ps) =
    with_blockset (blockset_at mkey_invalid n l header_ptr payload_ptr) p
    # with_blocksets mkey_invalid n l (header_ptr + msn_num_of_memory_blocks n * msn_block_header_memory_size n)
        (payload_ptr + msn_num_of_memory_blocks n * msn_block_payload_memory_size n) ps"

lemma length_with_blocksets [simp]: "length (with_blocksets mkey_invalid n l header_ptr payload_ptr ps) = length ps"
  by (induction ps arbitrary: header_ptr payload_ptr) simp_all

lemma with_blocksets_nth:
  "s < length ps \<Longrightarrow> with_blocksets mkey_invalid n l header_ptr payload_ptr ps ! s
    = with_blockset (blockset_at mkey_invalid n l
        (header_ptr + word_of_nat s * (msn_num_of_memory_blocks n * msn_block_header_memory_size n))
        (payload_ptr + word_of_nat s * (msn_num_of_memory_blocks n * msn_block_payload_memory_size n))) (ps ! s)"
proof (induction ps arbitrary: header_ptr payload_ptr s)
  case (Cons p ps)
  then show ?case by (cases s) (simp_all add: algebra_simps)
qed simp

lemma assign_mem_blockset_with:
  "pack_stream p \<noteq> None \<Longrightarrow> assign_mem_blockset b p = Some (success, with_blockset b p)"
  by (auto simp: assign_mem_blockset_def with_blockset_def media_apply_memory_layout_def media_validate_memory_layout_def)

lemma apply_external_blocks:
  assumes "\<forall>p \<in> set ps. pack_stream p \<noteq> None" "keys_present n l" "\<not> loads_file n"
  shows "apply_external os env n l header_ptr payload_ptr (ps, m)
    = Some (success, with_blocksets (me_mkey_invalid env) n l header_ptr payload_ptr ps, m)"
  using assms(1)
  by (induction ps arbitrary: header_ptr payload_ptr)
     (simp_all add: assms(3) initialize_mem_blockset_blocks[OF assms(2)] assign_mem_blockset_with blockset_at_def)

lemma initialize_from_file_content:
  assumes "keys_present n l" "block_geometry n" "unat (msn_num_of_memory_blocks n) * (block_packets n * file_packet_size n) \<le> length bytes"
    and "copy_reliable os (get_memory_utils (utils_payload_allocator (msn_memory_utils n)))"
    and "unat payload_ptr + unat (msn_num_of_memory_blocks n) * unat (msn_block_payload_memory_size n) < 2 ^ 64"
  shows "\<exists>m'. initialize_mem_blockset_from_file os mkey_invalid (Some \<lparr>file_bytes = bytes, bad_from = None\<rparr>) n l header_ptr payload_ptr
        (new_mem_blockset n, m) = Some (success, blockset_at mkey_invalid n l header_ptr payload_ptr, m')
    \<and> holds_packets n bytes 0 (unat payload_ptr) (unat (msn_num_of_memory_blocks n)) m'
    \<and> (\<forall>x. x < unat payload_ptr \<or> unat payload_ptr + unat (msn_num_of_memory_blocks n) * unat (msn_block_payload_memory_size n) \<le> x
          \<longrightarrow> m' x = m x)"
proof -
  let ?f = "ifstream_seek 0 (ifstream_clear (ifstream_open (Some \<lparr>file_bytes = bytes, bad_from = None\<rparr>) ifstream_new))"
  have f: "readable ?f bytes 0" "is_open (ifstream_open (Some \<lparr>file_bytes = bytes, bad_from = None\<rparr>) ifstream_new)"
    by (simp_all add: readable_def ifstream_seek_def ifstream_clear_def ifstream_open_def ifstream_new_def is_open_def ifstream_fail_def Let_def)
  have "0 + unat (msn_num_of_memory_blocks n) * (block_packets n * file_packet_size n) \<le> length bytes" using assms(3) by simp
  from fill_blocks_content[OF new_mem_blockset_blocks assms(1,2) f(1) this assms(4,5), of mkey_invalid header_ptr m]
  show ?thesis using f(2) by (simp add: initialize_mem_blockset_from_file_def blockset_at_def Let_def)
qed

lemma holds_packets_cong:
  assumes "\<forall>x. base \<le> x \<and> x < base + count * unat (msn_block_payload_memory_size n) \<longrightarrow> m' x = m x" "block_geometry n"
  shows "holds_packets n bytes p base count m' = holds_packets n bytes p base count m"
proof -
  have "mem_read m' (base + j * unat (msn_block_payload_memory_size n) + unat (msn_header_offset n) + k * unat (msn_data_stride_size n)) (file_packet_size n)
      = mem_read m (base + j * unat (msn_block_payload_memory_size n) + unat (msn_header_offset n) + k * unat (msn_data_stride_size n)) (file_packet_size n)"
    if "j < count" "k < block_packets n" for j k
  proof -
    have "Suc j * unat (msn_block_payload_memory_size n) \<le> count * unat (msn_block_payload_memory_size n)"
      using that(1) by (intro mult_right_mono) auto
    then show ?thesis using geometry_room[OF assms(2) that(2)] assms(1) by (intro nth_equalityI) simp_all
  qed
  then show ?thesis by (simp add: holds_packets_def)
qed

lemma apply_external_file:
  assumes "\<forall>p \<in> set ps. pack_stream p \<noteq> None" "keys_present n l" "loads_file n"
    and "me_file env (msn_video_file n) = Some \<lparr>file_bytes = bytes, bad_from = None\<rparr>" "block_geometry n"
    and "unat (msn_num_of_memory_blocks n) * (block_packets n * file_packet_size n) \<le> length bytes"
    and "copy_reliable os (get_memory_utils (utils_payload_allocator (msn_memory_utils n)))"
    and "unat payload_ptr + length ps * (unat (msn_num_of_memory_blocks n) * unat (msn_block_payload_memory_size n)) < 2 ^ 64"
  shows "\<exists>m'. apply_external os env n l header_ptr payload_ptr (ps, m)
      = Some (success, with_blocksets (me_mkey_invalid env) n l header_ptr payload_ptr ps, m')
    \<and> (\<forall>s < length ps. holds_packets n bytes 0
          (unat payload_ptr + s * (unat (msn_num_of_memory_blocks n) * unat (msn_block_payload_memory_size n)))
          (unat (msn_num_of_memory_blocks n)) m')
    \<and> (\<forall>x. x < unat payload_ptr
          \<or> unat payload_ptr + length ps * (unat (msn_num_of_memory_blocks n) * unat (msn_block_payload_memory_size n)) \<le> x \<longrightarrow> m' x = m x)"
  using assms(1,8)
proof (induction ps arbitrary: header_ptr payload_ptr m)
  case (Cons p ps)
  let ?N = "unat (msn_num_of_memory_blocks n)" and ?B = "unat (msn_block_payload_memory_size n)"
  let ?next = "payload_ptr + msn_num_of_memory_blocks n * msn_block_payload_memory_size n"
  let ?next_header = "header_ptr + msn_num_of_memory_blocks n * msn_block_header_memory_size n"
  have room: "unat payload_ptr + ?N * ?B + length ps * (?N * ?B) < 2 ^ 64" using Cons.prems(2) by simp
  have prod: "unat (msn_num_of_memory_blocks n * msn_block_payload_memory_size n) = ?N * ?B"
    using room by (intro unat_mult_no_wrap) simp
  have next_ptr: "unat ?next = unat payload_ptr + ?N * ?B" using room prod by (subst unat_add_no_wrap) simp_all
  have "unat payload_ptr + ?N * ?B < 2 ^ 64" using room by simp
  then obtain m1 where m1: "initialize_mem_blockset_from_file os (me_mkey_invalid env) (Some \<lparr>file_bytes = bytes, bad_from = None\<rparr>) n l header_ptr
        payload_ptr (new_mem_blockset n, m) = Some (success, blockset_at (me_mkey_invalid env) n l header_ptr payload_ptr, m1)"
    "holds_packets n bytes 0 (unat payload_ptr) ?N m1"
    "\<forall>x. x < unat payload_ptr \<or> unat payload_ptr + ?N * ?B \<le> x \<longrightarrow> m1 x = m x"
    using initialize_from_file_content[OF assms(2,5,6,7)] by blast
  have "\<forall>p \<in> set ps. pack_stream p \<noteq> None" "unat ?next + length ps * (?N * ?B) < 2 ^ 64"
    using Cons.prems(1) room next_ptr by simp_all
  then obtain m2 where m2: "apply_external os env n l ?next_header ?next (ps, m1)
      = Some (success, with_blocksets (me_mkey_invalid env) n l ?next_header ?next ps, m2)"
    "\<forall>s < length ps. holds_packets n bytes 0 (unat ?next + s * (?N * ?B)) ?N m2"
    "\<forall>x. x < unat ?next \<or> unat ?next + length ps * (?N * ?B) \<le> x \<longrightarrow> m2 x = m1 x"
    using Cons.IH by blast
  have "apply_external os env n l header_ptr payload_ptr (p # ps, m)
      = Some (success, with_blocksets (me_mkey_invalid env) n l header_ptr payload_ptr (p # ps), m2)"
    using Cons.prems(1) assms(3,4) m1(1) m2(1) by (simp add: assign_mem_blockset_with)
  moreover have "holds_packets n bytes 0 (unat payload_ptr + s * (?N * ?B)) ?N m2" if "s < length (p # ps)" for s
  proof (cases s)
    case 0
    have "holds_packets n bytes 0 (unat payload_ptr) ?N m2 = holds_packets n bytes 0 (unat payload_ptr) ?N m1"
      using m2(3) next_ptr by (intro holds_packets_cong[OF _ assms(5)]) simp
    then show ?thesis using 0 m1(2) by simp
  next
    case (Suc s')
    then have "holds_packets n bytes 0 (unat ?next + s' * (?N * ?B)) ?N m2" using m2(2) that by simp
    moreover have "unat ?next + s' * (?N * ?B) = unat payload_ptr + s * (?N * ?B)" using Suc next_ptr by simp
    ultimately show ?thesis by (simp only:)
  qed
  moreover have "m2 x = m x" if "x < unat payload_ptr \<or> unat payload_ptr + length (p # ps) * (?N * ?B) \<le> x" for x
    using that m2(3) m1(3) next_ptr by auto
  ultimately show ?case by blast
qed simp

text \<open>Resizing the vectors of packet sizes changes nothing else.\<close>

lemma resize_block_sizes_same [simp]:
  "msn_stream_packs (resize_block_sizes n) = msn_stream_packs n" "msn_media_settings (resize_block_sizes n) = msn_media_settings n"
  "msn_video_file (resize_block_sizes n) = msn_video_file n" "msn_memory_utils (resize_block_sizes n) = msn_memory_utils n"
  "msn_num_of_memory_blocks (resize_block_sizes n) = msn_num_of_memory_blocks n"
  "msn_block_payload_memory_size (resize_block_sizes n) = msn_block_payload_memory_size n"
  "msn_block_header_memory_size (resize_block_sizes n) = msn_block_header_memory_size n"
  "msn_packet_payload_size (resize_block_sizes n) = msn_packet_payload_size n" "msn_data_stride_size (resize_block_sizes n) = msn_data_stride_size n"
  "msn_is_hds_on (resize_block_sizes n) = msn_is_hds_on n" "keys_present (resize_block_sizes n) l = keys_present n l" "loads_file (resize_block_sizes n) = loads_file n"
  "msn_header_total_memory_size (resize_block_sizes n) = msn_header_total_memory_size n"
  "msn_payload_total_memory_size (resize_block_sizes n) = msn_payload_total_memory_size n"
  by (simp_all add: resize_block_sizes_def msn_is_hds_on_def loads_file_def keys_present_def Let_def)

lemma resize_block_sizes_derived [simp]:
  "msn_header_offset (resize_block_sizes n) = msn_header_offset n" "block_packets (resize_block_sizes n) = block_packets n"
  "file_packet_size (resize_block_sizes n) = file_packet_size n" "block_geometry (resize_block_sizes n) = block_geometry n"
  "holds_packets (resize_block_sizes n) = holds_packets n" "header_step (resize_block_sizes n) = header_step n"
  by (simp_all add: msn_header_offset_def block_packets_def file_packet_size_def block_geometry_def holds_packets_def header_step_def fun_eq_iff)

lemma sent_block_payload:
  "\<exists>r. last (block_regions (sent_block mkey_invalid n l header_ptr payload_ptr)) = Some r \<and> addr r = payload_ptr
    \<and> region_length r = msn_block_payload_memory_size n"
  by (simp add: sent_block_def Let_def)

lemma scaled_address:
  fixes a c :: u64
  assumes "unat a + i * unat c < 2 ^ 64"
  shows "unat (a + word_of_nat i * c) = unat a + i * unat c"
proof (cases "unat c = 0")
  case True
  then show ?thesis by (simp add: unat_eq_zero)
next
  case False
  then have "i \<le> i * unat c" by simp
  then have i: "i < 2 ^ 64" using assms by linarith
  then have "unat (word_of_nat i :: u64) = i" by (intro unat_word_of_nat) simp
  then show ?thesis using assms by (subst unat_add_no_wrap; subst unat_mult_no_wrap) simp_all
qed

text \<open>What initialising the memory of a node computes.\<close>

lemma initialized_memory:
  assumes "msn_initialize_memory_layout os files n0 = Some (success, n)"
  obtains h p blocks where "determine_memory_layout_for_single_block os n0 = Some (h, p)"
    "loads_file n0 \<Longrightarrow> get_number_of_mem_blocks_per_file files (n0\<lparr>msn_block_header_memory_size := h, msn_block_payload_memory_size := p\<rparr>)
       = Some (success, blocks)"
    "\<not> loads_file n0 \<Longrightarrow> blocks = msn_num_of_memory_blocks n0"
    "n = n0\<lparr>msn_block_header_memory_size := h, msn_block_payload_memory_size := p, msn_num_of_memory_blocks := blocks,
      msn_header_total_memory_size := h * blocks * word_of_nat (length (msn_stream_packs n0)),
      msn_payload_total_memory_size := p * blocks * word_of_nat (length (msn_stream_packs n0))\<rparr>"
proof -
  obtain h p where hp: "determine_memory_layout_for_single_block os n0 = Some (h, p)"
    using assms by (cases "determine_memory_layout_for_single_block os n0") (auto simp: msn_initialize_memory_layout_def)
  let ?n = "n0\<lparr>msn_block_header_memory_size := h, msn_block_payload_memory_size := p\<rparr>"
  let ?blocks = "if loads_file n0 then get_number_of_mem_blocks_per_file files ?n else Some (success, msn_num_of_memory_blocks n0)"
  have run: "msn_initialize_memory_layout os files n0 = Option.bind ?blocks (\<lambda>(rc, blocks).
      Some (if rc \<noteq> success then (rc, ?n\<lparr>msn_num_of_memory_blocks := blocks\<rparr>)
        else (success, ?n\<lparr>msn_num_of_memory_blocks := blocks,
          msn_header_total_memory_size := h * blocks * word_of_nat (length (msn_stream_packs n0)),
          msn_payload_total_memory_size := p * blocks * word_of_nat (length (msn_stream_packs n0))\<rparr>)))"
    by (simp add: msn_initialize_memory_layout_def hp loads_file_def Let_def cong: if_cong)
  show ?thesis
  proof (cases ?blocks)
    case None
    then show ?thesis using assms run by simp
  next
    case (Some r)
    obtain rc blocks where r: "r = (rc, blocks)" by (cases r)
    let ?done = "?n\<lparr>msn_num_of_memory_blocks := blocks,
          msn_header_total_memory_size := h * blocks * word_of_nat (length (msn_stream_packs n0)),
          msn_payload_total_memory_size := p * blocks * word_of_nat (length (msn_stream_packs n0))\<rparr>"
    have eq: "(if rc \<noteq> success then (rc, ?n\<lparr>msn_num_of_memory_blocks := blocks\<rparr>) else (success, ?done)) = (success, n)"
      using assms unfolding run Some r by (simp only: Option.bind.simps prod.case option.inject)
    have rc: "rc = success" using arg_cong[OF eq, of fst] by (cases "rc = success") simp_all
    have n: "n = ?done" using arg_cong[OF eq, of snd] unfolding rc by (simp only: simp_thms if_False snd_conv)
    have "loads_file n0 \<Longrightarrow> get_number_of_mem_blocks_per_file files ?n = Some (success, blocks)"
      "\<not> loads_file n0 \<Longrightarrow> blocks = msn_num_of_memory_blocks n0"
      using Some unfolding r rc by (simp_all only: if_True if_False option.inject prod.inject simp_thms)
    from that[OF hp this n] show ?thesis .
  qed
qed

text \<open>The bytes of the frames of a block are those of its packets.\<close>

lemma mem_block_payload_bytes_geometry:
  assumes "block_geometry n"
  shows "unat (mem_block_payload_bytes n) = block_packets n * file_packet_size n"
proof -
  note g = geometry_products[OF assms] and gd = assms[unfolded block_geometry_def]
  show ?thesis
  proof (cases "msn_is_hds_on n")
    case True
    then have off: "msn_header_offset n = 0" "file_packet_size n = unat (msn_packet_payload_size n)"
      by (simp_all add: msn_header_offset_def file_packet_size_def)
    have "unat ((ucast (msn_packet_payload_size n) :: u32) * packets_in_frame_field (msn_media_settings n))
        = unat (msn_packet_payload_size n) * unat (packets_in_frame_field (msn_media_settings n))"
      using assms True by (subst unat_mult_no_wrap) (simp_all add: block_geometry_def unat_ucast_up mult.commute)
    moreover have "unat (ucast ((ucast (msn_packet_payload_size n) :: u32) * packets_in_frame_field (msn_media_settings n)) :: u64)
        = unat ((ucast (msn_packet_payload_size n) :: u32) * packets_in_frame_field (msn_media_settings n))"
      by (simp add: unat_ucast_up)
    ultimately have e: "unat (ucast ((ucast (msn_packet_payload_size n) :: u32) * packets_in_frame_field (msn_media_settings n)) :: u64)
        = unat (msn_packet_payload_size n) * unat (packets_in_frame_field (msn_media_settings n))" by simp
    have bytes: "mem_block_payload_bytes n = ucast ((ucast (msn_packet_payload_size n) :: u32) * packets_in_frame_field (msn_media_settings n))
        * frames_fields_in_mem_block (msn_media_settings n)"
      using True by (simp add: mem_block_payload_bytes_def Let_def)
    have prod: "unat (msn_packet_payload_size n) * unat (packets_in_frame_field (msn_media_settings n))
        * unat (frames_fields_in_mem_block (msn_media_settings n)) = block_packets n * file_packet_size n"
      by (simp add: block_packets_def off mult.assoc mult.left_commute mult.commute)
    show ?thesis unfolding bytes using g(4) prod e by (subst unat_mult_no_wrap) (simp_all add: mult.commute)
  next
    case False
    then have "mem_block_payload_bytes n = (ucast (msn_packet_payload_size n) - msn_header_offset n)
        * (ucast (packets_in_frame_field (msn_media_settings n)) * frames_fields_in_mem_block (msn_media_settings n))"
      by (simp add: mem_block_payload_bytes_def msn_header_offset_def Let_def mult.assoc)
    then show ?thesis using g(1,2,4) by (simp add: unat_mult_no_wrap mult.commute)
  qed
qed

text \<open>With a file.\<close>

lemma initialized_from_file:
  assumes "msn_initialize_memory_layout os files n0 = Some (success, n)" "loads_file n0"
    and "files (msn_video_file n0) = Some \<lparr>file_bytes = bytes, bad_from = None\<rparr>" "length bytes < 2 ^ 64"
    and "block_geometry n"
  shows "unat (msn_num_of_memory_blocks n) = length bytes div (block_packets n * file_packet_size n)"
    "msn_stream_packs n = msn_stream_packs n0" "loads_file n" "msn_video_file n = msn_video_file n0"
proof -
  obtain h p blocks where i: "determine_memory_layout_for_single_block os n0 = Some (h, p)"
    "get_number_of_mem_blocks_per_file files (n0\<lparr>msn_block_header_memory_size := h, msn_block_payload_memory_size := p\<rparr>) = Some (success, blocks)"
    "n = n0\<lparr>msn_block_header_memory_size := h, msn_block_payload_memory_size := p, msn_num_of_memory_blocks := blocks,
      msn_header_total_memory_size := h * blocks * word_of_nat (length (msn_stream_packs n0)),
      msn_payload_total_memory_size := p * blocks * word_of_nat (length (msn_stream_packs n0))\<rparr>"
    by (rule initialized_memory[OF assms(1)]) (use assms(2) in blast)
  have same: "msn_stream_packs n = msn_stream_packs n0" "msn_media_settings n = msn_media_settings n0" "msn_video_file n = msn_video_file n0"
    "msn_packet_header_size n = msn_packet_header_size n0" "msn_packet_payload_size n = msn_packet_payload_size n0"
    "msn_dynamic_video_file_load n = msn_dynamic_video_file_load n0"
    using i(3) by simp_all
  then show "msn_stream_packs n = msn_stream_packs n0" "loads_file n" "msn_video_file n = msn_video_file n0"
    using assms(2) by (simp_all add: loads_file_def)
  have bytes_eq: "mem_block_payload_bytes (n0\<lparr>msn_block_header_memory_size := h, msn_block_payload_memory_size := p\<rparr>) = mem_block_payload_bytes n"
    by (simp add: mem_block_payload_bytes_def msn_is_hds_on_def same Let_def)
  have op: "is_open (ifstream_open (Some \<lparr>file_bytes = bytes, bad_from = None\<rparr>) ifstream_new)"
    "ifstream_size (ifstream_open (Some \<lparr>file_bytes = bytes, bad_from = None\<rparr>) ifstream_new) = length bytes"
    by (simp_all add: ifstream_open_def ifstream_new_def is_open_def ifstream_size_def)
  have "blocks = word_of_nat (length bytes) div mem_block_payload_bytes n"
    using i(2) op assms(3) bytes_eq by (simp add: get_number_of_mem_blocks_per_file_def Let_def split: if_splits)
  then have blocks: "msn_num_of_memory_blocks n = word_of_nat (length bytes) div mem_block_payload_bytes n" using i(3) by simp
  from mem_block_payload_bytes_geometry[OF assms(5)]
  show "unat (msn_num_of_memory_blocks n) = length bytes div (block_packets n * file_packet_size n)"
    using blocks assms(4) by (simp add: unat_div unat_word_of_nat)
qed

text \<open>C11: the memory blocks hold the file.  A node that reads its frames from a file asks for as
  many memory blocks as the file fills.  When it accepts a memory layout, every stream is given that many blocks, of
  the size of a block and one after the other, and each block of each stream holds its share of the file: packet
  \<open>k\<close> of block \<open>j\<close> lies at stride \<open>k\<close>, behind the room for its headers, and is packet \<open>j * packets + k\<close> of the
  file.  The settings must fit: a packet its stride, the strides of the frames their block, and the products of
  sizes 64 bits.\<close>

theorem file_in_memory_blocks:
  assumes "msn_initialize_memory_layout os (me_file env) n0 = Some (success, n)" "loads_file n0"
    and "me_file env (msn_video_file n0) = Some \<lparr>file_bytes = bytes, bad_from = None\<rparr>" "length bytes < 2 ^ 64"
    and "block_geometry n"
    and "\<forall>p \<in> set (msn_stream_packs n). pack_stream p \<noteq> None" "msn_validate_memory_layout l n = success" "keys_present n l"
    and "copy_reliable os (get_memory_utils (utils_payload_allocator (msn_memory_utils n)))"
    and "unat (payload_memory_ptr l) + length (msn_stream_packs n) * (unat (msn_num_of_memory_blocks n) * unat (msn_block_payload_memory_size n)) < 2 ^ 64"
  shows "\<exists>n' m'. msn_apply_memory_layout os env l (n, m) = Some (success, n', m')
    \<and> length (msn_stream_packs n') = length (msn_stream_packs n)
    \<and> (\<forall>s < length (msn_stream_packs n). \<exists>b. pack_mem_blockset (msn_stream_packs n' ! s) = Some b
        \<and> length (m_blocks b) = length bytes div (block_packets n * file_packet_size n)
        \<and> (\<forall>j < length (m_blocks b). \<exists>r. last (block_regions (m_blocks b ! j)) = Some r
            \<and> region_length r = msn_block_payload_memory_size n
            \<and> unat (addr r) = unat (payload_memory_ptr l) + (s * length (m_blocks b) + j) * unat (msn_block_payload_memory_size n)
            \<and> (\<forall>k < block_packets n.
                mem_read m' (unat (addr r) + unat (msn_header_offset n) + k * unat (msn_data_stride_size n)) (file_packet_size n)
                = take (file_packet_size n) (drop ((j * block_packets n + k) * file_packet_size n) bytes))))"
proof -
  let ?n = "resize_block_sizes n" and ?N = "unat (msn_num_of_memory_blocks n)" and ?B = "unat (msn_block_payload_memory_size n)"
  note i = initialized_from_file[OF assms(1-5)]
  have external: "\<not> is_internal_allocation_requested l"
    using assms(7) by (auto simp: is_internal_allocation_requested_def msn_validate_memory_layout_def word_neq_0_conv split: if_splits)
  have room: "?N * (block_packets n * file_packet_size n) \<le> length bytes" using i(1) by simp
  obtain m' where m': "apply_external os env ?n l (header_memory_ptr l) (payload_memory_ptr l) (msn_stream_packs n, m)
      = Some (success, with_blocksets (me_mkey_invalid env) ?n l (header_memory_ptr l) (payload_memory_ptr l) (msn_stream_packs n), m')"
    "\<forall>s < length (msn_stream_packs n). holds_packets n bytes 0 (unat (payload_memory_ptr l) + s * (?N * ?B)) ?N m'"
    using apply_external_file[of "msn_stream_packs n" ?n l env bytes os "payload_memory_ptr l" "header_memory_ptr l" m] assms(3,5,6,8-10) i(3,4) room
    by auto
  let ?ps = "with_blocksets (me_mkey_invalid env) ?n l (header_memory_ptr l) (payload_memory_ptr l) (msn_stream_packs n)"
  define n' where "n' = ?n\<lparr>msn_stream_packs := ?ps\<rparr>"
  have packs: "msn_stream_packs n' = ?ps" by (simp add: n'_def)
  have run: "msn_apply_memory_layout os env l (n, m) = Some (success, n', m')"
    using external assms(7) m'(1) by (simp add: msn_apply_memory_layout_def n'_def Let_def)
  have "\<exists>b. pack_mem_blockset (msn_stream_packs n' ! s) = Some b \<and> length (m_blocks b) = length bytes div (block_packets n * file_packet_size n)
      \<and> (\<forall>j < length (m_blocks b). \<exists>r. last (block_regions (m_blocks b ! j)) = Some r \<and> region_length r = msn_block_payload_memory_size n
          \<and> unat (addr r) = unat (payload_memory_ptr l) + (s * length (m_blocks b) + j) * ?B
          \<and> (\<forall>k < block_packets n. mem_read m' (unat (addr r) + unat (msn_header_offset n) + k * unat (msn_data_stride_size n)) (file_packet_size n)
              = take (file_packet_size n) (drop ((j * block_packets n + k) * file_packet_size n) bytes)))"
    if s: "s < length (msn_stream_packs n)" for s
  proof -
    let ?pay = "payload_memory_ptr l + word_of_nat s * (msn_num_of_memory_blocks n * msn_block_payload_memory_size n)"
    let ?hdr = "header_memory_ptr l + word_of_nat s * (msn_num_of_memory_blocks n * msn_block_header_memory_size n)"
    let ?b = "blockset_at (me_mkey_invalid env) ?n l ?hdr ?pay"
    have all: "unat (payload_memory_ptr l) + Suc s * (?N * ?B) < 2 ^ 64"
    proof -
      have "Suc s * (?N * ?B) \<le> length (msn_stream_packs n) * (?N * ?B)" using s by (intro mult_right_mono) auto
      then show ?thesis using assms(10) by linarith
    qed
    have prod: "unat (msn_num_of_memory_blocks n * msn_block_payload_memory_size n) = ?N * ?B"
      using all by (intro unat_mult_no_wrap) simp
    have pay: "unat ?pay = unat (payload_memory_ptr l) + s * (?N * ?B)" using all prod by (subst scaled_address) simp_all
    have b: "pack_mem_blockset (?ps ! s) = Some ?b" "length (m_blocks ?b) = ?N"
      using with_blocksets_nth[OF s] by (simp_all add: with_blockset_def blockset_at_def sent_blocks_def)
    have "\<exists>r. last (block_regions (m_blocks ?b ! j)) = Some r \<and> region_length r = msn_block_payload_memory_size n
          \<and> unat (addr r) = unat (payload_memory_ptr l) + (s * ?N + j) * ?B
          \<and> (\<forall>k < block_packets n. mem_read m' (unat (addr r) + unat (msn_header_offset n) + k * unat (msn_data_stride_size n)) (file_packet_size n)
              = take (file_packet_size n) (drop ((j * block_packets n + k) * file_packet_size n) bytes))" if j: "j < ?N" for j
    proof -
      have jB: "j * ?B \<le> ?N * ?B" using j by (intro mult_right_mono) auto
      have same: "unat (payload_memory_ptr l) + (s * ?N + j) * ?B = unat (payload_memory_ptr l) + s * (?N * ?B) + j * ?B"
        by (simp add: add_mult_distrib mult.assoc)
      have "unat ?pay + j * ?B < 2 ^ 64" using all pay jB unfolding mult_Suc by linarith
      then have at: "unat (?pay + word_of_nat j * msn_block_payload_memory_size n) = unat (payload_memory_ptr l) + (s * ?N + j) * ?B"
        by (subst scaled_address) (simp_all only: pay same)
      have blk: "m_blocks ?b ! j = sent_block (me_mkey_invalid env) ?n l (?hdr + word_of_nat j * header_step n) (?pay + word_of_nat j * msn_block_payload_memory_size n)"
        using j by (simp add: blockset_at_def sent_blocks_def)
      have content: "mem_read m' (unat (payload_memory_ptr l) + s * (?N * ?B) + j * ?B + unat (msn_header_offset n) + k * unat (msn_data_stride_size n)) (file_packet_size n)
          = take (file_packet_size n) (drop ((j * block_packets n + k) * file_packet_size n) bytes)" if "k < block_packets n" for k
        using m'(2) s j that by (simp add: holds_packets_def)
      obtain r where r: "last (block_regions (m_blocks ?b ! j)) = Some r"
        "addr r = ?pay + word_of_nat j * msn_block_payload_memory_size n" "region_length r = msn_block_payload_memory_size n"
        using sent_block_payload[of "me_mkey_invalid env" ?n l] unfolding blk by (metis resize_block_sizes_same(6))
      show ?thesis
        using r at content by (intro exI[of _ r]) (simp add: same)
    qed
    then show ?thesis unfolding packs by (intro exI[of _ ?b] conjI allI impI) (simp_all only: b i(1)[symmetric])
  qed
  moreover have "length (msn_stream_packs n') = length (msn_stream_packs n)" by (simp add: packs)
  ultimately show ?thesis using run by blast
qed

section \<open>Any file stays inside the blocks\<close>

lemma memory_copy_outside:
  assumes "x < dst \<or> dst + length src \<le> x"
  shows "snd (memory_copy os utils m dst src) x = m x"
  using assms by (auto simp: memory_copy_def mem_write_outside)

lemma fill_memblock_defined:
  assumes "block_geometry n"
  obtains rc f' m' where "fill_memblock_from_file os n ptr (msn_block_payload_memory_size n) (msn_header_offset n) (f, m) = Some (rc, f', m')"
    "rc \<in> {success, failure}"
    "\<forall>x. x < unat ptr \<or> unat ptr + unat (msn_block_payload_memory_size n) \<le> x \<longrightarrow> m' x = m x"
proof (cases "is_open f")
  case False
  then show ?thesis using that[of failure f m] by (simp add: fill_memblock_from_file_def)
next
  case True
  let ?ps = "ucast (msn_packet_payload_size n) - msn_header_offset n :: u64"
    and ?pk = "ucast (packets_in_frame_field (msn_media_settings n)) * frames_fields_in_mem_block (msn_media_settings n) :: u64"
  note g = geometry_products[OF assms]
  have room: "\<forall>i. 0 \<le> i \<and> i < unat ?pk \<longrightarrow> unat (msn_header_offset n) + (i - 0) * unat (msn_data_stride_size n) + unat ?ps
      \<le> length (replicate (unat (msn_block_payload_memory_size n)) (0 :: u8))"
    using geometry_room[OF assms] g(1,2) by simp
  have "unat ?ps * unat ?pk < 2 ^ 64" "unat ?ps \<le> unat (msn_data_stride_size n)" using g by simp_all
  from fill_loop_defined[OF this(1) _ this(2) room, of 0 f]
  obtain rc buf f' where l: "fill_loop ?ps ?pk (unat (msn_data_stride_size n)) 0 (unat (msn_header_offset n))
      (replicate (unat (msn_block_payload_memory_size n)) 0) f = Some (rc, buf, f')"
    "length buf = unat (msn_block_payload_memory_size n)" "rc \<in> {success, failure}"
    by auto
  show ?thesis
  proof (cases "rc = success")
    case False
    then show ?thesis using that[of rc f' m] l True by (simp add: fill_memblock_from_file_def Let_def)
  next
    case rc: True
    show ?thesis
      by (rule that[of success f' "snd (memory_copy os (get_memory_utils (utils_payload_allocator (msn_memory_utils n))) m (unat ptr) buf)"])
         (use l True rc in \<open>simp_all add: fill_memblock_from_file_def Let_def memory_copy_outside\<close>)
  qed
qed

lemma fill_blocks_inside:
  assumes "m_blocks b = xs @ replicate k (fresh_block n)" "m_sub_block_count b = (if msn_is_hds_on n then 2 else 1)" "keys_present n l"
    and "block_geometry n" "unat payload_ptr + k * unat (msn_block_payload_memory_size n) < 2 ^ 64"
  shows "\<exists>rc b' m'. fill_blocks os mkey_invalid n l (msn_header_offset n) (length xs) k header_ptr payload_ptr (b, f, m) = Some (rc, b', m')
    \<and> rc \<in> {success, failure}
    \<and> (\<forall>x. x < unat payload_ptr \<or> unat payload_ptr + k * unat (msn_block_payload_memory_size n) \<le> x \<longrightarrow> m' x = m x)"
  using assms(1,2,5)
proof (induction k arbitrary: b xs header_ptr payload_ptr f m)
  case (Suc k)
  let ?B = "unat (msn_block_payload_memory_size n)"
  let ?y = "sent_block mkey_invalid n l header_ptr payload_ptr" and ?next = "payload_ptr + msn_block_payload_memory_size n"
  let ?b = "b\<lparr>m_blocks := (xs @ [?y]) @ replicate k (fresh_block n)\<rparr>"
  have s: "set_block mkey_invalid n l (length xs) header_ptr payload_ptr b = Some ?b"
    using Suc.prems assms(3) by (subst set_block_fresh) (simp_all add: list_update_prefix)
  obtain rc f1 m1 where fill: "fill_memblock_from_file os n payload_ptr (msn_block_payload_memory_size n) (msn_header_offset n) (f, m)
      = Some (rc, f1, m1)" "rc \<in> {success, failure}" "\<forall>x. x < unat payload_ptr \<or> unat payload_ptr + ?B \<le> x \<longrightarrow> m1 x = m x"
    by (rule fill_memblock_defined[OF assms(4)])
  show ?case
  proof (cases "rc = success")
    case False
    then show ?thesis using fill by simp
  next
    case True
    have next_ptr: "unat ?next = unat payload_ptr + ?B" using Suc.prems(3) by (intro unat_add_no_wrap) simp
    have b: "m_blocks ?b = (xs @ [?y]) @ replicate k (fresh_block n)" "m_sub_block_count ?b = (if msn_is_hds_on n then 2 else 1)"
      using Suc.prems(2) by simp_all
    have "unat ?next + k * ?B < 2 ^ 64" using Suc.prems(3) next_ptr by simp
    from Suc.IH[OF b this, of "next_header n header_ptr" f1 m1] obtain rc' b' m' where ih:
      "fill_blocks os mkey_invalid n l (msn_header_offset n) (length (xs @ [?y])) k (next_header n header_ptr) ?next (?b, f1, m1) = Some (rc', b', m')"
      "rc' \<in> {success, failure}" "\<forall>x. x < unat ?next \<or> unat ?next + k * ?B \<le> x \<longrightarrow> m' x = m1 x"
      by blast
    have "m' x = m x" if "x < unat payload_ptr \<or> unat payload_ptr + Suc k * ?B \<le> x" for x
      using that ih(3) fill(3) next_ptr by auto
    then show ?thesis using fill(1) True s ih(1,2) by simp
  qed
qed simp

lemma apply_external_inside:
  assumes "\<forall>p \<in> set ps. pack_stream p \<noteq> None" "keys_present n l" "block_geometry n"
    and "unat payload_ptr + length ps * (unat (msn_num_of_memory_blocks n) * unat (msn_block_payload_memory_size n)) < 2 ^ 64"
  shows "\<exists>rc ps' m'. apply_external os env n l header_ptr payload_ptr (ps, m) = Some (rc, ps', m') \<and> rc \<in> {success, failure}
    \<and> (\<forall>x. x < unat payload_ptr
          \<or> unat payload_ptr + length ps * (unat (msn_num_of_memory_blocks n) * unat (msn_block_payload_memory_size n)) \<le> x \<longrightarrow> m' x = m x)"
  using assms(1,4)
proof (induction ps arbitrary: header_ptr payload_ptr m)
  case (Cons p ps)
  let ?N = "unat (msn_num_of_memory_blocks n)" and ?B = "unat (msn_block_payload_memory_size n)"
  let ?next = "payload_ptr + msn_num_of_memory_blocks n * msn_block_payload_memory_size n"
  let ?next_header = "header_ptr + msn_num_of_memory_blocks n * msn_block_header_memory_size n"
  let ?init = "if loads_file n
    then initialize_mem_blockset_from_file os (me_mkey_invalid env) (me_file env (msn_video_file n)) n l header_ptr payload_ptr (new_mem_blockset n, m)
    else map_option (\<lambda>(rc, b). (rc, b, m)) (initialize_mem_blockset (me_mkey_invalid env) n l header_ptr payload_ptr (new_mem_blockset n))"
  have room: "unat payload_ptr + ?N * ?B + length ps * (?N * ?B) < 2 ^ 64" using Cons.prems(2) by simp
  have prod: "unat (msn_num_of_memory_blocks n * msn_block_payload_memory_size n) = ?N * ?B"
    using room by (intro unat_mult_no_wrap) simp
  have next_ptr: "unat ?next = unat payload_ptr + ?N * ?B" using room prod by (subst unat_add_no_wrap) simp_all
  have "unat payload_ptr + ?N * ?B < 2 ^ 64" using room by simp
  note inside = fill_blocks_inside[OF new_mem_blockset_blocks assms(2,3) this, of os "me_mkey_invalid env" header_ptr _ m]
  obtain rc b m1 where i: "?init = Some (rc, b, m1)" "rc \<in> {success, failure}"
    "\<forall>x. x < unat payload_ptr \<or> unat payload_ptr + ?N * ?B \<le> x \<longrightarrow> m1 x = m x"
  proof (cases "loads_file n")
    case True
    let ?f = "ifstream_open (me_file env (msn_video_file n)) ifstream_new"
    from inside[of "ifstream_seek 0 (ifstream_clear ?f)"] show ?thesis
      using True that by (cases "is_open ?f") (auto simp: initialize_mem_blockset_from_file_def Let_def)
  next
    case False
    then show ?thesis using that initialize_mem_blockset_blocks[OF assms(2)] by simp
  qed
  have "\<forall>p \<in> set ps. pack_stream p \<noteq> None" "unat ?next + length ps * (?N * ?B) < 2 ^ 64"
    using Cons.prems(1) room next_ptr by simp_all
  then obtain rc2 ps2 m2 where m2: "apply_external os env n l ?next_header ?next (ps, m1) = Some (rc2, ps2, m2)" "rc2 \<in> {success, failure}"
    "\<forall>x. x < unat ?next \<or> unat ?next + length ps * (?N * ?B) \<le> x \<longrightarrow> m2 x = m1 x"
    using Cons.IH by blast
  show ?case
  proof (cases "rc = success")
    case False
    then show ?thesis using i by simp
  next
    case True
    have "apply_external os env n l header_ptr payload_ptr (p # ps, m) = Some (rc2, with_blockset b p # ps2, m2)"
      using Cons.prems(1) i(1) m2(1) True by (simp add: assign_mem_blockset_with)
    moreover have "m2 x = m x" if "x < unat payload_ptr \<or> unat payload_ptr + length (p # ps) * (?N * ?B) \<le> x" for x
      using that m2(3) i(3) next_ptr by auto
    ultimately show ?thesis using m2(2) by blast
  qed
qed simp

text \<open>C14: loading a file writes only the blocks.  Whatever the file is - missing, cut off, or failing at
  any byte - giving a node its memory ends with success or failure, and changes no byte outside the memory blocks of
  its streams.\<close>

theorem loading_stays_inside:
  assumes "\<forall>p \<in> set (msn_stream_packs n). pack_stream p \<noteq> None" "keys_present n l" "block_geometry n"
    and "unat (payload_memory_ptr l) + length (msn_stream_packs n) * (unat (msn_num_of_memory_blocks n) * unat (msn_block_payload_memory_size n)) < 2 ^ 64"
    and "msn_validate_memory_layout l n = success"
  shows "\<exists>rc n' m'. msn_apply_memory_layout os env l (n, m) = Some (rc, n', m') \<and> rc \<in> {success, failure}
    \<and> (\<forall>x. x < unat (payload_memory_ptr l)
         \<or> unat (payload_memory_ptr l) + length (msn_stream_packs n) * (unat (msn_num_of_memory_blocks n) * unat (msn_block_payload_memory_size n)) \<le> x
         \<longrightarrow> m' x = m x)"
proof -
  have external: "\<not> is_internal_allocation_requested l"
    using assms(5) by (auto simp: is_internal_allocation_requested_def msn_validate_memory_layout_def word_neq_0_conv split: if_splits)
  from apply_external_inside[of "msn_stream_packs n" "resize_block_sizes n" l "payload_memory_ptr l" os env "header_memory_ptr l" m]
  obtain rc ps' m' where "apply_external os env (resize_block_sizes n) l (header_memory_ptr l) (payload_memory_ptr l) (msn_stream_packs n, m)
      = Some (rc, ps', m')" "rc \<in> {success, failure}"
    "\<forall>x. x < unat (payload_memory_ptr l)
       \<or> unat (payload_memory_ptr l) + length (msn_stream_packs n) * (unat (msn_num_of_memory_blocks n) * unat (msn_block_payload_memory_size n)) \<le> x
       \<longrightarrow> m' x = m x"
    using assms by auto
  then show ?thesis using external assms(5) by (simp add: msn_apply_memory_layout_def Let_def)
qed

section \<open>The settings of the supported formats fit\<close>

text \<open>What the constructor of a node sets from the settings when no memory of a GPU is used.\<close>

definition node_of_settings :: "('p, 'l) media_env \<Rightarrow> AppSettings \<Rightarrow> 'p MediaSenderIONode \<Rightarrow> bool" where
  "node_of_settings env s n \<longleftrightarrow> msn_media_settings n = media s \<and> msn_packet_header_size n = packet_app_header_size s
    \<and> msn_packet_payload_size n = packet_payload_size s
    \<and> msn_data_stride_size n = align_up_pow2 (ucast (packet_payload_size s)) (me_cache_line_size env)
    \<and> msn_block_payload_memory_size n = msn_data_stride_size n * (num_of_packets_in_chunk s * num_of_chunks_in_mem_block s)"

lemma initialize_memory_returns:
  assumes "\<not> msn_gpu_enabled n0"
    and "n1 = n0\<lparr>msn_block_header_memory_size :=
           if msn_is_hds_on n0 then msn_app_header_stride_size n0 * (msn_num_of_packets_in_chunk n0 * msn_num_of_chunks_in_mem_block n0) else 0,
         msn_block_payload_memory_size := msn_data_stride_size n0 * (msn_num_of_packets_in_chunk n0 * msn_num_of_chunks_in_mem_block n0)\<rparr>"
    and "mem_block_payload_bytes n1 \<noteq> 0"
  shows "\<exists>rc blocks header payload. msn_initialize_memory_layout os files n0 = Some (rc, n1\<lparr>msn_num_of_memory_blocks := blocks,
    msn_header_total_memory_size := header, msn_payload_total_memory_size := payload\<rparr>)"
proof -
  have d: "determine_memory_layout_for_single_block os n0 = Some (msn_block_header_memory_size n1, msn_block_payload_memory_size n1)"
    using assms(1) by (simp add: assms(2) determine_memory_layout_for_single_block_def Let_def)
  have upd: "n0\<lparr>msn_block_header_memory_size := msn_block_header_memory_size n1, msn_block_payload_memory_size := msn_block_payload_memory_size n1\<rparr> = n1"
    by (simp add: assms(2))
  have some: "get_number_of_mem_blocks_per_file files n1 \<noteq> None"
    using assms(3) by (simp add: get_number_of_mem_blocks_per_file_def Let_def)
  obtain rc blocks where b: "(if loads_file n1 then get_number_of_mem_blocks_per_file files n1 else Some (success, msn_num_of_memory_blocks n1))
      = Some (rc, blocks)"
    using some by (cases "loads_file n1"; cases "get_number_of_mem_blocks_per_file files n1") auto
  have keep: "n1\<lparr>msn_num_of_memory_blocks := blocks\<rparr> = n1\<lparr>msn_num_of_memory_blocks := blocks,
      msn_header_total_memory_size := msn_header_total_memory_size n1, msn_payload_total_memory_size := msn_payload_total_memory_size n1\<rparr>"
    by simp
  show ?thesis
    unfolding msn_initialize_memory_layout_def d Option.bind.simps prod.case Let_def upd b
    by (cases "rc = success") (simp_all only: simp_thms if_True if_False option.inject prod.inject ex_simps, blast, metis keep)
qed

lemma new_node_fields:
  assumes "app_gpu_id s = INVALID_GPU_ID" "\<And>n. node_of_settings env s n \<Longrightarrow> mem_block_payload_bytes n \<noteq> 0"
  obtains n where "MediaSenderIONode_new env os source s i k core utils = Some n" "node_of_settings env s n"
proof -
  let ?n0 = "sender_members env source s i k core utils"
  have gpu: "\<not> msn_gpu_enabled ?n0" using assms(1) by (simp add: sender_members_def)
  define n1 where "n1 = ?n0\<lparr>msn_block_header_memory_size :=
           if msn_is_hds_on ?n0 then msn_app_header_stride_size ?n0 * (msn_num_of_packets_in_chunk ?n0 * msn_num_of_chunks_in_mem_block ?n0) else 0,
         msn_block_payload_memory_size := msn_data_stride_size ?n0 * (msn_num_of_packets_in_chunk ?n0 * msn_num_of_chunks_in_mem_block ?n0)\<rparr>"
  have "mem_block_payload_bytes n1 \<noteq> 0" by (rule assms(2)) (simp add: n1_def sender_members_def node_of_settings_def)
  from initialize_memory_returns[OF gpu n1_def this, of os "me_file env"] obtain rc blocks header payload where
    r: "msn_initialize_memory_layout os (me_file env) ?n0 = Some (rc, n1\<lparr>msn_num_of_memory_blocks := blocks,
      msn_header_total_memory_size := header, msn_payload_total_memory_size := payload\<rparr>)"
    by blast
  show ?thesis
    by (rule that[of "n1\<lparr>msn_num_of_memory_blocks := blocks, msn_header_total_memory_size := header, msn_payload_total_memory_size := payload\<rparr>"])
       (simp add: MediaSenderIONode_new_def r, simp add: n1_def sender_members_def node_of_settings_def)
qed

lemma supported_node_fits:
  assumes node: "node_of_settings env s' n" and line: "me_cache_line_size env = 2 ^ c" "c \<le> 12"
    and frames: "unat (frames_fields_in_mem_block (media s')) < 2 ^ 16"
    and s: "unat (packets_in_frame_field (media s')) * per_frame * unat (raw_packet_payload_size (media s')) = unat (bytes_per_frame (media s'))"
      "unat (packets_in_frame_field (media s')) \<le> unat (chunks_in_frame_field (media s')) * unat (num_of_packets_in_chunk s')"
      "unat (chunks_in_frame_field (media s')) * unat (num_of_packets_in_chunk s')
        < unat (packets_in_frame_field (media s')) + unat (num_of_packets_in_chunk s')"
      "unat (raw_packet_payload_size (media s')) < 2 ^ 12" "0 < unat (raw_packet_payload_size (media s'))"
      "unat (packets_in_frame_field (media s')) < 2 ^ 24" "unat (num_of_packets_in_chunk s') < 2 ^ 24"
      "unat (packet_payload_size s') = unat (raw_packet_payload_size (media s')) + (if hds then 0 else 20)"
      "hds \<longrightarrow> packet_app_header_size s' = 20" "protocol_header_size (media s') = 20"
      "num_of_chunks_in_mem_block s' = frames_fields_in_mem_block (media s') * chunks_in_frame_field (media s')"
      "unat (bytes_per_frame (media s')) < 2 ^ 26" "0 < per_frame" "0 < unat (packets_in_frame_field (media s'))"
  shows "block_geometry n"
    "unat (msn_block_payload_memory_size n) = unat (frames_fields_in_mem_block (media s'))
      * (unat (chunks_in_frame_field (media s')) * unat (num_of_packets_in_chunk s')) * unat (msn_data_stride_size n)"
    "block_packets n = unat (packets_in_frame_field (media s')) * unat (frames_fields_in_mem_block (media s'))"
    "file_packet_size n = unat (raw_packet_payload_size (media s')) + (if hds \<or> packet_app_header_size s' = 0 then 0 else 20)"
proof -
  let ?raw = "unat (raw_packet_payload_size (media s'))" and ?pif = "unat (packets_in_frame_field (media s'))"
    and ?f = "unat (frames_fields_in_mem_block (media s'))" and ?ch = "unat (chunks_in_frame_field (media s'))"
    and ?ck = "unat (num_of_packets_in_chunk s')"
  have n: "msn_media_settings n = media s'" "msn_packet_header_size n = packet_app_header_size s'" "msn_packet_payload_size n = packet_payload_size s'"
    "msn_data_stride_size n = align_up_pow2 (ucast (packet_payload_size s')) (me_cache_line_size env)"
    "msn_block_payload_memory_size n = msn_data_stride_size n * (num_of_packets_in_chunk s' * num_of_chunks_in_mem_block s')"
    using node by (simp_all add: node_of_settings_def)
  let ?payload = "unat (packet_payload_size s')" and ?stride = "unat (msn_data_stride_size n)"
  have on: "msn_is_hds_on n = (packet_app_header_size s' \<noteq> 0)" "hds \<Longrightarrow> packet_app_header_size s' \<noteq> 0"
    using s(9) by (auto simp: msn_is_hds_on_def n)
  have off: "unat (msn_header_offset n) = (if packet_app_header_size s' \<noteq> 0 then 0 else 20)"
    by (simp add: msn_header_offset_def on(1) n s(10))
  show size: "file_packet_size n = ?raw + (if hds \<or> packet_app_header_size s' = 0 then 0 else 20)"
    using on(2) by (auto simp: file_packet_size_def off n s(8))
  show packets: "block_packets n = ?pif * ?f" by (simp add: block_packets_def n)
  have c12: "(2 :: nat) ^ c \<le> 2 ^ 12" using line(2) by (intro power_increasing) simp_all
  have "unat (ucast (packet_payload_size s') :: u64) = ?payload" by (simp add: unat_ucast_up)
  moreover have "?payload + (2 ^ c - 1) < 2 ^ 64" using s(4,8) c12 by (simp split: if_splits)
  ultimately have stride: "?payload \<le> ?stride" "?stride < 2 ^ 14"
    using align_up_power_bounds[of c "ucast (packet_payload_size s')"] line c12 s(4,8) by (auto simp: n(4) split: if_splits)
  have all: "?ch * ?ck < 2 ^ 25" using s(3,6,7) by simp
  have "0 < ?ck" using s(2,14) by (cases "?ck = 0") auto
  then have "?ch \<le> ?ch * ?ck" by simp
  then have ch: "?ch < 2 ^ 25" using all by (rule le_less_trans)
  have pf: "?f * (?ch * ?ck) < 2 ^ 41" using mult_strict_mono[OF frames all] by simp
  have "unat (num_of_chunks_in_mem_block s') = ?f * ?ch"
    unfolding s(11) using mult_strict_mono[OF frames ch] by (intro unat_mult_no_wrap) simp
  then have chunks: "unat (num_of_packets_in_chunk s' * num_of_chunks_in_mem_block s') = ?f * (?ch * ?ck)"
    using pf by (subst unat_mult_no_wrap) (simp_all add: mult.commute mult.left_commute)
  have "?f * (?ch * ?ck) * ?stride < 2 ^ 55" using mult_strict_mono[OF pf stride(2)] by simp
  then show block: "unat (msn_block_payload_memory_size n) = ?f * (?ch * ?ck) * ?stride"
    unfolding n(5) using chunks by (subst unat_mult_no_wrap) (simp_all add: mult.commute mult.left_commute)
  have small: "?pif * ?payload < 2 ^ 32"
  proof -
    have "?pif * ?raw * 1 \<le> ?pif * ?raw * per_frame" using s(13) by (intro mult_left_mono) simp_all
    then have "?pif * ?raw \<le> unat (bytes_per_frame (media s'))" unfolding s(1)[symmetric] by (simp add: mult.commute mult.left_commute)
    moreover have "?pif * ?payload \<le> ?pif * ?raw + ?pif * 20" by (simp add: s(8) add_mult_distrib2)
    ultimately show ?thesis using s(6,12) by simp
  qed
  have "?pif * ?f \<le> ?f * (?ch * ?ck)" using s(2) by (simp add: mult.commute)
  then have "?pif * ?f * ?stride \<le> unat (msn_block_payload_memory_size n)" unfolding block by (rule mult_right_mono) simp
  then show "block_geometry n"
    unfolding block_geometry_def off n(3) packets using stride(1) small s(5,8) on by (simp add: n(1))
qed

text \<open>C15: the settings of every video format the applications accept fit the memory blocks of
  a sender, 12-bit 4:2:2 and chunk sizes asked for included.  The initialised settings give a node, when no memory of a
  GPU is used, in which a packet fits its stride and a block has a stride for every packet of its frames or fields: the
  strides of its chunks, which are exactly those packets for progressive video or the default chunk size.  The packets
  of a block take from a file exactly the bytes of its frames or fields, unless an application header is asked for
  without header-data split, for which this application has no option: then each packet takes 20 bytes too many.  This
  holds for every size of a cache line that is a power of two up to a page and for up to 2^16 frames in a block.\<close>

theorem supported_formats_fit_blocks:
  assumes fmt: "sampling_type (media s) \<in> set SUPPORTED_VIDEO_SAMPLING_TYPES"
      "bit_depth (media s) \<in> set SUPPORTED_VIDEO_BIT_DEPTHS"
      "resolution (media s) \<in> set SUPPORTED_VIDEO_RESOLUTIONS"
    and fr: "num (frame_rate (media s)) \<noteq> 0" "denom (frame_rate (media s)) \<noteq> 0"
    and chunk: "num_of_packets_in_chunk_specified s \<longrightarrow> num_of_packets_in_chunk s \<noteq> 0"
    and cpu: "app_gpu_id s = INVALID_GPU_ID"
    and frames: "0 < frames_fields_in_mem_block (media s)" "unat (frames_fields_in_mem_block (media s)) < 2 ^ 16"
    and line: "me_cache_line_size env = 2 ^ c" "c \<le> 12"
  shows "\<exists>s' n fields. initialize_common_media_settings s = Some (success, s')
    \<and> MediaSenderIONode_new env os source s' i k core utils = Some n
    \<and> fields = (if video_scan_type (media s) = Interlaced then 2 else 1)
    \<and> block_geometry n
    \<and> block_packets n = unat (packets_in_frame_field (media s')) * unat (frames_fields_in_mem_block (media s))
    \<and> unat (msn_block_payload_memory_size n) = unat (frames_fields_in_mem_block (media s))
        * (unat (chunks_in_frame_field (media s')) * unat (num_of_packets_in_chunk s')) * unat (msn_data_stride_size n)
    \<and> (fields = 1 \<or> \<not> num_of_packets_in_chunk_specified s \<longrightarrow>
        unat (msn_block_payload_memory_size n) = block_packets n * unat (msn_data_stride_size n))
    \<and> file_packet_size n = unat (raw_packet_payload_size (media s'))
        + (if header_data_split s \<or> packet_app_header_size s = 0 then 0 else 20)
    \<and> block_packets n * unat (raw_packet_payload_size (media s')) * fields
        = unat (frames_fields_in_mem_block (media s)) * unat (bytes_per_frame (media s'))"
proof -
  from supported_format_settings[OF fmt fr chunk] obtain s' and fields :: nat where init: "initialize_common_media_settings s = Some (success, s')"
    and fields: "fields = (if video_scan_type (media s) = Interlaced then 2 else 1)"
    and s: "unat (packets_in_frame_field (media s')) * fields * unat (raw_packet_payload_size (media s')) = unat (bytes_per_frame (media s'))"
      "unat (packets_in_frame_field (media s')) \<le> unat (chunks_in_frame_field (media s')) * unat (num_of_packets_in_chunk s')"
      "unat (chunks_in_frame_field (media s')) * unat (num_of_packets_in_chunk s')
        < unat (packets_in_frame_field (media s')) + unat (num_of_packets_in_chunk s')"
      "unat (raw_packet_payload_size (media s')) < 2 ^ 12" "0 < unat (raw_packet_payload_size (media s'))"
      "unat (packets_in_frame_field (media s')) < 2 ^ 24" "unat (num_of_packets_in_chunk s') < 2 ^ 24"
      "unat (packet_payload_size s') = unat (raw_packet_payload_size (media s')) + (if header_data_split s then 0 else 20)"
      "packet_app_header_size s' = (if header_data_split s then 20 else packet_app_header_size s)" "protocol_header_size (media s') = 20"
      "frames_fields_in_mem_block (media s') = frames_fields_in_mem_block (media s)"
      "num_of_chunks_in_mem_block s' = frames_fields_in_mem_block (media s) * chunks_in_frame_field (media s')"
      "unat (bytes_per_frame (media s')) < 2 ^ 26" "0 < unat (packets_in_frame_field (media s'))" "app_gpu_id s' = app_gpu_id s"
    and whole: "fields = 1 \<or> \<not> num_of_packets_in_chunk_specified s \<Longrightarrow>
        unat (chunks_in_frame_field (media s')) * unat (num_of_packets_in_chunk s') = unat (packets_in_frame_field (media s'))"
    by blast
  have pos: "0 < fields" by (simp add: fields)
  have geometry: "block_geometry n"
    "unat (msn_block_payload_memory_size n) = unat (frames_fields_in_mem_block (media s))
      * (unat (chunks_in_frame_field (media s')) * unat (num_of_packets_in_chunk s')) * unat (msn_data_stride_size n)"
    "block_packets n = unat (packets_in_frame_field (media s')) * unat (frames_fields_in_mem_block (media s))"
    "file_packet_size n = unat (raw_packet_payload_size (media s')) + (if header_data_split s \<or> packet_app_header_size s = 0 then 0 else 20)"
    if "node_of_settings env s' n" for n :: "'a MediaSenderIONode"
    using supported_node_fits[OF that line _ s(1-8) _ s(10) _ s(13) pos s(14)] frames(2) s(9,11,12) by auto
  have "mem_block_payload_bytes n \<noteq> 0" if "node_of_settings env s' n" for n :: "'a MediaSenderIONode"
  proof -
    have "0 < unat (mem_block_payload_bytes n)"
      unfolding mem_block_payload_bytes_geometry[OF geometry(1)[OF that]] geometry(3,4)[OF that] using s(5,14) frames(1)
      by (simp add: word_neq_0_conv unat_gt_0)
    then show ?thesis by auto
  qed
  from new_node_fields[OF s(15)[unfolded cpu] this] obtain n where
    n: "MediaSenderIONode_new env os source s' i k core utils = Some n" "node_of_settings env s' n"
    by blast
  have "block_packets n * unat (raw_packet_payload_size (media s')) * fields
      = unat (frames_fields_in_mem_block (media s)) * unat (bytes_per_frame (media s'))"
    unfolding geometry(3)[OF n(2)] s(1)[symmetric] by (simp add: mult.commute mult.left_commute)
  moreover have "unat (msn_block_payload_memory_size n) = block_packets n * unat (msn_data_stride_size n)"
    if "fields = 1 \<or> \<not> num_of_packets_in_chunk_specified s"
    unfolding geometry(2,3)[OF n(2)] whole[OF that] by (simp add: mult.commute)
  ultimately show ?thesis
    using init n(1) fields geometry[OF n(2)]
    by (intro exI[of _ s'] exI[of _ n] exI[of _ fields] conjI) auto
qed

section \<open>Examples\<close>

text \<open>Two streams with packets of four bytes and a file of four packets, two for each memory block.\<close>

definition example_media_env :: "(unit, nat) media_env" where
  "example_media_env = \<lparr>me_rmx = example_media_library, me_socket_address = (\<lambda>_ _. 0), me_mkey_invalid = 0xFFFFFFFF,
     me_cache_line_size = 8, me_time_now_ns = (\<lambda>l. (0, l)), me_sleep_for_ns = (\<lambda>_ l. l), me_received_signal = (\<lambda>_. -1),
     me_file = (\<lambda>name. if name = ''v'' then Some \<lparr>file_bytes = [1, 2, 3, 4, 5, 6, 7, 8, 9, 10, 11, 12, 13, 14, 15, 16], bad_from = None\<rparr>
                 else None),
     me_get_frame_blocking = (\<lambda>p. Returns (None, p))\<rparr>"

definition example_pack :: "unit MediaStreamPack" where
  "example_pack = MediaStreamPack_new\<lparr>pack_stream := Some (RtpVideoSendStream_new MediaSettings_default 24 False 0 24, example_media_stream)\<rparr>"

definition example_sender0 :: "unit MediaSenderIONode" where
  "example_sender0 = \<lparr>msn_stream_packs = [example_pack, example_pack],
     msn_media_settings = MediaSettings_default\<lparr>packets_in_frame_field := 2, frames_fields_in_mem_block := 1, protocol_header_size := 20\<rparr>,
     msn_video_file = ''v'', msn_index = 0, msn_network_address = FourTupleFlow_new 0 [] 0 [] 0,
     msn_sleep_between_operations = False, msn_print_parameters = False, msn_cpu_core_affinity = -1, msn_hw_queue_full_sleep_us = 0,
     msn_memory_utils = \<lparr>utils_header_allocator = NewMemoryAllocator_new example_os 0,
       utils_payload_allocator = NewMemoryAllocator_new example_os 1\<rparr>,
     msn_num_of_memory_blocks = DEFAULT_NUMBER_OF_MEM_BLOCKS, msn_num_of_chunks_in_mem_block = 2, msn_packet_header_size = 0,
     msn_packet_payload_size = 24, msn_num_of_packets_in_chunk = 1, msn_num_of_packets_in_mem_block = 2,
     msn_app_header_stride_size = 0, msn_data_stride_size = 24, msn_header_total_memory_size = 0, msn_payload_total_memory_size = 0,
     msn_block_payload_memory_size = 0, msn_block_header_memory_size = 0, msn_mem_block_header_sizes = [],
     msn_mem_block_payload_sizes = [], msn_dscp = 0, msn_pcp = 0, msn_ecn = 0, msn_gpu_enabled = False,
     msn_dynamic_video_file_load = False\<rparr>"

definition example_sender :: "unit MediaSenderIONode" where
  "example_sender = example_sender0\<lparr>msn_num_of_memory_blocks := 2, msn_block_payload_memory_size := 48,
     msn_payload_total_memory_size := 192\<rparr>"

lemmas example_sender_defs = example_sender0_def example_pack_def example_media_env_def MediaStreamPack_new_def

lemma example_sender_initialize:
  "msn_initialize_memory_layout example_os (me_file example_media_env) example_sender0 = Some (success, example_sender)"
  by (simp add: msn_initialize_memory_layout_def determine_memory_layout_for_single_block_def example_sender_def example_sender_defs
      get_number_of_mem_blocks_per_file_def loads_file_def msn_is_hds_on_def mem_block_payload_bytes_def Let_def
      ifstream_open_def ifstream_new_def is_open_def ifstream_size_def)

definition example_layout :: HeaderPayloadMemoryLayout where
  "example_layout = \<lparr>header_memory_ptr = 0, payload_memory_ptr = 4096, header_memory_size = 0, payload_memory_size = 192,
     register_memory = False, header_memory_keys = [], payload_memory_keys = []\<rparr>"

theorem file_in_memory_blocks_witness:
  "\<exists>n' m' b r. msn_apply_memory_layout example_os example_media_env example_layout (example_sender, (\<lambda>_. 0)) = Some (success, n', m')
    \<and> pack_mem_blockset (msn_stream_packs n' ! 1) = Some b \<and> length (m_blocks b) = 2
    \<and> last (block_regions (m_blocks b ! 1)) = Some r \<and> unat (addr r) = 4096 + 3 * 48
    \<and> mem_read m' (4096 + 3 * 48 + 20 + 24) 4 = [13, 14, 15, 16]"
proof -
  have video: "me_file example_media_env (msn_video_file example_sender0)
      = Some \<lparr>file_bytes = [1, 2, 3, 4, 5, 6, 7, 8, 9, 10, 11, 12, 13, 14, 15, 16], bad_from = None\<rparr>" "loads_file example_sender0"
    by (simp_all add: example_sender_defs loads_file_def)
  have g: "block_geometry example_sender" "block_packets example_sender = 2" "file_packet_size example_sender = 4"
    by (simp_all add: block_geometry_def msn_header_offset_def msn_is_hds_on_def block_packets_def file_packet_size_def
        example_sender_def example_sender_defs)
  have f: "msn_block_payload_memory_size example_sender = 48" "msn_data_stride_size example_sender = 24"
    "msn_header_offset example_sender = 20" "length (msn_stream_packs example_sender) = 2" "payload_memory_ptr example_layout = 4096"
    "msn_num_of_memory_blocks example_sender = 2"
    by (simp_all add: msn_header_offset_def msn_is_hds_on_def example_sender_def example_sender_defs example_layout_def)
  have rest: "\<forall>p \<in> set (msn_stream_packs example_sender). pack_stream p \<noteq> None" "msn_validate_memory_layout example_layout example_sender = success"
    "keys_present example_sender example_layout"
    "copy_reliable example_os (get_memory_utils (utils_payload_allocator (msn_memory_utils example_sender)))"
    by (simp_all add: example_sender_def example_sender_defs example_layout_def msn_validate_memory_layout_def keys_present_def
        copy_reliable_def get_memory_utils_def NewMemoryAllocator_new_def)
  obtain n' m' where r: "msn_apply_memory_layout example_os example_media_env example_layout (example_sender, (\<lambda>_. 0)) = Some (success, n', m')"
    "\<forall>s < 2. \<exists>b. pack_mem_blockset (msn_stream_packs n' ! s) = Some b \<and> length (m_blocks b) = 2
        \<and> (\<forall>j < length (m_blocks b). \<exists>r. last (block_regions (m_blocks b ! j)) = Some r \<and> region_length r = 48
            \<and> unat (addr r) = 4096 + (s * length (m_blocks b) + j) * 48
            \<and> (\<forall>k < 2. mem_read m' (unat (addr r) + 20 + k * 24) 4
                = take 4 (drop ((j * 2 + k) * 4) [1, 2, 3, 4, 5, 6, 7, 8, 9, 10, 11, 12, 13, 14, 15, 16])))"
    using file_in_memory_blocks[OF example_sender_initialize video(2,1) _ g(1) rest(1-4), of "\<lambda>_. 0"] f g by auto
  obtain b where b: "pack_mem_blockset (msn_stream_packs n' ! 1) = Some b" "length (m_blocks b) = 2"
    "\<forall>j < 2. \<exists>r. last (block_regions (m_blocks b ! j)) = Some r \<and> region_length r = 48
            \<and> unat (addr r) = 4096 + (1 * 2 + j) * 48
            \<and> (\<forall>k < 2. mem_read m' (unat (addr r) + 20 + k * 24) 4
                = take 4 (drop ((j * 2 + k) * 4) [1, 2, 3, 4, 5, 6, 7, 8, 9, 10, 11, 12, 13, 14, 15, 16]))"
    using r(2)[rule_format, of 1] by auto
  obtain q where q: "last (block_regions (m_blocks b ! 1)) = Some q" "unat (addr q) = 4096 + 3 * 48"
    "\<forall>k < 2. mem_read m' (unat (addr q) + 20 + k * 24) 4
       = take 4 (drop ((1 * 2 + k) * 4) [1, 2, 3, 4, 5, 6, 7, 8, 9, 10, 11, 12, 13, 14, 15, 16])"
    using b(3)[rule_format, of 1] by auto
  have "mem_read m' (4096 + 3 * 48 + 20 + 24) 4 = [13, 14, 15, 16]"
    using q(3)[rule_format, of 1] q(2) by simp
  then show ?thesis using r(1) b(1,2) q(1,2) by blast
qed

theorem loading_stays_inside_witness:
  "\<exists>rc n' m'. msn_apply_memory_layout example_os (example_media_env\<lparr>me_file := \<lambda>_. Some \<lparr>file_bytes = [1, 2, 3, 4, 5], bad_from = Some 4\<rparr>\<rparr>)
      example_layout (example_sender, \<lambda>x. if x = 4288 then 7 else 0) = Some (rc, n', m') \<and> rc \<in> {success, failure}
    \<and> m' 4095 = 0 \<and> m' 4288 = 7"
proof -
  have g: "block_geometry example_sender"
    by (simp add: block_geometry_def msn_header_offset_def msn_is_hds_on_def block_packets_def file_packet_size_def
        example_sender_def example_sender_defs)
  have f: "msn_block_payload_memory_size example_sender = 48" "length (msn_stream_packs example_sender) = 2"
    "payload_memory_ptr example_layout = 4096" "msn_num_of_memory_blocks example_sender = 2"
    by (simp_all add: example_sender_def example_sender_defs example_layout_def)
  have rest: "\<forall>p \<in> set (msn_stream_packs example_sender). pack_stream p \<noteq> None" "keys_present example_sender example_layout"
    "msn_validate_memory_layout example_layout example_sender = success"
    by (simp_all add: example_sender_def example_sender_defs example_layout_def msn_validate_memory_layout_def keys_present_def)
  from loading_stays_inside[OF rest(1,2) g _ rest(3), of example_os
      "example_media_env\<lparr>me_file := \<lambda>_. Some \<lparr>file_bytes = [1, 2, 3, 4, 5], bad_from = Some 4\<rparr>\<rparr>" "\<lambda>x. if x = 4288 then 7 else 0"] f
  obtain rc n' m' where r: "msn_apply_memory_layout example_os
      (example_media_env\<lparr>me_file := \<lambda>_. Some \<lparr>file_bytes = [1, 2, 3, 4, 5], bad_from = Some 4\<rparr>\<rparr>)
      example_layout (example_sender, \<lambda>x. if x = 4288 then 7 else 0) = Some (rc, n', m')" "rc \<in> {success, failure}"
    "\<forall>x. x < 4096 \<or> 4288 \<le> x \<longrightarrow> m' x = (if x = 4288 then 7 else 0)"
    by auto
  have "m' 4095 = 0" "m' 4288 = 7" using r(3)[rule_format, of 4095] r(3)[rule_format, of 4288] by simp_all
  then show ?thesis using r(1,2) by blast
qed

text \<open>12-bit 4:2:2, interlaced, in chunks of 64 packets, as asked for, two fields in a block.\<close>

theorem supported_formats_fit_blocks_witness:
  "\<exists>s s' n. sampling_type (media s) = YCbCr_4_2_2 \<and> bit_depth (media s) = Depth_12 \<and> num_of_packets_in_chunk s = 64
    \<and> initialize_common_media_settings s = Some (success, s')
    \<and> MediaSenderIONode_new example_media_env example_os (FourTupleFlow_new 0 [] 0 [] 0) s' 0 1 0 (msn_memory_utils example_sender) = Some n
    \<and> block_geometry n \<and> block_packets n * file_packet_size n = unat (bytes_per_frame (media s'))"
proof -
  let ?s = "example_settings\<lparr>app_gpu_id := INVALID_GPU_ID, num_of_packets_in_chunk_specified := True, num_of_packets_in_chunk := 64,
    media := (media example_settings)\<lparr>bit_depth := Depth_12, video_scan_type := Interlaced\<rparr>\<rparr>"
  have s: "sampling_type (media ?s) \<in> set SUPPORTED_VIDEO_SAMPLING_TYPES" "bit_depth (media ?s) \<in> set SUPPORTED_VIDEO_BIT_DEPTHS"
    "resolution (media ?s) \<in> set SUPPORTED_VIDEO_RESOLUTIONS"
    "num (frame_rate (media ?s)) \<noteq> 0" "denom (frame_rate (media ?s)) \<noteq> 0"
    "num_of_packets_in_chunk_specified ?s \<longrightarrow> num_of_packets_in_chunk ?s \<noteq> 0" "app_gpu_id ?s = INVALID_GPU_ID"
    "0 < frames_fields_in_mem_block (media ?s)" "unat (frames_fields_in_mem_block (media ?s)) < 2 ^ 16"
    and two: "unat (frames_fields_in_mem_block (media ?s)) = 2" "video_scan_type (media ?s) = Interlaced"
    "packet_app_header_size ?s = 0"
    by (simp_all add: example_settings_def AppSettings_new_def MediaSettings_default_def SUPPORTED_VIDEO_SAMPLING_TYPES_def
        SUPPORTED_VIDEO_BIT_DEPTHS_def SUPPORTED_VIDEO_RESOLUTIONS_def)
  have line: "me_cache_line_size example_media_env = 2 ^ 3" "(3 :: nat) \<le> 12" by (simp_all add: example_media_env_def)
  from supported_formats_fit_blocks[OF s line, of example_os "FourTupleFlow_new 0 [] 0 [] 0" 0 1 0 "msn_memory_utils example_sender"]
  obtain s' n where r: "initialize_common_media_settings ?s = Some (success, s')"
    "MediaSenderIONode_new example_media_env example_os (FourTupleFlow_new 0 [] 0 [] 0) s' 0 1 0 (msn_memory_utils example_sender) = Some n"
    "block_geometry n" "file_packet_size n = unat (raw_packet_payload_size (media s'))"
    "block_packets n * unat (raw_packet_payload_size (media s')) * 2 = 2 * unat (bytes_per_frame (media s'))"
    unfolding two by auto
  have "sampling_type (media ?s) = YCbCr_4_2_2 \<and> bit_depth (media ?s) = Depth_12 \<and> num_of_packets_in_chunk ?s = 64"
    by (simp add: example_settings_def AppSettings_new_def MediaSettings_default_def)
  moreover have "block_packets n * file_packet_size n = unat (bytes_per_frame (media s'))" using r(4,5) by simp
  ultimately show ?thesis using r(1-3) by blast
qed

end
