(* ===== verification/Media_Layout.thy ===== *)
theory Media_Layout
  imports Media_Memory
begin

text \<open>
  The media sender as a component of the memory strategy: where the memory blocks of its streams lie, and that no two
  blocks of an application overlap.
\<close>

section \<open>No two memory blocks overlap\<close>

definition used_region :: "rmx_mem_region option \<Rightarrow> (nat \<times> nat) list" where
  "used_region r = (case r of None \<Rightarrow> [] | Some r \<Rightarrow> if region_length r = 0 then [] else [(unat (addr r), unat (region_length r))])"

text \<open>The last sub-block of a memory block is its payload, the one before holds the headers.\<close>

definition block_payload_regions :: "media_mem_block \<Rightarrow> (nat \<times> nat) list" where
  "block_payload_regions blk = concat (map used_region (drop (length (block_regions blk) - 1) (block_regions blk)))"

definition block_header_regions :: "media_mem_block \<Rightarrow> (nat \<times> nat) list" where
  "block_header_regions blk = concat (map used_region (take (length (block_regions blk) - 1) (block_regions blk)))"

definition pack_regions :: "(media_mem_block \<Rightarrow> (nat \<times> nat) list) \<Rightarrow> 'p MediaStreamPack \<Rightarrow> (nat \<times> nat) list" where
  "pack_regions f p = (case pack_mem_blockset p of None \<Rightarrow> [] | Some b \<Rightarrow> concat (map f (m_blocks b)))"

definition msn_payload_regions :: "'p MediaSenderIONode \<Rightarrow> (nat \<times> nat) list" where
  "msn_payload_regions n = concat (map (pack_regions block_payload_regions) (msn_stream_packs n))"

definition msn_header_regions :: "'p MediaSenderIONode \<Rightarrow> (nat \<times> nat) list" where
  "msn_header_regions n = concat (map (pack_regions block_header_regions) (msn_stream_packs n))"

lemma sent_block_regions:
  "block_payload_regions (sent_block mkey_invalid n l hp pp)
    = (if msn_block_payload_memory_size n = 0 then [] else [(unat pp, unat (msn_block_payload_memory_size n))])"
  "block_header_regions (sent_block mkey_invalid n l hp pp)
    = (if header_step n = 0 then [] else [(unat hp, unat (header_step n))])"
  by (simp_all add: block_payload_regions_def block_header_regions_def sent_block_def used_region_def header_step_def Let_def)

text \<open>Regions of one length, one after the other.\<close>

lemma placed_run:
  assumes "base + count * len < 2 ^ 64" "\<And>j. j < count \<Longrightarrow> f j = (if len = 0 then [] else [(base + j * len, len)])"
  shows "placed (base, count * len) (concat (map f [0..<count]))"
  using assms
proof (induction count)
  case (Suc count)
  have "placed (base + count * len, len) (f count)" using Suc.prems(2)[of count] by (simp add: placed_def)
  then show ?case using placed_append[OF Suc.IH, of len "f count"] Suc.prems by (simp add: add.commute)
qed simp

lemma run_address:
  fixes a c :: u64
  assumes "unat a + count * unat c < 2 ^ 64" "j < count"
  shows "unat (a + word_of_nat j * c) = unat a + j * unat c"
proof -
  have "j * unat c \<le> count * unat c" using assms(2) by (intro mult_right_mono) auto
  then show ?thesis using assms(1) by (intro scaled_address) linarith
qed

lemma blockset_at_placed:
  shows "unat pp + unat (msn_num_of_memory_blocks n) * unat (msn_block_payload_memory_size n) < 2 ^ 64 \<Longrightarrow>
      placed (unat pp, unat (msn_num_of_memory_blocks n) * unat (msn_block_payload_memory_size n))
        (concat (map block_payload_regions (m_blocks (blockset_at mkey_invalid n l hp pp))))"
    and "unat hp + unat (msn_num_of_memory_blocks n) * unat (header_step n) < 2 ^ 64 \<Longrightarrow>
      placed (unat hp, unat (msn_num_of_memory_blocks n) * unat (header_step n))
        (concat (map block_header_regions (m_blocks (blockset_at mkey_invalid n l hp pp))))"
  unfolding blockset_at_def sent_blocks_def
  by (simp_all add: comp_def del: mult_is_0, (rule placed_run; simp add: sent_block_regions run_address unat_eq_zero)+)

lemma with_blocksets_placed:
  assumes "unat pp + length ps * (unat (msn_num_of_memory_blocks n) * unat (msn_block_payload_memory_size n)) < 2 ^ 64"
  shows "placed (unat pp, length ps * (unat (msn_num_of_memory_blocks n) * unat (msn_block_payload_memory_size n)))
    (concat (map (pack_regions block_payload_regions) (with_blocksets mkey_invalid n l hp pp ps)))"
  using assms
proof (induction ps arbitrary: hp pp)
  case (Cons p ps)
  let ?L = "unat (msn_num_of_memory_blocks n) * unat (msn_block_payload_memory_size n)"
  have room: "unat pp + ?L + length ps * ?L < 2 ^ 64" using Cons.prems by simp
  have "unat (msn_num_of_memory_blocks n * msn_block_payload_memory_size n) = ?L" using room by (intro unat_mult_no_wrap) simp
  then have next_ptr: "unat (pp + msn_num_of_memory_blocks n * msn_block_payload_memory_size n) = unat pp + ?L"
    using room by (subst unat_add_no_wrap) simp_all
  have "placed (unat pp, ?L) (concat (map block_payload_regions (m_blocks (blockset_at mkey_invalid n l hp pp))))"
    using room by (intro blockset_at_placed(1)) simp
  then show ?case
    using placed_append[of "unat pp" ?L _ "length ps * ?L"] Cons.IH[of "pp + msn_num_of_memory_blocks n * msn_block_payload_memory_size n"] next_ptr room
    by (simp add: pack_regions_def with_blockset_def)
qed simp

lemma with_blocksets_headers_placed:
  assumes "unat hp + length ps * (unat (msn_num_of_memory_blocks n) * unat (msn_block_header_memory_size n)) < 2 ^ 64"
  shows "placed (unat hp, length ps * (unat (msn_num_of_memory_blocks n) * unat (msn_block_header_memory_size n)))
    (concat (map (pack_regions block_header_regions) (with_blocksets mkey_invalid n l hp pp ps)))"
  using assms
proof (induction ps arbitrary: hp pp)
  case (Cons p ps)
  let ?L = "unat (msn_num_of_memory_blocks n) * unat (msn_block_header_memory_size n)"
  have room: "unat hp + ?L + length ps * ?L < 2 ^ 64" using Cons.prems by simp
  have "unat (msn_num_of_memory_blocks n * msn_block_header_memory_size n) = ?L" using room by (intro unat_mult_no_wrap) simp
  then have next_ptr: "unat (hp + msn_num_of_memory_blocks n * msn_block_header_memory_size n) = unat hp + ?L"
    using room by (subst unat_add_no_wrap) simp_all
  have step: "unat (msn_num_of_memory_blocks n) * unat (header_step n) \<le> ?L" by (simp add: header_step_def)
  have "placed (unat hp, unat (msn_num_of_memory_blocks n) * unat (header_step n))
      (concat (map block_header_regions (m_blocks (blockset_at mkey_invalid n l hp pp))))"
    using room step by (intro blockset_at_placed(2)) linarith
  then have "placed (unat hp, ?L) (concat (map block_header_regions (m_blocks (blockset_at mkey_invalid n l hp pp))))"
    using step by (rule placed_mono)
  then show ?case
    using placed_append[of "unat hp" ?L _ "length ps * ?L"] Cons.IH[of "hp + msn_num_of_memory_blocks n * msn_block_header_memory_size n"] next_ptr room
    by (simp add: pack_regions_def with_blockset_def)
qed simp

text \<open>Whatever a layout holds, a node that accepts it gave its streams these blocks.\<close>

lemma fill_blocks_blocks:
  assumes "fill_blocks os mkey_invalid n l off (length xs) k hp pp (b, f, m) = Some (success, b', m')"
    and "m_blocks b = xs @ replicate k (fresh_block n)" "m_sub_block_count b = (if msn_is_hds_on n then 2 else 1)"
  shows "b' = b\<lparr>m_blocks := xs @ sent_blocks mkey_invalid n l hp pp k\<rparr>"
  using assms
proof (induction k arbitrary: b xs hp pp f m)
  case 0
  then show ?case by (simp add: sent_blocks_def)
next
  case (Suc k)
  let ?y = "sent_block mkey_invalid n l hp pp"
  obtain rc f1 m1 where fill: "fill_memblock_from_file os n pp (msn_block_payload_memory_size n) off (f, m) = Some (rc, f1, m1)"
    using Suc.prems(1) by (cases "fill_memblock_from_file os n pp (msn_block_payload_memory_size n) off (f, m)") auto
  have rc: "rc = success" using Suc.prems(1) fill by (simp split: if_splits)
  obtain b1 where b1: "set_block mkey_invalid n l (length xs) hp pp b = Some b1"
    using Suc.prems(1) fill rc by (cases "set_block mkey_invalid n l (length xs) hp pp b") simp_all
  have "b1 = b\<lparr>m_blocks := (xs @ [?y]) @ replicate k (fresh_block n)\<rparr>"
    using b1 set_block_fresh[of "length xs" b n l mkey_invalid hp pp] set_block_keys[OF b1] Suc.prems(2,3) by (simp add: list_update_prefix)
  then show ?case
    using Suc.IH[of "xs @ [?y]" "next_header n hp" "pp + msn_block_payload_memory_size n" b1 f1 m1] Suc.prems(1,3) fill rc b1
    by (simp add: sent_blocks_Suc)
qed

lemma set_blocks_blocks:
  assumes "set_blocks mkey_invalid n l 0 k hp pp b = Some b'" "m_blocks b = replicate k (fresh_block n)"
    and "m_sub_block_count b = (if msn_is_hds_on n then 2 else 1)"
  shows "b' = b\<lparr>m_blocks := sent_blocks mkey_invalid n l hp pp k\<rparr>"
proof (cases "keys_present n l")
  case True
  then show ?thesis using set_blocks_fresh[of b "[]" k n l mkey_invalid hp pp] assms by simp
next
  case False
  then have "k = 0" using assms(1) set_block_keys[of mkey_invalid n l 0 hp pp b]
    by (cases k) (auto simp: bind_eq_Some_conv)
  then show ?thesis using assms by (simp add: sent_blocks_def)
qed

lemma blockset_success:
  assumes "(if loads_file n then initialize_mem_blockset_from_file os mkey_invalid video n l hp pp (new_mem_blockset n, m)
      else map_option (\<lambda>(rc, b). (rc, b, m)) (initialize_mem_blockset mkey_invalid n l hp pp (new_mem_blockset n))) = Some (success, b, m')"
  shows "b = blockset_at mkey_invalid n l hp pp"
  using assms set_blocks_blocks[of mkey_invalid n l "unat (msn_num_of_memory_blocks n)" hp pp "new_mem_blockset n"]
    fill_blocks_blocks[of os mkey_invalid n l "msn_header_offset n" "[]"] new_mem_blockset_blocks[of n]
  by (auto simp: initialize_mem_blockset_from_file_def initialize_mem_blockset_def blockset_at_def Let_def split: if_splits)

lemma apply_external_success:
  assumes "apply_external os env n l hp pp (ps, m) = Some (success, ps', m')"
  shows "ps' = with_blocksets (me_mkey_invalid env) n l hp pp ps"
  using assms
proof (induction ps arbitrary: hp pp m ps')
  case (Cons p ps)
  let ?init = "if loads_file n
    then initialize_mem_blockset_from_file os (me_mkey_invalid env) (me_file env (msn_video_file n)) n l hp pp (new_mem_blockset n, m)
    else map_option (\<lambda>(rc, b). (rc, b, m)) (initialize_mem_blockset (me_mkey_invalid env) n l hp pp (new_mem_blockset n))"
  obtain rc b m1 where i: "?init = Some (rc, b, m1)" using Cons.prems by (cases ?init) auto
  then have rc: "rc = success" using Cons.prems by (simp split: if_splits)
  note b = blockset_success[OF i[unfolded rc]]
  obtain rc2 p2 where a: "assign_mem_blockset b p = Some (rc2, p2)"
    using Cons.prems i rc by (cases "assign_mem_blockset b p") auto
  have rc2: "rc2 = success" using Cons.prems i rc a by (simp split: if_splits)
  have "pack_stream p \<noteq> None" using a by (cases "pack_stream p") (auto simp: assign_mem_blockset_def)
  then have p2: "p2 = with_blockset b p" using a assign_mem_blockset_with by fastforce
  obtain rest where "apply_external os env n l (hp + msn_num_of_memory_blocks n * msn_block_header_memory_size n)
      (pp + msn_num_of_memory_blocks n * msn_block_payload_memory_size n) (ps, m1) = Some (success, rest, m')" "ps' = p2 # rest"
    using Cons.prems i rc a rc2 by auto
  then show ?case using Cons.IH b p2 by simp
qed simp

text \<open>With internal allocation no block has memory of its own.\<close>

definition unbacked :: "MediaStreamMemBlockset \<Rightarrow> bool" where
  "unbacked b \<longleftrightarrow> (\<forall>blk \<in> set (m_blocks b). \<forall>r \<in> set (block_regions blk). used_region r = [])"

lemma unbacked_update:
  assumes "unbacked b" "\<forall>r \<in> set (block_regions blk). used_region r = []"
  shows "unbacked (b\<lparr>m_blocks := (m_blocks b)[i := blk]\<rparr>)"
  using assms set_update_subset_insert[of "m_blocks b" i blk] by (auto simp: unbacked_def)

lemma unbacked_nth: "unbacked b \<Longrightarrow> i < length (m_blocks b) \<Longrightarrow> \<forall>r \<in> set (block_regions (m_blocks b ! i)). used_region r = []"
  unfolding unbacked_def by (meson nth_mem)

lemma set_block_memory_unbacked:
  assumes "set_block_memory i j 0 0 key b = Some b'" "unbacked b"
  shows "unbacked b'"
proof -
  let ?r = "Some \<lparr>addr = 0, region_length = 0, mkey = key\<rparr>"
  have i: "i < length (m_blocks b)" using assms(1) by (simp add: set_block_memory_def split: if_splits)
  have b': "b' = b\<lparr>m_blocks := (m_blocks b)[i := (m_blocks b ! i)\<lparr>block_regions := (block_regions (m_blocks b ! i))[j := ?r]\<rparr>]\<rparr>"
    using assms(1) by (simp add: set_block_memory_def Let_def split: if_splits)
  have "\<forall>r \<in> set ((block_regions (m_blocks b ! i))[j := ?r]). used_region r = []"
    using unbacked_nth[OF assms(2) i] set_update_subset_insert[of "block_regions (m_blocks b ! i)" j ?r] by (auto simp: used_region_def)
  then show ?thesis unfolding b' by (intro unbacked_update[OF assms(2)]) simp
qed

lemma set_block_sizes_unbacked:
  assumes "set_block_sizes n i b = Some b'" "unbacked b"
  shows "unbacked b'"
proof (cases "i < length (m_blocks b)")
  case True
  show ?thesis
    using assms unbacked_nth[OF assms(2) True]
    by (auto simp: set_block_sizes_def set_block_layout_def Let_def intro!: unbacked_update split: if_splits)
next
  case False
  then show ?thesis using assms by (auto simp: set_block_sizes_def set_block_layout_def Let_def split: if_splits)
qed

text \<open>A loop of calls that may be undefined keeps what each call keeps.\<close>

lemma fold_bind_keeps:
  assumes "fold (\<lambda>x r. Option.bind r (f x)) xs (Some b) = Some b'" "P b" "\<And>x b b'. f x b = Some b' \<Longrightarrow> P b \<Longrightarrow> P b'"
  shows "P b'"
  using assms(1,2)
proof (induction xs arbitrary: b)
  case (Cons x xs)
  then show ?case
  proof (cases "f x b")
    case None
    have "fold (\<lambda>x r. Option.bind r (f x)) ys None = None" for ys by (induction ys) simp_all
    then show ?thesis using Cons.prems(1) None by simp
  next
    case (Some b1)
    then show ?thesis using Cons.IH Cons.prems assms(3) by simp
  qed
qed simp

lemma set_rivermax_unbacked:
  assumes "set_rivermax_to_allocate_memory key b = Some b'" "unbacked b"
  shows "unbacked b'"
proof -
  have nested: "fold (\<lambda>j r. Option.bind r (g j)) js r = Option.bind r (\<lambda>b. fold (\<lambda>j r. Option.bind r (g j)) js (Some b))"
    for g :: "nat \<Rightarrow> MediaStreamMemBlockset \<Rightarrow> MediaStreamMemBlockset option" and js r
    by (cases r) (simp_all, induction js, simp_all)
  have "fold (\<lambda>i r. Option.bind r (\<lambda>b. fold (\<lambda>j r. Option.bind r (set_block_memory i j 0 0 key)) [0..<m_sub_block_count b0] (Some b)))
      [0..<k] (Some b) = Some b' \<Longrightarrow> unbacked b'" for b0 k
    by (erule fold_bind_keeps[where P = unbacked], rule assms(2), erule fold_bind_keeps[where P = unbacked])
       (auto intro: set_block_memory_unbacked)
  moreover have "(\<lambda>i. fold (\<lambda>j r. Option.bind r (set_block_memory i j 0 0 key)) [0..<m_sub_block_count b])
      = (\<lambda>i r. Option.bind r (\<lambda>b'. fold (\<lambda>j r. Option.bind r (set_block_memory i j 0 0 key)) [0..<m_sub_block_count b] (Some b')))"
    by (intro ext nested)
  ultimately show ?thesis using assms(1) unfolding set_rivermax_to_allocate_memory_def by metis
qed

lemma unbacked_regions:
  assumes "unbacked b"
  shows "concat (map block_payload_regions (m_blocks b)) = []" "concat (map block_header_regions (m_blocks b)) = []"
  using assms by (auto simp: unbacked_def block_payload_regions_def block_header_regions_def dest: in_set_dropD in_set_takeD)

lemma fresh_unbacked: "unbacked (new_mem_blockset n)"
  by (auto simp: unbacked_def new_mem_blockset_blocks fresh_block_def used_region_def Let_def)

lemma assign_mem_blockset_success:
  assumes "assign_mem_blockset b p = Some (rc, p')"
  shows "rc = success" "pack_mem_blockset p' = Some b"
  using assms by (auto simp: assign_mem_blockset_def media_apply_memory_layout_def media_validate_memory_layout_def bind_eq_Some_conv)

lemma apply_internal_success:
  assumes "apply_internal mkey_invalid n ps = Some (rc, ps')"
  shows "rc = success" "length ps' = length ps" "\<forall>p \<in> set ps'. \<exists>b. pack_mem_blockset p = Some b \<and> unbacked b"
proof -
  have "rc = success \<and> length ps' = length ps \<and> (\<forall>p \<in> set ps'. \<exists>b. pack_mem_blockset p = Some b \<and> unbacked b)"
    using assms
  proof (induction ps arbitrary: rc ps')
    case (Cons p ps)
    obtain b b1 rc1 p1 where b: "set_rivermax_to_allocate_memory mkey_invalid (new_mem_blockset n) = Some b"
      "initialize_mem_blockset_internal n b = Some (success, b1)" "assign_mem_blockset b1 p = Some (rc1, p1)"
      using Cons.prems by (auto simp: bind_eq_Some_conv initialize_mem_blockset_internal_def)
    have "unbacked b" by (rule set_rivermax_unbacked[OF b(1) fresh_unbacked])
    then have "unbacked b1"
      using b(2) by (auto simp: initialize_mem_blockset_internal_def intro: fold_bind_keeps[where P = unbacked] set_block_sizes_unbacked)
    then show ?case using Cons.IH Cons.prems b assign_mem_blockset_success[OF b(3)] by (auto simp: bind_eq_Some_conv)
  qed simp
  then show "rc = success" "length ps' = length ps" "\<forall>p \<in> set ps'. \<exists>b. pack_mem_blockset p = Some b \<and> unbacked b" by simp_all
qed

text \<open>The node returns no other status than \<open>success\<close> and \<open>failure\<close>.\<close>

lemma fill_loop_status: "fill_loop packet_size packets stride sofar cur buf f = Some (rc, buf', f') \<Longrightarrow> rc \<in> {success, failure}"
proof (induction packet_size packets stride sofar cur buf f rule: fill_loop.induct)
  case (1 packet_size packets stride sofar cur buf f)
  show ?case
    using "1.prems"[unfolded fill_loop.simps[of packet_size packets stride sofar cur buf f]] "1.IH"
    by (auto simp: Let_def split: if_splits prod.splits option.splits)
qed

lemma fill_blocks_status:
  "fill_blocks os mkey_invalid n l off i k hp pp w = Some (rc, b', m') \<Longrightarrow> rc \<in> {success, failure}"
proof (induction os mkey_invalid n l off i k hp pp w rule: fill_blocks.induct)
  case (2 os mkey_invalid n l off i k hp pp b f m)
  then show ?case
    by (auto simp: bind_eq_Some_conv fill_memblock_from_file_def Let_def split: if_splits dest: fill_loop_status)
qed simp

lemma apply_external_status:
  "apply_external os env n l hp pp (ps, m) = Some (rc, ps', m') \<Longrightarrow> rc \<in> {success, failure} \<and> length ps' = length ps"
proof (induction ps arbitrary: hp pp m ps' rc)
  case (Cons p ps)
  let ?init = "if loads_file n
    then initialize_mem_blockset_from_file os (me_mkey_invalid env) (me_file env (msn_video_file n)) n l hp pp (new_mem_blockset n, m)
    else map_option (\<lambda>(rc, b). (rc, b, m)) (initialize_mem_blockset (me_mkey_invalid env) n l hp pp (new_mem_blockset n))"
  obtain rc1 b m1 where i: "?init = Some (rc1, b, m1)" using Cons.prems by (cases ?init) auto
  have rc1: "rc1 \<in> {success, failure}"
    using i fill_blocks_status
    by (fastforce simp: initialize_mem_blockset_from_file_def initialize_mem_blockset_def Let_def split: if_splits)
  show ?case
  proof (cases "rc1 = success")
    case False
    then show ?thesis using Cons.prems i rc1 by auto
  next
    case True
    then obtain rc2 p2 where a: "assign_mem_blockset b p = Some (rc2, p2)"
      using Cons.prems i by (cases "assign_mem_blockset b p") auto
    note rc2 = assign_mem_blockset_success(1)[OF a]
    obtain rest where "apply_external os env n l (hp + msn_num_of_memory_blocks n * msn_block_header_memory_size n)
        (pp + msn_num_of_memory_blocks n * msn_block_payload_memory_size n) (ps, m1) = Some (rc, rest, m')" "ps' = p2 # rest"
      using Cons.prems i True a rc2 by auto
    then show ?thesis using Cons.IH by auto
  qed
qed simp

text \<open>The node behind the interface of the memory strategy.  Neither its status nor its state depends on the bytes
  in memory, so these may be any.\<close>

definition media_sender_operations :: "os_memory \<Rightarrow> ('p, 'l) media_env \<Rightarrow> mem \<Rightarrow> 'p MediaSenderIONode component_operations" where
  "media_sender_operations os env m = \<lparr>component_initialize = msn_initialize_memory_layout os (me_file env),
     component_determine = msn_determine_memory_layout,
     component_apply = (\<lambda>l n. map_option (\<lambda>(rc, n, m). (rc, n)) (msn_apply_memory_layout os env l (n, m)))\<rparr>"

text \<open>The sizes of all blocks fit 64 bits; the totals are their sums.\<close>

definition block_sizes_fit :: "'p MediaSenderIONode \<Rightarrow> bool" where
  "block_sizes_fit n \<longleftrightarrow>
     length (msn_stream_packs n) * (unat (msn_num_of_memory_blocks n) * unat (msn_block_payload_memory_size n)) < 2 ^ 64
     \<and> length (msn_stream_packs n) * (unat (msn_num_of_memory_blocks n) * unat (msn_block_header_memory_size n)) < 2 ^ 64"

definition msn_ready :: "'p MediaSenderIONode \<Rightarrow> bool" where
  "msn_ready n \<longleftrightarrow>
     unat (msn_payload_total_memory_size n)
       = length (msn_stream_packs n) * (unat (msn_num_of_memory_blocks n) * unat (msn_block_payload_memory_size n))
     \<and> unat (msn_header_total_memory_size n)
       = length (msn_stream_packs n) * (unat (msn_num_of_memory_blocks n) * unat (msn_block_header_memory_size n))"

lemma unat_three_product:
  assumes "c * (unat (b :: u64) * unat a) < 2 ^ 64"
  shows "unat (a * b * word_of_nat c) = c * (unat b * unat a)"
proof (cases "c = 0 \<or> a = 0 \<or> b = 0")
  case False
  then have p: "0 < unat a" "0 < unat b" "0 < c" by (simp_all add: unat_gt_0)
  then have "unat b * unat a \<le> c * (unat b * unat a)" "c \<le> c * (unat b * unat a)" by simp_all
  then have s: "unat b * unat a < 2 ^ 64" "c < 2 ^ 64" using assms by linarith+
  have w: "unat (word_of_nat c :: u64) = c" by (rule unat_word_of_nat) (use s(2) in simp)
  have ab: "unat (a * b) = unat b * unat a" using s(1) by (subst unat_mult_no_wrap) (simp_all add: mult.commute)
  then show ?thesis using assms w by (subst unat_mult_no_wrap) (simp_all add: mult.commute)
qed auto

lemma msn_initialize_ready:
  assumes "msn_initialize_memory_layout os files n0 = Some (success, n)" "block_sizes_fit n"
  shows "msn_ready n"
proof -
  obtain h p blocks where n: "n = n0\<lparr>msn_block_header_memory_size := h, msn_block_payload_memory_size := p, msn_num_of_memory_blocks := blocks,
      msn_header_total_memory_size := h * blocks * word_of_nat (length (msn_stream_packs n0)),
      msn_payload_total_memory_size := p * blocks * word_of_nat (length (msn_stream_packs n0))\<rparr>"
    by (rule initialized_memory[OF assms(1)])
  show ?thesis using assms(2) unfolding n msn_ready_def block_sizes_fit_def by (simp add: unat_three_product)
qed

lemma msn_apply_cases:
  assumes "msn_apply_memory_layout os env l (n, m) = Some (rc, d, m')"
  obtains (internal) ps where "is_internal_allocation_requested l" "d = (resize_block_sizes n)\<lparr>msn_stream_packs := ps\<rparr>"
      "apply_internal (me_mkey_invalid env) (resize_block_sizes n) (msn_stream_packs n) = Some (rc, ps)"
  | (invalid) "\<not> is_internal_allocation_requested l" "rc = msn_validate_memory_layout l n" "rc \<noteq> success" "d = n"
  | (external) ps where "\<not> is_internal_allocation_requested l" "msn_validate_memory_layout l n = success"
      "d = (resize_block_sizes n)\<lparr>msn_stream_packs := ps\<rparr>"
      "apply_external os env (resize_block_sizes n) l (header_memory_ptr l) (payload_memory_ptr l) (msn_stream_packs n, m) = Some (rc, ps, m')"
proof (cases "is_internal_allocation_requested l")
  case True
  then obtain ps where "apply_internal (me_mkey_invalid env) (resize_block_sizes n) (msn_stream_packs n) = Some (rc, ps)"
    "d = (resize_block_sizes n)\<lparr>msn_stream_packs := ps\<rparr>"
    using assms unfolding msn_apply_memory_layout_def by (auto simp: Let_def)
  then show ?thesis using that(1) True by blast
next
  case external_allocation: False
  show ?thesis
  proof (cases "msn_validate_memory_layout l n = success")
    case True
    then obtain ps where "apply_external os env (resize_block_sizes n) l (header_memory_ptr l) (payload_memory_ptr l) (msn_stream_packs n, m)
        = Some (rc, ps, m')" "d = (resize_block_sizes n)\<lparr>msn_stream_packs := ps\<rparr>"
      using assms external_allocation unfolding msn_apply_memory_layout_def by (auto simp: Let_def)
    then show ?thesis using that(3) True external_allocation by blast
  next
    case False
    then have "rc = msn_validate_memory_layout l n" "d = n"
      using assms external_allocation unfolding msn_apply_memory_layout_def by (auto simp: Let_def)
    then show ?thesis using that(2) False external_allocation by blast
  qed
qed

lemma msn_validate_success:
  assumes "msn_validate_memory_layout l n = success"
  shows "unat (msn_payload_total_memory_size n) \<le> unat (payload_memory_size l)"
    "unat (msn_header_total_memory_size n) \<le> unat (header_memory_size l)"
  using assms by (auto simp: msn_validate_memory_layout_def word_le_nat_alt not_less split: if_splits)

lemma msn_apply_placed:
  assumes "msn_apply_memory_layout os env l (n, m) = Some (success, d, m')" "msn_ready n"
  shows "unat (payload_memory_ptr l) + unat (payload_memory_size l) < 2 ^ 64 \<Longrightarrow>
      placed (unat (payload_memory_ptr l), unat (payload_memory_size l)) (msn_payload_regions d)"
    and "unat (header_memory_ptr l) + unat (header_memory_size l) < 2 ^ 64 \<Longrightarrow>
      placed (unat (header_memory_ptr l), unat (header_memory_size l)) (msn_header_regions d)"
proof -
  have "(unat (payload_memory_ptr l) + unat (payload_memory_size l) < 2 ^ 64 \<longrightarrow>
        placed (unat (payload_memory_ptr l), unat (payload_memory_size l)) (msn_payload_regions d))
    \<and> (unat (header_memory_ptr l) + unat (header_memory_size l) < 2 ^ 64 \<longrightarrow>
        placed (unat (header_memory_ptr l), unat (header_memory_size l)) (msn_header_regions d))"
    using assms(1)
  proof (cases rule: msn_apply_cases)
    case (internal ps)
    have "pack_regions block_payload_regions p = [] \<and> pack_regions block_header_regions p = []" if "p \<in> set ps" for p
      using apply_internal_success(3)[OF internal(3)] that unbacked_regions by (fastforce simp: pack_regions_def)
    then have "msn_payload_regions d = [] \<and> msn_header_regions d = []"
      unfolding internal(2) msn_payload_regions_def msn_header_regions_def by simp
    then show ?thesis by simp
  next
    case (external ps)
    let ?n = "resize_block_sizes n"
    note v = msn_validate_success[OF external(2)] and r = assms(2)[unfolded msn_ready_def]
    have ps: "ps = with_blocksets (me_mkey_invalid env) ?n l (header_memory_ptr l) (payload_memory_ptr l) (msn_stream_packs n)"
      by (rule apply_external_success[OF external(4)])
    have "placed (unat (payload_memory_ptr l), unat (msn_payload_total_memory_size n)) (msn_payload_regions d)"
      if "unat (payload_memory_ptr l) + unat (payload_memory_size l) < 2 ^ 64"
      using with_blocksets_placed[of "payload_memory_ptr l" "msn_stream_packs n" ?n] that v r
      by (simp add: msn_payload_regions_def external(3) ps)
    moreover have "placed (unat (header_memory_ptr l), unat (msn_header_total_memory_size n)) (msn_header_regions d)"
      if "unat (header_memory_ptr l) + unat (header_memory_size l) < 2 ^ 64"
      using with_blocksets_headers_placed[of "header_memory_ptr l" "msn_stream_packs n" ?n] that v r
      by (simp add: msn_header_regions_def external(3) ps)
    ultimately show ?thesis using v placed_mono by blast
  qed simp
  then show "unat (payload_memory_ptr l) + unat (payload_memory_size l) < 2 ^ 64 \<Longrightarrow>
      placed (unat (payload_memory_ptr l), unat (payload_memory_size l)) (msn_payload_regions d)"
    and "unat (header_memory_ptr l) + unat (header_memory_size l) < 2 ^ 64 \<Longrightarrow>
      placed (unat (header_memory_ptr l), unat (header_memory_size l)) (msn_header_regions d)" by simp_all
qed

lemma msn_apply_status:
  assumes "msn_apply_memory_layout os env l (n, m) = Some (rc, d, m')"
  shows "rc \<in> {success, failure}" "block_sizes_fit d = block_sizes_fit n"
proof -
  have "rc \<in> {success, failure} \<and> block_sizes_fit d = block_sizes_fit n"
    using assms
  proof (cases rule: msn_apply_cases)
    case (internal ps)
    then show ?thesis using apply_internal_success(1,2)[OF internal(3)] by (simp add: block_sizes_fit_def)
  next
    case invalid
    moreover have "msn_validate_memory_layout l n \<in> {success, failure}" by (simp add: msn_validate_memory_layout_def)
    ultimately show ?thesis by auto
  next
    case (external ps)
    then show ?thesis using apply_external_status[OF external(4)] by (auto simp: block_sizes_fit_def)
  qed
  then show "rc \<in> {success, failure}" "block_sizes_fit d = block_sizes_fit n" by simp_all
qed

interpretation media_senders: memory_subcomponents "media_sender_operations os env m" msn_ready msn_payload_regions msn_header_regions
    block_sizes_fit for os env m
proof (unfold_locales, unfold media_sender_operations_def component_operations.select_convs, goal_cases)
  case (1 l c d)
  then obtain m' where "msn_apply_memory_layout os env l (c, m) = Some (success, d, m')" by auto
  then show ?case using 1 by (intro msn_apply_placed(1))
next
  case (2 l c d)
  then obtain m' where "msn_apply_memory_layout os env l (c, m) = Some (success, d, m')" by auto
  then show ?case using 2 by (intro msn_apply_placed(2))
next
  case (3 c d)
  then show ?case by (rule msn_initialize_ready)
next
  case (4 l c st d)
  then obtain m' where "msn_apply_memory_layout os env l (c, m) = Some (st, d, m')" by auto
  then show ?case by (rule msn_apply_status(1))
next
  case (5 l c st d)
  then obtain m' where "msn_apply_memory_layout os env l (c, m) = Some (st, d, m')" by auto
  then show ?case by (rule msn_apply_status(2))
qed

text \<open>C12: no two memory blocks of an application overlap, nor do their headers and payloads.  When the
  application has determined, allocated, registered and applied the memory layout of its media senders with success, the
  payload regions of all blocks of all streams of all nodes follow each other without overlap inside the one payload
  buffer, the header regions do so inside the header buffer, and any two of all these regions, a header region and a
  payload region included, do not overlap.  Relied on are that the sums of the sizes fit 64 bits, that the two requests,
  aligned to pages, fit the address space, and that the blocks the operating system has handed out to the two
  allocators lie in the address space and do not overlap.\<close>

theorem media_memory_disjoint:
  assumes "configure_memory_layout os rmx (media_sender_operations os env m) t0 = Some (success, t)"
    and "\<not> m_memory_layout_determined t0" "\<not> m_memory_allocated t0" "m_app_allocated_memory t0"
    and "sizes_fit (m_header_payload_subcomponents_buffer_sizes t)" "\<forall>n \<in> set (m_memory_subcomponents t). block_sizes_fit n"
    and "alignable_request os (m_header_allocator t) (m_header_memory_size t)"
    and "alignable_request os (m_payload_allocator t) (m_payload_memory_size t)"
    and "live_blocks_apart (m_header_allocator t) (m_payload_allocator t)"
  shows "placed (unat (strategy_payload_buffer t), unat (m_payload_memory_size t))
      (concat (map msn_payload_regions (m_memory_subcomponents t)))
    \<and> placed (unat (strategy_header_buffer t), unat (m_header_memory_size t))
      (concat (map msn_header_regions (m_memory_subcomponents t)))
    \<and> sorted_wrt apart (concat (map msn_header_regions (m_memory_subcomponents t))
        @ concat (map msn_payload_regions (m_memory_subcomponents t)))"
  using media_senders.configured_placed[OF assms(1-6)] assms(7-9)
  by (simp add: allocations_sound_def header_buffer_region_def payload_buffer_region_def)

section \<open>An example\<close>

text \<open>A sender of two streams of two blocks each, with its headers in memory of their own.\<close>

definition example_media_strategy :: "unit MediaSenderIONode RmaxBaseMemoryStrategy" where
  "example_media_strategy = snd (add_memory_subcomponent (example_sender0\<lparr>msn_video_file := [], msn_num_of_memory_blocks := 2,
       msn_packet_header_size := 20, msn_app_header_stride_size := 32\<rparr>)
     (RmaxBaseMemoryStrategy_new (NewMemoryAllocator_new example_os 0) (NewMemoryAllocator_new example_os 1) 1 1 True False))"

definition example_media_configured :: "unit MediaSenderIONode RmaxBaseMemoryStrategy" where
  "example_media_configured = snd (the (configure_memory_layout example_os example_memory
     (media_sender_operations example_os example_media_env (\<lambda>_. 0)) example_media_strategy))"

lemmas media_layout_eval = example_media_strategy_def media_sender_operations_def configure_memory_layout_def
    strategy_determine_memory_layout_def RmaxBaseMemoryStrategy_new_def add_memory_subcomponent_def Let_def
    msn_initialize_memory_layout_def determine_memory_layout_for_single_block_def example_sender_defs loads_file_def msn_is_hds_on_def
    msn_determine_memory_layout_def align_buffer_sizes_def align_length_def NewMemoryAllocator_new_def base_align_length_def
    get_page_size_def example_os_def allocate_memory_def strategy_allocate_aligned_def allocate_aligned_def allocate_defs
    allocate_new_def record_block_def strategy_register_memory_def strategy_apply_memory_layout_def apply_memory_layout_helper_def
    apply_memory_layout_for_subcomponent_def msn_apply_memory_layout_def is_internal_allocation_requested_def
    msn_validate_memory_layout_def example_memory_def resize_block_sizes_def resize_sizes_def

lemma example_media_configure:
  "configure_memory_layout example_os example_memory (media_sender_operations example_os example_media_env (\<lambda>_. 0)) example_media_strategy
    = Some (success, example_media_configured)"
  "strategy_payload_buffer example_media_configured = 0xF01000" "m_payload_memory_size example_media_configured = 192"
  "strategy_header_buffer example_media_configured = 1003520" "m_header_memory_size example_media_configured = 256"
  "m_header_payload_subcomponents_buffer_sizes example_media_configured = [(256, 192)]"
  "concat (map msn_payload_regions (m_memory_subcomponents example_media_configured))
    = [(0xF01000, 48), (0xF01030, 48), (0xF01060, 48), (0xF01090, 48)]"
  "concat (map msn_header_regions (m_memory_subcomponents example_media_configured))
    = [(1003520, 64), (1003584, 64), (1003648, 64), (1003712, 64)]"
  "\<forall>n \<in> set (m_memory_subcomponents example_media_configured). block_sizes_fit n"
  "m_header_allocator example_media_configured
    = (NewMemoryAllocator_new example_os 0)\<lparr>m_mem_blocks := [\<lparr>pointer = 1000100, block_length = 4352\<rparr>]\<rparr>"
  "m_payload_allocator example_media_configured
    = (NewMemoryAllocator_new example_os 1)\<lparr>m_mem_blocks := [\<lparr>pointer = 0xF00064, block_length = 4288\<rparr>]\<rparr>"
  by (simp_all add: media_layout_eval example_media_configured_def apply_external_blocks keys_present_def
      msn_payload_regions_def msn_header_regions_def pack_regions_def block_sizes_fit_def with_blockset_def blockset_at_def
      sent_blocks_def sent_block_def header_step_def new_mem_blockset_def block_payload_regions_def block_header_regions_def
      used_region_def upt_rec del: apply_external.simps)

lemma example_media_sound:
  "alignable_request example_os (m_header_allocator example_media_configured) (m_header_memory_size example_media_configured)"
  "alignable_request example_os (m_payload_allocator example_media_configured) (m_payload_memory_size example_media_configured)"
  "live_blocks_apart (m_header_allocator example_media_configured) (m_payload_allocator example_media_configured)"
  by (simp_all add: example_media_configure alignable_request_def live_blocks_apart_def memory_blocks_def apart_def
      get_page_size_def NewMemoryAllocator_new_def example_os_def)

theorem media_memory_disjoint_witness:
  "concat (map msn_header_regions (m_memory_subcomponents example_media_configured))
      = [(1003520, 64), (1003584, 64), (1003648, 64), (1003712, 64)]
    \<and> placed (1003520, 256) (concat (map msn_header_regions (m_memory_subcomponents example_media_configured)))
    \<and> placed (0xF01000, 192) (concat (map msn_payload_regions (m_memory_subcomponents example_media_configured)))
    \<and> sorted_wrt apart (concat (map msn_header_regions (m_memory_subcomponents example_media_configured))
        @ concat (map msn_payload_regions (m_memory_subcomponents example_media_configured)))"
proof -
  have "\<not> m_memory_layout_determined example_media_strategy" "\<not> m_memory_allocated example_media_strategy"
    "m_app_allocated_memory example_media_strategy"
    by (simp_all add: example_media_strategy_def add_memory_subcomponent_def RmaxBaseMemoryStrategy_new_def)
  then show ?thesis
    using media_memory_disjoint[OF example_media_configure(1) _ _ _ _ example_media_configure(9) example_media_sound]
    by (simp add: example_media_configure(2-8) sizes_fit_def)
qed

end
