(* ===== verification/Media_Sending.thy ===== *)
theory Media_Sending
  imports Media_Memory Ipmx_Sender
begin

text \<open>
  Sending: the chunks, times and packets of a field of the media sender, and its edit of the session description, which is
  that of the IPMX sender.
\<close>

section \<open>A field is sent in turns\<close>

text \<open>A library that refuses nothing, with a log of the committed chunks and their times.\<close>

definition accepting :: "('p, 'l) media_env \<Rightarrow> ('l \<Rightarrow> (nat \<times> u64) list) \<Rightarrow> bool" where
  "accepting env sent \<longleftrightarrow>
     (\<forall>h l. fst (media_get_next_chunk (me_rmx env) h l) = RMX_OK \<and> sent (snd (media_get_next_chunk (me_rmx env) h l)) = sent l)
     \<and> (\<forall>h t l. fst (media_commit_chunk (me_rmx env) h t l) = RMX_OK
          \<and> sent (snd (media_commit_chunk (me_rmx env) h t l)) = sent l @ [(h, t)])
     \<and> (\<forall>l. sent (snd (me_time_now_ns env l)) = sent l)"

text \<open>A stream that can send: it has a chunk and a writer whose counters are those of some packet.\<close>

definition pack_ready :: "'p MediaStreamPack \<Rightarrow> bool" where
  "pack_ready p \<longleftrightarrow> (\<exists>c w d k. pack_chunk_handler p = Some c \<and> pack_buffer_writer p = Some w \<and> wf_writer w
     \<and> m_send_data w = stream_state (m_media_settings w) d k)"

definition handle_of :: "'p MediaStreamPack \<Rightarrow> nat" where
  "handle_of p = media_chunk_handle (the (pack_chunk_handler p))"

text \<open>What \<open>k\<close> chunks change in a stream: the counters of its writer and the rest of its frame.\<close>

definition chunks_written :: "nat \<Rightarrow> 'p MediaStreamPack \<Rightarrow> 'p MediaStreamPack \<Rightarrow> bool" where
  "chunks_written k p p' \<longleftrightarrow> (\<exists>w w'.
     let packets = k * unat (media_chunk_length (the (pack_chunk_handler p)))
     in pack_buffer_writer p = Some w \<and> p' = p\<lparr>pack_buffer_writer := Some w'\<rparr>
        \<and> wf_writer w' \<and> m_media_settings w' = m_media_settings w
        \<and> (\<forall>d j. m_send_data w = stream_state (m_media_settings w) d j \<longrightarrow> m_send_data w' = stream_state (m_media_settings w) d (j + packets))
        \<and> frame_left w' = drop (packets * payload_size w) (frame_left w))"

lemma write_loop_state:
  assumes "wf_writer w" "m_send_data w = stream_state (m_media_settings w) d k"
  shows "\<exists>w' m'. write_loop hdr pay s n (w, m) = Some (w', m') \<and> wf_writer w' \<and> m_media_settings w' = m_media_settings w
    \<and> m_send_data w' = stream_state (m_media_settings w) d (k + n) \<and> frame_left w' = drop (n * payload_size w) (frame_left w)"
  using assms
proof (induction n arbitrary: w k s m)
  case (Suc n)
  obtain w1 m1 where w1: "write_packet (hdr s) (pay s) (w, m) = Some (w1, m1)" "wf_writer w1" "m_media_settings w1 = m_media_settings w"
    "m_send_data w1 = stream_state (m_media_settings w) d (Suc k)" "frame_left w1 = drop (payload_size w) (frame_left w)"
    using write_packet_step[OF Suc.prems, of "hdr s" "pay s" m] by blast
  have "packet_counter (m_send_data w) < packets_in_frame_field (m_media_settings w)"
    using stream_state_counter Suc.prems by (simp add: wf_writer_def)
  moreover obtain w' m' where "write_loop hdr pay (s + 1) n (w1, m1) = Some (w', m')" "wf_writer w'" "m_media_settings w' = m_media_settings w1"
    "m_send_data w' = stream_state (m_media_settings w1) d (Suc k + n)" "frame_left w' = drop (n * payload_size w1) (frame_left w1)"
    using Suc.IH[of w1 "Suc k" "s + 1" m1] w1 by auto
  ultimately show ?case using w1 by (auto simp: add.commute)
qed simp

lemma write_chunk_state:
  assumes "wf_writer w" "m_send_data w = stream_state (m_media_settings w) d k"
  obtains w' m' where "write_chunk env n c l (w, m) = Some (w', m')" "wf_writer w'" "m_media_settings w' = m_media_settings w"
    "\<forall>d j. m_send_data w = stream_state (m_media_settings w) d j
       \<longrightarrow> m_send_data w' = stream_state (m_media_settings w) d (j + unat (media_chunk_length c))"
    "frame_left w' = drop (unat (media_chunk_length c) * payload_size w) (frame_left w)"
proof -
  let ?n = "unat (media_chunk_length c)"
  obtain hdr pay where run: "write_chunk env n c l (w, m) = write_loop hdr pay 0 ?n (w, m)"
    by (cases "msn_is_hds_on n") (fastforce simp: write_chunk_def write_buffer_def write_buffer_hds_def Let_def option.map_comp option.map_ident comp_def)+
  obtain w' m' where w': "write_loop hdr pay 0 ?n (w, m) = Some (w', m')" "wf_writer w'" "m_media_settings w' = m_media_settings w"
    "frame_left w' = drop (?n * payload_size w) (frame_left w)"
    using write_loop_state[OF assms, of hdr pay 0 ?n m] by blast
  have "m_send_data w' = stream_state (m_media_settings w) d j'" if "m_send_data w = stream_state (m_media_settings w) d j" "j' = j + ?n" for d j j'
    using write_loop_state[OF assms(1) that(1), of hdr pay 0 ?n m] w'(1) that(2) by simp
  then show ?thesis using that[of w' m'] run w' by simp
qed

lemma accepted_calls:
  assumes "accepting env sent"
  shows "\<exists>l'. get_chunk_until_free (me_rmx env) c l = Some (success, l') \<and> sent l' = sent l"
    and "\<exists>l'. commit_chunk_until_accepted (me_rmx env) c t l = Some (success, l') \<and> sent l' = sent l @ [(media_chunk_handle c, t)]"
    and "sent (snd (me_time_now_ns env l)) = sent l"
proof -
  note a = assms[unfolded accepting_def]
  have "media_stream_get_next_chunk (me_rmx env) c l = (success, snd (media_get_next_chunk (me_rmx env) (media_chunk_handle c) l))"
    using a by (simp add: media_stream_get_next_chunk_def media_chunk_get_next_def apfst_def map_prod_def next_chunk_status_def case_prod_beta)
  then have "get_chunk_until_free (me_rmx env) c l = Some (success, snd (media_get_next_chunk (me_rmx env) (media_chunk_handle c) l))"
    by (subst get_chunk_until_free.simps) (simp add: media_blocking_get_next_chunk_def retry_while.simps split: nat.split)
  then show "\<exists>l'. get_chunk_until_free (me_rmx env) c l = Some (success, l') \<and> sent l' = sent l" using a by blast
  have "media_stream_commit_chunk (me_rmx env) c t l = (success, snd (media_commit_chunk (me_rmx env) (media_chunk_handle c) t l))"
    using a by (simp add: media_stream_commit_chunk_def media_chunk_commit_def apfst_def map_prod_def commit_status_def case_prod_beta)
  then have "commit_chunk_until_accepted (me_rmx env) c t l = Some (success, snd (media_commit_chunk (me_rmx env) (media_chunk_handle c) t l))"
    by (subst commit_chunk_until_accepted.simps) (simp add: media_blocking_commit_chunk_def retry_while.simps split: nat.split)
  then show "\<exists>l'. commit_chunk_until_accepted (me_rmx env) c t l = Some (success, l') \<and> sent l' = sent l @ [(media_chunk_handle c, t)]"
    using a by blast
  show "sent (snd (me_time_now_ns env l)) = sent l" using a by blast
qed

lemma chunks_written_ready:
  assumes "chunks_written k p p'" "pack_ready p"
  shows "pack_ready p'" "pack_chunk_handler p' = pack_chunk_handler p"
  using assms unfolding chunks_written_def pack_ready_def Let_def by fastforce+

lemma chunks_written_Suc:
  assumes "chunks_written 1 p p1" "chunks_written k p1 p2"
  shows "chunks_written (Suc k) p p2"
proof -
  let ?L = "unat (media_chunk_length (the (pack_chunk_handler p)))"
  obtain w w1 where a: "pack_buffer_writer p = Some w" "p1 = p\<lparr>pack_buffer_writer := Some w1\<rparr>" "m_media_settings w1 = m_media_settings w"
    "\<And>d j. m_send_data w = stream_state (m_media_settings w) d j \<Longrightarrow> m_send_data w1 = stream_state (m_media_settings w) d (j + ?L)"
    "frame_left w1 = drop (?L * payload_size w) (frame_left w)"
    using assms(1) by (auto simp: chunks_written_def Let_def)
  obtain w2 where b: "p2 = p\<lparr>pack_buffer_writer := Some w2\<rparr>" "wf_writer w2" "m_media_settings w2 = m_media_settings w"
    "\<And>d j. m_send_data w1 = stream_state (m_media_settings w) d j \<Longrightarrow> m_send_data w2 = stream_state (m_media_settings w) d (j + k * ?L)"
    "frame_left w2 = drop (k * ?L * payload_size w) (frame_left w1)"
    using assms(2) a(2,3) by (auto simp: chunks_written_def Let_def)
  have "m_send_data w2 = stream_state (m_media_settings w) d (j + Suc k * ?L)" if "m_send_data w = stream_state (m_media_settings w) d j" for d j
    using b(4)[OF a(4)[OF that]] by (simp add: add.assoc)
  moreover have "frame_left w2 = drop (Suc k * ?L * payload_size w) (frame_left w)"
    unfolding b(5) a(5) by (simp add: add_mult_distrib add.commute)
  ultimately show ?thesis
    unfolding chunks_written_def Let_def using a(1) b(1-3) by (intro exI[of _ w] exI[of _ w2]) simp
qed

lemma chunks_written_0:
  assumes "pack_ready p"
  shows "chunks_written 0 p p"
proof -
  obtain w where w: "pack_buffer_writer p = Some w" "wf_writer w" using assms by (auto simp: pack_ready_def)
  then have "p\<lparr>pack_buffer_writer := Some w\<rparr> = p" by (cases p) simp
  then show ?thesis unfolding chunks_written_def Let_def using w by (intro exI[of _ w]) simp
qed

text \<open>A time the clock has not reached.\<close>

definition ahead :: "('p, 'l) media_env \<Rightarrow> rat \<Rightarrow> bool" where
  "ahead env t \<longleftrightarrow> 0 \<le> t \<and> t < 2 ^ 64 \<and> (\<forall>l. dbl (of_nat (unat (fst (me_time_now_ns env l)))) < t)"

text \<open>One chunk of a stream.\<close>

lemma send_chunk_accepted:
  assumes "accepting env sent" "pack_ready p" "0 < chunks_in_frame_field (msn_media_settings n)"
    and "i mod unat (chunks_in_frame_field (msn_media_settings n)) = 0 \<longrightarrow> ahead env t"
  obtains p' m' l' where "send_chunk env n i t (p, m, l) = Some (success, p', m', l')" "chunks_written 1 p p'"
    "sent l' = sent l @ [(handle_of p, if i mod unat (chunks_in_frame_field (msn_media_settings n)) = 0 then word_of_nat (nat \<lfloor>t\<rfloor>) else 0)]"
proof -
  let ?first = "i mod unat (chunks_in_frame_field (msn_media_settings n)) = 0"
  let ?t = "if ?first then word_of_nat (nat \<lfloor>t\<rfloor>) else 0 :: u64"
  obtain c w d k where p: "pack_chunk_handler p = Some c" "pack_buffer_writer p = Some w" "wf_writer w"
    "m_send_data w = stream_state (m_media_settings w) d k"
    using assms(2) by (auto simp: pack_ready_def)
  obtain l1 where l1: "get_chunk_until_free (me_rmx env) c l = Some (success, l1)" "sent l1 = sent l"
    using accepted_calls(1)[OF assms(1)] by blast
  obtain w' m' where w': "write_chunk env n c l1 (w, m) = Some (w', m')" "wf_writer w'" "m_media_settings w' = m_media_settings w"
    "\<forall>d j. m_send_data w = stream_state (m_media_settings w) d j
       \<longrightarrow> m_send_data w' = stream_state (m_media_settings w) d (j + unat (media_chunk_length c))"
    "frame_left w' = drop (unat (media_chunk_length c) * payload_size w) (frame_left w)"
    by (rule write_chunk_state[OF p(3,4)])
  obtain now l2 where now: "me_time_now_ns env l1 = (now, l2)" by fastforce
  have l2: "sent l2 = sent l" using accepted_calls(3)[OF assms(1), of l1] now l1(2) by simp
  have ts: "get_commit_timestamp_ns ?first t now = Some ?t"
    using assms(4) now by (cases ?first) (auto simp: get_commit_timestamp_ns_def to_unsigned_def ahead_def dest: spec[of _ l1])
  obtain l3 where l3: "commit_chunk_until_accepted (me_rmx env) c ?t l2 = Some (success, l3)" "sent l3 = sent l2 @ [(media_chunk_handle c, ?t)]"
    using accepted_calls(2)[OF assms(1)] by blast
  have nz: "unat (chunks_in_frame_field (msn_media_settings n)) \<noteq> 0" using assms(3) by (simp add: unat_gt_0 word_neq_0_conv)
  have run: "send_chunk env n i t (p, m, l) = Some (success, p\<lparr>pack_buffer_writer := Some w'\<rparr>, m', l3)"
    unfolding send_chunk_def prod.case p(1) Option.bind.simps l1(1) using w'(1) now ts l3(1) nz p(2)
    by (simp only: Let_def Option.bind.simps prod.case if_False simp_thms)
  have "chunks_written 1 p (p\<lparr>pack_buffer_writer := Some w'\<rparr>)"
    unfolding chunks_written_def Let_def using p w' by (intro exI[of _ w] exI[of _ w']) simp
  then show ?thesis using that[OF run] l3(2) l2 p(1) by (simp add: handle_of_def)
qed

text \<open>One chunk of each stream, in order.\<close>

lemma send_chunk_of_each_accepted:
  assumes "accepting env sent" "\<forall>p \<in> set ps. pack_ready p" "0 < chunks_in_frame_field (msn_media_settings n)"
    and "i mod unat (chunks_in_frame_field (msn_media_settings n)) = 0 \<longrightarrow> ahead env t"
  shows "\<exists>ps' m' l'. send_chunk_of_each env n i t success (ps, m, l) = Some (success, ps', m', l') \<and> list_all2 (chunks_written 1) ps ps'
    \<and> sent l' = sent l @ map (\<lambda>p. (handle_of p,
         if i mod unat (chunks_in_frame_field (msn_media_settings n)) = 0 then word_of_nat (nat \<lfloor>t\<rfloor>) else 0)) ps"
  using assms(2)
proof (induction ps arbitrary: m l)
  case (Cons p ps)
  have p: "pack_ready p" using Cons.prems by simp
  from send_chunk_accepted[OF assms(1) p assms(3,4), of m l]
  obtain p' m1 l1 where one: "send_chunk env n i t (p, m, l) = Some (success, p', m1, l1)" "chunks_written 1 p p'"
    "sent l1 = sent l @ [(handle_of p, if i mod unat (chunks_in_frame_field (msn_media_settings n)) = 0 then word_of_nat (nat \<lfloor>t\<rfloor>) else 0)]"
    by blast
  from Cons.IH[of m1 l1] Cons.prems
  obtain ps' m' l' where rest: "send_chunk_of_each env n i t success (ps, m1, l1) = Some (success, ps', m', l')" "list_all2 (chunks_written 1) ps ps'"
    "sent l' = sent l1 @ map (\<lambda>p. (handle_of p,
         if i mod unat (chunks_in_frame_field (msn_media_settings n)) = 0 then word_of_nat (nat \<lfloor>t\<rfloor>) else 0)) ps"
    by auto
  show ?case using one rest by (intro exI[of _ "p' # ps'"] exI[of _ m'] exI[of _ l']) simp
qed simp

text \<open>The turns from chunk \<open>i\<close> on.\<close>

definition field_turns :: "'p MediaStreamPack list \<Rightarrow> nat \<Rightarrow> nat \<Rightarrow> u64 \<Rightarrow> (nat \<times> u64) list" where
  "field_turns ps i chunks t = concat (map (\<lambda>j. map (\<lambda>p. (handle_of p, if j = 0 then t else 0)) ps) [i..<chunks])"

lemma chunks_written_handles:
  assumes "list_all2 (chunks_written k) ps ps'" "\<forall>p \<in> set ps. pack_ready p"
  shows "\<forall>p \<in> set ps'. pack_ready p" "map handle_of ps' = map handle_of ps"
  using assms
  by (induction rule: list_all2_induct) (auto simp: handle_of_def dest: chunks_written_ready)

lemma field_turns_cong:
  assumes "map handle_of ps' = map handle_of ps"
  shows "field_turns ps' i chunks t = field_turns ps i chunks t"
proof -
  have "map (\<lambda>p. (handle_of p, s)) ps' = map (\<lambda>h. (h, s)) (map handle_of ps')" for s :: u64 by simp
  also have "\<dots> s = map (\<lambda>p. (handle_of p, s)) ps" for s :: u64 unfolding assms by simp
  finally show ?thesis by (simp add: field_turns_def)
qed

lemma field_turns_step:
  "i < chunks \<Longrightarrow> field_turns ps i chunks t = map (\<lambda>p. (handle_of p, if i = 0 then t else 0)) ps @ field_turns ps (Suc i) chunks t"
  by (simp add: field_turns_def upt_conv_Cons)

lemma list_all2_written_Suc:
  assumes "list_all2 (chunks_written 1) ps ps1" "list_all2 (chunks_written k) ps1 ps2"
  shows "list_all2 (chunks_written (Suc k)) ps ps2"
  using list_all2_trans[OF _ assms, of "chunks_written (Suc k)"] chunks_written_Suc by blast

lemma send_field_accepted:
  assumes "accepting env sent" "unat (chunks_in_frame_field (msn_media_settings n)) = i + Suc k"
    and "\<forall>p \<in> set ps. pack_ready p" "i = 0 \<longrightarrow> ahead env t \<and> T = word_of_nat (nat \<lfloor>t\<rfloor>)"
  shows "\<exists>ps' m' l'. send_field env n i t success (ps, m, l) = Some (success, ps', m', l') \<and> list_all2 (chunks_written (Suc k)) ps ps'
    \<and> sent l' = sent l @ field_turns ps i (i + Suc k) T"
  using assms(2-)
proof (induction k arbitrary: i ps m l t)
  case 0
  let ?chunks = "unat (chunks_in_frame_field (msn_media_settings n))"
  have pos: "0 < chunks_in_frame_field (msn_media_settings n)" "i mod ?chunks = i"
    using "0.prems"(1) by (simp_all add: word_less_nat_alt)
  from send_chunk_of_each_accepted[OF assms(1) "0.prems"(2) pos(1), of i t m l]
  obtain ps' m' l' where r: "send_chunk_of_each env n i t success (ps, m, l) = Some (success, ps', m', l')" "list_all2 (chunks_written 1) ps ps'"
    "sent l' = sent l @ map (\<lambda>p. (handle_of p, if i = 0 then word_of_nat (nat \<lfloor>t\<rfloor>) else 0)) ps"
    using "0.prems"(3) unfolding pos(2) by blast
  have "send_field env n i t success (ps, m, l) = Some (success, ps', m', l')"
    using r(1) "0.prems"(1) by (subst send_field.simps) (simp add: Let_def)
  moreover have "sent l' = sent l @ field_turns ps i (i + Suc 0) T"
    using r(3) "0.prems"(3) by (cases "i = 0") (simp_all add: field_turns_step, simp_all add: field_turns_def)
  ultimately show ?case using r(2) by (intro exI[of _ ps'] exI[of _ m'] exI[of _ l']) simp
next
  case (Suc k)
  let ?chunks = "unat (chunks_in_frame_field (msn_media_settings n))"
  let ?t = "if i mod ?chunks = 0 then dbl (t + frame_field_time_interval_ns (msn_media_settings n)) else t"
  have pos: "0 < chunks_in_frame_field (msn_media_settings n)" "i mod ?chunks = i"
    using Suc.prems(1) by (simp_all add: word_less_nat_alt)
  from send_chunk_of_each_accepted[OF assms(1) Suc.prems(2) pos(1), of i t m l]
  obtain ps1 m1 l1 where r: "send_chunk_of_each env n i t success (ps, m, l) = Some (success, ps1, m1, l1)" "list_all2 (chunks_written 1) ps ps1"
    "sent l1 = sent l @ map (\<lambda>p. (handle_of p, if i = 0 then word_of_nat (nat \<lfloor>t\<rfloor>) else 0)) ps"
    using Suc.prems(3) unfolding pos(2) by blast
  note ready = chunks_written_handles[OF r(2) Suc.prems(2)]
  have next_chunk: "?chunks = Suc i + Suc k" using Suc.prems(1) by simp
  have later: "Suc i = 0 \<longrightarrow> ahead env ?t \<and> T = word_of_nat (nat \<lfloor>?t\<rfloor>)" by simp
  from Suc.IH[OF next_chunk ready(1) later, of m1 l1]
  obtain ps' m' l' where rest: "send_field env n (Suc i) ?t success (ps1, m1, l1) = Some (success, ps', m', l')"
    "list_all2 (chunks_written (Suc k)) ps1 ps'" "sent l' = sent l1 @ field_turns ps1 (Suc i) (Suc i + Suc k) T"
    by blast
  have "send_field env n i t success (ps, m, l) = Some (success, ps', m', l')"
    using r(1) rest(1) Suc.prems(1) by (subst send_field.simps) (simp add: Let_def)
  moreover have "sent l' = sent l @ field_turns ps i (i + Suc (Suc k)) T"
    using rest(3) r(3) Suc.prems(3) field_turns_cong[OF ready(2)] by (auto simp: field_turns_step[of i])
  ultimately show ?case using list_all2_written_Suc[OF r(2) rest(2)] by blast
qed

text \<open>C13: how a frame or field goes out.  With a library that refuses nothing, each of the chunks of a field
  takes one chunk of every stream of the node in order.  The chunks of the first turn are committed with the send time
  of the field, if the clock has not reached it, all others without a time; and in every stream the packets of these
  chunks are written: the counters of its writer move on by them, and the bytes of its frame are used up by them.\<close>

theorem fields_sent_in_turn:
  assumes "accepting env sent" "\<forall>p \<in> set ps. pack_ready p" "ahead env t"
    and "0 < chunks_in_frame_field (msn_media_settings n)"
  shows "\<exists>ps' m' l'. send_field env n 0 t success (ps, m, l) = Some (success, ps', m', l')
    \<and> sent l' = sent l @ concat (map (\<lambda>j. map (\<lambda>p. (handle_of p, if j = 0 then word_of_nat (nat \<lfloor>t\<rfloor>) else 0)) ps)
                               [0..<unat (chunks_in_frame_field (msn_media_settings n))])
    \<and> list_all2 (chunks_written (unat (chunks_in_frame_field (msn_media_settings n)))) ps ps'"
proof -
  obtain k where k: "unat (chunks_in_frame_field (msn_media_settings n)) = Suc k"
    using assms(4) by (cases "unat (chunks_in_frame_field (msn_media_settings n))") (simp_all add: word_less_nat_alt)
  have "unat (chunks_in_frame_field (msn_media_settings n)) = 0 + Suc k" using k by simp
  from send_field_accepted[OF assms(1) this assms(2), of t "word_of_nat (nat \<lfloor>t\<rfloor>)" m l] show ?thesis
    using assms(3) unfolding field_turns_def k add_0 by blast
qed

text \<open>A library whose state is the log, and two streams with the chunks 7 and 8.\<close>

definition log_env :: "(unit, (nat \<times> u64) list) media_env" where
  "log_env = \<lparr>me_rmx =
     \<lparr>media_init_chunk_handle = (\<lambda>_ l. (0, l)), media_get_next_chunk = (\<lambda>_ l. (RMX_OK, l)), media_get_chunk_strides = (\<lambda>_ _ _. 0),
      media_get_chunk_packet_sizes = (\<lambda>_ _ _. 0), media_set_chunk_option = (\<lambda>_ _ l. l), media_clear_chunk_all_options = (\<lambda>_ l. l),
      media_commit_chunk = (\<lambda>h t l. (RMX_OK, l @ [(h, t)])), media_cancel_unsent_chunks = (\<lambda>_ l. (RMX_OK, l)),
      media_mark_chunk_for_tracking = (\<lambda>_ _ l. (RMX_OK, l)), media_poll_for_completion = (\<lambda>_ l. (RMX_BUSY, l)),
      media_get_last_completion = (\<lambda>_ _. None), media_create_stream = (\<lambda>_ l. (RMX_OK, 1, l)), media_destroy_stream = (\<lambda>_ l. (RMX_OK, l))\<rparr>,
     me_socket_address = (\<lambda>_ _. 0), me_mkey_invalid = 0xFFFFFFFF, me_cache_line_size = 64, me_time_now_ns = (\<lambda>l. (0, l)),
     me_sleep_for_ns = (\<lambda>_ l. l), me_received_signal = (\<lambda>_. -1), me_file = (\<lambda>_. None),
     me_get_frame_blocking = (\<lambda>p. Returns (None, p))\<rparr>"

definition sending_pack :: "nat \<Rightarrow> unit MediaStreamPack" where
  "sending_pack h = MediaStreamPack_new\<lparr>pack_chunk_handler :=
     Some \<lparr>media_chunk_handle = h, media_chunk_length = 2, media_chunk_hds_on = False, media_chunk_stream_id = 0\<rparr>,
     pack_buffer_writer := Some example_writer\<rparr>"

theorem fields_sent_in_turn_witness:
  "\<exists>ps' m'. send_field log_env (example_sender0\<lparr>msn_media_settings := example_media\<lparr>chunks_in_frame_field := 2\<rparr>\<rparr>) 0 5 success
      ([sending_pack 7, sending_pack 8], \<lambda>_. 0, []) = Some (success, ps', m', [(7, 5), (8, 5), (7, 0), (8, 0)])"
proof -
  let ?n = "example_sender0\<lparr>msn_media_settings := example_media\<lparr>chunks_in_frame_field := 2\<rparr>\<rparr>"
  have a: "accepting log_env (\<lambda>l. l)" by (simp add: accepting_def log_env_def)
  have r: "\<forall>p \<in> set [sending_pack 7, sending_pack 8]. pack_ready p"
    using example_writer_wf(1,3) unfolding example_writer_wf(2)[symmetric] by (auto simp: pack_ready_def sending_pack_def)
  have t: "ahead log_env 5" using round_prec_nat[of 0] by (simp add: ahead_def log_env_def)
  have "0 < chunks_in_frame_field (msn_media_settings ?n)" by simp
  note sent = fields_sent_in_turn[OF a r t this, of "\<lambda>_. 0" "[]"]
  have two: "unat (chunks_in_frame_field (msn_media_settings ?n)) = 2" "[0..<2] = [0, 1 :: nat]" "nat \<lfloor>5 :: rat\<rfloor> = 5"
    by (simp_all add: upt_rec)
  have "handle_of (sending_pack h) = h" for h by (simp add: handle_of_def sending_pack_def)
  then show ?thesis using sent unfolding two by auto
qed

section \<open>Editing the session description\<close>

definition matches_at :: "string \<Rightarrow> string \<Rightarrow> nat \<Rightarrow> bool" where
  "matches_at pat s i \<longleftrightarrow> take (length pat) (drop i s) = pat"

lemma matches_at_append: "matches_at pat (d @ t) (length d + i) = matches_at pat t i"
  by (simp add: matches_at_def)

lemma matches_at_split: "matches_at pat t i \<Longrightarrow> i \<le> length t \<Longrightarrow> t = take i t @ pat @ drop (i + length pat) t"
  unfolding matches_at_def by (metis add.commute append_take_drop_id drop_drop)

lemma str_find_Some:
  "str_find pat s n = Some i \<longleftrightarrow> n \<le> i \<and> i \<le> length s \<and> matches_at pat s i \<and> (\<forall>j. n \<le> j \<and> j < i \<longrightarrow> \<not> matches_at pat s j)"
  (is "?l \<longleftrightarrow> ?r")
proof
  assume ?l
  then obtain k where k: "k < length [n..<Suc (length s)]" "matches_at pat s ([n..<Suc (length s)] ! k)" "i = [n..<Suc (length s)] ! k"
    "\<And>j. j < k \<Longrightarrow> \<not> matches_at pat s ([n..<Suc (length s)] ! j)"
    by (auto simp: str_find_def matches_at_def find_Some_iff)
  have i: "i = n + k" "n + k \<le> length s" using k(1,3) by (simp_all del: upt_Suc)
  have "\<not> matches_at pat s j" if "n \<le> j" "j < i" for j
    using k(4)[of "j - n"] that i by (simp del: upt_Suc)
  then show ?r using k(2,3) i by (simp del: upt_Suc)
next
  assume ?r
  then show ?l
    unfolding str_find_def find_Some_iff
    by (intro exI[of _ "i - n"]) (auto simp: matches_at_def simp del: upt_Suc)
qed

lemma str_find_None: "str_find pat s n = None \<longleftrightarrow> (\<forall>j. n \<le> j \<and> j \<le> length s \<longrightarrow> \<not> matches_at pat s j)"
  by (auto simp: str_find_def find_None_iff matches_at_def simp del: upt_Suc)

lemma str_find_empty: "n \<le> length s \<Longrightarrow> str_find [] s n = Some n"
  by (auto simp: str_find_Some matches_at_def)

text \<open>Text without the first character of a pattern can be skipped.\<close>

lemma matches_at_first:
  assumes "matches_at pat (y @ t) i" "pat \<noteq> []" "hd pat \<notin> set y"
  shows "length y \<le> i"
proof (rule ccontr)
  assume "\<not> length y \<le> i"
  then have i: "i < length y" by simp
  then have "hd (take (length pat) (drop i (y @ t))) = y ! i" using assms(2) by (simp add: hd_drop_conv_nth nth_append)
  then show False using assms i by (metis matches_at_def nth_mem)
qed

lemma str_find_skip:
  assumes "pat \<noteq> []" "hd pat \<notin> set y"
  shows "str_find pat (d @ y @ t) (length d) = str_find pat (d @ y @ t) (length (d @ y))"
proof -
  have k: "length (d @ y) \<le> j" if "matches_at pat (d @ y @ t) j" "length d \<le> j" for j
    using matches_at_first[of pat y t "j - length d"] matches_at_append[of pat d "y @ t" "j - length d"] that assms by simp
  show ?thesis
  proof (cases "str_find pat (d @ y @ t) (length (d @ y))")
    case None
    then have "str_find pat (d @ y @ t) (length d) = None" using k unfolding str_find_None by blast
    then show ?thesis using None by simp
  next
    case (Some a)
    then have "str_find pat (d @ y @ t) (length d) = Some a" using k unfolding str_find_Some by fastforce
    then show ?thesis using Some by simp
  qed
qed

lemma replace_between_skip:
  assumes "pre \<noteq> []" "hd pre \<notin> set y"
  shows "replace_between pre inner new suf (d @ y @ t) (length d) = replace_between pre inner new suf (d @ y @ t) (length (d @ y))"
  by (subst (1 2) replace_between.simps) (simp only: str_find_skip[OF assms])

lemma after_suffix_first:
  assumes "after_suffix suf u = Some rest"
  shows "\<exists>old. u = old @ suf @ rest \<and> (\<forall>i < length old. \<not> matches_at suf u i)"
  using assms
proof (induction suf u rule: after_suffix.induct)
  case (1 suf)
  then show ?case by (intro exI[of _ "[]"]) (simp split: if_splits)
next
  case (2 suf c cs)
  show ?case
  proof (cases "take (length suf) (c # cs) = suf")
    case True
    then have "c # cs = suf @ rest" using "2.prems" by (metis after_suffix.simps(2) append_take_drop_id option.inject)
    then show ?thesis by (intro exI[of _ "[]"]) simp
  next
    case False
    then obtain old where old: "cs = old @ suf @ rest" "\<forall>i < length old. \<not> matches_at suf cs i"
      using 2 by (auto split: if_splits)
    have "\<not> matches_at suf (c # cs) i" if "i < length (c # old)" for i
      using False old(2) that by (cases i) (simp_all add: matches_at_def)
    then show ?thesis using old(1) by (intro exI[of _ "c # old"]) simp
  qed
qed

text \<open>The other editor on text before, at and without a field.\<close>

lemma modify_skip:
  "\<forall>i < length x. \<not> matches_at pre (x @ t) i \<Longrightarrow> edit_field pre new suf (x @ t) = x @ edit_field pre new suf t"
proof (induction x)
  case (Cons c x)
  have "\<not> matches_at pre (c # x @ t) 0" using Cons.prems by force
  then have no: "take (length pre) (c # x @ t) \<noteq> pre" by (simp add: matches_at_def)
  have "\<forall>i < length x. \<not> matches_at pre (x @ t) i"
  proof (intro allI impI)
    fix i assume "i < length x"
    then have "\<not> matches_at pre ((c # x) @ t) (Suc i)" using Cons.prems by simp
    then show "\<not> matches_at pre (x @ t) i" by (simp add: matches_at_def)
  qed
  then show ?case using Cons.IH no by simp
qed simp

lemma modify_field:
  assumes "pre \<noteq> []" "after_suffix suf u = Some rest"
  shows "edit_field pre new suf (pre @ u) = pre @ new @ suf @ edit_field pre new suf rest"
proof -
  obtain c cs where "pre = c # cs" using assms(1) by (cases pre) simp_all
  then show ?thesis using assms by simp
qed

text \<open>Every field has its end on its line.\<close>

definition fields_end :: "string \<Rightarrow> string \<Rightarrow> string \<Rightarrow> bool" where
  "fields_end pre suf s \<longleftrightarrow> (\<forall>i \<in> {0..length s}. matches_at pre s i \<longrightarrow> after_suffix suf (drop (i + length pre) s) \<noteq> None)"

lemma fields_end_drop: "fields_end pre suf (x @ t) \<Longrightarrow> fields_end pre suf t"
  unfolding fields_end_def
proof (intro ballI impI)
  fix i assume f: "\<forall>i \<in> {0..length (x @ t)}. matches_at pre (x @ t) i \<longrightarrow> after_suffix suf (drop (i + length pre) (x @ t)) \<noteq> None"
    and i: "i \<in> {0..length t}" "matches_at pre t i"
  then have "matches_at pre (x @ t) (length x + i)" by (simp add: matches_at_append)
  then show "after_suffix suf (drop (i + length pre) t) \<noteq> None" using f[rule_format, of "length x + i"] i(1) by (simp add: add.assoc)
qed

lemma replace_between_edits:
  assumes "pre \<noteq> []" "hd pre \<notin> set new" "hd pre \<notin> set suf" "fields_end pre suf t"
  shows "replace_between pre [] new suf (d @ t) (length d) = Some (d @ edit_field pre new suf t)"
  using assms(4)
proof (induction "length t" arbitrary: d t rule: less_induct)
  case less
  show ?case
  proof (cases "str_find pre (d @ t) (length d)")
    case None
    then have "\<not> matches_at pre t i" if "i < length t" for i
      using that matches_at_append[of pre d t i] by (simp add: str_find_None)
    then have "edit_field pre new suf t = t" using modify_skip[of t pre "[]" new suf] by simp
    then show ?thesis using None by (subst replace_between.simps) simp
  next
    case (Some p)
    define i where "i = p - length d"
    have p: "p = length d + i" "i \<le> length t" "matches_at pre t i" "\<forall>j < i. \<not> matches_at pre t j"
    proof -
      have s: "length d \<le> p" "p \<le> length (d @ t)" "matches_at pre (d @ t) p" "\<forall>j. length d \<le> j \<and> j < p \<longrightarrow> \<not> matches_at pre (d @ t) j"
        using Some unfolding str_find_Some by blast+
      then show "p = length d + i" "i \<le> length t" by (simp_all add: i_def)
      then show "matches_at pre t i" using s(3) matches_at_append[of pre d t i] by simp
      show "\<forall>j < i. \<not> matches_at pre t j"
        using s(4) \<open>p = length d + i\<close> by (metis matches_at_append le_add1 nat_add_left_cancel_less)
    qed
    define x u where "x = take i t" and "u = drop (i + length pre) t"
    have t: "t = x @ pre @ u" "length x = i" using matches_at_split[OF p(3,2)] p(2) by (simp_all add: x_def u_def)
    have "after_suffix suf u \<noteq> None" using less.prems p(2,3) by (simp add: fields_end_def u_def)
    then obtain rest where rest: "after_suffix suf u = Some rest" by blast
    obtain old where old: "u = old @ suf @ rest" "\<forall>i < length old. \<not> matches_at suf u i" using after_suffix_first[OF rest] by blast
    let ?D = "d @ x @ pre"
    have n: "p + length pre = length ?D" using p(1) t(2) by simp
    have "str_find suf (d @ t) (length ?D) = Some (length ?D + length old)"
    proof -
      have "\<not> matches_at suf (?D @ u) j" if "length ?D \<le> j" "j < length ?D + length old" for j
        using matches_at_append[of suf ?D u "j - length ?D"] old(2) that by simp
      moreover have "matches_at suf (?D @ u) (length ?D + length old)" unfolding matches_at_append by (simp add: matches_at_def old(1))
      ultimately show ?thesis using t(1) old(1) by (auto simp: str_find_Some)
    qed
    then have e: "str_find suf (d @ t) (p + length pre + length ([] :: string)) = Some (length ?D + length old)" by (simp only: n list.size add_0_right)
    have "str_find [] (d @ t) (p + length pre) = Some (p + length pre)" using n t(1) by (intro str_find_empty) simp
    then have "replace_between pre [] new suf (d @ t) (length d)
        = replace_between pre [] new suf (take (p + length pre + length ([] :: string)) (d @ t) @ new @ drop (length ?D + length old) (d @ t))
            (p + length pre + length ([] :: string))"
      using Some e by (subst replace_between.simps) (simp only: option.case)
    also have "p + length pre + length ([] :: string) = length ?D" using n by simp
    also have "take (length ?D) (d @ t) @ new @ drop (length ?D + length old) (d @ t) = ?D @ (new @ suf) @ rest"
      using t(1) old(1) by simp
    also have "replace_between pre [] new suf (?D @ (new @ suf) @ rest) (length ?D)
        = replace_between pre [] new suf ((?D @ new @ suf) @ rest) (length (?D @ new @ suf))"
      using replace_between_skip[of pre "new @ suf" "[]" new suf ?D rest] assms(1-3) by simp
    also have "\<dots> = Some ((?D @ new @ suf) @ edit_field pre new suf rest)"
    proof (rule less.hyps)
      show "length rest < length t" using t(1) old(1) assms(1) by (simp add: less_Suc_eq_le)
      show "fields_end pre suf rest" using fields_end_drop[of pre suf "x @ pre @ old @ suf" rest] less.prems t(1) old(1) by simp
    qed
    also have "(?D @ new @ suf) @ edit_field pre new suf rest = d @ edit_field pre new suf t"
      using modify_skip[of x pre "pre @ u" new suf] modify_field[OF assms(1) rest] p(4) t by simp
    finally show ?thesis .
  qed
qed


lemma all_nat_range: "(\<forall>i \<in> {0..n}. P i) \<longleftrightarrow> list_all P (rev [0..<Suc n])"
  by (auto simp: list_all_iff simp del: upt_Suc)


end
