(* ===== verification/Spec2Isabelle.thy ===== *)
theory Spec2Isabelle
  imports Rtp_Writer Media_Settings Ipo_Runs Rational_Arith Static_Rcu Memory_Layout Frame_Provider Rtp_Send_Stream Ipmx_Tracker Ipmx_Schedule Generic_Sender Media_Layout Media_Sending
begin

text \<open>
  A model of the core of the Rivermax development kit: the libraries under \<^verbatim>\<open>src/source/core\<close>,
  \<^verbatim>\<open>src/source/io_node\<close> and \<^verbatim>\<open>src/source/services\<close> that send and receive media streams on top of the
  Rivermax library, and the parts of \<^verbatim>\<open>src/source/apps\<close> that hold logic of their own.

  \<^bold>\<open>The program.\<close>  An application owns IO nodes, an IO node runs a loop over its streams, a stream hands out
  chunks of packet strides in memory that the application allocated for all of its nodes.  A sending node
  asks a buffer writer to fill a chunk with the RTP packets of the next frame, which a frame provider
  delivers; a receiving node takes the completed chunks of its streams, checks their RTP headers and passes
  them to a data consumer.  A redundant receive stream merges two network paths into one sequence of packets.

  \<^bold>\<open>The theories.\<close>
    \<^item> \<open>Prelude\<close>: the named collections, machine integers, byte order and the byte memory \<open>nat \<Rightarrow> u8\<close>, and
      \<open>ReturnStatus\<close> (\<^verbatim>\<open>services/error_handling\<close>).
    \<^item> \<open>Doubles\<close>: IEEE double precision as exact rationals rounded to 53 bits, to nearest even; the
      conversions to integers give \<open>None\<close> where C++ leaves them undefined.
    \<^item> \<open>Media_Defs\<close>, \<open>Media_Settings\<close>: the enumerations and settings of \<^verbatim>\<open>media_defs.h\<close> and
      \<^verbatim>\<open>app_settings\<close>, and their derivation by \<^verbatim>\<open>initialize_common_media_settings\<close> of \<^verbatim>\<open>media_utils.cpp\<close>.
    \<^item> \<open>Rtp_Writer\<close>: \<^verbatim>\<open>RTPMediaBufferWriter\<close> and \<^verbatim>\<open>RTPVideoBufferWriter\<close> (\<^verbatim>\<open>services/buffer_wr\<close>).
    \<^item> \<open>Rtp_Send_Stream\<close>: the older sender \<^verbatim>\<open>RtpVideoSendStream\<close> with its send times.
    \<^item> \<open>Rtp_Receive\<close>: \<^verbatim>\<open>AppRTPReceiveStream\<close> and the receiver node's chunk and flow handling.
    \<^item> \<open>Ipo_Receive\<close>, \<open>Ipo_Runs\<close>: \<^verbatim>\<open>IPOReceiveStream\<close>, the ring of packet slots, its paths and its statistics in
      \<^verbatim>\<open>AppIPOReceiveStream\<close>, with the abstract reorder buffer that a call implements; and what follows over any
      number of calls for the chunks and for the statistics.
    \<^item> \<open>Receive_Stream\<close>: \<^verbatim>\<open>ReceiveStream\<close>, its descriptor and the flows attached to it.
    \<^item> \<open>Memory_Alloc\<close>, \<open>Memory_Layout\<close>: the allocators, and the negotiation of buffers between the application
      (\<^verbatim>\<open>RmaxBaseMemoryStrategy\<close>), the nodes and the streams.
    \<^item> \<open>Frame_Pool\<close>, \<open>Frame_Provider\<close>: the pool of media frames and the providers that queue them.
    \<^item> \<open>Rational_Arith\<close>, \<open>Static_Rcu\<close>: the fraction class and the wait-free publication of versions.
    \<^item> \<open>Send_Stream\<close>: the chunks and streams of the sending side, \<^verbatim>\<open>GenericChunk\<close>, \<^verbatim>\<open>MediaChunk\<close>,
      \<^verbatim>\<open>GenericSendStream\<close> and \<^verbatim>\<open>MediaSendStream\<close> (\<^verbatim>\<open>core/chunk\<close>, \<^verbatim>\<open>core/stream/send\<close>).
    \<^item> \<open>Ipmx_Report\<close>, \<open>Ipmx_Tracker\<close>: the RTCP reports of IPMX streams, from the sender's template to the receiver's parser
      (\<^verbatim>\<open>ipmx.cpp\<close>), and the timeline tracker of the receiver application (\<^verbatim>\<open>ipmx_stream_timeline_tracker.cpp\<close>).
    \<^item> \<open>Ipmx_Sender\<close>, \<open>Ipmx_Schedule\<close>: the sender node \<^verbatim>\<open>IPMXSenderIONode\<close> with its senders and the shared handler of
      their reports, and its properties.
    \<^item> \<open>Flows\<close>, \<open>App_Flows\<close>: the network flows (\<^verbatim>\<open>core/flow\<close>), and how the applications create them and deal
      streams and flows to threads (\<^verbatim>\<open>apps\<close>).
    \<^item> \<open>Generic_Sender\<close>: the node \<^verbatim>\<open>GenericSenderIONode\<close> with its buffer writers and its application.
    \<^item> \<open>Media_Sender\<close>, \<open>Media_Memory\<close>, \<open>Media_Layout\<close>, \<open>Media_Sending\<close>: the node \<^verbatim>\<open>MediaSenderIONode\<close> with its
      application, what its memory blocks hold, where they lie, and how a field is sent.
    \<^item> \<open>Spec2Isabelle\<close>, this theory: the properties that span sender and receiver.

  \<^bold>\<open>Correspondence.\<close>  A definition has the name of the C++ function or type it models; a prefix tells apart
  functions of the same name (\<open>app_\<close>, \<open>ipo_\<close>, \<open>node_\<close>, \<open>strategy_\<close>, \<open>file_\<close>, \<open>pool_\<close>).  Objects are records,
  member functions take the object and return it changed.  Integers are words of the width of the source, so
  they wrap as the code does.  A result \<open>None\<close> of type \<open>option\<close> is behaviour that C++ leaves undefined, or a
  call the model does not cover, as stated at the definition; an exception is a value \<open>Inl\<close>.  The Rivermax
  library, the operating system, CUDA and the clock are not part of the sources: what they return is an
  argument of the definitions, and no law is assumed of them except where a theorem names it.
  The threads of the frame pool and of the versions are step relations over all interleavings.

  \<^bold>\<open>Interfaces.\<close>  The locale \<open>memory_component\<close> holds what the memory strategy relies on; receive streams and
  receiver nodes are interpretations.  The locale \<open>frame_source\<close> holds what a sender relies on; the buffered
  provider and the file provider with and without looping are interpretations.

  \<^bold>\<open>What the lemmas show.\<close>  The writer: the state after \<open>k\<close> packets in closed form, the exact bytes of headers
  and payloads, one frame placed in order; the two implementations of the packet format agree.  The receiver:
  losses counted exactly across the wrap-around, frame events, totals, the flows of a node.  The redundant
  receiver: a simulation of the abstract reorder buffer, from its first packet and after a restart of the
  sender; over all calls, chunks in order without repetition, packets delivered, held or too early, and counters
  of every path that are the packets it brought and did not bring.  Settings: exact integers out of
  floating point detours, the size of a frame and whole packets for every format that is accepted.  Memory: regions
  of all streams, headers and payloads, disjoint and inside what was allocated, as long as the operating system hands
  out blocks that do not overlap; the requested sizes suffice.  Frames: first in, first out, and one owner each.
  Fractions: every operation ends, and throws exactly in the cases stated.

  Sending: the packets of a generic stream placed in its memory, chunks in turn, retries and destruction that end.
  IPMX: what the receiver reads of a report, field by field; the statistics of the receiver are those of the sequence of
  reports and frames; a sender has no more frames in flight than buffers, its chunks leave on schedule, every report on
  its way is accounted for, and a well-formed node makes no undefined step that the model checks.
  The generic sender: flows distinct and shared out without loss, the packets of all streams disjoint in the memory of
  the application, what the buffers hold, and the turns of streams, chunks and flows.
  The media sender: the memory blocks hold the file that is loaded into them, loading never leaves them, the settings of
  all accepted formats fit them, no headers or payloads of an application overlap, and a field leaves as one chunk of every
  stream in turn with its send time on the first turn.

  \<^bold>\<open>Bounds and fuel.\<close>  No recursion runs on fuel.  Loops over counters are structural on the number of rounds
  left; the skipping loop of the redundant stream and the loop of the greatest common divisor have a
  termination proof by a measure.  The loop that takes factors of two out of a fraction does not end on two
  zeros; it is a partial function, and a property shows that every operation of the class ends without dividing by zero.  A division whose divisor may be
  zero and an index that may be out of range give \<open>None\<close> where a theorem is about them (\<open>checked_div\<close> and
  \<open>checked_nth\<close> of the prelude).  Waiting for a condition variable is a value of its own, not a loop.

  \<^bold>\<open>Not modelled.\<close>  Printing; the command line, which the vendored CLI11 parses; the text of session
  descriptions; the latency nodes and what the application classes do with threads,
  signals and the set-up of the library; GPU clock control; statistics printing; the
  vendored code under \<^verbatim>\<open>services/legacy_util\<close> other than the fraction class and the helpers of
  \<^verbatim>\<open>rt_threads.cpp\<close> that the media settings use.
\<close>

section \<open>From the sender's headers to the receiver\<close>

lemma header_bytes_at:
  assumes "mem_read m a 20 = packet_header ms sid d" "i < 20"
  shows "m (a + i) = packet_header ms sid d ! i"
  using assms nth_mem_read[of i 20 m a] by simp

lemma packet_header_first: "packet_header ms sid d ! 0 = 0x80"
  by (simp add: packet_header_def)

lemma packet_header_sequence:
  "packet_header ms sid d ! 2 = ucast (drop_bit 8 (rtp_sequence d))" "packet_header ms sid d ! 3 = ucast (rtp_sequence d)"
  "packet_header ms sid d ! 12 = ucast (drop_bit 24 (rtp_sequence d))"
  "packet_header ms sid d ! 13 = ucast (drop_bit 16 (rtp_sequence d))"
  by (auto simp: packet_header_def bytes_be16_def bytes_be32_def bit_simps intro!: bit_word_eqI)

lemma sequence_from_bytes:
  "(ucast (ucast x :: u8) :: u32) OR push_bit 8 (ucast (ucast (drop_bit 8 x) :: u8)) = take_bit 16 (x :: u32)"
  "take_bit 16 x OR push_bit 24 (ucast (ucast (drop_bit 24 x) :: u8)) OR push_bit 16 (ucast (ucast (drop_bit 16 x) :: u8)) = x"
proof -
  show "(ucast (ucast x :: u8) :: u32) OR push_bit 8 (ucast (ucast (drop_bit 8 x) :: u8)) = take_bit 16 x"
    by (rule bit_word_eqI) (auto simp: bit_simps)
  show "take_bit 16 x OR push_bit 24 (ucast (ucast (drop_bit 24 x) :: u8)) OR push_bit 16 (ucast (ucast (drop_bit 16 x) :: u8)) = x"
  proof (rule bit_word_eqI)
    fix n assume "n < LENGTH(32)"
    then consider "n < 16" | "16 \<le> n" "n < 24" | "24 \<le> n" "n < 32" by fastforce
    then show "bit (take_bit 16 x OR push_bit 24 (ucast (ucast (drop_bit 24 x) :: u8))
        OR push_bit 16 (ucast (ucast (drop_bit 16 x) :: u8))) n = bit x n"
      by cases (auto simp: bit_simps)
  qed
qed

lemma parse_sent_header:
  assumes "mem_read m a 20 = packet_header ms sid d" "\<not> len < 4"
  shows "get_sequence_number is_extended m a len
    = Some (take_bit (if is_extended then 32 else 16) (rtp_sequence d))"
proof -
  note at = header_bytes_at[OF assms(1)]
  have "m a = 0x80" using at[of 0] packet_header_first by simp
  then show ?thesis
    using assms(2) at[of 2] at[of 3] at[of 12] at[of 13]
    using take_bit_word_eq_self[of 32 "rtp_sequence d"]
    by (simp add: get_sequence_number_def packet_header_sequence sequence_from_bytes Let_def or.assoc)
qed

text \<open>C3: what the sender writes, the receiver counts without loss.  A writer in the
  middle of a stream writes \<open>n\<close> packets into a contiguous block; the block is handed to a receive stream
  without header-data split whose last sequence number is the one before the first of these packets,
  plain or extended.  Then fetching the chunk reports no packet as dropped and no header as corrupt,
  counts \<open>n\<close> packets, and leaves the sequence number of the last packet written.\<close>

theorem sent_packets_are_received:
  assumes "wf_writer w" "m_send_data w = stream_state (m_media_settings w) d k"
    and "unat (protocol_header_size (m_media_settings w)) = 20"
    and "20 + payload_size w \<le> unat (m_data_stride_size w)"
    and "write_buffer p n (w, m) = Some (status, w', m')"
    and "wf_stream s" "m_initialized s" "\<not> m_is_header_data_split s"
    and "m_payload_stride_size s = unat (m_data_stride_size w)"
    and "rtp_sequence (m_send_data w) = word_of_nat (q + 1)" "m_last_sequence_number s = seq_of (seq_bits s) q"
    and "chunk_payload_ptr chunk = p" "length (chunk_packets chunk) = n"
    and "\<forall>info\<in>set (chunk_packets chunk). \<not> sub_block_size_0 info < 4"
  shows "\<exists>s'. get_next_chunk m' success chunk s = (success, s')
    \<and> rx_dropped (m_statistic s') = rx_dropped (m_statistic s)
    \<and> rx_corrupt_header (m_statistic s') = rx_corrupt_header (m_statistic s)
    \<and> rx_count (m_statistic s') = rx_count (m_statistic s) + word_of_nat n
    \<and> m_last_sequence_number s' = seq_of (seq_bits s) (q + n)"
proof -
  let ?ms = "m_media_settings w" and ?st = "unat (m_data_stride_size w)"
  have rd: "mem_read m' (p + i * ?st) 20 = packet_header ?ms (m_ssrc w) (stream_state ?ms d (k + i))" if "i < n" for i
    using write_buffer_strides[OF assms(1-4), of p n m] assms(5) that by (auto simp: Let_def)
  have sq: "rtp_sequence (stream_state ?ms d (k + i)) = word_of_nat (q + 1 + i)" for i
  proof -
    have "rtp_sequence d + word_of_nat k = word_of_nat (q + 1)"
      using assms(2,10) by (simp add: stream_state_def Let_def)
    then have "rtp_sequence d + (word_of_nat k + word_of_nat i) = word_of_nat (q + 1) + word_of_nat i"
      by (simp add: add.assoc[symmetric])
    then show ?thesis by (simp add: stream_state_def Let_def)
  qed
  let ?ps = "map (\<lambda>i. q + 1 + i) [0..<n]"
  have carry: "headers_carry s m' (header_stride s) (chunk_headers s chunk) (chunk_packets chunk) ?ps"
    unfolding headers_carry_def
  proof (intro conjI allI impI)
    fix i assume i: "i < length ?ps"
    then have "chunk_packets chunk ! i \<in> set (chunk_packets chunk)" using assms(13) by simp
    then have "\<not> header_check_length s (chunk_packets chunk ! i) < 4"
      using assms(8,14) by (simp add: header_check_length_def)
    then show "get_sequence_number (m_is_extended_sequence_number s) m' (chunk_headers s chunk + i * header_stride s)
        (header_check_length s (chunk_packets chunk ! i)) = Some (seq_of (seq_bits s) (?ps ! i))"
      using parse_sent_header[OF rd, of i] i assms(8,9,12)
      by (simp add: chunk_headers_def header_stride_def sq seq_of_def)
  qed (use assms(13) in simp)
  have gaps: "gaps_ok b q0 (map (\<lambda>i. q0 + 1 + i) [0..<n])" for b q0
  proof (induction n arbitrary: q0)
    case (Suc n)
    have "map (\<lambda>i. q0 + 1 + i) [0..<Suc n] = (q0 + 1) # map (\<lambda>i. (q0 + 1) + 1 + i) [0..<n]"
      by (simp add: upt_conv_Cons map_Suc_upt[symmetric] comp_def del: upt_Suc)
    then show ?case using Suc.IH[of "q0 + 1"] by simp
  qed simp
  have last: "last (q # ?ps) = q + n"
  proof (cases n)
    case (Suc j)
    then have "?ps = map (\<lambda>i. q + 1 + i) [0..<j] @ [q + n]" by simp
    then show ?thesis by (metis last_ConsR last_snoc append_is_Nil_conv not_Cons_self2)
  qed simp
  let ?s1 = "update_both (\<lambda>st. st\<lparr>rx_count := rx_count st + word_of_nat (length (chunk_packets chunk))\<rparr>) s"
  show ?thesis
    using process_strides_losses[of ?s1 q ?ps m' "header_stride s" "chunk_headers s chunk" "chunk_packets chunk"]
      assms(6,7,11,13) carry gaps
    unfolding last by (simp add: get_next_chunk_success Let_def)
qed


theorem sent_packets_are_received_witness:
  "\<exists>w' m' s'. write_buffer 0 2 (example_writer, \<lambda>_. 0) = Some (success, w', m')
    \<and> get_next_chunk m' success
        (example_chunk\<lparr>chunk_packets := replicate 2 \<lparr>sub_block_size_0 = 23, sub_block_size_1 = 0, packet_timestamp = 0\<rparr>\<rparr>)
        (example_stream\<lparr>m_payload_stride_size := 64, m_last_sequence_number := 65535\<rparr>) = (success, s')
    \<and> rx_dropped (m_statistic s') = 0 \<and> m_last_sequence_number s' = 1"
proof -
  let ?c = "example_chunk\<lparr>chunk_packets := replicate 2 \<lparr>sub_block_size_0 = 23, sub_block_size_1 = 0, packet_timestamp = 0\<rparr>\<rparr>"
  let ?s = "example_stream\<lparr>m_payload_stride_size := 64, m_last_sequence_number := 65535\<rparr>"
  note ex = example_writer_wf
  have pre: "wf_writer example_writer"
    "m_send_data example_writer = stream_state (m_media_settings example_writer) (m_send_data example_writer) 0"
    "unat (protocol_header_size (m_media_settings example_writer)) = 20"
    "20 + payload_size example_writer \<le> unat (m_data_stride_size example_writer)"
    using ex by simp_all
  obtain w' m' where wb: "write_buffer 0 2 (example_writer, \<lambda>_. 0) = Some (success, w', m')"
    using write_buffer_strides[OF pre, of 0 2 "\<lambda>_. 0"] by blast
  have seq: "rtp_sequence (m_send_data example_writer) = word_of_nat (2 ^ 32 - 1 + 1)"
    by (simp add: example_writer_def RTPMediaBufferWriter_def)
  have "\<exists>s'. get_next_chunk m' success ?c ?s = (success, s')
    \<and> rx_dropped (m_statistic s') = rx_dropped (m_statistic ?s)
    \<and> rx_corrupt_header (m_statistic s') = rx_corrupt_header (m_statistic ?s)
    \<and> rx_count (m_statistic s') = rx_count (m_statistic ?s) + word_of_nat 2
    \<and> m_last_sequence_number s' = seq_of (seq_bits ?s) (2 ^ 32 - 1 + 2)"
    by (rule sent_packets_are_received[OF pre wb _ _ _ _ seq])
       (simp_all add: ex wf_stream_def example_stream_def AppRTPReceiveStream_new_def example_chunk_def
         RTP_SEQUENCE_NUMBER_MASK_16BIT_def mask_eq_exp_minus_1 seq_of_def)
  then show ?thesis
    using wb by (auto simp: example_stream_def AppRTPReceiveStream_new_def RXStatistics_zero_def seq_of_def)
qed

end
